(* ===== verification/Ark_Prelude.thy ===== *)
theory Ark_Prelude
  imports Main "HOL-Library.Word"
begin

text \<open>
  Shared vocabulary of the development: names for the machine integer types of the C++
  sources, the theorem collections the component theories fill, and the generic facts on
  words, bits and lists that several components use.
\<close>

unbundle bit_operations_syntax

section \<open>Machine types\<close>

type_synonym u8 = "8 word"
type_synonym u16 = "16 word"
type_synonym u32 = "32 word"
type_synonym u64 = "64 word"

section \<open>Theorem collections\<close>

named_theorems word_norm "normal forms for word expressions shared by the codecs"

section \<open>Bits and words\<close>

lemma bit_127_iff:
  "bit (127 :: 'a::len word) m \<longleftrightarrow> m < 7 \<and> m < LENGTH('a)"
proof -
  have "(127 :: 'a word) = mask 7" by (simp add: mask_eq_exp_minus_1)
  then show ?thesis by (simp only: bit_mask_iff) auto
qed

lemma push_bit_split7:
  fixes w :: "'a::len word"
  shows "push_bit n (w AND 127) OR push_bit (n + 7) (drop_bit 7 w) = push_bit n w"
proof (rule bit_word_eqI)
  fix k assume "k < LENGTH('a)"
  have "7 + (k - (n + 7)) = k - n" if "\<not> k < n + 7"
    using that by simp
  then show "bit (push_bit n (w AND 127) OR push_bit (n + 7) (drop_bit 7 w)) k = bit (push_bit n w) k"
    using \<open>k < LENGTH('a)\<close>
    by (cases "k < n + 7")
      (auto simp: bit_or_iff bit_and_iff bit_push_bit_iff bit_drop_bit_eq bit_127_iff
         simp del: bit_numeral_word_iff)
qed

lemma unat_less_drop_bit:
  fixes w :: "'a::len word"
  assumes "unat w < 2 ^ (m + n)"
  shows "unat (drop_bit n w) < 2 ^ m"
proof -
  have "unat w div 2 ^ n < 2 ^ m"
    using assms by (simp add: less_mult_imp_div_less power_add)
  then show ?thesis unfolding unat_drop_bit_eq by (simp only: drop_bit_eq_div)
qed

lemma unat_less_power_iff_bit:
  fixes w :: "'a::len word"
  shows "unat w < 2 ^ k \<longleftrightarrow> (\<forall>i < LENGTH('a). k \<le> i \<longrightarrow> \<not> bit w i)"
proof -
  have "unat w < 2 ^ k \<longleftrightarrow> take_bit k (unat w) = unat w"
    by (simp add: take_bit_nat_eq_self_iff)
  also have "\<dots> \<longleftrightarrow> (\<forall>i. bit (take_bit k (unat w)) i = bit (unat w) i)"
    by (simp only: bit_eq_iff possible_bit_nat) blast
  also have "\<dots> \<longleftrightarrow> (\<forall>i. k \<le> i \<longrightarrow> \<not> bit w i)"
    by (simp only: bit_take_bit_iff bit_unsigned_iff possible_bit_nat) (metis not_less)
  also have "\<dots> \<longleftrightarrow> (\<forall>i < LENGTH('a). k \<le> i \<longrightarrow> \<not> bit w i)"
    by (auto dest: bit_imp_le_length)
  finally show ?thesis .
qed

lemma unat_and_mask:
  "unat (w AND (2 ^ k - 1)) = unat w mod 2 ^ k" for w :: "'a::len word"
proof -
  have "w AND (2 ^ k - 1) = take_bit k w" by (simp add: take_bit_eq_mask mask_eq_exp_minus_1)
  then show ?thesis by (simp only: unsigned_take_bit_eq) (simp add: take_bit_eq_mod)
qed

section \<open>Lists\<close>

text \<open>Reading memory behind a pointer: nothing is read past the end.\<close>

definition nth_opt :: "'a list \<Rightarrow> nat \<Rightarrow> 'a option" where
  "nth_opt xs i = (if i < length xs then Some (xs ! i) else None)"

lemma nth_opt_simps [simp]:
  "nth_opt [] i = None" "nth_opt (x # xs) 0 = Some x" "nth_opt (x # xs) (Suc i) = nth_opt xs i"
  by (simp_all add: nth_opt_def)

lemma nth_opt_numeral [simp]: "nth_opt (x # xs) (numeral k) = nth_opt xs (pred_numeral k)"
  by (simp add: numeral_eq_Suc)

lemma nth_opt_append: "nth_opt (xs @ ys) i = (if i < length xs then Some (xs ! i) else nth_opt ys (i - length xs))"
  by (auto simp: nth_opt_def nth_append)

lemma nth_opt_eq_Some: "nth_opt xs i = Some x \<longleftrightarrow> i < length xs \<and> xs ! i = x"
  by (auto simp: nth_opt_def)

text \<open>The last index below \<open>n\<close> at which a predicate fails, found by a downward scan.\<close>

lemma downward_scan_le_iff:
  "n - length (takeWhile P (rev [0..<n])) \<le> k \<longleftrightarrow> (\<forall>i < n. k \<le> i \<longrightarrow> P i)"
proof (induction n)
  case 0
  then show ?case by simp
next
  case (Suc n)
  then show ?case
    by (cases "P n") (auto simp: less_Suc_eq)
qed

end
