(* ===== verification/Data_Types.thy ===== *)
theory Data_Types
  imports Ark_Prelude
begin

text \<open>
  Types and condition codes of the compiler's intermediate representation:
  \<^verbatim>\<open>libarkbase/utils/arch.h\<close>, \<^verbatim>\<open>compiler/optimizer/ir/datatype.h\<close> and the condition codes of
  \<^verbatim>\<open>compiler/optimizer/ir/inst.h\<close> and \<^verbatim>\<open>inst.cpp\<close>. A branch that ends in \<open>UNREACHABLE()\<close> is
  \<open>None\<close>. The size of an object pointer is a build option of the sources (4 or 8) and an
  argument \<open>ops\<close> here.
\<close>

section \<open>Architectures\<close>

datatype Arch = NONE | AARCH32 | AARCH64 | X86 | X86_64

fun Is64BitsArch :: "Arch \<Rightarrow> bool option" where
  "Is64BitsArch NONE = None"
| "Is64BitsArch X86 = Some False"
| "Is64BitsArch X86_64 = Some True"
| "Is64BitsArch AARCH32 = Some False"
| "Is64BitsArch AARCH64 = Some True"

section \<open>Data types\<close>

datatype DataType = NO_TYPE | REFERENCE | BOOL | UINT8 | INT8 | UINT16 | INT16 | UINT32 | INT32
  | UINT64 | INT64 | FLOAT32 | FLOAT64 | ANY | VOID | POINTER

fun ToString :: "DataType \<Rightarrow> string" where
  "ToString NO_TYPE = ''''"
| "ToString REFERENCE = ''ref''"
| "ToString BOOL = ''b''"
| "ToString UINT8 = ''u8''"
| "ToString INT8 = ''i8''"
| "ToString UINT16 = ''u16''"
| "ToString INT16 = ''i16''"
| "ToString UINT32 = ''u32''"
| "ToString INT32 = ''i32''"
| "ToString UINT64 = ''u64''"
| "ToString INT64 = ''i64''"
| "ToString FLOAT32 = ''f32''"
| "ToString FLOAT64 = ''f64''"
| "ToString ANY = ''any''"
| "ToString VOID = ''void''"
| "ToString POINTER = ''ptr''"

definition IsGeneralizedIntType :: "DataType \<Rightarrow> bool" where
  "IsGeneralizedIntType type \<longleftrightarrow>
     type \<noteq> NO_TYPE \<and> type \<noteq> VOID \<and> type \<noteq> ANY \<and> type \<noteq> FLOAT32 \<and> type \<noteq> FLOAT64"

definition GetCommonType :: "DataType \<Rightarrow> DataType" where
  "GetCommonType type =
     (if type \<in> {BOOL, UINT8, INT8, UINT16, INT16, UINT32, INT32, UINT64, INT64} then INT64
      else if type \<in> {REFERENCE, POINTER} then POINTER
      else type)"

definition IsInt32Bit :: "DataType \<Rightarrow> bool" where
  "IsInt32Bit type \<longleftrightarrow> type \<in> {BOOL, UINT8, INT8, UINT16, INT16, UINT32, INT32}"

definition IsTypeNumeric :: "DataType \<Rightarrow> bool" where
  "IsTypeNumeric type \<longleftrightarrow> type \<in> {BOOL, UINT8, INT8, UINT16, INT16, UINT32, INT32, UINT64, INT64,
     FLOAT32, FLOAT64, POINTER}"

definition IsLessInt32 :: "DataType \<Rightarrow> bool" where
  "IsLessInt32 type \<longleftrightarrow> type \<in> {BOOL, UINT8, INT8, UINT16, INT16}"

definition GetIntTypeForReference :: "nat \<Rightarrow> Arch \<Rightarrow> DataType option" where
  "GetIntTypeForReference ops arch =
     (if arch = AARCH32 then Some UINT32
      else if ops = 8 then Some UINT64
      else if ops = 4 then Some UINT32
      else None)"

definition GetIntTypeBySize :: "nat \<Rightarrow> bool \<Rightarrow> DataType option" where
  "GetIntTypeBySize sizeInBytes isSigned =
     (if sizeInBytes \<le> 1 then Some (if isSigned then INT8 else UINT8)
      else if sizeInBytes \<le> 2 then Some (if isSigned then INT16 else UINT16)
      else if sizeInBytes \<le> 4 then Some (if isSigned then INT32 else UINT32)
      else if sizeInBytes \<le> 8 then Some (if isSigned then INT64 else UINT64)
      else None)"

definition Is32Bits_int :: "DataType \<Rightarrow> bool" where
  "Is32Bits_int type \<longleftrightarrow> type \<in> {BOOL, UINT8, INT8, UINT16, INT16, UINT32, INT32, FLOAT32}"

definition Is32Bits :: "nat \<Rightarrow> DataType \<Rightarrow> Arch \<Rightarrow> bool option" where
  "Is32Bits ops type arch =
     (if Is32Bits_int type then Some True
      else if type = POINTER then map_option Not (Is64BitsArch arch)
      else if type = REFERENCE then map_option Is32Bits_int (GetIntTypeForReference ops arch)
      else Some False)"

definition Is64Bits :: "nat \<Rightarrow> DataType \<Rightarrow> Arch \<Rightarrow> bool option" where
  "Is64Bits ops type arch = map_option Not (Is32Bits ops type arch)"

definition IsFloatType :: "DataType \<Rightarrow> bool" where
  "IsFloatType type \<longleftrightarrow> type \<in> {FLOAT32, FLOAT64}"

definition IsTypeSigned :: "DataType \<Rightarrow> bool" where
  "IsTypeSigned type \<longleftrightarrow> type \<in> {INT8, INT16, INT32, INT64, FLOAT32, FLOAT64}"

definition IsReference :: "DataType \<Rightarrow> bool" where
  "IsReference type \<longleftrightarrow> type = REFERENCE"

definition IsAny :: "DataType \<Rightarrow> bool" where
  "IsAny type \<longleftrightarrow> type = ANY"

text \<open>\<open>ShiftByType\<close> calls itself once, for the integer type that stands for a reference, which is
  never a reference: \<open>ShiftByType_plain\<close> are its other branches.\<close>

definition ShiftByType_plain :: "DataType \<Rightarrow> Arch \<Rightarrow> nat option" where
  "ShiftByType_plain type arch =
     (if type \<in> {VOID, BOOL, UINT8, INT8} then Some 0
      else if type \<in> {UINT16, INT16} then Some 1
      else if type \<in> {UINT32, INT32, FLOAT32} then Some 2
      else if type \<in> {UINT64, INT64, FLOAT64, ANY} then Some 3
      else if type = POINTER then map_option (\<lambda>b. if b then 3 else 2) (Is64BitsArch arch)
      else None)"

definition ShiftByType :: "nat \<Rightarrow> DataType \<Rightarrow> Arch \<Rightarrow> nat option" where
  "ShiftByType ops type arch =
     (if type = REFERENCE
      then (case GetIntTypeForReference ops arch of None \<Rightarrow> None | Some t \<Rightarrow> ShiftByType_plain t arch)
      else ShiftByType_plain type arch)"

definition GetTypeSize :: "nat \<Rightarrow> DataType \<Rightarrow> Arch \<Rightarrow> nat option" where
  "GetTypeSize ops type arch = map_option (\<lambda>s. 8 * 2 ^ s) (ShiftByType ops type arch)"

definition GetTypeByteSize :: "nat \<Rightarrow> DataType \<Rightarrow> Arch \<Rightarrow> nat option" where
  "GetTypeByteSize ops type arch = map_option (\<lambda>s. 2 ^ s) (ShiftByType ops type arch)"

definition NeedCastIntTypes :: "nat \<Rightarrow> Arch \<Rightarrow> DataType \<Rightarrow> DataType \<Rightarrow> bool option" where
  "NeedCastIntTypes ops arch typeBefore typeAfter =
     (case (GetTypeSize ops typeBefore arch, GetTypeSize ops typeAfter arch) of
        (Some sizeBefore, Some sizeAfter) \<Rightarrow>
          let extendNotNeed = (sizeBefore < sizeAfter \<and> sizeAfter \<le> 32)
          in Some (\<not> extendNotNeed \<or> IsTypeSigned typeBefore \<noteq> IsTypeSigned typeAfter)
      | _ \<Rightarrow> None)"

definition NeedCastForTypes :: "nat \<Rightarrow> Arch \<Rightarrow> DataType \<Rightarrow> DataType \<Rightarrow> bool option" where
  "NeedCastForTypes ops arch typeBefore typeAfter =
     (if typeBefore = typeAfter then Some False
      else if IsFloatType typeBefore \<or> IsFloatType typeAfter then Some True
      else NeedCastIntTypes ops arch typeBefore typeAfter)"

section \<open>Condition codes\<close>

datatype ConditionCode = CC_EQ | CC_NE | CC_LT | CC_LE | CC_GT | CC_GE | CC_B | CC_BE | CC_A | CC_AE
  | CC_TST_EQ | CC_TST_NE

fun Compare :: "ConditionCode \<Rightarrow> 'a::len word \<Rightarrow> 'a word \<Rightarrow> bool" where
  "Compare CC_EQ lhs rhs = (lhs = rhs)"
| "Compare CC_NE lhs rhs = (lhs \<noteq> rhs)"
| "Compare CC_LT lhs rhs = (sint lhs < sint rhs)"
| "Compare CC_LE lhs rhs = (sint lhs \<le> sint rhs)"
| "Compare CC_GT lhs rhs = (sint lhs > sint rhs)"
| "Compare CC_GE lhs rhs = (sint lhs \<ge> sint rhs)"
| "Compare CC_B lhs rhs = (lhs < rhs)"
| "Compare CC_BE lhs rhs = (lhs \<le> rhs)"
| "Compare CC_A lhs rhs = (lhs > rhs)"
| "Compare CC_AE lhs rhs = (lhs \<ge> rhs)"
| "Compare CC_TST_EQ lhs rhs = (lhs AND rhs = 0)"
| "Compare CC_TST_NE lhs rhs = (lhs AND rhs \<noteq> 0)"

fun GetInverseConditionCode :: "ConditionCode \<Rightarrow> ConditionCode" where
  "GetInverseConditionCode CC_EQ = CC_NE"
| "GetInverseConditionCode CC_NE = CC_EQ"
| "GetInverseConditionCode CC_LT = CC_GE"
| "GetInverseConditionCode CC_LE = CC_GT"
| "GetInverseConditionCode CC_GT = CC_LE"
| "GetInverseConditionCode CC_GE = CC_LT"
| "GetInverseConditionCode CC_B = CC_AE"
| "GetInverseConditionCode CC_BE = CC_A"
| "GetInverseConditionCode CC_A = CC_BE"
| "GetInverseConditionCode CC_AE = CC_B"
| "GetInverseConditionCode CC_TST_EQ = CC_TST_NE"
| "GetInverseConditionCode CC_TST_NE = CC_TST_EQ"

fun InverseSignednessConditionCode :: "ConditionCode \<Rightarrow> ConditionCode" where
  "InverseSignednessConditionCode CC_EQ = CC_EQ"
| "InverseSignednessConditionCode CC_NE = CC_NE"
| "InverseSignednessConditionCode CC_LT = CC_B"
| "InverseSignednessConditionCode CC_LE = CC_BE"
| "InverseSignednessConditionCode CC_GT = CC_A"
| "InverseSignednessConditionCode CC_GE = CC_AE"
| "InverseSignednessConditionCode CC_B = CC_LT"
| "InverseSignednessConditionCode CC_BE = CC_LE"
| "InverseSignednessConditionCode CC_A = CC_GT"
| "InverseSignednessConditionCode CC_AE = CC_GE"
| "InverseSignednessConditionCode CC_TST_EQ = CC_TST_EQ"
| "InverseSignednessConditionCode CC_TST_NE = CC_TST_NE"

definition IsSignedConditionCode :: "ConditionCode \<Rightarrow> bool" where
  "IsSignedConditionCode code \<longleftrightarrow> code \<in> {CC_LT, CC_LE, CC_GT, CC_GE}"

fun SwapOperandsConditionCode :: "ConditionCode \<Rightarrow> ConditionCode" where
  "SwapOperandsConditionCode CC_EQ = CC_EQ"
| "SwapOperandsConditionCode CC_NE = CC_NE"
| "SwapOperandsConditionCode CC_LT = CC_GT"
| "SwapOperandsConditionCode CC_LE = CC_GE"
| "SwapOperandsConditionCode CC_GT = CC_LT"
| "SwapOperandsConditionCode CC_GE = CC_LE"
| "SwapOperandsConditionCode CC_B = CC_A"
| "SwapOperandsConditionCode CC_BE = CC_AE"
| "SwapOperandsConditionCode CC_A = CC_B"
| "SwapOperandsConditionCode CC_AE = CC_BE"
| "SwapOperandsConditionCode CC_TST_EQ = CC_TST_EQ"
| "SwapOperandsConditionCode CC_TST_NE = CC_TST_NE"

section \<open>Facts on condition codes\<close>

lemma Compare_inverse: "Compare (GetInverseConditionCode cc) x y \<longleftrightarrow> \<not> Compare cc x y"
  by (cases cc) auto

lemma Compare_swap: "Compare (SwapOperandsConditionCode cc) y x \<longleftrightarrow> Compare cc x y"
  by (cases cc) (auto simp: and.commute)

lemma sint_nonneg_less_iff:
  fixes x y :: "'a::len word"
  assumes "0 \<le> sint x" "0 \<le> sint y"
  shows "x < y \<longleftrightarrow> sint x < sint y" and "x \<le> y \<longleftrightarrow> sint x \<le> sint y"
proof -
  have "uint v = sint v" if "0 \<le> sint v" for v :: "'a word"
  proof -
    have "sint v < 2 ^ (LENGTH('a) - 1)" by (rule sint_lt)
    also have "(2::int) ^ (LENGTH('a) - 1) \<le> 2 ^ LENGTH('a)" by simp
    finally show ?thesis using that by (simp add: uint_sint take_bit_int_eq_self)
  qed
  then show "x < y \<longleftrightarrow> sint x < sint y" and "x \<le> y \<longleftrightarrow> sint x \<le> sint y"
    using assms by (simp_all add: word_less_def word_le_def)
qed

lemma Compare_signedness:
  fixes x y :: "'a::len word"
  assumes "0 \<le> sint x" "0 \<le> sint y"
  shows "Compare (InverseSignednessConditionCode cc) x y \<longleftrightarrow> Compare cc x y"
  using assms by (cases cc) (simp_all add: sint_nonneg_less_iff)

section \<open>Facts on types\<close>

lemma type_cases_int:
  "IsGeneralizedIntType t \<longleftrightarrow>
     t \<in> {REFERENCE, BOOL, UINT8, INT8, UINT16, INT16, UINT32, INT32, UINT64, INT64, POINTER}"
  by (cases t) (simp_all add: IsGeneralizedIntType_def)

text \<open>The width in bits of an integer type.\<close>

fun int_width :: "DataType \<Rightarrow> nat" where
  "int_width UINT8 = 8" | "int_width INT8 = 8"
| "int_width UINT16 = 16" | "int_width INT16 = 16"
| "int_width UINT32 = 32" | "int_width INT32 = 32"
| "int_width _ = 64"

lemma int_width_le_64: "int_width t \<le> 64"
  by (cases t) simp_all

section \<open>Properties\<close>

text \<open>the three transformations of condition codes do to the comparison what they are named for,
  at every width.\<close>

theorem condition_code_algebra:
  fixes x y :: "'a::len word"
  shows "(Compare (GetInverseConditionCode cc) x y \<longleftrightarrow> \<not> Compare cc x y) \<and>
    (Compare (SwapOperandsConditionCode cc) y x \<longleftrightarrow> Compare cc x y) \<and>
    (0 \<le> sint x \<longrightarrow> 0 \<le> sint y \<longrightarrow>
      (Compare (InverseSignednessConditionCode cc) x y \<longleftrightarrow> Compare cc x y))"
  using Compare_inverse Compare_swap Compare_signedness by blast

theorem condition_code_algebra_witness:
  "0 \<le> sint (3 :: u32) \<and> 0 \<le> sint (9 :: u32) \<and> Compare CC_LT (3 :: u32) 9 \<and> Compare CC_B (3 :: u32) 9"
  using condition_code_algebra[of CC_LT "3 :: u32" 9] by simp

end
