(* ===== verification/Spill_Fills.thy ===== *)
theory Spill_Fills
  imports Data_Types "HOL-Library.Monad_Syntax"
begin

text \<open>
  The spill-fill instructions of the register allocator and the pass that orders their moves:
  \<^verbatim>\<open>compiler/optimizer/ir/locations.h\<close>, \<^verbatim>\<open>ir/spill_fill_data.h\<close>, the class
  \<open>SpillFillInst\<close> of \<^verbatim>\<open>ir/inst.h\<close>, the temporary registers of \<^verbatim>\<open>ir/graph.h\<close> and
  \<^verbatim>\<open>graph.cpp\<close>, and \<^verbatim>\<open>optimizations/regalloc/spill_fills_resolver.h\<close> and
  \<^verbatim>\<open>.cpp\<close>. An operation is \<open>None\<close> where it indexes a vector out of its bounds, where a
  branch is \<open>UNREACHABLE()\<close> and, in a debug build (\<open>ndebug\<close> of the graph is false), where
  an \<open>ASSERT\<close> fails. A release build skips the assertions and goes on.
\<close>

section \<open>Locations\<close>

text \<open>The two fields of \<open>Location::bitFields_\<close>: the kind in the low three bits, the value in
  the other thirteen.\<close>

datatype Kind = LOC_INVALID | REGISTER | FP_REGISTER | IMMEDIATE | STACK | STACK_PARAMETER
  | STACK_ARGUMENT

datatype Location = Loc (GetKind: Kind) (GetValue: nat)

definition ASSERT :: "bool \<Rightarrow> bool \<Rightarrow> unit option" where
  "ASSERT nd c = (if nd \<or> c then Some () else None)"

text \<open>The mask of the value in its place above the three bits of the kind.\<close>

definition ValueFieldMask :: nat where
  "ValueFieldMask = (2 ^ 13 - 1) * 2 ^ 3"

text \<open>The constructor: \<open>BitField::Encode\<close> asserts that the value fits, \<open>CHECK_LT\<close> stops a release
  build too, and the conversion to \<open>uint16_t\<close> drops the bits that do not fit. The check compares the
  value with the mask in its place, so it lets values from 2^13 pass.\<close>

definition MakeLocation :: "bool \<Rightarrow> Kind \<Rightarrow> nat \<Rightarrow> Location option" where
  "MakeLocation nd kind value = do {
     ASSERT nd (value < 2 ^ 13);
     ASSERT False (value < ValueFieldMask);
     Some (Loc kind (value mod 2 ^ 13))
   }"

lemma location_value_truncated: "MakeLocation True kind (2 ^ 13) = Some (Loc kind 0)"
  by (simp add: MakeLocation_def ASSERT_def ValueFieldMask_def)

definition IsInvalid :: "Location \<Rightarrow> bool" where
  "IsInvalid l \<longleftrightarrow> GetKind l = LOC_INVALID"

definition IsConstant :: "Location \<Rightarrow> bool" where
  "IsConstant l \<longleftrightarrow> GetKind l = IMMEDIATE"

definition IsRegister :: "Location \<Rightarrow> bool" where
  "IsRegister l \<longleftrightarrow> GetKind l = REGISTER"

definition IsFpRegister :: "Location \<Rightarrow> bool" where
  "IsFpRegister l \<longleftrightarrow> GetKind l = FP_REGISTER"

definition IsStack :: "Location \<Rightarrow> bool" where
  "IsStack l \<longleftrightarrow> GetKind l = STACK"

definition IsStackArgument :: "Location \<Rightarrow> bool" where
  "IsStackArgument l \<longleftrightarrow> GetKind l = STACK_ARGUMENT"

definition IsStackParameter :: "Location \<Rightarrow> bool" where
  "IsStackParameter l \<longleftrightarrow> GetKind l = STACK_PARAMETER"

definition IsAnyStack :: "Location \<Rightarrow> bool" where
  "IsAnyStack l \<longleftrightarrow> IsStack l \<or> IsStackArgument l \<or> IsStackParameter l"

definition IsAnyRegister :: "Location \<Rightarrow> bool" where
  "IsAnyRegister l \<longleftrightarrow> IsRegister l \<or> IsFpRegister l"

lemmas location_tests = IsInvalid_def IsConstant_def IsRegister_def IsFpRegister_def IsStack_def
  IsStackArgument_def IsStackParameter_def IsAnyStack_def IsAnyRegister_def

definition MakeRegister :: "bool \<Rightarrow> nat \<Rightarrow> Location option" where
  "MakeRegister nd i = MakeLocation nd REGISTER i"

definition MakeFpRegister :: "bool \<Rightarrow> nat \<Rightarrow> Location option" where
  "MakeFpRegister nd i = MakeLocation nd FP_REGISTER i"

definition MakeTypedRegister :: "bool \<Rightarrow> nat \<Rightarrow> DataType \<Rightarrow> Location option" where
  "MakeTypedRegister nd i type = (if IsFloatType type then MakeFpRegister nd i else MakeRegister nd i)"

definition MakeStackSlot :: "bool \<Rightarrow> nat \<Rightarrow> Location option" where
  "MakeStackSlot nd i = MakeLocation nd STACK i"

definition MakeStackArgument :: "bool \<Rightarrow> nat \<Rightarrow> Location option" where
  "MakeStackArgument nd i = MakeLocation nd STACK_ARGUMENT i"

definition MakeStackParameter :: "bool \<Rightarrow> nat \<Rightarrow> Location option" where
  "MakeStackParameter nd i = MakeLocation nd STACK_PARAMETER i"

text \<open>\<open>ConvertRegType\<close> of \<^verbatim>\<open>optimizations/regalloc/reg_type.h\<close>: the type of a register of an interval.
  The arguments are \<open>IsBytecodeOptimizer\<close> and \<open>IsRegScalarMapped\<close> of the graph, the build's size of an object
  pointer and the architecture.\<close>

definition ConvertRegTypeNotFloat :: "bool \<Rightarrow> bool \<Rightarrow> nat \<Rightarrow> Arch \<Rightarrow> DataType \<Rightarrow> DataType option" where
  "ConvertRegTypeNotFloat bytecodeOptimizer scalarMapped ops arch type =
     (if bytecodeOptimizer \<and> type = REFERENCE then Some type
      else if scalarMapped \<or> bytecodeOptimizer
      then map_option (\<lambda>b. if b then UINT32 else UINT64) (Is32Bits ops type arch)
      else Some UINT64)"

definition ConvertRegType :: "bool \<Rightarrow> bool \<Rightarrow> bool \<Rightarrow> nat \<Rightarrow> Arch \<Rightarrow> DataType \<Rightarrow> DataType option" where
  "ConvertRegType nd bytecodeOptimizer scalarMapped ops arch type =
     (if IsFloatType type
      then Some (if bytecodeOptimizer then if type = FLOAT32 then UINT32 else UINT64 else type)
      else do {
        ASSERT nd (GetCommonType type = INT64 \<or> type = REFERENCE \<or> type = POINTER \<or> type = ANY);
        ConvertRegTypeNotFloat bytecodeOptimizer scalarMapped ops arch type
      })"

section \<open>Spill-fills\<close>

record SpillFillData =
  sf_src :: Location
  sf_dst :: Location
  sf_type :: DataType

definition mkSpillFill :: "Location \<Rightarrow> Location \<Rightarrow> DataType \<Rightarrow> SpillFillData" where
  "mkSpillFill src dst type = \<lparr>sf_src = src, sf_dst = dst, sf_type = type\<rparr>"

definition SrcType :: "SpillFillData \<Rightarrow> Kind" where
  "SrcType sf = GetKind (sf_src sf)"

definition DstType :: "SpillFillData \<Rightarrow> Kind" where
  "DstType sf = GetKind (sf_dst sf)"

definition SrcValue :: "SpillFillData \<Rightarrow> nat" where
  "SrcValue sf = GetValue (sf_src sf)"

definition DstValue :: "SpillFillData \<Rightarrow> nat" where
  "DstValue sf = GetValue (sf_dst sf)"

definition SetSrc :: "Location \<Rightarrow> SpillFillData \<Rightarrow> SpillFillData" where
  "SetSrc l sf = sf\<lparr>sf_src := l\<rparr>"

definition SetDst :: "Location \<Rightarrow> SpillFillData \<Rightarrow> SpillFillData" where
  "SetDst l sf = sf\<lparr>sf_dst := l\<rparr>"

definition SetMoveType :: "DataType \<Rightarrow> SpillFillData \<Rightarrow> SpillFillData" where
  "SetMoveType type sf = sf\<lparr>sf_type := type\<rparr>"

text \<open>A \<open>SpillFillInst\<close> is its vector of moves. \<open>AddSpillFill\<close> of two locations builds both
  of them again from their kind and value.\<close>

definition AddSpillFill :: "bool \<Rightarrow> Location \<Rightarrow> Location \<Rightarrow> DataType \<Rightarrow> SpillFillData list \<Rightarrow> SpillFillData list option" where
  "AddSpillFill nd src dst type sfs = do {
     s \<leftarrow> MakeLocation nd (GetKind src) (GetValue src);
     d \<leftarrow> MakeLocation nd (GetKind dst) (GetValue dst);
     Some (sfs @ [mkSpillFill s d type])
   }"

definition RemoveSpillFill :: "nat \<Rightarrow> SpillFillData list \<Rightarrow> SpillFillData list option" where
  "RemoveSpillFill n sfs = (if n < length sfs then Some (take n sfs @ drop (Suc n) sfs) else None)"

definition GetInputReg :: "bool \<Rightarrow> nat \<Rightarrow> SpillFillData list \<Rightarrow> nat option" where
  "GetInputReg nd n sfs = do {
     sf \<leftarrow> nth_opt sfs n;
     ASSERT nd (SrcType sf = REGISTER);
     Some (SrcValue sf)
   }"

definition AddMove :: "bool \<Rightarrow> nat \<Rightarrow> nat \<Rightarrow> DataType \<Rightarrow> SpillFillData list \<Rightarrow> SpillFillData list option" where
  "AddMove nd src dst type sfs = do {
     s \<leftarrow> MakeTypedRegister nd src type;
     d \<leftarrow> MakeTypedRegister nd dst type;
     AddSpillFill nd s d type sfs
   }"

definition AddSpill :: "bool \<Rightarrow> nat \<Rightarrow> nat \<Rightarrow> DataType \<Rightarrow> SpillFillData list \<Rightarrow> SpillFillData list option" where
  "AddSpill nd src dst type sfs = do {
     s \<leftarrow> MakeTypedRegister nd src type;
     d \<leftarrow> MakeStackSlot nd dst;
     AddSpillFill nd s d type sfs
   }"

definition AddFill :: "bool \<Rightarrow> nat \<Rightarrow> nat \<Rightarrow> DataType \<Rightarrow> SpillFillData list \<Rightarrow> SpillFillData list option" where
  "AddFill nd src dst type sfs = do {
     s \<leftarrow> MakeStackSlot nd src;
     d \<leftarrow> MakeTypedRegister nd dst type;
     AddSpillFill nd s d type sfs
   }"

definition AddMemCopy :: "bool \<Rightarrow> nat \<Rightarrow> nat \<Rightarrow> DataType \<Rightarrow> SpillFillData list \<Rightarrow> SpillFillData list option" where
  "AddMemCopy nd src dst type sfs = do {
     s \<leftarrow> MakeStackSlot nd src;
     d \<leftarrow> MakeStackSlot nd dst;
     AddSpillFill nd s d type sfs
   }"

section \<open>The graph\<close>

text \<open>What the resolver asks its graph. The masks come from the target description and the
  register file: \<open>tempMask\<close> is \<open>Target::GetTempRegsMask\<close>, \<open>regMask\<close> is
  \<open>GetArchUsedRegs\<close>, \<open>tempVReg\<close> is \<open>GetRegisters()->GetTempVReg()\<close>
  (\<open>None\<close> without a register file, \<open>INVALID_REG\<close> when it has none).
  \<open>objPtrSize\<close> is the size of an object pointer of the build, \<open>usedRegs\<close> and
  \<open>usedVregs\<close> are the registers the method uses. \<open>largeFrame\<close> is \<open>IsFrameSizeLarge\<close>: the option
  of a build with libabckit that allows frames of more than 255 registers.\<close>

record RegGraph =
  ndebug :: bool
  largeFrame :: bool
  arch_of :: Arch
  objPtrSize :: nat
  tempMask :: "bool list"
  regMask :: "bool list"
  tempVReg :: "nat option"
  stackSlotsCount :: nat
  parametersSlotsCount :: nat
  usedRegs :: "bool list"
  usedVregs :: "bool list"

definition INVALID_REG :: nat where
  "INVALID_REG = 255"

definition INVALID_REG_LARGE :: nat where
  "INVALID_REG_LARGE = 2 ^ (2 * 8 - 4) * 2 - 1"

definition GetInvalidReg :: "RegGraph \<Rightarrow> nat" where
  "GetInvalidReg g = (if largeFrame g then INVALID_REG_LARGE else INVALID_REG)"

definition MAX_NUM_REGS :: nat where
  "MAX_NUM_REGS = 32"

definition MAX_NUM_VREGS :: nat where
  "MAX_NUM_VREGS = 32"

definition in_mask :: "bool list \<Rightarrow> nat \<Rightarrow> bool" where
  "in_mask m i \<longleftrightarrow> i < length m \<and> m ! i"

definition GetArchTempReg :: "RegGraph \<Rightarrow> nat" where
  "GetArchTempReg g = (case filter (\<lambda>reg. in_mask (tempMask g) reg \<and> in_mask (regMask g) reg) (rev [0..<32]) of
     [] \<Rightarrow> INVALID_REG
   | reg # _ \<Rightarrow> reg)"

definition GetArchTempVReg :: "RegGraph \<Rightarrow> nat" where
  "GetArchTempVReg g = (case tempVReg g of None \<Rightarrow> INVALID_REG | Some reg \<Rightarrow> reg)"

definition SetRegUsage :: "nat \<Rightarrow> DataType \<Rightarrow> RegGraph \<Rightarrow> RegGraph option" where
  "SetRegUsage reg type g = do {
     ASSERT (ndebug g) (reg \<noteq> GetInvalidReg g);
     (if IsFloatType type
      then (if reg < length (usedVregs g) then Some (g\<lparr>usedVregs := (usedVregs g)[reg := True]\<rparr>) else None)
      else (if reg < length (usedRegs g) then Some (g\<lparr>usedRegs := (usedRegs g)[reg := True]\<rparr>) else None))
   }"

section \<open>The resolver\<close>

text \<open>A \<open>LocationIndex\<close> is a 16-bit number. \<open>loadsCount\<close> has a byte for each location.\<close>

definition INVALID_LOCATION_INDEX :: nat where
  "INVALID_LOCATION_INDEX = 65535"

definition to_index :: "nat \<Rightarrow> nat" where
  "to_index n = n mod 2 ^ 16"

record MoveInfo =
  move_src :: nat
  regType :: DataType

record SpillFillsResolver =
  movesTable :: "MoveInfo list"
  loadsCount :: "u8 list"
  preMoves :: "SpillFillData list"
  postMoves :: "SpillFillData list"
  resolverReg :: nat
  vregsTableOffset :: nat
  slotsTableOffset :: nat
  parameterSlotsOffset :: nat
  locationsCount :: nat
  regWrite :: "bool list"
  stackWrite :: "bool list"

definition no_move :: MoveInfo where
  "no_move = \<lparr>move_src = INVALID_LOCATION_INDEX, regType = NO_TYPE\<rparr>"

text \<open>The constructor. \<open>resize\<close> fills \<open>movesTable\<close> with zeros, which
  \<open>CollectSpillFillsData\<close> overwrites before they are read.\<close>

definition NewResolver :: "RegGraph \<Rightarrow> nat \<Rightarrow> nat \<Rightarrow> nat \<Rightarrow> SpillFillsResolver option" where
  "NewResolver g resolver regsCount vregsCount = do {
     let slots = regsCount + vregsCount;
     let params = slots + stackSlotsCount g;
     let count = params + parametersSlotsCount g;
     ASSERT (ndebug g) (INVALID_LOCATION_INDEX > count);
     Some \<lparr>movesTable = replicate count \<lparr>move_src = 0, regType = NO_TYPE\<rparr>,
           loadsCount = replicate count 0, preMoves = [], postMoves = [], resolverReg = resolver,
           vregsTableOffset = regsCount, slotsTableOffset = slots, parameterSlotsOffset = params,
           locationsCount = count, regWrite = replicate slots False,
           stackWrite = replicate (count - slots) False\<rparr>
   }"

definition DefaultResolver :: "RegGraph \<Rightarrow> SpillFillsResolver option" where
  "DefaultResolver g = NewResolver g (GetInvalidReg g) MAX_NUM_REGS MAX_NUM_VREGS"

definition Map :: "RegGraph \<Rightarrow> SpillFillsResolver \<Rightarrow> Location \<Rightarrow> nat option" where
  "Map g r location =
     (if IsRegister location then Some (to_index (GetValue location))
      else if IsFpRegister location then Some (to_index (GetValue location + vregsTableOffset r))
      else if IsStack location then Some (to_index (GetValue location + slotsTableOffset r))
      else do {
        ASSERT (ndebug g) (IsStackParameter location);
        Some (to_index (GetValue location + parameterSlotsOffset r))
      })"

definition ToLocation :: "RegGraph \<Rightarrow> SpillFillsResolver \<Rightarrow> nat \<Rightarrow> Location option" where
  "ToLocation g r reg =
     (if reg \<ge> parameterSlotsOffset r then MakeStackParameter (ndebug g) (reg - parameterSlotsOffset r)
      else if reg \<ge> slotsTableOffset r then MakeStackSlot (ndebug g) (reg - slotsTableOffset r)
      else if reg \<ge> vregsTableOffset r then MakeFpRegister (ndebug g) (reg - vregsTableOffset r)
      else MakeRegister (ndebug g) reg)"

definition IsPairedReg :: "RegGraph \<Rightarrow> DataType \<Rightarrow> bool option" where
  "IsPairedReg g type =
     (if arch_of g = NONE then Some False
      else do {
        w \<leftarrow> Is64BitsArch (arch_of g);
        (if w then Some False else Is64Bits (objPtrSize g) type (arch_of g))
      })"

subsection \<open>Conflicts\<close>

definition set_at :: "'a list \<Rightarrow> nat \<Rightarrow> 'a \<Rightarrow> 'a list option" where
  "set_at xs i x = (if i < length xs then Some (xs[i := x]) else None)"

definition reg_index :: "Location \<Rightarrow> nat \<Rightarrow> nat" where
  "reg_index location offset = (if IsFpRegister location then GetValue location + offset else GetValue location)"

definition MarkRegWrite :: "Location \<Rightarrow> bool \<Rightarrow> nat \<Rightarrow> bool list \<Rightarrow> bool list option" where
  "MarkRegWrite location paired offset rw = do {
     let reg = reg_index location offset;
     rw \<leftarrow> set_at rw reg True;
     (if paired then set_at rw (reg + 1) True else Some rw)
   }"

definition IsRegWrite :: "Location \<Rightarrow> bool \<Rightarrow> nat \<Rightarrow> bool list \<Rightarrow> bool option" where
  "IsRegWrite location paired offset rw = do {
     let reg = reg_index location offset;
     w \<leftarrow> nth_opt rw reg;
     (if w then Some True else if paired then nth_opt rw (reg + 1) else Some False)
   }"

definition stack_index :: "Location \<Rightarrow> nat \<Rightarrow> nat" where
  "stack_index location offset = (if IsStackParameter location then GetValue location + offset else GetValue location)"

definition MarkStackWrite :: "Location \<Rightarrow> nat \<Rightarrow> bool list \<Rightarrow> bool list option" where
  "MarkStackWrite location offset sw = set_at sw (stack_index location offset) True"

definition IsStackWrite :: "Location \<Rightarrow> nat \<Rightarrow> bool list \<Rightarrow> bool option" where
  "IsStackWrite location offset sw = nth_opt sw (stack_index location offset)"

definition same_place :: "SpillFillData \<Rightarrow> bool" where
  "same_place sf \<longleftrightarrow> DstType sf = SrcType sf \<and> DstValue sf = SrcValue sf"

text \<open>One turn of the loop of \<open>NeedToResolve\<close>: the marks after it, and whether it returned.\<close>

definition conflict_step :: "RegGraph \<Rightarrow> SpillFillsResolver \<Rightarrow> SpillFillData \<Rightarrow> bool list \<times> bool list
    \<Rightarrow> ((bool list \<times> bool list) \<times> bool) option" where
  "conflict_step g r sf marks = do {
     let (rw, sw) = marks;
     let paramSlotOffset = parameterSlotsOffset r - slotsTableOffset r;
     paired \<leftarrow> IsPairedReg g (sf_type sf);
     rw \<leftarrow> (if IsAnyRegister (sf_dst sf) then MarkRegWrite (sf_dst sf) paired (vregsTableOffset r) rw
                 else Some rw);
     hit \<leftarrow> (if IsAnyRegister (sf_src sf) then IsRegWrite (sf_src sf) paired (vregsTableOffset r) rw
             else Some False);
     (if hit then Some ((rw, sw), True)
      else do {
        sw \<leftarrow> (if DstType sf = STACK \<or> DstType sf = STACK_PARAMETER
                       then MarkStackWrite (sf_dst sf) paramSlotOffset sw else Some sw);
        hit \<leftarrow> (if SrcType sf = STACK \<or> SrcType sf = STACK_PARAMETER
                then IsStackWrite (sf_src sf) paramSlotOffset sw else Some False);
        Some ((rw, sw), hit)
      })
   }"

fun conflict_loop :: "RegGraph \<Rightarrow> SpillFillsResolver \<Rightarrow> SpillFillData list \<Rightarrow> bool list \<times> bool list
    \<Rightarrow> ((bool list \<times> bool list) \<times> bool) option" where
  "conflict_loop g r [] marks = Some (marks, False)"
| "conflict_loop g r (sf # sfs) marks =
     (if same_place sf then conflict_loop g r sfs marks
      else do {
        (marks, hit) \<leftarrow> conflict_step g r sf marks;
        (if hit then Some (marks, True) else conflict_loop g r sfs marks)
      })"

definition NeedToResolve :: "RegGraph \<Rightarrow> SpillFillData list \<Rightarrow> SpillFillsResolver \<Rightarrow> (SpillFillsResolver \<times> bool) option" where
  "NeedToResolve g sfs r =
     (if length sfs < 2 then Some (r, False)
      else do {
        ((rw, sw), hit) \<leftarrow> conflict_loop g r sfs
           (replicate (length (regWrite r)) False, replicate (length (stackWrite r)) False);
        Some (r\<lparr>regWrite := rw, stackWrite := sw\<rparr>, hit)
      })"

subsection \<open>Collecting the moves\<close>

definition collect_step :: "RegGraph \<Rightarrow> SpillFillData \<Rightarrow> SpillFillsResolver \<Rightarrow> SpillFillsResolver option" where
  "collect_step g sf r =
     (if same_place sf then Some r
      else if SrcType sf = IMMEDIATE then Some (r\<lparr>postMoves := postMoves r @ [sf]\<rparr>)
      else if DstType sf = STACK_ARGUMENT then Some (r\<lparr>preMoves := preMoves r @ [sf]\<rparr>)
      else do {
        srcIndex \<leftarrow> Map g r (sf_src sf);
        destIndex \<leftarrow> Map g r (sf_dst sf);
        ASSERT (ndebug g) (destIndex < locationsCount r \<and> srcIndex < locationsCount r);
        m \<leftarrow> nth_opt (movesTable r) destIndex;
        ASSERT (ndebug g) (move_src m = INVALID_LOCATION_INDEX);
        n \<leftarrow> nth_opt (loadsCount r) srcIndex;
        Some (r\<lparr>movesTable := (movesTable r)[destIndex := \<lparr>move_src = srcIndex, regType = sf_type sf\<rparr>],
                loadsCount := (loadsCount r)[srcIndex := n + 1]\<rparr>)
      })"

fun collect_loop :: "RegGraph \<Rightarrow> SpillFillData list \<Rightarrow> SpillFillsResolver \<Rightarrow> SpillFillsResolver option" where
  "collect_loop g [] r = Some r"
| "collect_loop g (sf # sfs) r = collect_step g sf r \<bind> collect_loop g sfs"

definition cleared :: "SpillFillsResolver \<Rightarrow> SpillFillsResolver" where
  "cleared r = r\<lparr>movesTable := replicate (length (movesTable r)) no_move,
                 loadsCount := replicate (length (loadsCount r)) 0,
                 preMoves := [], postMoves := []\<rparr>"

definition CollectSpillFillsData :: "RegGraph \<Rightarrow> SpillFillData list \<Rightarrow> SpillFillsResolver \<Rightarrow> SpillFillsResolver option" where
  "CollectSpillFillsData g sfs r = collect_loop g sfs (cleared r)"

subsection \<open>Chains of moves\<close>

text \<open>One turn of the loop of \<open>AddMovesChain\<close>, at the move \<open>src -> dst\<close>. \<open>remap\<close> maps
  a location that has been read to the location that holds a copy of it.\<close>

definition chain_step :: "RegGraph \<Rightarrow> nat \<Rightarrow> MoveInfo \<Rightarrow> SpillFillsResolver \<Rightarrow> nat list \<Rightarrow> SpillFillData list
    \<Rightarrow> (SpillFillsResolver \<times> nat list \<times> SpillFillData list) option" where
  "chain_step g dst m r remap out = do {
     let src = move_src m;
     re \<leftarrow> nth_opt remap src;
     from_loc \<leftarrow> ToLocation g r (if re = INVALID_LOCATION_INDEX then src else re);
     to_loc \<leftarrow> ToLocation g r dst;
     out \<leftarrow> AddSpillFill (ndebug g) from_loc to_loc (regType m) out;
     let remap = (if re = INVALID_LOCATION_INDEX then remap[src := dst] else remap);
     n \<leftarrow> nth_opt (loadsCount r) src;
     ASSERT (ndebug g) (n > 0);
     Some (r\<lparr>loadsCount := (loadsCount r)[src := n - 1],
             movesTable := (movesTable r)[dst := m\<lparr>move_src := INVALID_LOCATION_INDEX\<rparr>]\<rparr>, remap, out)
   }"

definition pending_count :: "MoveInfo list \<Rightarrow> nat" where
  "pending_count ms = length (filter (\<lambda>m. move_src m \<noteq> INVALID_LOCATION_INDEX) ms)"

lemma pending_count_clear:
  assumes "d < length ms" "move_src (ms ! d) \<noteq> INVALID_LOCATION_INDEX"
  shows "pending_count (ms[d := m\<lparr>move_src := INVALID_LOCATION_INDEX\<rparr>]) < pending_count ms"
proof -
  have u: "ms[d := m\<lparr>move_src := INVALID_LOCATION_INDEX\<rparr>]
      = take d ms @ m\<lparr>move_src := INVALID_LOCATION_INDEX\<rparr> # drop (Suc d) ms"
    using assms(1) by (rule upd_conv_take_nth_drop)
  have "pending_count ms = pending_count (take d ms @ ms ! d # drop (Suc d) ms)"
    using assms(1) by (simp add: id_take_nth_drop[symmetric])
  then show ?thesis
    unfolding u using assms(2) by (simp add: pending_count_def)
qed

lemma ASSERT_Some [simp]: "ASSERT nd c = Some u \<longleftrightarrow> nd \<or> c"
  by (simp add: ASSERT_def)

lemma chain_step_moves:
  "chain_step g dst m r remap out = Some (r', remap', out')
    \<Longrightarrow> movesTable r' = (movesTable r)[dst := m\<lparr>move_src := INVALID_LOCATION_INDEX\<rparr>]"
  by (auto simp: chain_step_def Let_def Option.bind_eq_Some_conv)

lemma chain_step_pending:
  assumes "nth_opt (movesTable r) dst = Some m" "move_src m \<noteq> INVALID_LOCATION_INDEX"
    and "chain_step g dst m r remap out = Some (r', remap', out')"
  shows "pending_count (movesTable r') < pending_count (movesTable r)"
  using assms(1,2) chain_step_moves[OF assms(3)] pending_count_clear[of dst "movesTable r" m]
  by (simp add: nth_opt_eq_Some)

function AddMovesChain_loop :: "RegGraph \<Rightarrow> nat \<Rightarrow> SpillFillsResolver \<Rightarrow> nat list \<Rightarrow> SpillFillData list
    \<Rightarrow> (nat \<times> SpillFillsResolver \<times> nat list \<times> SpillFillData list) option" where
  "AddMovesChain_loop g dst r remap out =
     (case nth_opt (movesTable r) dst of
        None \<Rightarrow> None
      | Some m \<Rightarrow>
          if move_src m = INVALID_LOCATION_INDEX then Some (dst, r, remap, out)
          else (case chain_step g dst m r remap out of
                  None \<Rightarrow> None
                | Some (r', remap', out') \<Rightarrow> AddMovesChain_loop g (move_src m) r' remap' out'))"
  by pat_completeness auto
termination
proof (relation "measure (\<lambda>(g, dst, r, remap, out). pending_count (movesTable r))", goal_cases)
  case 1
  show ?case by simp
next
  case (2 g dst r remap out m c r' p remap' out')
  then show ?case using chain_step_pending[of r dst m g remap out r' remap' out'] by (cases c) auto
qed

declare AddMovesChain_loop.simps [simp del]

definition AddMovesChain :: "bool \<Rightarrow> RegGraph \<Rightarrow> nat \<Rightarrow> SpillFillsResolver \<Rightarrow> nat list \<Rightarrow> SpillFillData list
    \<Rightarrow> (SpillFillsResolver \<times> nat list \<times> SpillFillData list) option" where
  "AddMovesChain cyclic g firstDst r remap out = do {
     re \<leftarrow> nth_opt remap firstDst;
     ASSERT (ndebug g) (firstDst \<noteq> INVALID_LOCATION_INDEX \<and> re = INVALID_LOCATION_INDEX);
     m \<leftarrow> nth_opt (movesTable r) firstDst;
     let firstSrc = move_src m;
     ASSERT (ndebug g) (firstSrc \<noteq> INVALID_LOCATION_INDEX);
     (dst, r, remap, out) \<leftarrow> AddMovesChain_loop g firstDst r remap out;
     (if cyclic then do {
        ASSERT (ndebug g) (dst = firstDst);
        re \<leftarrow> nth_opt remap firstDst;
        ASSERT (ndebug g) (re \<noteq> INVALID_LOCATION_INDEX);
        remap \<leftarrow> set_at remap firstSrc re;
        remap \<leftarrow> set_at remap firstDst INVALID_LOCATION_INDEX;
        Some (r, remap, out)
      } else Some (r, remap, out))
   }"

definition GetResolver :: "RegGraph \<Rightarrow> SpillFillsResolver \<Rightarrow> DataType \<Rightarrow> (RegGraph \<times> nat) option" where
  "GetResolver g r type =
     (if resolverReg r \<noteq> GetInvalidReg g then do {
        ASSERT (ndebug g) (\<not> IsFloatType type);
        g \<leftarrow> SetRegUsage (resolverReg r) type g;
        Some (g, resolverReg r)
      }
      else if arch_of g = AARCH32 then do {
        l \<leftarrow> MakeStackSlot (ndebug g) 0;
        i \<leftarrow> Map g r l;
        Some (g, i)
      }
      else if IsFloatType type then do {
        ASSERT (ndebug g) (GetArchTempVReg g \<noteq> GetInvalidReg g);
        Some (g, to_index (GetArchTempVReg g + vregsTableOffset r))
      }
      else do {
        ASSERT (ndebug g) (GetArchTempReg g \<noteq> GetInvalidReg g);
        Some (g, GetArchTempReg g)
      })"

text \<open>The walk along a cycle. The fuel is the size of the table, the bound the source asserts.\<close>

fun find_cycle_end :: "bool \<Rightarrow> nat \<Rightarrow> MoveInfo list \<Rightarrow> nat \<Rightarrow> nat \<Rightarrow> nat \<Rightarrow> nat option" where
  "find_cycle_end nd fuel moves dstFirst dstReg srcReg =
     (if srcReg = dstFirst then Some dstReg
      else case fuel of
             0 \<Rightarrow> None
           | Suc k \<Rightarrow> do {
               m \<leftarrow> nth_opt moves srcReg;
               ASSERT nd (move_src m \<noteq> INVALID_LOCATION_INDEX);
               find_cycle_end nd k moves dstFirst srcReg (move_src m)
             })"

declare find_cycle_end.simps [simp del]

definition CheckAndResolveCyclicDependency :: "RegGraph \<Rightarrow> nat \<Rightarrow> SpillFillsResolver
    \<Rightarrow> (RegGraph \<times> nat \<times> SpillFillsResolver) option" where
  "CheckAndResolveCyclicDependency g dstFirst r = do {
     m \<leftarrow> nth_opt (movesTable r) dstFirst;
     dstReg \<leftarrow> find_cycle_end (ndebug g) (length (movesTable r)) (movesTable r) dstFirst dstFirst (move_src m);
     (g, resolver) \<leftarrow> GetResolver g r (regType m);
     t \<leftarrow> nth_opt (movesTable r) resolver;
     moves \<leftarrow> set_at (movesTable r) resolver (t\<lparr>move_src := dstFirst\<rparr>);
     e \<leftarrow> nth_opt moves dstReg;
     moves \<leftarrow> set_at moves dstReg (e\<lparr>move_src := resolver\<rparr>);
     n \<leftarrow> nth_opt (loadsCount r) resolver;
     t \<leftarrow> nth_opt moves resolver;
     moves \<leftarrow> set_at moves resolver (t\<lparr>regType := regType e\<rparr>);
     Some (g, resolver, r\<lparr>movesTable := moves, loadsCount := (loadsCount r)[resolver := n + 1]\<rparr>)
   }"

fun add_tails :: "RegGraph \<Rightarrow> nat list \<Rightarrow> SpillFillsResolver \<times> nat list \<times> SpillFillData list
    \<Rightarrow> (SpillFillsResolver \<times> nat list \<times> SpillFillData list) option" where
  "add_tails g [] s = Some s"
| "add_tails g (dst # dsts) (r, remap, out) = do {
     n \<leftarrow> nth_opt (loadsCount r) dst;
     m \<leftarrow> nth_opt (movesTable r) dst;
     s \<leftarrow> (if n = 0 \<and> move_src m \<noteq> INVALID_LOCATION_INDEX then AddMovesChain False g dst r remap out
          else Some (r, remap, out));
     add_tails g dsts s
   }"

fun add_cycles :: "nat list \<Rightarrow> RegGraph \<times> SpillFillsResolver \<times> nat list \<times> SpillFillData list
    \<Rightarrow> (RegGraph \<times> SpillFillsResolver \<times> nat list \<times> SpillFillData list) option" where
  "add_cycles [] s = Some s"
| "add_cycles (dst # dsts) (g, r, remap, out) = do {
     m \<leftarrow> nth_opt (movesTable r) dst;
     (if move_src m = INVALID_LOCATION_INDEX then add_cycles dsts (g, r, remap, out)
      else do {
        n \<leftarrow> nth_opt (loadsCount r) dst;
        ASSERT (ndebug g) (n > 0);
        (g, temp, r) \<leftarrow> CheckAndResolveCyclicDependency g dst r;
        (r, remap, out) \<leftarrow> AddMovesChain True g temp r remap out;
        add_cycles dsts (g, r, remap, out)
      })
   }"

definition Reorder :: "RegGraph \<Rightarrow> SpillFillsResolver \<Rightarrow> (RegGraph \<times> SpillFillsResolver \<times> SpillFillData list) option" where
  "Reorder g r = do {
     let remap = replicate (locationsCount r) INVALID_LOCATION_INDEX;
     let dsts = [0..<to_index (locationsCount r)];
     (r, remap, out) \<leftarrow> add_tails g dsts (r, remap, preMoves r);
     (g, r, remap, out) \<leftarrow> add_cycles dsts (g, r, remap, out);
     Some (g, r, out @ postMoves r)
   }"

subsection \<open>Resolving\<close>

definition Resolve :: "RegGraph \<Rightarrow> SpillFillsResolver \<Rightarrow> SpillFillData list
    \<Rightarrow> (RegGraph \<times> SpillFillsResolver \<times> SpillFillData list) option" where
  "Resolve g r sfs = CollectSpillFillsData g sfs r \<bind> Reorder g"

definition ResolveIfRequired :: "RegGraph \<Rightarrow> SpillFillsResolver \<Rightarrow> SpillFillData list
    \<Rightarrow> (RegGraph \<times> SpillFillsResolver \<times> SpillFillData list) option" where
  "ResolveIfRequired g r sfs = do {
     (r, need) \<leftarrow> NeedToResolve g sfs r;
     (if need then Resolve g r sfs else Some (g, r, sfs))
   }"

definition VisitSpillFill :: "RegGraph \<Rightarrow> SpillFillsResolver \<Rightarrow> SpillFillData list
    \<Rightarrow> (RegGraph \<times> SpillFillsResolver \<times> SpillFillData list) option" where
  "VisitSpillFill g r sfs = do {
     (r, need) \<leftarrow> NeedToResolve g sfs r;
     (if need then Resolve g r sfs
      else if ndebug g then Some (g, r, sfs)
      else do {
        r \<leftarrow> CollectSpillFillsData g sfs r;
        Some (g, r, sfs)
      })
   }"

text \<open>\<open>Run\<close> over the spill-fill instructions of the graph, in the order it visits them.\<close>

fun Run :: "SpillFillData list list \<Rightarrow> RegGraph \<times> SpillFillsResolver \<Rightarrow> (SpillFillData list list \<times> RegGraph \<times> SpillFillsResolver) option" where
  "Run [] s = Some ([], s)"
| "Run (sfs # rest) (g, r) = do {
     (g, r, out) \<leftarrow> VisitSpillFill g r sfs;
     (outs, s) \<leftarrow> Run rest (g, r);
     Some (out # outs, s)
   }"

end
