(* ===== verification/Spill_Fills_Chains.thy ===== *)
theory Spill_Fills_Chains
  imports Spill_Fills
begin

text \<open>
  The algorithm of the resolver on its own: a set of moves is a partial function from
  destinations to sources, \<open>R\<close> says which destination holds a copy of a location that has
  been read, and a chain of moves follows the sources. The lemmas say what a chain leaves in
  memory and which moves are left after it.
\<close>

section \<open>A chain of moves\<close>

type_synonym moves = "nat \<Rightarrow> nat option"

definition holder :: "moves \<Rightarrow> nat \<Rightarrow> nat" where
  "holder R s = (case R s of None \<Rightarrow> s | Some r \<Rightarrow> r)"

definition note_copy :: "nat \<Rightarrow> nat \<Rightarrow> moves \<Rightarrow> moves" where
  "note_copy s d R = (if R s = None then R(s := Some d) else R)"

inductive chain :: "nat \<Rightarrow> moves \<Rightarrow> moves \<Rightarrow> (nat \<Rightarrow> 'v) \<Rightarrow> nat \<Rightarrow> moves \<Rightarrow> moves \<Rightarrow> (nat \<Rightarrow> 'v) \<Rightarrow> bool" where
  chain_stop: "M d = None \<Longrightarrow> chain d M R \<mu> d M R \<mu>"
| chain_move: "M d = Some s
    \<Longrightarrow> chain s (M(d := None)) (note_copy s d R) (\<mu>(d := \<mu> (holder R s))) z M' R' \<mu>'
    \<Longrightarrow> chain d M R \<mu> z M' R' \<mu>'"

inductive_cases chain_SomeE: "chain d M R \<mu> z M' R' \<mu>'"

lemma chain_start:
  assumes "chain d M R \<mu> z M' R' \<mu>'" "M d = Some s"
  shows "chain s (M(d := None)) (note_copy s d R) (\<mu>(d := \<mu> (holder R s))) z M' R' \<mu>'"
  using assms(1) by (rule chain_SomeE) (use assms(2) in auto)

lemma chain_less: "chain d M R \<mu> z M' R' \<mu>' \<Longrightarrow> M' \<subseteq>\<^sub>m M \<and> M' d = None \<and> M' z = None"
  by (induction rule: chain.induct) (auto simp: map_le_def split: if_splits)

lemma map_leD: "M' \<subseteq>\<^sub>m M \<Longrightarrow> M' x = Some y \<Longrightarrow> M x = Some y"
  by (metis domI map_le_def)

lemma map_le_None: "M' \<subseteq>\<^sub>m M \<Longrightarrow> M x = None \<Longrightarrow> M' x = None"
  by (metis domIff map_le_def)

lemma chain_note: "chain d M R \<mu> z M' R' \<mu>' \<Longrightarrow> R x \<noteq> None \<Longrightarrow> R' x \<noteq> None"
  by (induction rule: chain.induct) (auto simp: note_copy_def)

lemma chain_end_copied:
  assumes "chain d M R \<mu> z M' R' \<mu>'" "z \<noteq> d"
  shows "R' z \<noteq> None"
proof -
  have "z = d \<or> R' z \<noteq> None" if "chain d M R \<mu> z M' R' \<mu>'" for d M R and \<mu> :: "nat \<Rightarrow> 'a" and z M' R' \<mu>'
    using that
  proof (induction rule: chain.induct)
    case (chain_move M d s R \<mu> z M' R' \<mu>')
    then show ?case
      using chain_note[OF chain_move.hyps(2), of s] by (auto simp: note_copy_def split: if_splits)
  qed simp
  then show ?thesis using assms by blast
qed

text \<open>What the moves of a chain may rely on: the holder of each source that is still to be read
  has what the source held at first (\<open>c\<close>), and no move that is left overwrites a copy.\<close>

definition available :: "(nat \<Rightarrow> 'v) \<Rightarrow> moves \<Rightarrow> moves \<Rightarrow> (nat \<Rightarrow> 'v) \<Rightarrow> bool" where
  "available c M R \<mu> \<longleftrightarrow> (\<forall>x s. M x = Some s \<longrightarrow>
     s \<noteq> x \<and> \<mu> (holder R s) = c s \<and> (R s \<noteq> None \<longrightarrow> M (holder R s) = None))"

definition saved :: "moves \<Rightarrow> moves \<Rightarrow> nat \<Rightarrow> bool" where
  "saved M R d \<longleftrightarrow> R d \<noteq> None \<or> (\<forall>x. M x \<noteq> Some d)"

lemma available_move:
  assumes av: "available c M R \<mu>" and d: "saved M R d" and m: "M d = Some s"
  shows "available c (M(d := None)) (note_copy s d R) (\<mu>(d := \<mu> (holder R s)))"
    and "saved (M(d := None)) (note_copy s d R) s" and "\<mu> (holder R s) = c s"
proof -
  show c: "\<mu> (holder R s) = c s" using av m by (simp add: available_def)
  show "saved (M(d := None)) (note_copy s d R) s" by (simp add: saved_def note_copy_def)
  show "available c (M(d := None)) (note_copy s d R) (\<mu>(d := \<mu> (holder R s)))"
    unfolding available_def
  proof (intro allI impI)
    fix x t assume "(M(d := None)) x = Some t"
    then have x: "x \<noteq> d" "M x = Some t" by (auto split: if_splits)
    then have a: "t \<noteq> x" "\<mu> (holder R t) = c t" "R t \<noteq> None \<longrightarrow> M (holder R t) = None"
      using av by (auto simp: available_def)
    have h: "holder (note_copy s d R) t = (if t = s \<and> R s = None then d else holder R t)"
      by (simp add: holder_def note_copy_def)
    have "holder R t \<noteq> d" if "\<not> (t = s \<and> R s = None)"
    proof (cases "R t")
      case None
      then show ?thesis using d x(2) by (auto simp: holder_def saved_def)
    next
      case (Some u)
      then show ?thesis using a(3) m by auto
    qed
    then show "t \<noteq> x \<and> (\<mu>(d := \<mu> (holder R s))) (holder (note_copy s d R) t) = c t
        \<and> (note_copy s d R t \<noteq> None \<longrightarrow> (M(d := None)) (holder (note_copy s d R) t) = None)"
      unfolding h using a c x(2) m by (cases "t = s \<and> R s = None") (auto simp: note_copy_def split: if_splits)
  qed
qed

lemma chain_values:
  assumes "chain d M R \<mu> z M' R' \<mu>'" "available c M R \<mu>" "saved M R d"
  shows "available c M' R' \<mu>'"
    and "\<mu>' x = (if M x \<noteq> None \<and> M' x = None then c (the (M x)) else \<mu> x)"
proof -
  have "available c M' R' \<mu>' \<and> (\<forall>x. \<mu>' x = (if M x \<noteq> None \<and> M' x = None then c (the (M x)) else \<mu> x))"
    using assms
  proof (induction rule: chain.induct)
    case (chain_move M d s R \<mu> z M' R' \<mu>')
    note m = available_move[OF chain_move.prems chain_move.hyps(1)]
    note IH = chain_move.IH[OF m(1,2)]
    have "M' d = None" using chain_less[OF chain_move.hyps(2)] map_le_None[of M' "M(d := None)" d] by simp
    then show ?case using IH chain_move.hyps(1) m(3) by auto
  qed auto
  then show "available c M' R' \<mu>'" "\<mu>' x = (if M x \<noteq> None \<and> M' x = None then c (the (M x)) else \<mu> x)"
    by blast+
qed

text \<open>The moves that are left: none of their destinations has been read, and those that had a
  reader still have one.\<close>

lemma chain_frontier:
  assumes "chain d M R \<mu> z M' R' \<mu>'" "\<And>x. M x \<noteq> None \<Longrightarrow> x \<noteq> d \<Longrightarrow> R x = None"
    and "\<And>x. x \<in> X \<Longrightarrow> M x \<noteq> None \<Longrightarrow> x \<noteq> d \<Longrightarrow> \<exists>y. M y = Some x"
  shows "M' x \<noteq> None \<Longrightarrow> R' x = None" and "x \<in> X \<Longrightarrow> M' x \<noteq> None \<Longrightarrow> \<exists>y. M' y = Some x"
proof -
  have "(\<forall>x. M' x \<noteq> None \<longrightarrow> R' x = None) \<and> (\<forall>x \<in> X. M' x \<noteq> None \<longrightarrow> (\<exists>y. M' y = Some x))"
    using assms
  proof (induction rule: chain.induct)
    case (chain_stop M d R \<mu>)
    then show ?case by metis
  next
    case (chain_move M d s R \<mu> z M' R' \<mu>')
    show ?case
    proof (rule chain_move.IH)
      fix x assume "(M(d := None)) x \<noteq> None" "x \<noteq> s"
      then show "note_copy s d R x = None"
        using chain_move.prems(1)[of x] by (auto simp: note_copy_def split: if_splits)
    next
      fix x assume x: "x \<in> X" "(M(d := None)) x \<noteq> None" "x \<noteq> s"
      then obtain y where "M y = Some x" using chain_move.prems(2)[of x] by (auto split: if_splits)
      then show "\<exists>y. (M(d := None)) y = Some x" using chain_move.hyps(1) x(3) by (intro exI[of _ y]) auto
    qed
  qed
  then show "M' x \<noteq> None \<Longrightarrow> R' x = None" "x \<in> X \<Longrightarrow> M' x \<noteq> None \<Longrightarrow> \<exists>y. M' y = Some x" by blast+
qed

text \<open>Where no location has two readers, a chain that starts at a location without readers ends at
  one that no move writes.\<close>

definition one_reader :: "moves \<Rightarrow> bool" where
  "one_reader M \<longleftrightarrow> (\<forall>x y s. M x = Some s \<longrightarrow> M y = Some s \<longrightarrow> x = y)"

lemma chain_end:
  assumes "chain d M R \<mu> z M' R' \<mu>'" "one_reader M" "\<And>x. M x \<noteq> Some d"
  shows "M z = None \<and> (z = d \<or> (\<exists>y. M y = Some z \<and> M' y = None))"
  using assms
proof (induction rule: chain.induct)
  case (chain_move M d s R \<mu> z M' R' \<mu>')
  have "one_reader (M(d := None))" using chain_move.prems(1) by (auto simp: one_reader_def split: if_splits)
  moreover have "(M(d := None)) x \<noteq> Some s" for x
    using chain_move.prems(1) chain_move.hyps(1) by (auto simp: one_reader_def split: if_splits)
  ultimately have IH: "(M(d := None)) z = None" "z = s \<or> (\<exists>y. (M(d := None)) y = Some z \<and> M' y = None)"
    using chain_move.IH by blast+
  have "M' d = None" using chain_less[OF chain_move.hyps(2)] map_le_None[of M' "M(d := None)" d] by simp
  moreover have "z \<noteq> d" using IH(2) chain_move.prems(2) chain_move.hyps(1) by (auto split: if_splits)
  ultimately show ?case using IH chain_move.hyps(1) by (auto split: if_splits)
qed simp

section \<open>Cycles\<close>

text \<open>When each destination that is left has a reader among the moves that are left, these moves
  permute their destinations.\<close>

definition cyclic :: "moves \<Rightarrow> bool" where
  "cyclic M \<longleftrightarrow> finite (dom M) \<and> (\<forall>x. M x \<noteq> None \<longrightarrow> (\<exists>y. M y = Some x))"

definition source_of :: "moves \<Rightarrow> nat \<Rightarrow> nat" where
  "source_of M x = the (M x)"

lemma cyclic_permutes:
  assumes "cyclic M"
  shows "source_of M ` dom M = dom M" and "one_reader M"
proof -
  have sub: "dom M \<subseteq> source_of M ` dom M"
    using assms by (force simp: cyclic_def source_of_def dom_def)
  have fin: "finite (dom M)" using assms by (simp add: cyclic_def)
  show im: "source_of M ` dom M = dom M"
    using card_seteq[OF _ sub] card_image_le[OF fin] fin by auto
  then have "inj_on (source_of M) (dom M)"
    using eq_card_imp_inj_on[OF fin, of "source_of M"] by simp
  then show "one_reader M"
    unfolding one_reader_def by (metis domI inj_onD option.sel source_of_def)
qed

lemma cyclic_source:
  assumes "cyclic M" "M x = Some s"
  shows "M s \<noteq> None"
  using assms cyclic_permutes(1)[OF assms(1)] by (force simp: source_of_def)

lemma one_reader_inj: "one_reader M \<Longrightarrow> inj_on (source_of M) (dom M)"
  by (auto simp: one_reader_def inj_on_def source_of_def)

lemma cyclic_funpow:
  assumes "cyclic M" "x \<in> dom M"
  shows "(source_of M ^^ n) x \<in> dom M"
proof (induction n)
  case (Suc n)
  then show ?case
    using imageI[OF Suc, of "source_of M"] cyclic_permutes(1)[OF assms(1)] by simp
qed (use assms(2) in simp)

lemma cyclic_returns:
  assumes M: "cyclic M" "x \<in> dom M"
  shows "\<exists>n < card (dom M). (source_of M ^^ n) (source_of M x) = x"
proof -
  let ?f = "source_of M" and ?n = "card (dom M)"
  have fin: "finite (dom M)" using M(1) by (simp add: cyclic_def)
  have "(\<lambda>i. (?f ^^ i) x) ` {..?n} \<subseteq> dom M" using cyclic_funpow[OF M] by blast
  then have "card ((\<lambda>i. (?f ^^ i) x) ` {..?n}) \<le> ?n" using fin by (rule card_mono[rotated])
  then have "\<not> inj_on (\<lambda>i. (?f ^^ i) x) {..?n}" using card_image by fastforce
  then obtain i j where ij: "i < j" "j \<le> ?n" "(?f ^^ i) x = (?f ^^ j) x"
    unfolding inj_on_def by (metis atMost_iff linorder_neqE_nat)
  have "(?f ^^ i) x = (?f ^^ (i + k)) x \<Longrightarrow> x = (?f ^^ k) x" for i k
  proof (induction i)
    case (Suc i)
    have "?f ((?f ^^ i) x) = ?f ((?f ^^ (i + k)) x)" using Suc.prems by simp
    then have "(?f ^^ i) x = (?f ^^ (i + k)) x"
      by (rule inj_onD[OF one_reader_inj[OF cyclic_permutes(2)[OF M(1)]]]) (rule cyclic_funpow[OF M])+
    then show ?case by (rule Suc.IH)
  qed simp
  from this[of i "j - i"] have "(?f ^^ (j - i)) x = x" using ij by simp
  then have "(?f ^^ (j - i - 1)) (?f x) = x"
    using ij(1) by (metis Suc_diff_1 funpow_simps_right(2) comp_apply zero_less_diff)
  then show ?thesis using ij by (intro exI[of _ "j - i - 1"]) auto
qed

lemma chain_untouched:
  "chain d M R \<mu> z M' R' \<mu>' \<Longrightarrow> (\<And>x. M x \<noteq> Some t) \<Longrightarrow> R' t = R t"
proof (induction rule: chain.induct)
  case (chain_move M d s R \<mu> z M' R' \<mu>')
  have "s \<noteq> t" using chain_move.prems chain_move.hyps(1) by metis
  moreover have "R' t = note_copy s d R t"
    using chain_move.prems by (intro chain_move.IH) (auto split: if_splits)
  ultimately show ?case by (auto simp: note_copy_def)
qed simp

section \<open>Resolving moves\<close>

text \<open>What holds between two chains: \<open>M0\<close> are all moves, \<open>M\<close> those that are left, \<open>c\<close> is the
  memory before the first of them and \<open>TS\<close> are the temporary locations.\<close>

definition resolving :: "moves \<Rightarrow> nat set \<Rightarrow> (nat \<Rightarrow> 'v) \<Rightarrow> moves \<Rightarrow> moves \<Rightarrow> (nat \<Rightarrow> 'v) \<Rightarrow> bool" where
  "resolving M0 TS c M R \<mu> \<longleftrightarrow> M \<subseteq>\<^sub>m M0
     \<and> (\<forall>x. x \<notin> TS \<longrightarrow> \<mu> x = (if M0 x \<noteq> None \<and> M x = None then c (the (M0 x)) else c x))
     \<and> available c M R \<mu> \<and> (\<forall>x. M x \<noteq> None \<longrightarrow> R x = None)
     \<and> (\<forall>t \<in> TS. R t = None \<and> M0 t = None \<and> (\<forall>x. M0 x \<noteq> Some t))"

lemma resolving_init:
  assumes "\<And>x. M0 x \<noteq> Some x" "\<And>t. t \<in> TS \<Longrightarrow> M0 t = None \<and> (\<forall>x. M0 x \<noteq> Some t)"
  shows "resolving M0 TS c M0 (\<lambda>_. None) c"
  using assms by (auto simp: resolving_def available_def holder_def)

lemma resolving_done:
  "resolving M0 TS c (\<lambda>_. None) R \<mu> \<Longrightarrow> x \<notin> TS \<Longrightarrow> \<mu> x = (case M0 x of None \<Rightarrow> c x | Some s \<Rightarrow> c s)"
  by (auto simp: resolving_def split: option.splits)

definition have_readers :: "moves \<Rightarrow> nat set \<Rightarrow> bool" where
  "have_readers M X \<longleftrightarrow> (\<forall>x \<in> X. M x \<noteq> None \<longrightarrow> (\<exists>y. M y = Some x))"

lemma resolving_tail:
  assumes res: "resolving M0 TS c M R \<mu>" and tail: "\<And>x. M x \<noteq> Some d"
    and chain: "chain d M R \<mu> z M' R' \<mu>'"
  shows "resolving M0 TS c M' R' \<mu>'"
    and "have_readers M X \<Longrightarrow> have_readers M' (insert d X)"
proof -
  note r = res[unfolded resolving_def]
  have s: "saved M R d" using tail by (simp add: saved_def)
  have less: "M' \<subseteq>\<^sub>m M" "M' d = None" using chain_less[OF chain] by simp_all
  have "M' \<subseteq>\<^sub>m M0" using less r map_le_trans by blast
  moreover have "\<mu>' x = (if M0 x \<noteq> None \<and> M' x = None then c (the (M0 x)) else c x)" if "x \<notin> TS" for x
  proof (cases "M x")
    case None
    then show ?thesis using chain_values(2)[OF chain _ s, of c x] r that map_le_None[OF less(1) None] by auto
  next
    case (Some y)
    then have "M0 x = Some y" using r map_leD[of M M0] by blast
    then show ?thesis using chain_values(2)[OF chain _ s, of c x] r that Some by auto
  qed
  moreover have "R' x = None" if "M' x \<noteq> None" for x
    using chain_frontier(1)[OF chain, of "{}" x] r that by auto
  moreover have "R' t = None" if "t \<in> TS" for t
    using chain_untouched[OF chain, of t] r that map_leD[of M M0] by metis
  ultimately show "resolving M0 TS c M' R' \<mu>'"
    using chain_values(1)[OF chain _ s] r by (simp add: resolving_def)
  show "have_readers M' (insert d X)" if "have_readers M X"
    using chain_frontier(2)[OF chain, of X] r that less(2) by (auto simp: have_readers_def)
qed

text \<open>Breaking a cycle: \<open>t\<close> is the temporary location, \<open>d\<close> is the destination the cycle is
  found at, and \<open>e\<close> the one that reads it. The first move saves \<open>d\<close> in \<open>t\<close>, and a chain from
  \<open>d\<close> makes the others, where \<open>e\<close> reads \<open>t\<close>.\<close>

definition breaking :: "moves \<Rightarrow> nat set \<Rightarrow> (nat \<Rightarrow> 'v) \<Rightarrow> moves \<Rightarrow> moves \<Rightarrow> (nat \<Rightarrow> 'v) \<Rightarrow> nat \<Rightarrow> nat \<Rightarrow> nat \<Rightarrow> bool" where
  "breaking M0 TS c M R \<mu> t d e \<longleftrightarrow> resolving M0 TS c M R \<mu> \<and> cyclic M \<and> t \<in> TS \<and> M e = Some d"

lemma breaking_facts:
  assumes "breaking M0 TS c M R \<mu> t d e"
  shows "M x = Some s \<Longrightarrow> M0 x = Some s" "M t = None" "M x \<noteq> Some t" "R t = None" "e \<noteq> t" "t \<noteq> d"
    "M d \<noteq> None" "R d = None" "M x = Some s \<Longrightarrow> M y = Some s \<Longrightarrow> x = y"
    "M x = Some s \<Longrightarrow> R s = None \<and> s \<noteq> t \<and> s \<noteq> x \<and> \<mu> s = c s" "M x \<noteq> None \<Longrightarrow> R x = None"
proof -
  have r: "resolving M0 TS c M R \<mu>" and cyc: "cyclic M" and t: "t \<in> TS" and e: "M e = Some d"
    using assms by (auto simp: breaking_def)
  note r = r[unfolded resolving_def]
  show le: "M x = Some s \<Longrightarrow> M0 x = Some s" for x s using r map_leD[of M M0] by blast
  show Mt: "M t = None" using r t le by (cases "M t") auto
  show Mt': "M x \<noteq> Some t" for x using r t le by blast
  show "R t = None" using r t by blast
  show "e \<noteq> t" "t \<noteq> d" using Mt Mt' e by auto
  show "M d \<noteq> None" "R d = None" using cyclic_source[OF cyc e] r by auto
  show "M x = Some s \<Longrightarrow> M y = Some s \<Longrightarrow> x = y"
    using cyclic_permutes(2)[OF cyc] by (auto simp: one_reader_def)
  show "M x = Some s \<Longrightarrow> R s = None \<and> s \<noteq> t \<and> s \<noteq> x \<and> \<mu> s = c s"
    using r cyclic_source[OF cyc] Mt' by (auto simp: available_def holder_def)
  show "M x \<noteq> None \<Longrightarrow> R x = None" using r by blast
qed

lemma breaking_start:
  assumes b: "breaking M0 TS c M R \<mu> t d e"
    and chain: "chain t (M(t := Some d, e := Some t)) R \<mu> z M' R' \<mu>'"
  shows "chain d (M(e := Some t)) (note_copy d t R) (\<mu>(t := c d)) z M' R' \<mu>'"
proof -
  note f = breaking_facts[OF b]
  have e: "M e = Some d" using b by (simp add: breaking_def)
  show ?thesis
    using chain_start[OF chain, of d] f(2,5,6,8) f(10)[OF e] by (simp add: fun_upd_twist fun_upd_idem holder_def)
qed

lemma breaking_available:
  assumes b: "breaking M0 TS c M R \<mu> t d e"
  shows "available (c(t := c d)) (M(e := Some t)) (note_copy d t R) (\<mu>(t := c d))"
    and "one_reader (M(e := Some t))" and "(M(e := Some t)) x \<noteq> Some d"
proof -
  note f = breaking_facts[OF b]
  have e: "M e = Some d" using b by (simp add: breaking_def)
  show "available (c(t := c d)) (M(e := Some t)) (note_copy d t R) (\<mu>(t := c d))"
    unfolding available_def
  proof (intro allI impI)
    fix x s assume x: "(M(e := Some t)) x = Some s"
    show "s \<noteq> x \<and> (\<mu>(t := c d)) (holder (note_copy d t R) s) = (c(t := c d)) s
        \<and> (note_copy d t R s \<noteq> None \<longrightarrow> (M(e := Some t)) (holder (note_copy d t R) s) = None)"
    proof (cases "x = e")
      case True
      then have s: "s = t" using x by simp
      show ?thesis unfolding s using True f(4,5,6,8) by (simp add: holder_def note_copy_def)
    next
      case False
      then have m: "M x = Some s" using x by simp
      have "s \<noteq> d" using f(9)[OF m, of e] e False by auto
      then show ?thesis using f(10)[OF m] f(8) by (simp add: holder_def note_copy_def)
    qed
  qed
  show "one_reader (M(e := Some t))"
    unfolding one_reader_def
  proof (intro allI impI)
    fix x y s assume "(M(e := Some t)) x = Some s" "(M(e := Some t)) y = Some s"
    then show "x = y" using f(3,9) by (cases "x = e"; cases "y = e") auto
  qed
  show "(M(e := Some t)) x \<noteq> Some d" using f(6) f(9)[of x d e] e by auto
qed

lemma breaking_end:
  assumes b: "breaking M0 TS c M R \<mu> t d e"
    and ch: "chain d (M(e := Some t)) (note_copy d t R) (\<mu>(t := c d)) z M' R' \<mu>'"
  shows "z = t" and "M' e = None" and "M' d = None" and "R' t \<noteq> None"
    and "M' x = Some s \<Longrightarrow> M x = Some s \<and> x \<noteq> e"
proof -
  note f = breaking_facts[OF b]
  have e: "M e = Some d" and cyc: "cyclic M" using b by (simp_all add: breaking_def)
  note last = chain_end[OF ch breaking_available(2)[OF b] breaking_available(3)[OF b]]
  have less: "M' \<subseteq>\<^sub>m M(e := Some t)" and d: "M' d = None" using chain_less[OF ch] by simp_all
  have zd: "z \<noteq> d" using last f(7) by (cases "d = e") auto
  then obtain y where y: "(M(e := Some t)) y = Some z" "M' y = None" using last by blast
  have "y = e"
  proof (rule ccontr)
    assume "y \<noteq> e"
    then have "M y = Some z" using y(1) by simp
    then have "(M(e := Some t)) z \<noteq> None" using cyclic_source[OF cyc, of y z] by simp
    then show False using conjunct1[OF last] by (rule notE)
  qed
  then show z: "z = t" and M'e: "M' e = None" using y by simp_all
  show "M' d = None" by (rule d)
  show "R' t \<noteq> None" using chain_end_copied[OF ch zd] z by simp
  show "M x = Some s \<and> x \<noteq> e" if "M' x = Some s" for x s
    using map_leD[OF less that] M'e that by (cases "x = e") auto
qed

lemma breaking_frontier:
  assumes b: "breaking M0 TS c M R \<mu> t d e"
    and ch: "chain d (M(e := Some t)) (note_copy d t R) (\<mu>(t := c d)) z M' R' \<mu>'"
  shows "cyclic M'" and "M' x \<noteq> None \<Longrightarrow> R' x = None"
proof -
  note f = breaking_facts[OF b]
  have e: "M e = Some d" and cyc: "cyclic M" using b by (simp_all add: breaking_def)
  have K: "note_copy d t R x = None" if "(M(e := Some t)) x \<noteq> None" "x \<noteq> d" for x
    using that f(11)[of x] e by (auto simp: note_copy_def split: if_splits)
  have J: "\<exists>y. (M(e := Some t)) y = Some x" if x: "(M(e := Some t)) x \<noteq> None" "x \<noteq> d" for x
  proof -
    have "M x \<noteq> None" using e x by (auto split: if_splits)
    then obtain w where "M w = Some x" using cyc by (auto simp: cyclic_def)
    then show ?thesis using e x(2) by (intro exI[of _ w]) auto
  qed
  show "M' x \<noteq> None \<Longrightarrow> R' x = None" for x using chain_frontier(1)[OF ch K, of "{}"] by blast
  have "\<exists>y. M' y = Some x" if "M' x \<noteq> None" for x
    using chain_frontier(2)[OF ch K J UNIV_I that] by blast
  moreover have "dom M' \<subseteq> dom M" using breaking_end(5)[OF b ch] by (auto simp: dom_def)
  then have "finite (dom M')" using cyc finite_subset by (auto simp: cyclic_def)
  ultimately show "cyclic M'" by (simp add: cyclic_def)
qed

lemma breaking_values:
  assumes b: "breaking M0 TS c M R \<mu> t d e" and x: "x \<notin> TS"
    and ch: "chain d (M(e := Some t)) (note_copy d t R) (\<mu>(t := c d)) z M' R' \<mu>'"
  shows "\<mu>' x = (if M0 x \<noteq> None \<and> M' x = None then c (the (M0 x)) else c x)"
proof -
  note f = breaking_facts[OF b] and n = breaking_end[OF b ch] and a = breaking_available[OF b]
  have e: "M e = Some d" and t: "t \<in> TS" and r: "resolving M0 TS c M R \<mu>"
    using b by (simp_all add: breaking_def)
  have "saved (M(e := Some t)) (note_copy d t R) d" using a(3) by (simp add: saved_def)
  note v = chain_values(2)[OF ch a(1) this, of x]
  have xt: "x \<noteq> t" using x t by blast
  have m: "\<mu> x = (if M0 x \<noteq> None \<and> M x = None then c (the (M0 x)) else c x)"
    using r x by (simp add: resolving_def)
  show ?thesis
  proof (cases "M x")
    case None
    then have "x \<noteq> e" "M' x = None" using e n(5) by (auto, metis option.exhaust option.distinct(1))
    then show ?thesis using v m None xt by simp
  next
    case (Some s)
    then show ?thesis using v m xt f(1)[OF Some] f(10)[OF Some] e n(2) by (cases "x = e") auto
  qed
qed

lemma resolving_cycle:
  assumes b: "breaking M0 TS c M R \<mu> t d e"
    and chain: "chain t (M(t := Some d, e := Some t)) R \<mu> z M' R' \<mu>'"
  shows "z = t" and "R' t \<noteq> None" and "M' d = None" and "cyclic M'" and "M' \<subseteq>\<^sub>m M"
    and "resolving M0 TS c M' (R'(d := R' t, t := None)) \<mu>'"
proof -
  note ch = breaking_start[OF b chain]
  note f = breaking_facts[OF b] and n = breaking_end[OF b ch] and a = breaking_available[OF b]
  have e: "M e = Some d" and r: "resolving M0 TS c M R \<mu>" using b by (simp_all add: breaking_def)
  note r = r[unfolded resolving_def]
  show "z = t" "R' t \<noteq> None" "M' d = None" "cyclic M'"
    using n breaking_frontier(1)[OF b ch] by blast+
  show "M' \<subseteq>\<^sub>m M" using n(5) by (auto simp: map_le_def dom_def)
  let ?R = "R'(d := R' t, t := None)"
  have "saved (M(e := Some t)) (note_copy d t R) d" using a(3) by (simp add: saved_def)
  note av = chain_values(1)[OF ch a(1) this]
  have "M' \<subseteq>\<^sub>m M0" using n(5) f(1) by (auto simp: map_le_def dom_def)
  moreover have "available c M' ?R \<mu>'"
    unfolding available_def
  proof (intro allI impI)
    fix x s assume x: "M' x = Some s"
    then have m: "M x = Some s" "x \<noteq> e" using n(5) by blast+
    then have "s \<noteq> t" "s \<noteq> d" using f(3)[of x] f(9)[of x d e] e by auto
    then show "s \<noteq> x \<and> \<mu>' (holder ?R s) = c s \<and> (?R s \<noteq> None \<longrightarrow> M' (holder ?R s) = None)"
      using av x by (auto simp: available_def holder_def)
  qed
  moreover have "?R u = None" if "u \<in> TS" for u
  proof (cases "u = t")
    case False
    have u: "M x \<noteq> Some u" for x using that r f(1) by blast
    then have "u \<noteq> d" using e by blast
    have "(M(e := Some t)) x \<noteq> Some u" for x using u[of x] False by auto
    then have "R' u = note_copy d t R u" by (rule chain_untouched[OF ch])
    then show ?thesis using that \<open>u \<noteq> d\<close> r by (simp add: note_copy_def)
  qed simp
  moreover have "?R x = None" if "M' x \<noteq> None" for x
    using breaking_frontier(2)[OF b ch that] n(3) that by auto
  ultimately show "resolving M0 TS c M' ?R \<mu>'"
    using breaking_values[OF b _ ch] r by (simp add: resolving_def)
qed

end
