(* ===== verification/Spill_Fills_Table.thy ===== *)
theory Spill_Fills_Table
  imports Spill_Fills_Chains
begin

text \<open>
  What moves mean, the numbering of the locations, and the steps of the resolver on its tables:
  each of them is a step of the chains of \<^verbatim>\<open>Spill_Fills_Chains\<close> on the moves the tables hold.
\<close>

section \<open>The meaning of moves\<close>

text \<open>A memory gives each location its contents, an immediate included. \<open>run\<close> makes moves one
  after the other, \<open>parallel\<close> makes all of them at once.\<close>

definition exec :: "SpillFillData \<Rightarrow> (Location \<Rightarrow> 'v) \<Rightarrow> Location \<Rightarrow> 'v" where
  "exec sf \<sigma> = \<sigma>(sf_dst sf := \<sigma> (sf_src sf))"

definition run :: "SpillFillData list \<Rightarrow> (Location \<Rightarrow> 'v) \<Rightarrow> Location \<Rightarrow> 'v" where
  "run sfs \<sigma> = fold exec sfs \<sigma>"

definition parallel :: "SpillFillData list \<Rightarrow> (Location \<Rightarrow> 'v) \<Rightarrow> Location \<Rightarrow> 'v" where
  "parallel sfs \<sigma> l = (case List.find (\<lambda>sf. sf_dst sf = l) sfs of None \<Rightarrow> \<sigma> l | Some sf \<Rightarrow> \<sigma> (sf_src sf))"

lemma run_simps [simp]:
  "run [] \<sigma> = \<sigma>" "run (sf # sfs) \<sigma> = run sfs (exec sf \<sigma>)" "run (as @ bs) \<sigma> = run bs (run as \<sigma>)"
  by (simp_all add: run_def)

lemma same_place_iff: "same_place sf \<longleftrightarrow> sf_src sf = sf_dst sf"
  by (cases "sf_src sf"; cases "sf_dst sf") (auto simp: same_place_def DstType_def SrcType_def DstValue_def SrcValue_def)

section \<open>The numbering of the locations\<close>

definition table_ok :: "SpillFillsResolver \<Rightarrow> bool" where
  "table_ok r \<longleftrightarrow> vregsTableOffset r \<le> slotsTableOffset r \<and> slotsTableOffset r \<le> parameterSlotsOffset r
     \<and> parameterSlotsOffset r \<le> locationsCount r \<and> locationsCount r < INVALID_LOCATION_INDEX
     \<and> vregsTableOffset r \<le> 2 ^ 13 \<and> slotsTableOffset r - vregsTableOffset r \<le> 2 ^ 13
     \<and> parameterSlotsOffset r - slotsTableOffset r \<le> 2 ^ 13
     \<and> locationsCount r - parameterSlotsOffset r \<le> 2 ^ 13
     \<and> length (movesTable r) = locationsCount r \<and> length (loadsCount r) = locationsCount r
     \<and> length (regWrite r) = slotsTableOffset r
     \<and> length (stackWrite r) = locationsCount r - slotsTableOffset r"

definition loc :: "SpillFillsResolver \<Rightarrow> nat \<Rightarrow> Location" where
  "loc r i =
     (if i \<ge> parameterSlotsOffset r then Loc STACK_PARAMETER (i - parameterSlotsOffset r)
      else if i \<ge> slotsTableOffset r then Loc STACK (i - slotsTableOffset r)
      else if i \<ge> vregsTableOffset r then Loc FP_REGISTER (i - vregsTableOffset r)
      else Loc REGISTER i)"

definition in_table :: "SpillFillsResolver \<Rightarrow> Location \<Rightarrow> bool" where
  "in_table r l = (case GetKind l of
     REGISTER \<Rightarrow> GetValue l < vregsTableOffset r
   | FP_REGISTER \<Rightarrow> GetValue l + vregsTableOffset r < slotsTableOffset r
   | STACK \<Rightarrow> GetValue l + slotsTableOffset r < parameterSlotsOffset r
   | STACK_PARAMETER \<Rightarrow> GetValue l + parameterSlotsOffset r < locationsCount r
   | _ \<Rightarrow> False)"

definition idx :: "SpillFillsResolver \<Rightarrow> Location \<Rightarrow> nat" where
  "idx r l = (case GetKind l of
     REGISTER \<Rightarrow> GetValue l
   | FP_REGISTER \<Rightarrow> GetValue l + vregsTableOffset r
   | STACK \<Rightarrow> GetValue l + slotsTableOffset r
   | _ \<Rightarrow> GetValue l + parameterSlotsOffset r)"

lemma MakeLocation_Some: "v < 2 ^ 13 \<Longrightarrow> MakeLocation nd k v = Some (Loc k v)"
  by (simp add: MakeLocation_def ASSERT_def ValueFieldMask_def)

lemma loc_eq_iff: "table_ok r \<Longrightarrow> loc r i = loc r j \<longleftrightarrow> i = j"
  by (auto simp: loc_def table_ok_def)

lemma loc_value: "table_ok r \<Longrightarrow> i < locationsCount r \<Longrightarrow> GetValue (loc r i) < 2 ^ 13"
  by (auto simp: loc_def table_ok_def)

lemma MakeLocation_loc:
  "table_ok r \<Longrightarrow> i < locationsCount r \<Longrightarrow> MakeLocation nd (GetKind (loc r i)) (GetValue (loc r i)) = Some (loc r i)"
  using MakeLocation_Some[OF loc_value] by simp

lemma ToLocation_loc: "table_ok r \<Longrightarrow> i < locationsCount r \<Longrightarrow> ToLocation g r i = Some (loc r i)"
  by (auto simp: ToLocation_def loc_def table_ok_def MakeStackParameter_def MakeStackSlot_def
      MakeFpRegister_def MakeRegister_def MakeLocation_Some)

lemma in_table_idx:
  assumes "table_ok r" "in_table r l"
  shows "idx r l < locationsCount r" and "loc r (idx r l) = l" and "Map g r l = Some (idx r l)"
  using assms by (cases l; cases "GetKind l";
    auto simp: in_table_def idx_def loc_def table_ok_def Map_def to_index_def location_tests ASSERT_def
      INVALID_LOCATION_INDEX_def)+

lemma loc_in_table: "table_ok r \<Longrightarrow> i < locationsCount r \<Longrightarrow> in_table r (loc r i)"
  by (auto simp: in_table_def loc_def table_ok_def)

lemma idx_loc: "table_ok r \<Longrightarrow> i < locationsCount r \<Longrightarrow> idx r (loc r i) = i"
  using in_table_idx(2)[OF _ loc_in_table] loc_eq_iff by blast

section \<open>The tables as moves\<close>

definition moves_of :: "SpillFillsResolver \<Rightarrow> moves" where
  "moves_of r d = (if d < locationsCount r \<and> move_src (movesTable r ! d) \<noteq> INVALID_LOCATION_INDEX
                   then Some (move_src (movesTable r ! d)) else None)"

definition copies :: "nat list \<Rightarrow> moves" where
  "copies remap s = (if s < length remap \<and> remap ! s \<noteq> INVALID_LOCATION_INDEX then Some (remap ! s) else None)"

definition readers :: "moves \<Rightarrow> nat \<Rightarrow> nat set" where
  "readers M s = {d. M d = Some s}"

definition tables_ok :: "SpillFillsResolver \<Rightarrow> nat list \<Rightarrow> bool" where
  "tables_ok r remap \<longleftrightarrow> table_ok r \<and> length remap = locationsCount r
     \<and> (\<forall>d s. moves_of r d = Some s \<longrightarrow> s < locationsCount r)
     \<and> (\<forall>i < locationsCount r. remap ! i \<noteq> INVALID_LOCATION_INDEX \<longrightarrow> remap ! i < locationsCount r)
     \<and> (\<forall>s < locationsCount r. unat (loadsCount r ! s) = card (readers (moves_of r) s))"

definition same_shape :: "SpillFillsResolver \<Rightarrow> SpillFillsResolver \<Rightarrow> bool" where
  "same_shape r r' \<longleftrightarrow> (\<exists>mt lc. r' = r\<lparr>movesTable := mt, loadsCount := lc\<rparr>
     \<and> length mt = length (movesTable r) \<and> length lc = length (loadsCount r))"

lemma same_shape_refl [simp]: "same_shape r r"
  unfolding same_shape_def by (intro exI[of _ "movesTable r"] exI[of _ "loadsCount r"]) simp

lemma same_shape_trans: "same_shape r r' \<Longrightarrow> same_shape r' r'' \<Longrightarrow> same_shape r r''"
  unfolding same_shape_def by force

lemma Map_update: "Map g (r\<lparr>movesTable := mt, loadsCount := lc\<rparr>) = Map g r"
  by (simp add: Map_def fun_eq_iff)

lemma same_shape_simps:
  assumes "same_shape r r'"
  shows "loc r' = loc r" "table_ok r' = table_ok r" "locationsCount r' = locationsCount r"
    "resolverReg r' = resolverReg r" "postMoves r' = postMoves r" "preMoves r' = preMoves r"
    "Map g r' = Map g r" "vregsTableOffset r' = vregsTableOffset r"
    "slotsTableOffset r' = slotsTableOffset r" "GetResolver g r' = GetResolver g r"
  using assms by (auto simp: same_shape_def loc_def table_ok_def Map_update GetResolver_def fun_eq_iff)

lemma finite_readers: "finite (readers (moves_of r) s)"
  by (rule finite_subset[of _ "{..<locationsCount r}"]) (auto simp: readers_def moves_of_def split: if_splits)

lemma finite_moves_of: "finite (dom (moves_of r))"
  by (rule finite_subset[of _ "{..<locationsCount r}"]) (auto simp: moves_of_def split: if_splits)

lemma readers_clear:
  assumes "M d = Some s" "finite (readers M s)"
  shows "card (readers (M(d := None)) t) = (if t = s then card (readers M s) - 1 else card (readers M t))"
proof -
  have "readers (M(d := None)) t = readers M t - {d}" by (auto simp: readers_def)
  moreover have "d \<in> readers M t \<longleftrightarrow> t = s" using assms(1) by (auto simp: readers_def)
  ultimately show ?thesis using assms(2) by (cases "t = s") auto
qed

lemma moves_of_SomeD:
  "moves_of r d = Some s
    \<Longrightarrow> d < locationsCount r \<and> move_src (movesTable r ! d) = s \<and> s \<noteq> INVALID_LOCATION_INDEX"
  unfolding moves_of_def by (cases "d < locationsCount r \<and> move_src (movesTable r ! d) \<noteq> INVALID_LOCATION_INDEX") simp_all

lemma moves_of_nth:
  assumes "tables_ok r remap" "moves_of r d = Some s"
  shows "d < locationsCount r \<and> s < locationsCount r \<and> move_src (movesTable r ! d) = s
      \<and> s \<noteq> INVALID_LOCATION_INDEX \<and> nth_opt (movesTable r) d = Some (movesTable r ! d)"
proof -
  have "s < locationsCount r" "length (movesTable r) = locationsCount r"
    using assms by (auto simp only: tables_ok_def table_ok_def)
  then show ?thesis using moves_of_SomeD[OF assms(2)] by (simp add: nth_opt_def)
qed

lemma unat_pred: "n > 0 \<Longrightarrow> unat (n - 1) = unat n - 1" for n :: u8
  by (simp add: unat_sub_if' word_less_nat_alt word_gt_0)

text \<open>One turn of the loop of \<open>AddMovesChain\<close>.\<close>

lemma chain_step_moves_of:
  assumes ok: "tables_ok r remap" and m: "moves_of r d = Some s"
  obtains r' remap' out' where
    "chain_step g d (movesTable r ! d) r remap out = Some (r', remap', out')" "same_shape r r'"
    "tables_ok r' remap'" "moves_of r' = (moves_of r)(d := None)"
    "copies remap' = note_copy s d (copies remap)" "map regType (movesTable r') = map regType (movesTable r)"
    "\<And>\<sigma> :: Location \<Rightarrow> 'v. run out' \<sigma> = (run out \<sigma>)(loc r d := run out \<sigma> (loc r (holder (copies remap) s)))"
proof -
  note mm = moves_of_nth[OF ok m]
  let ?N = "locationsCount r" and ?I = "INVALID_LOCATION_INDEX"
  have T: "table_ok r" and len: "length remap = ?N" "length (loadsCount r) = ?N" "length (movesTable r) = ?N"
    and I: "?N < ?I" using ok by (auto simp: tables_ok_def table_ok_def)
  let ?h = "if remap ! s = ?I then s else remap ! s"
  have h: "?h = holder (copies remap) s" "?h < ?N"
    using ok mm len by (auto simp: holder_def copies_def tables_ok_def)
  have n: "unat (loadsCount r ! s) = card (readers (moves_of r) s)" using ok mm by (auto simp: tables_ok_def)
  have "d \<in> readers (moves_of r) s" using m by (simp add: readers_def)
  then have "card (readers (moves_of r) s) > 0" using finite_readers card_gt_0_iff by blast
  then have n0: "loadsCount r ! s > 0" using n by (simp add: word_gt_0 unat_eq_0[symmetric])
  let ?r = "r\<lparr>loadsCount := (loadsCount r)[s := loadsCount r ! s - 1],
      movesTable := (movesTable r)[d := (movesTable r ! d)\<lparr>move_src := ?I\<rparr>]\<rparr>"
  let ?remap = "if remap ! s = ?I then remap[s := d] else remap"
  let ?out = "out @ [mkSpillFill (loc r ?h) (loc r d) (regType (movesTable r ! d))]"
  have step: "chain_step g d (movesTable r ! d) r remap out = Some (?r, ?remap, ?out)"
    using mm len n0 h(2) T
    by (simp add: chain_step_def nth_opt_def ToLocation_loc AddSpillFill_def MakeLocation_loc ASSERT_def)
  have shape: "same_shape r ?r"
    unfolding same_shape_def by (intro exI[of _ "movesTable ?r"] exI[of _ "loadsCount ?r"]) simp
  have mv: "moves_of ?r = (moves_of r)(d := None)"
    using mm len by (auto simp: moves_of_def fun_eq_iff nth_list_update)
  have cp: "copies ?remap = note_copy s d (copies remap)"
    using mm len I by (auto simp: copies_def note_copy_def fun_eq_iff nth_list_update)
  have "unat (loadsCount ?r ! t) = card (readers (moves_of ?r) t)" if "t < ?N" for t
    unfolding mv readers_clear[OF m finite_readers]
    using ok that n n0 len by (auto simp: tables_ok_def nth_list_update unat_pred)
  moreover have "\<forall>i < ?N. ?remap ! i \<noteq> ?I \<longrightarrow> ?remap ! i < ?N"
    using ok mm len by (auto simp: tables_ok_def nth_list_update)
  moreover have "\<forall>x t. moves_of ?r x = Some t \<longrightarrow> t < ?N"
    unfolding mv using ok by (auto simp: tables_ok_def split: if_splits)
  ultimately have tab: "tables_ok ?r ?remap"
    using same_shape_simps(2,3)[OF shape] T len by (auto simp: tables_ok_def)
  have ty: "map regType (movesTable ?r) = map regType (movesTable r)"
    using mm len by (simp add: map_update list_update_same_conv)
  have "run ?out \<sigma> = (run out \<sigma>)(loc r d := run out \<sigma> (loc r ?h))" for \<sigma> :: "Location \<Rightarrow> 'v"
    by (simp add: exec_def mkSpillFill_def)
  then show thesis using that[OF step shape tab mv cp ty] h(1) by simp
qed

text \<open>The loop of \<open>AddMovesChain\<close> makes a chain of moves. Nothing outside the table changes.\<close>

definition mem :: "SpillFillsResolver \<Rightarrow> (Location \<Rightarrow> 'v) \<Rightarrow> nat \<Rightarrow> 'v" where
  "mem r \<sigma> i = \<sigma> (loc r i)"

definition outside :: "SpillFillsResolver \<Rightarrow> Location set" where
  "outside r = - range (loc r)"

lemma mem_update: "table_ok r \<Longrightarrow> mem r (\<sigma>(loc r d := v)) = (mem r \<sigma>)(d := v)"
  by (auto simp: mem_def fun_eq_iff loc_eq_iff)

lemma AddMovesChain_loop_chain:
  assumes "tables_ok r remap" "d < locationsCount r"
  shows "\<exists>z r' remap' out'. AddMovesChain_loop g d r remap out = Some (z, r', remap', out')
    \<and> same_shape r r' \<and> tables_ok r' remap' \<and> z < locationsCount r
    \<and> map regType (movesTable r') = map regType (movesTable r)
    \<and> (\<forall>\<sigma> :: Location \<Rightarrow> 'v. chain d (moves_of r) (copies remap) (mem r (run out \<sigma>))
          z (moves_of r') (copies remap') (mem r (run out' \<sigma>))
        \<and> (\<forall>l \<in> outside r. run out' \<sigma> l = run out \<sigma> l))"
  using assms
proof (induction g d r remap out rule: AddMovesChain_loop.induct)
  case (1 g d r remap out)
  have nth: "nth_opt (movesTable r) d = Some (movesTable r ! d)"
    using 1(2,3) by (auto simp: tables_ok_def table_ok_def nth_opt_def)
  show ?case
  proof (cases "moves_of r d")
    case None
    then have "move_src (movesTable r ! d) = INVALID_LOCATION_INDEX"
      using 1(3) by (auto simp: moves_of_def split: if_splits)
    then have "AddMovesChain_loop g d r remap out = Some (d, r, remap, out)"
      using nth by (simp add: AddMovesChain_loop.simps)
    then show ?thesis using 1(2,3) chain_stop[of "moves_of r", OF None] by auto
  next
    case (Some s)
    note mm = moves_of_nth[OF 1(2) Some]
    obtain r' remap' out' where st: "chain_step g d (movesTable r ! d) r remap out = Some (r', remap', out')"
      and sh: "same_shape r r'" and tab: "tables_ok r' remap'"
      and mv: "moves_of r' = (moves_of r)(d := None)" "copies remap' = note_copy s d (copies remap)"
      and ty: "map regType (movesTable r') = map regType (movesTable r)"
      and run: "\<And>\<sigma> :: Location \<Rightarrow> 'v. run out' \<sigma> = (run out \<sigma>)(loc r d := run out \<sigma> (loc r (holder (copies remap) s)))"
      using chain_step_moves_of[OF 1(2) Some, where ?'v = 'v] by blast
    have eq: "AddMovesChain_loop g d r remap out = AddMovesChain_loop g s r' remap' out'"
      using nth st mm by (subst AddMovesChain_loop.simps) simp
    have T: "table_ok r" using 1(2) by (simp add: tables_ok_def)
    have s: "s < locationsCount r'" using mm same_shape_simps(3)[OF sh] by simp
    obtain z r'' remap'' out'' where IH: "AddMovesChain_loop g s r' remap' out' = Some (z, r'', remap'', out'')"
      "same_shape r' r''" "tables_ok r'' remap''" "z < locationsCount r'"
      "map regType (movesTable r'') = map regType (movesTable r')"
      "\<forall>\<sigma> :: Location \<Rightarrow> 'v. chain s (moves_of r') (copies remap') (mem r' (run out' \<sigma>))
          z (moves_of r'') (copies remap'') (mem r' (run out'' \<sigma>))
        \<and> (\<forall>l \<in> outside r'. run out'' \<sigma> l = run out' \<sigma> l)"
      using 1(1)[OF nth _ st refl refl tab] s mm by auto
    have m: "mem r' = mem r" "outside r' = outside r"
      using same_shape_simps(1)[OF sh] by (auto simp: fun_eq_iff mem_def outside_def)
    have "mem r (run out' \<sigma>) = (mem r (run out \<sigma>))(d := mem r (run out \<sigma>) (holder (copies remap) s))" for \<sigma> :: "Location \<Rightarrow> 'v"
      unfolding run mem_update[OF T] by (simp add: mem_def)
    then have "chain d (moves_of r) (copies remap) (mem r (run out \<sigma>)) z (moves_of r'') (copies remap'') (mem r (run out'' \<sigma>))"
      for \<sigma> :: "Location \<Rightarrow> 'v" using IH(6) chain_move[of "moves_of r", OF Some] unfolding mv m by metis
    moreover have "run out'' \<sigma> l = run out \<sigma> l" if "l \<in> outside r" for \<sigma> :: "Location \<Rightarrow> 'v" and l
      using IH(6) that unfolding m by (auto simp: run outside_def)
    ultimately show ?thesis
      unfolding eq using IH(1-5) ty same_shape_trans[OF sh IH(2)] same_shape_simps(3)[OF sh] by auto
  qed
qed

end
