(* ===== verification/Spill_Fills_Phases.thy ===== *)
theory Spill_Fills_Phases
  imports Spill_Fills_Table
begin

text \<open>
  The two loops of \<open>Reorder\<close>: the chains that have a tail, and the cycles that are left.
\<close>

section \<open>Chains that have a tail\<close>

definition types_in :: "SpillFillsResolver \<Rightarrow> DataType set \<Rightarrow> bool" where
  "types_in r Ty \<longleftrightarrow> (\<forall>d. moves_of r d \<noteq> None \<longrightarrow> regType (movesTable r ! d) \<in> Ty)"

lemma types_in_less:
  assumes "types_in r Ty" "moves_of r' \<subseteq>\<^sub>m moves_of r" "locationsCount r' = locationsCount r"
    and "length (movesTable r) = locationsCount r" "length (movesTable r') = locationsCount r"
    and "\<And>d. d < locationsCount r \<Longrightarrow> moves_of r' d \<noteq> None \<Longrightarrow> regType (movesTable r' ! d) = regType (movesTable r ! d)"
  shows "types_in r' Ty"
  unfolding types_in_def
proof (intro allI impI)
  fix d assume d: "moves_of r' d \<noteq> None"
  then obtain s where s: "moves_of r d = Some s" using map_le_None[OF assms(2), of d] by fastforce
  then have "regType (movesTable r ! d) \<in> Ty" "d < locationsCount r"
    using assms(1) moves_of_SomeD[OF s] by (simp_all add: types_in_def)
  then show "regType (movesTable r' ! d) \<in> Ty" using assms(6) d by simp
qed

lemma tables_length:
  "tables_ok r remap \<Longrightarrow> length (movesTable r) = locationsCount r \<and> length (loadsCount r) = locationsCount r
    \<and> length remap = locationsCount r \<and> table_ok r \<and> locationsCount r < INVALID_LOCATION_INDEX"
  by (simp add: tables_ok_def table_ok_def)

lemma no_readers:
  assumes "tables_ok r remap" "d < locationsCount r"
  shows "loadsCount r ! d = 0 \<longleftrightarrow> (\<forall>x. moves_of r x \<noteq> Some d)"
proof -
  have "loadsCount r ! d = 0 \<longleftrightarrow> card (readers (moves_of r) d) = 0"
    using assms by (simp add: tables_ok_def unat_eq_0[symmetric])
  also have "\<dots> \<longleftrightarrow> readers (moves_of r) d = {}" using finite_readers by simp
  finally show ?thesis by (simp add: readers_def)
qed

lemma AddMovesChain_tail:
  assumes ok: "tables_ok r remap" and d: "d < locationsCount r" "moves_of r d \<noteq> None" "loadsCount r ! d = 0"
    and ty: "types_in r Ty"
    and res: "\<And>\<sigma> :: Location \<Rightarrow> 'v. resolving M0 TS (c \<sigma>) (moves_of r) (copies remap) (mem r (run out \<sigma>))"
    and J: "have_readers (moves_of r) X"
  shows "\<exists>r' remap' out'. AddMovesChain False g d r remap out = Some (r', remap', out')
    \<and> same_shape r r' \<and> tables_ok r' remap' \<and> types_in r' Ty
    \<and> (\<forall>\<sigma> :: Location \<Rightarrow> 'v. resolving M0 TS (c \<sigma>) (moves_of r') (copies remap') (mem r (run out' \<sigma>))
        \<and> (\<forall>l \<in> outside r. run out' \<sigma> l = run out \<sigma> l))
    \<and> have_readers (moves_of r') (insert d X)"
proof -
  note len = tables_length[OF ok]
  obtain s where s: "moves_of r d = Some s" using d(2) by auto
  note ds = moves_of_nth[OF ok s]
  have tail: "moves_of r x \<noteq> Some d" for x using no_readers[OF ok d(1)] d(3) by simp
  have re: "remap ! d = INVALID_LOCATION_INDEX"
    using res[of undefined] d len by (auto simp: resolving_def copies_def split: if_splits)
  obtain z r' remap' out' where L: "AddMovesChain_loop g d r remap out = Some (z, r', remap', out')"
      "same_shape r r'" "tables_ok r' remap'" "map regType (movesTable r') = map regType (movesTable r)"
      "\<And>\<sigma> :: Location \<Rightarrow> 'v. chain d (moves_of r) (copies remap) (mem r (run out \<sigma>))
          z (moves_of r') (copies remap') (mem r (run out' \<sigma>))"
      "\<And>\<sigma> :: Location \<Rightarrow> 'v. \<forall>l \<in> outside r. run out' \<sigma> l = run out \<sigma> l"
    using AddMovesChain_loop_chain[OF ok d(1), where ?'v = 'v, of g out] by blast
  have A: "AddMovesChain False g d r remap out = Some (r', remap', out')"
    using len d(1) re ds L(1) by (simp add: AddMovesChain_def nth_opt_def ASSERT_def)
  note sh = same_shape_simps[OF L(2)]
  have "moves_of r' \<subseteq>\<^sub>m moves_of r" using chain_less[OF L(5)] by blast
  moreover have "regType (movesTable r' ! x) = regType (movesTable r ! x)" if "x < locationsCount r" for x
    using arg_cong[OF L(4), of "\<lambda>xs. xs ! x"] that len tables_length[OF L(3)] sh(3) by simp
  ultimately have "types_in r' Ty"
    using types_in_less[OF ty] tables_length[OF L(3)] len sh(3) by simp
  then show ?thesis
    using A L(2,3,6) resolving_tail(1)[OF res tail L(5)] resolving_tail(2)[OF res tail L(5) J] by blast
qed

lemma add_tails_resolving:
  assumes "tables_ok r remap" "set ds \<subseteq> {..<locationsCount r}" "types_in r Ty"
    and "\<And>\<sigma> :: Location \<Rightarrow> 'v. resolving M0 TS (c \<sigma>) (moves_of r) (copies remap) (mem r (run out \<sigma>))"
    and "have_readers (moves_of r) X"
  shows "\<exists>r' remap' out'. add_tails g ds (r, remap, out) = Some (r', remap', out')
    \<and> same_shape r r' \<and> tables_ok r' remap' \<and> types_in r' Ty
    \<and> (\<forall>\<sigma> :: Location \<Rightarrow> 'v. resolving M0 TS (c \<sigma>) (moves_of r') (copies remap') (mem r (run out' \<sigma>))
        \<and> (\<forall>l \<in> outside r. run out' \<sigma> l = run out \<sigma> l))
    \<and> have_readers (moves_of r') (set ds \<union> X)"
  using assms
proof (induction ds arbitrary: r remap out X)
  case Nil
  then show ?case by (intro exI[of _ r] exI[of _ remap] exI[of _ out]) simp
next
  case (Cons d ds)
  note ok = Cons.prems(1) and len = tables_length[OF Cons.prems(1)]
  have d: "d < locationsCount r" using Cons.prems(2) by simp
  obtain r1 remap1 out1 where one: "(if loadsCount r ! d = 0 \<and> moves_of r d \<noteq> None then AddMovesChain False g d r remap out
        else Some (r, remap, out)) = Some (r1, remap1, out1)"
      "same_shape r r1" "tables_ok r1 remap1" "types_in r1 Ty"
      "\<And>\<sigma> :: Location \<Rightarrow> 'v. resolving M0 TS (c \<sigma>) (moves_of r1) (copies remap1) (mem r (run out1 \<sigma>))"
      "\<And>\<sigma> :: Location \<Rightarrow> 'v. \<forall>l \<in> outside r. run out1 \<sigma> l = run out \<sigma> l"
      "have_readers (moves_of r1) (insert d X)"
  proof (cases "loadsCount r ! d = 0 \<and> moves_of r d \<noteq> None")
    case True
    have "loadsCount r ! d = 0" "moves_of r d \<noteq> None" using True by blast+
    then show ?thesis
      using AddMovesChain_tail[where g = g, OF ok d \<open>moves_of r d \<noteq> None\<close> \<open>loadsCount r ! d = 0\<close> Cons.prems(3,4,5)] that True by force
  next
    case False
    then have "moves_of r d \<noteq> None \<Longrightarrow> \<exists>y. moves_of r y = Some d" using no_readers[OF ok d] by blast
    then have "have_readers (moves_of r) (insert d X)"
      using Cons.prems(5) by (auto simp: have_readers_def)
    then show ?thesis using that[of r remap out] False Cons.prems by auto
  qed
  note sh = same_shape_simps[OF one(2)]
  have m: "mem r1 = mem r" "outside r1 = outside r"
    using sh(1) by (auto simp: fun_eq_iff mem_def outside_def)
  have "moves_of r d \<noteq> None \<longleftrightarrow> move_src (movesTable r ! d) \<noteq> INVALID_LOCATION_INDEX"
    using d by (simp add: moves_of_def)
  then have step: "add_tails g (d # ds) (r, remap, out) = add_tails g ds (r1, remap1, out1)"
    using one(1) len d by (simp add: nth_opt_def)
  have ds: "set ds \<subseteq> {..<locationsCount r1}" using Cons.prems(2) sh(3) by simp
  obtain r' remap' out' where IH: "add_tails g ds (r1, remap1, out1) = Some (r', remap', out')"
      "same_shape r1 r'" "tables_ok r' remap'" "types_in r' Ty"
      "\<And>\<sigma> :: Location \<Rightarrow> 'v. resolving M0 TS (c \<sigma>) (moves_of r') (copies remap') (mem r (run out' \<sigma>))"
      "\<And>\<sigma> :: Location \<Rightarrow> 'v. \<forall>l \<in> outside r. run out' \<sigma> l = run out1 \<sigma> l"
      "have_readers (moves_of r') (set ds \<union> insert d X)"
    using Cons.IH[OF one(3) ds one(4), of out1 "insert d X"] one(5,7) unfolding m by blast
  show ?case
    unfolding step using IH same_shape_trans[OF one(2) IH(2)] one(6)
    by (intro exI[of _ r'] exI[of _ remap'] exI[of _ out']) auto
qed

section \<open>Temporary locations\<close>

text \<open>The resolver registers the use of a preassigned temporary in the graph, and changes
  nothing else there.\<close>

definition same_graph :: "RegGraph \<Rightarrow> RegGraph \<Rightarrow> bool" where
  "same_graph g g' \<longleftrightarrow> (\<exists>u v. g' = g\<lparr>usedRegs := u, usedVregs := v\<rparr>
     \<and> length u = length (usedRegs g) \<and> length v = length (usedVregs g))"

lemma same_graph_refl [simp]: "same_graph g g"
  unfolding same_graph_def by (intro exI[of _ "usedRegs g"] exI[of _ "usedVregs g"]) simp

lemma same_graph_trans: "same_graph g g' \<Longrightarrow> same_graph g' g'' \<Longrightarrow> same_graph g g''"
  unfolding same_graph_def by force

definition temps_ok :: "RegGraph \<Rightarrow> SpillFillsResolver \<Rightarrow> DataType set \<Rightarrow> nat set \<Rightarrow> bool" where
  "temps_ok g r Ty TS \<longleftrightarrow> (\<forall>g' type. same_graph g g' \<longrightarrow> type \<in> Ty \<longrightarrow>
     (\<exists>h t. GetResolver g' r type = Some (h, t) \<and> same_graph g' h \<and> t \<in> TS \<and> t < locationsCount r))"

lemma temps_okE:
  assumes "temps_ok g r Ty TS" "type \<in> Ty"
  obtains h t where "GetResolver g r type = Some (h, t)" "same_graph g h" "t \<in> TS" "t < locationsCount r"
  using assms same_graph_refl unfolding temps_ok_def by blast

lemma temps_ok_same:
  assumes "temps_ok g r Ty TS" "same_graph g g'" "same_shape r r'"
  shows "temps_ok g' r' Ty TS"
proof -
  have "GetResolver h r' type = GetResolver h r type" for h type
    using same_shape_simps(10)[OF assms(3)] by metis
  then show ?thesis
    using assms same_graph_trans[OF assms(2)] same_shape_simps(3)[OF assms(3)] by (simp add: temps_ok_def)
qed

section \<open>Cycles\<close>

lemma find_cycle_end_returns:
  assumes ok: "tables_ok r remap" and cyc: "cyclic (moves_of r)"
    and "moves_of r dst = Some src" "n \<le> fuel" "(source_of (moves_of r) ^^ n) src = first"
  shows "\<exists>e. find_cycle_end nd fuel (movesTable r) first dst src = Some e \<and> moves_of r e = Some first"
  using assms(3-5)
proof (induction fuel arbitrary: dst src n)
  case 0
  then show ?case by (simp add: find_cycle_end.simps)
next
  case (Suc k)
  show ?case
  proof (cases "src = first")
    case True
    then show ?thesis using Suc.prems(1) by (simp add: find_cycle_end.simps)
  next
    case False
    then obtain m where m: "n = Suc m" using Suc.prems(3) by (cases n) auto
    obtain s where s: "moves_of r src = Some s" using cyclic_source[OF cyc Suc.prems(1)] by auto
    have "(source_of (moves_of r) ^^ m) s = first"
      using Suc.prems(3) s unfolding m funpow_simps_right(2) by (simp add: source_of_def)
    then obtain e where "find_cycle_end nd k (movesTable r) first src s = Some e" "moves_of r e = Some first"
      using Suc.IH[OF s, of m] Suc.prems(2) m by auto
    then show ?thesis
      using moves_of_nth[OF ok s] False by (subst find_cycle_end.simps) (simp add: ASSERT_def)
  qed
qed

lemma cycle_found:
  assumes ok: "tables_ok r remap" and cyc: "cyclic (moves_of r)" and d: "moves_of r d = Some s"
  obtains e where "find_cycle_end nd (length (movesTable r)) (movesTable r) d d s = Some e" "moves_of r e = Some d"
proof -
  have "dom (moves_of r) \<subseteq> {..<locationsCount r}" by (auto dest: moves_of_SomeD)
  then have "card (dom (moves_of r)) \<le> length (movesTable r)"
    using card_mono[of "{..<locationsCount r}"] tables_length[OF ok] by fastforce
  moreover have "d \<in> dom (moves_of r)" using d by (simp add: domI)
  then obtain n where "n < card (dom (moves_of r))" "(source_of (moves_of r) ^^ n) s = d"
    using cyclic_returns[OF cyc, of d] d by (auto simp: source_of_def)
  ultimately show ?thesis
    using that find_cycle_end_returns[OF ok cyc d, of n "length (movesTable r)" d nd] by force
qed

text \<open>The tables after \<open>CheckAndResolveCyclicDependency\<close>.\<close>

lemma readers_redirect:
  assumes "M e = Some d" "M t = None" "\<And>x. M x \<noteq> Some t" "finite (readers M d)" "t \<noteq> d"
  shows "card (readers (M(t := Some d, e := Some t)) x) = (if x = t then 1 else card (readers M x))"
proof -
  have et: "e \<noteq> t" using assms(1,2) by auto
  have mem: "y \<in> readers (M(t := Some d, e := Some t)) x \<longleftrightarrow>
      (if y = e then x = t else if y = t then x = d else y \<in> readers M x)" for y
    using et by (simp add: readers_def eq_commute)
  have re: "e \<in> readers M x \<longleftrightarrow> x = d" and rt: "t \<notin> readers M x" and r: "readers M t = {}"
    using assms(1-3) by (auto simp: readers_def)
  consider "x = t" | "x = d" "x \<noteq> t" | "x \<noteq> t" "x \<noteq> d" by blast
  then show ?thesis
  proof cases
    case 1
    then have "readers (M(t := Some d, e := Some t)) x = {e}" using assms(5) r unfolding set_eq_iff mem by simp
    then show ?thesis using 1 by simp
  next
    case 2
    then have "readers (M(t := Some d, e := Some t)) x = insert t (readers M x - {e})"
      using et unfolding set_eq_iff mem by simp
    then show ?thesis using 2 assms(4) re rt card.remove[of "readers M x" e] by simp
  next
    case 3
    then have "readers (M(t := Some d, e := Some t)) x = readers M x"
      using re rt unfolding set_eq_iff mem by auto
    then show ?thesis using 3 by simp
  qed
qed

lemma CheckAndResolve_moves:
  assumes ok: "tables_ok r remap" and cyc: "cyclic (moves_of r)" and d: "moves_of r d = Some s"
    and T: "GetResolver g r (regType (movesTable r ! d)) = Some (h, t)" "t < locationsCount r"
    and Mt: "moves_of r t = None" "\<And>x. moves_of r x \<noteq> Some t"
  shows "\<exists>e r'. CheckAndResolveCyclicDependency g d r = Some (h, t, r') \<and> same_shape r r' \<and> tables_ok r' remap
    \<and> moves_of r e = Some d \<and> moves_of r' = (moves_of r)(t := Some d, e := Some t)
    \<and> (\<forall>x < locationsCount r. x \<noteq> t \<longrightarrow> regType (movesTable r' ! x) = regType (movesTable r ! x))"
proof -
  note len = tables_length[OF ok] and md = moves_of_nth[OF ok d]
  obtain e where e: "find_cycle_end (ndebug g) (length (movesTable r)) (movesTable r) d d s = Some e"
    "moves_of r e = Some d" by (rule cycle_found[OF ok cyc d])
  note me = moves_of_nth[OF ok e(2)]
  have td: "t \<noteq> d" and te: "t \<noteq> e" using d e(2) Mt by auto
  define mt where "mt = (movesTable r)[t := (movesTable r ! t)\<lparr>move_src := d\<rparr>,
      e := (movesTable r ! e)\<lparr>move_src := t\<rparr>,
      t := (movesTable r ! t)\<lparr>move_src := d, regType := regType (movesTable r ! e)\<rparr>]"
  let ?r = "r\<lparr>movesTable := mt, loadsCount := (loadsCount r)[t := loadsCount r ! t + 1]\<rparr>"
  have "CheckAndResolveCyclicDependency g d r = Some (h, t, ?r)"
    using md me e T len te
    by (simp add: CheckAndResolveCyclicDependency_def nth_opt_def set_at_def mt_def nth_list_update)
  moreover have sh: "same_shape r ?r"
    unfolding same_shape_def by (intro exI[of _ "movesTable ?r"] exI[of _ "loadsCount ?r"]) (simp add: mt_def)
  moreover have mv: "moves_of ?r = (moves_of r)(t := Some d, e := Some t)"
    using md me T(2) len te by (auto simp: moves_of_def mt_def fun_eq_iff nth_list_update)
  moreover have "tables_ok ?r remap"
  proof -
    have "unat (loadsCount ?r ! x) = card (readers (moves_of ?r) x)" if "x < locationsCount r" for x
    proof -
      have "loadsCount r ! t = 0" using no_readers[OF ok T(2)] Mt(2) by blast
      then show ?thesis
        unfolding mv readers_redirect[OF e(2) Mt finite_readers td]
        using that len ok by (simp add: nth_list_update tables_ok_def)
    qed
    moreover have "x < locationsCount r" if "moves_of ?r d' = Some x" for d' x
      using that moves_of_nth[OF ok] md T(2) unfolding mv by (auto split: if_splits)
    ultimately show ?thesis
      using len ok unfolding tables_ok_def same_shape_simps(2,3)[OF sh] by blast
  qed
  moreover have "regType (movesTable ?r ! x) = regType (movesTable r ! x)" if "x < locationsCount r" "x \<noteq> t" for x
    using that len me by (cases "x = e") (simp_all add: mt_def nth_list_update)
  ultimately show ?thesis using e(2) by blast
qed

lemma copies_unset: "length remap = n \<Longrightarrow> i < n \<Longrightarrow> copies remap i = None \<longleftrightarrow> remap ! i = INVALID_LOCATION_INDEX"
  by (simp add: copies_def)

lemma copies_fixup:
  assumes "d < length remap" "t < length remap" "re = remap ! t" "re \<noteq> INVALID_LOCATION_INDEX"
  shows "copies (remap[d := re, t := INVALID_LOCATION_INDEX]) = (copies remap)(d := copies remap t, t := None)"
  using assms by (auto simp: copies_def fun_eq_iff nth_list_update)

lemma tables_ok_fixup:
  assumes "tables_ok r remap" "re < locationsCount r"
  shows "tables_ok r (remap[d := re, t := INVALID_LOCATION_INDEX])"
proof -
  have "remap[d := re, t := INVALID_LOCATION_INDEX] ! i < locationsCount r"
    if "i < locationsCount r" "remap[d := re, t := INVALID_LOCATION_INDEX] ! i \<noteq> INVALID_LOCATION_INDEX" for i
    using assms that unfolding tables_ok_def by (cases "i = t"; cases "i = d") simp_all
  then show ?thesis using assms by (simp add: tables_ok_def)
qed

lemma AddMovesChain_cycle:
  assumes ok: "tables_ok r1 remap" and t: "moves_of r1 t = Some d" "remap ! t = INVALID_LOCATION_INDEX"
    and cyc: "\<forall>\<sigma> z M' R' (\<mu>' :: nat \<Rightarrow> 'v).
        chain t (moves_of r1) (copies remap) (mem r1 (run out \<sigma>)) z M' R' \<mu>' \<longrightarrow> z = t \<and> R' t \<noteq> None"
  shows "\<exists>r' remap' out'. AddMovesChain True g t r1 remap out = Some (r', remap', out')
    \<and> same_shape r1 r' \<and> tables_ok r' remap' \<and> map regType (movesTable r') = map regType (movesTable r1)
    \<and> (\<forall>\<sigma> :: Location \<Rightarrow> 'v. \<exists>R'. chain t (moves_of r1) (copies remap) (mem r1 (run out \<sigma>))
            t (moves_of r') R' (mem r1 (run out' \<sigma>))
          \<and> copies remap' = R'(d := R' t, t := None)
        \<and> (\<forall>l \<in> outside r1. run out' \<sigma> l = run out \<sigma> l))"
proof -
  note len = tables_length[OF ok] and mt = moves_of_nth[OF ok t(1)]
  obtain z r' rm out' where L: "AddMovesChain_loop g t r1 remap out = Some (z, r', rm, out')"
      "same_shape r1 r'" "tables_ok r' rm" "map regType (movesTable r') = map regType (movesTable r1)"
      "\<And>\<sigma> :: Location \<Rightarrow> 'v. chain t (moves_of r1) (copies remap) (mem r1 (run out \<sigma>))
          z (moves_of r') (copies rm) (mem r1 (run out' \<sigma>))"
      "\<And>\<sigma> :: Location \<Rightarrow> 'v. \<forall>l \<in> outside r1. run out' \<sigma> l = run out \<sigma> l"
    using AddMovesChain_loop_chain[OF ok conjunct1[OF mt], where ?'v = 'v, of g out] by blast
  note len' = tables_length[OF L(3)] and sh = same_shape_simps[OF L(2)]
  have z: "z = t" "copies rm t \<noteq> None" using cyc L(5) by blast+
  have re: "rm ! t \<noteq> INVALID_LOCATION_INDEX" using z(2) by (auto simp: copies_def split: if_splits)
  let ?rm = "rm[d := rm ! t, t := INVALID_LOCATION_INDEX]"
  have "AddMovesChain True g t r1 remap out = Some (r', ?rm, out')"
    using len len' sh(3) mt t(2) L(1) z(1) re by (simp add: AddMovesChain_def nth_opt_def ASSERT_def set_at_def)
  moreover have "tables_ok r' ?rm"
    by (rule tables_ok_fixup[OF L(3)]) (use L(3) re mt sh(3) in \<open>simp add: tables_ok_def\<close>)
  moreover have "copies ?rm = (copies rm)(d := copies rm t, t := None)"
    by (rule copies_fixup) (use len' mt sh(3) re in simp_all)
  ultimately show ?thesis using L(2,4,5,6) unfolding z(1) by blast
qed

text \<open>What holds before and after each cycle.\<close>

definition cycles_left :: "RegGraph \<Rightarrow> SpillFillsResolver \<Rightarrow> nat list \<Rightarrow> DataType set \<Rightarrow> nat set \<Rightarrow> bool" where
  "cycles_left g r remap Ty TS \<longleftrightarrow> tables_ok r remap \<and> cyclic (moves_of r) \<and> types_in r Ty \<and> temps_ok g r Ty TS"

lemma cycle_step:
  assumes inv: "cycles_left g r remap Ty TS" and d: "moves_of r d \<noteq> None"
    and res: "\<And>\<sigma> :: Location \<Rightarrow> 'v. resolving M0 TS (c \<sigma>) (moves_of r) (copies remap) (mem r (run out \<sigma>))"
  shows "\<exists>h t r1 r' remap' out'. CheckAndResolveCyclicDependency g d r = Some (h, t, r1)
    \<and> AddMovesChain True h t r1 remap out = Some (r', remap', out')
    \<and> same_graph g h \<and> same_shape r r' \<and> cycles_left h r' remap' Ty TS
    \<and> moves_of r' \<subseteq>\<^sub>m moves_of r \<and> moves_of r' d = None
    \<and> (\<forall>\<sigma> :: Location \<Rightarrow> 'v. resolving M0 TS (c \<sigma>) (moves_of r') (copies remap') (mem r (run out' \<sigma>))
        \<and> (\<forall>l \<in> outside r. run out' \<sigma> l = run out \<sigma> l))"
proof -
  have ok: "tables_ok r remap" and cyc: "cyclic (moves_of r)" and ty: "types_in r Ty" and temps: "temps_ok g r Ty TS"
    using inv by (simp_all add: cycles_left_def)
  note len = tables_length[OF ok]
  obtain s where s: "moves_of r d = Some s" using d by auto
  have "regType (movesTable r ! d) \<in> Ty" using ty d by (simp add: types_in_def)
  then obtain h t where T: "GetResolver g r (regType (movesTable r ! d)) = Some (h, t)"
    "same_graph g h" "t \<in> TS" "t < locationsCount r" by (rule temps_okE[OF temps])
  note r0 = res[of undefined, unfolded resolving_def]
  have Mt: "moves_of r t = None" "moves_of r x \<noteq> Some t" for x
    using r0 T(3) map_le_None[of "moves_of r" M0 t] map_leD[of "moves_of r" M0 x t] by auto
  obtain e r1 where C: "CheckAndResolveCyclicDependency g d r = Some (h, t, r1)" "same_shape r r1"
    "tables_ok r1 remap" "moves_of r e = Some d" "moves_of r1 = (moves_of r)(t := Some d, e := Some t)"
    "\<forall>x < locationsCount r. x \<noteq> t \<longrightarrow> regType (movesTable r1 ! x) = regType (movesTable r ! x)"
    using CheckAndResolve_moves[OF ok cyc s T(1,4) Mt] by blast
  note sh = same_shape_simps[OF C(2)]
  have m: "mem r1 = mem r" "outside r1 = outside r"
    using sh(1) by (auto simp: fun_eq_iff mem_def outside_def)
  have b: "breaking M0 TS (c \<sigma>) (moves_of r) (copies remap) (mem r (run out \<sigma>)) t d e" for \<sigma> :: "Location \<Rightarrow> 'v"
    using res cyc T(3) C(4) by (simp add: breaking_def)
  have et: "moves_of r1 t = Some d" using C(4,5) Mt(2)[of e] Mt(1) by (cases "t = e") auto
  have rt: "remap ! t = INVALID_LOCATION_INDEX"
    using r0 T(3,4) len copies_unset[of remap "locationsCount r" t] by auto
  have "\<forall>\<sigma> z M' R' (\<mu>' :: nat \<Rightarrow> 'v).
      chain t (moves_of r1) (copies remap) (mem r1 (run out \<sigma>)) z M' R' \<mu>' \<longrightarrow> z = t \<and> R' t \<noteq> None"
    using resolving_cycle(1,2)[OF b] unfolding C(5) m by blast
  from AddMovesChain_cycle[OF C(3) et rt this, where g = h] obtain r' remap' out' where
    A: "AddMovesChain True h t r1 remap out = Some (r', remap', out')" "same_shape r1 r'" "tables_ok r' remap'"
      "map regType (movesTable r') = map regType (movesTable r1)"
    and ch: "\<And>\<sigma> :: Location \<Rightarrow> 'v. \<exists>R'. chain t (moves_of r1) (copies remap) (mem r (run out \<sigma>))
            t (moves_of r') R' (mem r (run out' \<sigma>)) \<and> copies remap' = R'(d := R' t, t := None)
        \<and> (\<forall>l \<in> outside r. run out' \<sigma> l = run out \<sigma> l)"
    unfolding m by blast
  have after: "cyclic (moves_of r')" "moves_of r' \<subseteq>\<^sub>m moves_of r" "moves_of r' d = None"
    "resolving M0 TS (c \<sigma>) (moves_of r') (copies remap') (mem r (run out' \<sigma>))"
    "\<forall>l \<in> outside r. run out' \<sigma> l = run out \<sigma> l" for \<sigma> :: "Location \<Rightarrow> 'v"
    using ch[of \<sigma>] resolving_cycle(3-6)[OF b] unfolding C(5) by metis+
  have ss: "same_shape r r'" by (rule same_shape_trans[OF C(2) A(2)])
  have rg: "regType (movesTable r' ! x) = regType (movesTable r ! x)" if "x < locationsCount r" "moves_of r' x \<noteq> None" for x
    using arg_cong[OF A(4), of "\<lambda>xs. xs ! x"] that C(6) sh(3) Mt(1) map_le_None[OF after(2), of t]
      tables_length[OF A(3)] tables_length[OF C(3)] same_shape_simps(3)[OF ss] by auto
  have "types_in r' Ty"
    by (rule types_in_less[OF ty after(2) same_shape_simps(3)[OF ss] _ _ rg])
      (use len tables_length[OF A(3)] same_shape_simps(3)[OF ss] in simp_all)
  then have "cycles_left h r' remap' Ty TS"
    using A(3) after(1) temps_ok_same[OF temps T(2) ss] by (simp add: cycles_left_def)
  then show ?thesis using C(1) A(1) T(2) ss after by blast
qed

lemma add_cycles_resolving:
  assumes "cycles_left g r remap Ty TS" "set ds \<subseteq> {..<locationsCount r}"
    and "\<And>\<sigma> :: Location \<Rightarrow> 'v. resolving M0 TS (c \<sigma>) (moves_of r) (copies remap) (mem r (run out \<sigma>))"
  shows "\<exists>h r' remap' out'. add_cycles ds (g, r, remap, out) = Some (h, r', remap', out')
    \<and> same_graph g h \<and> same_shape r r' \<and> moves_of r' \<subseteq>\<^sub>m moves_of r \<and> (\<forall>d \<in> set ds. moves_of r' d = None)
    \<and> (\<forall>\<sigma> :: Location \<Rightarrow> 'v. resolving M0 TS (c \<sigma>) (moves_of r') (copies remap') (mem r (run out' \<sigma>))
        \<and> (\<forall>l \<in> outside r. run out' \<sigma> l = run out \<sigma> l))"
  using assms
proof (induction ds arbitrary: g r remap out)
  case Nil
  then show ?case by (intro exI[of _ g] exI[of _ r] exI[of _ remap] exI[of _ out]) simp
next
  case (Cons d ds)
  have ok: "tables_ok r remap" using Cons.prems(1) by (simp add: cycles_left_def)
  note len = tables_length[OF ok]
  have d: "d < locationsCount r" using Cons.prems(2) by simp
  have src: "moves_of r d = None \<longleftrightarrow> move_src (movesTable r ! d) = INVALID_LOCATION_INDEX"
    using d by (simp add: moves_of_def)
  show ?case
  proof (cases "moves_of r d")
    case None
    then have step: "add_cycles (d # ds) (g, r, remap, out) = add_cycles ds (g, r, remap, out)"
      using src d len by (simp add: nth_opt_def)
    have "set ds \<subseteq> {..<locationsCount r}" using Cons.prems(2) by simp
    from Cons.IH[OF Cons.prems(1) this Cons.prems(3)] show ?thesis
      unfolding step using map_le_None[of _ "moves_of r" d, OF _ None] by (simp add: ball_Un) blast
  next
    case (Some s)
    then have pend: "moves_of r d \<noteq> None" by simp
    obtain h t r0 r1 rm1 out1 where one: "CheckAndResolveCyclicDependency g d r = Some (h, t, r0)"
      "AddMovesChain True h t r0 remap out = Some (r1, rm1, out1)" "same_graph g h" "same_shape r r1"
      "cycles_left h r1 rm1 Ty TS" "moves_of r1 \<subseteq>\<^sub>m moves_of r" "moves_of r1 d = None"
      "\<And>\<sigma> :: Location \<Rightarrow> 'v. resolving M0 TS (c \<sigma>) (moves_of r1) (copies rm1) (mem r (run out1 \<sigma>))"
      "\<And>\<sigma> :: Location \<Rightarrow> 'v. \<forall>l \<in> outside r. run out1 \<sigma> l = run out \<sigma> l"
      using cycle_step[OF Cons.prems(1) pend Cons.prems(3)] by blast
    note sh = same_shape_simps[OF one(4)]
    have m: "mem r1 = mem r" "outside r1 = outside r"
      using sh(1) by (auto simp: fun_eq_iff mem_def outside_def)
    have "loadsCount r ! d \<noteq> 0"
    proof -
      have "cyclic (moves_of r)" using Cons.prems(1) by (simp add: cycles_left_def)
      then have "\<exists>y. moves_of r y = Some d" using pend by (simp add: cyclic_def)
      then show ?thesis using no_readers[OF ok d] by blast
    qed
    then have step: "add_cycles (d # ds) (g, r, remap, out) = add_cycles ds (h, r1, rm1, out1)"
      using src pend d len one(1,2) by (simp add: nth_opt_def ASSERT_def word_gt_0)
    have ds: "set ds \<subseteq> {..<locationsCount r1}" using Cons.prems(2) sh(3) by simp
    obtain h' r' remap' out' where IH: "add_cycles ds (h, r1, rm1, out1) = Some (h', r', remap', out')"
      "same_graph h h'" "same_shape r1 r'" "moves_of r' \<subseteq>\<^sub>m moves_of r1" "\<forall>d \<in> set ds. moves_of r' d = None"
      "\<And>\<sigma> :: Location \<Rightarrow> 'v. resolving M0 TS (c \<sigma>) (moves_of r') (copies remap') (mem r (run out' \<sigma>))"
      "\<And>\<sigma> :: Location \<Rightarrow> 'v. \<forall>l \<in> outside r. run out' \<sigma> l = run out1 \<sigma> l"
      using Cons.IH[OF one(5) ds, of out1] one(8) unfolding m by blast
    show ?thesis
      unfolding step
      using IH same_graph_trans[OF one(3) IH(2)] same_shape_trans[OF one(4) IH(3)] map_le_trans[OF IH(4) one(6)]
        map_le_None[OF IH(4) one(7)] one(9)
      by (intro exI[of _ h'] exI[of _ r'] exI[of _ remap'] exI[of _ out']) auto
  qed
qed

section \<open>Reordering\<close>

text \<open>All of \<open>Reorder\<close> between the moves it puts first and those it puts last.\<close>

lemma Reorder_moves:
  assumes ok: "tables_ok r (replicate (locationsCount r) INVALID_LOCATION_INDEX)"
    and ty: "types_in r Ty" and temps: "temps_ok g r Ty TS"
    and self: "\<And>x. moves_of r x \<noteq> Some x"
    and ts: "\<And>t. t \<in> TS \<Longrightarrow> moves_of r t = None \<and> (\<forall>x. moves_of r x \<noteq> Some t)"
    and pre: "\<And>\<sigma> :: Location \<Rightarrow> 'v. mem r (run (preMoves r) \<sigma>) = mem r \<sigma>"
  shows "\<exists>h r' out. Reorder g r = Some (h, r', out @ postMoves r) \<and> same_graph g h \<and> same_shape r r'
    \<and> (\<forall>\<sigma> :: Location \<Rightarrow> 'v. (\<forall>x. x \<notin> TS \<longrightarrow> run out \<sigma> (loc r x)
          = (case moves_of r x of None \<Rightarrow> \<sigma> (loc r x) | Some s \<Rightarrow> \<sigma> (loc r s)))
        \<and> (\<forall>l \<in> outside r. run out \<sigma> l = run (preMoves r) \<sigma> l))"
proof -
  let ?rm = "replicate (locationsCount r) INVALID_LOCATION_INDEX" and ?ds = "[0..<to_index (locationsCount r)]"
  note len = tables_length[OF ok]
  have ds: "?ds = [0..<locationsCount r]" using len by (simp add: to_index_def INVALID_LOCATION_INDEX_def)
  have c0: "copies ?rm = (\<lambda>_. None)" by (auto simp: copies_def fun_eq_iff)
  have "resolving (moves_of r) TS (mem r \<sigma>) (moves_of r) (copies ?rm) (mem r (run (preMoves r) \<sigma>))"
    for \<sigma> :: "Location \<Rightarrow> 'v"
    unfolding c0 pre using resolving_init self ts by blast
  from add_tails_resolving[OF ok _ ty this, of ?ds "{}" g] obtain r1 rm1 out1 where
    A: "add_tails g ?ds (r, ?rm, preMoves r) = Some (r1, rm1, out1)" "same_shape r r1" "tables_ok r1 rm1" "types_in r1 Ty"
      "have_readers (moves_of r1) {..<locationsCount r}"
      "\<And>\<sigma> :: Location \<Rightarrow> 'v. resolving (moves_of r) TS (mem r \<sigma>) (moves_of r1) (copies rm1) (mem r (run out1 \<sigma>))"
      "\<And>\<sigma> :: Location \<Rightarrow> 'v. \<forall>l \<in> outside r. run out1 \<sigma> l = run (preMoves r) \<sigma> l"
    unfolding ds by (auto simp: have_readers_def atLeast0LessThan)
  note sh = same_shape_simps[OF A(2)]
  have m: "mem r1 = mem r" "outside r1 = outside r"
    using sh(1) by (auto simp: fun_eq_iff mem_def outside_def)
  have "cyclic (moves_of r1)"
    unfolding cyclic_def
  proof (intro conjI allI impI finite_moves_of)
    fix x assume x: "moves_of r1 x \<noteq> None"
    then have "x < locationsCount r" using moves_of_SomeD[of r1 x] sh(3) by auto
    then show "\<exists>y. moves_of r1 y = Some x" using A(5) x by (simp add: have_readers_def)
  qed
  then have left: "cycles_left g r1 rm1 Ty TS"
    using A(3,4) temps_ok_same[OF temps same_graph_refl A(2)] by (simp add: cycles_left_def)
  have ds1: "set ?ds \<subseteq> {..<locationsCount r1}" unfolding ds sh(3) by auto
  obtain h r2 rm2 out2 where B: "add_cycles ?ds (g, r1, rm1, out1) = Some (h, r2, rm2, out2)"
      "same_graph g h" "same_shape r1 r2" "\<forall>d \<in> set ?ds. moves_of r2 d = None"
      "\<And>\<sigma> :: Location \<Rightarrow> 'v. resolving (moves_of r) TS (mem r \<sigma>) (moves_of r2) (copies rm2) (mem r (run out2 \<sigma>))"
      "\<And>\<sigma> :: Location \<Rightarrow> 'v. \<forall>l \<in> outside r. run out2 \<sigma> l = run out1 \<sigma> l"
    using add_cycles_resolving[OF left ds1, of "moves_of r" "mem r" out1] A(6) unfolding m by blast
  have ss: "same_shape r r2" by (rule same_shape_trans[OF A(2) B(3)])
  have "moves_of r2 = (\<lambda>_. None)"
  proof
    fix x show "moves_of r2 x = None"
      using B(4) moves_of_SomeD[of r2 x] same_shape_simps(3)[OF ss] unfolding ds by (cases "moves_of r2 x") auto
  qed
  note fin = B(5)[unfolded this]
  have "Reorder g r = Some (h, r2, out2 @ postMoves r)"
    using A(1) B(1) same_shape_simps(5)[OF ss] by (simp add: Reorder_def)
  moreover have "run out2 \<sigma> (loc r x) = (case moves_of r x of None \<Rightarrow> \<sigma> (loc r x) | Some s \<Rightarrow> \<sigma> (loc r s))"
    if "x \<notin> TS" for \<sigma> :: "Location \<Rightarrow> 'v" and x
    using resolving_done[OF fin that] by (simp add: mem_def split: option.split)
  ultimately show ?thesis using A(7) B(2,6) ss by metis
qed

end
