(* ===== verification/Spill_Fills_Correct.thy ===== *)
theory Spill_Fills_Correct
  imports Spill_Fills_Phases
begin

text \<open>
  The moves that \<open>CollectSpillFillsData\<close> puts in the tables, and the properties of the resolver.
\<close>

section \<open>Collecting the moves\<close>

definition plain :: "SpillFillData \<Rightarrow> bool" where
  "plain sf \<longleftrightarrow> \<not> same_place sf \<and> SrcType sf \<noteq> IMMEDIATE \<and> DstType sf \<noteq> STACK_ARGUMENT"

definition late :: "SpillFillData \<Rightarrow> bool" where
  "late sf \<longleftrightarrow> \<not> same_place sf \<and> SrcType sf = IMMEDIATE"

definition early :: "SpillFillData \<Rightarrow> bool" where
  "early sf \<longleftrightarrow> \<not> same_place sf \<and> SrcType sf \<noteq> IMMEDIATE \<and> DstType sf = STACK_ARGUMENT"

text \<open>A move of the register allocator: from an immediate or a location of the table to a
  location of the table or an outgoing argument.\<close>

definition good_move :: "SpillFillsResolver \<Rightarrow> SpillFillData \<Rightarrow> bool" where
  "good_move r sf \<longleftrightarrow> (SrcType sf = IMMEDIATE \<or> in_table r (sf_src sf))
     \<and> (in_table r (sf_dst sf) \<or> DstType sf = STACK_ARGUMENT)"

definition same_layout :: "SpillFillsResolver \<Rightarrow> SpillFillsResolver \<Rightarrow> bool" where
  "same_layout r r' \<longleftrightarrow> (\<exists>mt lc a b rw sw. r' = r\<lparr>movesTable := mt, loadsCount := lc, preMoves := a, postMoves := b,
       regWrite := rw, stackWrite := sw\<rparr>
     \<and> length mt = length (movesTable r) \<and> length lc = length (loadsCount r)
     \<and> length rw = length (regWrite r) \<and> length sw = length (stackWrite r))"

lemma same_layout_simps:
  assumes "same_layout r r'"
  shows "loc r' = loc r" "table_ok r' = table_ok r" "locationsCount r' = locationsCount r"
    "in_table r' = in_table r" "idx r' = idx r" "good_move r' = good_move r" "resolverReg r' = resolverReg r"
    "vregsTableOffset r' = vregsTableOffset r" "slotsTableOffset r' = slotsTableOffset r"
    "parameterSlotsOffset r' = parameterSlotsOffset r"
proof -
  obtain mt lc a b rw sw where r': "r' = r\<lparr>movesTable := mt, loadsCount := lc, preMoves := a, postMoves := b,
       regWrite := rw, stackWrite := sw\<rparr>" and l: "length mt = length (movesTable r)" "length lc = length (loadsCount r)"
     "length rw = length (regWrite r)" "length sw = length (stackWrite r)"
    using assms unfolding same_layout_def by blast
  show f: "locationsCount r' = locationsCount r" "resolverReg r' = resolverReg r"
    "vregsTableOffset r' = vregsTableOffset r" "slotsTableOffset r' = slotsTableOffset r"
    "parameterSlotsOffset r' = parameterSlotsOffset r"
    unfolding r' by simp_all
  show it: "in_table r' = in_table r" unfolding in_table_def f by (rule refl)
  show "good_move r' = good_move r" unfolding good_move_def it by (rule refl)
  show "loc r' = loc r" "idx r' = idx r" unfolding loc_def idx_def f by (rule refl)+
  show "table_ok r' = table_ok r" unfolding r' table_ok_def using l by simp
qed

lemma same_layout_trans: "same_layout r r' \<Longrightarrow> same_layout r' r'' \<Longrightarrow> same_layout r r''"
  unfolding same_layout_def by force

lemma same_shape_layout:
  assumes "same_shape r r'"
  shows "same_layout r r'"
proof -
  obtain mt lc where "r' = r\<lparr>movesTable := mt, loadsCount := lc\<rparr>" "length mt = length (movesTable r)"
    "length lc = length (loadsCount r)" using assms unfolding same_shape_def by blast
  then show ?thesis
    unfolding same_layout_def
    by (intro exI[of _ mt] exI[of _ lc] exI[of _ "preMoves r"] exI[of _ "postMoves r"]
        exI[of _ "regWrite r"] exI[of _ "stackWrite r"]) simp
qed

definition collected :: "SpillFillsResolver \<Rightarrow> SpillFillData list \<Rightarrow> bool" where
  "collected r sfs \<longleftrightarrow> table_ok r
     \<and> (\<forall>d s. moves_of r d = Some s \<longleftrightarrow> (\<exists>sf \<in> set sfs. plain sf \<and> idx r (sf_dst sf) = d \<and> idx r (sf_src sf) = s))
     \<and> types_in r (sf_type ` set sfs)
     \<and> preMoves r = filter early sfs \<and> postMoves r = filter late sfs
     \<and> (\<forall>s < locationsCount r. loadsCount r ! s = of_nat (card (readers (moves_of r) s)))"

lemma collected_moves:
  assumes "collected r sfs"
  shows "moves_of r d = Some s \<longleftrightarrow> (\<exists>sf \<in> set sfs. plain sf \<and> idx r (sf_dst sf) = d \<and> idx r (sf_src sf) = s)"
proof -
  have "\<forall>d s. moves_of r d = Some s \<longleftrightarrow> (\<exists>sf \<in> set sfs. plain sf \<and> idx r (sf_dst sf) = d \<and> idx r (sf_src sf) = s)"
    using assms unfolding collected_def by (elim conjE)
  then show ?thesis by (elim allE)
qed

lemma idx_eq_iff: "table_ok r \<Longrightarrow> in_table r l \<Longrightarrow> in_table r l' \<Longrightarrow> idx r l = idx r l' \<longleftrightarrow> l = l'"
  using in_table_idx(2) by metis

lemma readers_add:
  assumes "M d = None" "finite (readers M s)"
  shows "card (readers (M(d := Some s)) x) = (if x = s then Suc (card (readers M x)) else card (readers M x))"
proof -
  have "readers (M(d := Some s)) x = (if x = s then insert d (readers M x) else readers M x)"
    using assms(1) by (auto simp: readers_def)
  moreover have "d \<notin> readers M x" using assms(1) by (simp add: readers_def)
  ultimately show ?thesis using assms(2) by auto
qed

lemma collect_plain:
  assumes c: "collected r sfs" and sf: "good_move r sf" "plain sf"
    and new: "sf_dst sf \<notin> sf_dst ` set sfs" and all: "\<And>sf. sf \<in> set sfs \<Longrightarrow> good_move r sf"
  shows "\<exists>r'. collect_step g sf r = Some r' \<and> same_layout r r' \<and> collected r' (sfs @ [sf])"
proof -
  have T: "table_ok r" using c by (simp add: collected_def)
  have len: "length (movesTable r) = locationsCount r" "length (loadsCount r) = locationsCount r"
    "locationsCount r < INVALID_LOCATION_INDEX" using T by (simp_all add: table_ok_def)
  have ins: "in_table r (sf_src sf)" "in_table r (sf_dst sf)" using sf by (auto simp: good_move_def plain_def)
  let ?s = "idx r (sf_src sf)" and ?d = "idx r (sf_dst sf)"
  note s = in_table_idx[OF T ins(1)] and d = in_table_idx[OF T ins(2)]
  have free: "moves_of r ?d = None"
  proof (rule ccontr)
    assume "moves_of r ?d \<noteq> None"
    then obtain y where "moves_of r ?d = Some y" by auto
    then obtain sf' where sf': "sf' \<in> set sfs" "plain sf'" "idx r (sf_dst sf') = ?d"
      using collected_moves[OF c] by blast
    then have "in_table r (sf_dst sf')" using all[of sf'] unfolding good_move_def plain_def by blast
    then have "sf_dst sf' = sf_dst sf" using idx_eq_iff[OF T _ ins(2)] sf'(3) by blast
    then show False using sf'(1) new by (metis imageI)
  qed
  let ?r = "r\<lparr>movesTable := (movesTable r)[?d := \<lparr>move_src = ?s, regType = sf_type sf\<rparr>],
      loadsCount := (loadsCount r)[?s := loadsCount r ! ?s + 1]\<rparr>"
  have "move_src (movesTable r ! ?d) = INVALID_LOCATION_INDEX"
    using free d(1) unfolding moves_of_def by (metis option.distinct(1))
  then have step: "collect_step g sf r = Some ?r"
    using sf(2) s d len by (simp add: collect_step_def plain_def nth_opt_def ASSERT_def)
  have sh: "same_shape r ?r"
    unfolding same_shape_def by (intro exI[of _ "movesTable ?r"] exI[of _ "loadsCount ?r"]) simp
  have mv: "moves_of ?r = (moves_of r)(?d := Some ?s)"
    using s(1) d(1) len by (auto simp: moves_of_def fun_eq_iff nth_list_update)
  have "collected ?r (sfs @ [sf])"
    unfolding collected_def
  proof (intro conjI)
    show "table_ok ?r" using same_shape_simps(2)[OF sh] T by simp
    have i: "idx ?r = idx r" using same_layout_simps(5)[OF same_shape_layout[OF sh]] .
    show "\<forall>d s. moves_of ?r d = Some s \<longleftrightarrow>
        (\<exists>sf \<in> set (sfs @ [sf]). plain sf \<and> idx ?r (sf_dst sf) = d \<and> idx ?r (sf_src sf) = s)"
    proof (intro allI)
      fix d' s'
      have "(\<exists>sf' \<in> set sfs. plain sf' \<and> idx r (sf_dst sf') = d' \<and> idx r (sf_src sf') = s') \<longleftrightarrow> moves_of r d' = Some s'"
        using collected_moves[OF c] by simp
      then show "moves_of ?r d' = Some s' \<longleftrightarrow>
          (\<exists>sf \<in> set (sfs @ [sf]). plain sf \<and> idx ?r (sf_dst sf) = d' \<and> idx ?r (sf_src sf) = s')"
        unfolding mv i using free sf(2) by (cases "d' = ?d") (auto simp: eq_commute)
    qed
    show "types_in ?r (sf_type ` set (sfs @ [sf]))"
      using c len d(1) unfolding types_in_def mv by (auto simp: collected_def types_in_def nth_list_update)
    show "preMoves ?r = filter early (sfs @ [sf])" "postMoves ?r = filter late (sfs @ [sf])"
      using c sf(2) by (auto simp: collected_def plain_def early_def late_def)
    show "\<forall>s < locationsCount ?r. loadsCount ?r ! s = of_nat (card (readers (moves_of ?r) s))"
      unfolding mv readers_add[OF free finite_readers]
      using c len by (simp add: collected_def nth_list_update)
  qed
  then show ?thesis using step same_shape_layout[OF sh] by blast
qed

lemma collect_other:
  assumes c: "collected r sfs" and sf: "\<not> plain sf"
  shows "\<exists>r'. collect_step g sf r = Some r' \<and> same_layout r r' \<and> collected r' (sfs @ [sf])"
proof -
  let ?r = "r\<lparr>preMoves := filter early (sfs @ [sf]), postMoves := filter late (sfs @ [sf])\<rparr>"
  have "preMoves r = filter early sfs" "postMoves r = filter late sfs" using c by (simp_all add: collected_def)
  then have "collect_step g sf r = Some ?r"
    using sf by (cases r) (auto simp: collect_step_def plain_def early_def late_def)
  moreover have lay: "same_layout r ?r"
    unfolding same_layout_def
    by (intro exI[of _ "movesTable r"] exI[of _ "loadsCount r"] exI[of _ "preMoves ?r"] exI[of _ "postMoves ?r"]
        exI[of _ "regWrite r"] exI[of _ "stackWrite r"]) simp
  moreover have "collected ?r (sfs @ [sf])"
  proof -
    have mv: "moves_of ?r = moves_of r" by (simp add: moves_of_def fun_eq_iff)
    show ?thesis
      using c sf unfolding collected_def mv same_layout_simps[OF lay] types_in_def by auto
  qed
  ultimately show ?thesis by blast
qed

lemma collect_loop_collected:
  assumes "collected r sfs" "\<And>sf. sf \<in> set (sfs @ rest) \<Longrightarrow> good_move r sf" "distinct (map sf_dst (sfs @ rest))"
  shows "\<exists>r'. collect_loop g rest r = Some r' \<and> same_layout r r' \<and> collected r' (sfs @ rest)"
  using assms
proof (induction rest arbitrary: r sfs)
  case Nil
  then show ?case using same_shape_layout[OF same_shape_refl] by auto
next
  case (Cons sf rest)
  have "\<exists>r'. collect_step g sf r = Some r' \<and> same_layout r r' \<and> collected r' (sfs @ [sf])"
  proof (cases "plain sf")
    case True
    show ?thesis by (rule collect_plain[OF Cons.prems(1) _ True]) (use Cons.prems(2,3) in auto)
  next
    case False
    then show ?thesis by (rule collect_other[OF Cons.prems(1)])
  qed
  then obtain r1 where r1: "collect_step g sf r = Some r1" "same_layout r r1" "collected r1 (sfs @ [sf])" by blast
  have "good_move r1 = good_move r" by (rule same_layout_simps(6)[OF r1(2)])
  then obtain r' where "collect_loop g rest r1 = Some r'" "same_layout r1 r'" "collected r' ((sfs @ [sf]) @ rest)"
    using Cons.IH[OF r1(3)] Cons.prems(2,3) by auto
  then show ?case using r1(1) same_layout_trans[OF r1(2)] by (intro exI[of _ r']) simp
qed

lemma cleared_collected:
  assumes "table_ok r"
  shows "collected (cleared r) []" "same_layout r (cleared r)"
proof -
  have mv: "moves_of (cleared r) = (\<lambda>_. None)"
    using assms by (auto simp: moves_of_def cleared_def no_move_def table_ok_def fun_eq_iff)
  show lay: "same_layout r (cleared r)"
    unfolding same_layout_def cleared_def
    by (intro exI[of _ "movesTable (cleared r)"] exI[of _ "loadsCount (cleared r)"] exI[of _ "[]"]
        exI[of _ "regWrite r"] exI[of _ "stackWrite r"]) (simp add: cleared_def)
  have "\<forall>s < locationsCount r. loadsCount (cleared r) ! s = 0"
    using assms by (simp add: cleared_def table_ok_def)
  then show "collected (cleared r) []"
    using assms unfolding collected_def mv same_layout_simps[OF lay] types_in_def readers_def
    by (simp add: cleared_def)
qed

lemma CollectSpillFillsData_collected:
  assumes "table_ok r" "\<And>sf. sf \<in> set sfs \<Longrightarrow> good_move r sf" "distinct (map sf_dst sfs)"
  shows "\<exists>r'. CollectSpillFillsData g sfs r = Some r' \<and> same_layout r r' \<and> collected r' sfs"
  using collect_loop_collected[OF cleared_collected(1)[OF assms(1)], of sfs g] assms(2,3)
    same_layout_simps(6)[OF cleared_collected(2)[OF assms(1)]] same_layout_trans[OF cleared_collected(2)[OF assms(1)]]
  by (auto simp: CollectSpillFillsData_def)

section \<open>Moves without conflicts\<close>

text \<open>Moves of which none reads what an earlier one has written can be made one after the other.\<close>

fun independent :: "SpillFillData list \<Rightarrow> bool" where
  "independent [] = True"
| "independent (sf # sfs) =
     ((same_place sf \<or> (\<forall>sf' \<in> set sfs. sf_src sf' \<noteq> sf_dst sf)) \<and> independent sfs)"

lemma parallel_simps:
  "parallel [] \<sigma> l = \<sigma> l"
  "parallel (sf # sfs) \<sigma> l = (if sf_dst sf = l then \<sigma> (sf_src sf) else parallel sfs \<sigma> l)"
  by (simp_all add: parallel_def)

lemma parallel_other: "l \<notin> sf_dst ` set sfs \<Longrightarrow> parallel sfs \<sigma> l = \<sigma> l"
  by (induction sfs) (auto simp: parallel_simps)

lemma parallel_at:
  assumes "distinct (map sf_dst sfs)" "sf \<in> set sfs"
  shows "parallel sfs \<sigma> (sf_dst sf) = \<sigma> (sf_src sf)"
  using assms by (induction sfs) (auto simp: parallel_simps)

lemma parallel_cong:
  "(\<And>sf. sf \<in> set sfs \<Longrightarrow> \<sigma> (sf_src sf) = \<tau> (sf_src sf)) \<Longrightarrow> \<sigma> l = \<tau> l \<Longrightarrow> parallel sfs \<sigma> l = parallel sfs \<tau> l"
  by (induction sfs) (auto simp: parallel_simps)

lemma run_independent:
  "independent sfs \<Longrightarrow> distinct (map sf_dst sfs) \<Longrightarrow> run sfs \<sigma> l = parallel sfs \<sigma> l"
proof (induction sfs arbitrary: \<sigma>)
  case Nil
  then show ?case by (simp add: parallel_simps)
next
  case (Cons sf sfs)
  have IH: "run (sf # sfs) \<sigma> l = parallel sfs (exec sf \<sigma>) l" using Cons by simp
  show ?case
  proof (cases "same_place sf")
    case True
    then have "exec sf \<sigma> = \<sigma>" by (simp add: exec_def same_place_iff)
    moreover have "sf_dst sf \<notin> sf_dst ` set sfs" using Cons.prems(2) by simp
    ultimately show ?thesis
      using IH True parallel_other[of "sf_dst sf" sfs \<sigma>] by (auto simp: parallel_simps same_place_iff)
  next
    case False
    then have src: "exec sf \<sigma> (sf_src sf') = \<sigma> (sf_src sf')" if "sf' \<in> set sfs" for sf'
      using Cons.prems(1) that by (auto simp: exec_def)
    show ?thesis
    proof (cases "sf_dst sf = l")
      case True
      then have "l \<notin> sf_dst ` set sfs" using Cons.prems(2) by auto
      then show ?thesis using IH True parallel_other[of l sfs "exec sf \<sigma>"] by (simp add: parallel_simps exec_def)
    next
      case False
      then show ?thesis
        using IH src parallel_cong[of sfs "exec sf \<sigma>" \<sigma> l] by (simp add: parallel_simps exec_def)
    qed
  qed
qed

lemma independent_disjoint:
  "(\<And>sf sf'. sf \<in> set sfs \<Longrightarrow> sf' \<in> set sfs \<Longrightarrow> sf_src sf' \<noteq> sf_dst sf) \<Longrightarrow> independent sfs"
  by (induction sfs) auto

section \<open>What the resolver needs\<close>

text \<open>The temporary location for moves of a type, and when \<open>GetResolver\<close> returns it.\<close>

definition temp_index :: "RegGraph \<Rightarrow> SpillFillsResolver \<Rightarrow> DataType \<Rightarrow> nat" where
  "temp_index g r type =
     (if resolverReg r \<noteq> GetInvalidReg g then resolverReg r
      else if arch_of g = AARCH32 then slotsTableOffset r
      else if IsFloatType type then GetArchTempVReg g + vregsTableOffset r
      else GetArchTempReg g)"

definition temp_ok :: "RegGraph \<Rightarrow> SpillFillsResolver \<Rightarrow> DataType \<Rightarrow> bool" where
  "temp_ok g r type \<longleftrightarrow> temp_index g r type < locationsCount r \<and>
     (if resolverReg r \<noteq> GetInvalidReg g then \<not> IsFloatType type \<and> resolverReg r < length (usedRegs g)
      else if arch_of g = AARCH32 then True
      else if IsFloatType type then GetArchTempVReg g \<noteq> INVALID_REG \<and> GetArchTempVReg g \<noteq> GetInvalidReg g
      else GetArchTempReg g \<noteq> INVALID_REG \<and> GetArchTempReg g \<noteq> GetInvalidReg g)"

text \<open>The moves of a spill-fill instruction of the register allocator: distinct destinations, at
  most 255 readers of a location (the number a byte of \<open>loadsCount_\<close> holds), and temporaries
  that no move uses.\<close>

definition moves_ok :: "RegGraph \<Rightarrow> SpillFillsResolver \<Rightarrow> SpillFillData list \<Rightarrow> bool" where
  "moves_ok g r sfs \<longleftrightarrow> distinct (map sf_dst sfs) \<and> (\<forall>sf \<in> set sfs. good_move r sf)
     \<and> (\<forall>sf \<in> set sfs. length (filter (\<lambda>sf'. sf_src sf' = sf_src sf) sfs) < 256)
     \<and> (\<forall>sf \<in> set sfs. temp_ok g r (sf_type sf)
          \<and> (\<forall>sf' \<in> set sfs. loc r (temp_index g r (sf_type sf)) \<notin> {sf_src sf', sf_dst sf'}))"

definition temporaries :: "RegGraph \<Rightarrow> SpillFillsResolver \<Rightarrow> SpillFillData list \<Rightarrow> Location set" where
  "temporaries g r sfs = (\<lambda>sf. loc r (temp_index g r (sf_type sf))) ` set sfs"

lemma same_graph_simps:
  assumes "same_graph g g'"
  shows "GetArchTempReg g' = GetArchTempReg g" "GetArchTempVReg g' = GetArchTempVReg g"
    "arch_of g' = arch_of g" "ndebug g' = ndebug g" "length (usedRegs g') = length (usedRegs g)"
    "objPtrSize g' = objPtrSize g" "GetInvalidReg g' = GetInvalidReg g"
  using assms by (auto simp: same_graph_def GetArchTempReg_def GetArchTempVReg_def GetInvalidReg_def)

lemma SetRegUsage_ok:
  assumes "reg \<noteq> GetInvalidReg g" "\<not> IsFloatType type" "reg < length (usedRegs g)"
  shows "\<exists>h. SetRegUsage reg type g = Some h \<and> same_graph g h"
proof -
  have "same_graph g (g\<lparr>usedRegs := (usedRegs g)[reg := True]\<rparr>)"
    unfolding same_graph_def by (intro exI[of _ "(usedRegs g)[reg := True]"] exI[of _ "usedVregs g"]) simp
  then show ?thesis using assms by (simp add: SetRegUsage_def ASSERT_def)
qed

lemma GetResolver_temp:
  assumes "temp_ok g r type" "table_ok r"
  shows "\<exists>h. GetResolver g r type = Some (h, temp_index g r type) \<and> same_graph g h"
proof (cases "resolverReg r \<noteq> GetInvalidReg g")
  case True
  then show ?thesis
    using assms(1) SetRegUsage_ok[of "resolverReg r" g type]
    by (auto simp: GetResolver_def temp_ok_def temp_index_def ASSERT_def)
next
  case False
  have "temp_index g r type < 2 ^ 16" using assms by (simp add: temp_ok_def table_ok_def INVALID_LOCATION_INDEX_def)
  then show ?thesis
    using False assms(1)
    by (auto simp: GetResolver_def temp_ok_def temp_index_def ASSERT_def MakeStackSlot_def MakeLocation_Some Map_def
        location_tests to_index_def)
qed

lemma temps_okI:
  assumes "table_ok r" "same_layout r r'" "\<And>type. type \<in> Ty \<Longrightarrow> temp_ok g r type"
  shows "temps_ok g r' Ty (temp_index g r ` Ty)"
  unfolding temps_ok_def
proof (intro allI impI)
  fix g' type assume g': "same_graph g g'" and t: "type \<in> Ty"
  have T: "table_ok r'" using assms(1,2) same_layout_simps(2) by blast
  have i: "temp_index g' r' = temp_index g r"
    unfolding temp_index_def same_graph_simps[OF g'] same_layout_simps[OF assms(2)] by (rule refl)
  have "temp_ok g' r' type"
    using assms(3)[OF t] unfolding temp_ok_def i same_graph_simps[OF g'] same_layout_simps[OF assms(2)] .
  from GetResolver_temp[OF this T] show "\<exists>h u. GetResolver g' r' type = Some (h, u) \<and> same_graph g' h
      \<and> u \<in> temp_index g r ` Ty \<and> u < locationsCount r'"
    unfolding i using t assms(3)[OF t] same_layout_simps(3)[OF assms(2)] by (auto simp: temp_ok_def)
qed

lemma few_readers:
  assumes c: "collected r sfs" and good: "\<And>sf. sf \<in> set sfs \<Longrightarrow> good_move r sf"
    and few: "\<And>sf. sf \<in> set sfs \<Longrightarrow> length (filter (\<lambda>sf'. sf_src sf' = sf_src sf) sfs) < 256"
  shows "card (readers (moves_of r) s) < 256"
proof (cases "readers (moves_of r) s = {}")
  case False
  then obtain d where "moves_of r d = Some s" by (auto simp: readers_def)
  then obtain sf where sf: "sf \<in> set sfs" "plain sf" "idx r (sf_src sf) = s" using collected_moves[OF c] by blast
  have T: "table_ok r" using c by (simp add: collected_def)
  have ins: "in_table r (sf_src sf')" if "sf' \<in> set sfs" "plain sf'" for sf'
    using good[OF that(1)] that(2) by (auto simp: good_move_def plain_def)
  have "readers (moves_of r) s \<subseteq> (\<lambda>sf'. idx r (sf_dst sf')) ` set (filter (\<lambda>sf'. sf_src sf' = sf_src sf) sfs)"
  proof
    fix d assume "d \<in> readers (moves_of r) s"
    then obtain sf' where sf': "sf' \<in> set sfs" "plain sf'" "idx r (sf_dst sf') = d" "idx r (sf_src sf') = s"
      using collected_moves[OF c] by (auto simp: readers_def)
    have "sf_src sf' = sf_src sf" using idx_eq_iff[OF T ins[OF sf'(1,2)] ins[OF sf(1,2)]] sf'(4) sf(3) by simp
    then show "d \<in> (\<lambda>sf'. idx r (sf_dst sf')) ` set (filter (\<lambda>sf'. sf_src sf' = sf_src sf) sfs)"
      using sf'(1,3) by auto
  qed
  then have "card (readers (moves_of r) s) \<le> card (set (filter (\<lambda>sf'. sf_src sf' = sf_src sf) sfs))"
    by (rule surj_card_le[rotated]) simp
  also have "\<dots> \<le> length (filter (\<lambda>sf'. sf_src sf' = sf_src sf) sfs)" by (rule card_length)
  also have "\<dots> < 256" by (rule few[OF sf(1)])
  finally show ?thesis .
qed simp

lemma collected_tables:
  assumes c: "collected r sfs" and good: "\<And>sf. sf \<in> set sfs \<Longrightarrow> good_move r sf"
    and few: "\<And>sf. sf \<in> set sfs \<Longrightarrow> length (filter (\<lambda>sf'. sf_src sf' = sf_src sf) sfs) < 256"
  shows "tables_ok r (replicate (locationsCount r) INVALID_LOCATION_INDEX)"
proof -
  have T: "table_ok r" using c by (simp add: collected_def)
  have l: "\<forall>s < locationsCount r. loadsCount r ! s = of_nat (card (readers (moves_of r) s))"
    using c unfolding collected_def by (elim conjE)
  have "unat (loadsCount r ! s) = card (readers (moves_of r) s)" if "s < locationsCount r" for s
    using l that few_readers[OF c good few, of s] by (simp add: unsigned_of_nat take_bit_nat_eq_self)
  moreover have "s < locationsCount r" if m: "moves_of r d = Some s" for d s
  proof -
    obtain sf where "sf \<in> set sfs" "plain sf" "idx r (sf_src sf) = s" using collected_moves[OF c] m by blast
    then show ?thesis using in_table_idx(1)[OF T, of "sf_src sf"] good[of sf] by (auto simp: good_move_def plain_def)
  qed
  ultimately show ?thesis using T by (simp add: tables_ok_def)
qed

section \<open>Resolving\<close>

lemma loc_not_special: "GetKind (loc r i) \<noteq> IMMEDIATE" "GetKind (loc r i) \<noteq> STACK_ARGUMENT"
  by (simp_all add: loc_def)

lemma outside_special: "GetKind l = IMMEDIATE \<or> GetKind l = STACK_ARGUMENT \<Longrightarrow> l \<in> outside r"
  using loc_not_special by (auto simp: outside_def)

lemma good_kinds:
  assumes "good_move r sf"
  shows "GetKind (sf_dst sf) \<noteq> IMMEDIATE" "GetKind (sf_src sf) \<noteq> STACK_ARGUMENT"
  using assms by (auto simp: good_move_def in_table_def SrcType_def DstType_def split: Kind.splits)

text \<open>The moves put first, and those put last, do not disturb each other.\<close>

lemma early_parallel:
  assumes "distinct (map sf_dst sfs)" "\<And>sf. sf \<in> set sfs \<Longrightarrow> good_move r sf"
  shows "run (filter early sfs) \<sigma> l = parallel (filter early sfs) \<sigma> l"
proof (rule run_independent)
  show "independent (filter early sfs)"
  proof (rule independent_disjoint)
    fix sf sf' assume "sf \<in> set (filter early sfs)" "sf' \<in> set (filter early sfs)"
    then show "sf_src sf' \<noteq> sf_dst sf" using good_kinds(2)[of r sf'] assms(2) by (auto simp: early_def DstType_def)
  qed
  show "distinct (map sf_dst (filter early sfs))" using assms(1) by (rule distinct_map_filter)
qed

lemma late_parallel:
  assumes "distinct (map sf_dst sfs)" "\<And>sf. sf \<in> set sfs \<Longrightarrow> good_move r sf"
  shows "run (filter late sfs) \<sigma> l = parallel (filter late sfs) \<sigma> l"
proof (rule run_independent)
  show "independent (filter late sfs)"
  proof (rule independent_disjoint)
    fix sf sf' assume "sf \<in> set (filter late sfs)" "sf' \<in> set (filter late sfs)"
    then show "sf_src sf' \<noteq> sf_dst sf" using good_kinds(1)[of r sf] assms(2) by (auto simp: late_def SrcType_def)
  qed
  show "distinct (map sf_dst (filter late sfs))" using assms(1) by (rule distinct_map_filter)
qed

lemma parallel_filter:
  assumes "distinct (map sf_dst sfs)"
  shows "sf \<in> set sfs \<Longrightarrow> P sf \<Longrightarrow> parallel (filter P sfs) \<sigma> (sf_dst sf) = \<sigma> (sf_src sf)"
    and "(\<And>sf. sf \<in> set sfs \<Longrightarrow> P sf \<Longrightarrow> sf_dst sf \<noteq> l) \<Longrightarrow> parallel (filter P sfs) \<sigma> l = \<sigma> l"
  using parallel_at[OF distinct_map_filter[OF assms], of sf P \<sigma>] parallel_other[of l "filter P sfs" \<sigma>] by auto

text \<open>The memory between the last two groups: \<open>mid\<close> says what the chains have done to the table and
  \<open>out\<close> what the first group has done outside.\<close>

definition between :: "SpillFillsResolver \<Rightarrow> SpillFillData list \<Rightarrow> nat set \<Rightarrow> (Location \<Rightarrow> 'v) \<Rightarrow> (Location \<Rightarrow> 'v) \<Rightarrow> bool" where
  "between r sfs TS \<sigma> \<tau> \<longleftrightarrow> collected r sfs \<and> distinct (map sf_dst sfs) \<and> (\<forall>sf \<in> set sfs. good_move r sf)
     \<and> (\<forall>x. x \<notin> TS \<longrightarrow> \<tau> (loc r x) = (case moves_of r x of None \<Rightarrow> \<sigma> (loc r x) | Some s \<Rightarrow> \<sigma> (loc r s)))
     \<and> (\<forall>l \<in> outside r. \<tau> l = run (filter early sfs) \<sigma> l)"

lemma between_table: "between r sfs TS \<sigma> \<tau> \<Longrightarrow> table_ok r" "between r sfs TS \<sigma> \<tau> \<Longrightarrow> distinct (map sf_dst sfs)"
    "between r sfs TS \<sigma> \<tau> \<Longrightarrow> sf \<in> set sfs \<Longrightarrow> good_move r sf" "between r sfs TS \<sigma> \<tau> \<Longrightarrow> collected r sfs"
  by (auto simp: between_def collected_def)

lemma between_in_table:
  assumes "between r sfs TS \<sigma> \<tau>" "sf \<in> set sfs" "plain sf"
  shows "in_table r (sf_src sf)" "in_table r (sf_dst sf)"
  using between_table(3)[OF assms(1,2)] assms(3) by (auto simp: good_move_def plain_def)

lemma between_outside:
  assumes b: "between r sfs TS \<sigma> \<tau>" and l: "l \<in> outside r"
  shows "\<tau> l = parallel (filter early sfs) \<sigma> l"
proof -
  have "run (filter early sfs) \<sigma> l = parallel (filter early sfs) \<sigma> l"
    by (rule early_parallel[OF between_table(2)[OF b] between_table(3)[OF b]])
  then show ?thesis using b l by (simp add: between_def)
qed

lemma between_unmoved:
  assumes b: "between r sfs TS \<sigma> \<tau>" and l: "l \<notin> loc r ` TS"
    and np: "\<And>sf. sf \<in> set sfs \<Longrightarrow> plain sf \<or> early sf \<Longrightarrow> sf_dst sf \<noteq> l"
  shows "\<tau> l = \<sigma> l"
proof (cases "l \<in> outside r")
  case True
  have "parallel (filter early sfs) \<sigma> l = \<sigma> l"
    by (rule parallel_filter(2)[OF between_table(2)[OF b]]) (use np in blast)
  then show ?thesis using between_outside[OF b True] by simp
next
  case False
  then obtain x where x: "l = loc r x" by (auto simp: outside_def)
  have "moves_of r x = None"
  proof (rule ccontr)
    assume "moves_of r x \<noteq> None"
    then obtain s where "moves_of r x = Some s" by auto
    then obtain sf where sf: "sf \<in> set sfs" "plain sf" "idx r (sf_dst sf) = x"
      using collected_moves[OF between_table(4)[OF b]] by blast
    have "sf_dst sf = l"
      using in_table_idx(2)[OF between_table(1)[OF b] between_in_table(2)[OF b sf(1,2)]] sf(3) x by simp
    then show False using np[OF sf(1)] sf(2) by simp
  qed
  moreover have "x \<notin> TS" using l x by blast
  ultimately show ?thesis using b x by (simp add: between_def)
qed

lemma between_moved:
  assumes b: "between r sfs TS \<sigma> \<tau>" and sf: "sf \<in> set sfs" "plain sf \<or> early sf" and l: "sf_dst sf \<notin> loc r ` TS"
  shows "\<tau> (sf_dst sf) = \<sigma> (sf_src sf)"
  using sf(2)
proof
  assume e: "early sf"
  then have "sf_dst sf \<in> outside r" by (intro outside_special) (simp add: early_def DstType_def)
  then show ?thesis using between_outside[OF b] parallel_filter(1)[where P = early, OF between_table(2)[OF b] sf(1) e] by simp
next
  assume p: "plain sf"
  note T = between_table(1)[OF b]
  note i = in_table_idx(2)[OF T between_in_table(1)[OF b sf(1) p]] and d = in_table_idx(2)[OF T between_in_table(2)[OF b sf(1) p]]
  have "idx r (sf_dst sf) \<notin> TS" using l d by (metis imageI)
  moreover have "moves_of r (idx r (sf_dst sf)) = Some (idx r (sf_src sf))"
    unfolding collected_moves[OF between_table(4)[OF b]] using sf(1) p by blast
  ultimately have "\<tau> (loc r (idx r (sf_dst sf))) = \<sigma> (loc r (idx r (sf_src sf)))" using b by (simp add: between_def)
  then show ?thesis unfolding i d .
qed

text \<open>The three groups together make all moves at once.\<close>

lemma groups_parallel:
  assumes b: "between r sfs TS \<sigma> \<tau>" and l: "l \<notin> loc r ` TS"
  shows "run (filter late sfs) \<tau> l = parallel sfs \<sigma> l"
proof -
  note dist = between_table(2)[OF b] and good = between_table(3)[OF b]
  have last: "run (filter late sfs) \<tau> l = parallel (filter late sfs) \<tau> l" by (rule late_parallel[OF dist good])
  show ?thesis
  proof (cases "l \<in> sf_dst ` set sfs")
    case False
    have "\<tau> l = \<sigma> l" by (rule between_unmoved[OF b l]) (use False in blast)
    moreover have "parallel (filter late sfs) \<tau> l = \<tau> l" by (rule parallel_filter(2)[OF dist]) (use False in blast)
    ultimately show ?thesis using parallel_other[OF False, of \<sigma>] by (simp add: last)
  next
    case True
    then obtain sf where sf: "sf \<in> set sfs" "l = sf_dst sf" by blast
    have par: "parallel sfs \<sigma> l = \<sigma> (sf_src sf)" unfolding sf(2) by (rule parallel_at[OF dist sf(1)])
    have only: "sf' = sf" if "sf' \<in> set sfs" "sf_dst sf' = l" for sf'
      using dist that sf by (simp add: distinct_map inj_on_def)
    show ?thesis
    proof (cases "late sf")
      case True
      have k: "GetKind (sf_src sf) = IMMEDIATE" using True by (simp add: late_def SrcType_def)
      have "\<tau> (sf_src sf) = \<sigma> (sf_src sf)"
      proof (rule between_unmoved[OF b])
        show "sf_src sf \<notin> loc r ` TS" using k loc_not_special(1) by (metis imageE)
        show "sf_dst sf' \<noteq> sf_src sf" if "sf' \<in> set sfs" for sf'
          using good_kinds(1)[OF good[OF that]] k by auto
      qed
      then show ?thesis unfolding last par using parallel_filter(1)[where P = late, OF dist sf(1) True, of \<tau>] sf(2) by simp
    next
      case False
      have "parallel (filter late sfs) \<tau> l = \<tau> l" by (rule parallel_filter(2)[OF dist]) (use False only in blast)
      moreover have "\<tau> l = \<sigma> (sf_src sf)"
      proof (cases "same_place sf")
        case True
        have "\<tau> l = \<sigma> l" by (rule between_unmoved[OF b l]) (use True only in \<open>auto simp: early_def plain_def\<close>)
        then show ?thesis using True sf(2) by (simp add: same_place_iff)
      next
        case notsame: False
        then have "plain sf \<or> early sf" using False by (auto simp: plain_def early_def late_def)
        then show ?thesis using between_moved[OF b sf(1)] l sf(2) by simp
      qed
      ultimately show ?thesis by (simp add: last par)
    qed
  qed
qed

lemma Resolve_parallel:
  assumes T: "table_ok r" and m: "moves_ok g r sfs"
  shows "\<exists>h r' out. Resolve g r sfs = Some (h, r', out) \<and> same_graph g h \<and> same_layout r r'
    \<and> (\<forall>\<sigma> :: Location \<Rightarrow> 'v. \<forall>l. l \<notin> temporaries g r sfs \<longrightarrow> run out \<sigma> l = parallel sfs \<sigma> l)"
proof -
  have dist: "distinct (map sf_dst sfs)" and good: "\<And>sf. sf \<in> set sfs \<Longrightarrow> good_move r sf"
    and few: "\<And>sf. sf \<in> set sfs \<Longrightarrow> length (filter (\<lambda>sf'. sf_src sf' = sf_src sf) sfs) < 256"
    using m by (auto simp: moves_ok_def)
  let ?Ty = "sf_type ` set sfs"
  let ?TS = "temp_index g r ` ?Ty"
  obtain r1 where r1: "CollectSpillFillsData g sfs r = Some r1" "same_layout r r1" "collected r1 sfs"
    using CollectSpillFillsData_collected[OF T good dist] by blast
  note lay = same_layout_simps[OF r1(2)]
  have T1: "table_ok r1" and good1: "\<And>sf. sf \<in> set sfs \<Longrightarrow> good_move r1 sf" using T good lay(2,6) by simp_all
  have ty: "types_in r1 ?Ty" and pre: "preMoves r1 = filter early sfs" and post: "postMoves r1 = filter late sfs"
    using r1(3) by (simp_all add: collected_def)
  have temps: "temps_ok g r1 ?Ty ?TS" by (rule temps_okI[OF T r1(2)]) (use m in \<open>auto simp: moves_ok_def\<close>)
  have ins: "in_table r1 (sf_src sf)" "in_table r1 (sf_dst sf)" if "sf \<in> set sfs" "plain sf" for sf
    using good1[OF that(1)] that(2) by (auto simp: good_move_def plain_def)
  have self: "moves_of r1 x \<noteq> Some x" for x
  proof
    assume "moves_of r1 x = Some x"
    then obtain sf where sf: "sf \<in> set sfs" "plain sf" "idx r1 (sf_dst sf) = x" "idx r1 (sf_src sf) = x"
      using collected_moves[OF r1(3)] by blast
    then have "sf_src sf = sf_dst sf" using idx_eq_iff[OF T1 ins[OF sf(1,2)]] by simp
    then show False using sf(2) by (simp add: plain_def same_place_iff)
  qed
  have ts: "moves_of r1 t = None \<and> (\<forall>x. moves_of r1 x \<noteq> Some t)" if "t \<in> ?TS" for t
  proof -
    have "moves_of r1 d \<noteq> Some s \<or> d \<noteq> t \<and> s \<noteq> t" for d s
    proof (rule ccontr)
      assume a: "\<not> ?thesis"
      then obtain sf where sf: "sf \<in> set sfs" "plain sf" "idx r1 (sf_dst sf) = d" "idx r1 (sf_src sf) = s"
        using collected_moves[OF r1(3)] by blast
      have "loc r t \<notin> {sf_src sf, sf_dst sf}" using m sf(1) that by (auto simp: moves_ok_def)
      then show False using a in_table_idx(2)[OF T1] ins[OF sf(1,2)] sf(3,4) lay(1) by auto
    qed
    then show ?thesis by (cases "moves_of r1 t") auto
  qed
  have mem: "mem r1 (run (preMoves r1) \<sigma>) = mem r1 \<sigma>" for \<sigma> :: "Location \<Rightarrow> 'v"
  proof
    fix x
    have "sf_dst sf \<noteq> loc r1 x" if "early sf" for sf
      using that loc_not_special(2)[of r1 x] by (auto simp: early_def DstType_def)
    then show "mem r1 (run (preMoves r1) \<sigma>) x = mem r1 \<sigma> x"
      unfolding pre mem_def
      using early_parallel[OF dist good, of \<sigma> "loc r1 x"] parallel_filter(2)[OF dist, of early "loc r1 x" \<sigma>] by simp
  qed
  obtain h r' out where R: "Reorder g r1 = Some (h, r', out @ postMoves r1)" "same_graph g h" "same_shape r1 r'"
    "\<And>\<sigma> :: Location \<Rightarrow> 'v. (\<forall>x. x \<notin> ?TS \<longrightarrow> run out \<sigma> (loc r1 x)
          = (case moves_of r1 x of None \<Rightarrow> \<sigma> (loc r1 x) | Some s \<Rightarrow> \<sigma> (loc r1 s)))
        \<and> (\<forall>l \<in> outside r1. run out \<sigma> l = run (preMoves r1) \<sigma> l)"
    using Reorder_moves[OF collected_tables[OF r1(3) good1 few] ty temps self ts mem] by blast
  have "run (out @ postMoves r1) \<sigma> l = parallel sfs \<sigma> l" if "l \<notin> temporaries g r sfs" for \<sigma> :: "Location \<Rightarrow> 'v" and l
    unfolding post run_simps
  proof (rule groups_parallel)
    show "between r1 sfs ?TS \<sigma> (run out \<sigma>)"
      using R(4)[of \<sigma>] r1(3) dist good1 unfolding between_def pre by blast
    show "l \<notin> loc r1 ` ?TS" using that by (auto simp: temporaries_def lay(1))
  qed
  then show ?thesis
    using r1(1) R(1,2) same_layout_trans[OF r1(2) same_shape_layout[OF R(3)]] by (auto simp: Resolve_def)
qed

end
