(* ===== verification/Spill_Fills_Props.thy ===== *)
theory Spill_Fills_Props
  imports Spill_Fills_Correct
begin

text \<open>
  When the moves can stay in their order, registers and pairs of registers as cells, and the properties of the
  resolver.
\<close>

section \<open>Cells\<close>

text \<open>On a 32-bit target a 64-bit value takes a register and the one after it, and the encoder of the target
  copies the two one after the other (\<open>EncodeMov\<close> of \<^verbatim>\<open>target/aarch32/encode.cpp\<close>); a slot of the stack is 64
  bits wide and has both halves. A cell is a register, or one half of a slot or an immediate; a target of 64-bit
  registers has no use for upper halves. \<open>cell_moves\<close> are the copies of a move, \<open>run_cells\<close> makes the copies of
  a list of moves one after the other, \<open>parallel_cells\<close> all of them at once.\<close>

type_synonym cell = "Location \<times> bool"

definition paired_move :: "RegGraph \<Rightarrow> SpillFillData \<Rightarrow> bool" where
  "paired_move g sf \<longleftrightarrow> IsPairedReg g (sf_type sf) = Some True"

definition next_register :: "Location \<Rightarrow> Location" where
  "next_register l = Loc (GetKind l) (GetValue l + 1)"

definition lower_cell :: "Location \<Rightarrow> cell" where
  "lower_cell l = (l, False)"

definition upper_cell :: "Location \<Rightarrow> cell" where
  "upper_cell l = (if IsAnyRegister l then (next_register l, False) else (l, True))"

definition cell_moves :: "RegGraph \<Rightarrow> SpillFillData \<Rightarrow> (cell \<times> cell) list" where
  "cell_moves g sf = (lower_cell (sf_dst sf), lower_cell (sf_src sf))
     # (if paired_move g sf then [(upper_cell (sf_dst sf), upper_cell (sf_src sf))] else [])"

definition copies_of :: "RegGraph \<Rightarrow> SpillFillData list \<Rightarrow> (cell \<times> cell) list" where
  "copies_of g sfs = concat (map (cell_moves g) sfs)"

definition copy_cell :: "cell \<times> cell \<Rightarrow> (cell \<Rightarrow> 'v) \<Rightarrow> cell \<Rightarrow> 'v" where
  "copy_cell p \<sigma> = \<sigma>(fst p := \<sigma> (snd p))"

definition run_cells :: "RegGraph \<Rightarrow> SpillFillData list \<Rightarrow> (cell \<Rightarrow> 'v) \<Rightarrow> cell \<Rightarrow> 'v" where
  "run_cells g sfs \<sigma> = fold copy_cell (copies_of g sfs) \<sigma>"

definition parallel_cells :: "RegGraph \<Rightarrow> SpillFillData list \<Rightarrow> (cell \<Rightarrow> 'v) \<Rightarrow> cell \<Rightarrow> 'v" where
  "parallel_cells g sfs \<sigma> c = (case map_of (copies_of g sfs) c of None \<Rightarrow> \<sigma> c | Some s \<Rightarrow> \<sigma> s)"

lemma copies_of_simps [simp]:
  "copies_of g [] = []" "copies_of g (sf # sfs) = cell_moves g sf @ copies_of g sfs"
  by (simp_all add: copies_of_def)

lemma copies_ofE:
  assumes "p \<in> set (copies_of g sfs)"
  obtains sf where "sf \<in> set sfs" "p \<in> set (cell_moves g sf)"
  using assms by (auto simp: copies_of_def)

text \<open>Copies of which none reads a cell that an earlier one has changed.\<close>

fun no_clobber :: "(cell \<times> cell) list \<Rightarrow> bool" where
  "no_clobber [] = True"
| "no_clobber (p # ps) = ((fst p = snd p \<or> fst p \<notin> snd ` set ps) \<and> no_clobber ps)"

lemma no_clobber_append:
  "no_clobber (ps @ qs) \<longleftrightarrow> no_clobber ps \<and> no_clobber qs \<and> (\<forall>p \<in> set ps. fst p = snd p \<or> fst p \<notin> snd ` set qs)"
  by (induction ps) auto

lemma no_clobber_parallel:
  assumes "no_clobber ps" "distinct (map fst ps)"
  shows "fold copy_cell ps \<sigma> c = (case map_of ps c of None \<Rightarrow> \<sigma> c | Some s \<Rightarrow> \<sigma> s)"
  using assms
proof (induction ps arbitrary: \<sigma>)
  case Nil
  then show ?case by simp
next
  case (Cons p ps)
  have "map_of ps (fst p) = None" using Cons.prems(2) by (simp add: map_of_eq_None_iff)
  moreover have "copy_cell p \<sigma> s = \<sigma> s" if "map_of ps c = Some s" for s
    using Cons.prems(1) map_of_SomeD[OF that] by (auto simp: copy_cell_def intro: rev_image_eqI)
  ultimately show ?case
    using Cons by (cases "c = fst p"; cases "map_of ps c") (auto simp: copy_cell_def map_of_Cons_code(2)[of "fst p" "snd p", simplified])
qed

lemma same_place_copies: "same_place sf \<Longrightarrow> p \<in> set (cell_moves g sf) \<Longrightarrow> fst p = snd p"
  by (auto simp: same_place_iff cell_moves_def split: if_splits)

lemma no_clobber_same: "(\<And>p. p \<in> set ps \<Longrightarrow> fst p = snd p) \<Longrightarrow> no_clobber ps"
  by (induction ps) auto

section \<open>Conflicts\<close>

text \<open>Both registers of a pair have to be there, in the same file, and no pair is moved to the pair that
  begins with its own upper register.\<close>

definition pair_ok :: "RegGraph \<Rightarrow> SpillFillsResolver \<Rightarrow> SpillFillData \<Rightarrow> bool" where
  "pair_ok g r sf \<longleftrightarrow> (case IsPairedReg g (sf_type sf) of
     None \<Rightarrow> False
   | Some p \<Rightarrow> p \<longrightarrow> (\<forall>l \<in> {sf_src sf, sf_dst sf}. IsAnyRegister l \<longrightarrow> in_table r (next_register l))
       \<and> (IsAnyRegister (sf_src sf) \<longrightarrow> sf_dst sf \<noteq> next_register (sf_src sf)))"

definition touched :: "bool \<Rightarrow> Location \<Rightarrow> Location set" where
  "touched p l = (if p \<and> IsAnyRegister l then {l, next_register l} else {l})"

lemma cell_moves_touched:
  assumes "p \<in> set (cell_moves g sf)"
  shows "fst (fst p) \<in> touched (paired_move g sf) (sf_dst sf)" "fst (snd p) \<in> touched (paired_move g sf) (sf_src sf)"
  using assms by (auto simp: cell_moves_def touched_def lower_cell_def upper_cell_def split: if_splits)

text \<open>The mark of a location in the two vectors.\<close>

definition marked :: "SpillFillsResolver \<Rightarrow> bool list \<times> bool list \<Rightarrow> Location \<Rightarrow> bool" where
  "marked r m l \<longleftrightarrow> in_table r l \<and>
     (if IsAnyRegister l then fst m ! idx r l else snd m ! (idx r l - slotsTableOffset r))"

definition marks_sized :: "SpillFillsResolver \<Rightarrow> bool list \<times> bool list \<Rightarrow> bool" where
  "marks_sized r m \<longleftrightarrow> length (fst m) = slotsTableOffset r
     \<and> length (snd m) = locationsCount r - slotsTableOffset r"

lemma reg_idx:
  assumes "table_ok r" "in_table r l" "IsAnyRegister l"
  shows "reg_index l (vregsTableOffset r) = idx r l" "idx r l < slotsTableOffset r"
  using assms by (cases l; cases "GetKind l"; auto simp: reg_index_def idx_def in_table_def location_tests table_ok_def)+

lemma stack_idx:
  assumes "table_ok r" "in_table r l" "\<not> IsAnyRegister l"
  shows "stack_index l (parameterSlotsOffset r - slotsTableOffset r) = idx r l - slotsTableOffset r"
    "idx r l - slotsTableOffset r < locationsCount r - slotsTableOffset r" "GetKind l \<in> {STACK, STACK_PARAMETER}"
  using assms by (cases l; cases "GetKind l"; auto simp: stack_index_def idx_def in_table_def location_tests table_ok_def)+

lemma nth_mark: "k < length xs \<Longrightarrow> xs[i := True] ! k \<longleftrightarrow> i = k \<or> xs ! k"
  by (cases "i = k") simp_all

lemma next_register_idx:
  "table_ok r \<Longrightarrow> in_table r (next_register l) \<Longrightarrow> IsAnyRegister l \<Longrightarrow> idx r (next_register l) = idx r l + 1 \<and> IsAnyRegister (next_register l)"
  by (cases l; cases "GetKind l"; simp add: next_register_def idx_def location_tests)

lemma MarkRegWrite_marks:
  assumes T: "table_ok r" and m: "marks_sized r (rw, sw)" and l: "in_table r l" "IsAnyRegister l"
    and p: "p \<Longrightarrow> in_table r (next_register l)"
  shows "\<exists>rw'. MarkRegWrite l p (vregsTableOffset r) rw = Some rw' \<and> length rw' = length rw
    \<and> (\<forall>k. marked r (rw, sw) k \<or> k \<in> touched p l \<longrightarrow> marked r (rw', sw) k)"
proof -
  note i = reg_idx[OF T l]
  have n: "idx r l + 1 < slotsTableOffset r \<and> in_table r (next_register l) \<and> IsAnyRegister (next_register l)
      \<and> idx r (next_register l) = idx r l + 1" if p
    using next_register_idx[OF T p[OF that] l(2)] reg_idx(2)[OF T p[OF that]] p[OF that] by simp
  let ?rw = "if p then rw[idx r l := True, idx r l + 1 := True] else rw[idx r l := True]"
  have "MarkRegWrite l p (vregsTableOffset r) rw = Some ?rw"
    using i m n by (cases p) (simp_all add: MarkRegWrite_def set_at_def marks_sized_def Let_def)
  moreover have "marked r (?rw, sw) k" if "marked r (rw, sw) k \<or> k \<in> touched p l" for k
    using that l i m n reg_idx(2)[OF T, of k]
    by (cases p) (auto simp: marked_def nth_mark marks_sized_def touched_def)
  ultimately show ?thesis by (intro exI[of _ ?rw]) simp
qed

lemma MarkStackWrite_marks:
  assumes T: "table_ok r" and m: "marks_sized r (rw, sw)" and l: "in_table r l" "\<not> IsAnyRegister l"
  shows "\<exists>sw'. MarkStackWrite l (parameterSlotsOffset r - slotsTableOffset r) sw = Some sw' \<and> length sw' = length sw
    \<and> (\<forall>k. marked r (rw, sw) k \<or> k = l \<longrightarrow> marked r (rw, sw') k)
    \<and> (\<forall>k. IsAnyRegister k \<longrightarrow> marked r (rw, sw') k = marked r (rw, sw) k)"
proof -
  note i = stack_idx[OF T l]
  let ?sw = "sw[idx r l - slotsTableOffset r := True]"
  have "MarkStackWrite l (parameterSlotsOffset r - slotsTableOffset r) sw = Some ?sw"
    using i m by (simp add: MarkStackWrite_def set_at_def marks_sized_def)
  moreover have "marked r (rw, ?sw) k" if "marked r (rw, sw) k \<or> k = l" for k
    using that l i m stack_idx(2)[OF T, of k] by (auto simp: marked_def nth_mark marks_sized_def)
  moreover have "marked r (rw, ?sw) k = marked r (rw, sw) k" if "IsAnyRegister k" for k using that by (simp add: marked_def)
  ultimately show ?thesis by (intro exI[of _ ?sw]) simp
qed

lemma IsRegWrite_marked:
  assumes T: "table_ok r" and m: "marks_sized r (rw, sw)" and l: "in_table r l" "IsAnyRegister l"
    and p: "p \<Longrightarrow> in_table r (next_register l)"
  shows "\<exists>hit. IsRegWrite l p (vregsTableOffset r) rw = Some hit \<and> (hit \<longleftrightarrow> (\<exists>k \<in> touched p l. marked r (rw, sw) k))"
proof -
  have n: "idx r l + 1 < slotsTableOffset r \<and> in_table r (next_register l) \<and> IsAnyRegister (next_register l)
      \<and> idx r (next_register l) = idx r l + 1" if p
    using next_register_idx[OF T p[OF that] l(2)] reg_idx(2)[OF T p[OF that]] p[OF that] by simp
  show ?thesis
    using reg_idx[OF T l] m l n
    by (cases "rw ! idx r l"; cases p) (auto simp: IsRegWrite_def nth_opt_def marks_sized_def marked_def touched_def)
qed

lemma IsStackWrite_marked:
  assumes T: "table_ok r" and m: "marks_sized r (rw, sw)" and l: "in_table r l" "\<not> IsAnyRegister l"
  shows "IsStackWrite l (parameterSlotsOffset r - slotsTableOffset r) sw = Some (marked r (rw, sw) l)"
  using stack_idx[OF T l] m l by (simp add: IsStackWrite_def nth_opt_def marks_sized_def marked_def)

text \<open>A step without a conflict keeps the marks, sets those of the cells its move writes, and its move
  reads no cell that is marked then.\<close>

lemma conflict_step_marks:
  assumes T: "table_ok r" and m: "marks_sized r m" and sf: "good_move r sf" "pair_ok g r sf"
  shows "\<exists>m' hit. conflict_step g r sf m = Some (m', hit) \<and> marks_sized r m'
    \<and> (\<not> hit \<longrightarrow> (\<forall>k \<in> touched (paired_move g sf) (sf_src sf). \<not> marked r m' k)
        \<and> (\<forall>k. marked r m k \<or> k \<in> touched (paired_move g sf) (sf_dst sf) \<and> in_table r k \<longrightarrow> marked r m' k))"
proof -
  obtain rw sw where rs: "m = (rw, sw)" by (cases m)
  define p where "p = paired_move g sf"
  have pg: "IsPairedReg g (sf_type sf) = Some p"
    using sf(2) by (auto simp: pair_ok_def p_def paired_move_def split: option.splits)
  then have p: "\<And>l. p \<Longrightarrow> l \<in> {sf_src sf, sf_dst sf} \<Longrightarrow> IsAnyRegister l \<Longrightarrow> in_table r (next_register l)"
    using sf(2) by (auto simp: pair_ok_def)
  have src: "in_table r (sf_src sf)" if "IsAnyRegister (sf_src sf) \<or> SrcType sf = STACK \<or> SrcType sf = STACK_PARAMETER"
    using sf(1) that by (auto simp: good_move_def SrcType_def location_tests)
  have dst: "in_table r (sf_dst sf)" if "IsAnyRegister (sf_dst sf) \<or> DstType sf = STACK \<or> DstType sf = STACK_PARAMETER"
    using sf(1) that by (auto simp: good_move_def DstType_def location_tests)
  have kinds: "IsAnyRegister k \<or> GetKind k = STACK \<or> GetKind k = STACK_PARAMETER" if "in_table r k" for k
    using stack_idx(3)[OF T that] by blast
  have regs: "k \<in> touched p l \<Longrightarrow> IsAnyRegister l = IsAnyRegister k" for k l
    by (cases l) (auto simp: touched_def next_register_def location_tests split: if_splits)
  let ?off = "parameterSlotsOffset r - slotsTableOffset r"
  obtain rw' where w: "(if IsAnyRegister (sf_dst sf) then MarkRegWrite (sf_dst sf) p (vregsTableOffset r) rw else Some rw) = Some rw'"
      "length rw' = length rw" "\<And>k. marked r (rw, sw) k \<Longrightarrow> marked r (rw', sw) k"
      "\<And>k. IsAnyRegister (sf_dst sf) \<Longrightarrow> k \<in> touched p (sf_dst sf) \<Longrightarrow> marked r (rw', sw) k"
    using MarkRegWrite_marks[OF T m[unfolded rs] dst, of p] p[of "sf_dst sf"]
    by (cases "IsAnyRegister (sf_dst sf)") auto
  have m1: "marks_sized r (rw', sw)" using m w(2) by (simp add: rs marks_sized_def)
  obtain hit where h: "(if IsAnyRegister (sf_src sf) then IsRegWrite (sf_src sf) p (vregsTableOffset r) rw' else Some False) = Some hit"
      "\<And>k. \<not> hit \<Longrightarrow> IsAnyRegister (sf_src sf) \<Longrightarrow> k \<in> touched p (sf_src sf) \<Longrightarrow> \<not> marked r (rw', sw) k"
    using IsRegWrite_marked[OF T m1 src, of p] p[of "sf_src sf"] by (cases "IsAnyRegister (sf_src sf)") auto
  show ?thesis
  proof (cases hit)
    case True
    then show ?thesis
      using w(1) h(1) pg m1
      by (intro exI[of _ "(rw', sw)"] exI[of _ True]) (simp add: conflict_step_def rs)
  next
    case False
    obtain sw' where v: "(if DstType sf = STACK \<or> DstType sf = STACK_PARAMETER then MarkStackWrite (sf_dst sf) ?off sw else Some sw) = Some sw'"
        "length sw' = length sw" "\<And>k. marked r (rw', sw) k \<Longrightarrow> marked r (rw', sw') k"
        "DstType sf = STACK \<or> DstType sf = STACK_PARAMETER \<Longrightarrow> marked r (rw', sw') (sf_dst sf)"
        "\<And>k. IsAnyRegister k \<Longrightarrow> marked r (rw', sw') k = marked r (rw', sw) k"
    proof (cases "DstType sf = STACK \<or> DstType sf = STACK_PARAMETER")
      case True
      then have "\<not> IsAnyRegister (sf_dst sf)" by (auto simp: DstType_def location_tests)
      then show ?thesis using MarkStackWrite_marks[OF T m1 dst] True that by auto
    qed (use that in auto)
    have m2: "marks_sized r (rw', sw')" using m1 v(2) by (simp add: marks_sized_def)
    obtain hit' where h': "(if SrcType sf = STACK \<or> SrcType sf = STACK_PARAMETER then IsStackWrite (sf_src sf) ?off sw' else Some False) = Some hit'"
        "\<not> hit' \<Longrightarrow> SrcType sf = STACK \<or> SrcType sf = STACK_PARAMETER \<Longrightarrow> \<not> marked r (rw', sw') (sf_src sf)"
    proof (cases "SrcType sf = STACK \<or> SrcType sf = STACK_PARAMETER")
      case True
      then have "\<not> IsAnyRegister (sf_src sf)" by (auto simp: SrcType_def location_tests)
      then show ?thesis using IsStackWrite_marked[OF T m2 src] True that by auto
    qed (use that in auto)
    have step: "conflict_step g r sf m = Some ((rw', sw'), hit')"
      using w(1) h(1) pg False v(1) h'(1) by (simp add: conflict_step_def rs)
    have "\<not> marked r (rw', sw') k" if nh: "\<not> hit'" and k: "k \<in> touched p (sf_src sf)" for k
    proof (cases "IsAnyRegister (sf_src sf)")
      case True
      then show ?thesis using h(2)[OF False True k] v(5)[of k] regs[OF k] by simp
    next
      case nr: False
      then have "k = sf_src sf" using k by (simp add: touched_def)
      then show ?thesis using h'(2)[OF nh] kinds[of k] nr by (auto simp: marked_def SrcType_def)
    qed
    moreover have "marked r (rw', sw') k" if "marked r m k \<or> k \<in> touched p (sf_dst sf) \<and> in_table r k" for k
    proof (cases "marked r m k")
      case True
      then show ?thesis using w(3) v(3) by (simp add: rs)
    next
      case new: False
      then have k: "k \<in> touched p (sf_dst sf)" "in_table r k" using that by auto
      show ?thesis
      proof (cases "IsAnyRegister (sf_dst sf)")
        case True
        then show ?thesis using w(4) v(3) k by blast
      next
        case False
        then have "k = sf_dst sf" using k by (simp add: touched_def)
        then show ?thesis using kinds[OF k(2)] v(4) False by (simp add: DstType_def)
      qed
    qed
    ultimately show ?thesis using step m2 unfolding p_def by blast
  qed
qed

lemma touched_cell:
  assumes "good_move r sf" "pair_ok g r sf" "k \<in> touched (paired_move g sf) (sf_dst sf)" "DstType sf \<noteq> STACK_ARGUMENT"
  shows "in_table r k"
  using assms by (auto simp: touched_def good_move_def pair_ok_def paired_move_def split: if_splits)

lemma touched_kind: "k \<in> touched p l \<Longrightarrow> GetKind k = GetKind l"
  by (auto simp: touched_def next_register_def split: if_splits)

text \<open>Where the destination of a move can be found as the source of a move that reads no marked cell,
  the two cells differ.\<close>

lemma unmarked_cells_differ:
  assumes "good_move r sf" "pair_ok g r sf" "good_move r sf'"
    and "\<And>k. k \<in> touched (paired_move g sf) (sf_dst sf) \<Longrightarrow> in_table r k \<Longrightarrow> marked r m k"
    and "\<And>k. k \<in> touched (paired_move g sf') (sf_src sf') \<Longrightarrow> \<not> marked r m k"
    and "p \<in> set (cell_moves g sf)" "q \<in> set (cell_moves g sf')"
  shows "fst p \<noteq> snd q"
proof
  assume eq: "fst p = snd q"
  have d: "fst (fst p) \<in> touched (paired_move g sf) (sf_dst sf)" by (rule cell_moves_touched(1)[OF assms(6)])
  have s: "fst (fst p) \<in> touched (paired_move g sf') (sf_src sf')" unfolding eq by (rule cell_moves_touched(2)[OF assms(7)])
  show False
  proof (cases "DstType sf = STACK_ARGUMENT")
    case True
    then show False using touched_kind[OF d] touched_kind[OF s] assms(3) by (auto simp: good_move_def in_table_def DstType_def SrcType_def)
  next
    case False
    then show False using touched_cell[OF assms(1,2) d] assms(4)[OF d] assms(5)[OF s] by blast
  qed
qed

lemma conflict_loop_cells:
  assumes "table_ok r" "marks_sized r m" "\<And>sf. sf \<in> set sfs \<Longrightarrow> good_move r sf \<and> pair_ok g r sf"
    and "distinct (map fst (copies_of g sfs))"
  shows "\<exists>m' hit. conflict_loop g r sfs m = Some (m', hit) \<and> marks_sized r m' \<and> (\<not> hit \<longrightarrow> no_clobber (copies_of g sfs)
    \<and> (\<forall>sf \<in> set sfs. same_place sf \<or> (\<forall>k \<in> touched (paired_move g sf) (sf_src sf). \<not> marked r m k)))"
  using assms(2-4)
proof (induction sfs arbitrary: m)
  case Nil
  then show ?case by (intro exI[of _ m] exI[of _ False]) simp
next
  case (Cons sf sfs)
  have dist: "distinct (map fst (copies_of g sfs))" using Cons.prems(3) by simp
  have good: "good_move r sf" "pair_ok g r sf" using Cons.prems(2) by auto
  show ?case
  proof (cases "same_place sf")
    case True
    note own = same_place_copies[OF True]
    obtain m' hit where L: "conflict_loop g r sfs m = Some (m', hit)" "marks_sized r m'" "\<not> hit \<longrightarrow> no_clobber (copies_of g sfs)
      \<and> (\<forall>sf \<in> set sfs. same_place sf \<or> (\<forall>k \<in> touched (paired_move g sf) (sf_src sf). \<not> marked r m k))"
      using Cons.IH[OF Cons.prems(1) _ dist] Cons.prems(2) by auto
    show ?thesis
      using True L own no_clobber_same[of "cell_moves g sf"]
      by (intro exI[of _ m'] exI[of _ hit]) (simp add: no_clobber_append)
  next
    case False
    obtain m1 hit where one: "conflict_step g r sf m = Some (m1, hit)" "marks_sized r m1"
      "\<not> hit \<Longrightarrow> (\<forall>k \<in> touched (paired_move g sf) (sf_src sf). \<not> marked r m1 k)
        \<and> (\<forall>k. marked r m k \<or> k \<in> touched (paired_move g sf) (sf_dst sf) \<and> in_table r k \<longrightarrow> marked r m1 k)"
      using conflict_step_marks[OF assms(1) Cons.prems(1) good] by blast
    obtain m' hit' where rest: "conflict_loop g r sfs m1 = Some (m', hit')" "marks_sized r m'" "\<not> hit' \<Longrightarrow> no_clobber (copies_of g sfs)
      \<and> (\<forall>sf \<in> set sfs. same_place sf \<or> (\<forall>k \<in> touched (paired_move g sf) (sf_src sf). \<not> marked r m1 k))"
      using Cons.IH[OF one(2) _ dist] Cons.prems(2) by auto
    show ?thesis
    proof (cases "hit \<or> hit'")
      case True
      then show ?thesis using False one(1,2) rest(1,2) by (cases hit) auto
    next
      case nohit: False
      then have one': "\<And>k. k \<in> touched (paired_move g sf) (sf_src sf) \<Longrightarrow> \<not> marked r m1 k"
        "\<And>k. marked r m k \<Longrightarrow> marked r m1 k" "\<And>k. k \<in> touched (paired_move g sf) (sf_dst sf) \<Longrightarrow> in_table r k \<Longrightarrow> marked r m1 k"
        using one(3) by blast+
      have "fst p \<noteq> snd q" if "p \<in> set (cell_moves g sf)" "q \<in> set (cell_moves g sf)" for p q
        by (rule unmarked_cells_differ[OF good good(1) one'(3,1) that])
      moreover have "fst p \<notin> snd ` set (copies_of g sfs)" if p: "p \<in> set (cell_moves g sf)" for p
      proof
        assume "fst p \<in> snd ` set (copies_of g sfs)"
        then obtain sf' q where q: "sf' \<in> set sfs" "q \<in> set (cell_moves g sf')" "fst p = snd q" "q \<in> set (copies_of g sfs)"
          by (metis (no_types, lifting) copies_ofE imageE)
        show False
        proof (cases "same_place sf'")
          case True
          then have "fst q \<in> fst ` set (copies_of g sfs)" "fst q = fst p"
            using q(3) imageI[OF q(4), of fst] same_place_copies[OF True q(2)] by simp_all
          then show False using Cons.prems(3) p by auto
        next
          case False
          then have "\<And>k. k \<in> touched (paired_move g sf') (sf_src sf') \<Longrightarrow> \<not> marked r m1 k" using rest(3) nohit q(1) by blast
          moreover have "good_move r sf'" using Cons.prems(2) q(1) by simp
          ultimately show False using unmarked_cells_differ[OF good _ one'(3) _ p q(2)] q(3) by blast
        qed
      qed
      moreover have marks_back: "\<not> marked r m k" if "\<not> marked r m1 k" for k using that one'(2) by blast
      moreover have unread: "\<forall>sf \<in> set sfs. same_place sf \<or> (\<forall>k \<in> touched (paired_move g sf) (sf_src sf). \<not> marked r m k)"
      proof
        fix sf' assume "sf' \<in> set sfs"
        then have "same_place sf' \<or> (\<forall>k \<in> touched (paired_move g sf') (sf_src sf'). \<not> marked r m1 k)" using rest(3) nohit by simp
        then show "same_place sf' \<or> (\<forall>k \<in> touched (paired_move g sf') (sf_src sf'). \<not> marked r m k)" using marks_back by metis
      qed
      moreover have "no_clobber (cell_moves g sf)"
        using calculation(1)[of "(lower_cell (sf_dst sf), lower_cell (sf_src sf))" "(upper_cell (sf_dst sf), upper_cell (sf_src sf))"]
        by (simp add: cell_moves_def)
      ultimately show ?thesis
        using False nohit one(1) rest one'(1) marks_back unread
        by (intro exI[of _ m'] exI[of _ False]) (simp add: no_clobber_append)
    qed
  qed
qed

lemma copies_of_dst: "sf \<in> set sfs \<Longrightarrow> lower_cell (sf_dst sf) \<in> fst ` set (copies_of g sfs)"
  by (force simp: copies_of_def cell_moves_def)

lemma distinct_cells_dst: "distinct (map fst (copies_of g sfs)) \<Longrightarrow> distinct (map sf_dst sfs)"
proof (induction sfs)
  case (Cons sf sfs)
  have "sf_dst sf' \<noteq> sf_dst sf" if "sf' \<in> set sfs" for sf'
  proof
    assume "sf_dst sf' = sf_dst sf"
    then have "lower_cell (sf_dst sf) \<in> fst ` set (copies_of g sfs)" using copies_of_dst[OF that, of g] by simp
    then show False using Cons.prems by (simp add: cell_moves_def)
  qed
  then have "sf_dst sf \<notin> sf_dst ` set sfs" by force
  then show ?case using Cons by simp
qed simp

lemma NeedToResolve_cells:
  assumes T: "table_ok r" and m: "\<And>sf. sf \<in> set sfs \<Longrightarrow> good_move r sf \<and> pair_ok g r sf"
    and d: "distinct (map fst (copies_of g sfs))"
  shows "\<exists>r' need. NeedToResolve g sfs r = Some (r', need) \<and> same_layout r r'
    \<and> (\<not> need \<longrightarrow> no_clobber (copies_of g sfs))"
proof (cases "length sfs < 2")
  case True
  then consider "sfs = []" | sf where "sfs = [sf]" by (cases sfs; cases "tl sfs") auto
  then have "no_clobber (copies_of g sfs)"
  proof cases
    case 2
    then show ?thesis
      using m[of sf] by (auto simp: cell_moves_def pair_ok_def paired_move_def lower_cell_def upper_cell_def)
  qed simp
  then show ?thesis
    using True same_shape_layout[OF same_shape_refl]
    by (intro exI[of _ r] exI[of _ False]) (simp add: NeedToResolve_def)
next
  case False
  have "marks_sized r (replicate (length (regWrite r)) False, replicate (length (stackWrite r)) False)"
    using T by (simp add: marks_sized_def table_ok_def)
  then obtain rw sw hit where L: "conflict_loop g r sfs (replicate (length (regWrite r)) False, replicate (length (stackWrite r)) False)
      = Some ((rw, sw), hit)" "marks_sized r (rw, sw)" "\<not> hit \<longrightarrow> no_clobber (copies_of g sfs)"
    using conflict_loop_cells[OF T _ m d] by (metis surj_pair)
  have "same_layout r (r\<lparr>regWrite := rw, stackWrite := sw\<rparr>)"
    unfolding same_layout_def using L(2) T
    by (intro exI[of _ "movesTable r"] exI[of _ "loadsCount r"] exI[of _ "preMoves r"] exI[of _ "postMoves r"]
        exI[of _ rw] exI[of _ sw]) (simp add: marks_sized_def table_ok_def)
  then show ?thesis
    using False L(1,3) by (intro exI[of _ "r\<lparr>regWrite := rw, stackWrite := sw\<rparr>"] exI[of _ hit]) (simp add: NeedToResolve_def)
qed

text \<open>The types of the moves that \<open>Resolve\<close> makes are types of the moves it was given.\<close>

definition types_within :: "DataType set \<Rightarrow> SpillFillsResolver \<Rightarrow> SpillFillData list \<Rightarrow> bool" where
  "types_within Ty r out \<longleftrightarrow> length (movesTable r) < INVALID_LOCATION_INDEX
     \<and> (\<forall>m \<in> set (movesTable r). move_src m \<noteq> INVALID_LOCATION_INDEX \<longrightarrow> regType m \<in> Ty)
     \<and> (\<forall>sf \<in> set (out @ preMoves r @ postMoves r). sf_type sf \<in> Ty)"

lemma set_list_update: "x \<in> set (xs[i := y]) \<Longrightarrow> x = y \<or> x \<in> set xs"
  using set_update_subset_insert[of xs i y] by blast

lemma nth_opt_in: "nth_opt xs i = Some x \<Longrightarrow> x \<in> set xs"
  by (auto simp: nth_opt_eq_Some)

lemma set_at_in: "set_at xs i y = Some ys \<Longrightarrow> x \<in> set ys \<Longrightarrow> x = y \<or> x \<in> set xs"
  by (auto simp: set_at_def dest: set_list_update split: if_splits)

lemma collect_step_types:
  "collect_step g sf r = Some r' \<Longrightarrow> types_within Ty r [] \<Longrightarrow> sf_type sf \<in> Ty \<Longrightarrow> types_within Ty r' []"
  by (fastforce simp: collect_step_def types_within_def Option.bind_eq_Some_conv dest: set_list_update split: if_splits)

lemma collect_loop_types:
  "collect_loop g sfs r = Some r' \<Longrightarrow> types_within Ty r [] \<Longrightarrow> sf_type ` set sfs \<subseteq> Ty \<Longrightarrow> types_within Ty r' []"
proof (induction sfs arbitrary: r)
  case (Cons sf sfs)
  then obtain r1 where "collect_step g sf r = Some r1" "collect_loop g sfs r1 = Some r'" by (auto simp: Option.bind_eq_Some_conv)
  then show ?case using Cons.IH[of r1] Cons.prems collect_step_types[of g sf r r1 Ty] by simp
qed simp

lemma chain_step_types:
  "chain_step g d m r remap out = Some (r', remap', out') \<Longrightarrow> types_within Ty r out \<Longrightarrow> regType m \<in> Ty \<Longrightarrow> types_within Ty r' out'"
  by (fastforce simp: chain_step_def types_within_def Let_def Option.bind_eq_Some_conv AddSpillFill_def mkSpillFill_def dest: set_list_update)

lemma AddMovesChain_loop_types:
  "AddMovesChain_loop g d r remap out = Some (z, r', remap', out') \<Longrightarrow> types_within Ty r out \<Longrightarrow> types_within Ty r' out'"
proof (induction g d r remap out rule: AddMovesChain_loop.induct)
  case (1 g d r remap out)
  show ?case
  proof (cases "nth_opt (movesTable r) d")
    case None
    then show ?thesis using 1(2) by (subst (asm) AddMovesChain_loop.simps) simp
  next
    case (Some m)
    show ?thesis
    proof (cases "move_src m = INVALID_LOCATION_INDEX")
      case True
      then show ?thesis using 1(2,3) Some by (subst (asm) AddMovesChain_loop.simps) simp
    next
      case False
      then obtain r1 rm1 out1 where s: "chain_step g d m r remap out = Some (r1, rm1, out1)"
        "AddMovesChain_loop g (move_src m) r1 rm1 out1 = Some (z, r', remap', out')"
        using 1(2) Some by (subst (asm) AddMovesChain_loop.simps) (auto split: option.splits)
      have "regType m \<in> Ty" using nth_opt_in[OF Some] False 1(3) by (simp add: types_within_def)
      then show ?thesis using 1(1)[OF Some False s(1) refl refl s(2)] chain_step_types[OF s(1) 1(3)] by simp
    qed
  qed
qed

lemma AddMovesChain_types:
  assumes "AddMovesChain c g d r remap out = Some (r', remap', out')" "types_within Ty r out"
  shows "types_within Ty r' out'"
proof -
  obtain z remap1 where "AddMovesChain_loop g d r remap out = Some (z, r', remap1, out')"
    using assms(1) by (auto simp: AddMovesChain_def Let_def Option.bind_eq_Some_conv split: if_splits)
  then show ?thesis using AddMovesChain_loop_types assms(2) by blast
qed

lemma add_tails_types:
  "add_tails g ds (r, remap, out) = Some (r', remap', out') \<Longrightarrow> types_within Ty r out \<Longrightarrow> types_within Ty r' out'"
proof (induction ds arbitrary: r remap out)
  case (Cons d ds)
  then obtain r1 rm1 out1 where "add_tails g ds (r1, rm1, out1) = Some (r', remap', out')" "types_within Ty r1 out1"
    by (auto simp: Option.bind_eq_Some_conv dest!: AddMovesChain_types split: if_splits)
  then show ?case using Cons.IH by blast
qed simp

lemma find_cycle_end_src:
  assumes "find_cycle_end nd fuel ms first d s = Some e" "nth_opt ms d = Some m" "move_src m = s"
  shows "\<exists>m. nth_opt ms e = Some m \<and> move_src m = first"
  using assms
proof (induction fuel arbitrary: d s m)
  case 0
  then show ?case by (simp add: find_cycle_end.simps split: if_splits)
next
  case (Suc k)
  show ?case
  proof (cases "s = first")
    case True
    then show ?thesis using Suc.prems by (simp add: find_cycle_end.simps)
  next
    case False
    then obtain m' where "nth_opt ms s = Some m'" "find_cycle_end nd k ms first s (move_src m') = Some e"
      using Suc.prems(1) by (auto simp: find_cycle_end.simps[of nd "Suc k"] Option.bind_eq_Some_conv)
    then show ?thesis using Suc.IH by blast
  qed
qed

lemma cycle_types:
  assumes C: "CheckAndResolveCyclicDependency g d r = Some (h, t, r')" and w: "types_within Ty r out"
  shows "types_within Ty r' out"
proof -
  obtain m x y e' ms1 ms2 ms3 where m: "nth_opt (movesTable r) d = Some m"
    and e: "find_cycle_end (ndebug g) (length (movesTable r)) (movesTable r) d d (move_src m) = Some x"
    and 1: "nth_opt (movesTable r) t = Some y" "set_at (movesTable r) t (y\<lparr>move_src := d\<rparr>) = Some ms1"
    and 2: "nth_opt ms1 x = Some e'" "set_at ms1 x (e'\<lparr>move_src := t\<rparr>) = Some ms2"
    and 3: "\<exists>z. nth_opt ms2 t = Some z \<and> set_at ms2 t (z\<lparr>regType := regType e'\<rparr>) = Some ms3"
    and r': "movesTable r' = ms3" "preMoves r' = preMoves r" "postMoves r' = postMoves r"
    using C by (auto simp: CheckAndResolveCyclicDependency_def Option.bind_eq_Some_conv)
  obtain e0 where e0: "nth_opt (movesTable r) x = Some e0" "move_src e0 = d" using find_cycle_end_src[OF e m refl] by blast
  have "d \<noteq> INVALID_LOCATION_INDEX" using m w by (auto simp: nth_opt_eq_Some types_within_def)
  then have "regType e0 \<in> Ty" using e0 nth_opt_in[OF e0(1)] w by (auto simp: types_within_def)
  moreover have "regType e' = regType e0" using e0 1 2(1) by (auto simp: nth_opt_eq_Some set_at_def nth_list_update split: if_splits)
  ultimately have ty: "regType e' \<in> Ty" by simp
  have 4: "ms3 = ((movesTable r)[t := y\<lparr>move_src := d\<rparr>, x := e'\<lparr>move_src := t\<rparr>])[t := (ms2 ! t)\<lparr>regType := regType e'\<rparr>]"
    using 1 2 3 by (auto simp: nth_opt_eq_Some set_at_def split: if_splits)
  have "regType k \<in> Ty" if k: "k \<in> set ms3" "move_src k \<noteq> INVALID_LOCATION_INDEX" for k
  proof -
    have len: "length ms3 = length (movesTable r)" by (simp add: 4)
    obtain i where i: "i < length (movesTable r)" "k = ms3 ! i" using k(1) by (auto simp: in_set_conv_nth len)
    consider "i = t" | "i = x" "i \<noteq> t" | "i \<noteq> t" "i \<noteq> x" by blast
    then show ?thesis
    proof cases
      case 3
      then have "k = movesTable r ! i" using i unfolding 4 by simp
      then show ?thesis using i(1) k(2) w by (simp add: types_within_def)
    qed (use i ty in \<open>auto simp: 4\<close>)
  qed
  then show ?thesis using w r' unfolding types_within_def 4 by simp
qed

lemma add_cycles_types:
  "add_cycles ds (g, r, remap, out) = Some (h, r', remap', out') \<Longrightarrow> types_within Ty r out \<Longrightarrow> types_within Ty r' out'"
proof (induction ds arbitrary: g r remap out)
  case (Cons d ds)
  obtain m where m: "nth_opt (movesTable r) d = Some m"
    using Cons.prems(1) by (cases "nth_opt (movesTable r) d") simp_all
  show ?case
  proof (cases "move_src m = INVALID_LOCATION_INDEX")
    case True
    then show ?thesis using Cons m by simp
  next
    case False
    then obtain g1 t r1 r2 rm2 out2 where "CheckAndResolveCyclicDependency g d r = Some (g1, t, r1)"
      "AddMovesChain True g1 t r1 remap out = Some (r2, rm2, out2)"
      "add_cycles ds (g1, r2, rm2, out2) = Some (h, r', remap', out')"
      using Cons.prems(1) m by (auto simp: Option.bind_eq_Some_conv)
    then show ?thesis using Cons.IH[OF _ AddMovesChain_types[OF _ cycle_types[OF _ Cons.prems(2)]]] by simp
  qed
qed simp

lemma Resolve_types:
  assumes "Resolve g r sfs = Some (h, r', out)" "table_ok r" "sf \<in> set out"
  shows "sf_type sf \<in> sf_type ` set sfs"
proof -
  let ?Ty = "sf_type ` set sfs"
  obtain r1 where c: "collect_loop g sfs (cleared r) = Some r1" "Reorder g r1 = Some (h, r', out)"
    using assms(1) by (auto simp: Resolve_def CollectSpillFillsData_def Option.bind_eq_Some_conv)
  have "types_within ?Ty (cleared r) []" using assms(2) by (auto simp: types_within_def cleared_def no_move_def table_ok_def)
  then have "types_within ?Ty r1 (preMoves r1)" using collect_loop_types[OF c(1), of ?Ty] by (auto simp: types_within_def)
  moreover obtain r2 rm2 out2 rm3 out3 where "add_tails g [0..<to_index (locationsCount r1)]
      (r1, replicate (locationsCount r1) INVALID_LOCATION_INDEX, preMoves r1) = Some (r2, rm2, out2)"
    "add_cycles [0..<to_index (locationsCount r1)] (g, r2, rm2, out2) = Some (h, r', rm3, out3)" "out = out3 @ postMoves r'"
    using c(2) by (auto simp: Reorder_def Let_def Option.bind_eq_Some_conv)
  ultimately have "types_within ?Ty r' out3" using add_tails_types add_cycles_types by blast
  then show ?thesis using assms(3) \<open>out = _\<close> by (auto simp: types_within_def)
qed

text \<open>Where no move is paired, the cells in use are the locations.\<close>

lemma run_cells_single:
  assumes "\<And>sf. sf \<in> set sfs \<Longrightarrow> \<not> paired_move g sf"
  shows "run_cells g sfs \<sigma> c = (if snd c then \<sigma> c else run sfs (\<lambda>l. \<sigma> (lower_cell l)) (fst c))"
  using assms
proof (induction sfs arbitrary: \<sigma>)
  case Nil
  then show ?case by (cases c) (simp add: run_cells_def lower_cell_def)
next
  case (Cons sf sfs)
  have "run_cells g (sf # sfs) \<sigma> = run_cells g sfs (copy_cell (lower_cell (sf_dst sf), lower_cell (sf_src sf)) \<sigma>)"
    using Cons.prems by (simp add: run_cells_def cell_moves_def)
  moreover have "(\<lambda>l. copy_cell (lower_cell (sf_dst sf), lower_cell (sf_src sf)) \<sigma> (lower_cell l)) = exec sf (\<lambda>l. \<sigma> (lower_cell l))"
    by (auto simp: copy_cell_def lower_cell_def exec_def)
  ultimately show ?case
    using Cons by (cases c) (simp add: copy_cell_def lower_cell_def)
qed

lemma parallel_cells_single:
  assumes "\<And>sf. sf \<in> set sfs \<Longrightarrow> \<not> paired_move g sf"
  shows "parallel_cells g sfs \<sigma> c = (if snd c then \<sigma> c else parallel sfs (\<lambda>l. \<sigma> (lower_cell l)) (fst c))"
  using assms
proof (induction sfs)
  case Nil
  then show ?case by (cases c) (simp add: parallel_cells_def parallel_def lower_cell_def)
next
  case (Cons sf sfs)
  then show ?case
    by (cases c) (auto simp: parallel_cells_def parallel_def cell_moves_def lower_cell_def)
qed

text \<open>An instruction that is left alone does its parallel assignment on all cells; one that is reordered
  does so on all locations but the temporaries, and on all their cells if none of its moves is paired.\<close>

lemma Resolve_cells:
  assumes T: "table_ok r" and m: "moves_ok g r sfs" and p: "\<And>sf. sf \<in> set sfs \<Longrightarrow> \<not> paired_move g sf"
    and R: "Resolve g r sfs = Some (h, r', out)" and c: "fst c \<notin> temporaries g r sfs"
  shows "run_cells g out (\<sigma> :: cell \<Rightarrow> 'v) c = parallel_cells g sfs \<sigma> c"
proof -
  have "\<not> paired_move g sf" if "sf \<in> set out" for sf
    using Resolve_types[OF R T that] p by (auto simp: paired_move_def)
  moreover have "run out \<tau> l = parallel sfs \<tau> l" if "l \<notin> temporaries g r sfs" for \<tau> :: "Location \<Rightarrow> 'v" and l
    using Resolve_parallel[OF T m, where ?'v = 'v] R that by auto
  ultimately show ?thesis using c p by (simp add: run_cells_single parallel_cells_single)
qed

text \<open>An instruction left alone makes its parallel assignment on the locations too.\<close>

lemma copies_lower: "sf \<in> set sfs \<Longrightarrow> (lower_cell (sf_dst sf), lower_cell (sf_src sf)) \<in> set (copies_of g sfs)"
  by (force simp: copies_of_def cell_moves_def)

lemma no_clobber_independent: "no_clobber (copies_of g sfs) \<Longrightarrow> independent sfs"
proof (induction sfs)
  case (Cons sf sfs)
  have "same_place sf" if "sf' \<in> set sfs" "sf_src sf' = sf_dst sf" for sf'
    using Cons.prems copies_lower[OF that(1), of g] that(2)
    by (force simp: no_clobber_append cell_moves_def lower_cell_def same_place_iff split: if_splits)
  then show ?case using Cons by (auto simp: no_clobber_append)
qed simp

section \<open>The instructions of a graph\<close>

lemma moves_ok_same:
  assumes "same_graph g g'" "same_layout r r'"
  shows "moves_ok g' r' = moves_ok g r" "temporaries g' r' = temporaries g r" "pair_ok g' r' = pair_ok g r"
proof -
  note s = same_graph_simps[OF assms(1)] same_layout_simps[OF assms(2)]
  have i: "temp_index g' r' = temp_index g r" unfolding temp_index_def s by (rule refl)
  have t: "temp_ok g' r' = temp_ok g r" unfolding temp_ok_def i s by (rule refl)
  show "moves_ok g' r' = moves_ok g r" unfolding moves_ok_def i t s by (rule refl)
  show "temporaries g' r' = temporaries g r" unfolding temporaries_def i s by (rule refl)
  show "pair_ok g' r' = pair_ok g r" unfolding pair_ok_def IsPairedReg_def s by (rule refl)
qed

lemma NewResolver_table:
  assumes "NewResolver g resolver regs vregs = Some r" "regs \<le> 2 ^ 13" "vregs \<le> 2 ^ 13"
    and "stackSlotsCount g \<le> 2 ^ 13" "parametersSlotsCount g \<le> 2 ^ 13"
  shows "table_ok r"
  using assms by (auto simp: NewResolver_def Let_def Option.bind_eq_Some_conv table_ok_def INVALID_LOCATION_INDEX_def)

text \<open>Whether the resolver reorders an instruction depends on its moves, the target and the layout of the
  tables only.\<close>

definition reorders :: "RegGraph \<Rightarrow> SpillFillsResolver \<Rightarrow> SpillFillData list \<Rightarrow> bool" where
  "reorders g r sfs \<longleftrightarrow> (\<exists>r'. NeedToResolve g sfs r = Some (r', True))"

lemma conflict_same:
  assumes "same_graph g g'" "same_layout r r'"
  shows "conflict_loop g' r' sfs m = conflict_loop g r sfs m"
proof -
  have step: "conflict_step g' r' = conflict_step g r"
    unfolding conflict_step_def fun_eq_iff IsPairedReg_def same_graph_simps[OF assms(1)] same_layout_simps[OF assms(2)] by simp
  show ?thesis by (induction sfs arbitrary: m) (simp_all add: step cong: if_cong)
qed

lemma reorders_same:
  assumes "same_graph g g'" "same_layout r r'"
  shows "reorders g' r' sfs = reorders g r sfs"
proof -
  have "length (regWrite r') = length (regWrite r)" "length (stackWrite r') = length (stackWrite r)"
    using assms(2) by (auto simp: same_layout_def)
  then show ?thesis
    unfolding reorders_def NeedToResolve_def conflict_same[OF assms] by (auto simp: Option.bind_eq_Some_conv)
qed

text \<open>What an instruction is after the resolver has visited it: its locations, but for the temporaries,
  hold what the parallel assignment gives; so do all cells if the instruction was left alone or has no
  paired moves.\<close>

definition implements_moves :: "RegGraph \<Rightarrow> SpillFillsResolver \<Rightarrow> 'v itself \<Rightarrow> SpillFillData list \<Rightarrow> SpillFillData list \<Rightarrow> bool" where
  "implements_moves g r ty sfs out \<longleftrightarrow>
     (\<forall>(\<sigma> :: Location \<Rightarrow> 'v) l. l \<notin> temporaries g r sfs \<longrightarrow> run out \<sigma> l = parallel sfs \<sigma> l) \<and>
     (\<not> reorders g r sfs \<longrightarrow> out = sfs \<and> (\<forall>\<sigma> :: cell \<Rightarrow> 'v. run_cells g out \<sigma> = parallel_cells g sfs \<sigma>)) \<and>
     ((\<forall>sf \<in> set sfs. \<not> paired_move g sf) \<longrightarrow>
        (\<forall>(\<sigma> :: cell \<Rightarrow> 'v) c. fst c \<notin> temporaries g r sfs \<longrightarrow> run_cells g out \<sigma> c = parallel_cells g sfs \<sigma> c))"

text \<open>The moves of an instruction: \<open>moves_ok\<close>, pairs that are there, and no cell written twice.\<close>

definition cells_ok :: "RegGraph \<Rightarrow> SpillFillsResolver \<Rightarrow> SpillFillData list \<Rightarrow> bool" where
  "cells_ok g r sfs \<longleftrightarrow> moves_ok g r sfs \<and> (\<forall>sf \<in> set sfs. pair_ok g r sf) \<and> distinct (map fst (copies_of g sfs))"

lemma same_cells:
  assumes "same_graph g g'" "same_layout r r'"
  shows "paired_move g' = paired_move g" "copies_of g' = copies_of g" "cells_ok g' r' = cells_ok g r"
    "implements_moves g' r' ty = implements_moves g r ty"
proof -
  show p: "paired_move g' = paired_move g"
    unfolding paired_move_def fun_eq_iff IsPairedReg_def same_graph_simps[OF assms(1)] by simp
  show c: "copies_of g' = copies_of g" unfolding copies_of_def cell_moves_def fun_eq_iff p by simp
  show "cells_ok g' r' = cells_ok g r" unfolding cells_ok_def fun_eq_iff c moves_ok_same[OF assms] by simp
  show "implements_moves g' r' ty = implements_moves g r ty"
    unfolding implements_moves_def fun_eq_iff p run_cells_def parallel_cells_def c moves_ok_same[OF assms]
      reorders_same[OF assms] by simp
qed

lemma VisitSpillFill_implements:
  assumes T: "table_ok r" and m: "cells_ok g r sfs"
  shows "\<exists>h r' out. VisitSpillFill g r sfs = Some (h, r', out) \<and> same_graph g h \<and> same_layout r r'
      \<and> implements_moves g r TYPE('v) sfs out"
    and "\<exists>h r' out. ResolveIfRequired g r sfs = Some (h, r', out) \<and> same_graph g h \<and> same_layout r r'
      \<and> implements_moves g r TYPE('v) sfs out"
proof -
  have mo: "moves_ok g r sfs" and good: "\<And>sf. sf \<in> set sfs \<Longrightarrow> good_move r sf \<and> pair_ok g r sf"
    and dc: "distinct (map fst (copies_of g sfs))" and dist: "distinct (map sf_dst sfs)"
    using m by (auto simp: cells_ok_def moves_ok_def)
  obtain r1 need where N: "NeedToResolve g sfs r = Some (r1, need)" "same_layout r r1"
    "\<not> need \<longrightarrow> no_clobber (copies_of g sfs)"
    using NeedToResolve_cells[OF T good dc] by blast
  have need: "reorders g r sfs = need" using N(1) by (auto simp: reorders_def)
  note s = moves_ok_same[OF same_graph_refl N(2)]
  have T1: "table_ok r1" using T same_layout_simps(2)[OF N(2)] by simp
  obtain h r3 out where R: "Resolve g r1 sfs = Some (h, r3, out)" "same_graph g h" "same_layout r1 r3"
    "\<forall>(\<sigma> :: Location \<Rightarrow> 'v) l. l \<notin> temporaries g r sfs \<longrightarrow> run out \<sigma> l = parallel sfs \<sigma> l"
    using Resolve_parallel[OF T1, of g sfs, where ?'v = 'v] mo unfolding s by blast
  have moved: "implements_moves g r TYPE('v) sfs out" if need
    using R(4) need that Resolve_cells[OF T1 _ _ R(1), unfolded s, OF mo, where ?'v = 'v] unfolding implements_moves_def by blast
  have kept: "implements_moves g r TYPE('v) sfs sfs" if n: "\<not> need"
  proof -
    have "run sfs \<sigma> l = parallel sfs \<sigma> l" if "l \<notin> temporaries g r sfs" for \<sigma> :: "Location \<Rightarrow> 'v" and l
      using run_independent[OF no_clobber_independent dist] N(3) n by blast
    moreover have "run_cells g sfs \<sigma> = parallel_cells g sfs \<sigma>" for \<sigma> :: "cell \<Rightarrow> 'v"
      using no_clobber_parallel[OF _ dc] N(3) n by (auto simp: run_cells_def parallel_cells_def fun_eq_iff)
    ultimately show ?thesis unfolding implements_moves_def by auto
  qed
  have good1: "good_move r1 = good_move r" by (rule same_layout_simps(6)[OF N(2)])
  obtain r2 where C: "CollectSpillFillsData g sfs r1 = Some r2" "same_layout r1 r2"
    using CollectSpillFillsData_collected[OF T1 _ dist, of g] good unfolding good1 by blast
  show "\<exists>h r' out. VisitSpillFill g r sfs = Some (h, r', out) \<and> same_graph g h \<and> same_layout r r'
      \<and> implements_moves g r TYPE('v) sfs out"
    using R(1,2) moved kept N(1,2) C(1) same_layout_trans[OF N(2) C(2)] same_layout_trans[OF N(2) R(3)]
    by (cases need; cases "ndebug g") (auto simp: VisitSpillFill_def)
  show "\<exists>h r' out. ResolveIfRequired g r sfs = Some (h, r', out) \<and> same_graph g h \<and> same_layout r r'
      \<and> implements_moves g r TYPE('v) sfs out"
    using R(1,2) moved kept N(1,2) same_layout_trans[OF N(2) R(3)] by (cases need) (auto simp: ResolveIfRequired_def)
qed

lemma Run_implements:
  assumes "table_ok r" "\<And>sfs. sfs \<in> set insts \<Longrightarrow> cells_ok g r sfs"
  shows "\<exists>outs h r'. Run insts (g, r) = Some (outs, h, r') \<and> list_all2 (implements_moves g r TYPE('v)) insts outs"
  using assms
proof (induction insts arbitrary: g r)
  case Nil
  then show ?case by simp
next
  case (Cons sfs insts)
  obtain h r1 out where V: "VisitSpillFill g r sfs = Some (h, r1, out)" "same_graph g h" "same_layout r r1"
    "implements_moves g r TYPE('v) sfs out"
    using VisitSpillFill_implements(1)[OF Cons.prems(1) Cons.prems(2)[of sfs], where ?'v = 'v] by auto
  note s = same_cells[OF V(2,3)]
  have T1: "table_ok r1" using Cons.prems(1) same_layout_simps(2)[OF V(3)] by simp
  have "cells_ok h r1 sfs'" if "sfs' \<in> set insts" for sfs'
    unfolding s using Cons.prems(2)[of sfs'] that by simp
  then obtain outs h' r' where "Run insts (h, r1) = Some (outs, h', r')" "list_all2 (implements_moves g r TYPE('v)) insts outs"
    using Cons.IH[OF T1, of h] unfolding s by blast
  then show ?case using V(1,4) by simp
qed

text \<open>The bytecode optimizer has no moves of floating-point types, so its preassigned temporary
  register serves all of them (\<open>temp_ok\<close>).\<close>

lemma bytecode_optimizer_not_float:
  "ConvertRegType nd True scalarMapped ops arch type = Some t \<Longrightarrow> \<not> IsFloatType t"
  by (auto simp: ConvertRegType_def ConvertRegTypeNotFloat_def IsFloatType_def Option.bind_eq_Some_conv split: if_splits)

section \<open>Properties\<close>

text \<open>A graph of a 64-bit ARM build: two temporary registers, a temporary vector register, four
  stack slots and two parameter slots.\<close>

definition demo_graph :: RegGraph where
  "demo_graph = \<lparr>ndebug = False, largeFrame = False, arch_of = AARCH64, objPtrSize = 4,
     tempMask = replicate 16 False @ [True, True] @ replicate 14 False, regMask = replicate 32 True,
     tempVReg = Some 31, stackSlotsCount = 4, parametersSlotsCount = 2, usedRegs = [], usedVregs = []\<rparr>"

definition demo_resolver :: SpillFillsResolver where
  "demo_resolver = \<lparr>movesTable = replicate 70 \<lparr>move_src = 0, regType = NO_TYPE\<rparr>, loadsCount = replicate 70 0,
     preMoves = [], postMoves = [], resolverReg = 255, vregsTableOffset = 32, slotsTableOffset = 64,
     parameterSlotsOffset = 68, locationsCount = 70, regWrite = replicate 64 False,
     stackWrite = replicate 6 False\<rparr>"

text \<open>A swap of two registers with a third reader, a cycle through memory, an immediate and an
  outgoing argument.\<close>

definition demo_moves :: "SpillFillData list" where
  "demo_moves = [mkSpillFill (Loc REGISTER 1) (Loc REGISTER 2) INT64, mkSpillFill (Loc REGISTER 2) (Loc REGISTER 1) INT64,
     mkSpillFill (Loc REGISTER 1) (Loc REGISTER 3) INT64, mkSpillFill (Loc STACK 0) (Loc FP_REGISTER 2) FLOAT64,
     mkSpillFill (Loc FP_REGISTER 2) (Loc STACK 0) FLOAT64, mkSpillFill (Loc IMMEDIATE 3) (Loc REGISTER 8) INT32,
     mkSpillFill (Loc REGISTER 1) (Loc STACK_ARGUMENT 0) INT64]"

lemma demo_temporaries: "GetArchTempReg demo_graph = 17" "GetArchTempVReg demo_graph = 31"
  by code_simp+

lemma demo_table: "table_ok demo_resolver"
  by (simp add: table_ok_def demo_resolver_def INVALID_LOCATION_INDEX_def)

lemma demo_temp_index:
  "temp_index demo_graph demo_resolver type = (if IsFloatType type then 63 else 17)"
  "temp_ok demo_graph demo_resolver type"
  by (simp_all add: temp_index_def temp_ok_def demo_temporaries demo_resolver_def GetInvalidReg_def INVALID_REG_def)
    (simp add: demo_graph_def)+

lemma demo_temporaries_only:
  "temporaries demo_graph demo_resolver sfs \<subseteq> {Loc REGISTER 17, Loc FP_REGISTER 31}"
proof -
  have "loc demo_resolver 17 = Loc REGISTER 17" "loc demo_resolver 63 = Loc FP_REGISTER 31"
    by (simp_all add: loc_def demo_resolver_def)
  then show ?thesis by (auto simp: temporaries_def demo_temp_index split: if_splits)
qed

lemma demo_new: "DefaultResolver demo_graph = Some demo_resolver"
  by (simp add: DefaultResolver_def NewResolver_def demo_graph_def demo_resolver_def Let_def ASSERT_def
      MAX_NUM_REGS_def MAX_NUM_VREGS_def GetInvalidReg_def INVALID_REG_def INVALID_LOCATION_INDEX_def del: replicate.simps)

lemmas demo_simps = demo_moves_def mkSpillFill_def good_move_def in_table_def SrcType_def DstType_def
  demo_temp_index IsFloatType_def loc_def

lemma demo_moves_ok: "moves_ok demo_graph demo_resolver demo_moves"
  unfolding moves_ok_def
proof (intro conjI)
  show "distinct (map sf_dst demo_moves)" by (simp add: demo_simps)
  show "\<forall>sf \<in> set demo_moves. good_move demo_resolver sf" by (simp add: demo_simps demo_resolver_def)
  show "\<forall>sf \<in> set demo_moves. length (filter (\<lambda>sf'. sf_src sf' = sf_src sf) demo_moves) < 256"
    by (simp add: demo_simps)
  show "\<forall>sf \<in> set demo_moves. temp_ok demo_graph demo_resolver (sf_type sf) \<and>
      (\<forall>sf' \<in> set demo_moves. loc demo_resolver (temp_index demo_graph demo_resolver (sf_type sf)) \<notin> {sf_src sf', sf_dst sf'})"
    by (simp add: demo_simps) (simp add: demo_resolver_def)
qed

text \<open>C6: \<open>Resolve\<close> replaces the moves of a spill-fill instruction, which stand for one parallel
  assignment, by a sequence that can be executed one after the other: whatever the locations hold,
  afterwards each destination holds what its source held before and every other location is
  unchanged, except for the temporaries. The moves may read a location many times, form chains and
  cycles, and mix registers, slots, parameters, immediates and outgoing arguments.\<close>

theorem resolve_is_parallel:
  assumes "table_ok r" "moves_ok g r sfs"
  shows "\<exists>h r' out. Resolve g r sfs = Some (h, r', out) \<and> table_ok r' \<and>
    (\<forall>(\<sigma> :: Location \<Rightarrow> 'v) l. l \<notin> temporaries g r sfs \<longrightarrow> run out \<sigma> l = parallel sfs \<sigma> l)"
  using Resolve_parallel[OF assms, where ?'v = 'v] same_layout_simps(2) assms(1) by blast

theorem resolve_is_parallel_witness:
  "\<exists>h r' out. Resolve demo_graph demo_resolver demo_moves = Some (h, r', out) \<and>
    (\<forall>\<sigma> :: Location \<Rightarrow> nat. run out \<sigma> (Loc REGISTER 1) = \<sigma> (Loc REGISTER 2)
      \<and> run out \<sigma> (Loc REGISTER 2) = \<sigma> (Loc REGISTER 1) \<and> run out \<sigma> (Loc STACK 0) = \<sigma> (Loc FP_REGISTER 2)
      \<and> run out \<sigma> (Loc STACK_ARGUMENT 0) = \<sigma> (Loc REGISTER 1) \<and> run out \<sigma> (Loc REGISTER 5) = \<sigma> (Loc REGISTER 5))"
proof -
  obtain h r' out where R: "Resolve demo_graph demo_resolver demo_moves = Some (h, r', out)"
    "\<forall>(\<sigma> :: Location \<Rightarrow> nat) l. l \<notin> temporaries demo_graph demo_resolver demo_moves \<longrightarrow>
        run out \<sigma> l = parallel demo_moves \<sigma> l"
    using resolve_is_parallel[OF demo_table demo_moves_ok, where ?'v = nat] by blast
  have "run out \<sigma> l = parallel demo_moves \<sigma> l"
    if "l \<notin> {Loc REGISTER 17, Loc FP_REGISTER 31}" for \<sigma> :: "Location \<Rightarrow> nat" and l
    using R(2) demo_temporaries_only that by blast
  then show ?thesis
    using R(1) by (simp add: demo_moves_def mkSpillFill_def parallel_def)
qed

text \<open>C11: The pass over a graph: \<open>Run\<close> visits every spill-fill instruction with one resolver, whose
  tables it reuses. Each instruction is to have distinct destinations (no cell written twice), moves between
  locations of the tables, at most 255 readers of a location, temporaries that none of its moves uses, and
  for each 64-bit move of a 32-bit target both registers of a pair, the pairs not shifted by one register
  (\<open>cells_ok\<close>). Then the pass does not fail. An instruction that \<open>NeedToResolve\<close> finds free of conflicts is
  left as it is, and its moves one after the other do the parallel assignment on every cell, both registers
  of every pair included. Any other instruction is reordered and does the parallel assignment on every
  location but the temporaries, where a location is one entry of the table; that covers all cells if no
  move of the instruction takes a pair of registers, as on every 64-bit target.\<close>

theorem run_resolves_all:
  assumes "NewResolver g resolver regs vregs = Some r" "regs \<le> 2 ^ 13" "vregs \<le> 2 ^ 13"
    and "stackSlotsCount g \<le> 2 ^ 13" "parametersSlotsCount g \<le> 2 ^ 13"
    and "\<And>sfs. sfs \<in> set insts \<Longrightarrow> cells_ok g r sfs"
  shows "\<exists>outs h r'. Run insts (g, r) = Some (outs, h, r') \<and>
    list_all2 (\<lambda>sfs out.
      (\<forall>(\<sigma> :: Location \<Rightarrow> 'v) l. l \<notin> temporaries g r sfs \<longrightarrow> run out \<sigma> l = parallel sfs \<sigma> l) \<and>
      (\<not> reorders g r sfs \<longrightarrow> out = sfs \<and> (\<forall>\<sigma> :: cell \<Rightarrow> 'v. run_cells g out \<sigma> = parallel_cells g sfs \<sigma>)) \<and>
      ((\<forall>sf \<in> set sfs. \<not> paired_move g sf) \<longrightarrow>
         (\<forall>(\<sigma> :: cell \<Rightarrow> 'v) c. fst c \<notin> temporaries g r sfs \<longrightarrow> run_cells g out \<sigma> c = parallel_cells g sfs \<sigma> c)))
      insts outs"
  using Run_implements[OF NewResolver_table[OF assms(1-5)] assms(6), where ?'v = 'v]
  unfolding implements_moves_def by blast

text \<open>On AARCH32: two pairs handed on (the second move writes the pair that the first reads), and an
  exchange of two 32-bit registers.\<close>

definition pair_graph :: RegGraph where
  "pair_graph = demo_graph\<lparr>arch_of := AARCH32, tempMask := [], stackSlotsCount := 2, parametersSlotsCount := 0\<rparr>"

definition pair_resolver :: SpillFillsResolver where
  "pair_resolver = \<lparr>movesTable = replicate 12 \<lparr>move_src = 0, regType = NO_TYPE\<rparr>, loadsCount = replicate 12 0,
     preMoves = [], postMoves = [], resolverReg = 255, vregsTableOffset = 8, slotsTableOffset = 10,
     parameterSlotsOffset = 12, locationsCount = 12, regWrite = replicate 10 False, stackWrite = replicate 2 False\<rparr>"

definition pair_moves :: "SpillFillData list" where
  "pair_moves = [mkSpillFill (Loc REGISTER 2) (Loc REGISTER 4) INT64, mkSpillFill (Loc REGISTER 0) (Loc REGISTER 2) INT64]"

definition swap_moves :: "SpillFillData list" where
  "swap_moves = [mkSpillFill (Loc REGISTER 1) (Loc REGISTER 2) INT32, mkSpillFill (Loc REGISTER 2) (Loc REGISTER 1) INT32]"

lemma pair_new: "NewResolver pair_graph INVALID_REG 8 2 = Some pair_resolver"
  by (simp add: NewResolver_def pair_graph_def demo_graph_def pair_resolver_def Let_def ASSERT_def INVALID_REG_def
      INVALID_LOCATION_INDEX_def del: replicate.simps)

lemma pair_types: "IsPairedReg pair_graph INT64 = Some True" "IsPairedReg pair_graph INT32 = Some False"
  by (simp_all add: pair_graph_def IsPairedReg_def Is64Bits_def Is32Bits_def Is32Bits_int_def)

lemma pair_temporary: "temp_index pair_graph pair_resolver type = 10" "temp_ok pair_graph pair_resolver type"
  by (simp_all add: temp_index_def temp_ok_def pair_graph_def demo_graph_def pair_resolver_def GetInvalidReg_def INVALID_REG_def)

lemmas pair_simps = mkSpillFill_def good_move_def in_table_def SrcType_def DstType_def pair_types pair_temporary loc_def
  pair_ok_def location_tests next_register_def copies_of_def cell_moves_def paired_move_def lower_cell_def upper_cell_def

lemma pair_cells_ok: "cells_ok pair_graph pair_resolver pair_moves" "cells_ok pair_graph pair_resolver swap_moves"
  unfolding cells_ok_def moves_ok_def
  by (simp_all add: pair_moves_def swap_moves_def pair_simps) (simp_all add: pair_resolver_def)

lemma pair_not_reordered: "\<not> reorders pair_graph pair_resolver pair_moves"
  by (simp add: reorders_def NeedToResolve_def pair_moves_def mkSpillFill_def same_place_def DstType_def SrcType_def
      DstValue_def SrcValue_def conflict_step_def pair_types location_tests MarkRegWrite_def IsRegWrite_def set_at_def
      nth_opt_def reg_index_def pair_resolver_def Let_def)

theorem run_resolves_all_witness:
  "\<exists>out h r'. Run [pair_moves, swap_moves] (pair_graph, pair_resolver) = Some ([pair_moves, out], h, r') \<and>
    (\<forall>\<sigma> :: cell \<Rightarrow> nat. run_cells pair_graph pair_moves \<sigma> (Loc REGISTER 4, False) = \<sigma> (Loc REGISTER 2, False)
       \<and> run_cells pair_graph pair_moves \<sigma> (Loc REGISTER 5, False) = \<sigma> (Loc REGISTER 3, False)
       \<and> run_cells pair_graph pair_moves \<sigma> (Loc REGISTER 3, False) = \<sigma> (Loc REGISTER 1, False)
       \<and> run_cells pair_graph out \<sigma> (Loc REGISTER 2, False) = \<sigma> (Loc REGISTER 1, False)
       \<and> run_cells pair_graph out \<sigma> (Loc REGISTER 1, False) = \<sigma> (Loc REGISTER 2, False))"
proof -
  have small: "(8 :: nat) \<le> 2 ^ 13" "(2 :: nat) \<le> 2 ^ 13" "stackSlotsCount pair_graph \<le> 2 ^ 13"
    "parametersSlotsCount pair_graph \<le> 2 ^ 13"
    by (simp_all add: pair_graph_def)
  have ok: "cells_ok pair_graph pair_resolver sfs" if "sfs \<in> set [pair_moves, swap_moves]" for sfs
    using that pair_cells_ok by auto
  obtain outs h r' where R: "Run [pair_moves, swap_moves] (pair_graph, pair_resolver) = Some (outs, h, r')"
    "list_all2 (\<lambda>sfs out.
      (\<forall>(\<sigma> :: Location \<Rightarrow> nat) l. l \<notin> temporaries pair_graph pair_resolver sfs \<longrightarrow> run out \<sigma> l = parallel sfs \<sigma> l) \<and>
      (\<not> reorders pair_graph pair_resolver sfs \<longrightarrow> out = sfs \<and>
         (\<forall>\<sigma> :: cell \<Rightarrow> nat. run_cells pair_graph out \<sigma> = parallel_cells pair_graph sfs \<sigma>)) \<and>
      ((\<forall>sf \<in> set sfs. \<not> paired_move pair_graph sf) \<longrightarrow>
         (\<forall>(\<sigma> :: cell \<Rightarrow> nat) c. fst c \<notin> temporaries pair_graph pair_resolver sfs \<longrightarrow>
            run_cells pair_graph out \<sigma> c = parallel_cells pair_graph sfs \<sigma> c))) [pair_moves, swap_moves] outs"
    using run_resolves_all[OF pair_new small ok, where ?'v = nat] by blast
  obtain out1 out where outs: "outs = [out1, out]" using R(2) by (auto simp: list_all2_Cons1)
  have T: "temporaries pair_graph pair_resolver sfs \<subseteq> {Loc STACK 0}" for sfs
    by (auto simp: temporaries_def pair_temporary loc_def) (simp_all add: pair_resolver_def)
  have P: "\<forall>sf \<in> set swap_moves. \<not> paired_move pair_graph sf"
    by (simp add: swap_moves_def mkSpillFill_def paired_move_def pair_types)
  have one: "out1 = pair_moves" "run_cells pair_graph pair_moves \<sigma> = parallel_cells pair_graph pair_moves \<sigma>"
    for \<sigma> :: "cell \<Rightarrow> nat"
    using R(2) pair_not_reordered unfolding outs by auto
  have two: "run_cells pair_graph out \<sigma> c = parallel_cells pair_graph swap_moves \<sigma> c" if "fst c \<noteq> Loc STACK 0"
    for \<sigma> :: "cell \<Rightarrow> nat" and c
  proof -
    have "fst c \<notin> temporaries pair_graph pair_resolver swap_moves" using T[of swap_moves] that by auto
    then show ?thesis using R(2) P unfolding outs by (cases c) simp
  qed
  show ?thesis
    using R(1) unfolding outs one(1)
    by (simp add: one(2) two parallel_cells_def) (simp add: pair_moves_def swap_moves_def pair_simps)
qed

section \<open>Too many readers\<close>

text \<open>The moves already made stay in front of those made later.\<close>

lemma chain_step_out: "chain_step g d m r remap out = Some (r', remap', out') \<Longrightarrow> \<exists>ys. out' = out @ ys"
  by (auto simp: chain_step_def Let_def Option.bind_eq_Some_conv AddSpillFill_def)

lemma AddMovesChain_loop_out:
  "AddMovesChain_loop g d r remap out = Some (z, r', remap', out') \<Longrightarrow> \<exists>ys. out' = out @ ys"
proof (induction g d r remap out rule: AddMovesChain_loop.induct)
  case (1 g d r remap out)
  show ?case
  proof (cases "nth_opt (movesTable r) d")
    case None
    then show ?thesis using 1(2) by (subst (asm) AddMovesChain_loop.simps) simp
  next
    case (Some m)
    show ?thesis
    proof (cases "move_src m = INVALID_LOCATION_INDEX")
      case True
      then show ?thesis using 1(2) Some by (subst (asm) AddMovesChain_loop.simps) simp
    next
      case False
      then obtain r1 rm1 out1 where s: "chain_step g d m r remap out = Some (r1, rm1, out1)"
        "AddMovesChain_loop g (move_src m) r1 rm1 out1 = Some (z, r', remap', out')"
        using 1(2) Some by (subst (asm) AddMovesChain_loop.simps) (auto split: option.splits)
      show ?thesis using 1(1)[OF Some False s(1) refl refl s(2)] chain_step_out[OF s(1)] by auto
    qed
  qed
qed

lemma AddMovesChain_out: "AddMovesChain c g d r remap out = Some (r', remap', out') \<Longrightarrow> \<exists>ys. out' = out @ ys"
  by (auto simp: AddMovesChain_def Let_def Option.bind_eq_Some_conv dest!: AddMovesChain_loop_out split: if_splits)

lemma add_tails_out: "add_tails g ds (r, remap, out) = Some (r', remap', out') \<Longrightarrow> \<exists>ys. out' = out @ ys"
proof (induction ds arbitrary: r remap out)
  case (Cons d ds)
  then obtain r1 rm1 out1 where "add_tails g ds (r1, rm1, out1) = Some (r', remap', out')" "\<exists>ys. out1 = out @ ys"
    by (auto simp: Option.bind_eq_Some_conv dest!: AddMovesChain_out split: if_splits)
  then show ?case using Cons.IH by fastforce
qed simp

lemma add_cycles_out: "add_cycles ds (g, r, remap, out) = Some (h, r', remap', out') \<Longrightarrow> \<exists>ys. out' = out @ ys"
proof (induction ds arbitrary: g r remap out)
  case (Cons d ds)
  then obtain g1 r1 rm1 out1 where "add_cycles ds (g1, r1, rm1, out1) = Some (h, r', remap', out')" "\<exists>ys. out1 = out @ ys"
    by (fastforce simp: Option.bind_eq_Some_conv dest!: AddMovesChain_out split: if_splits)
  then show ?case using Cons.IH by fastforce
qed simp

text \<open>A value that 256 moves read, from a register that another move writes: the byte of
  \<open>loadsCount_\<close> is zero again, and the resolver takes the register for one that nothing reads.\<close>

definition wide_moves :: "SpillFillData list" where
  "wide_moves = mkSpillFill (Loc REGISTER 1) (Loc REGISTER 0) UINT64
     # mkSpillFill (Loc REGISTER 0) (Loc REGISTER 2) UINT64 # mkSpillFill (Loc REGISTER 0) (Loc REGISTER 3) UINT64
     # map (\<lambda>i. mkSpillFill (Loc REGISTER 0) (Loc STACK i) UINT64) [0..<254]"

definition wide_graph :: "bool \<Rightarrow> RegGraph" where
  "wide_graph nd = demo_graph\<lparr>ndebug := nd, stackSlotsCount := 254\<rparr>"

lemma wide_table: "NewResolver (wide_graph nd) INVALID_REG 32 32 = Some r \<Longrightarrow> table_ok r \<and> vregsTableOffset r = 32
    \<and> slotsTableOffset r = 64 \<and> parameterSlotsOffset r = 318 \<and> locationsCount r = 320"
  using NewResolver_table[of "wide_graph nd" INVALID_REG 32 32 r]
  by (auto simp: NewResolver_def wide_graph_def demo_graph_def Let_def Option.bind_eq_Some_conv)

lemma wide_moves_good:
  assumes "vregsTableOffset r = 32" "slotsTableOffset r = 64" "parameterSlotsOffset r = 318"
  shows "sf \<in> set wide_moves \<Longrightarrow> good_move r sf" and "distinct (map sf_dst wide_moves)"
    and "idx r (Loc REGISTER n) = n" "idx r (Loc STACK n) = n + 64"
proof -
  show "sf \<in> set wide_moves \<Longrightarrow> good_move r sf"
    using assms by (auto simp: wide_moves_def mkSpillFill_def good_move_def in_table_def DstType_def)
  show "distinct (map sf_dst wide_moves)"
    by (auto simp: wide_moves_def mkSpillFill_def distinct_map inj_on_def comp_def)
  show "idx r (Loc REGISTER n) = n" "idx r (Loc STACK n) = n + 64" using assms by (simp_all add: idx_def)
qed

lemma wide_tables:
  assumes c: "collected r wide_moves" and o: "vregsTableOffset r = 32" "slotsTableOffset r = 64" "parameterSlotsOffset r = 318"
    and n: "locationsCount r = 320"
  shows "moves_of r 0 = Some 1" "moves_of r 1 = None" "loadsCount r ! 0 = 0" "loadsCount r ! 1 = 1"
proof -
  note i = wide_moves_good(3,4)[OF o] and m = collected_moves[OF c]
  have plain: "sf \<in> set wide_moves \<Longrightarrow> plain sf" for sf
    by (auto simp: wide_moves_def plain_def same_place_iff mkSpillFill_def DstType_def SrcType_def)
  have mv: "moves_of r d = Some s \<longleftrightarrow> d = 0 \<and> s = 1 \<or> (d = 2 \<or> d = 3 \<or> 64 \<le> d \<and> d < 318) \<and> s = 0" for d s
  proof
    assume "moves_of r d = Some s"
    then show "d = 0 \<and> s = 1 \<or> (d = 2 \<or> d = 3 \<or> 64 \<le> d \<and> d < 318) \<and> s = 0"
      unfolding m by (auto simp: wide_moves_def mkSpillFill_def i)
  next
    assume a: "d = 0 \<and> s = 1 \<or> (d = 2 \<or> d = 3 \<or> 64 \<le> d \<and> d < 318) \<and> s = 0"
    let ?sf = "if d = 0 then mkSpillFill (Loc REGISTER 1) (Loc REGISTER 0) UINT64
        else mkSpillFill (Loc REGISTER 0) (if d < 4 then Loc REGISTER d else Loc STACK (d - 64)) UINT64"
    have "?sf \<in> set wide_moves" using a by (auto simp: wide_moves_def)
    moreover have "idx r (sf_dst ?sf) = d" "idx r (sf_src ?sf) = s" using a by (auto simp: i mkSpillFill_def)
    ultimately show "moves_of r d = Some s" unfolding m using plain by blast
  qed
  show "moves_of r 0 = Some 1" using mv by simp
  show "moves_of r 1 = None" using mv[of 1] by (cases "moves_of r 1") auto
  have l: "\<forall>s < locationsCount r. loadsCount r ! s = of_nat (card (readers (moves_of r) s))"
    using c unfolding collected_def by (elim conjE)
  have "readers (moves_of r) 0 = insert 2 (insert 3 {64..<318})" "readers (moves_of r) 1 = {0}" by (auto simp: readers_def mv)
  then show "loadsCount r ! 0 = 0" "loadsCount r ! 1 = 1" using l n by simp_all
qed

text \<open>The first move it makes overwrites the value, whatever it does afterwards.\<close>

lemma wide_first_move:
  assumes c: "collected r wide_moves" and o: "vregsTableOffset r = 32" "slotsTableOffset r = 64" "parameterSlotsOffset r = 318"
    and n: "locationsCount r = 320" and R: "Reorder g r = Some (h, r', out)"
  shows "\<exists>sf ys. out = sf # ys \<and> sf_src sf = Loc REGISTER 1 \<and> sf_dst sf = Loc REGISTER 0"
proof -
  note w = wide_tables[OF c o n]
  have T: "table_ok r" and pre: "preMoves r = filter early wide_moves" using c by (simp_all add: collected_def)
  have early: "preMoves r = []"
    unfolding pre by (auto simp: wide_moves_def early_def mkSpillFill_def DstType_def filter_empty_conv)
  have len: "length (movesTable r) = 320" "length (loadsCount r) = 320" using T n by (simp_all add: table_ok_def)
  let ?rm = "replicate 320 INVALID_LOCATION_INDEX" and ?m = "movesTable r ! 0"
  let ?out = "[mkSpillFill (Loc REGISTER 1) (Loc REGISTER 0) (regType ?m)]"
  have m0: "move_src ?m = 1" and m1: "move_src (movesTable r ! 1) = INVALID_LOCATION_INDEX"
    using w(1,2) n by (auto simp: moves_of_def split: if_splits)
  have locs: "ToLocation g r 1 = Some (Loc REGISTER 1)" "ToLocation g r 0 = Some (Loc REGISTER 0)"
    using ToLocation_loc[OF T] n o by (simp_all add: loc_def)
  have i: "INVALID_LOCATION_INDEX \<noteq> 1" by (simp add: INVALID_LOCATION_INDEX_def)
  obtain r1 rm1 where step: "chain_step g 0 ?m r ?rm [] = Some (r1, rm1, ?out)"
    "movesTable r1 = (movesTable r)[0 := ?m\<lparr>move_src := INVALID_LOCATION_INDEX\<rparr>]"
    using m0 locs w(4) len
    by (simp add: chain_step_def nth_opt_def AddSpillFill_def MakeLocation_Some ASSERT_def)
  have "AddMovesChain_loop g 0 r ?rm [] = Some (1, r1, rm1, ?out)"
    using step m0 m1 i len by (simp add: AddMovesChain_loop.simps nth_opt_def)
  then have "AddMovesChain False g 0 r ?rm [] = Some (r1, rm1, ?out)"
    using m0 i len by (simp add: AddMovesChain_def nth_opt_def ASSERT_def INVALID_LOCATION_INDEX_def)
  then have "add_tails g (0 # ds) (r, ?rm, []) = add_tails g ds (r1, rm1, ?out)" for ds
    using len m0 i w(3) by (simp add: nth_opt_def)
  moreover have "[0..<to_index (locationsCount r)] = 0 # [1..<320]" by (simp add: to_index_def n upt_rec)
  ultimately obtain r2 rm2 out2 h' r3 rm3 out3 where "add_tails g [1..<320] (r1, rm1, ?out) = Some (r2, rm2, out2)"
    "add_cycles [0..<to_index (locationsCount r)] (g, r2, rm2, out2) = Some (h', r3, rm3, out3)" "out = out3 @ postMoves r3"
    using R early n by (auto simp: Reorder_def Let_def Option.bind_eq_Some_conv)
  then show ?thesis using add_tails_out add_cycles_out by (fastforce simp: mkSpillFill_def)
qed

theorem too_many_readers:
  "\<exists>r. NewResolver (wide_graph nd) INVALID_REG 32 32 = Some r \<and>
    \<not> (\<exists>h r' out. Resolve (wide_graph nd) r wide_moves = Some (h, r', out) \<and>
        (\<forall>\<sigma> :: Location \<Rightarrow> nat. run out \<sigma> (Loc STACK 0) = parallel wide_moves \<sigma> (Loc STACK 0)))"
proof -
  obtain r where new: "NewResolver (wide_graph nd) INVALID_REG 32 32 = Some r"
    by (auto simp: NewResolver_def wide_graph_def demo_graph_def Let_def ASSERT_def INVALID_LOCATION_INDEX_def)
  note t = wide_table[OF new]
  have "run out (\<lambda>l. if l = Loc REGISTER 0 then 1 else 0) (Loc STACK 0) = (0 :: nat)"
    if R: "Resolve (wide_graph nd) r wide_moves = Some (h, r', out)" for h r' out
  proof -
    note g = wide_moves_good[of r]
    obtain r1 where r1: "CollectSpillFillsData (wide_graph nd) wide_moves r = Some r1" "same_layout r r1" "collected r1 wide_moves"
      using CollectSpillFillsData_collected[of r wide_moves "wide_graph nd"] t g(1,2) by blast
    note lay = same_layout_simps[OF r1(2)]
    obtain sf ys where out: "out = sf # ys" "sf_src sf = Loc REGISTER 1" "sf_dst sf = Loc REGISTER 0"
      using wide_first_move[OF r1(3), of "wide_graph nd" h r' out] R r1(1) t lay by (auto simp: Resolve_def)
    have "exec sf (\<lambda>l. if l = Loc REGISTER 0 then 1 else 0) = (\<lambda>_. 0 :: nat)"
      using out(2,3) by (auto simp: exec_def fun_eq_iff)
    moreover have "run ys (\<lambda>_. 0 :: nat) = (\<lambda>_. 0)"
      by (induction ys) (auto simp: exec_def fun_upd_def)
    ultimately show ?thesis by (simp add: out(1))
  qed
  moreover have "parallel wide_moves \<sigma> (Loc STACK 0) = \<sigma> (Loc REGISTER 0)" for \<sigma> :: "Location \<Rightarrow> nat"
    using parallel_at[OF wide_moves_good(2)[of r], of "mkSpillFill (Loc REGISTER 0) (Loc STACK 0) UINT64" \<sigma>] t
    by (auto simp: wide_moves_def mkSpillFill_def)
  ultimately show ?thesis using new by (intro exI[of _ r]) force
qed

end
