(* ===== verification/Leb128.thy ===== *)
theory Leb128
  imports Ark_Prelude
begin

text \<open>
  Bit counting (\<^verbatim>\<open>libarkbase/utils/bit_utils.h\<close>) and the LEB128 codec
  (\<^verbatim>\<open>libarkbase/utils/leb128.h\<close>). An unsigned C++ integer type \<open>T\<close> is \<open>'a word\<close> with
  \<open>'a\<close> its width; a signed one is the same word read by \<open>sint\<close>. A byte pointer is the list of
  the bytes that may be read; a read past its end is the result \<open>None\<close>. The encoders
  return the bytes they write to \<open>out\<close>, whose number is the C++ return value.
\<close>

section \<open>Bit counting\<close>

definition Clz :: "'a::len word \<Rightarrow> nat" where
  "Clz x = length (takeWhile (\<lambda>i. \<not> bit x i) (rev [0..<LENGTH('a)]))"

definition MinimumBitsToStore :: "'a::len word \<Rightarrow> nat" where
  "MinimumBitsToStore value = (if value = 0 then 0 else LENGTH('a) - Clz value)"

section \<open>The codec\<close>

definition PAYLOAD_WIDTH :: nat where "PAYLOAD_WIDTH = 7"
definition PAYLOAD_MASK :: "'a::len word" where "PAYLOAD_MASK = 0x7f"
definition EXTENSION_BIT :: u8 where "EXTENSION_BIT = 0x80"
definition SIGN_BIT :: u8 where "SIGN_BIT = 0x40"

text \<open>The number of bytes that a value of the given width can take.\<close>

definition leb_N :: "nat \<Rightarrow> nat" where
  "leb_N bitwidth = (bitwidth + PAYLOAD_WIDTH - 1) div PAYLOAD_WIDTH"

fun DecodeUnsigned_loop ::
  "nat \<Rightarrow> u8 list \<Rightarrow> nat \<Rightarrow> 'a::len word \<Rightarrow> ('a word \<times> nat \<times> bool) option" where
  "DecodeUnsigned_loop 0 data i result = Some (result, leb_N LENGTH('a), False)"
| "DecodeUnsigned_loop (Suc k) data i result =
     (if i < length data then
        let byte = data ! i AND PAYLOAD_MASK;
            shift = i * PAYLOAD_WIDTH;
            result' = result OR push_bit shift (ucast byte)
        in if data ! i AND EXTENSION_BIT = 0
           then Some (result', i + 1, MinimumBitsToStore byte \<le> LENGTH('a) - shift)
           else DecodeUnsigned_loop k data (i + 1) result'
      else None)"

definition DecodeUnsigned :: "u8 list \<Rightarrow> ('a::len word \<times> nat \<times> bool) option" where
  "DecodeUnsigned data = DecodeUnsigned_loop (leb_N LENGTH('a)) data 0 0"

text \<open>The hand-unrolled specialisation for \<open>uint32_t\<close>.\<close>

definition read_byte :: "u8 list \<Rightarrow> nat \<Rightarrow> u32 option" where
  "read_byte data p = (if p < length data then Some (ucast (data ! p)) else None)"

definition DecodeUnsigned_u32 :: "u8 list \<Rightarrow> (u32 \<times> nat \<times> bool) option" where
  "DecodeUnsigned_u32 data =
     (case read_byte data 0 of None \<Rightarrow> None | Some result \<Rightarrow>
      if result > PAYLOAD_MASK then
        (case read_byte data 1 of None \<Rightarrow> None | Some byte \<Rightarrow>
         let result = (result AND PAYLOAD_MASK) OR push_bit 7 (byte AND PAYLOAD_MASK) in
         if byte \<le> PAYLOAD_MASK then Some (result, 2, True) else
         (case read_byte data 2 of None \<Rightarrow> None | Some byte \<Rightarrow>
          let result = result OR push_bit 14 (byte AND PAYLOAD_MASK) in
          if byte \<le> PAYLOAD_MASK then Some (result, 3, True) else
          (case read_byte data 3 of None \<Rightarrow> None | Some byte \<Rightarrow>
           let result = result OR push_bit 21 (byte AND PAYLOAD_MASK) in
           if byte \<le> PAYLOAD_MASK then Some (result, 4, True) else
           (case read_byte data 4 of None \<Rightarrow> None | Some byte \<Rightarrow>
            let valid = byte < push_bit 4 1;
                result = result OR push_bit 28 byte
            in Some (result, 5, valid)))))
      else Some (result, 1, True))"

fun DecodeSigned_loop ::
  "nat \<Rightarrow> u8 list \<Rightarrow> nat \<Rightarrow> 'a::len word \<Rightarrow> ('a word \<times> nat \<times> bool) option" where
  "DecodeSigned_loop 0 data i result = Some (result, leb_N LENGTH('a), False)"
| "DecodeSigned_loop (Suc k) data i result =
     (if i < length data then
        let byte = data ! i;
            shift = i * PAYLOAD_WIDTH;
            result' = result OR push_bit shift (ucast (byte AND PAYLOAD_MASK))
        in if byte AND EXTENSION_BIT = 0
           then
             let shift = LENGTH('a) - shift;
                 signedExtended = signed_drop_bit 1 (push_bit 1 byte);
                 masked = (signedExtended XOR signed_drop_bit PAYLOAD_WIDTH signedExtended) OR 1;
                 isFull = MinimumBitsToStore masked \<le> shift
             in if shift > PAYLOAD_WIDTH
                then let s = shift - PAYLOAD_WIDTH
                     in Some (signed_drop_bit s (push_bit s result'), i + 1, isFull)
                else Some (result', i + 1, isFull)
           else DecodeSigned_loop k data (i + 1) result'
      else None)"

definition DecodeSigned :: "u8 list \<Rightarrow> ('a::len word \<times> nat \<times> bool) option" where
  "DecodeSigned data = DecodeSigned_loop (leb_N LENGTH('a)) data 0 0"

function EncodeUnsigned_loop :: "u8 \<Rightarrow> 'a::len word \<Rightarrow> u8 list" where
  "EncodeUnsigned_loop byte data =
     (if data \<noteq> 0
      then (byte OR EXTENSION_BIT) #
           EncodeUnsigned_loop (ucast (data AND PAYLOAD_MASK)) (drop_bit PAYLOAD_WIDTH data)
      else [byte])"
  by pat_completeness auto
termination
proof (relation "measure (\<lambda>(b, d). unat d)", goal_cases)
  case (2 byte data)
  then have "unat data div 2 ^ 7 < unat data"
    by (simp add: unat_gt_0)
  then have "unat (drop_bit 7 data) < unat data"
    unfolding unat_drop_bit_eq by (simp only: drop_bit_eq_div)
  then show ?case by (simp add: PAYLOAD_WIDTH_def)
qed simp

definition EncodeUnsigned :: "'a::len word \<Rightarrow> u8 list" where
  "EncodeUnsigned data =
     EncodeUnsigned_loop (ucast (data AND PAYLOAD_MASK)) (drop_bit PAYLOAD_WIDTH data)"

function EncodeSigned :: "'a::len word \<Rightarrow> u8 list" where
  "EncodeSigned data =
     (let byte = ucast ((scast data :: u64) AND PAYLOAD_MASK) :: u8;
          data' = signed_drop_bit PAYLOAD_WIDTH data;
          more = (\<not> (data' = 0 \<and> byte AND SIGN_BIT = 0 \<or> data' = - 1 \<and> byte AND SIGN_BIT \<noteq> 0))
      in if more then (byte OR EXTENSION_BIT) # EncodeSigned data' else [byte])"
  by pat_completeness auto
termination
proof (relation "measure (\<lambda>d. nat \<bar>sint d\<bar>)", goal_cases)
  case (2 data byte data' more)
  have d': "sint data' = sint data div 128"
    using 2 by (simp add: PAYLOAD_WIDTH_def sint_signed_drop_bit_eq drop_bit_eq_div)
  have "data \<noteq> 0" and "data \<noteq> - 1"
    using 2 by (auto simp: PAYLOAD_WIDTH_def PAYLOAD_MASK_def SIGN_BIT_def)
  then have "sint data \<noteq> 0" and "sint data \<noteq> - 1"
    by (metis signed_0 signed_word_eqI, metis signed_minus_1 signed_word_eqI)
  then show ?case using d' by simp
qed simp

definition UnsignedEncodingSize :: "'a::len word \<Rightarrow> nat" where
  "UnsignedEncodingSize data = (MinimumBitsToStore (data OR 1) + PAYLOAD_WIDTH - 1) div PAYLOAD_WIDTH"

definition SignedEncodingSize :: "'a::len word \<Rightarrow> nat" where
  "SignedEncodingSize data =
     (let udata = data XOR signed_drop_bit (LENGTH('a) - 1 - 1) data
      in MinimumBitsToStore (udata OR 1) div PAYLOAD_WIDTH + 1)"

declare EncodeUnsigned_loop.simps [simp del]
declare EncodeSigned.simps [simp del]

section \<open>Bit counting: the value fits in the number of bits it is given\<close>

lemma MinimumBitsToStore_le_iff:
  fixes v :: "'a::len word"
  shows "MinimumBitsToStore v \<le> k \<longleftrightarrow> unat v < 2 ^ k"
proof (cases "v = 0")
  case False
  then show ?thesis
    by (simp add: MinimumBitsToStore_def Clz_def downward_scan_le_iff unat_less_power_iff_bit)
qed (simp add: MinimumBitsToStore_def)

section \<open>Unsigned values: round trip and size\<close>

lemmas leb_defs = PAYLOAD_WIDTH_def PAYLOAD_MASK_def EXTENSION_BIT_def SIGN_BIT_def

lemma EncodeUnsigned_unfold:
  "EncodeUnsigned w =
     (if drop_bit 7 w = 0 then [ucast (w AND 127)]
      else (ucast (w AND 127) OR 128) # EncodeUnsigned (drop_bit 7 w))"
  unfolding EncodeUnsigned_def
  by (subst EncodeUnsigned_loop.simps) (simp add: leb_defs)

lemma bit_128_u8: "bit (128 :: u8) i \<longleftrightarrow> i = 7"
proof -
  have "(128 :: u8) = push_bit 7 1" by simp
  then show ?thesis by (simp only: bit_push_bit_iff bit_1_iff) auto
qed

lemma low_byte_bits:
  "bit (ucast (w AND 127) :: u8) i \<longleftrightarrow> i < 7 \<and> bit w i" for w :: "'a::len word"
  by (auto simp: bit_ucast_iff bit_and_iff bit_127_iff dest: bit_imp_le_length
        simp del: bit_numeral_word_iff)

lemma low_byte_simps [word_norm]:
  fixes w :: "'a::len word"
  defines "b \<equiv> ucast (w AND 127) :: u8"
  shows "b AND 128 = 0" and "b AND 127 = b"
    and "(b OR 128) AND 127 = b" and "(b OR 128) AND 128 = 128"
    and "ucast b = w AND 127"
  unfolding b_def
  by (rule bit_word_eqI;
      auto simp: bit_and_iff bit_or_iff bit_ucast_iff low_byte_bits bit_128_u8 bit_127_iff
        dest: bit_imp_le_length simp del: bit_numeral_word_iff)+

lemma EncodeUnsigned_length_pos: "0 < length (EncodeUnsigned w)"
  by (subst EncodeUnsigned_unfold) simp

lemma drop_bit_7_eq_0_iff: "drop_bit 7 w = 0 \<longleftrightarrow> unat w < 2 ^ 7" for w :: "'a::len word"
proof -
  have "drop_bit 7 w = 0 \<longleftrightarrow> unat (drop_bit 7 w) = 0" by (simp add: unat_eq_0)
  also have "\<dots> \<longleftrightarrow> unat w div 2 ^ 7 = 0"
    unfolding unat_drop_bit_eq by (simp only: drop_bit_eq_div)
  also have "\<dots> \<longleftrightarrow> unat w < 2 ^ 7" by (simp add: div_eq_0_iff)
  finally show ?thesis .
qed

lemma small_low_byte:
  fixes w :: "'a::len word"
  assumes "drop_bit 7 w = 0"
  shows "w AND 127 = w" and "unat (ucast (w AND 127) :: u8) = unat w"
proof -
  have "push_bit 0 (w AND 127) OR push_bit (0 + 7) (drop_bit 7 w) = push_bit 0 w"
    by (rule push_bit_split7)
  with assms show w: "w AND 127 = w" by simp
  from assms have "unat w < 2 ^ 8" by (simp add: drop_bit_7_eq_0_iff)
  then show "unat (ucast (w AND 127) :: u8) = unat w"
    unfolding w by (simp add: unsigned_ucast_eq take_bit_nat_eq_self)
qed

lemma small_byte_simps:
  fixes w :: "'a::len word"
  assumes "drop_bit 7 w = 0"
  shows "(ucast w :: u8) AND 128 = 0" and "(ucast w :: u8) AND 127 = ucast w"
    and "ucast (ucast w :: u8) = w" and "unat (ucast w :: u8) = unat w"
  using low_byte_simps[of w] small_low_byte[OF assms] by simp_all

lemma DecodeUnsigned_loop_last:
  "i < length data \<Longrightarrow> data ! i AND 128 = 0 \<Longrightarrow>
   DecodeUnsigned_loop (Suc k) data i (r :: 'a::len word) =
     Some (r OR push_bit (i * 7) (ucast (data ! i AND 127)), Suc i,
       unat (data ! i AND 127) < 2 ^ (LENGTH('a) - i * 7))"
  by (simp add: leb_defs MinimumBitsToStore_le_iff Let_def)

lemma DecodeUnsigned_loop_ext:
  "i < length data \<Longrightarrow> data ! i AND 128 \<noteq> 0 \<Longrightarrow>
   DecodeUnsigned_loop (Suc k) data i (r :: 'a::len word) =
     DecodeUnsigned_loop k data (Suc i) (r OR push_bit (i * 7) (ucast (data ! i AND 127)))"
  by (simp add: leb_defs)

lemma DecodeUnsigned_loop_end:
  "\<not> i < length data \<Longrightarrow> DecodeUnsigned_loop (Suc k) data i (r :: 'a::len word) = None"
  by simp

declare DecodeUnsigned_loop.simps(2) [simp del]

lemma DecodeUnsigned_loop_Encode:
  fixes w r :: "'a::len word"
  assumes "length pre = i" and "Suc k + i = leb_N LENGTH('a)"
    and "unat w < 2 ^ (LENGTH('a) - i * 7)"
  shows "DecodeUnsigned_loop (Suc k) (pre @ EncodeUnsigned w @ rest) i r =
         Some (r OR push_bit (i * 7) w, i + length (EncodeUnsigned w), True)"
  using assms
proof (induction k arbitrary: pre i r w)
  case (0 pre i r w)
  have "LENGTH('a) - i * 7 \<le> 7"
    using 0(2) by (simp add: leb_N_def PAYLOAD_WIDTH_def)
  then have "unat w < 2 ^ 7"
    using 0(3) by (meson less_le_trans one_le_numeral power_increasing)
  then have d: "drop_bit 7 w = 0" by (simp add: drop_bit_7_eq_0_iff)
  then show ?case
    using 0 small_low_byte[OF d] small_byte_simps[OF d]
    by (subst (1 2) EncodeUnsigned_unfold)
      (simp add: DecodeUnsigned_loop_last nth_append)
next
  case (Suc k pre i r w)
  show ?case
  proof (cases "drop_bit 7 w = 0")
    case True
    then show ?thesis
      using Suc.prems small_low_byte[OF True] small_byte_simps[OF True]
      by (subst (1 2) EncodeUnsigned_unfold)
        (simp add: DecodeUnsigned_loop_last nth_append)
  next
    case False
    let ?b = "ucast (w AND 127) OR 128 :: u8"
    have bound: "unat (drop_bit 7 w) < 2 ^ (LENGTH('a) - Suc i * 7)"
    proof (rule unat_less_drop_bit)
      from False have "\<not> unat w < 2 ^ 7" by (simp add: drop_bit_7_eq_0_iff)
      then have "\<not> LENGTH('a) - i * 7 \<le> 7"
        using Suc.prems(3) by (meson less_le_trans one_le_numeral power_increasing)
      then have "LENGTH('a) - Suc i * 7 + 7 = LENGTH('a) - i * 7" by simp
      then show "unat w < 2 ^ (LENGTH('a) - Suc i * 7 + 7)" using Suc.prems(3) by simp
    qed
    have "DecodeUnsigned_loop (Suc k) ((pre @ [?b]) @ EncodeUnsigned (drop_bit 7 w) @ rest)
            (Suc i) (r OR push_bit (i * 7) (w AND 127)) =
          Some ((r OR push_bit (i * 7) (w AND 127)) OR push_bit (Suc i * 7) (drop_bit 7 w),
            Suc i + length (EncodeUnsigned (drop_bit 7 w)), True)"
      using Suc.prems(1,2) bound by (intro Suc.IH) auto
    moreover have "(r OR push_bit (i * 7) (w AND 127)) OR push_bit (Suc i * 7) (drop_bit 7 w) =
        r OR push_bit (i * 7) w"
      using push_bit_split7[of "i * 7" w] by (simp add: or.assoc add.commute)
    moreover have "EncodeUnsigned w = ?b # EncodeUnsigned (drop_bit 7 w)"
      using False by (subst EncodeUnsigned_unfold) simp
    ultimately show ?thesis
      using Suc.prems(1) by (simp add: DecodeUnsigned_loop_ext nth_append low_byte_simps)
  qed
qed

lemma DecodeUnsigned_Encode:
  "DecodeUnsigned (EncodeUnsigned w @ rest) = Some (w, length (EncodeUnsigned w), True)"
  for w :: "'a::len word"
proof -
  have "7 \<le> 6 + LENGTH('a)" using len_gt_0[where ?'a = 'a] by linarith
  then have "0 < leb_N LENGTH('a)" by (simp add: leb_N_def PAYLOAD_WIDTH_def div_greater_zero_iff)
  then obtain k where "leb_N LENGTH('a) = Suc k" by (cases "leb_N LENGTH('a)") auto
  then show ?thesis
    using DecodeUnsigned_loop_Encode[of "[]" 0 k w rest 0]
    by (simp add: DecodeUnsigned_def)
qed

lemma EncodeUnsigned_length_le_iff:
  "0 < n \<Longrightarrow> length (EncodeUnsigned w) \<le> n \<longleftrightarrow> unat w < 2 ^ (7 * n)" for w :: "'a::len word"
proof (induction n arbitrary: w)
  case (Suc n)
  show ?case
  proof (cases "drop_bit 7 w = 0")
    case True
    then have "unat w < 2 ^ 7" by (simp add: drop_bit_7_eq_0_iff)
    also have "(2::nat) ^ 7 \<le> 2 ^ (7 * Suc n)" by (rule power_increasing) simp_all
    finally show ?thesis using True by (subst EncodeUnsigned_unfold) simp
  next
    case False
    have "length (EncodeUnsigned w) = Suc (length (EncodeUnsigned (drop_bit 7 w)))"
      using False by (subst EncodeUnsigned_unfold) simp
    moreover have "length (EncodeUnsigned (drop_bit 7 w)) \<le> n \<longleftrightarrow> unat (drop_bit 7 w) < 2 ^ (7 * n)"
    proof (cases "n = 0")
      case True
      then show ?thesis using False EncodeUnsigned_length_pos[of "drop_bit 7 w"]
        by (simp add: unat_eq_0)
    qed (use Suc.IH in simp)
    moreover have "unat (drop_bit 7 w) < 2 ^ (7 * n) \<longleftrightarrow> unat w < 2 ^ (7 * Suc n)"
    proof -
      have "unat (drop_bit 7 w) = unat w div 128"
        unfolding unat_drop_bit_eq by (simp only: drop_bit_eq_div) simp
      then show ?thesis by (simp add: div_less_iff_less_mult power_add mult.commute)
    qed
    ultimately show ?thesis by simp
  qed
qed simp

lemma unat_or_1_less_power_iff:
  "0 < n \<Longrightarrow> unat (w OR 1) < 2 ^ n \<longleftrightarrow> unat w < 2 ^ n" for w :: "'a::len word"
  unfolding unat_less_power_iff_bit by (auto simp: bit_or_iff bit_1_iff)

lemma UnsignedEncodingSize_le_iff:
  "0 < n \<Longrightarrow> UnsignedEncodingSize w \<le> n \<longleftrightarrow> unat w < 2 ^ (7 * n)"
proof -
  assume n: "0 < n"
  have "UnsignedEncodingSize w \<le> n \<longleftrightarrow> MinimumBitsToStore (w OR 1) \<le> 7 * n"
    using n by (auto simp: UnsignedEncodingSize_def leb_defs)
  then show ?thesis using n by (simp add: MinimumBitsToStore_le_iff unat_or_1_less_power_iff)
qed

text \<open>Two positive numbers that are below the same positive bounds are equal.\<close>

lemma eq_by_upper_bounds:
  "0 < a \<Longrightarrow> 0 < b \<Longrightarrow> (\<And>n. 0 < n \<Longrightarrow> a \<le> n \<longleftrightarrow> b \<le> (n::nat)) \<Longrightarrow> a = b"
  by (metis le_antisym order_refl)

lemma EncodeUnsigned_length: "length (EncodeUnsigned w) = UnsignedEncodingSize w"
proof (rule eq_by_upper_bounds)
  show "0 < UnsignedEncodingSize w"
  proof (rule ccontr)
    assume "\<not> 0 < UnsignedEncodingSize w"
    then have "MinimumBitsToStore (w OR 1) \<le> 0" by (simp add: UnsignedEncodingSize_def leb_defs)
    then have "w OR 1 = 0" by (simp only: MinimumBitsToStore_le_iff) (simp add: unat_eq_0)
    then have "bit (w OR 1) 0 = False" by simp
    then show False by (simp add: bit_or_iff)
  qed
next
  show "0 < length (EncodeUnsigned w)" by (rule EncodeUnsigned_length_pos)
qed (simp add: EncodeUnsigned_length_le_iff UnsignedEncodingSize_le_iff)

section \<open>The unrolled 32-bit decoder is the generic one\<close>

lemma byte_less_iff:
  fixes b :: u8
  shows "unat b < 128 \<longleftrightarrow> b AND 128 = 0" and "b AND 128 = 0 \<Longrightarrow> b AND 127 = b"
proof -
  have bits: "b AND 128 = 0 \<longleftrightarrow> \<not> bit b 7"
    using and_exp_eq_0_iff_not_bit[of b 7] by simp
  have "unat b < 2 ^ 7 \<longleftrightarrow> \<not> bit b 7"
    unfolding unat_less_power_iff_bit by (auto simp: less_Suc_eq le_less)
  with bits show "unat b < 128 \<longleftrightarrow> b AND 128 = 0" by simp
  show "b AND 127 = b" if "b AND 128 = 0"
  proof (rule bit_word_eqI)
    fix n assume "n < LENGTH(8)"
    then have "n < 7 \<or> n = 7" by auto
    then show "bit (b AND 127) n = bit b n"
      using that unfolding bits
      by (auto simp: bit_and_iff bit_127_iff simp del: bit_numeral_word_iff)
  qed
qed

lemma unat_ucast_u32: "unat (ucast b :: u32) = unat (b :: u8)"
proof -
  have "unat b < 2 ^ 8" using unsigned_less[of b] by simp
  also have "(2::nat) ^ 8 < 2 ^ 32" by simp
  finally show ?thesis by (simp add: unsigned_ucast_eq take_bit_nat_eq_self)
qed

lemma ucast_byte_u32:
  fixes b :: u8
  shows "(ucast b :: u32) \<le> 127 \<longleftrightarrow> b AND 128 = 0"
    and "(ucast b :: u32) AND 127 = ucast (b AND 127)"
    and "push_bit 28 (ucast b :: u32) = push_bit 28 (ucast (b AND 127))"
proof -
  show "(ucast b :: u32) \<le> 127 \<longleftrightarrow> b AND 128 = 0"
    by (simp add: word_le_nat_alt unat_ucast_u32 flip: byte_less_iff(1)) auto
  show "(ucast b :: u32) AND 127 = ucast (b AND 127)"
    by (rule bit_word_eqI) (auto simp: bit_and_iff bit_ucast_iff bit_127_iff simp del: bit_numeral_word_iff)
  show "push_bit 28 (ucast b :: u32) = push_bit 28 (ucast (b AND 127))"
    by (rule bit_word_eqI)
      (auto simp: bit_push_bit_iff bit_and_iff bit_ucast_iff bit_127_iff simp del: bit_numeral_word_iff)
qed

lemma u32_fifth_byte_valid:
  fixes b :: u8
  shows "(ucast b :: u32) < 16 \<longleftrightarrow> b AND 128 = 0 \<and> unat (b AND 127) < 16"
proof -
  have "(ucast b :: u32) < 16 \<longleftrightarrow> unat b < 16"
    by (simp add: word_less_nat_alt unat_ucast_u32)
  then show ?thesis using byte_less_iff[of b] by auto
qed

lemma leb_N_32: "leb_N LENGTH(32) = Suc (Suc (Suc (Suc (Suc 0))))"
  by (simp add: leb_N_def PAYLOAD_WIDTH_def)

lemma case_read_byte:
  "(case read_byte data p of None \<Rightarrow> None | Some byte \<Rightarrow> f byte) =
   (if p < length data then f (ucast (data ! p)) else None)"
  by (simp add: read_byte_def)

lemma DecodeUnsigned_loop_unfold:
  "DecodeUnsigned_loop (Suc k) data i (r :: 'a::len word) =
     (if i < length data then
        if data ! i AND 128 = 0
        then Some (r OR push_bit (i * 7) (ucast (data ! i AND 127)), Suc i,
               unat (data ! i AND 127) < 2 ^ (LENGTH('a) - i * 7))
        else DecodeUnsigned_loop k data (Suc i) (r OR push_bit (i * 7) (ucast (data ! i AND 127)))
      else None)"
  by (simp add: DecodeUnsigned_loop_last DecodeUnsigned_loop_ext DecodeUnsigned_loop_end)

lemma unat_low7_less: "n \<ge> 7 \<Longrightarrow> unat ((b :: u8) AND 127) < 2 ^ n"
  unfolding unat_less_power_iff_bit
  by (auto simp: bit_and_iff bit_127_iff simp del: bit_numeral_word_iff)

lemma DecodeUnsigned_loop_32_last:
  "DecodeUnsigned_loop (Suc 0) data 4 (r :: u32) =
     (if 4 < length data
      then Some (r OR push_bit 28 (ucast (data ! 4)), 5, (ucast (data ! 4) :: u32) < push_bit 4 1)
      else None)"
  using ucast_byte_u32(3)[of "data ! 4"]
  by (simp add: DecodeUnsigned_loop_unfold u32_fifth_byte_valid leb_N_def PAYLOAD_WIDTH_def)

lemma DecodeUnsigned_loop_32_step:
  "i \<le> 3 \<and> j = Suc i \<Longrightarrow> DecodeUnsigned_loop (Suc k) data i (r :: u32) =
     (if i < length data then
        if data ! i AND 128 = 0
        then Some (r OR push_bit (i * 7) (ucast (data ! i AND 127)), j, True)
        else DecodeUnsigned_loop k data j (r OR push_bit (i * 7) (ucast (data ! i AND 127)))
      else None)"
  by (auto simp: DecodeUnsigned_loop_unfold unat_low7_less)

lemma DecodeUnsigned_u32_eq: "DecodeUnsigned_u32 data = DecodeUnsigned data"
proof -
  have gt: "(if (127 :: u32) < ucast b then x else y) = (if b AND 128 = 0 then y else x)"
    for b :: u8 and x y :: "(u32 \<times> nat \<times> bool) option"
    by (simp add: ucast_byte_u32(1) flip: not_le)
  have small: "(if data ! 0 AND 128 = 0 then Some (ucast (data ! 0), 1, True) else x) =
      (if data ! 0 AND 128 = 0 then Some (ucast (data ! 0 AND 127), 1, True) else x)"
    for x :: "(u32 \<times> nat \<times> bool) option"
    by (simp add: byte_less_iff(2))
  have idx: "0 \<le> (3::nat) \<and> 1 = Suc 0" "1 \<le> (3::nat) \<and> 2 = Suc 1"
    "2 \<le> (3::nat) \<and> 3 = Suc 2" "3 \<le> (3::nat) \<and> 4 = Suc 3" by simp_all
  note steps = idx[THEN DecodeUnsigned_loop_32_step]
  show ?thesis
    unfolding DecodeUnsigned_u32_def DecodeUnsigned_def leb_N_32 case_read_byte Let_def
      PAYLOAD_MASK_def gt ucast_byte_u32(1,2) small
    by (simp only: steps DecodeUnsigned_loop_32_last) simp
qed

section \<open>Signed values: round trip and size\<close>

text \<open>\<open>fits_signed n w\<close>: the signed value of \<open>w\<close> needs no more than \<open>n\<close> bits and a sign bit.\<close>

definition fits_signed :: "nat \<Rightarrow> 'a::len word \<Rightarrow> bool" where
  "fits_signed n w \<longleftrightarrow> - (2 ^ n) \<le> sint w \<and> sint w < 2 ^ n"

lemma bit_int_small_signed:
  fixes x :: int
  assumes "- (2 ^ n) \<le> x" "x < 2 ^ n" "n \<le> m"
  shows "bit x m \<longleftrightarrow> x < 0"
proof -
  have "(2::int) ^ n \<le> 2 ^ m" using assms by simp
  with assms have "- (2 ^ m) \<le> x" "x < 2 ^ m" by linarith+
  then have "x div 2 ^ m = (if x < 0 then - 1 else 0)"
    using int_div_pos_eq[of x "2 ^ m" "- 1" "x + 2 ^ m"] by simp
  then show ?thesis by (simp add: bit_iff_odd)
qed

lemma bit_sint_below: "m < LENGTH('a) \<Longrightarrow> bit (sint w) m = bit w m" for w :: "'a::len word"
  by (simp add: bit_sint_iff)

lemma fits_signed_bit:
  fixes w :: "'a::len word"
  assumes "fits_signed n w" "n \<le> m" "m < LENGTH('a)"
  shows "bit w m \<longleftrightarrow> sint w < 0"
  using assms bit_int_small_signed[of n "sint w" m] by (simp add: fits_signed_def bit_sint_below)

lemma sint_sdb7: "sint (signed_drop_bit 7 w) = sint w div 128" for w :: "'a::len word"
  by (simp add: sint_signed_drop_bit_eq drop_bit_eq_div)

lemma fits_signed_sdb7:
  "fits_signed n (signed_drop_bit 7 w) \<longleftrightarrow> fits_signed (n + 7) w" for w :: "'a::len word"
proof -
  have "a \<le> x div 128 \<longleftrightarrow> a * 128 \<le> x" and "x div 128 < a \<longleftrightarrow> x < a * 128" for a x :: int
    by linarith+
  then show ?thesis unfolding fits_signed_def sint_sdb7 power_add by simp
qed

lemma sdb7_const_iff:
  fixes w :: "'a::len word"
  shows "signed_drop_bit 7 w = 0 \<longleftrightarrow> 0 \<le> sint w \<and> sint w < 128"
    and "signed_drop_bit 7 w = - 1 \<longleftrightarrow> - 128 \<le> sint w \<and> sint w < 0"
proof -
  have "signed_drop_bit 7 w = 0 \<longleftrightarrow> sint w div 128 = 0"
    by (metis sint_sdb7 signed_0 signed_word_eqI)
  then show "signed_drop_bit 7 w = 0 \<longleftrightarrow> 0 \<le> sint w \<and> sint w < 128" by presburger
  have "signed_drop_bit 7 w = - 1 \<longleftrightarrow> sint w div 128 = - 1"
    by (metis sint_sdb7 signed_minus_1 signed_word_eqI)
  then show "signed_drop_bit 7 w = - 1 \<longleftrightarrow> - 128 \<le> sint w \<and> sint w < 0" by presburger
qed

lemma low_byte_signed:
  fixes w :: "'a::len word"
  assumes "8 \<le> LENGTH('a)"
  shows "(ucast ((scast w :: u64) AND PAYLOAD_MASK) :: u8) = ucast (w AND 127)"
  using assms
  by (intro bit_word_eqI)
    (auto simp: PAYLOAD_MASK_def low_byte_bits bit_ucast_iff bit_and_iff bit_signed_iff bit_127_iff min_def
       simp del: bit_numeral_word_iff)

lemma low_byte_sign_bit:
  "(ucast (w AND 127) :: u8) AND 64 = 0 \<longleftrightarrow> \<not> bit w 6" for w :: "'a::len word"
  using and_exp_eq_0_iff_not_bit[of "ucast (w AND 127) :: u8" 6] by (simp add: low_byte_bits)

lemma EncodeSigned_stop_iff:
  fixes w :: "'a::len word"
  assumes "8 \<le> LENGTH('a)"
  shows "signed_drop_bit 7 w = 0 \<and> \<not> bit w 6 \<or> signed_drop_bit 7 w = - 1 \<and> bit w 6 \<longleftrightarrow>
    fits_signed 6 w"
proof -
  have "bit w 6 \<longleftrightarrow> odd (sint w div 64)"
    using bit_sint_below[of 6 w] assms by (simp add: bit_iff_odd)
  then show ?thesis
    unfolding sdb7_const_iff fits_signed_def by simp presburger
qed

lemma EncodeSigned_unfold:
  fixes w :: "'a::len word"
  assumes "8 \<le> LENGTH('a)"
  shows "EncodeSigned w =
     (if fits_signed 6 w then [ucast (w AND 127)]
      else (ucast (w AND 127) OR 128) # EncodeSigned (signed_drop_bit 7 w))"
  by (subst EncodeSigned.simps)
    (simp add: Let_def PAYLOAD_WIDTH_def SIGN_BIT_def EXTENSION_BIT_def low_byte_signed[OF assms]
      low_byte_sign_bit EncodeSigned_stop_iff[OF assms, symmetric])

lemma EncodeSigned_length_le_iff:
  fixes w :: "'a::len word"
  assumes "8 \<le> LENGTH('a)"
  shows "length (EncodeSigned w) \<le> Suc n \<longleftrightarrow> fits_signed (7 * n + 6) w"
proof (induction n arbitrary: w)
  case 0
  have "EncodeSigned v \<noteq> []" for v :: "'a word" by (subst EncodeSigned_unfold[OF assms]) simp
  then show ?case by (subst EncodeSigned_unfold[OF assms]) simp
next
  case (Suc n)
  have "fits_signed 6 w \<Longrightarrow> fits_signed (7 * Suc n + 6) w"
    unfolding fits_signed_def
    using power_increasing[of 6 "7 * Suc n + 6" "2::int"] by linarith
  then show ?case
    using Suc[of "signed_drop_bit 7 w"]
    by (subst EncodeSigned_unfold[OF assms]) (simp add: fits_signed_sdb7 ac_simps)
qed


lemma sint_neg_iff_bit: "sint w < 0 \<longleftrightarrow> bit w (LENGTH('a) - 1)" for w :: "'a::len word"
  by (simp add: bit_last_iff)

lemma fits_signed_iff_bits:
  "fits_signed n w \<longleftrightarrow> (\<forall>m < LENGTH('a). n \<le> m \<longrightarrow> bit w m = bit w (LENGTH('a) - 1))"
  for w :: "'a::len word"
proof
  assume fits: "fits_signed n w"
  show "\<forall>m < LENGTH('a). n \<le> m \<longrightarrow> bit w m = bit w (LENGTH('a) - 1)"
    unfolding sint_neg_iff_bit[symmetric] by (intro allI impI fits_signed_bit[OF fits])
next
  assume bits: "\<forall>m < LENGTH('a). n \<le> m \<longrightarrow> bit w m = bit w (LENGTH('a) - 1)"
  have s: "bit (sint w) m = bit w (min m (LENGTH('a) - 1))" for m
    using bit_imp_le_length[of w m] by (cases "m < LENGTH('a)") (simp_all add: bit_sint_iff min_def, blast)
  have "bit (sint w) (min m n) = bit (sint w) m" for m
  proof (cases "m \<le> n")
    case False
    define a b where "a = min n (LENGTH('a) - 1)" and "b = min m (LENGTH('a) - 1)"
    have "bit w a = bit w (LENGTH('a) - 1)" "bit w b = bit w (LENGTH('a) - 1)"
      using bits[rule_format, of a] bits[rule_format, of b] False by (auto simp: a_def b_def min_def)
    then show ?thesis using False by (simp add: s min_absorb2 a_def b_def)
  qed (simp add: min_absorb1)
  then have "signed_take_bit n (sint w) = sint w"
    by (intro bit_eqI) (simp add: bit_signed_take_bit_iff min.commute)
  then show "fits_signed n w"
    by (simp add: fits_signed_def signed_take_bit_int_eq_self_iff)
qed

lemma bit_sign_extend:
  fixes v :: "'a::len word"
  assumes "k < LENGTH('a)"
  shows "bit (signed_drop_bit k (push_bit k v)) m \<longleftrightarrow> m < LENGTH('a) \<and> bit v (min m (LENGTH('a) - 1 - k))"
  using assms
  by (auto simp: bit_signed_drop_bit_iff bit_push_bit_iff min_def dest: bit_imp_le_length)

lemma SignedEncodingSize_le_iff:
  fixes w :: "'a::len word"
  assumes "8 \<le> LENGTH('a)"
  shows "SignedEncodingSize w \<le> Suc n \<longleftrightarrow> fits_signed (7 * n + 6) w"
proof -
  let ?u = "w XOR signed_drop_bit (LENGTH('a) - 1 - 1) w"
  have bits: "bit ?u m \<longleftrightarrow> m < LENGTH('a) \<and> bit w m \<noteq> bit w (LENGTH('a) - 1)" if "0 < m" for m
  proof -
    have "bit (signed_drop_bit (LENGTH('a) - 1 - 1) w) m \<longleftrightarrow> m < LENGTH('a) \<and> bit w (LENGTH('a) - 1)"
      using that assms
      by (cases "m = 1") (auto simp: bit_signed_drop_bit_iff min_def Suc_diff_Suc dest: bit_imp_le_length)
    then show ?thesis by (auto simp: bit_xor_iff dest: bit_imp_le_length)
  qed
  have "SignedEncodingSize w \<le> Suc n \<longleftrightarrow> MinimumBitsToStore (?u OR 1) \<le> 7 * n + 6"
    by (auto simp: SignedEncodingSize_def Let_def PAYLOAD_WIDTH_def)
  also have "\<dots> \<longleftrightarrow> unat ?u < 2 ^ (7 * n + 6)"
    by (simp add: MinimumBitsToStore_le_iff unat_or_1_less_power_iff)
  also have "\<dots> \<longleftrightarrow> (\<forall>m < LENGTH('a). 7 * n + 6 \<le> m \<longrightarrow> bit w m = bit w (LENGTH('a) - 1))"
    unfolding unat_less_power_iff_bit using bits by auto
  also have "\<dots> \<longleftrightarrow> fits_signed (7 * n + 6) w"
    by (simp add: fits_signed_iff_bits)
  finally show ?thesis .
qed

lemma EncodeSigned_length:
  fixes w :: "'a::len word"
  assumes "8 \<le> LENGTH('a)"
  shows "length (EncodeSigned w) = SignedEncodingSize w"
proof -
  have "length (EncodeSigned w) \<noteq> 0" by (subst EncodeSigned_unfold[OF assms]) simp
  moreover have "SignedEncodingSize w \<noteq> 0" by (simp add: SignedEncodingSize_def Let_def)
  ultimately show ?thesis
    by (intro eq_by_upper_bounds)
      (simp_all, metis Suc_pred EncodeSigned_length_le_iff[OF assms] SignedEncodingSize_le_iff[OF assms])
qed

lemma DecodeSigned_loop_ext:
  "i < length data \<Longrightarrow> data ! i AND 128 \<noteq> 0 \<Longrightarrow>
   DecodeSigned_loop (Suc k) data i (r :: 'a::len word) =
     DecodeSigned_loop k data (Suc i) (r OR push_bit (i * 7) (ucast (data ! i AND 127)))"
  by (simp add: leb_defs)

lemma sign_extended_byte:
  fixes w :: "'a::len word"
  assumes "8 \<le> LENGTH('a)" "fits_signed 6 w" "fits_signed (n - 1) w" "0 < n"
  defines "se \<equiv> signed_drop_bit 1 (push_bit 1 (ucast (w AND 127) :: u8))"
  shows "MinimumBitsToStore ((se XOR signed_drop_bit 7 se) OR 1) \<le> n"
proof -
  have se: "bit se m \<longleftrightarrow> m < 8 \<and> bit w (min m 6)" for m
    unfolding se_def by (subst bit_sign_extend) (auto simp: low_byte_bits min_def)
  have sh: "bit (signed_drop_bit 7 se) m \<longleftrightarrow> m < 8 \<and> bit w 6" for m
    by (auto simp: bit_signed_drop_bit_iff se min_def split: if_splits)
  have "bit w (min m 6) = bit w 6" if "n \<le> m" for m
    using that assms(1,4) fits_signed_bit[OF assms(2), of 6] fits_signed_bit[OF assms(3), of m]
    by (auto simp: min_def)
  then have "unat (se XOR signed_drop_bit 7 se) < 2 ^ n"
    unfolding unat_less_power_iff_bit by (auto simp: bit_xor_iff se sh)
  then show ?thesis
    by (simp add: MinimumBitsToStore_le_iff unat_or_1_less_power_iff assms(4))
qed

lemma DecodeSigned_loop_last:
  fixes w r :: "'a::len word"
  assumes W: "8 \<le> LENGTH('a)" and i: "i < length data" "i * 7 < LENGTH('a)"
    and byte: "data ! i = ucast (w AND 127)"
    and fits: "fits_signed 6 w" "fits_signed (LENGTH('a) - i * 7 - 1) w"
    and r: "unat r < 2 ^ (i * 7)"
  shows "DecodeSigned_loop (Suc k) data i r = Some (r OR push_bit (i * 7) w, Suc i, True)"
proof -
  let ?r = "r OR push_bit (i * 7) (w AND 127)"
  let ?n = "LENGTH('a) - i * 7"
  have r0: "\<not> bit r m" if "i * 7 \<le> m" for m
    using r that unfolding unat_less_power_iff_bit by (auto dest: bit_imp_le_length)
  have w6: "bit w m = bit w 6" if "6 \<le> m" "m < LENGTH('a)" for m
    using that W fits_signed_bit[OF fits(1)] by simp
  have ext: "signed_drop_bit (?n - 7) (push_bit (?n - 7) ?r) = r OR push_bit (i * 7) w" if "7 < ?n"
  proof (rule bit_word_eqI)
    fix m assume m: "m < LENGTH('a)"
    have top: "LENGTH('a) - 1 - (?n - 7) = i * 7 + 6" using that by simp
    show "bit (signed_drop_bit (?n - 7) (push_bit (?n - 7) ?r)) m = bit (r OR push_bit (i * 7) w) m"
      using m that r0[of m] r0[of "6 + i * 7"] w6[of "m - i * 7"]
      by (subst bit_sign_extend)
        (auto simp: top min_def bit_or_iff bit_push_bit_iff bit_and_iff bit_127_iff
          simp del: bit_numeral_word_iff)
  qed
  have short: "?r = r OR push_bit (i * 7) w" if "\<not> 7 < ?n"
    using that by (intro bit_word_eqI)
      (auto simp: bit_or_iff bit_push_bit_iff bit_and_iff bit_127_iff simp del: bit_numeral_word_iff)
  have full: "MinimumBitsToStore ((signed_drop_bit 1 (push_bit 1 (ucast (w AND 127) :: u8)) XOR
      signed_drop_bit 7 (signed_drop_bit 1 (push_bit 1 (ucast (w AND 127) :: u8)))) OR 1) \<le> ?n"
    using fits i by (intro sign_extended_byte W) simp_all
  show ?thesis
    unfolding DecodeSigned_loop.simps(2) Let_def leb_defs
    using i full ext short by (simp add: byte low_byte_simps del: push_bit_of_1)
qed

declare DecodeSigned_loop.simps(2) [simp del]

lemma fits_signed_mono: "fits_signed m w \<Longrightarrow> m \<le> n \<Longrightarrow> fits_signed n w"
  unfolding fits_signed_def using power_increasing[of m n "2::int"] by linarith

lemma unat_or_push_less:
  fixes w r :: "'a::len word"
  assumes "unat r < 2 ^ n"
  shows "unat (r OR push_bit n (w AND 127)) < 2 ^ (n + 7)"
  using assms unfolding unat_less_power_iff_bit
  by (auto simp: bit_or_iff bit_push_bit_iff bit_and_iff bit_127_iff simp del: bit_numeral_word_iff)

lemma push_bit_split7_signed:
  fixes w :: "'a::len word"
  shows "push_bit n (w AND 127) OR push_bit (n + 7) (signed_drop_bit 7 w) = push_bit n w"
proof (rule bit_word_eqI)
  fix m assume m: "m < LENGTH('a)"
  show "bit (push_bit n (w AND 127) OR push_bit (n + 7) (signed_drop_bit 7 w)) m = bit (push_bit n w) m"
  proof (cases "n + 7 \<le> m")
    case True
    then have "m - (n + 7) < LENGTH('a) - 7" and "7 + (m - (n + 7)) = m - n" using m by simp_all
    then show ?thesis using m True
      by (auto simp: bit_or_iff bit_push_bit_iff bit_and_iff bit_127_iff bit_signed_drop_bit_iff add.commute
          simp del: bit_numeral_word_iff)
  next
    case False
    then show ?thesis using m
      by (auto simp: bit_or_iff bit_push_bit_iff bit_and_iff bit_127_iff simp del: bit_numeral_word_iff)
  qed
qed

lemma DecodeSigned_loop_Encode:
  fixes w r :: "'a::len word"
  assumes W: "8 \<le> LENGTH('a)"
    and "length pre = i" and "Suc k + i = leb_N LENGTH('a)"
    and "fits_signed (LENGTH('a) - i * 7 - 1) w" and "unat r < 2 ^ (i * 7)"
  shows "DecodeSigned_loop (Suc k) (pre @ EncodeSigned w @ rest) i r =
         Some (r OR push_bit (i * 7) w, i + length (EncodeSigned w), True)"
  using assms(2-5)
proof (induction k arbitrary: pre i r w)
  case (0 pre i r w)
  have "LENGTH('a) - i * 7 - 1 \<le> 6" and i: "i * 7 < LENGTH('a)"
    using 0(2) W by (simp_all add: leb_N_def PAYLOAD_WIDTH_def)
  then have "fits_signed 6 w" using 0(3) fits_signed_mono by blast
  then show ?case
    using 0 i by (simp add: EncodeSigned_unfold[OF W, of w] DecodeSigned_loop_last[OF W] nth_append)
next
  case (Suc k pre i r w)
  have i: "Suc i * 7 < LENGTH('a)"
    using Suc.prems(2) W by (simp add: leb_N_def PAYLOAD_WIDTH_def)
  show ?case
  proof (cases "fits_signed 6 w")
    case True
    then show ?thesis
      using Suc.prems i by (simp add: EncodeSigned_unfold[OF W, of w] DecodeSigned_loop_last[OF W] nth_append)
  next
    case False
    let ?b = "ucast (w AND 127) OR 128 :: u8"
    have "DecodeSigned_loop (Suc k) ((pre @ [?b]) @ EncodeSigned (signed_drop_bit 7 w) @ rest)
            (Suc i) (r OR push_bit (i * 7) (w AND 127)) =
          Some ((r OR push_bit (i * 7) (w AND 127)) OR push_bit (Suc i * 7) (signed_drop_bit 7 w),
            Suc i + length (EncodeSigned (signed_drop_bit 7 w)), True)"
    proof (rule Suc.IH)
      have "LENGTH('a) - Suc i * 7 - 1 + 7 = LENGTH('a) - i * 7 - 1" using i by simp
      then show "fits_signed (LENGTH('a) - Suc i * 7 - 1) (signed_drop_bit 7 w)"
        using Suc.prems(3) by (simp only: fits_signed_sdb7)
      show "unat (r OR push_bit (i * 7) (w AND 127)) < 2 ^ (Suc i * 7)"
        using unat_or_push_less[OF Suc.prems(4)] by (simp add: add.commute)
    qed (use Suc.prems(1,2) in simp_all)
    moreover have "(r OR push_bit (i * 7) (w AND 127)) OR push_bit (Suc i * 7) (signed_drop_bit 7 w) =
        r OR push_bit (i * 7) w"
      using push_bit_split7_signed[of "i * 7" w] by (simp add: or.assoc add.commute)
    moreover have "EncodeSigned w = ?b # EncodeSigned (signed_drop_bit 7 w)"
      using False by (simp add: EncodeSigned_unfold[OF W, of w])
    ultimately show ?thesis
      using Suc.prems(1) by (simp add: DecodeSigned_loop_ext nth_append low_byte_simps)
  qed
qed

lemma DecodeSigned_Encode:
  fixes w :: "'a::len word"
  assumes W: "8 \<le> LENGTH('a)"
  shows "DecodeSigned (EncodeSigned w @ rest) = Some (w, length (EncodeSigned w), True)"
proof -
  obtain k where k: "leb_N LENGTH('a) = Suc k"
    using W by (cases "leb_N LENGTH('a)") (auto simp: leb_N_def PAYLOAD_WIDTH_def)
  have "fits_signed (LENGTH('a) - 1) w" 
    using sint_range_size[of w] by (simp add: fits_signed_def word_size)
  then show ?thesis
    using DecodeSigned_loop_Encode[OF W, of "[]" 0 k w 0 rest] k
    by (simp add: DecodeSigned_def)
qed

section \<open>What a complete decoding returns\<close>

text \<open>The number a little-endian sequence of 7-bit groups denotes.\<close>

fun payload_value :: "u8 list \<Rightarrow> nat" where
  "payload_value [] = 0"
| "payload_value (b # bs) = unat (b AND 127) + 128 * payload_value bs"

lemma unat_or_push_bit:
  fixes r x :: "'a::len word"
  assumes r: "unat r < 2 ^ n" and x: "unat x < 2 ^ (LENGTH('a) - n)"
  shows "unat (r OR push_bit n x) = unat r + 2 ^ n * unat x"
proof (cases "n < LENGTH('a)")
  case True
  have "unat (push_bit n x) = take_bit LENGTH('a) (2 ^ n * unat x)"
    unfolding unsigned_push_bit_eq by (simp add: push_bit_eq_mult mult.commute)
  also have "\<dots> = 2 ^ n * unat x"
  proof (rule take_bit_nat_eq_self)
    have "2 ^ n * unat x < 2 ^ n * 2 ^ (LENGTH('a) - n)" using x by simp
    then show "2 ^ n * unat x < 2 ^ LENGTH('a)" using True by (simp flip: power_add)
  qed
  finally have px: "unat (push_bit n x) = 2 ^ n * unat x" .
  have "r OR push_bit n x = r + push_bit n x"
    using r unfolding unat_less_power_iff_bit
    by (intro disjunctive_add[symmetric]) (auto simp: bit_push_bit_iff dest: bit_imp_le_length)
  moreover have "unat r + unat (push_bit n x) < 2 ^ LENGTH('a)"
  proof -
    have "2 ^ n * Suc (unat x) \<le> 2 ^ n * 2 ^ (LENGTH('a) - n)"
      by (rule mult_le_mono2) (use x in simp)
    then show ?thesis using r px True by (simp flip: power_add)
  qed
  ultimately show ?thesis using px by (simp add: unat_word_ariths(1))
next
  case False
  then have "x = 0" using x by (simp add: unat_eq_0)
  then show ?thesis by simp
qed

lemma unat_ucast_byte:
  "8 \<le> LENGTH('a) \<Longrightarrow> unat (ucast b :: 'a::len word) = unat (b :: u8)"
  using unsigned_less[of b, where ?'a = nat] power_increasing[of 8 "LENGTH('a)" "2::nat"]
  by (simp add: unsigned_ucast_eq take_bit_nat_eq_self_iff)

lemma DecodeUnsigned_loop_value:
  fixes r w :: "'a::len word"
  assumes W: "8 \<le> LENGTH('a)"
    and "DecodeUnsigned_loop k data i r = Some (w, n, True)"
    and "k + i = leb_N LENGTH('a)" and "unat r < 2 ^ (i * 7)"
  shows "i < n \<and> n \<le> length data \<and> data ! (n - 1) AND 128 = 0 \<and>
    unat w = unat r + 2 ^ (i * 7) * payload_value (take (n - i) (drop i data))"
  using assms(2-4)
proof (induction k arbitrary: i r)
  case (Suc k i r)
  from Suc.prems(1) have i: "i < length data" by (auto simp: DecodeUnsigned_loop_unfold split: if_splits)
  note d = Cons_nth_drop_Suc[OF i, symmetric]
  let ?b = "data ! i AND 127"
  show ?case
  proof (cases "data ! i AND 128 = 0")
    case True
    with Suc.prems(1) i have "unat ?b < 2 ^ (LENGTH('a) - i * 7)"
        and w: "w = r OR push_bit (i * 7) (ucast ?b)" "n = Suc i"
      by (auto simp: DecodeUnsigned_loop_unfold)
    then have "unat w = unat r + 2 ^ (i * 7) * unat ?b"
      using Suc.prems(3) by (simp add: unat_or_push_bit unat_ucast_byte[OF W])
    then show ?thesis using i w(2) True by (simp add: d)
  next
    case False
    then have loop: "DecodeUnsigned_loop k data (Suc i) (r OR push_bit (i * 7) (ucast ?b)) = Some (w, n, True)"
      using Suc.prems(1) i by (simp add: DecodeUnsigned_loop_unfold)
    then have "k \<noteq> 0" by (cases k) auto
    then have len: "7 \<le> LENGTH('a) - i * 7"
      using Suc.prems(2) by (simp add: leb_N_def PAYLOAD_WIDTH_def)
    then have "unat ?b < 2 ^ (LENGTH('a) - i * 7)" by (rule unat_low7_less)
    then have r': "unat (r OR push_bit (i * 7) (ucast ?b)) = unat r + 2 ^ (i * 7) * unat ?b"
      using Suc.prems(3) by (simp add: unat_or_push_bit unat_ucast_byte[OF W])
    have "unat ?b < 2 ^ 7" by (rule unat_low7_less) simp
    then have "2 ^ (i * 7) * Suc (unat ?b) \<le> 2 ^ (i * 7) * 2 ^ 7"
      by (intro mult_le_mono2) (simp only: Suc_le_eq)
    then have "unat r + 2 ^ (i * 7) * unat ?b < 2 ^ (i * 7) * 2 ^ 7"
      using Suc.prems(3) unfolding mult_Suc_right by linarith
    then have "unat (r OR push_bit (i * 7) (ucast ?b)) < 2 ^ (Suc i * 7)"
      unfolding r' by (simp only: mult_Suc power_add mult.commute)
    note ih = Suc.IH[OF loop _ this]
    then have "n - i = Suc (n - Suc i)" using Suc.prems(2) by auto
    with ih show ?thesis using Suc.prems(2) by (simp add: d r' power_add algebra_simps)
  qed
qed simp

lemma DecodeUnsigned_value:
  fixes w :: "'a::len word"
  assumes "8 \<le> LENGTH('a)" and "DecodeUnsigned data = Some (w, n, True)"
  shows "0 < n \<and> n \<le> length data \<and> data ! (n - 1) AND 128 = 0 \<and> unat w = payload_value (take n data)"
  using DecodeUnsigned_loop_value[OF assms(1) assms(2)[unfolded DecodeUnsigned_def]] by simp

section \<open>Codecs\<close>

text \<open>What the readers of the file format rely on: decoding takes back exactly the bytes that
  encoding wrote, whatever follows them, and the size is known without encoding.\<close>

locale codec =
  fixes encode :: "'v \<Rightarrow> u8 list"
    and decode :: "u8 list \<Rightarrow> ('v \<times> nat \<times> bool) option"
    and encoding_size :: "'v \<Rightarrow> nat"
  assumes decode_encode: "decode (encode v @ rest) = Some (v, length (encode v), True)"
    and encode_length: "length (encode v) = encoding_size v"
begin

lemma encode_prefix_free:
  "encode v @ rest = encode v' @ rest' \<Longrightarrow> v = v' \<and> rest = rest'"
  using decode_encode[of v rest] decode_encode[of v' rest'] by auto

lemma inj_encode: "inj encode"
  by (rule injI, rule encode_prefix_free[of _ "[]" _ "[]", THEN conjunct1]) simp

lemma decode_size: "decode (encode v @ rest) = Some (v, encoding_size v, True)"
  by (simp add: decode_encode encode_length)

lemma encode_seq_inj:
  "length vs = length vs' \<Longrightarrow> concat (map encode vs) @ rest = concat (map encode vs') @ rest' \<Longrightarrow>
   vs = vs' \<and> rest = rest'"
proof (induction vs vs' rule: list_induct2)
  case (Cons v vs v' vs')
  then show ?case using encode_prefix_free[of v "concat (map encode vs) @ rest" v'] by auto
qed simp

end

interpretation uleb: codec EncodeUnsigned DecodeUnsigned UnsignedEncodingSize
  by unfold_locales (rule DecodeUnsigned_Encode, rule EncodeUnsigned_length)

interpretation sleb32: codec "EncodeSigned :: u32 \<Rightarrow> u8 list" DecodeSigned SignedEncodingSize
  by unfold_locales (simp_all add: DecodeSigned_Encode EncodeSigned_length)

interpretation sleb64: codec "EncodeSigned :: u64 \<Rightarrow> u8 list" DecodeSigned SignedEncodingSize
  by unfold_locales (simp_all add: DecodeSigned_Encode EncodeSigned_length)

section \<open>Properties\<close>

text \<open>C12: decoding the encoding of an unsigned value, followed by any further bytes, returns that
  value, consumes exactly \<open>UnsignedEncodingSize\<close> bytes and reports that nothing was cut off.\<close>

theorem leb128_unsigned_roundtrip:
  "DecodeUnsigned (EncodeUnsigned w @ rest) = Some (w, UnsignedEncodingSize w, True)"
  for w :: "'a::len word"
  by (rule uleb.decode_size)

text \<open>C13: the same for signed values of at least 8 bits: the encoder stops exactly when the rest of
  the value is the sign of the last group, so the sign extension of the decoder restores it.\<close>

theorem leb128_signed_roundtrip:
  fixes w :: "'a::len word"
  assumes "8 \<le> LENGTH('a)"
  shows "DecodeSigned (EncodeSigned w @ rest) = Some (w, SignedEncodingSize w, True)"
  using DecodeSigned_Encode[OF assms] EncodeSigned_length[OF assms] by simp

theorem leb128_signed_roundtrip_witness:
  "(8::nat) \<le> LENGTH(32) \<and>
   DecodeSigned (EncodeSigned (- 300 :: u32) @ [7]) = Some (- 300 :: u32, SignedEncodingSize (- 300 :: u32), True)"
  using leb128_signed_roundtrip[of "- 300 :: u32" "[7]"] by simp

text \<open>C39: the hand-unrolled decoder for \<open>uint32_t\<close> agrees with the generic one on every input, the
  truncated and the overlong ones included.\<close>

theorem leb128_u32_unrolled: "DecodeUnsigned_u32 data = DecodeUnsigned data"
  by (rule DecodeUnsigned_u32_eq)

text \<open>whenever the decoder reports a complete value, canonical or not, that value is the number
  that the consumed 7-bit groups denote, and the last consumed byte ends the sequence.\<close>

theorem leb128_complete_is_exact:
  fixes w :: "'a::len word"
  assumes "8 \<le> LENGTH('a)" and "DecodeUnsigned data = Some (w, n, True)"
  shows "unat w = payload_value (take n data) \<and> 0 < n \<and> n \<le> length data \<and>
    data ! (n - 1) AND EXTENSION_BIT = 0"
  using DecodeUnsigned_value[OF assms] by (simp add: EXTENSION_BIT_def)

theorem leb128_complete_is_exact_witness:
  "(8::nat) \<le> LENGTH(32) \<and>
   DecodeUnsigned [0x83, 0x80, 0x01, 0x55] = Some (0x4003 :: u32, 3, True) \<and>
   payload_value (take 3 [0x83, 0x80, 0x01, 0x55]) = 0x4003"
proof -
  have l: "(8::nat) \<le> LENGTH(32)" by simp
  have d: "DecodeUnsigned [0x83, 0x80, 0x01, 0x55] = Some (0x4003 :: u32, 3, True)" by code_simp
  from leb128_complete_is_exact[OF l d] l d show ?thesis by simp
qed

text \<open>no encoding is a prefix of another one, so a sequence of encoded values can be cut in one
  way only: two sequences of equally many values with the same bytes are the same values.\<close>

theorem leb128_sequence_unique:
  assumes "length vs = length vs'"
    and "concat (map EncodeUnsigned vs) @ rest = concat (map EncodeUnsigned vs') @ rest'"
  shows "vs = vs' \<and> rest = rest'"
  using assms by (rule uleb.encode_seq_inj)

theorem leb128_sequence_unique_witness:
  "concat (map EncodeUnsigned [300 :: u32, 1]) @ [9] = [172, 2, 1, 9] \<and>
   [300 :: u32, 1] = [300, 1] \<and> [9 :: u8] = [9]"
  using leb128_sequence_unique[of "[300 :: u32, 1]" "[300, 1]" "[9]" "[9]"] by code_simp

text \<open>\<open>MinimumBitsToStore\<close> is the smallest number of bits that holds the value.\<close>

theorem MinimumBitsToStore_correct: "MinimumBitsToStore v \<le> k \<longleftrightarrow> unat v < 2 ^ k"
  for v :: "'a::len word"
  by (rule MinimumBitsToStore_le_iff)

text \<open>the completeness flag of the signed decoder is too generous in the last byte. The five bytes
  below denote \<open>2 ^ 31\<close>, which no \<open>int32_t\<close> holds; the decoder returns the smallest negative number
  and reports a complete value.\<close>

theorem leb128_signed_flag_counterexample:
  "DecodeSigned [0x80, 0x80, 0x80, 0x80, 0x08] = Some (0x80000000 :: u32, 5, True) \<and>
   payload_value [0x80, 0x80, 0x80, 0x80, 0x08] = 0x80000000 \<and>
   sint (0x80000000 :: u32) = - 0x80000000"
proof (intro conjI)
  show "DecodeSigned [0x80, 0x80, 0x80, 0x80, 0x08] = Some (0x80000000 :: u32, 5, True)"
    by code_simp
  show "payload_value [0x80, 0x80, 0x80, 0x80, 0x08] = 0x80000000" by simp
  show "sint (0x80000000 :: u32) = - 0x80000000" by simp
qed

end
