(* ===== verification/Emitter.thy ===== *)
theory Emitter
  imports Leb128 "HOL-Library.Monad_Syntax"
begin

text \<open>
  The bytecode emitter (\<^verbatim>\<open>libarkfile/bytecode_emitter.h\<close>, \<^verbatim>\<open>bytecode_emitter.cpp\<close> and the functions
  that \<^verbatim>\<open>templates/bytecode_emitter_gen.h.erb\<close> generates from \<^verbatim>\<open>isa/isa.yaml\<close>). A \<open>uint32_t\<close> is a
  natural number below $2^{32}$ and an \<open>int32_t\<close> an integer, with the wrap-around written out. A \<open>Label\<close>
  is an iterator into the list of program counters: the index of its cell in \<open>pcList\<close>. The ordered
  map \<open>branches_\<close> is the list of its entries by increasing key, and the ordered multiset
  \<open>targets_\<close> the list of its labels, ordered by the cells they point to. The result \<open>None\<close> stands for
  \<open>UNREACHABLE\<close> and for an access outside a buffer.
\<close>

section \<open>Integers\<close>

definition to_u32 :: "int \<Rightarrow> nat" where "to_u32 x = nat (x mod 2 ^ 32)"
definition to_i32 :: "int \<Rightarrow> int" where "to_i32 x = signed_take_bit 31 x"

section \<open>Formats and jumps of the instruction set\<close>

datatype BitImmSize = BITSIZE_4 | BITSIZE_8 | BITSIZE_16 | BITSIZE_32

fun imm_index :: "BitImmSize \<Rightarrow> nat" where
  "imm_index BITSIZE_4 = 0"
| "imm_index BITSIZE_8 = 1"
| "imm_index BITSIZE_16 = 2"
| "imm_index BITSIZE_32 = 3"

lemma imm_index_inject [simp]: "imm_index a = imm_index b \<longleftrightarrow> a = b"
  by (cases a; cases b) simp_all

instantiation BitImmSize :: linorder
begin

definition less_eq_BitImmSize :: "BitImmSize \<Rightarrow> BitImmSize \<Rightarrow> bool" where
  "less_eq_BitImmSize a b \<longleftrightarrow> imm_index a \<le> imm_index b"

definition less_BitImmSize :: "BitImmSize \<Rightarrow> BitImmSize \<Rightarrow> bool" where
  "less_BitImmSize a b \<longleftrightarrow> imm_index a < imm_index b"

instance by standard (auto simp: less_eq_BitImmSize_def less_BitImmSize_def)

end

lemmas BitImmSize_order = less_eq_BitImmSize_def less_BitImmSize_def

text \<open>An encoding format: whether the opcode has a prefix byte, and the width in bits of the operand
  fields in order; an \<open>Imm\<close> field is signed, a \<open>Reg\<close> or \<open>Ident\<close> field is not.\<close>

datatype OperandKind = Reg | Imm | Ident

record Format =
  prefixed :: bool
  operands :: "(OperandKind \<times> nat) list"

definition fmt_size :: "Format \<Rightarrow> nat" where
  "fmt_size f = sum_list (map snd (operands f)) div 8 + (if prefixed f then 2 else 1)"

fun field_offsets :: "nat \<Rightarrow> (OperandKind \<times> nat) list \<Rightarrow> nat list" where
  "field_offsets offset [] = []"
| "field_offsets offset (x # xs) = offset # field_offsets (offset + snd x) xs"

definition OFF :: "Format \<Rightarrow> nat list" where
  "OFF f = 0 # field_offsets (if prefixed f then 16 else 8) (operands f) @ [fmt_size f * 8]"

definition F_IMM8 :: Format where "F_IMM8 = \<lparr>prefixed = False, operands = [(Imm, 8)]\<rparr>"
definition F_IMM16 :: Format where "F_IMM16 = \<lparr>prefixed = False, operands = [(Imm, 16)]\<rparr>"
definition F_IMM32 :: Format where "F_IMM32 = \<lparr>prefixed = False, operands = [(Imm, 32)]\<rparr>"
definition F_V8_IMM8 :: Format where "F_V8_IMM8 = \<lparr>prefixed = False, operands = [(Reg, 8), (Imm, 8)]\<rparr>"
definition F_V8_IMM16 :: Format where "F_V8_IMM16 = \<lparr>prefixed = False, operands = [(Reg, 8), (Imm, 16)]\<rparr>"

lemmas formats = F_IMM8_def F_IMM16_def F_IMM32_def F_V8_IMM8_def F_V8_IMM16_def

text \<open>The instructions with the property \<open>jump\<close>, by mnemonic; all but \<open>JMP\<close> are conditional.\<close>

datatype Mnemonic = JMP | JEQ_OBJ | JNE_OBJ | JEQZ_OBJ | JNEZ_OBJ | JEQZ | JNEZ | JLTZ | JGTZ | JLEZ | JGEZ
  | JEQ | JNE | JLT | JGT | JLE | JGE

definition mnemonics :: "Mnemonic list" where
  "mnemonics = [JMP, JEQ_OBJ, JNE_OBJ, JEQZ_OBJ, JNEZ_OBJ, JEQZ, JNEZ, JLTZ, JGTZ, JLEZ, JGEZ, JEQ, JNE, JLT, JGT, JLE, JGE]"

fun opcode_idx :: "Mnemonic \<Rightarrow> nat list" where
  "opcode_idx JMP = [0x22, 0x23, 0x24]"
| "opcode_idx JEQ_OBJ = [0x25, 0x26]"
| "opcode_idx JNE_OBJ = [0x27, 0x28]"
| "opcode_idx JEQZ_OBJ = [0x29, 0x2a]"
| "opcode_idx JNEZ_OBJ = [0x2b, 0x2c]"
| "opcode_idx JEQZ = [0x2d, 0x2e]"
| "opcode_idx JNEZ = [0x2f, 0x30]"
| "opcode_idx JLTZ = [0x31, 0x32]"
| "opcode_idx JGTZ = [0x33, 0x34]"
| "opcode_idx JLEZ = [0x35, 0x36]"
| "opcode_idx JGEZ = [0x37, 0x38]"
| "opcode_idx JEQ = [0x39, 0x3a]"
| "opcode_idx JNE = [0x3b, 0x3c]"
| "opcode_idx JLT = [0x3d, 0x3e]"
| "opcode_idx JGT = [0x3f, 0x40]"
| "opcode_idx JLE = [0x41, 0x42]"
| "opcode_idx JGE = [0x43, 0x44]"

definition has_vreg :: "Mnemonic \<Rightarrow> bool" where
  "has_vreg m \<longleftrightarrow> m \<in> {JEQ_OBJ, JNE_OBJ, JEQ, JNE, JLT, JGT, JLE, JGE}"

definition jump_formats :: "Mnemonic \<Rightarrow> Format list" where
  "jump_formats m =
     (if m = JMP then [F_IMM8, F_IMM16, F_IMM32] else if has_vreg m then [F_V8_IMM8, F_V8_IMM16] else [F_IMM8, F_IMM16])"

text \<open>The instructions of one mnemonic, by increasing opcode: opcode and format.\<close>

type_synonym group = "(nat \<times> Format) list"

definition jump_group :: "Mnemonic \<Rightarrow> group" where
  "jump_group m = zip (opcode_idx m) (jump_formats m)"

definition JMP_IMM32 :: nat where "JMP_IMM32 = 0x24"

text \<open>A switch over the opcodes of the jumps: the mnemonic and the place in its group. Every other opcode
  reaches \<open>UNREACHABLE\<close>.\<close>

fun index_of :: "nat \<Rightarrow> nat list \<Rightarrow> nat option" where
  "index_of x [] = None"
| "index_of x (y # ys) = (if x = y then Some 0 else map_option Suc (index_of x ys))"

fun switch_jump :: "Mnemonic list \<Rightarrow> nat \<Rightarrow> (Mnemonic \<times> nat) option" where
  "switch_jump [] opcode = None"
| "switch_jump (m # ms) opcode = (case index_of opcode (opcode_idx m) of Some k \<Rightarrow> Some (m, k) | None \<Rightarrow> switch_jump ms opcode)"

definition jump_of :: "nat \<Rightarrow> (Mnemonic \<times> nat) option" where
  "jump_of opcode = switch_jump mnemonics opcode"

section \<open>Widths\<close>

definition GetBitLengthUnsigned :: "int \<Rightarrow> BitImmSize" where
  "GetBitLengthUnsigned val =
     (let bitlen = MinimumBitsToStore (word_of_int val :: u32) in
      if bitlen \<le> 4 then BITSIZE_4 else if bitlen \<le> 8 then BITSIZE_8 else BITSIZE_16)"

definition GetBitLengthSigned :: "int \<Rightarrow> BitImmSize" where
  "GetBitLengthSigned val =
     (if -8 \<le> val \<and> val \<le> 7 then BITSIZE_4
      else if -128 \<le> val \<and> val \<le> 127 then BITSIZE_8
      else if -32768 \<le> val \<and> val \<le> 32767 then BITSIZE_16
      else BITSIZE_32)"

definition imm_size :: "nat \<Rightarrow> BitImmSize" where
  "imm_size width = (if width = 4 then BITSIZE_4 else if width = 8 then BITSIZE_8 else if width = 16 then BITSIZE_16 else BITSIZE_32)"

section \<open>Writing and reading instructions\<close>

definition store :: "u8 list \<Rightarrow> nat \<Rightarrow> u8 list \<Rightarrow> u8 list option" where
  "store buf i bs = (if i + length bs \<le> length buf then Some (take i buf @ bs @ drop (i + length bs) buf) else None)"

fun EmitImpl :: "u8 list \<Rightarrow> nat list \<Rightarrow> int list \<Rightarrow> u8 list option" where
  "EmitImpl buf offsets [] = Some buf"
| "EmitImpl buf (offset # next # offsets) (arg # args) =
    (let bitlen = next - offset; byteOffset = offset div 8; bitOffset = offset mod 8;
       buf' =
        (if bitlen = 4 then
           (case nth_opt buf byteOffset of None \<Rightarrow> None
            | Some b \<Rightarrow> store buf byteOffset [b OR push_bit bitOffset ((word_of_int arg :: u8) AND 0xF)])
         else if bitlen = 8 then store buf byteOffset [word_of_int arg]
         else if bitlen = 16 then
           (let val = word_of_int arg :: u16 in store buf byteOffset [ucast (val AND 0xFF), ucast (drop_bit 8 val)])
         else if bitlen = 32 then
           (let val = word_of_int arg :: u32 in store buf byteOffset (map (\<lambda>i. ucast (drop_bit (i * 8) val AND 0xFF)) [0..<4]))
         else if bitlen = 64 then
           (let val = word_of_int arg :: u64 in store buf byteOffset (map (\<lambda>i. ucast (drop_bit (i * 8) val AND 0xFF)) [0..<8]))
         else None)
     in case buf' of None \<Rightarrow> None | Some b \<Rightarrow> EmitImpl b (next # offsets) args)"
| "EmitImpl buf offsets (arg # args) = None"

text \<open>\<open>Emit\<close> returns the bytes it copies to \<open>out\<close>; their number is its C++ result.\<close>

definition Emit :: "Format \<Rightarrow> int list \<Rightarrow> u8 list option" where
  "Emit f args = EmitImpl (replicate (fmt_size f) 0) (OFF f) args"

text \<open>The least first byte of a prefixed opcode, which \<^verbatim>\<open>bytecode_instruction-inl_gen.h.erb\<close> takes from the
  prefixes of the instruction set: \<^verbatim>\<open>isa/isa.yaml\<close> declares \<open>0xeb\<close> to \<open>0xef\<close>. This is the base instruction set, with
  no prefix of a plugin.\<close>

definition min_prefix :: nat where "min_prefix = 0xeb"

definition GetOpcode :: "u8 list \<Rightarrow> nat \<Rightarrow> nat option" where
  "GetOpcode code at =
    (case nth_opt code at of None \<Rightarrow> None
     | Some primary \<Rightarrow>
        if min_prefix \<le> unat primary then map_option (\<lambda>secondary. unat secondary * 256 + unat primary) (nth_opt code (at + 1))
        else Some (unat primary))"

text \<open>The operand of \<open>width\<close> bits at bit \<open>offset\<close> of the instruction at \<open>at\<close>.\<close>

definition ReadField :: "u8 list \<Rightarrow> nat \<Rightarrow> nat \<Rightarrow> nat \<Rightarrow> nat option" where
  "ReadField code at offset width =
    (let byteoffset = offset div 8; bytecount = (offset + width + 7) div 8 - byteoffset in
     if at + byteoffset + bytecount \<le> length code then
       Some (take_bit width (drop_bit (offset mod 8)
         (foldr (\<lambda>b v. unat b + 256 * v) (take bytecount (drop (at + byteoffset) code)) 0)))
     else None)"

definition ReadSigned :: "u8 list \<Rightarrow> nat \<Rightarrow> nat \<Rightarrow> nat \<Rightarrow> int option" where
  "ReadSigned code at offset width = map_option (\<lambda>v. signed_take_bit (width - 1) (int v)) (ReadField code at offset width)"

section \<open>Choosing among the jumps of a group\<close>

definition GetSizeByOpcode :: "nat \<Rightarrow> nat option" where
  "GetSizeByOpcode opcode = map_option (\<lambda>(m, k). fmt_size (snd (jump_group m ! k))) (jump_of opcode)"

text \<open>The width of the immediate, which is the last operand of every jump.\<close>

definition imm_width :: "Format \<Rightarrow> nat" where "imm_width f = snd (last (operands f))"

definition GetBitImmSizeByOpcode :: "nat \<Rightarrow> BitImmSize option" where
  "GetBitImmSizeByOpcode opcode = map_option (\<lambda>(m, k). imm_size (imm_width (snd (jump_group m ! k)))) (jump_of opcode)"

fun CC_INVERTER :: "Mnemonic \<Rightarrow> Mnemonic option" where
  "CC_INVERTER JMP = None"
| "CC_INVERTER JEQ_OBJ = Some JNE_OBJ"
| "CC_INVERTER JNE_OBJ = Some JEQ_OBJ"
| "CC_INVERTER JEQZ_OBJ = Some JNEZ_OBJ"
| "CC_INVERTER JNEZ_OBJ = Some JEQZ_OBJ"
| "CC_INVERTER JEQZ = Some JNEZ"
| "CC_INVERTER JNEZ = Some JEQZ"
| "CC_INVERTER JLTZ = Some JGEZ"
| "CC_INVERTER JGTZ = Some JLEZ"
| "CC_INVERTER JLEZ = Some JGTZ"
| "CC_INVERTER JGEZ = Some JLTZ"
| "CC_INVERTER JEQ = Some JNE"
| "CC_INVERTER JNE = Some JEQ"
| "CC_INVERTER JLT = Some JGE"
| "CC_INVERTER JGT = Some JLE"
| "CC_INVERTER JLE = Some JGT"
| "CC_INVERTER JGE = Some JLT"

text \<open>\<open>Opcode::LAST\<close> is not the opcode of a jump.\<close>

datatype JumpOp = Op nat | LAST

definition RevertConditionCode :: "nat \<Rightarrow> JumpOp option" where
  "RevertConditionCode opcode =
    (case jump_of opcode of None \<Rightarrow> None
     | Some (m, k) \<Rightarrow> (case CC_INVERTER m of None \<Rightarrow> None | Some m' \<Rightarrow> Some (Op (opcode_idx m' ! k))))"

definition GetLongestJump :: "nat \<Rightarrow> nat option" where
  "GetLongestJump opcode = map_option (\<lambda>(m, k). last (opcode_idx m)) (jump_of opcode)"

definition GetLowestSizeOp :: "nat \<Rightarrow> nat option" where
  "GetLowestSizeOp opcode = map_option (\<lambda>(m, k). hd (opcode_idx m)) (jump_of opcode)"

text \<open>The generated switch has a case for the first opcode of each group, with the shortest jump of the
  group whose immediate has at least the given width, if any.\<close>

definition GetSuitableJump :: "nat \<Rightarrow> BitImmSize \<Rightarrow> JumpOp option" where
  "GetSuitableJump opcode width =
    (case jump_of opcode of
       Some (m, 0) \<Rightarrow>
         Some (case find (\<lambda>(op, f). width \<le> imm_size (imm_width f)) (jump_group m) of Some (op, f) \<Rightarrow> Op op | None \<Rightarrow> LAST)
     | _ \<Rightarrow> None)"

section \<open>The emitter\<close>

datatype ErrorCode = SUCCESS | INTERNAL_ERROR | UNBOUND_LABELS

type_synonym Label = nat

record Emitter =
  cur_pc :: nat
  branches :: "(nat \<times> Label) list"
  targets :: "Label list"
  pcList :: "nat list"
  bytecode :: "u8 list"

definition GetPc :: "Emitter \<Rightarrow> Label \<Rightarrow> nat" where "GetPc e l = pcList e ! l"

definition new_emitter :: Emitter where
  "new_emitter = \<lparr>cur_pc = 0, branches = [], targets = [], pcList = [], bytecode = []\<rparr>"

text \<open>The ordered containers. An equal key keeps the entry that is in the map; an equal element of the
  multiset goes after those that are there.\<close>

definition map_insert :: "nat \<Rightarrow> 'a \<Rightarrow> (nat \<times> 'a) list \<Rightarrow> (nat \<times> 'a) list" where
  "map_insert k v m = (let a = takeWhile (\<lambda>x. fst x < k) m; b = dropWhile (\<lambda>x. fst x < k) m in
     a @ (case b of (k', v') # _ \<Rightarrow> if k' = k then b else (k, v) # b | [] \<Rightarrow> [(k, v)]))"

definition multiset_insert :: "nat list \<Rightarrow> Label \<Rightarrow> Label list \<Rightarrow> Label list" where
  "multiset_insert pcs l ts = takeWhile (\<lambda>x. pcs ! x \<le> pcs ! l) ts @ l # dropWhile (\<lambda>x. pcs ! x \<le> pcs ! l) ts"

definition multiset_finds :: "nat list \<Rightarrow> Label \<Rightarrow> Label list \<Rightarrow> bool" where
  "multiset_finds pcs l ts = (case dropWhile (\<lambda>x. pcs ! x < pcs ! l) ts of [] \<Rightarrow> False | x # _ \<Rightarrow> \<not> pcs ! l < pcs ! x)"

definition CreateLabel :: "Emitter \<Rightarrow> Label \<times> Emitter" where
  "CreateLabel e = (length (pcList e), e\<lparr>pcList := pcList e @ [0]\<rparr>)"

definition Bind :: "Label \<Rightarrow> Emitter \<Rightarrow> Emitter" where
  "Bind l e = (let pcs = (pcList e)[l := cur_pc e] in e\<lparr>pcList := pcs, targets := multiset_insert pcs l (targets e)\<rparr>)"

text \<open>Appending an instruction, the generated method of a jump, and the generated method of any other
  mnemonic: with several formats the first is chosen whose fields are wide enough for the arguments, and
  nothing is emitted when there is none.\<close>

definition append_insn :: "nat \<Rightarrow> Format \<Rightarrow> int list \<Rightarrow> Emitter \<Rightarrow> Emitter option" where
  "append_insn opcode f args e = do {
     bs \<leftarrow> Emit f (int opcode # args);
     Some (e\<lparr>cur_pc := to_u32 (int (cur_pc e) + int (length bs)), bytecode := bytecode e @ bs\<rparr>) }"

definition EmitJump :: "Mnemonic \<Rightarrow> int list \<Rightarrow> Label \<Rightarrow> Emitter \<Rightarrow> Emitter option" where
  "EmitJump m args l e =
     (let (opcode, f) = hd (jump_group m) in
      append_insn opcode f (args @ [0]) (e\<lparr>branches := map_insert (cur_pc e) l (branches e)\<rparr>))"

definition bitlen :: "OperandKind \<Rightarrow> int \<Rightarrow> BitImmSize" where
  "bitlen k arg = (if k = Imm then GetBitLengthSigned (to_i32 arg) else GetBitLengthUnsigned arg)"

definition fmt_accepts :: "Format \<Rightarrow> int list \<Rightarrow> bool" where
  "fmt_accepts f args \<longleftrightarrow> list_all2 (\<lambda>(k, w) arg. bitlen k arg \<le> imm_size w) (operands f) args"

definition select_insn :: "group \<Rightarrow> int list \<Rightarrow> (nat \<times> Format) option" where
  "select_insn g args = (case g of [insn] \<Rightarrow> Some insn | _ \<Rightarrow> find (\<lambda>(opcode, f). fmt_accepts f args) g)"

definition EmitInsn :: "group \<Rightarrow> int list \<Rightarrow> Emitter \<Rightarrow> Emitter option" where
  "EmitInsn g args e =
     (case select_insn g args of Some (opcode, f) \<Rightarrow> append_insn opcode f args e | None \<Rightarrow> Some e)"

section \<open>Building\<close>

definition CheckLabels :: "Emitter \<Rightarrow> ErrorCode" where
  "CheckLabels e =
     (if list_all (\<lambda>(key, l). multiset_finds (pcList e) l (targets e)) (branches e) then SUCCESS else UNBOUND_LABELS)"

text \<open>The sum of the growth of the branches between two keys, added while the map has entries below \<open>endPc\<close>.\<close>

fun add_growth :: "u8 list \<Rightarrow> nat \<Rightarrow> nat \<Rightarrow> (nat \<times> Label) list \<Rightarrow> int \<Rightarrow> int option" where
  "add_growth code bias endPc [] distance = Some distance"
| "add_growth code bias endPc ((key, l) # bs) distance =
    (if key < endPc then do {
       opcode \<leftarrow> GetOpcode code (to_u32 (int key + int bias));
       longest \<leftarrow> Option.bind (GetLongestJump opcode) GetSizeByOpcode;
       insn_size \<leftarrow> GetSizeByOpcode opcode;
       add_growth code bias endPc bs (to_i32 (distance + to_i32 (int longest - int insn_size)))
     } else Some distance)"

definition lower_bound_branches :: "nat \<Rightarrow> (nat \<times> Label) list \<Rightarrow> (nat \<times> Label) list" where
  "lower_bound_branches key bs = dropWhile (\<lambda>b. fst b < key) bs"

definition EstimateMaxDistance :: "Emitter \<Rightarrow> nat \<Rightarrow> nat \<Rightarrow> nat \<Rightarrow> int option" where
  "EstimateMaxDistance e insnPc targetPc bias =
     (let distance = to_i32 (int (to_u32 (int targetPc - int insnPc))) in
      if targetPc > insnPc then
        add_growth (bytecode e) bias (to_u32 (int targetPc - int bias)) (lower_bound_branches (to_u32 (int insnPc - int bias)) (branches e)) distance
      else if targetPc < insnPc then
        add_growth (bytecode e) bias (to_u32 (int insnPc - int bias)) (lower_bound_branches (to_u32 (int targetPc - int bias)) (branches e)) distance
      else Some 0)"

text \<open>The labels above \<open>pc\<close> are taken out of the multiset, moved and put back. The fake label is a cell
  that is removed at the end.\<close>

definition UpdateLabelTargets :: "nat \<Rightarrow> nat \<Rightarrow> Emitter \<Rightarrow> Emitter" where
  "UpdateLabelTargets pc bias e =
     (let pcs = pcList e @ [pc]; fake = length (pcList e);
        keep = takeWhile (\<lambda>l. pcs ! l \<le> pcs ! fake) (targets e);
        updated = dropWhile (\<lambda>l. pcs ! l \<le> pcs ! fake) (targets e);
        pcs' = foldl (\<lambda>p l. p[l := to_u32 (int (p ! l) + int bias)]) pcs updated;
        ts = foldl (\<lambda>t l. multiset_insert pcs' l t) keep updated
      in e\<lparr>pcList := butlast pcs', targets := ts\<rparr>)"

definition UpdateBranchOffs :: "u8 list \<Rightarrow> nat \<Rightarrow> int \<Rightarrow> u8 list option" where
  "UpdateBranchOffs code at offs = do {
     opcode \<leftarrow> GetOpcode code at;
     (m, k) \<leftarrow> jump_of opcode;
     let f = snd (jump_group m ! k);
     insn \<leftarrow> (if at + fmt_size f \<le> length code then Some (take (fmt_size f) (drop at code)) else None);
     insn' \<leftarrow> EmitImpl insn [last (butlast (OFF f)), fmt_size f * 8] [offs];
     store code at insn' }"

definition vec_insert :: "nat \<Rightarrow> nat \<Rightarrow> u8 list \<Rightarrow> u8 list option" where
  "vec_insert i n code = (if i \<le> length code then Some (take i code @ replicate n 0 @ drop i code) else None)"

text \<open>\<open>UpdateSpaceForOffset\<close> returns the code, the extra bytes and the place of the branch. The opcode of a
  jump has no prefix, so it is one byte.\<close>

definition UpdateSpaceForOffset :: "u8 list \<Rightarrow> nat \<Rightarrow> BitImmSize \<Rightarrow> (u8 list \<times> nat \<times> nat) option" where
  "UpdateSpaceForOffset code insnPc expectedImmSize = do {
     opcode \<leftarrow> GetOpcode code insnPc;
     insnSize \<leftarrow> GetSizeByOpcode opcode;
     lowestOp \<leftarrow> GetLowestSizeOp opcode;
     lowestSize \<leftarrow> GetSizeByOpcode lowestOp;
     let sizeDifference = insnSize - lowestSize;
     updOp \<leftarrow> GetSuitableJump lowestOp expectedImmSize;
     jmpSize \<leftarrow> GetSizeByOpcode JMP_IMM32;
     (case updOp of
        Op op \<Rightarrow> do {
          updSize \<leftarrow> GetSizeByOpcode op;
          let extraBytes = updSize - insnSize;
          code1 \<leftarrow> vec_insert (insnPc + insnSize) extraBytes code;
          code2 \<leftarrow> store code1 insnPc [of_nat op];
          Some (code2, extraBytes, insnPc) }
      | LAST \<Rightarrow> do {
          let extraBytes = jmpSize - sizeDifference;
          code1 \<leftarrow> vec_insert (insnPc + insnSize) extraBytes code;
          reverted \<leftarrow> RevertConditionCode lowestOp;
          (case reverted of
             LAST \<Rightarrow> None
           | Op op \<Rightarrow> do {
               code2 \<leftarrow> UpdateBranchOffs code1 insnPc (to_i32 (int (insnSize + jmpSize - sizeDifference)));
               let target = to_u32 (int (insnPc + insnSize - sizeDifference));
               far \<leftarrow> Emit F_IMM32 [int JMP_IMM32, 0];
               code3 \<leftarrow> store code2 target far;
               code4 \<leftarrow> store code3 insnPc [of_nat op];
               Some (code4, extraBytes, target) }) }) }"

fun Reserve :: "bool \<Rightarrow> (nat \<times> Label) list \<Rightarrow> nat \<Rightarrow> (nat \<times> Label) list \<Rightarrow> Emitter \<Rightarrow> (ErrorCode \<times> Emitter) option" where
  "Reserve isFirstCheck [] bias newBranches e = Some (SUCCESS, e\<lparr>branches := newBranches\<rparr>)"
| "Reserve isFirstCheck ((key, label) # bs) bias newBranches e = do {
     let e = e\<lparr>branches := (key, label) # bs\<rparr>;
     let insnPc = to_u32 (int key + int bias);
     opcode \<leftarrow> GetOpcode (bytecode e) insnPc;
     encodedImmSize \<leftarrow> GetBitImmSizeByOpcode opcode;
     distance \<leftarrow> (if isFirstCheck then EstimateMaxDistance e insnPc (GetPc e label) bias
                  else Some (to_i32 (int (to_u32 (int (GetPc e label) - int insnPc)))));
     let realImmSize = GetBitLengthSigned distance;
     (code, extraBytes, newTarget) \<leftarrow>
        (if realImmSize > encodedImmSize then UpdateSpaceForOffset (bytecode e) insnPc realImmSize
         else Some (bytecode e, 0, insnPc));
     let e = e\<lparr>bytecode := code\<rparr>;
     let newBranches = map_insert newTarget label newBranches;
     (if extraBytes > 0 then
        Reserve isFirstCheck bs (to_u32 (int bias + int extraBytes)) newBranches (UpdateLabelTargets insnPc extraBytes e)
      else Reserve isFirstCheck bs bias newBranches e) }"

definition ReserveSpaceForOffsets :: "bool \<Rightarrow> Emitter \<Rightarrow> (ErrorCode \<times> Emitter) option" where
  "ReserveSpaceForOffsets isFirstCheck e = Reserve isFirstCheck (branches e) 0 [] e"

fun update_branches :: "(nat \<times> Label) list \<Rightarrow> Emitter \<Rightarrow> u8 list \<Rightarrow> u8 list option" where
  "update_branches [] e code = Some code"
| "update_branches ((insnPc, label) # bs) e code = do {
     let offset = to_i32 (to_i32 (int (GetPc e label)) - to_i32 (int insnPc));
     code' \<leftarrow> UpdateBranchOffs code insnPc offset;
     update_branches bs e code' }"

definition UpdateBranches :: "Emitter \<Rightarrow> (ErrorCode \<times> Emitter) option" where
  "UpdateBranches e = do {
     code \<leftarrow> update_branches (branches e) e (bytecode e);
     Some (SUCCESS, e\<lparr>bytecode := code\<rparr>) }"

text \<open>\<open>Build\<close>: the error code, the emitter it leaves, and what it assigns to the output.\<close>

definition Build :: "Emitter \<Rightarrow> (ErrorCode \<times> Emitter \<times> u8 list option) option" where
  "Build e =
     (let check = CheckLabels e in
      if check \<noteq> SUCCESS then Some (check, e, None)
      else do {
        (res1, e1) \<leftarrow> ReserveSpaceForOffsets True e;
        if res1 \<noteq> SUCCESS then Some (res1, e1, None)
        else do {
          (res2, e2) \<leftarrow> ReserveSpaceForOffsets False e1;
          if res2 \<noteq> SUCCESS then Some (res2, e2, None)
          else do {
            (res3, e3) \<leftarrow> UpdateBranches e2;
            if res3 \<noteq> SUCCESS then Some (res3, e3, None)
            else Some (SUCCESS, e3, Some (bytecode e3)) } } })"

end
