(* ===== verification/Emitter_Layout.thy ===== *)
theory Emitter_Layout
  imports Emitter
begin

text \<open>
  The layouts of the code an emitter holds: the instructions, jumps and labels in order, each jump with
  the shape it currently has. The section on bytes shows what the operations of \<^verbatim>\<open>bytecode_emitter.cpp\<close>
  that read and write bytes do to an encoded jump; the section on layouts gives the positions of
  branches and labels, and the pass over a layout that \<open>ReserveSpaceForOffsets\<close> performs.
\<close>

section \<open>The table of jumps\<close>

abbreviation jfmt :: "Mnemonic \<Rightarrow> nat \<Rightarrow> Format" where "jfmt m k \<equiv> jump_formats m ! k"
abbreviation jopcode :: "Mnemonic \<Rightarrow> nat \<Rightarrow> nat" where "jopcode m k \<equiv> opcode_idx m ! k"

definition forms :: "Mnemonic \<Rightarrow> nat" where "forms m = (if m = JMP then 3 else 2)"
definition nargs :: "Mnemonic \<Rightarrow> nat" where "nargs m = (if has_vreg m then 1 else 0)"
definition jsize :: "Mnemonic \<Rightarrow> nat \<Rightarrow> nat" where "jsize m k = 1 + nargs m + 2 ^ k"

lemma forms_cases:
  assumes "k < forms m" obtains "k = 0" | "k = 1" | "k = 2" "m = JMP"
  using assms by (force simp: forms_def split: if_splits)

lemma length_opcode_idx [simp]: "length (opcode_idx m) = forms m"
  by (cases m) (simp_all add: forms_def)

lemma length_jump_formats [simp]: "length (jump_formats m) = forms m"
  by (simp add: jump_formats_def forms_def)

lemma jump_group_simps: "k < forms m \<Longrightarrow> jump_group m ! k = (jopcode m k, jfmt m k)"
  by (simp add: jump_group_def)

lemma forms_pos [simp]: "0 < forms m" "Suc 0 < forms m" "forms m - Suc 0 < forms m"
  by (simp_all add: forms_def)

lemma opcode_idx_nonempty [simp]: "opcode_idx m \<noteq> []"
  by (cases m) simp_all

lemma jopcode_small: "k < forms m \<Longrightarrow> jopcode m k < min_prefix"
  by (erule forms_cases; cases m) (simp_all add: min_prefix_def)

lemma jump_of_opcode [simp]: "k < forms m \<Longrightarrow> jump_of (jopcode m k) = Some (m, k)"
  by (erule forms_cases; cases m) (simp_all add: jump_of_def mnemonics_def)

lemma jfmt_cases:
  assumes "k < forms m"
  shows "jfmt m k = \<lparr>prefixed = False, operands = replicate (nargs m) (Reg, 8) @ [(Imm, 8 * 2 ^ k)]\<rparr>"
  using assms by (elim forms_cases) (auto simp: jump_formats_def formats nargs_def has_vreg_def)

lemma nargs_cases: obtains "nargs m = 0" | "nargs m = 1"
  by (cases "has_vreg m") (simp_all add: nargs_def)

lemma fmt_size_jump [simp]: "k < forms m \<Longrightarrow> fmt_size (jfmt m k) = jsize m k"
  by (cases rule: nargs_cases[of m]) (simp_all add: jfmt_cases fmt_size_def jsize_def)

lemma imm_width_jump [simp]: "k < forms m \<Longrightarrow> imm_width (jfmt m k) = 8 * 2 ^ k"
  by (simp add: jfmt_cases imm_width_def)

lemma OFF_jump:
  "k < forms m \<Longrightarrow> OFF (jfmt m k) = 0 # (if nargs m = 0 then [8, 8 + 8 * 2 ^ k] else [8, 16, 16 + 8 * 2 ^ k])"
  by (cases rule: nargs_cases[of m]) (simp_all add: jfmt_cases OFF_def fmt_size_def)

lemma GetSizeByOpcode_jump [simp]: "k < forms m \<Longrightarrow> GetSizeByOpcode (jopcode m k) = Some (jsize m k)"
  by (simp add: GetSizeByOpcode_def jump_group_simps)

lemma GetBitImmSizeByOpcode_jump [simp]:
  "k < forms m \<Longrightarrow> GetBitImmSizeByOpcode (jopcode m k) = Some (imm_size (8 * 2 ^ k))"
  by (simp add: GetBitImmSizeByOpcode_def jump_group_simps)

lemma GetLongestJump_jump [simp]: "k < forms m \<Longrightarrow> GetLongestJump (jopcode m k) = Some (jopcode m (forms m - 1))"
  by (simp add: GetLongestJump_def last_conv_nth)

lemma GetLowestSizeOp_jump [simp]: "k < forms m \<Longrightarrow> GetLowestSizeOp (jopcode m k) = Some (jopcode m 0)"
  by (simp add: GetLowestSizeOp_def hd_conv_nth)

lemma jsize_mono: "k \<le> k' \<Longrightarrow> jsize m k \<le> jsize m k'"
  by (simp add: jsize_def)

lemma jsize_JMP [simp]: "jsize JMP 2 = 5" "nargs JMP = 0"
  by (simp_all add: jsize_def nargs_def has_vreg_def)

lemma JMP_IMM32_jump: "JMP_IMM32 = jopcode JMP 2" by (simp add: JMP_IMM32_def)

lemma GetSizeByOpcode_JMP_IMM32 [simp]: "GetSizeByOpcode JMP_IMM32 = Some 5"
  unfolding JMP_IMM32_jump by (subst GetSizeByOpcode_jump) (simp_all add: forms_def)

text \<open>The shortest form whose immediate has the given width, if there is one.\<close>

definition suitable :: "Mnemonic \<Rightarrow> BitImmSize \<Rightarrow> nat option" where
  "suitable m w = (if w \<le> BITSIZE_8 then Some 0 else if w \<le> BITSIZE_16 then Some 1 else if m = JMP then Some 2 else None)"

lemma suitable_forms: "suitable m w = Some k \<Longrightarrow> k < forms m"
  by (auto simp: suitable_def forms_def split: if_splits)

lemma GetSuitableJump_jump:
  "GetSuitableJump (jopcode m 0) w = Some (case suitable m w of Some k \<Rightarrow> Op (jopcode m k) | None \<Rightarrow> LAST)"
proof -
  have "find (\<lambda>(op, f). w \<le> imm_size (imm_width f)) (jump_group m) =
      map_option (\<lambda>k. (jopcode m k, jfmt m k)) (suitable m w)"
    by (cases m; cases w)
      (simp_all add: jump_group_def jump_formats_def has_vreg_def formats imm_width_def imm_size_def suitable_def BitImmSize_order)
  then show ?thesis
    by (simp add: GetSuitableJump_def split: option.split)
qed

lemma suitable_fits: "suitable m w = Some k \<Longrightarrow> w \<le> imm_size (8 * 2 ^ k)"
  by (cases w) (auto simp: suitable_def imm_size_def BitImmSize_order split: if_splits)

lemma suitable_grows:
  assumes "suitable m w = Some k'" "\<not> w \<le> imm_size (8 * 2 ^ k)" "k < forms m" shows "k < k'"
  using assms by (cases w) (auto simp: suitable_def imm_size_def BitImmSize_order elim!: forms_cases split: if_splits)

text \<open>The inverted condition.\<close>

definition inverted :: "Mnemonic \<Rightarrow> Mnemonic" where "inverted m = the (CC_INVERTER m)"

lemma CC_INVERTER_inverted: "m \<noteq> JMP \<Longrightarrow> CC_INVERTER m = Some (inverted m)"
  by (cases m) (simp_all add: inverted_def)

lemma RevertConditionCode_jump:
  "m \<noteq> JMP \<Longrightarrow> k < forms m \<Longrightarrow> RevertConditionCode (jopcode m k) = Some (Op (jopcode (inverted m) k))"
  by (simp add: RevertConditionCode_def CC_INVERTER_inverted)

lemma inverted_simps [simp]:
  assumes "m \<noteq> JMP"
  shows "nargs (inverted m) = nargs m" "forms (inverted m) = forms m" "inverted m \<noteq> JMP" "inverted (inverted m) = m"
    "jsize (inverted m) k = jsize m k"
  using assms by (cases m; simp add: inverted_def nargs_def has_vreg_def forms_def jsize_def)+

section \<open>Bytes of a jump\<close>

text \<open>The bytes of an integer, lowest first, and of a jump with its register and offset.\<close>

definition le :: "nat \<Rightarrow> int \<Rightarrow> u8 list" where
  "le n x = map (\<lambda>i. word_of_int (drop_bit (i * 8) x)) [0..<n]"

definition jump_bytes :: "Mnemonic \<Rightarrow> nat \<Rightarrow> int list \<Rightarrow> int \<Rightarrow> u8 list" where
  "jump_bytes m k args off = of_nat (jopcode m k) # map word_of_int args @ le (2 ^ k) off"

lemma length_le [simp]: "length (le n x) = n"
  by (simp add: le_def)

lemma le_zero [simp]: "le n 0 = replicate n 0"
  by (simp add: le_def map_replicate_trivial)

lemma length_jump_bytes [simp]: "length args = nargs m \<Longrightarrow> length (jump_bytes m k args off) = jsize m k"
  by (simp add: jump_bytes_def jsize_def)

lemma ucast_drop_bit:
  assumes "n + 8 \<le> LENGTH('a::len)"
  shows "ucast (drop_bit n (word_of_int x :: 'a word)) = (word_of_int (drop_bit n x) :: u8)"
  by (rule bit_word_eqI) (use assms in \<open>simp add: bit_simps\<close>)

lemma ucast_word_of_int:
  assumes "8 \<le> LENGTH('a::len)"
  shows "ucast (word_of_int x :: 'a word) = (word_of_int x :: u8)"
  using ucast_drop_bit[of 0 x] assms by simp

lemma le_simps:
  "le 1 x = [word_of_int x]"
  "le 2 x = [word_of_int x, word_of_int (drop_bit 8 x)]"
  "le 4 x = [word_of_int x, word_of_int (drop_bit 8 x), word_of_int (drop_bit 16 x), word_of_int (drop_bit 24 x)]"
  by (simp_all add: le_def upt_rec)

lemma ucast_and_255: "ucast (w AND 0xFF) = (ucast w :: u8)"
proof -
  have "w AND 0xFF = take_bit 8 w" by (simp add: take_bit_eq_mask mask_eq_exp_minus_1)
  then show ?thesis by (simp only:) (rule bit_word_eqI, simp add: bit_simps)
qed

lemma EmitImpl_field:
  assumes "k \<le> 2"
  shows "EmitImpl buf (p # (p + 8 * 2 ^ k) # offs) (arg # args) =
    (case store buf (p div 8) (le (2 ^ k) arg) of None \<Rightarrow> None | Some b \<Rightarrow> EmitImpl b ((p + 8 * 2 ^ k) # offs) args)"
proof -
  consider "k = 0" | "k = 1" | "k = 2" using assms by linarith
  then show ?thesis
    by cases (hypsubst, simp add: le_simps le_simps(1)[unfolded One_nat_def] ucast_and_255 ucast_drop_bit ucast_word_of_int upt_rec split: option.split)+
qed

lemma store_mid: "length b = length b' \<Longrightarrow> store (a @ b @ c) (length a) b' = Some (a @ b' @ c)"
  by (simp add: store_def)

lemma store_at: "n = length a \<Longrightarrow> length b = length b' \<Longrightarrow> store (a @ b @ c) n b' = Some (a @ b' @ c)"
  by (simp add: store_mid)

lemma EmitImpl_byte:
  "EmitImpl buf (0 # 8 # offs) (arg # args) =
    (case store buf 0 [word_of_int arg] of None \<Rightarrow> None | Some b \<Rightarrow> EmitImpl b (8 # offs) args)"
  "EmitImpl buf (8 # 16 # offs) (arg # args) =
    (case store buf 1 [word_of_int arg] of None \<Rightarrow> None | Some b \<Rightarrow> EmitImpl b (16 # offs) args)"
  by simp_all

lemma Emit_jump:
  assumes "k < forms m" "length args = nargs m"
  shows "Emit (jfmt m k) (int (jopcode m k) # args @ [off]) = Some (jump_bytes m k args off)"
proof -
  have k: "k \<le> 2" using assms(1) by (auto elim: forms_cases)
  note field = EmitImpl_field[OF k, where p = 8] EmitImpl_field[OF k, where p = 16]
  note defs = Emit_def OFF_jump jump_bytes_def jsize_def store_def EmitImpl_byte field
  consider "args = []" "nargs m = 0" | v where "args = [v]" "nargs m = 1"
    using assms(2) by (cases rule: nargs_cases[of m]) (auto simp: length_Suc_conv)
  then show ?thesis
    by cases (simp_all add: defs assms(1) del: EmitImpl.simps(2))
qed

lemma unat_jopcode [simp]: "k < forms m \<Longrightarrow> unat (of_nat (jopcode m k) :: u8) = jopcode m k"
  using jopcode_small[of k m] by (simp add: min_prefix_def unat_of_nat)

lemma GetOpcode_jump [simp]:
  "k < forms m \<Longrightarrow> GetOpcode (a @ jump_bytes m k args off @ b) (length a) = Some (jopcode m k)"
  using jopcode_small[of k m] by (simp add: GetOpcode_def nth_opt_append jump_bytes_def)

lemma UpdateBranchOffs_jump:
  assumes "k < forms m" "length args = nargs m"
  shows "UpdateBranchOffs (a @ jump_bytes m k args x @ b) (length a) off = Some (a @ jump_bytes m k args off @ b)"
proof -
  have k: "k \<le> 2" using assms(1) by (auto elim: forms_cases)
  have jb: "jump_bytes m k args y = (of_nat (jopcode m k) # map word_of_int args) @ le (2 ^ k) y @ []" for y
    by (simp add: jump_bytes_def)
  have st: "store (jump_bytes m k args x) (1 + nargs m) (le (2 ^ k) off) = Some (jump_bytes m k args off)"
    unfolding jb using assms(2) by (intro store_at) simp_all
  have "EmitImpl (jump_bytes m k args x) [8 + 8 * nargs m, 8 + 8 * nargs m + 8 * 2 ^ k] [off] = Some (jump_bytes m k args off)"
    using st by (subst EmitImpl_field[OF k]) simp
  moreover have "last (butlast (OFF (jfmt m k))) = 8 + 8 * nargs m" "jsize m k * 8 = 8 + 8 * nargs m + 8 * 2 ^ k"
    using assms(1) by (cases rule: nargs_cases[of m]; simp add: OFF_jump jsize_def)+
  ultimately show ?thesis
    using assms by (simp add: UpdateBranchOffs_def jump_group_simps store_mid)
qed

lemma vec_insert_at: "i = length a \<Longrightarrow> vec_insert i n (a @ b) = Some (a @ replicate n 0 @ b)"
  by (simp add: vec_insert_def)

lemma store_grown:
  assumes "k \<le> k'"
  shows "store (a @ (jump_bytes m k args 0 @ replicate (jsize m k' - jsize m k) 0) @ b) (length a) [of_nat (jopcode m k')] =
    Some (a @ jump_bytes m k' args 0 @ b)"
proof -
  define t :: "u8 list" where "t = map word_of_int args @ replicate (2 ^ k') 0"
  have "(2 :: nat) ^ k + (2 ^ k' - 2 ^ k) = 2 ^ k'" using assms by simp
  then have "jump_bytes m k args 0 @ replicate (jsize m k' - jsize m k) 0 = [of_nat (jopcode m k)] @ t"
    "jump_bytes m k' args 0 = [of_nat (jopcode m k')] @ t"
    by (simp_all add: t_def jump_bytes_def jsize_def replicate_add[symmetric])
  then show ?thesis
    using store_mid[of "[of_nat (jopcode m k)]" "[of_nat (jopcode m k')]" a "t @ b"] by (simp only: append_assoc) simp
qed

lemma UpdateSpaceForOffset_longer:
  assumes k: "k < forms m" "length args = nargs m" and w: "\<not> w \<le> imm_size (8 * 2 ^ k)" "suitable m w = Some k'"
  shows "UpdateSpaceForOffset (a @ jump_bytes m k args 0 @ b) (length a) w =
    Some (a @ jump_bytes m k' args 0 @ b, jsize m k' - jsize m k, length a)"
proof -
  note k' = suitable_forms[OF w(2)] suitable_grows[OF w(2,1) k(1)]
  have ins: "vec_insert (length a + jsize m k) n (a @ jump_bytes m k args 0 @ b) =
      Some (a @ (jump_bytes m k args 0 @ replicate n 0) @ b)" for n
    using vec_insert_at[of _ "a @ jump_bytes m k args 0" n b] k(2) by simp
  show ?thesis
    using k k' unfolding UpdateSpaceForOffset_def by (simp only: GetOpcode_jump GetSizeByOpcode_jump GetLowestSizeOp_jump bind.bind_lunit forms_pos GetSizeByOpcode_JMP_IMM32 GetSuitableJump_jump w ins Let_def option.case JumpOp.case store_grown less_imp_le_nat)
qed

definition far_size :: "Mnemonic \<Rightarrow> nat" where "far_size m = jsize m 0 + 5"

text \<open>The inverted jump over a \<open>JMP_IMM32\<close>.\<close>

definition far_bytes :: "Mnemonic \<Rightarrow> int list \<Rightarrow> int \<Rightarrow> u8 list" where
  "far_bytes m args off = jump_bytes (inverted m) 0 args (int (far_size m)) @ jump_bytes JMP 2 [] off"

lemma to_i32_small: "- (2 ^ 31) \<le> x \<Longrightarrow> x < 2 ^ 31 \<Longrightarrow> to_i32 x = x"
  by (simp add: to_i32_def signed_take_bit_int_eq_self)

lemma to_u32_nat: "x < 2 ^ 32 \<Longrightarrow> to_u32 (int x) = x"
  by (simp add: to_u32_def)

lemma far_size_cases: obtains "far_size m = 7" "nargs m = 0" | "far_size m = 8" "nargs m = 1"
  by (cases rule: nargs_cases[of m]) (simp_all add: far_size_def jsize_def)

lemma UpdateSpaceForOffset_far:
  assumes m: "m \<noteq> JMP" and k: "k < forms m" "length args = nargs m" and w: "suitable m w = None" and a: "length a < 2 ^ 31"
  shows "UpdateSpaceForOffset (a @ jump_bytes m k args 0 @ b) (length a) w =
    Some (a @ far_bytes m args 0 @ b, far_size m - jsize m k, length a + jsize m 0)"
proof -
  have kk: "k = 0 \<or> k = 1" using k(1) m by (auto elim: forms_cases)
  let ?x = "5 - (jsize m k - jsize m 0)" and ?off = "int (far_size m)"
  have sz: "jsize m k + 5 - (jsize m k - jsize m 0) = far_size m" "?x = far_size m - jsize m k" "jsize m 0 \<le> jsize m k"
    using kk by (auto simp: far_size_def jsize_def)
  have ins: "vec_insert (length a + jsize m k) ?x (a @ jump_bytes m k args 0 @ b) =
      Some (a @ jump_bytes m k args 0 @ (replicate ?x 0 @ b))"
    using vec_insert_at[of _ "a @ jump_bytes m k args 0" ?x b] k(2) by simp
  have off: "to_i32 (int (jsize m k + 5 - (jsize m k - jsize m 0))) = ?off"
    unfolding sz by (cases rule: far_size_cases[of m]) (simp_all add: to_i32_small)
  define h where "h = [of_nat (jopcode m k)] @ map word_of_int args @ [word_of_int ?off :: u8]"
  have "drop_bit 8 ?off = 0" by (cases rule: far_size_cases[of m]) simp_all
  then have le: "le (2 ^ k) ?off @ replicate ?x 0 = [word_of_int ?off] @ replicate 5 0"
    using kk by (auto simp: le_simps le_simps(1)[unfolded One_nat_def] jsize_def) (simp add: numeral_eq_Suc)
  then have code2: "a @ jump_bytes m k args ?off @ (replicate ?x 0 @ b) = (a @ h) @ replicate 5 0 @ b"
    by (simp add: h_def jump_bytes_def)
  have target: "to_u32 (int (length a + jsize m k - (jsize m k - jsize m 0))) = length (a @ h)"
    using k(2) a sz(3) by (subst to_u32_nat) (auto simp: h_def jsize_def nargs_def)
  have "length (jump_bytes JMP 2 [] 0) = 5" using length_jump_bytes[of "[]" JMP 2] by simp
  then have far: "Emit F_IMM32 [int JMP_IMM32, 0] = Some (jump_bytes JMP 2 [] 0)"
      "store ((a @ h) @ replicate 5 0 @ b) (length (a @ h)) (jump_bytes JMP 2 [] 0) = Some (a @ h @ jump_bytes JMP 2 [] 0 @ b)"
    using Emit_jump[of 2 JMP "[]" 0] store_mid[of "replicate 5 0" "jump_bytes JMP 2 [] 0" "a @ h" b]
    by (simp_all add: jump_formats_def JMP_IMM32_def forms_def)
  have "[of_nat (jopcode (inverted m) 0)] @ tl h = jump_bytes (inverted m) 0 args ?off"
    by (simp add: h_def jump_bytes_def le_simps(1)[unfolded One_nat_def])
  then have op: "store (a @ h @ jump_bytes JMP 2 [] 0 @ b) (length a) [of_nat (jopcode (inverted m) 0)] = Some (a @ far_bytes m args 0 @ b)"
    using store_mid[of "[of_nat (jopcode m k)]" "[of_nat (jopcode (inverted m) 0)]" a "tl h @ jump_bytes JMP 2 [] 0 @ b"]
    by (simp add: h_def far_bytes_def)
  have len: "length (a @ h) = length a + jsize m 0" using k(2) by (simp add: h_def jsize_def)
  show ?thesis
    using k unfolding UpdateSpaceForOffset_def
    by (simp only: GetOpcode_jump GetSizeByOpcode_jump GetLowestSizeOp_jump bind.bind_lunit forms_pos GetSizeByOpcode_JMP_IMM32
        GetSuitableJump_jump w ins Let_def option.case JumpOp.case RevertConditionCode_jump[OF m] UpdateBranchOffs_jump off
        target code2 far op) (simp only: len sz(2))
qed

end
