(* ===== verification/Emitter_Pass.thy ===== *)
theory Emitter_Pass
  imports Emitter_Layout
begin

text \<open>
  Layouts of the emitter's code and the pass over a layout that \<open>ReserveSpaceForOffsets\<close> performs: the
  emitter that represents a layout represents, after the pass of \<^verbatim>\<open>bytecode_emitter.cpp\<close>, the layout that
  the pass over layouts gives.
\<close>

section \<open>Layouts\<close>

text \<open>A jump has the form of a place in its group, or is the inverted jump over a far \<open>JMP_IMM32\<close>.\<close>

datatype shape = Form nat | Far
datatype chunk = Code "u8 list" | is_Jump: Jump Mnemonic "int list" shape (jlabel: Label) | Mark Label

fun valid_chunk :: "chunk \<Rightarrow> bool" where
  "valid_chunk (Jump m args (Form k) l) \<longleftrightarrow> k < forms m \<and> length args = nargs m"
| "valid_chunk (Jump m args Far l) \<longleftrightarrow> m \<noteq> JMP \<and> length args = nargs m"
| "valid_chunk (Code bs) \<longleftrightarrow> True"
| "valid_chunk (Mark l) \<longleftrightarrow> True"

fun csize :: "chunk \<Rightarrow> nat" where
  "csize (Jump m args (Form k) l) = jsize m k"
| "csize (Jump m args Far l) = far_size m"
| "csize (Code bs) = length bs"
| "csize (Mark l) = 0"

fun max_size :: "chunk \<Rightarrow> nat" where
  "max_size (Jump m args s l) = (if m = JMP then 5 else far_size m)"
| "max_size (Code bs) = length bs"
| "max_size (Mark l) = 0"

text \<open>The bytes, with the offset of the branch, and where in the chunk the branch to the label is.\<close>

fun cbytes :: "chunk \<Rightarrow> int \<Rightarrow> u8 list" where
  "cbytes (Jump m args (Form k) l) off = jump_bytes m k args off"
| "cbytes (Jump m args Far l) off = far_bytes m args off"
| "cbytes (Code bs) off = bs"
| "cbytes (Mark l) off = []"

fun disp :: "chunk \<Rightarrow> nat" where
  "disp (Jump m args Far l) = jsize m 0"
| "disp c = 0"

text \<open>The branch instruction of a jump, and how much its longest form adds.\<close>

fun branch :: "chunk \<Rightarrow> Mnemonic \<times> nat" where
  "branch (Jump m args (Form k) l) = (m, k)"
| "branch c = (JMP, 2)"

fun cgrow :: "chunk \<Rightarrow> nat" where
  "cgrow (Jump m args (Form k) l) = jsize m (forms m - 1) - jsize m k"
| "cgrow c = 0"

definition lsize :: "chunk list \<Rightarrow> nat" where "lsize cs = sum_list (map csize cs)"
definition lmax :: "chunk list \<Rightarrow> nat" where "lmax cs = sum_list (map max_size cs)"
definition code :: "chunk list \<Rightarrow> u8 list" where "code cs = concat (map (\<lambda>c. cbytes c 0) cs)"

text \<open>The branches and the labels of a layout that starts at \<open>p\<close>, with their positions, and the growth
  of the branches below \<open>t\<close>.\<close>

fun brs :: "nat \<Rightarrow> chunk list \<Rightarrow> (nat \<times> Label) list" where
  "brs p [] = []"
| "brs p (c # cs) = (case c of Jump m args s l \<Rightarrow> [(p + disp c, l)] | _ \<Rightarrow> []) @ brs (p + csize c) cs"

fun labs :: "nat \<Rightarrow> chunk list \<Rightarrow> (Label \<times> nat) list" where
  "labs p [] = []"
| "labs p (c # cs) = (case c of Mark l \<Rightarrow> [(l, p)] | _ \<Rightarrow> []) @ labs (p + csize c) cs"

fun growth :: "nat \<Rightarrow> chunk list \<Rightarrow> nat \<Rightarrow> nat" where
  "growth p [] t = 0"
| "growth p (c # cs) t = (if p + disp c < t then cgrow c else 0) + growth (p + csize c) cs t"

fun marks :: "chunk list \<Rightarrow> Label list" where
  "marks [] = []"
| "marks (c # cs) = (case c of Mark l \<Rightarrow> [l] | _ \<Rightarrow> []) @ marks cs"

fun jumps :: "chunk list \<Rightarrow> Label list" where
  "jumps [] = []"
| "jumps (c # cs) = (case c of Jump m args s l \<Rightarrow> [l] | _ \<Rightarrow> []) @ jumps cs"

definition lab :: "chunk list \<Rightarrow> Label \<Rightarrow> nat" where "lab cs l = the (map_of (labs 0 cs) l)"

lemma lsize_simps [simp]: "lsize [] = 0" "lsize (c # cs) = csize c + lsize cs" "lsize (xs @ ys) = lsize xs + lsize ys"
  by (simp_all add: lsize_def)

lemma lmax_simps [simp]: "lmax [] = 0" "lmax (c # cs) = max_size c + lmax cs" "lmax (xs @ ys) = lmax xs + lmax ys"
  by (simp_all add: lmax_def)

lemma code_simps [simp]: "code [] = []" "code (c # cs) = cbytes c 0 @ code cs" "code (xs @ ys) = code xs @ code ys"
  by (simp_all add: code_def)

lemma length_far_bytes [simp]: "length args = nargs m \<Longrightarrow> m \<noteq> JMP \<Longrightarrow> length (far_bytes m args off) = far_size m"
  by (simp add: far_bytes_def far_size_def)

lemma length_cbytes [simp]: "valid_chunk c \<Longrightarrow> length (cbytes c off) = csize c"
  by (cases c rule: valid_chunk.cases) simp_all

lemma length_code [simp]: "list_all valid_chunk cs \<Longrightarrow> length (code cs) = lsize cs"
  by (induction cs) simp_all

lemma brs_append [simp]: "brs p (xs @ ys) = brs p xs @ brs (p + lsize xs) ys"
  by (induction xs arbitrary: p) (simp_all add: add.assoc)

lemma labs_append [simp]: "labs p (xs @ ys) = labs p xs @ labs (p + lsize xs) ys"
  by (induction xs arbitrary: p) (simp_all add: add.assoc)

lemma marks_append [simp]: "marks (xs @ ys) = marks xs @ marks ys"
  by (induction xs) simp_all

lemma jumps_append [simp]: "jumps (xs @ ys) = jumps xs @ jumps ys"
  by (induction xs) simp_all

lemma fst_labs [simp]: "map fst (labs p cs) = marks cs"
  by (induction cs arbitrary: p) (simp_all split: chunk.split)

lemma marks_labs: "l \<in> set (marks cs) \<longleftrightarrow> (\<exists>q. (l, q) \<in> set (labs p cs))"
proof -
  have "set (marks cs) = fst ` set (labs p cs)" by (metis fst_labs set_map)
  then show ?thesis by force
qed

lemma brs_shift: "brs (p + x) cs = map (\<lambda>(q, l). (q + x, l)) (brs p cs)"
proof (induction cs arbitrary: p)
  case (Cons c cs)
  show ?case using Cons[of "p + csize c"] by (simp add: ac_simps split: chunk.split)
qed simp

lemma labs_shift: "labs (p + x) cs = map (\<lambda>(l, q). (l, q + x)) (labs p cs)"
proof (induction cs arbitrary: p)
  case (Cons c cs)
  show ?case using Cons[of "p + csize c"] by (simp add: ac_simps split: chunk.split)
qed simp

lemma labs_range: "(l, q) \<in> set (labs p cs) \<Longrightarrow> p \<le> q \<and> q \<le> p + lsize cs"
  by (induction cs arbitrary: p) (fastforce split: chunk.splits)+

lemma disp_small: "valid_chunk c \<Longrightarrow> disp c \<le> csize c"
  by (cases c rule: valid_chunk.cases) (simp_all add: far_size_def)

lemma brs_range: "list_all valid_chunk cs \<Longrightarrow> (q, l) \<in> set (brs p cs) \<Longrightarrow> p \<le> q \<and> q < p + lsize cs"
proof (induction cs arbitrary: p)
  case (Cons c cs)
  have "disp c < csize c" if "c = Jump m args s l" for m args s
    using Cons.prems(1) that by (cases s) (simp_all add: far_size_def jsize_def)
  then show ?case using Cons.prems(2) Cons.IH[of "p + csize c"] Cons.prems(1) by (fastforce split: chunk.splits)
qed simp

lemma sorted_labs: "sorted (map snd (labs p cs))"
proof (induction cs arbitrary: p)
  case (Cons c cs)
  show ?case using Cons[of "p + csize c"] by (auto split: chunk.split dest: labs_range)
qed simp

lemma growth_below: "t \<le> p \<Longrightarrow> growth p cs t = 0"
  by (induction cs arbitrary: p) simp_all

lemma growth_at: "valid_chunk c \<Longrightarrow> t \<le> p + disp c \<Longrightarrow> growth p (c # cs) t = 0"
  using disp_small[of c] by (simp add: growth_below)

lemma jsize_le_far: "k < forms m \<Longrightarrow> jsize m k \<le> (if m = JMP then 5 else far_size m)"
  by (elim forms_cases) (auto simp: jsize_def far_size_def nargs_def has_vreg_def)

lemma csize_le_max: "valid_chunk c \<Longrightarrow> csize c \<le> max_size c"
  by (cases c rule: valid_chunk.cases) (use jsize_le_far in \<open>auto\<close>)

lemma cgrow_le_max: "valid_chunk c \<Longrightarrow> cgrow c + csize c \<le> max_size c"
proof (cases c rule: valid_chunk.cases)
  case (1 m args k l)
  assume "valid_chunk c"
  then have "jsize m k \<le> jsize m (forms m - 1)" using 1 by (intro jsize_mono) auto
  then show ?thesis using 1 jsize_le_far[of "forms m - 1" m] by simp
qed simp_all

lemma lsize_le_max: "list_all valid_chunk cs \<Longrightarrow> lsize cs \<le> lmax cs"
  by (induction cs) (auto dest!: csize_le_max)

lemma growth_le_max: "list_all valid_chunk cs \<Longrightarrow> growth p cs t + lsize cs \<le> lmax cs"
proof (induction cs arbitrary: p)
  case (Cons c cs)
  then have "growth (p + csize c) cs t + lsize cs \<le> lmax cs" "cgrow c + csize c \<le> max_size c"
    using cgrow_le_max[of c] by simp_all
  then show ?case by simp
qed simp

section \<open>The pass over a layout\<close>

text \<open>The distance \<open>ReserveSpaceForOffsets\<close> looks at for the jump that starts at \<open>p\<close> in the first and in
  the second pass, and the jump it leaves.\<close>

definition distance :: "bool \<Rightarrow> chunk list \<Rightarrow> chunk \<Rightarrow> chunk list \<Rightarrow> Label \<Rightarrow> int" where
  "distance isFirstCheck dn c cs l =
     (let p = lsize dn; t = lab (dn @ c # cs) l in
      int t - int (p + disp c) + (if isFirstCheck then int (growth p (c # cs) t) else 0))"

fun reshape :: "chunk \<Rightarrow> BitImmSize \<Rightarrow> chunk" where
  "reshape (Jump m args (Form k) l) w =
     (if w \<le> imm_size (8 * 2 ^ k) then Jump m args (Form k) l
      else case suitable m w of Some k' \<Rightarrow> Jump m args (Form k') l | None \<Rightarrow> Jump m args Far l)"
| "reshape c w = c"

definition resize :: "bool \<Rightarrow> chunk list \<Rightarrow> chunk \<Rightarrow> chunk list \<Rightarrow> chunk" where
  "resize isFirstCheck dn c cs =
     (case c of Jump m args s l \<Rightarrow> reshape c (GetBitLengthSigned (distance isFirstCheck dn c cs l)) | _ \<Rightarrow> c)"

fun pass :: "bool \<Rightarrow> chunk list \<Rightarrow> chunk list \<Rightarrow> chunk list" where
  "pass isFirstCheck dn [] = dn"
| "pass isFirstCheck dn (c # cs) = pass isFirstCheck (dn @ [resize isFirstCheck dn c cs]) cs"

text \<open>A well-formed layout: every label a jump goes to is bound once, and the longest layout is below $2^{30}$ bytes.\<close>

definition wf_layout :: "chunk list \<Rightarrow> bool" where
  "wf_layout cs \<longleftrightarrow> list_all valid_chunk cs \<and> distinct (marks cs) \<and> set (jumps cs) \<subseteq> set (marks cs) \<and> lmax cs < 2 ^ 30"

definition rep :: "Emitter \<Rightarrow> chunk list \<Rightarrow> bool" where
  "rep e cs \<longleftrightarrow> bytecode e = code cs \<and> targets e = marks cs \<and>
     (\<forall>(l, q) \<in> set (labs 0 cs). l < length (pcList e) \<and> pcList e ! l = q)"

text \<open>A chunk without its shape: the source of the layout.\<close>

fun unshaped :: "chunk \<Rightarrow> chunk" where
  "unshaped (Jump m args s l) = Jump m args (Form 0) l"
| "unshaped c = c"

lemma reshape_props:
  assumes "valid_chunk c"
  shows "valid_chunk (reshape c w)" "unshaped (reshape c w) = unshaped c" "csize c \<le> csize (reshape c w)"
    "disp (reshape c w) \<noteq> disp c \<Longrightarrow> disp c = 0"
proof -
  have far: "suitable m w = None \<Longrightarrow> m \<noteq> JMP" for m by (auto simp: suitable_def split: if_splits)
  show "valid_chunk (reshape c w)" using assms
    by (cases c rule: valid_chunk.cases) (auto simp: suitable_forms far split: option.split)
  show "unshaped (reshape c w) = unshaped c" by (cases "(c, w)" rule: reshape.cases) (auto split: option.split)
  show "csize c \<le> csize (reshape c w)" using assms
    by (cases c rule: valid_chunk.cases)
      (auto dest!: suitable_grows far intro!: jsize_mono split: option.split dest: jsize_le_far[THEN le_trans])
  show "disp c = 0" if "disp (reshape c w) \<noteq> disp c" using that by (cases "(c, w)" rule: reshape.cases) auto
qed

lemma unshaped_same:
  assumes "unshaped c = unshaped c'"
  shows "marks [c] = marks [c']" "jumps [c] = jumps [c']" "max_size c = max_size c'"
  using assms by (cases c; cases c'; simp)+

lemma unshaped_same_list:
  assumes "map unshaped cs = map unshaped cs'"
  shows "marks cs = marks cs'" "jumps cs = jumps cs'" "lmax cs = lmax cs'"
proof -
  have "marks cs = marks cs' \<and> jumps cs = jumps cs' \<and> lmax cs = lmax cs'"
    using assms
  proof (induction cs cs' rule: list_induct2')
    case (4 c cs c' cs')
    then have "unshaped c = unshaped c'" and IH: "marks cs = marks cs'" "jumps cs = jumps cs'" "lmax cs = lmax cs'" by simp_all
    note same = unshaped_same[OF this(1)]
    show ?case
      using same IH marks_append[of "[c]" cs] marks_append[of "[c']" cs'] jumps_append[of "[c]" cs] jumps_append[of "[c']" cs']
      by (simp only: append_Cons append_Nil lmax_simps)
  qed simp_all
  then show "marks cs = marks cs'" "jumps cs = jumps cs'" "lmax cs = lmax cs'" by simp_all
qed

lemma resize_eq: "\<exists>w. resize b dn c cs = reshape c w"
proof (cases c)
  case (Jump m args s l)
  show ?thesis unfolding Jump resize_def chunk.case by (intro exI) (rule refl)
qed (simp_all add: resize_def)

lemma resize_props:
  assumes "valid_chunk c"
  shows "valid_chunk (resize b dn c cs)" "unshaped (resize b dn c cs) = unshaped c" "csize c \<le> csize (resize b dn c cs)"
  using resize_eq[of b dn c cs] reshape_props[OF assms] by auto

lemma pass_props:
  assumes "list_all valid_chunk (dn @ cs)"
  shows "list_all valid_chunk (pass b dn cs)" "map unshaped (pass b dn cs) = map unshaped (dn @ cs)"
  using assms by (induction b dn cs rule: pass.induct) (simp_all add: resize_props)

lemma wf_layout_same:
  assumes "wf_layout cs" "map unshaped cs' = map unshaped cs" "list_all valid_chunk cs'"
  shows "wf_layout cs'"
  using assms unshaped_same_list[OF assms(2)] by (simp add: wf_layout_def)

lemma wf_layout_pass: "wf_layout (dn @ cs) \<Longrightarrow> wf_layout (pass b dn cs)"
  by (rule wf_layout_same[of "dn @ cs"]) (auto simp: pass_props wf_layout_def simp del: list_all_append)

end
