(* ===== verification/Emitter_Build.thy ===== *)
theory Emitter_Build
  imports Emitter_Pass
begin

text \<open>
  The emitter that represents a layout: what \<open>EstimateMaxDistance\<close>, \<open>UpdateLabelTargets\<close>,
  \<open>ReserveSpaceForOffsets\<close>, \<open>UpdateBranches\<close> and \<open>Build\<close> do to it, in terms of the layout.
\<close>

section \<open>Estimating a distance\<close>

lemma branch_valid: "valid_chunk c \<Longrightarrow> c = Jump m args s l \<Longrightarrow> branch c = (bm, bk) \<Longrightarrow> bk < forms bm"
  by (cases s) (auto simp: forms_def)

lemma branch_opcode:
  assumes "valid_chunk c" "c = Jump m args s l" "branch c = (bm, bk)"
  shows "GetOpcode (a @ cbytes c off @ z) (length a + disp c) = Some (jopcode bm bk)"
proof (cases s)
  case (Form k)
  then show ?thesis using assms by simp
next
  case Far
  then have "length (jump_bytes (inverted m) 0 args (int (far_size m))) = jsize m 0" using assms by simp
  then show ?thesis
    using assms Far GetOpcode_jump[of 2 JMP "a @ jump_bytes (inverted m) 0 args (int (far_size m))" "[]" off z]
    by (simp add: far_bytes_def forms_def)
qed

lemma cgrow_branch:
  "valid_chunk c \<Longrightarrow> c = Jump m args s l \<Longrightarrow> branch c = (bm, bk) \<Longrightarrow> cgrow c = jsize bm (forms bm - 1) - jsize bm bk"
  by (cases s) (auto simp: forms_def)

lemma brs_jump: "c = Jump m args s l \<Longrightarrow> brs p (c # cs) = (p + disp c, l) # brs (p + csize c) cs"
  by simp

lemma add_growth_layout:
  assumes "list_all valid_chunk cs" "bias \<le> length a" "bias \<le> t" "0 \<le> d" "d + int (lmax cs) < 2 ^ 31"
    "int (length a) + int (lsize cs) < 2 ^ 31"
  shows "add_growth (a @ code cs @ z) bias (t - bias) (map (\<lambda>(q, l). (q - bias, l)) (brs (length a) cs)) d =
    Some (d + int (growth (length a) cs t))"
  using assms
proof (induction cs arbitrary: a d)
  case (Cons c cs)
  let ?p = "length a"
  have c: "valid_chunk c" and cs: "list_all valid_chunk cs" using Cons.prems(1) by simp_all
  note max = cgrow_le_max[OF c] disp_small[OF c] growth_le_max[OF cs]
  have IH: "add_growth (a @ cbytes c 0 @ code cs @ z) bias (t - bias) (map (\<lambda>(q, l). (q - bias, l)) (brs (?p + csize c) cs)) d' =
      Some (d' + int (growth (?p + csize c) cs t))" if "0 \<le> d'" "d' + int (lmax cs) < 2 ^ 31" for d'
    using Cons.IH[of "a @ cbytes c 0" d'] Cons.prems that c cs by simp
  show ?case
  proof (cases c)
    case (Jump m args s l)
    obtain bm bk where br: "branch c = (bm, bk)" by fastforce
    note b = branch_valid[OF c Jump br] branch_opcode[OF c Jump br, of a 0 "code cs @ z"] cgrow_branch[OF c Jump br]
    have u: "to_u32 (int (?p + disp c - bias) + int bias) = ?p + disp c"
      using Cons.prems(2,6) max(2) by (simp add: to_u32_def of_nat_diff)
    have le: "jsize bm bk \<le> jsize bm (forms bm - 1)"
      using b(1) by (intro jsize_mono) simp
    have i: "to_i32 (int (jsize bm (forms bm - 1)) - int (jsize bm bk)) = int (cgrow c)"
      using le b(3) max Cons.prems(4,5) by (subst to_i32_small) auto
    have d: "to_i32 (d + int (cgrow c)) = d + int (cgrow c)"
      using max Cons.prems(4,5) by (subst to_i32_small) auto
    show ?thesis
    proof (cases "?p + disp c < t")
      case True
      then have "?p + disp c - bias < t - bias" using Cons.prems(2) by linarith
      moreover have "add_growth (a @ cbytes c 0 @ code cs @ z) bias (t - bias)
          (map (\<lambda>(q, l). (q - bias, l)) (brs (?p + csize c) cs)) (d + int (cgrow c)) =
          Some (d + int (cgrow c) + int (growth (?p + csize c) cs t))"
        using Cons.prems(4,5) max(1) by (intro IH) auto
      ultimately show ?thesis
        using True b(1,2) i d unfolding brs_jump[OF Jump] by (simp add: u)
    next
      case False
      then have "\<not> ?p + disp c - bias < t - bias" using Cons.prems(3) by linarith
      then show ?thesis using False growth_at[OF c, of t ?p cs] unfolding brs_jump[OF Jump] by simp
    qed
  qed (use IH[of d] Cons.prems(4,5) in simp_all)
qed simp

lemma to_i32_to_u32: "- (2 ^ 31) \<le> x \<Longrightarrow> x < 2 ^ 31 \<Longrightarrow> to_i32 (int (to_u32 x)) = x"
proof -
  assume "- (2 ^ 31) \<le> x" "x < 2 ^ 31"
  then have "to_i32 x = x" by (rule to_i32_small)
  moreover have "to_i32 (int (to_u32 x)) = to_i32 (take_bit 32 x)" by (simp add: to_u32_def take_bit_eq_mod)
  ultimately show ?thesis by (simp add: to_i32_def signed_take_bit_take_bit)
qed

text \<open>The entries of \<open>branches_\<close> that are left in a pass, with the keys of before the pass.\<close>

definition old_keys :: "nat \<Rightarrow> nat \<Rightarrow> chunk list \<Rightarrow> (nat \<times> Label) list" where
  "old_keys bias p cs = map (\<lambda>(q, l). (q - bias, l)) (brs p cs)"

lemma wf_layout_D:
  assumes "wf_layout cs"
  shows "list_all valid_chunk cs" "distinct (marks cs)" "set (jumps cs) \<subseteq> set (marks cs)" "lmax cs < 2 ^ 30" "lsize cs < 2 ^ 30"
  using assms lsize_le_max[of cs] by (simp_all add: wf_layout_def)

lemma EstimateMaxDistance_layout:
  assumes wf: "wf_layout (dn @ c # cs)" and e: "bytecode e = code (dn @ c # cs)" "branches e = old_keys bias (lsize dn) (c # cs)"
    and c: "c = Jump m args s l" and bias: "bias \<le> lsize dn" and t: "t \<le> lsize (dn @ c # cs)"
  shows "EstimateMaxDistance e (lsize dn + disp c) t bias =
    Some (int t - int (lsize dn + disp c) + int (growth (lsize dn) (c # cs) t))"
proof -
  note wf = wf_layout_D[OF wf]
  have v: "valid_chunk c" "list_all valid_chunk (c # cs)" and len: "length (code dn) = lsize dn" using wf(1) by simp_all
  let ?p = "lsize dn + disp c"
  have p: "?p \<le> lsize (dn @ c # cs)" using disp_small[OF v(1)] by simp
  have d: "to_i32 (int (to_u32 (int t - int ?p))) = int t - int ?p"
    using wf(5) t p by (intro to_i32_to_u32) auto
  have u: "to_u32 (int x - int bias) = x - bias" if "bias \<le> x" "x \<le> lsize (dn @ c # cs)" for x
    using that wf(5) by (simp add: to_u32_def of_nat_diff flip: of_nat_diff)
  have ge: "?p - bias \<le> q" if mem: "(q, l') \<in> set (branches e)" for q l'
  proof -
    obtain q' where "(q', l') \<in> set (brs (lsize dn) (c # cs))" "q = q' - bias"
      using mem unfolding e(2) old_keys_def by (auto simp del: brs.simps)
    moreover from this have "?p \<le> q'"
      using brs_range[of cs q' l' "lsize dn + csize c"] v disp_small[OF v(1)] by (auto simp: c)
    ultimately show ?thesis by simp
  qed
  consider "t > ?p" | "t < ?p" | "t = ?p" by linarith
  then show ?thesis
  proof cases
    case 1
    have "lower_bound_branches (?p - bias) (branches e) = old_keys bias (lsize dn) (c # cs)"
      unfolding e(2) old_keys_def brs_jump[OF c] by (simp add: lower_bound_branches_def)
    moreover have "add_growth (bytecode e) bias (t - bias) (old_keys bias (lsize dn) (c # cs)) (int t - int ?p) =
        Some (int t - int ?p + int (growth (lsize dn) (c # cs) t))"
      using add_growth_layout[OF v(2), of bias "code dn" t "int t - int ?p" "[]"] bias 1 wf(4,5) t unfolding e(1) old_keys_def len
      by simp
    ultimately show ?thesis
      using 1 bias u[of t] u[of ?p] t p by (simp add: EstimateMaxDistance_def d[unfolded of_nat_add])
  next
    case 2
    have *: "add_growth (bytecode e) bias (?p - bias) (lower_bound_branches k (branches e)) x = Some x" for k x
    proof (cases "lower_bound_branches k (branches e)")
      case (Cons b bs)
      then have "(fst b, snd b) \<in> set (branches e)" unfolding prod.collapse by (metis list.set_intros(1) lower_bound_branches_def set_dropWhileD)
      from ge[OF this] have "\<not> fst b < ?p - bias" by simp
      then show ?thesis unfolding Cons by (cases b) simp
    qed simp
    show ?thesis
      using 2 bias u[of ?p] p growth_at[OF v(1), of t "lsize dn" cs] by (simp add: EstimateMaxDistance_def d[unfolded of_nat_add] *)
  next
    case 3
    then show ?thesis using growth_at[OF v(1), of t "lsize dn" cs] by (simp add: EstimateMaxDistance_def)
  qed
qed

section \<open>Moving the labels\<close>

lemma insert_sorted_end:
  "sorted (map ((!) pcs) (ts @ us)) \<Longrightarrow> foldl (\<lambda>t l. multiset_insert pcs l t) ts us = ts @ us"
proof (induction us arbitrary: ts)
  case (Cons u us)
  have "multiset_insert pcs u ts = ts @ [u]"
    using Cons.prems by (auto simp: multiset_insert_def sorted_append takeWhile_eq_all_conv[THEN iffD2] dropWhile_eq_Nil_conv[THEN iffD2])
  then show ?case using Cons by simp
qed simp

lemma foldl_update:
  "distinct us \<Longrightarrow> l < length ps \<Longrightarrow>
    foldl (\<lambda>p l. p[l := f (p ! l)]) ps us ! l = (if l \<in> set us then f (ps ! l) else ps ! l)"
proof (induction us arbitrary: ps)
  case (Cons u us)
  then show ?case by (cases "l = u") auto
qed simp

lemma length_foldl_update [simp]: "length (foldl (\<lambda>p l. p[l := f (p ! l)]) ps us) = length ps"
  by (induction us arbitrary: ps) simp_all

lemma split_while:
  "(\<forall>x \<in> set a. P x) \<Longrightarrow> (\<forall>x \<in> set b. \<not> P x) \<Longrightarrow> takeWhile P (a @ b) = a \<and> dropWhile P (a @ b) = b"
  by (cases b) (simp_all add: takeWhile_append dropWhile_append)

definition cells :: "Emitter \<Rightarrow> chunk list \<Rightarrow> bool" where
  "cells e cs \<longleftrightarrow> (\<forall>(l, q) \<in> set (labs 0 cs). l < length (pcList e) \<and> pcList e ! l = q)"

lemma cellsD: "cells e cs \<Longrightarrow> (l, q) \<in> set (labs 0 cs) \<Longrightarrow> l < length (pcList e) \<and> pcList e ! l = q"
  unfolding cells_def by (drule (1) bspec) simp

lemma cellsI: "(\<And>l q. (l, q) \<in> set (labs 0 cs) \<Longrightarrow> l < length (pcList e) \<and> pcList e ! l = q) \<Longrightarrow> cells e cs"
  unfolding cells_def by (rule ballI) auto

lemma rep_cells: "rep e cs \<longleftrightarrow> bytecode e = code cs \<and> targets e = marks cs \<and> cells e cs"
  by (simp add: rep_def cells_def)

lemma UpdateLabelTargets_layout:
  assumes wf: "wf_layout (dn @ c # cs)" "wf_layout (dn @ c' # cs)" and e: "targets e = marks (dn @ c # cs)" "cells e (dn @ c # cs)"
    and c: "marks [c] = []" "marks [c'] = []" "csize c' = csize c + x" "0 < csize c"
  shows "\<exists>pcs. UpdateLabelTargets (lsize dn) x e = e\<lparr>pcList := pcs, targets := marks (dn @ c' # cs)\<rparr> \<and>
    cells (e\<lparr>pcList := pcs\<rparr>) (dn @ c' # cs)"
proof -
  note v = wf_layout_D[OF wf(1)] and v' = wf_layout_D[OF wf(2)]
  let ?n = "length (pcList e)" and ?old = "lsize dn + csize c"
  have lb: "labs 0 (dn @ c # cs) = labs 0 dn @ labs ?old cs"
      "labs 0 (dn @ c' # cs) = labs 0 dn @ map (\<lambda>(l, q). (l, q + x)) (labs ?old cs)"
    using c labs_shift[of ?old x cs] by (auto simp: ac_simps split: chunk.splits)
  have mk: "marks (dn @ c # cs) = marks dn @ marks cs" "marks (dn @ c' # cs) = marks dn @ marks cs"
    using c by (auto split: chunk.splits)
  have cell: "l < ?n \<and> pcList e ! l = q" if "(l, q) \<in> set (labs 0 dn) \<or> (l, q) \<in> set (labs ?old cs)" for l q
    using cellsD[OF e(2), of l q] that unfolding lb by auto
  define pcs where "pcs = pcList e @ [lsize dn]"
  have low: "l < ?n \<and> pcs ! l \<le> lsize dn" if l: "l \<in> set (marks dn)" for l
  proof -
    obtain q where "(l, q) \<in> set (labs 0 dn)" using l marks_labs by blast
    then show ?thesis using cell[of l q] labs_range[of l q 0 dn] by (auto simp: pcs_def nth_append)
  qed
  have high: "l < ?n \<and> lsize dn < pcs ! l" if l: "l \<in> set (marks cs)" for l
  proof -
    obtain q where "(l, q) \<in> set (labs ?old cs)" using l marks_labs by blast
    then show ?thesis using cell[of l q] labs_range[of l q ?old cs] c(4) by (auto simp: pcs_def nth_append)
  qed
  have split: "takeWhile (\<lambda>l. pcs ! l \<le> pcs ! ?n) (targets e) = marks dn" "dropWhile (\<lambda>l. pcs ! l \<le> pcs ! ?n) (targets e) = marks cs"
  proof -
    have fake: "pcs ! ?n = lsize dn" by (simp add: pcs_def)
    have "\<forall>l \<in> set (marks dn). pcs ! l \<le> lsize dn" "\<forall>l \<in> set (marks cs). \<not> pcs ! l \<le> lsize dn"
      using low high by (simp_all add: linorder_not_le)
    from split_while[OF this] show "takeWhile (\<lambda>l. pcs ! l \<le> pcs ! ?n) (targets e) = marks dn"
      "dropWhile (\<lambda>l. pcs ! l \<le> pcs ! ?n) (targets e) = marks cs"
      unfolding e(1) mk fake by simp_all
  qed
  define pcs' where "pcs' = foldl (\<lambda>p l. p[l := to_u32 (int (p ! l) + int x)]) pcs (marks cs)"
  have dist: "distinct (marks dn @ marks cs)" using v(2) unfolding mk .
  have len: "length pcs' = Suc ?n" unfolding pcs'_def using length_foldl_update[of "\<lambda>y. to_u32 (int y + int x)" pcs "marks cs"] by (simp add: pcs_def)
  have new: "pcs' ! l = (if l \<in> set (marks cs) then to_u32 (int (pcs ! l) + int x) else pcs ! l)" if "l < ?n" for l
    unfolding pcs'_def using dist that by (subst foldl_update[where f = "\<lambda>y. to_u32 (int y + int x)"]) (auto simp: pcs_def)
  have cell': "l < ?n \<and> pcs' ! l = q" if m: "(l, q) \<in> set (labs 0 (dn @ c' # cs))" for l q
  proof -
    from m consider "(l, q) \<in> set (labs 0 dn)" | q' where "(l, q') \<in> set (labs ?old cs)" "q = q' + x" unfolding lb by auto
    then show ?thesis
    proof cases
      case 1
      then have "l \<in> set (marks dn)" using marks_labs by blast
      then have "l \<notin> set (marks cs)" using dist by auto
      then show ?thesis using cell[of l q] new[of l] 1 by (simp add: pcs_def nth_append)
    next
      case 2
      then have "l \<in> set (marks cs)" using marks_labs by blast
      moreover have "q < 2 ^ 32" using labs_range[OF m] v'(5) by simp
      ultimately show ?thesis using cell[of l q'] new[of l] 2 to_u32_nat[of q] by (simp add: pcs_def nth_append)
    qed
  qed
  have "map ((!) pcs') (marks dn @ marks cs) = map snd (labs 0 (dn @ c' # cs))"
    using cell' unfolding mk(2)[symmetric] fst_labs[of 0 "dn @ c' # cs", symmetric] by (auto simp del: labs_append fst_labs)
  then have ts: "foldl (\<lambda>t l. multiset_insert pcs' l t) (marks dn) (marks cs) = marks (dn @ c' # cs)"
    unfolding mk by (intro insert_sorted_end) (simp only: sorted_labs)
  have "UpdateLabelTargets (lsize dn) x e = e\<lparr>pcList := butlast pcs', targets := marks (dn @ c' # cs)\<rparr>"
    using split ts unfolding UpdateLabelTargets_def Let_def pcs_def[symmetric] pcs'_def by simp
  moreover have "cells (e\<lparr>pcList := butlast pcs'\<rparr>) (dn @ c' # cs)"
  proof (rule cellsI)
    fix l q assume "(l, q) \<in> set (labs 0 (dn @ c' # cs))"
    from cell'[OF this] show "l < length (pcList (e\<lparr>pcList := butlast pcs'\<rparr>)) \<and> pcList (e\<lparr>pcList := butlast pcs'\<rparr>) ! l = q"
      using len by (simp add: nth_butlast)
  qed
  ultimately show ?thesis by blast
qed

section \<open>Reserving space\<close>

lemma suitable_None: "suitable m w = None \<Longrightarrow> m \<noteq> JMP"
  by (auto simp: suitable_def split: if_splits)

lemma jsize_strict: "k < k' \<Longrightarrow> jsize m k < jsize m k'"
  by (simp add: jsize_def)

lemma jsize_lt_far: "k < forms m \<Longrightarrow> m \<noteq> JMP \<Longrightarrow> jsize m k < far_size m"
  by (elim forms_cases) (auto simp: jsize_def far_size_def)

lemma reshape_cases:
  assumes "valid_chunk c"
  obtains "reshape c w = c" | "csize c < csize (reshape c w)" "disp c = 0"
proof (cases c rule: valid_chunk.cases)
  case (1 m args k l)
  have k: "k < forms m" using assms 1 by simp
  show thesis
  proof (cases "w \<le> imm_size (8 * 2 ^ k)")
    case True
    with 1 that(1) show thesis by simp
  next
    case False
    note w = this
    show thesis
    proof (cases "suitable m w")
      case None
      with 1 w that(2) jsize_lt_far[OF k suitable_None] show thesis by simp
    next
      case (Some k')
      with 1 w that(2) jsize_strict[OF suitable_grows[OF Some w k]] show thesis by simp
    qed
  qed
qed (use that in simp_all)

text \<open>The part of the loop body that compares the sizes and makes room.\<close>

lemma make_room:
  assumes v: "valid_chunk c" "list_all valid_chunk dn" and c: "c = Jump m args s l" and br: "branch c = (bm, bk)"
    and small: "lsize dn < 2 ^ 31"
  shows "(if imm_size (8 * 2 ^ bk) < w then UpdateSpaceForOffset (code (dn @ c # cs)) (lsize dn + disp c) w
      else Some (code (dn @ c # cs), 0, lsize dn + disp c)) =
    Some (code (dn @ reshape c w # cs), csize (reshape c w) - csize c, lsize dn + disp (reshape c w))"
proof (cases s)
  case (Form k)
  have k: "k < forms m" "length args = nargs m" and bk: "bm = m" "bk = k" using v(1) br Form by (simp_all add: c)
  have len: "length (code dn) = lsize dn" using v(2) by simp
  show ?thesis
  proof (cases "w \<le> imm_size (8 * 2 ^ k)")
    case True
    then have "\<not> imm_size (8 * 2 ^ k) < w" by simp
    then show ?thesis using True by (simp add: c Form bk)
  next
    case False
    then have lt: "imm_size (8 * 2 ^ k) < w" by simp
    show ?thesis
    proof (cases "suitable m w")
      case None
      then show ?thesis
        using UpdateSpaceForOffset_far[OF suitable_None[OF None] k None, of "code dn" "code cs"] False lt small
        by (simp add: c Form bk len)
    next
      case (Some k')
      then show ?thesis
        using UpdateSpaceForOffset_longer[OF k False Some, of "code dn" "code cs"] False lt by (simp add: c Form bk len)
    qed
  qed
next
  case Far
  have "\<not> imm_size 32 < w" by (cases w) (simp_all add: imm_size_def less_BitImmSize_def)
  then show ?thesis using br by (simp add: c Far)
qed

lemma lab_mem:
  assumes "l \<in> set (marks cs)"
  shows "(l, lab cs l) \<in> set (labs 0 cs)"
proof -
  have "map_of (labs 0 cs) l \<noteq> None" using assms fst_labs[of 0 cs] by (metis map_of_eq_None_iff set_map)
  then show ?thesis unfolding lab_def by (auto intro: map_of_SomeD)
qed

lemma distance_layout:
  assumes wf: "wf_layout (dn @ c # cs)" and e: "rep e (dn @ c # cs)" and c: "c = Jump m args s l" and bias: "bias \<le> lsize dn"
    and br: "branches e = old_keys bias (lsize dn) (c # cs)"
  shows "(if b then EstimateMaxDistance e (lsize dn + disp c) (GetPc e l) bias
      else Some (to_i32 (int (to_u32 (int (GetPc e l) - int (lsize dn + disp c)))))) = Some (distance b dn c cs l)"
    and "GetPc e l = lab (dn @ c # cs) l"
proof -
  note v = wf_layout_D[OF wf]
  have "l \<in> set (marks (dn @ c # cs))" using v(3) c by auto
  note m = lab_mem[OF this]
  show pc: "GetPc e l = lab (dn @ c # cs) l" using e cellsD[OF _ m] by (simp add: rep_cells GetPc_def)
  have t: "lab (dn @ c # cs) l \<le> lsize (dn @ c # cs)" using labs_range[OF m] by simp
  have "lsize dn + disp c \<le> lsize (dn @ c # cs)" using disp_small[of c] v(1) by simp
  then have "to_i32 (int (to_u32 (int (lab (dn @ c # cs) l) - int (lsize dn + disp c)))) =
      int (lab (dn @ c # cs) l) - int (lsize dn + disp c)"
    using t v(5) by (intro to_i32_to_u32) auto
  then show "(if b then EstimateMaxDistance e (lsize dn + disp c) (GetPc e l) bias
      else Some (to_i32 (int (to_u32 (int (GetPc e l) - int (lsize dn + disp c)))))) = Some (distance b dn c cs l)"
    using EstimateMaxDistance_layout[OF wf _ br c bias t] e
    by (simp add: pc distance_def Let_def rep_def del: lsize_simps)
qed

lemma map_insert_end: "\<forall>(q, l') \<in> set m. q < k \<Longrightarrow> map_insert k l m = m @ [(k, l)]"
  by (induction m) (auto simp: map_insert_def Let_def)

lemma brs_snoc: "list_all valid_chunk dn \<Longrightarrow> c = Jump m args s l \<Longrightarrow> map_insert (lsize dn + disp c) l (brs 0 dn) = brs 0 (dn @ [c])"
  using brs_range[of dn _ _ 0] by (subst map_insert_end) (fastforce simp: split_beta)+

lemma old_keys_jump:
  "c = Jump m args s l \<Longrightarrow> old_keys bias p (c # cs) = (p + disp c - bias, l) # old_keys bias (p + csize c) cs"
  by (simp add: old_keys_def)

lemma old_keys_other: "\<not> is_Jump c \<Longrightarrow> old_keys bias p (c # cs) = old_keys bias (p + csize c) cs"
  by (cases c) (simp_all add: old_keys_def)

lemma old_keys_shift: "old_keys (bias + x) (p + x) cs = old_keys bias p cs"
  unfolding old_keys_def brs_shift[of p x] by (simp add: split_beta comp_def)

lemma Reserve_jump:
  fixes b :: bool
  assumes wf: "wf_layout (dn @ c # cs)" and e: "rep e (dn @ c # cs)" and c: "c = Jump m args s l" and bias: "bias \<le> lsize dn"
  defines "c' \<equiv> resize b dn c cs"
  defines "x \<equiv> csize c' - csize c"
  shows "\<exists>e'. Reserve b (old_keys bias (lsize dn) (c # cs)) bias (brs 0 dn) e =
      Reserve b (old_keys (bias + x) (lsize (dn @ [c'])) cs) (bias + x) (brs 0 (dn @ [c'])) e' \<and>
    rep e' (dn @ c' # cs) \<and> wf_layout (dn @ c' # cs) \<and> bias + x \<le> lsize (dn @ [c'])"
proof -
  note v = wf_layout_D[OF wf]
  have vc: "valid_chunk c" "list_all valid_chunk dn" "list_all valid_chunk cs" using v(1) by simp_all
  define e0 where "e0 = e\<lparr>branches := old_keys bias (lsize dn) (c # cs)\<rparr>"
  let ?bs = "old_keys bias (lsize dn + csize c) cs" and ?p = "lsize dn + disp c"
  define w where "w = GetBitLengthSigned (distance b dn c cs l)"
  have e0: "rep e0 (dn @ c # cs)" "branches e0 = old_keys bias (lsize dn) (c # cs)"
    using e by (simp_all add: e0_def rep_def)
  have e0': "e\<lparr>branches := (?p - bias, l) # ?bs\<rparr> = e0" by (simp add: e0_def old_keys_jump[OF c])
  have c': "c' = reshape c w" by (simp add: c'_def resize_def c w_def)
  have vc': "valid_chunk c'" "csize c \<le> csize c'" "unshaped c' = unshaped c" by (simp_all add: c' reshape_props[OF vc(1)])
  have wf': "wf_layout (dn @ c' # cs)"
    using wf_layout_same[OF wf, of "dn @ c' # cs"] vc vc' by simp
  obtain bm bk where br: "branch c = (bm, bk)" by fastforce
  have u: "to_u32 (int (?p - bias) + int bias) = ?p"
    using bias v(5) disp_small[OF vc(1)] by (simp add: to_u32_def of_nat_diff)
  have op: "GetOpcode (bytecode e0) ?p = Some (jopcode bm bk)"
    using branch_opcode[OF vc(1) c br, of "code dn" 0 "code cs"] e0(1) vc(2) by (simp add: rep_def)
  have code0: "bytecode e0 = code (dn @ c # cs)" using e0(1) by (simp only: rep_def)
  have small: "lsize dn < 2 ^ 31" using v(5) by simp
  have room: "(if imm_size (8 * 2 ^ bk) < w then UpdateSpaceForOffset (bytecode e0) ?p w else Some (bytecode e0, 0, ?p)) =
      Some (code (dn @ c' # cs), x, lsize dn + disp c')"
    using make_room[OF vc(1,2) c br small, of w cs] unfolding x_def c' code0 .
  have ins: "map_insert (lsize dn + disp c') l (brs 0 dn) = brs 0 (dn @ [c'])"
  proof -
    obtain s' where "c' = Jump m args s' l" using vc'(3) by (cases c') (auto simp: c)
    from brs_snoc[OF vc(2) this] show ?thesis .
  qed
  let ?e1 = "e0\<lparr>bytecode := code (dn @ c' # cs)\<rparr>"
  have step: "Reserve b (old_keys bias (lsize dn) (c # cs)) bias (brs 0 dn) e =
      (if x > 0 then Reserve b ?bs (to_u32 (int bias + int x)) (brs 0 (dn @ [c'])) (UpdateLabelTargets ?p x ?e1)
       else Reserve b ?bs bias (brs 0 (dn @ [c'])) ?e1)"
    unfolding old_keys_jump[OF c]
    by (simp only: Reserve.simps Let_def e0' u op bind.bind_lunit GetBitImmSizeByOpcode_jump[OF branch_valid[OF vc(1) c br]]
        distance_layout(1)[OF wf e0(1) c bias e0(2)] w_def[symmetric] room prod.case ins)
  have bs: "?bs = old_keys (bias + x) (lsize (dn @ [c'])) cs"
    using old_keys_shift[of bias x "lsize dn + csize c" cs] vc'(2) by (simp add: x_def)
  have bias': "bias + x \<le> lsize (dn @ [c'])" using bias vc'(2) by (simp add: x_def)
  have "lsize (dn @ c' # cs) < 2 ^ 30" using wf_layout_D[OF wf'] by simp
  then have u': "to_u32 (int bias + int x) = bias + x"
    using bias' to_u32_nat[of "bias + x"] by simp
  show ?thesis
  proof (cases "c' = c")
    case True
    then have "x = 0" by (simp add: x_def)
    moreover have "rep ?e1 (dn @ c' # cs)" using e0(1) True by (simp add: rep_def)
    ultimately show ?thesis using step bs wf' bias' by auto
  next
    case False
    with reshape_cases[OF vc(1), of w] have g: "csize c < csize c'" "disp c = 0" by (metis c')+
    have m: "marks [c] = []" "marks [c'] = []" using vc'(3) by (cases c'; simp add: c)+
    have "csize c' = csize c + x" "0 < csize c" using g(1) vc(1) by (auto simp: x_def c jsize_def far_size_def elim: valid_chunk.elims)
    from UpdateLabelTargets_layout[OF wf wf' _ _ m this, of ?e1] e0(1)
    obtain pcs where pcs: "UpdateLabelTargets (lsize dn) x ?e1 = ?e1\<lparr>pcList := pcs, targets := marks (dn @ c' # cs)\<rparr>"
      "cells (?e1\<lparr>pcList := pcs\<rparr>) (dn @ c' # cs)" by (auto simp: rep_def cells_def)
    then have "rep (UpdateLabelTargets ?p x ?e1) (dn @ c' # cs)" using g(2) by (simp add: rep_cells cells_def)
    moreover have "x > 0" using g(1) by (simp add: x_def)
    ultimately show ?thesis using step bs wf' bias' u' by auto
  qed
qed

theorem Reserve_layout:
  assumes "wf_layout (dn @ cs)" "rep e (dn @ cs)" "bias \<le> lsize dn"
  shows "\<exists>e'. Reserve b (old_keys bias (lsize dn) cs) bias (brs 0 dn) e = Some (SUCCESS, e') \<and>
    rep e' (pass b dn cs) \<and> branches e' = brs 0 (pass b dn cs)"
  using assms
proof (induction cs arbitrary: dn e bias)
  case Nil
  then show ?case by (auto simp: old_keys_def rep_def)
next
  case (Cons c cs)
  show ?case
  proof (cases "is_Jump c")
    case True
    then obtain m args s l where c: "c = Jump m args s l" by (cases c) simp_all
    from Reserve_jump[OF Cons.prems(1,2) c Cons.prems(3), of b]
    obtain e' x where e': "Reserve b (old_keys bias (lsize dn) (c # cs)) bias (brs 0 dn) e =
        Reserve b (old_keys (bias + x) (lsize (dn @ [resize b dn c cs])) cs) (bias + x) (brs 0 (dn @ [resize b dn c cs])) e'"
      "rep e' (dn @ resize b dn c cs # cs)" "wf_layout (dn @ resize b dn c cs # cs)" "bias + x \<le> lsize (dn @ [resize b dn c cs])"
      by blast
    then show ?thesis using Cons.IH[of "dn @ [resize b dn c cs]" e' "bias + x"] by (simp del: lsize_simps brs.simps brs_append)
  next
    case False
    then have c: "resize b dn c cs = c" "\<not> is_Jump c" by (cases c; simp add: resize_def)+
    have "brs 0 (dn @ [c]) = brs 0 dn" using c(2) by (cases c) simp_all
    then show ?thesis
      using Cons.IH[of "dn @ [c]" e bias] Cons.prems old_keys_other[OF c(2), of bias "lsize dn" cs] c(1)
      by (simp del: brs.simps brs_append)
  qed
qed

section \<open>Writing the offsets\<close>

text \<open>The code of a layout that starts at \<open>p\<close>, every branch with its offset to its label.\<close>

definition branch_offset :: "nat \<Rightarrow> chunk \<Rightarrow> (Label \<Rightarrow> nat) \<Rightarrow> int" where
  "branch_offset p c L = (case c of Jump m args s l \<Rightarrow> int (L l) - int (p + disp c) | _ \<Rightarrow> 0)"

fun assemble :: "nat \<Rightarrow> chunk list \<Rightarrow> (Label \<Rightarrow> nat) \<Rightarrow> u8 list" where
  "assemble p [] L = []"
| "assemble p (c # cs) L = cbytes c (branch_offset p c L) @ assemble (p + csize c) cs L"

lemma length_assemble [simp]: "list_all valid_chunk cs \<Longrightarrow> length (assemble p cs L) = lsize cs"
  by (induction cs arbitrary: p) simp_all

lemma assemble_append [simp]: "assemble p (xs @ ys) L = assemble p xs L @ assemble (p + lsize xs) ys L"
  by (induction xs arbitrary: p) (simp_all add: add.assoc)

lemma UpdateBranchOffs_chunk:
  assumes "valid_chunk c" "c = Jump m args s l"
  shows "UpdateBranchOffs (a @ cbytes c x @ z) (length a + disp c) off = Some (a @ cbytes c off @ z)"
proof (cases s)
  case (Form k)
  then show ?thesis using assms UpdateBranchOffs_jump by simp
next
  case Far
  then show ?thesis
    using assms UpdateBranchOffs_jump[of 2 JMP "[]" "a @ jump_bytes (inverted m) 0 args (int (far_size m))" x z off]
    by (simp add: far_bytes_def forms_def)
qed

lemma update_branches_layout:
  assumes "list_all valid_chunk cs" "\<forall>l \<in> set (jumps cs). GetPc e l = L l \<and> L l < 2 ^ 31" "length a + lsize cs < 2 ^ 31"
  shows "update_branches (brs (length a) cs) e (a @ code cs) = Some (a @ assemble (length a) cs L)"
  using assms
proof (induction cs arbitrary: a)
  case (Cons c cs)
  have v: "valid_chunk c" using Cons.prems by simp
  have IH: "update_branches (brs (length a + csize c) cs) e (a @ cbytes c x @ code cs) =
      Some (a @ cbytes c x @ assemble (length a + csize c) cs L)" for x
    using Cons.IH[of "a @ cbytes c x"] Cons.prems by simp
  show ?case
  proof (cases c)
    case (Jump m args s l)
    have le: "length a + disp c < 2 ^ 31" using disp_small[OF v] Cons.prems(3) by simp
    have pc: "GetPc e l = L l" "L l < 2 ^ 31" using Cons.prems(2) Jump by simp_all
    have "to_i32 (to_i32 (int (GetPc e l)) - to_i32 (int (length a + disp c))) = branch_offset (length a) c L"
      using pc le by (simp add: Jump branch_offset_def to_i32_small)
    then show ?thesis
      using UpdateBranchOffs_chunk[OF v Jump, of a 0 "code cs" "branch_offset (length a) c L"] IH
      unfolding brs_jump[OF Jump] by (simp add: Let_def)
  qed (use IH[of 0] in \<open>simp_all add: branch_offset_def\<close>)
qed simp

section \<open>Building a layout\<close>

lemma multiset_finds_member:
  "sorted (map ((!) pcs) ts) \<Longrightarrow> l \<in> set ts \<Longrightarrow> multiset_finds pcs l ts"
  by (induction ts) (auto simp: multiset_finds_def)

lemma rep_marks: "rep e cs \<Longrightarrow> map ((!) (pcList e)) (targets e) = map snd (labs 0 cs)"
proof -
  assume e: "rep e cs"
  have "map ((!) (pcList e)) (map fst (labs 0 cs)) = map snd (labs 0 cs)"
    using e cellsD[of e cs] by (auto simp: rep_cells simp del: fst_labs)
  then show ?thesis using e by (simp add: rep_def)
qed

lemma brs_jumps: "(q, l) \<in> set (brs p cs) \<Longrightarrow> l \<in> set (jumps cs)"
  by (induction cs arbitrary: p) (auto split: chunk.splits)

text \<open>The layout after both passes.\<close>

definition built :: "chunk list \<Rightarrow> chunk list" where
  "built cs = pass False [] (pass True [] cs)"

text \<open>What \<open>Build\<close> relies on of a pass over the code: it succeeds on an emitter that represents a layout,
  leaves one that represents the new layout, and changes nothing but the shapes of jumps.\<close>

locale layout_pass =
  fixes run_pass :: "Emitter \<Rightarrow> (ErrorCode \<times> Emitter) option" and layout :: "chunk list \<Rightarrow> chunk list"
  assumes pass_layout: "wf_layout cs \<Longrightarrow> rep e cs \<Longrightarrow> branches e = brs 0 cs \<Longrightarrow>
      \<exists>e'. run_pass e = Some (SUCCESS, e') \<and> rep e' (layout cs) \<and> branches e' = brs 0 (layout cs)"
    and pass_unshaped: "wf_layout cs \<Longrightarrow> map unshaped (layout cs) = map unshaped cs"
    and pass_valid: "wf_layout cs \<Longrightarrow> list_all valid_chunk (layout cs)"
begin

lemma pass_wf: "wf_layout cs \<Longrightarrow> wf_layout (layout cs)"
  using wf_layout_same pass_unshaped pass_valid by blast

lemma pass_marks: "wf_layout cs \<Longrightarrow> marks (layout cs) = marks cs"
  using unshaped_same_list(1) pass_unshaped by blast

lemma pass_reaches:
  assumes "wf_layout cs" "rep e cs" "branches e = brs 0 cs"
  obtains e' where "run_pass e = Some (SUCCESS, e')" "rep e' (layout cs)" "branches e' = brs 0 (layout cs)" "wf_layout (layout cs)"
  using pass_layout[OF assms] pass_wf[OF assms(1)] by blast

end

lemma old_keys_0: "old_keys 0 0 cs = brs 0 cs"
  by (simp add: old_keys_def)

lemma pass_from_start: "layout_pass (ReserveSpaceForOffsets b) (pass b [])"
proof
  fix cs e assume "wf_layout cs" "rep e cs" "branches e = brs 0 cs"
  then show "\<exists>e'. ReserveSpaceForOffsets b e = Some (SUCCESS, e') \<and> rep e' (pass b [] cs) \<and> branches e' = brs 0 (pass b [] cs)"
    using Reserve_layout[of "[]" cs e 0 b] by (simp add: ReserveSpaceForOffsets_def old_keys_0)
qed (simp_all add: pass_props wf_layout_def)

interpretation first_pass: layout_pass "ReserveSpaceForOffsets True" "pass True []"
  by (rule pass_from_start)

interpretation second_pass: layout_pass "ReserveSpaceForOffsets False" "pass False []"
  by (rule pass_from_start)

theorem Build_layout:
  assumes wf: "wf_layout cs" and e: "rep e cs" "branches e = brs 0 cs"
  shows "\<exists>e'. Build e = Some (SUCCESS, e', Some (assemble 0 (built cs) (lab (built cs)))) \<and>
    (\<forall>l \<in> set (marks (built cs)). GetPc e' l = lab (built cs) l)"
proof -
  have check: "CheckLabels e = SUCCESS"
  proof -
    have "multiset_finds (pcList e) l (targets e)" if "(q, l) \<in> set (branches e)" for q l
    proof (rule multiset_finds_member)
      show "sorted (map ((!) (pcList e)) (targets e))" using rep_marks[OF e(1)] sorted_labs by simp
      show "l \<in> set (targets e)" using that brs_jumps wf_layout_D(3)[OF wf] e by (auto simp: rep_def)
    qed
    then show ?thesis by (auto simp: CheckLabels_def list_all_iff)
  qed
  obtain e1 where e1: "ReserveSpaceForOffsets True e = Some (SUCCESS, e1)" "rep e1 (pass True [] cs)"
    "branches e1 = brs 0 (pass True [] cs)" "wf_layout (pass True [] cs)"
    using first_pass.pass_reaches[OF wf e] by blast
  obtain e2 where e2: "ReserveSpaceForOffsets False e1 = Some (SUCCESS, e2)" "rep e2 (built cs)" "branches e2 = brs 0 (built cs)"
    and wf2: "wf_layout (built cs)"
    using second_pass.pass_reaches[OF e1(4,2,3)] unfolding built_def by blast
  note v = wf_layout_D[OF wf2]
  have pc: "GetPc e2 l = lab (built cs) l \<and> lab (built cs) l < 2 ^ 31" if "l \<in> set (marks (built cs))" for l
  proof -
    have m: "(l, lab (built cs) l) \<in> set (labs 0 (built cs))" using that by (intro lab_mem)
    then show ?thesis using e2(2) cellsD[OF _ m, of e2] labs_range[OF m] v(5) by (simp add: rep_cells GetPc_def)
  qed
  then have "update_branches (brs 0 (built cs)) e2 (code (built cs)) = Some (assemble 0 (built cs) (lab (built cs)))"
    using update_branches_layout[of "built cs" e2 "lab (built cs)" "[]"] v(1,3,5) by auto
  then have "UpdateBranches e2 = Some (SUCCESS, e2\<lparr>bytecode := assemble 0 (built cs) (lab (built cs))\<rparr>)"
    using e2(2,3) by (simp add: UpdateBranches_def rep_def)
  then show ?thesis using check e1(1) e2(1) pc by (simp add: Build_def Let_def GetPc_def)
qed

end
