(* ===== verification/Emitter_Fit.thy ===== *)
theory Emitter_Fit
  imports Emitter_Build
begin

text \<open>
  When the offsets fit. The distances that the first pass estimates bound the distances of the layout it
  leaves as long as no conditional jump had to be turned into an inverted jump over a far jump; then the
  second pass changes nothing and every offset fits its field. This holds of all code that has less than
  $2^{15}$ bytes with every jump in its longest form.
\<close>

section \<open>Offsets that fit their fields\<close>

definition fits_off :: "nat \<Rightarrow> int \<Rightarrow> bool" where
  "fits_off width x \<longleftrightarrow> - (2 ^ (width - 1)) \<le> x \<and> x < 2 ^ (width - 1)"

definition field_width :: "chunk \<Rightarrow> nat" where "field_width c = 8 * 2 ^ snd (branch c)"

fun all_jumps :: "(nat \<Rightarrow> chunk \<Rightarrow> bool) \<Rightarrow> nat \<Rightarrow> chunk list \<Rightarrow> bool" where
  "all_jumps P p [] \<longleftrightarrow> True"
| "all_jumps P p (c # cs) \<longleftrightarrow> (is_Jump c \<longrightarrow> P p c) \<and> all_jumps P (p + csize c) cs"

definition fits :: "nat \<Rightarrow> chunk list \<Rightarrow> (Label \<Rightarrow> nat) \<Rightarrow> bool" where
  "fits p cs L \<longleftrightarrow> all_jumps (\<lambda>p c. fits_off (field_width c) (branch_offset p c L)) p cs"

definition far_free :: "chunk list \<Rightarrow> bool" where
  "far_free cs \<longleftrightarrow> list_all (\<lambda>c. case c of Jump m args Far l \<Rightarrow> False | _ \<Rightarrow> True) cs"

lemma all_jumps_append [simp]: "all_jumps P p (xs @ ys) \<longleftrightarrow> all_jumps P p xs \<and> all_jumps P (p + lsize xs) ys"
  by (induction xs arbitrary: p) (simp_all add: add.assoc)

lemma all_jumps_mono:
  assumes "all_jumps P p cs" "list_all valid_chunk cs"
    "\<And>q c. is_Jump c \<Longrightarrow> c \<in> set cs \<Longrightarrow> p \<le> q \<Longrightarrow> q + csize c \<le> p + lsize cs \<Longrightarrow> P q c \<Longrightarrow> Q q c"
  shows "all_jumps Q p cs"
  using assms
proof (induction cs arbitrary: p)
  case (Cons c cs)
  have "all_jumps Q (p + csize c) cs"
    using Cons.prems by (intro Cons.IH) auto
  then show ?case using Cons.prems(1) Cons.prems(3)[of c p] by simp
qed simp

lemma branch_offset_jump: "is_Jump c \<Longrightarrow> branch_offset p c L = int (L (jlabel c)) - int (p + disp c)"
  by (cases c) (simp_all add: branch_offset_def)

lemma far_free_simps [simp]:
  "far_free []" "far_free (xs @ ys) \<longleftrightarrow> far_free xs \<and> far_free ys" "far_free (c # d # cs) \<longleftrightarrow> far_free [c] \<and> far_free (d # cs)"
  by (simp_all add: far_free_def)

lemma far_free_Cons: "far_free [c] \<Longrightarrow> far_free cs \<Longrightarrow> far_free (c # cs)"
  by (cases cs) simp_all

lemma far_free_jump: "far_free [Jump m args s l] \<longleftrightarrow> (\<exists>k. s = Form k)"
  by (cases s) (simp_all add: far_free_def)

lemma GetBitLengthSigned_fits:
  assumes "k \<le> 2" "- (2 ^ 31) \<le> x" "x < 2 ^ 31"
  shows "GetBitLengthSigned x \<le> imm_size (8 * 2 ^ k) \<longleftrightarrow> fits_off (8 * 2 ^ k) x"
proof -
  consider "k = 0" | "k = 1" | "k = 2" using assms(1) by linarith
  then show ?thesis
    using assms(2,3)
    by cases (auto simp: GetBitLengthSigned_def imm_size_def fits_off_def BitImmSize_order)
qed

lemma fits_off_between: "fits_off w y \<Longrightarrow> 0 \<le> x \<Longrightarrow> x \<le> y \<Longrightarrow> fits_off w x"
  by (auto simp: fits_off_def intro: order_trans[of _ 0])

section \<open>The second pass on a layout whose offsets fit\<close>

lemma lab_bound: "l \<in> set (marks cs) \<Longrightarrow> lab cs l \<le> lsize cs"
  using labs_range[OF lab_mem, of l cs] by simp

lemma resize_second:
  assumes "wf_layout (dn @ c # cs)" "is_Jump c"
  shows "resize False dn c cs = c \<longleftrightarrow> fits_off (field_width c) (branch_offset (lsize dn) c (lab (dn @ c # cs)))"
proof -
  obtain m args s l where c: "c = Jump m args s l" using assms(2) by (cases c) simp_all
  note v = wf_layout_D[OF assms(1)]
  let ?d = "int (lab (dn @ c # cs) l) - int (lsize dn + disp c)"
  have "l \<in> set (marks (dn @ c # cs))" using v(3) c by auto
  then have t: "lab (dn @ c # cs) l \<le> lsize (dn @ c # cs)" by (rule lab_bound)
  have vc: "valid_chunk c" using v(1) by simp
  have d: "- (2 ^ 31) \<le> ?d" "?d < 2 ^ 31" using t v(5) disp_small[OF vc] by auto
  have r: "resize False dn c cs = reshape c (GetBitLengthSigned ?d)"
    by (simp add: resize_def distance_def Let_def c)
  have o: "branch_offset (lsize dn) c (lab (dn @ c # cs)) = ?d" by (simp add: branch_offset_def c)
  show ?thesis
  proof (cases s)
    case (Form k)
    then have k: "k < forms m" "k \<le> 2" using vc by (auto simp: c elim: forms_cases)
    show ?thesis
    proof (cases "GetBitLengthSigned ?d \<le> imm_size (8 * 2 ^ k)")
      case True
      then show ?thesis using GetBitLengthSigned_fits[OF k(2) d] unfolding r o by (simp add: c Form field_width_def)
    next
      case False
      then have "resize False dn c cs \<noteq> c"
        using suitable_grows[OF _ False k(1)] unfolding r by (auto simp: c Form split: option.split)
      then show ?thesis using False GetBitLengthSigned_fits[OF k(2) d] unfolding o by (simp add: c Form field_width_def)
    qed
  next
    case Far
    then show ?thesis using d unfolding r o by (simp add: c field_width_def fits_off_def)
  qed
qed

lemma second_pass_idle:
  assumes "wf_layout (dn @ cs)" "fits (lsize dn) cs (lab (dn @ cs))"
  shows "pass False dn cs = dn @ cs"
  using assms
proof (induction cs arbitrary: dn)
  case (Cons c cs)
  have "resize False dn c cs = c"
  proof (cases "is_Jump c")
    case True
    then show ?thesis using resize_second[OF Cons.prems(1) True] Cons.prems(2) by (simp add: fits_def)
  next
    case False
    then show ?thesis by (cases c) (simp_all add: resize_def)
  qed
  then show ?case using Cons.IH[of "dn @ [c]"] Cons.prems by (simp add: fits_def)
qed simp

section \<open>The first pass estimates from above\<close>

lemma growth_shift: "growth (p + x) cs (t + x) = growth p cs t"
proof (induction cs arbitrary: p)
  case (Cons c cs)
  show ?case using Cons[of "p + csize c"] by (simp add: ac_simps)
qed simp

lemma lab_eq: "distinct (marks cs) \<Longrightarrow> (l, q) \<in> set (labs 0 cs) \<Longrightarrow> lab cs l = q"
  using map_of_is_SomeI[of "labs 0 cs" l q] by (simp add: lab_def)

lemma lab_grow:
  assumes wf: "wf_layout (dn @ c # cs)" and c: "is_Jump c" "unshaped c' = unshaped c" "csize c' = csize c + x"
    and l: "l \<in> set (marks (dn @ c # cs))"
  shows "lab (dn @ c # cs) l \<le> lsize dn \<and> lab (dn @ c' # cs) l = lab (dn @ c # cs) l \<or>
    lsize dn + csize c \<le> lab (dn @ c # cs) l \<and> lab (dn @ c' # cs) l = lab (dn @ c # cs) l + x"
proof -
  have m: "marks [c] = []" "marks [c'] = []" using c(1,2) by (cases c; cases c'; simp)+
  have lb: "labs 0 (dn @ c # cs) = labs 0 dn @ labs (lsize dn + csize c) cs"
      "labs 0 (dn @ c' # cs) = labs 0 dn @ map (\<lambda>(l, q). (l, q + x)) (labs (lsize dn + csize c) cs)"
    using m c(3) labs_shift[of "lsize dn + csize c" x cs] by (auto simp: ac_simps split: chunk.splits)
  have d: "distinct (marks (dn @ c # cs))" using wf_layout_D[OF wf] by simp
  then have d': "distinct (marks (dn @ c' # cs))" using m by (simp split: chunk.splits)
  note q = lab_mem[OF l]
  consider "(l, lab (dn @ c # cs) l) \<in> set (labs 0 dn)" | "(l, lab (dn @ c # cs) l) \<in> set (labs (lsize dn + csize c) cs)"
    using q unfolding lb by auto
  then show ?thesis
  proof cases
    case 1
    then have "(l, lab (dn @ c # cs) l) \<in> set (labs 0 (dn @ c' # cs))" unfolding lb by simp
    from lab_eq[OF d' this] show ?thesis using labs_range[OF 1] by simp
  next
    case 2
    then have "(l, lab (dn @ c # cs) l + x) \<in> set (labs 0 (dn @ c' # cs))" unfolding lb by force
    from lab_eq[OF d' this] show ?thesis using labs_range[OF 2] by simp
  qed
qed

text \<open>The offset of the branch \<open>c\<close> at \<open>p\<close>, enlarged by what the branches of \<open>cs\<close> before its label may
  still add.\<close>

definition estimate :: "chunk list \<Rightarrow> chunk list \<Rightarrow> nat \<Rightarrow> chunk \<Rightarrow> int" where
  "estimate dn cs p c =
     branch_offset p c (lab (dn @ cs)) + int (growth (lsize dn) cs (lab (dn @ cs) (jlabel c)))"

definition bounded :: "chunk list \<Rightarrow> chunk list \<Rightarrow> bool" where
  "bounded dn cs \<longleftrightarrow> all_jumps (\<lambda>p c. fits_off (field_width c) (estimate dn cs p c)) 0 dn"

lemma estimate_step:
  assumes wf: "wf_layout (dn @ c # cs)" and c: "is_Jump c" "unshaped c' = unshaped c" "csize c' = csize c + x" "x \<le> cgrow c"
      "disp c = 0"
    and j: "is_Jump j" "p + disp j \<le> lsize dn" "jlabel j \<in> set (marks (dn @ c # cs))"
  shows "estimate (dn @ [c']) cs p j = estimate dn (c # cs) p j \<or>
    0 \<le> estimate (dn @ [c']) cs p j \<and> estimate (dn @ [c']) cs p j \<le> estimate dn (c # cs) p j"
proof -
  let ?t = "lab (dn @ c # cs) (jlabel j)" and ?t' = "lab (dn @ c' # cs) (jlabel j)"
  have vc: "valid_chunk c" using wf_layout_D(1)[OF wf] by simp
  then have size: "0 < csize c" using c(1) by (cases c rule: valid_chunk.cases) (auto simp: jsize_def far_size_def)
  have e: "estimate dn (c # cs) p j = int ?t - int (p + disp j) + int (growth (lsize dn) (c # cs) ?t)"
    "estimate (dn @ [c']) cs p j = int ?t' - int (p + disp j) + int (growth (lsize dn + csize c') cs ?t')"
    by (simp_all add: estimate_def branch_offset_jump[OF j(1)])
  from lab_grow[OF wf c(1-3) j(3)] show ?thesis
  proof
    assume *: "?t \<le> lsize dn \<and> ?t' = ?t"
    then have "growth (lsize dn) (c # cs) ?t = 0" by (intro growth_below) simp
    moreover have "growth (lsize dn + csize c') cs ?t' = 0" using * by (intro growth_below) simp
    ultimately show ?thesis using * unfolding e by simp
  next
    assume *: "lsize dn + csize c \<le> ?t \<and> ?t' = ?t + x"
    then have "growth (lsize dn + csize c') cs ?t' = growth (lsize dn + csize c) cs ?t"
      using growth_shift[of "lsize dn + csize c" x cs ?t] by (simp add: c(3) ac_simps)
    moreover have "growth (lsize dn) (c # cs) ?t = cgrow c + growth (lsize dn + csize c) cs ?t"
      using * size c(5) by simp
    ultimately show ?thesis using * c(4) j(2) unfolding e by simp
  qed
qed

lemma resize_first:
  assumes wf: "wf_layout (dn @ c # cs)" and c: "is_Jump c" "far_free [c]" "far_free [resize True dn c cs]"
  shows "fits_off (field_width (resize True dn c cs)) (estimate dn (c # cs) (lsize dn) c)"
    and "\<exists>x \<le> cgrow c. csize (resize True dn c cs) = csize c + x"
    and "disp c = 0" "disp (resize True dn c cs) = 0" "unshaped (resize True dn c cs) = unshaped c"
proof -
  obtain m args s l where c': "c = Jump m args s l" using c(1) by (cases c) simp_all
  obtain k where s: "s = Form k" using c(2) by (auto simp: c' far_free_jump)
  note v = wf_layout_D[OF wf]
  have vc: "valid_chunk c" and k: "k < forms m" "k \<le> 2" using v(1) by (auto simp: c' s elim: forms_cases)
  let ?d = "estimate dn (c # cs) (lsize dn) c" and ?t = "lab (dn @ c # cs) l"
  have t: "?t \<le> lsize (dn @ c # cs)" using v(3) by (intro lab_bound) (auto simp: c')
  have g: "growth (lsize dn) (c # cs) ?t \<le> lmax (dn @ c # cs)"
    using growth_le_max[of "c # cs" "lsize dn" ?t] v(1) by simp
  have d: "- (2 ^ 31) \<le> ?d" "?d < 2 ^ 31"
    using t g v(4,5) by (auto simp: estimate_def branch_offset_def c' s simp del: growth.simps)
  have r: "resize True dn c cs = reshape c (GetBitLengthSigned ?d)"
    by (simp add: resize_def distance_def estimate_def branch_offset_def Let_def c')
  show "disp c = 0" by (simp add: c' s)
  show "unshaped (resize True dn c cs) = unshaped c" using reshape_props(2)[OF vc] by (simp add: r)
  have "\<exists>k'. resize True dn c cs = Jump m args (Form k') l \<and> k \<le> k' \<and> k' < forms m \<and> GetBitLengthSigned ?d \<le> imm_size (8 * 2 ^ k')"
  proof (cases "GetBitLengthSigned ?d \<le> imm_size (8 * 2 ^ k)")
    case True
    then show ?thesis using k unfolding r by (simp add: c' s)
  next
    case False
    then obtain k' where su: "suitable m (GetBitLengthSigned ?d) = Some k'"
      using c(3) unfolding r by (auto simp: c' s far_free_jump split: option.splits)
    then show ?thesis
      using False suitable_grows[OF su False k(1)] suitable_forms[OF su] suitable_fits[OF su] unfolding r by (simp add: c' s)
  qed
  then obtain k' where k': "resize True dn c cs = Jump m args (Form k') l" "k \<le> k'" "k' < forms m"
    "GetBitLengthSigned ?d \<le> imm_size (8 * 2 ^ k')" by blast
  have "k' \<le> 2" using k'(3) by (auto elim: forms_cases)
  then show "fits_off (field_width (resize True dn c cs)) ?d"
    using GetBitLengthSigned_fits[of k', OF _ d] k'(4) by (simp add: k'(1) field_width_def)
  show "disp (resize True dn c cs) = 0" by (simp add: k'(1))
  have "jsize m k \<le> jsize m k'" "jsize m k' \<le> jsize m (forms m - 1)" using k' by (auto intro: jsize_mono)
  then show "\<exists>x \<le> cgrow c. csize (resize True dn c cs) = csize c + x"
    unfolding k'(1) by (intro exI[of _ "jsize m k' - jsize m k"]) (auto simp: c' s)
qed

lemma pass_prefix: "\<exists>ys. pass b dn cs = dn @ ys"
proof (induction b dn cs rule: pass.induct)
  case (2 b dn c cs)
  then show ?case by auto
qed simp

lemma far_free_pass: "far_free (pass b dn cs) \<Longrightarrow> far_free dn"
  using pass_prefix[of b dn cs] by auto

lemma jump_label_marked:
  "wf_layout cs \<Longrightarrow> j \<in> set cs \<Longrightarrow> is_Jump j \<Longrightarrow> jlabel j \<in> set (marks cs)"
proof -
  assume a: "wf_layout cs" "j \<in> set cs" "is_Jump j"
  from a(2) obtain xs ys where cs: "cs = xs @ j # ys" by (auto dest: split_list)
  have "jlabel j \<in> set (jumps cs)" using a(3) unfolding cs by (cases j) simp_all
  then show ?thesis using wf_layout_D(3)[OF a(1)] by blast
qed

lemma bounded_step:
  assumes wf: "wf_layout (dn @ c # cs)" and c: "is_Jump c" "far_free [c]" "far_free [resize True dn c cs]"
    and b: "bounded dn (c # cs)"
  shows "bounded (dn @ [resize True dn c cs]) cs"
proof -
  let ?c' = "resize True dn c cs"
  note r = resize_first[OF wf c]
  obtain x where x: "x \<le> cgrow c" "csize ?c' = csize c + x" using r(2) by blast
  note step = estimate_step[OF wf c(1) r(5) x(2,1) r(3)]
  have fits: "fits_off w (estimate (dn @ [?c']) cs p j)"
    if "fits_off w (estimate dn (c # cs) p j)" "is_Jump j" "p + disp j \<le> lsize dn" "j \<in> set (dn @ c # cs)" for w p j
    using that step[of j p] jump_label_marked[OF wf that(4,2)] fits_off_between by metis
  have "all_jumps (\<lambda>p j. fits_off (field_width j) (estimate (dn @ [?c']) cs p j)) 0 dn"
  proof (rule all_jumps_mono[OF b[unfolded bounded_def]])
    show v: "list_all valid_chunk dn" using wf_layout_D(1)[OF wf] by simp
    fix q j assume j: "is_Jump j" "j \<in> set dn" "q + csize j \<le> 0 + lsize dn" "fits_off (field_width j) (estimate dn (c # cs) q j)"
    then have "disp j \<le> csize j" using v by (auto simp: list_all_iff intro: disp_small)
    then show "fits_off (field_width j) (estimate (dn @ [?c']) cs q j)" using j by (intro fits) auto
  qed
  moreover have "fits_off (field_width ?c') (estimate (dn @ [?c']) cs (lsize dn) ?c')"
  proof -
    have j: "is_Jump ?c'" "jlabel ?c' = jlabel c" using r(5) c(1) by (cases c; cases ?c'; simp)+
    then have "estimate (dn @ [?c']) cs (lsize dn) ?c' = estimate (dn @ [?c']) cs (lsize dn) c"
      using r(3,4) c(1) by (simp add: estimate_def branch_offset_jump)
    then show ?thesis using fits[of "field_width ?c'" "lsize dn" c] r(1,3) c(1) by simp
  qed
  ultimately show ?thesis by (simp add: bounded_def)
qed

lemma first_pass_bounds:
  assumes "wf_layout (dn @ cs)" "far_free (dn @ cs)" "far_free (pass True dn cs)" "bounded dn cs"
  shows "fits 0 (pass True dn cs) (lab (pass True dn cs))"
  using assms
proof (induction cs arbitrary: dn)
  case Nil
  then show ?case by (simp add: bounded_def fits_def estimate_def)
next
  case (Cons c cs)
  let ?c' = "resize True dn c cs"
  have v: "valid_chunk c" using wf_layout_D(1)[OF Cons.prems(1)] by simp
  have wf: "wf_layout ((dn @ [?c']) @ cs)"
    using wf_layout_same[OF Cons.prems(1), of "dn @ ?c' # cs"] wf_layout_D(1)[OF Cons.prems(1)] resize_props[OF v] by simp
  have ff: "far_free (dn @ [?c'])" using far_free_pass[of True "dn @ [?c']" cs] Cons.prems(3) by simp
  have f: "far_free [c]" "far_free cs" using Cons.prems(2) by (cases cs; simp)+
  have "bounded (dn @ [?c']) cs"
  proof (cases "is_Jump c")
    case True
    then show ?thesis using bounded_step[OF Cons.prems(1) True f(1)] ff Cons.prems(4) by simp
  next
    case False
    then have "?c' = c" "cgrow c = 0" by (cases c; simp add: resize_def)+
    moreover from this have "growth (lsize dn) (c # cs) = growth (lsize dn + csize c) cs" by (intro ext) simp
    ultimately show ?thesis using Cons.prems(4) False by (simp add: bounded_def estimate_def del: growth.simps)
  qed
  then show ?case using Cons.IH[OF wf] ff far_free_Cons[of ?c' cs] f(2) Cons.prems(3) by simp
qed

theorem first_pass_suffices:
  assumes "wf_layout cs" "far_free cs" "far_free (pass True [] cs)"
  shows "built cs = pass True [] cs" "fits 0 (built cs) (lab (built cs))"
proof -
  have f: "fits 0 (pass True [] cs) (lab (pass True [] cs))"
    using first_pass_bounds[of "[]" cs] assms by (simp add: bounded_def)
  have "wf_layout (pass True [] cs)" using wf_layout_pass[of "[]"] assms(1) by simp
  then show "built cs = pass True [] cs" unfolding built_def using second_pass_idle[of "[]"] f by simp
  then show "fits 0 (built cs) (lab (built cs))" using f by simp
qed

section \<open>Short code\<close>

definition longest :: "chunk list \<Rightarrow> nat" where
  "longest cs = sum_list (map (\<lambda>c. csize c + cgrow c) cs)"

lemma growth_le_longest: "growth p cs t + lsize cs \<le> longest cs"
proof (induction cs arbitrary: p)
  case (Cons c cs)
  show ?case using Cons[of "p + csize c"] by (simp add: longest_def)
qed (simp add: longest_def)

lemma longest_resize:
  assumes "valid_chunk c" "far_free [c]" "far_free [resize b dn c cs]"
  shows "csize (resize b dn c cs) + cgrow (resize b dn c cs) = csize c + cgrow c"
proof (cases "is_Jump c")
  case True
  then obtain m args s l where c: "c = Jump m args s l" by (cases c) simp_all
  obtain k where s: "s = Form k" using assms(2) by (auto simp: c far_free_jump)
  have "unshaped (resize b dn c cs) = unshaped c" "valid_chunk (resize b dn c cs)" using resize_props[OF assms(1)] by simp_all
  then obtain k' where k': "resize b dn c cs = Jump m args (Form k') l" "k' < forms m"
    using assms(3) by (cases "resize b dn c cs") (auto simp: c s far_free_jump)
  have "jsize m k \<le> jsize m (forms m - 1)" "jsize m k' \<le> jsize m (forms m - 1)"
    using k'(2) assms(1) by (auto simp: c s intro!: jsize_mono)
  then show ?thesis unfolding k'(1) by (simp add: c s)
qed (cases c; simp add: resize_def)

lemma short_far_free:
  assumes "wf_layout (dn @ cs)" "far_free (dn @ cs)" "longest (dn @ cs) \<le> 32767"
  shows "far_free (pass True dn cs)"
  using assms
proof (induction cs arbitrary: dn)
  case (Cons c cs)
  let ?c' = "resize True dn c cs"
  note v = wf_layout_D[OF Cons.prems(1)]
  have vc: "valid_chunk c" using v by simp
  have f: "far_free dn" "far_free [c]" "far_free cs" using Cons.prems(2) by (cases cs; simp)+
  have c': "far_free [?c']"
  proof (cases c)
    case (Jump m args s l)
    then obtain k where s: "s = Form k" using f(2) by (auto simp: far_free_jump)
    let ?t = "lab (dn @ c # cs) l" and ?d = "distance True dn c cs l"
    have t: "?t \<le> lsize (dn @ c # cs)" using v(3) by (intro lab_bound) (auto simp: Jump)
    have "growth (lsize dn) (c # cs) ?t + lsize (c # cs) \<le> longest (c # cs)" "lsize dn \<le> longest dn"
      using growth_le_longest[of "lsize dn" "c # cs" ?t] growth_le_longest[of 0 dn 0] by (auto simp del: growth.simps)
    then have "growth (lsize dn) (c # cs) ?t + lsize (dn @ c # cs) \<le> 32767"
      using Cons.prems(3) by (simp add: longest_def del: growth.simps)
    then have "- 32768 \<le> ?d" "?d \<le> 32767"
      using t by (auto simp: distance_def Let_def Jump s simp del: growth.simps)
    then have "GetBitLengthSigned ?d \<le> BITSIZE_16" by (auto simp: GetBitLengthSigned_def BitImmSize_order)
    then have "suitable m (GetBitLengthSigned ?d) \<noteq> None" by (simp add: suitable_def)
    then show ?thesis unfolding resize_def chunk.case Jump s by (auto simp: far_free_jump)
  qed (use f(2) in \<open>simp_all add: resize_def\<close>)
  have wf: "wf_layout ((dn @ [?c']) @ cs)"
    using wf_layout_same[OF Cons.prems(1), of "dn @ ?c' # cs"] v(1) resize_props[OF vc] by simp
  have "longest ((dn @ [?c']) @ cs) = longest (dn @ c # cs)"
    using longest_resize[OF vc f(2) c'] by (simp add: longest_def)
  then show ?case using Cons.IH[OF wf] c' far_free_Cons[of ?c' cs] f Cons.prems(3) by simp
qed simp

end
