(* ===== verification/Emitter_Program.thy ===== *)
theory Emitter_Program
  imports Emitter_Fit
begin

text \<open>
  Programs as the client of the emitter writes them: calls of the generated methods and of \<open>Bind\<close> on an
  emitter with fresh labels; and what code means that implements such a program, read back with the
  accessors of \<open>BytecodeInstruction\<close>.
\<close>

section \<open>Programs\<close>

datatype call = Insn group "int list" | JumpTo Mnemonic "int list" Label | Here Label

fun run_call :: "call \<Rightarrow> Emitter \<Rightarrow> Emitter option" where
  "run_call (Insn g args) e = EmitInsn g args e"
| "run_call (JumpTo m args l) e = EmitJump m args l e"
| "run_call (Here l) e = Some (Bind l e)"

fun run :: "call list \<Rightarrow> Emitter \<Rightarrow> Emitter option" where
  "run [] e = Some e"
| "run (c # cs) e = do { e' \<leftarrow> run_call c e; run cs e' }"

fun create_labels :: "nat \<Rightarrow> Emitter \<Rightarrow> Emitter" where
  "create_labels 0 e = e"
| "create_labels (Suc n) e = create_labels n (snd (CreateLabel e))"

definition emit_program :: "nat \<Rightarrow> call list \<Rightarrow> Emitter option" where
  "emit_program n prog = run prog (create_labels n new_emitter)"

definition insn_bytes :: "group \<Rightarrow> int list \<Rightarrow> u8 list option" where
  "insn_bytes g args = map_option bytecode (EmitInsn g args new_emitter)"

text \<open>The layout of a program: every jump in its shortest form.\<close>

fun source :: "call \<Rightarrow> chunk" where
  "source (Insn g args) = Code (the (insn_bytes g args))"
| "source (JumpTo m args l) = Jump m args (Form 0) l"
| "source (Here l) = Mark l"

text \<open>The arguments are those the generated methods take; a register of a jump is a \<open>uint8_t\<close>.\<close>

fun valid_call :: "call \<Rightarrow> bool" where
  "valid_call (Insn g args) \<longleftrightarrow> insn_bytes g args \<noteq> None"
| "valid_call (JumpTo m args l) \<longleftrightarrow> length args = nargs m \<and> list_all (\<lambda>a. 0 \<le> a \<and> a < 256) args"
| "valid_call (Here l) \<longleftrightarrow> True"

definition program :: "nat \<Rightarrow> call list \<Rightarrow> bool" where
  "program n prog \<longleftrightarrow> list_all valid_call prog \<and> distinct (marks (map source prog)) \<and>
     list_all (\<lambda>l. l < n) (marks (map source prog) @ jumps (map source prog)) \<and> lmax (map source prog) < 2 ^ 30"

definition labels_bound :: "call list \<Rightarrow> bool" where
  "labels_bound prog \<longleftrightarrow> set (jumps (map source prog)) \<subseteq> set (marks (map source prog))"

lemma valid_source: "valid_call c \<Longrightarrow> valid_chunk (source c)"
  by (cases c) simp_all

lemma wf_program: "program n prog \<Longrightarrow> labels_bound prog \<Longrightarrow> wf_layout (map source prog)"
  by (auto simp: program_def labels_bound_def wf_layout_def list_all_iff valid_source)

section \<open>Emitting a program\<close>

definition emitted :: "nat \<Rightarrow> Emitter \<Rightarrow> chunk list \<Rightarrow> bool" where
  "emitted n e cs \<longleftrightarrow> rep e cs \<and> branches e = brs 0 cs \<and> cur_pc e = lsize cs \<and> length (pcList e) = n \<and>
     (\<forall>l < n. l \<notin> set (marks cs) \<longrightarrow> pcList e ! l = 0)"

lemma create_labels_eq: "create_labels n e = e\<lparr>pcList := pcList e @ replicate n 0\<rparr>"
  by (induction n arbitrary: e) (simp_all add: CreateLabel_def replicate_append_same)

lemma emitted_fresh: "emitted n (create_labels n new_emitter) []"
  by (simp add: emitted_def rep_def create_labels_eq new_emitter_def)

lemma append_insn_new:
  "append_insn opcode f args e = do { bs \<leftarrow> map_option bytecode (append_insn opcode f args new_emitter);
     Some (e\<lparr>cur_pc := to_u32 (int (cur_pc e) + int (length bs)), bytecode := bytecode e @ bs\<rparr>) }"
  by (cases "Emit f (int opcode # args)") (simp_all add: append_insn_def new_emitter_def)

lemma EmitInsn_bytes:
  assumes "insn_bytes g args = Some bs" "cur_pc e < 2 ^ 32"
  shows "EmitInsn g args e = Some (e\<lparr>cur_pc := to_u32 (int (cur_pc e) + int (length bs)), bytecode := bytecode e @ bs\<rparr>)"
proof -
  have none: "e\<lparr>cur_pc := to_u32 (int (cur_pc e)), bytecode := bytecode e\<rparr> = e" using assms(2) by (simp add: to_u32_nat)
  show ?thesis
  proof (cases "select_insn g args")
    case None
    then show ?thesis using assms(1) none by (simp add: insn_bytes_def EmitInsn_def new_emitter_def)
  next
    case (Some i)
    then show ?thesis using assms(1) append_insn_new[of "fst i" "snd i" args e]
      by (auto simp: insn_bytes_def EmitInsn_def split: prod.splits)
  qed
qed

lemma emitted_jump:
  assumes e: "emitted n e cs" and v: "list_all valid_chunk cs" "length args = nargs m" and s: "lsize cs + jsize m 0 < 2 ^ 32"
  shows "\<exists>e'. EmitJump m args l e = Some e' \<and> emitted n e' (cs @ [Jump m args (Form 0) l])"
proof -
  have hd: "hd (jump_group m) = (jopcode m 0, jfmt m 0)"
    using jump_group_simps[of 0 m] by (cases m) (simp_all add: jump_group_def jump_formats_def has_vreg_def)
  have em: "Emit (jfmt m 0) (int (jopcode m 0) # args @ [0]) = Some (jump_bytes m 0 args 0)"
    using Emit_jump[of 0 m args 0] v(2) by simp
  have "map_insert (cur_pc e) l (branches e) = brs 0 (cs @ [Jump m args (Form 0) l])"
    using brs_snoc[OF v(1) refl, of m args "Form 0" l] e by (simp add: emitted_def)
  then show ?thesis
    using e v s by (auto simp: EmitJump_def hd append_insn_def em emitted_def rep_def to_u32_nat[of "lsize cs + jsize m 0", simplified])
qed

lemma emitted_label:
  assumes e: "emitted n e cs" and l: "l < n" "l \<notin> set (marks cs)"
  shows "emitted n (Bind l e) (cs @ [Mark l])"
proof -
  let ?pcs = "(pcList e)[l := lsize cs]"
  have r: "rep e cs" "cur_pc e = lsize cs" "length (pcList e) = n" using e by (simp_all add: emitted_def)
  have old: "l' < n \<and> ?pcs ! l' = q" if "(l', q) \<in> set (labs 0 cs)" for l' q
  proof -
    have "l' \<noteq> l" using that l(2) marks_labs by metis
    then show ?thesis using cellsD[of e cs l' q] that r by (auto simp: rep_cells)
  qed
  have "?pcs ! l' \<le> ?pcs ! l" if "l' \<in> set (marks cs)" for l'
  proof -
    obtain q where q: "(l', q) \<in> set (labs 0 cs)" using \<open>l' \<in> set (marks cs)\<close> marks_labs by blast
    then show ?thesis using old[OF q] labs_range[OF q] r(3) l(1) by simp
  qed
  then have "multiset_insert ?pcs l (marks cs) = marks cs @ [l]"
    by (simp add: multiset_insert_def takeWhile_eq_all_conv[THEN iffD2] dropWhile_eq_Nil_conv[THEN iffD2])
  moreover have "cells (Bind l e) (cs @ [Mark l])"
  proof (rule cellsI)
    fix l' q assume "(l', q) \<in> set (labs 0 (cs @ [Mark l]))"
    then show "l' < length (pcList (Bind l e)) \<and> pcList (Bind l e) ! l' = q"
      using old[of l' q] r l(1) by (auto simp: Bind_def Let_def)
  qed
  ultimately show ?thesis using e by (simp add: emitted_def rep_cells Bind_def Let_def)
qed

lemma emitted_insn:
  assumes e: "emitted n e cs" and b: "insn_bytes g args = Some bs" and s: "lsize cs + length bs < 2 ^ 32"
  shows "\<exists>e'. EmitInsn g args e = Some e' \<and> emitted n e' (cs @ [Code bs])"
  using EmitInsn_bytes[OF b, of e] e s
  by (auto simp: emitted_def rep_def to_u32_nat[of "lsize cs + length bs", simplified])

lemma run_emitted:
  assumes "emitted n e cs" "list_all valid_call prog" "list_all valid_chunk cs" "distinct (marks (cs @ map source prog))"
    "\<forall>l \<in> set (marks (map source prog)). l < n" "lsize (cs @ map source prog) < 2 ^ 32"
  shows "\<exists>e'. run prog e = Some e' \<and> emitted n e' (cs @ map source prog)"
  using assms
proof (induction prog arbitrary: e cs)
  case (Cons c prog)
  have "\<exists>e1. run_call c e = Some e1 \<and> emitted n e1 (cs @ [source c])"
  proof (cases c)
    case (Insn g args)
    then obtain bs where "insn_bytes g args = Some bs" using Cons.prems(2) by auto
    then show ?thesis using emitted_insn[OF Cons.prems(1)] Cons.prems(6) Insn by simp
  next
    case (JumpTo m args l)
    then show ?thesis using emitted_jump[OF Cons.prems(1,3), of args m l] Cons.prems(2,6) by simp
  next
    case (Here l)
    then show ?thesis using emitted_label[OF Cons.prems(1), of l] Cons.prems(4,5) by simp
  qed
  then obtain e1 where e1: "run_call c e = Some e1" "emitted n e1 (cs @ [source c])" by blast
  have "\<exists>e'. run prog e1 = Some e' \<and> emitted n e' ((cs @ [source c]) @ map source prog)"
    using Cons.prems by (intro Cons.IH e1(2)) (auto simp: valid_source split: chunk.splits)
  then show ?case using e1(1) by simp
qed simp

theorem emit_program_layout:
  assumes "program n prog"
  shows "\<exists>e. emit_program n prog = Some e \<and> emitted n e (map source prog)"
proof -
  have "list_all valid_chunk (map source prog)" using assms by (auto simp: program_def list_all_iff valid_source)
  from lsize_le_max[OF this] have "lsize (map source prog) < 2 ^ 32" using assms by (simp add: program_def)
  then show ?thesis
    unfolding emit_program_def using run_emitted[OF emitted_fresh, of prog n] assms
    by (auto simp: program_def list_all_iff)
qed

section \<open>Reading the code\<close>

text \<open>The jump at \<open>at\<close>: mnemonic, register, the place it goes to, and its size.\<close>

definition decode_jump :: "u8 list \<Rightarrow> nat \<Rightarrow> (Mnemonic \<times> int list \<times> int \<times> nat) option" where
  "decode_jump out at = do {
     opcode \<leftarrow> GetOpcode out at;
     (m, k) \<leftarrow> jump_of opcode;
     let f = snd (jump_group m ! k);
     args \<leftarrow> (if has_vreg m then map_option (\<lambda>v. [int v]) (ReadField out at 8 8) else Some []);
     off \<leftarrow> ReadSigned out at (last (butlast (OFF f))) (imm_width f);
     Some (m, args, int at + off, fmt_size f) }"

text \<open>Code from \<open>at\<close> on implements a program, the labels being at \<open>L\<close>: the bytes of every instruction are
  there, and in place of every jump there is one with its register that goes to its label, or its inverse
  over a far jump to the label.\<close>

fun implements :: "u8 list \<Rightarrow> nat \<Rightarrow> call list \<Rightarrow> (Label \<Rightarrow> nat) \<Rightarrow> bool" where
  "implements out at [] L \<longleftrightarrow> at = length out"
| "implements out at (Insn g args # cs) L \<longleftrightarrow>
     (let bs = the (insn_bytes g args) in take (length bs) (drop at out) = bs \<and> implements out (at + length bs) cs L)"
| "implements out at (Here l # cs) L \<longleftrightarrow> L l = at \<and> implements out at cs L"
| "implements out at (JumpTo m args l # cs) L \<longleftrightarrow>
     (case decode_jump out at of
        None \<Rightarrow> False
      | Some (m', args', target, sz) \<Rightarrow>
          args' = args \<and>
          (m' = m \<and> target = int (L l) \<and> implements out (at + sz) cs L \<or>
           m \<noteq> JMP \<and> m' = inverted m \<and>
             decode_jump out (at + sz) = Some (JMP, [], int (L l), 5) \<and> target = int (at + sz + 5) \<and>
             implements out (at + sz + 5) cs L))"

lemma le_Suc: "le (Suc n) x = word_of_int x # le n (drop_bit 8 x)"
proof -
  have "[0..<Suc n] = 0 # map Suc [0..<n]" by (simp add: map_Suc_upt upt_conv_Cons)
  then show ?thesis by (simp add: le_def comp_def add.commute)
qed

lemma read_le: "int (foldr (\<lambda>b v. unat b + 256 * v) (le n x) 0) = x mod 2 ^ (8 * n)"
proof (induction n arbitrary: x)
  case (Suc n)
  have "int (unat (word_of_int x :: u8)) = x mod 2 ^ 8" by (simp add: uint_word_of_int)
  then have "int (foldr (\<lambda>b v. unat b + 256 * v) (le (Suc n) x) 0) = x mod 2 ^ 8 + 2 ^ 8 * ((x div 2 ^ 8) mod 2 ^ (8 * n))"
    using Suc[of "drop_bit 8 x"] by (simp add: le_Suc drop_bit_eq_div)
  also have "\<dots> = x mod (2 ^ 8 * 2 ^ (8 * n))" by (subst zmod_zmult2_eq) simp_all
  finally show ?case by (simp add: power_add)
qed (simp add: le_def)

lemma fits_off_signed:
  assumes "fits_off w x" "0 < w"
  shows "signed_take_bit (w - 1) (x mod 2 ^ w) = x"
proof -
  have "signed_take_bit (w - 1) (take_bit w x) = signed_take_bit (w - 1) x"
    using assms(2) by (auto simp: signed_take_bit_take_bit)
  also have "\<dots> = x" using assms by (intro signed_take_bit_int_eq_self) (simp_all add: fits_off_def)
  finally show ?thesis by (simp add: take_bit_eq_mod)
qed

lemma ReadSigned_le:
  assumes "fits_off (8 * n) x" "0 < n" "length b = i"
  shows "ReadSigned (a @ (b @ le n x) @ z) (length a) (8 * i) (8 * n) = Some x"
proof -
  let ?v = "foldr (\<lambda>b v. unat b + 256 * v) (le n x) 0"
  have "int (take_bit (8 * n) ?v) = x mod 2 ^ (8 * n)"
    by (simp add: take_bit_eq_mod zmod_int read_le)
  moreover have "(8 * i + 8 * n + 7) div 8 = i + n" by simp
  ultimately show ?thesis
    using fits_off_signed[OF assms(1)] assms(2,3) by (simp add: ReadSigned_def ReadField_def Let_def)
qed

lemma decode_jump_bytes:
  assumes k: "k < forms m" "length args = nargs m" "list_all (\<lambda>a. 0 \<le> a \<and> a < 256) args" and off: "fits_off (8 * 2 ^ k) off"
  shows "decode_jump (a @ jump_bytes m k args off @ z) (length a) = Some (m, args, int (length a) + off, jsize m k)"
proof -
  let ?code = "a @ jump_bytes m k args off @ z"
  have "ReadSigned ?code (length a) (8 * (1 + nargs m)) (8 * 2 ^ k) = Some off"
    using ReadSigned_le[OF off, of "of_nat (jopcode m k) # map word_of_int args" "1 + nargs m" a z] k(2)
    by (simp add: jump_bytes_def)
  moreover have "last (butlast (OFF (jfmt m k))) = 8 * (1 + nargs m)"
    using k(1) by (cases rule: nargs_cases[of m]; simp add: OFF_jump)+
  moreover have "(if has_vreg m then map_option (\<lambda>v. [int v]) (ReadField ?code (length a) 8 8) else Some []) = Some args"
  proof (cases "has_vreg m")
    case True
    then obtain r where r: "args = [r]" "0 \<le> r" "r < 256" using k(2,3) by (auto simp: nargs_def length_Suc_conv)
    then have "int (unat (word_of_int r :: u8)) = r" by (simp add: uint_word_of_int)
    moreover have "take_bit 8 (unat (word_of_int r :: u8)) = unat (word_of_int r :: u8)"
      using unsigned_less[of "word_of_int r :: u8"] by (simp add: take_bit_nat_eq_self_iff)
    ultimately show ?thesis using True by (simp add: r(1) ReadField_def jump_bytes_def)
  qed (use k(2) in \<open>simp add: nargs_def\<close>)
  ultimately show ?thesis
    using k(1) by (simp add: decode_jump_def jump_group_simps Let_def)
qed

end
