(* ===== verification/Emitter_Fields.thy ===== *)
theory Emitter_Fields
  imports Emitter_Program
begin

text \<open>
  Instructions of any format: what \<open>Emit\<close> writes, \<open>BytecodeInstruction\<close> reads back, and the format that a
  generated method chooses holds its arguments. The bytes of an instruction are seen as one number, lowest
  byte first: writing a field at bit \<open>p\<close> adds a multiple of \<open>2 ^ p\<close>, because the buffer is zero from there on.
\<close>

section \<open>Bytes as a number\<close>

definition num :: "u8 list \<Rightarrow> nat" where "num bs = foldr (\<lambda>b v. unat b + 256 * v) bs 0"

lemma num_simps [simp]: "num [] = 0" "num (b # bs) = unat b + 256 * num bs"
  by (simp_all add: num_def)

lemma num_append: "num (xs @ ys) = num xs + 256 ^ length xs * num ys"
  by (induction xs) (simp_all add: algebra_simps)

lemma num_zeros [simp]: "num (replicate n 0) = 0"
  by (induction n) simp_all

lemma unat_byte: "unat (b :: u8) < 256" using unsigned_less[of b] by simp

lemma num_less: "num bs < 256 ^ length bs"
proof (induction bs)
  case (Cons b bs)
  then have "num bs + 1 \<le> 256 ^ length bs" by simp
  then show ?case using unat_byte[of b] by simp
qed simp

lemma num_take: "num (take n bs) = num bs mod 256 ^ n"
proof (induction bs arbitrary: n)
  case (Cons b bs)
  show ?case
  proof (cases n)
    case (Suc k)
    have "(unat b + 256 * num bs) mod (256 * 256 ^ k) = unat b + 256 * (num bs mod 256 ^ k)"
      using unat_byte[of b] by (simp add: mod_mult2_eq)
    then show ?thesis using Cons[of k] Suc by simp
  qed simp
qed simp

lemma num_drop: "num (drop n bs) = num bs div 256 ^ n"
proof (induction bs arbitrary: n)
  case (Cons b bs)
  show ?case
  proof (cases n)
    case (Suc k)
    have "(unat b + 256 * num bs) div (256 * 256 ^ k) = num bs div 256 ^ k"
      using unat_byte[of b] by (simp add: div_mult2_eq)
    then show ?thesis using Cons[of k] Suc by simp
  qed simp
qed simp

lemma num_le: "int (num (le n x)) = x mod 2 ^ (8 * n)"
  unfolding num_def by (rule read_le)

lemma mod_mult_div: "0 < a \<Longrightarrow> x mod (a * k) div a = x div a mod k" for x :: nat
  by (simp add: mod_mult2_eq)

lemma ReadField_num:
  assumes "8 * length bs \<ge> p + w" "w > 0"
  shows "ReadField bs 0 p w = Some (num bs div 2 ^ p mod 2 ^ w)"
proof -
  let ?i = "p div 8" and ?n = "(p + w + 7) div 8 - p div 8"
  have n: "?n = (p mod 8 + w + 7) div 8"
  proof -
    have "p + w + 7 = (p mod 8 + w + 7) + 8 * ?i" by simp
    then have "(p + w + 7) div 8 = (p mod 8 + w + 7) div 8 + ?i" by (metis div_mult_self2 zero_neq_numeral add.commute)
    then show ?thesis by simp
  qed
  have len: "?i + ?n \<le> length bs" using assms(1) by linarith
  have le: "?i \<le> (p + w + 7) div 8" by (rule div_le_mono) simp
  have "p mod 8 + w \<le> 8 * ?n" unfolding n by linarith
  then have 1: "num bs div 256 ^ ?i mod 256 ^ ?n div 2 ^ (p mod 8) mod 2 ^ w = num bs div 256 ^ ?i div 2 ^ (p mod 8) mod 2 ^ w"
  proof -
    obtain d where d: "8 * ?n = p mod 8 + w + d" using \<open>p mod 8 + w \<le> 8 * ?n\<close> le_Suc_ex by blast
    have "(256 :: nat) ^ ?n = 2 ^ (p mod 8) * (2 ^ w * 2 ^ d)"
      by (simp only: power_add[symmetric] add.assoc[symmetric] d[symmetric]) (simp add: power_mult)
    then show ?thesis by (simp add: mod_mult_div mod_mod_cancel)
  qed
  have "(256 :: nat) ^ ?i = 2 ^ (8 * ?i)" by (simp only: power_mult) simp
  then have "(256 :: nat) ^ ?i * 2 ^ (p mod 8) = 2 ^ (8 * ?i + p mod 8)" by (simp only: power_add)
  then have "num bs div 256 ^ ?i div 2 ^ (p mod 8) = num bs div 2 ^ p" by (simp add: div_mult2_eq[symmetric])
  then show ?thesis
    using len le 1 by (simp add: ReadField_def Let_def num_def[symmetric] num_take num_drop take_bit_eq_mod drop_bit_eq_div)
qed

section \<open>Writing fields\<close>

lemma store_num:
  assumes "i + length bs \<le> length buf" "num buf < 256 ^ i"
  shows "\<exists>buf'. store buf i bs = Some buf' \<and> length buf' = length buf \<and> num buf' = num buf + 256 ^ i * num bs"
proof -
  have "num buf div 256 ^ (i + length bs) = 0"
    using assms(2) by (simp add: power_add div_mult2_eq)
  then have "num (take i buf @ bs @ drop (i + length bs) buf) = num buf + 256 ^ i * num bs"
    using assms by (simp add: num_append num_take num_drop)
  then show ?thesis using assms(1) by (simp add: store_def)
qed

text \<open>A nibble is written over the byte at \<open>i\<close>, whose bits from \<open>r\<close> on are zero.\<close>

lemma or_nibble:
  assumes "unat b < 2 ^ r" "r = 0 \<or> r = 4"
  shows "unat (b OR push_bit r ((word_of_int x :: u8) AND 0xF)) = unat b + 2 ^ r * nat (x mod 16)"
proof -
  let ?v = "(word_of_int x :: u8) AND 0xF"
  have v: "?v = take_bit 4 (word_of_int x)" by (simp add: take_bit_eq_mask mask_eq_exp_minus_1)
  have uv: "unat ?v = nat (x mod 16)"
  proof -
    have "uint ?v = take_bit 4 (take_bit 8 x)" unfolding v by (simp add: unsigned_take_bit_eq uint_word_of_int_eq)
    then have "uint ?v = x mod 16" using mod_mod_cancel[of 16 256 x] by (simp add: take_bit_eq_mod)
    then show ?thesis by (simp add: unat_eq_nat_uint)
  qed
  have "b AND push_bit r ?v = 0"
  proof (rule bit_word_eqI)
    fix n assume n: "n < LENGTH(8)"
    have "\<not> bit b n" if "r \<le> n" using assms(1) that n unat_less_power_iff_bit[of b r] by simp
    then show "bit (b AND push_bit r ?v) n = bit 0 n" by (auto simp: bit_and_iff bit_push_bit_iff)
  qed
  then have "b OR push_bit r ?v = b + push_bit r ?v" by (simp add: disjunctive_add_eq_or)
  moreover have "unat (push_bit r ?v) = 2 ^ r * nat (x mod 16)"
    using assms(2) uv by (auto simp: push_bit_eq_mult unat_word_ariths)
  moreover have "unat b + 2 ^ r * nat (x mod 16) < 256"
    using assms by (auto simp: nat_less_iff)
  ultimately show ?thesis by (simp add: unat_word_ariths)
qed

text \<open>The formats of \<^verbatim>\<open>isa.yaml\<close>: fields of 4 bits at half a byte, and of whole bytes at a byte.\<close>

fun aligned :: "nat \<Rightarrow> (OperandKind \<times> nat) list \<Rightarrow> bool" where
  "aligned p [] \<longleftrightarrow> p mod 8 = 0"
| "aligned p ((kind, w) # xs) \<longleftrightarrow>
     (w = 4 \<and> p mod 4 = 0 \<or> w \<in> {8, 16, 32, 64} \<and> p mod 8 = 0) \<and> aligned (p + w) xs"

text \<open>Every field of the number holds its argument.\<close>

fun fields_hold :: "nat \<Rightarrow> (OperandKind \<times> nat) list \<Rightarrow> int list \<Rightarrow> nat \<Rightarrow> bool" where
  "fields_hold p ((kind, w) # xs) (arg # args) v \<longleftrightarrow> int (v div 2 ^ p mod 2 ^ w) = arg mod 2 ^ w \<and> fields_hold (p + w) xs args v"
| "fields_hold p [] [] v \<longleftrightarrow> True"
| "fields_hold p xs args v \<longleftrightarrow> False"

lemma EmitImpl_bytes:
  assumes "w \<in> {8, 16, 32, 64}"
  shows "EmitImpl buf (p # (p + w) # offs) (arg # args) =
    (case store buf (p div 8) (le (w div 8) arg) of None \<Rightarrow> None | Some b \<Rightarrow> EmitImpl b ((p + w) # offs) args)"
proof -
  consider k where "k \<le> 2" "w = 8 * 2 ^ k" | "w = 64"
  proof -
    have "w = 8 * 2 ^ 0 \<or> w = 8 * 2 ^ 1 \<or> w = 8 * 2 ^ 2 \<or> w = 64" using assms by auto
    then show thesis using that by (metis le_numeral_extra(4) nat_le_linear one_le_numeral zero_le)
  qed
  then show ?thesis
  proof cases
    case 1
    show ?thesis unfolding 1(2) using EmitImpl_field[OF 1(1), of buf p offs arg args] by (simp del: EmitImpl.simps)
  next
    case 2
    have "le 8 x = [word_of_int x, word_of_int (drop_bit 8 x), word_of_int (drop_bit 16 x), word_of_int (drop_bit 24 x),
        word_of_int (drop_bit 32 x), word_of_int (drop_bit 40 x), word_of_int (drop_bit 48 x), word_of_int (drop_bit 56 x)]" for x
      by (simp add: le_def upt_rec)
    then show ?thesis
      by (simp add: 2 ucast_and_255 ucast_drop_bit ucast_word_of_int upt_rec split: option.split)
  qed
qed

lemma pow_256: "p mod 8 = 0 \<Longrightarrow> (256 :: nat) ^ (p div 8) = 2 ^ p"
proof -
  assume "p mod 8 = 0"
  then have p: "p = 8 * (p div 8)" by presburger
  have "(256 :: nat) ^ (p div 8) = 2 ^ (8 * (p div 8))" by (simp only: power_mult) simp
  then show ?thesis using p by simp
qed

lemma EmitImpl_one:
  assumes w: "w = 4 \<and> p mod 4 = 0 \<or> w \<in> {8, 16, 32, 64} \<and> p mod 8 = 0" and len: "p + w \<le> 8 * length buf" and z: "num buf < 2 ^ p"
  shows "\<exists>buf'. EmitImpl buf (p # (p + w) # offs) (arg # args) = EmitImpl buf' ((p + w) # offs) args \<and>
    length buf' = length buf \<and> num buf' = num buf + 2 ^ p * nat (arg mod 2 ^ w)"
  using w
proof
  assume w: "w = 4 \<and> p mod 4 = 0"
  let ?i = "p div 8" and ?r = "p mod 8"
  have r: "?r = 0 \<or> ?r = 4" using w by presburger
  have i: "?i < length buf" using len w by linarith
  have pw: "(2 :: nat) ^ p = 256 ^ ?i * 2 ^ ?r"
  proof -
    have "(256 :: nat) ^ ?i = 2 ^ (8 * ?i)" by (simp only: power_mult) simp
    then show ?thesis by (simp only: power_add[symmetric]) simp
  qed
  have hi: "num (drop ?i buf) < 2 ^ ?r"
    using z unfolding num_drop pw by (simp add: div_less_iff_less_mult mult.commute)
  obtain b rest where d: "drop ?i buf = b # rest" using i by (metis Cons_nth_drop_Suc)
  have "2 ^ ?r \<le> (16 :: nat)" using r by auto
  then have rest: "num rest = 0" and b: "unat b < 2 ^ ?r" using hi unfolding d by simp_all
  let ?b = "b OR push_bit ?r ((word_of_int arg :: u8) AND 0xF)"
  have buf: "buf = take ?i buf @ b # rest" using d by (metis append_take_drop_id)
  have nth: "nth_opt buf ?i = Some b" using i d by (simp add: nth_opt_eq_Some nth_via_drop)
  have "store buf ?i [?b] = Some (take ?i buf @ ?b # rest)"
    using i d by (simp add: store_def) (metis drop_Suc tl_drop list.sel(3))
  moreover have "num (take ?i buf @ ?b # rest) = num buf + 2 ^ p * nat (arg mod 16)"
  proof -
    have "num buf = num (take ?i buf) + 256 ^ ?i * unat b"
      using i rest by (subst buf) (simp add: num_append del: append_take_drop_id)
    then show ?thesis
      using or_nibble[OF b r, of arg] i rest unfolding pw by (simp add: num_append algebra_simps)
  qed
  moreover have "length (take ?i buf @ ?b # rest) = length buf" by (subst (2) buf) simp
  ultimately show ?thesis using w nth by (intro exI[of _ "take ?i buf @ ?b # rest"]) (simp add: Let_def)
next
  assume w: "w \<in> {8, 16, 32, 64} \<and> p mod 8 = 0"
  then have p: "(256 :: nat) ^ (p div 8) = 2 ^ p" using pow_256 by simp
  have "p div 8 + length (le (w div 8) arg) \<le> length buf" using len w by auto
  from store_num[OF this] z obtain buf' where b: "store buf (p div 8) (le (w div 8) arg) = Some buf'" "length buf' = length buf"
    "num buf' = num buf + 2 ^ p * num (le (w div 8) arg)" unfolding p by blast
  have "8 * (w div 8) = w" using w by auto
  then have "num (le (w div 8) arg) = nat (arg mod 2 ^ w)" using num_le[of "w div 8" arg] by (metis nat_int)
  then show ?thesis using w b EmitImpl_bytes[of w buf p offs arg args] by auto
qed

lemma EmitImpl_fields:
  assumes "aligned p ops" "length args = length ops" "p + sum_list (map snd ops) = 8 * length buf" "num buf < 2 ^ p"
  shows "\<exists>bs. EmitImpl buf (field_offsets p ops @ [8 * length buf]) args = Some bs \<and> length bs = length buf \<and>
    num bs mod 2 ^ p = num buf \<and> fields_hold p ops args (num bs)"
  using assms
proof (induction ops arbitrary: p args buf)
  case (Cons x xs)
  obtain kind w where x: "x = (kind, w)" by fastforce
  obtain arg args' where args: "args = arg # args'" "length args' = length xs" using Cons.prems(2) by (cases args) simp_all
  have w: "w = 4 \<and> p mod 4 = 0 \<or> w \<in> {8, 16, 32, 64} \<and> p mod 8 = 0" and al: "aligned (p + w) xs"
    using Cons.prems(1) by (simp_all add: x)
  have E: "p + w + sum_list (map snd xs) = 8 * length buf" using Cons.prems(3) by (simp add: x)
  obtain offs where offs: "field_offsets (p + w) xs @ [8 * length buf] = (p + w) # offs"
    using E by (cases xs) auto
  obtain buf' where b: "EmitImpl buf (p # (p + w) # offs) (arg # args') = EmitImpl buf' ((p + w) # offs) args'"
    "length buf' = length buf" "num buf' = num buf + 2 ^ p * nat (arg mod 2 ^ w)"
    using EmitImpl_one[OF w _ Cons.prems(4), of offs arg args'] E by auto
  let ?a = "nat (arg mod 2 ^ w)"
  have a: "?a < 2 ^ w" by (simp add: nat_less_iff)
  have "num buf + 2 ^ p * ?a < 2 ^ p * (?a + 1)" using Cons.prems(4) by simp
  moreover have "2 ^ p * (?a + 1) \<le> 2 ^ p * (2 :: nat) ^ w" by (rule mult_le_mono2) (use a in linarith)
  ultimately have small: "num buf' < 2 ^ (p + w)" unfolding b(3) power_add by linarith
  obtain bs where bs: "EmitImpl buf' (field_offsets (p + w) xs @ [8 * length buf']) args' = Some bs" "length bs = length buf"
    "num bs mod 2 ^ (p + w) = num buf'" "fields_hold (p + w) xs args' (num bs)"
    using Cons.IH[OF al args(2) _ small] E b(2) by auto
  have "num bs mod 2 ^ p = num bs mod 2 ^ (p + w) mod 2 ^ p" by (simp add: power_add mod_mod_cancel)
  then have low: "num bs mod 2 ^ p = num buf" using Cons.prems(4) by (simp add: bs(3) b(3))
  have "num bs div 2 ^ p mod 2 ^ w = num bs mod 2 ^ (p + w) div 2 ^ p" by (simp add: power_add mod_mult_div)
  then have "num bs div 2 ^ p mod 2 ^ w = ?a" using Cons.prems(4) by (simp add: bs(3) b(3))
  then have "int (num bs div 2 ^ p mod 2 ^ w) = arg mod 2 ^ w" by simp
  then show ?case
    using bs b low offs by (intro exI[of _ bs]) (simp add: x args del: EmitImpl.simps)
qed simp

section \<open>Reading the operands\<close>

fun read_operands :: "u8 list \<Rightarrow> nat \<Rightarrow> (OperandKind \<times> nat) list \<Rightarrow> int list option" where
  "read_operands bs p [] = Some []"
| "read_operands bs p ((kind, w) # xs) = do {
     v \<leftarrow> (if kind = Imm then ReadSigned bs 0 p w else map_option int (ReadField bs 0 p w));
     vs \<leftarrow> read_operands bs (p + w) xs;
     Some (v # vs) }"

definition representable :: "OperandKind \<times> nat \<Rightarrow> int \<Rightarrow> bool" where
  "representable x arg \<longleftrightarrow> (if fst x = Imm then fits_off (snd x) arg else 0 \<le> arg \<and> arg < 2 ^ snd x)"

lemma read_operands_hold:
  assumes "fields_hold p ops args (num bs)" "list_all2 representable ops args" "p + sum_list (map snd ops) \<le> 8 * length bs"
    "aligned p ops"
  shows "read_operands bs p ops = Some args"
  using assms
proof (induction ops arbitrary: p args)
  case (Cons x xs)
  obtain kind w where x: "x = (kind, w)" by fastforce
  obtain arg args' where args: "args = arg # args'" using Cons.prems(2) by (cases args) simp_all
  have w: "w > 0" "p + w \<le> 8 * length bs" using Cons.prems(3,4) by (auto simp: x)
  note R = ReadField_num[OF w(2,1)]
  have h: "int (num bs div 2 ^ p mod 2 ^ w) = arg mod 2 ^ w" using Cons.prems(1) by (simp add: x args)
  have "read_operands bs (p + w) xs = Some args'"
    using Cons.IH[of "p + w" args'] Cons.prems by (simp add: x args)
  moreover have "(if kind = Imm then ReadSigned bs 0 p w else map_option int (ReadField bs 0 p w)) = Some arg"
  proof (cases "kind = Imm")
    case True
    then have "fits_off w arg" using Cons.prems(2) by (simp add: x args representable_def)
    from fits_off_signed[OF this w(1)] show ?thesis using True R by (simp add: ReadSigned_def h)
  next
    case False
    then have "arg mod 2 ^ w = arg" using Cons.prems(2) by (simp add: x args representable_def)
    then show ?thesis using False R h by simp
  qed
  ultimately show ?case by (simp add: x args)
qed simp

definition valid_opcode :: "Format \<Rightarrow> nat \<Rightarrow> bool" where
  "valid_opcode f opcode \<longleftrightarrow> (if prefixed f then opcode < 2 ^ 16 \<and> min_prefix \<le> opcode mod 256 else opcode < min_prefix)"

definition start_bit :: "Format \<Rightarrow> nat" where "start_bit f = (if prefixed f then 16 else 8)"

lemma GetOpcode_num:
  assumes "num bs mod 2 ^ start_bit f = opcode" "valid_opcode f opcode" "start_bit f \<le> 8 * length bs"
  shows "GetOpcode bs 0 = Some opcode"
proof -
  obtain b rest where bs: "bs = b # rest" using assms(3) by (cases bs) (auto simp: start_bit_def split: if_splits)
  show ?thesis
  proof (cases "prefixed f")
    case True
    then obtain c rest' where r: "rest = c # rest'" using assms(3) bs by (cases rest) (auto simp: start_bit_def)
    have v: "(unat b + 256 * (unat c + 256 * num rest')) mod 65536 = opcode" using assms(1) True by (simp add: bs r start_bit_def)
    have "unat b + 256 * unat c < 65536" using unat_byte[of b] unat_byte[of c] by simp
    moreover have "unat b + 256 * (unat c + 256 * num rest') = (unat b + 256 * unat c) + num rest' * 65536" by simp
    ultimately have op: "opcode = unat b + 256 * unat c" using v by (simp only: mod_mult_self1 mod_less)
    moreover have "opcode mod 256 = unat b" using unat_byte[of b] by (simp add: op)
    ultimately show ?thesis using assms(2) True by (simp add: GetOpcode_def bs r valid_opcode_def algebra_simps)
  next
    case False
    then have "unat b = opcode" using assms(1) unat_byte[of b] by (simp add: bs start_bit_def)
    then show ?thesis using assms(2) False by (simp add: GetOpcode_def bs valid_opcode_def)
  qed
qed

lemma Emit_fields:
  assumes al: "aligned (start_bit f) (operands f)" and op: "valid_opcode f opcode" and args: "list_all2 representable (operands f) args"
  shows "\<exists>bs. Emit f (int opcode # args) = Some bs \<and> length bs = fmt_size f \<and> GetOpcode bs 0 = Some opcode \<and>
    read_operands bs (start_bit f) (operands f) = Some args"
proof -
  let ?ops = "(Ident, start_bit f) # operands f" and ?buf = "replicate (fmt_size f) (0 :: u8)"
  have mod8: "aligned p xs \<Longrightarrow> (p + sum_list (map snd xs)) mod 8 = 0" for p xs
    by (induction p xs rule: aligned.induct) (auto simp: add.assoc)
  have size: "start_bit f + sum_list (map snd (operands f)) = 8 * fmt_size f"
  proof -
    have "(16 + S) mod 8 = 0 \<Longrightarrow> 16 + S = 8 * (S div 8 + 2)" "(8 + S) mod 8 = 0 \<Longrightarrow> 8 + S = 8 * (S div 8 + 1)" for S :: nat
      by presburger+
    then show ?thesis using mod8[OF al] unfolding fmt_size_def start_bit_def by (cases "prefixed f") (simp_all only: if_True if_False)
  qed
  have off: "OFF f = field_offsets 0 ?ops @ [8 * length ?buf]"
    by (simp add: OFF_def start_bit_def mult.commute)
  have "aligned 0 ?ops" using al by (simp add: start_bit_def)
  moreover have "length (int opcode # args) = length ?ops" using args by (simp add: list_all2_lengthD)
  ultimately obtain bs where bs: "Emit f (int opcode # args) = Some bs" "length bs = fmt_size f"
    "fields_hold 0 ?ops (int opcode # args) (num bs)"
    using EmitImpl_fields[of 0 ?ops "int opcode # args" ?buf] size unfolding Emit_def off by auto
  have "int (num bs mod 2 ^ start_bit f) = int (opcode mod 2 ^ start_bit f)" using bs(3) by (simp add: zmod_int)
  moreover have "opcode < 2 ^ start_bit f" using op by (auto simp: valid_opcode_def start_bit_def min_prefix_def split: if_splits)
  ultimately have "num bs mod 2 ^ start_bit f = opcode" by simp
  from GetOpcode_num[OF this op] have "GetOpcode bs 0 = Some opcode" using size bs(2) by simp
  moreover have "read_operands bs (start_bit f) (operands f) = Some args"
    using read_operands_hold[OF _ args _ al, of bs] bs(2,3) size by simp
  ultimately show ?thesis using bs by blast
qed

section \<open>Choosing a format\<close>

text \<open>The types of the arguments of a generated method with several formats: \<open>int32_t\<close> for an immediate and
  \<open>uint16_t\<close> for a register or an identifier, in fields of at most 32 bits; a method with one format does not
  choose, and has no such limit.\<close>

definition typed_arg :: "OperandKind \<times> nat \<Rightarrow> int \<Rightarrow> bool" where
  "typed_arg x arg \<longleftrightarrow> snd x \<le> 32 \<and> (if fst x = Imm then - (2 ^ 31) \<le> arg \<and> arg < 2 ^ 31 else 0 \<le> arg \<and> arg < 2 ^ 16)"

definition valid_group :: "group \<Rightarrow> int list \<Rightarrow> bool" where
  "valid_group g args \<longleftrightarrow> list_all (\<lambda>(opcode, f). valid_opcode f opcode \<and> aligned (start_bit f) (operands f) \<and>
     (1 < length g \<longrightarrow> list_all2 typed_arg (operands f) args)) g"

lemma GetBitLengthUnsigned_fits:
  assumes "0 \<le> a" "a < 2 ^ 16" "w \<in> {4, 8, 16, 32}"
  shows "GetBitLengthUnsigned a \<le> imm_size w \<longleftrightarrow> a < 2 ^ w"
proof -
  have "unat (word_of_int a :: u32) = nat a"
  proof -
    have "uint (word_of_int a :: u32) = a" using assms(1,2) by (simp add: uint_word_of_int)
    then show ?thesis by (simp add: unat_eq_nat_uint)
  qed
  then show ?thesis
    using assms by (auto simp: GetBitLengthUnsigned_def Let_def MinimumBitsToStore_le_iff imm_size_def BitImmSize_order nat_less_iff)
qed

lemma bitlen_representable:
  assumes "typed_arg x a" "snd x \<in> {4, 8, 16, 32}"
  shows "bitlen (fst x) a \<le> imm_size (snd x) \<longleftrightarrow> representable x a"
proof (cases "fst x = Imm")
  case True
  then have "to_i32 a = a" using assms(1) by (simp add: typed_arg_def to_i32_small)
  then show ?thesis using True assms
    by (auto simp: bitlen_def representable_def GetBitLengthSigned_def imm_size_def fits_off_def BitImmSize_order typed_arg_def)
next
  case False
  then show ?thesis using assms GetBitLengthUnsigned_fits[of a "snd x"]
    by (auto simp: bitlen_def representable_def typed_arg_def)
qed

lemma aligned_widths: "aligned p ops \<Longrightarrow> x \<in> set ops \<Longrightarrow> snd x \<in> {4, 8, 16, 32, 64}"
  by (induction p ops rule: aligned.induct) auto

lemma fmt_accepts_iff:
  assumes "aligned p (operands f)" "list_all2 typed_arg (operands f) args"
  shows "fmt_accepts f args \<longleftrightarrow> list_all2 representable (operands f) args"
proof -
  have "bitlen (fst (operands f ! i)) (args ! i) \<le> imm_size (snd (operands f ! i)) \<longleftrightarrow> representable (operands f ! i) (args ! i)"
    if i: "i < length args" for i
  proof (rule bitlen_representable)
    show "typed_arg (operands f ! i) (args ! i)" using assms(2) i by (simp add: list_all2_conv_all_nth)
    then show "snd (operands f ! i) \<in> {4, 8, 16, 32}"
      using aligned_widths[OF assms(1), of "operands f ! i"] assms(2) i by (auto simp: typed_arg_def list_all2_conv_all_nth)
  qed
  then show ?thesis
    unfolding fmt_accepts_def using assms(2) by (auto simp: list_all2_conv_all_nth split_beta)
qed

lemma find_split: "find P xs = Some x \<Longrightarrow> \<exists>a b. xs = a @ x # b \<and> P x \<and> list_all (\<lambda>y. \<not> P y) a"
proof (induction xs)
  case (Cons y xs)
  show ?case
  proof (cases "P y")
    case True
    then show ?thesis using Cons.prems by (intro exI[of _ "[]"] exI[of _ xs]) simp
  next
    case False
    then obtain a b where "xs = a @ x # b" "P x" "list_all (\<lambda>y. \<not> P y) a" using Cons by auto
    then show ?thesis using False by (intro exI[of _ "y # a"] exI[of _ b]) simp
  qed
qed simp

end
