(* ===== verification/Emitter_Correct.thy ===== *)
theory Emitter_Correct
  imports Emitter_Fields
begin

text \<open>
  The properties of the bytecode emitter: what \<open>Build\<close> returns for a program, that the code implements the
  program, when the estimates of the first pass suffice, and the errors.
\<close>

section \<open>Code that implements a program\<close>

lemma source_JumpTo: "unshaped c = Jump m args s l \<Longrightarrow> \<exists>s'. c = Jump m args s' l \<and> s = Form 0"
  by (cases c) auto

lemma assemble_implements:
  assumes "list_all valid_call prog" "map unshaped cs = map source prog" "list_all valid_chunk cs" "fits (length a) cs L"
    "\<forall>(l, q) \<in> set (labs (length a) cs). L l = q"
  shows "implements (a @ assemble (length a) cs L) (length a) prog L"
  using assms
proof (induction prog arbitrary: cs a)
  case (Cons p prog)
  then obtain c cs' where cs: "cs = c # cs'" "unshaped c = source p" "map unshaped cs' = map source prog" by (cases cs) simp_all
  have v: "valid_chunk c" using Cons.prems(3) cs by simp
  let ?off = "branch_offset (length a) c L"
  have IH: "implements (a @ cbytes c x @ assemble (length a + csize c) cs' L) (length a + csize c) prog L" for x
    using Cons.IH[of cs' "a @ cbytes c x"] Cons.prems cs v by (simp add: fits_def)
  show ?case
  proof (cases p)
    case (Insn g args)
    then have "c = Code (the (insn_bytes g args))" using cs(2) by (cases c) simp_all
    then show ?thesis using IH[of ?off] by (simp add: Insn cs(1) Let_def)
  next
    case (Here l)
    then have "c = Mark l" using cs(2) by (cases c) simp_all
    then show ?thesis using IH[of ?off] Cons.prems(5) by (simp add: Here cs(1))
  next
    case (JumpTo m args l)
    then obtain s where c: "c = Jump m args s l" using cs(2) source_JumpTo[of c m args "Form 0" l] by auto
    have args: "length args = nargs m" "list_all (\<lambda>a. 0 \<le> a \<and> a < 256) args" using Cons.prems(1) JumpTo by simp_all
    have off: "fits_off (field_width c) ?off" using Cons.prems(4) cs(1) c by (simp add: fits_def)
    let ?rest = "assemble (length a + csize c) cs' L"
    show ?thesis
    proof (cases s)
      case (Form k)
      then have k: "k < forms m" "fits_off (8 * 2 ^ k) ?off" using v off by (simp_all add: c field_width_def)
      have "decode_jump (a @ cbytes c ?off @ ?rest) (length a) = Some (m, args, int (L l), csize c)"
        using decode_jump_bytes[OF k(1) args k(2), of a ?rest] by (simp add: c Form branch_offset_def)
      then show ?thesis using IH[of ?off] by (simp add: JumpTo cs(1))
    next
      case Far
      then have m: "m \<noteq> JMP" "fits_off 32 ?off" using v off by (simp_all add: c field_width_def)
      have 1: "decode_jump (a @ cbytes c ?off @ ?rest) (length a) = Some (inverted m, args, int (length a) + int (far_size m), jsize m 0)"
        using decode_jump_bytes[of 0 "inverted m" args "int (far_size m)" a "jump_bytes JMP 2 [] ?off @ ?rest"] args m(1)
        by (cases rule: far_size_cases[of m]) (simp_all add: c Far far_bytes_def fits_off_def)
      have 2: "decode_jump (a @ cbytes c ?off @ ?rest) (length a + jsize m 0) = Some (JMP, [], int (L l), 5)"
        using decode_jump_bytes[of 2 JMP "[]" ?off "a @ jump_bytes (inverted m) 0 args (int (far_size m))" ?rest] args m
        by (simp add: c Far far_bytes_def forms_def branch_offset_def)
      have "csize c = jsize m 0 + 5" by (simp add: c Far far_size_def)
      then show ?thesis using IH[of ?off] 1 2 m(1) by (simp add: JumpTo cs(1) far_size_def add.assoc)
    qed
  qed
qed simp

lemma assemble_cong: "\<forall>l \<in> set (jumps cs). L l = L' l \<Longrightarrow> assemble p cs L = assemble p cs L'"
  by (induction cs arbitrary: p) (auto simp: branch_offset_def split: chunk.splits)

lemma fits_cong: "\<forall>l \<in> set (jumps cs). L l = L' l \<Longrightarrow> fits p cs L = fits p cs L'"
  unfolding fits_def by (induction cs arbitrary: p) (auto simp: branch_offset_def split: chunk.splits)

lemma far_free_source: "far_free (map source prog)"
proof (induction prog)
  case (Cons c prog)
  then show ?case by (cases c) (auto intro!: far_free_Cons simp: far_free_def)
qed simp

lemma build_program:
  assumes "program n prog" "labels_bound prog"
  shows "\<exists>e e'. emit_program n prog = Some e \<and>
    Build e = Some (SUCCESS, e', Some (assemble 0 (built (map source prog)) (lab (built (map source prog))))) \<and>
    (\<forall>l \<in> set (marks (map source prog)). GetPc e' l = lab (built (map source prog)) l)"
proof -
  let ?cs = "map source prog"
  have wf: "wf_layout ?cs" using assms by (rule wf_program)
  obtain e where e: "emit_program n prog = Some e" "rep e ?cs" "branches e = brs 0 ?cs"
    using emit_program_layout[OF assms(1)] by (auto simp: emitted_def)
  have "map unshaped (built ?cs) = map unshaped ?cs"
    using pass_props[of "[]"] wf_layout_D(1)[OF wf] by (simp add: built_def)
  from unshaped_same_list(1)[OF this] have "marks (built ?cs) = marks ?cs" .
  then show ?thesis using Build_layout[OF wf e(2,3)] e(1) by auto
qed

lemma build_implements:
  assumes p: "program n prog" "labels_bound prog" and f: "fits 0 (built (map source prog)) (lab (built (map source prog)))"
  shows "\<exists>e e' out. emit_program n prog = Some e \<and> Build e = Some (SUCCESS, e', Some out) \<and> implements out 0 prog (GetPc e')"
proof -
  let ?cs = "map source prog" and ?bs = "built (map source prog)"
  obtain e e' where e: "emit_program n prog = Some e" "Build e = Some (SUCCESS, e', Some (assemble 0 ?bs (lab ?bs)))"
    "\<forall>l \<in> set (marks ?cs). GetPc e' l = lab ?bs l" using build_program[OF p] by blast
  have wf: "wf_layout ?cs" using p by (rule wf_program)
  have wf': "wf_layout ?bs" using wf_layout_pass[of "[]"] wf by (simp add: built_def)
  have un: "map unshaped ?bs = map unshaped ?cs" using pass_props[of "[]"] wf_layout_D(1)[OF wf] by (simp add: built_def)
  have un': "map unshaped ?cs = map source prog" by (simp add: comp_def) (metis source.elims unshaped.simps)
  note mk = unshaped_same_list(1)[OF un]
  have eq: "\<forall>l \<in> set (marks ?bs). lab ?bs l = GetPc e' l" using e(3) mk by simp
  then have eq': "\<forall>l \<in> set (jumps ?bs). lab ?bs l = GetPc e' l" using wf_layout_D(3)[OF wf'] by blast
  have pos: "GetPc e' l = q" if "(l, q) \<in> set (labs 0 ?bs)" for l q
    using lab_eq[OF wf_layout_D(2)[OF wf'] that] eq that marks_labs by metis
  have "implements ([] @ assemble (length ([] :: u8 list)) ?bs (GetPc e')) (length ([] :: u8 list)) prog (GetPc e')"
  proof (rule assemble_implements)
    show "list_all valid_call prog" using p(1) by (simp add: program_def)
    show "map unshaped ?bs = map source prog" using un un' by simp
    show "list_all valid_chunk ?bs" using wf_layout_D(1)[OF wf'] .
    show "fits (length ([] :: u8 list)) ?bs (GetPc e')" using f fits_cong[OF eq'] by simp
    show "\<forall>(l, q) \<in> set (labs (length ([] :: u8 list)) ?bs). GetPc e' l = q" using pos by auto
  qed
  then show ?thesis using e(1,2) assemble_cong[OF eq'] by auto
qed

text \<open>A program for the witnesses: \<open>jne v16, l; ldai 1000; l:\<close>.\<close>

definition ldai_group :: group where
  "ldai_group = zip [0x13, 0x14, 0x15] [F_IMM8, F_IMM16, F_IMM32]"

definition demo_calls :: "call list" where
  "demo_calls = [JumpTo JNE [16] 0, Insn ldai_group [1000], Here 0]"

lemmas emit_defs = insn_bytes_def EmitInsn_def select_insn_def fmt_accepts_def bitlen_def GetBitLengthSigned_def
  append_insn_def Emit_def OFF_def fmt_size_def formats ldai_group_def imm_size_def BitImmSize_order store_def new_emitter_def

lemma ldai_bytes: "insn_bytes ldai_group [1000] = Some [0x14, 0xe8, 3]" "insn_bytes ldai_group [1] = Some [0x13, 1]"
  by (simp_all add: emit_defs to_i32_small Let_def)

lemma demo_calls_ok: "program 1 demo_calls" "labels_bound demo_calls" "longest (map source demo_calls) \<le> 32767"
  by (simp_all add: demo_calls_def program_def labels_bound_def longest_def ldai_bytes nargs_def has_vreg_def far_size_def jsize_def forms_def)

lemma demo_first_pass: "far_free (pass True [] (map source demo_calls))"
  using short_far_free[of "[]"] wf_program[OF demo_calls_ok(1,2)] far_free_source demo_calls_ok(3) by simp

lemma Reserve_success: "Reserve b bs bias newb e = Some (r, e') \<Longrightarrow> r = SUCCESS"
proof (induction bs arbitrary: bias newb e)
  case (Cons x bs)
  obtain key l where x: "x = (key, l)" by fastforce
  have "\<exists>bias' newb' e1. Reserve b bs bias' newb' e1 = Some (r, e')"
    using Cons.prems unfolding x Reserve.simps Let_def bind_eq_Some_conv 
    by (elim exE conjE) (simp only: split_paired_all prod.case split: if_split_asm; blast)
  then show ?case using Cons.IH by blast
qed simp

section \<open>The properties\<close>

text \<open>C10: Two passes are enough. If no conditional jump needs the far form in the first pass, then the
  distances \<open>EstimateMaxDistance\<close> computes while the code still grows bound the final ones: the second call of
  \<open>ReserveSpaceForOffsets\<close> succeeds and leaves the bytecode and the label positions as they are, and the
  offset of every branch to its label fits the immediate of the instruction chosen in the first pass.\<close>

theorem emitter_first_pass_suffices:
  assumes "program n prog" "labels_bound prog" "far_free (pass True [] (map source prog))"
    and "emit_program n prog = Some e" "ReserveSpaceForOffsets True e = Some (res, e1)"
  shows "\<exists>e2. ReserveSpaceForOffsets False e1 = Some (SUCCESS, e2) \<and> bytecode e2 = bytecode e1 \<and>
    list_all (\<lambda>l. GetPc e2 l = GetPc e1 l) (marks (map source prog)) \<and>
    fits 0 (pass True [] (map source prog)) (GetPc e2)"
proof -
  let ?cs = "map source prog" and ?ps = "pass True [] (map source prog)"
  have wf: "wf_layout ?cs" using assms(1,2) by (rule wf_program)
  obtain e0 where e0: "emit_program n prog = Some e0" "rep e0 ?cs" "branches e0 = brs 0 ?cs"
    using emit_program_layout[OF assms(1)] by (auto simp: emitted_def)
  have e1: "rep e1 ?ps" "branches e1 = brs 0 ?ps" and wf1: "wf_layout ?ps"
    using first_pass.pass_reaches[OF wf e0(2,3)] e0(1) assms(4,5) by auto
  note idle = first_pass_suffices[OF wf far_free_source assms(3)]
  obtain e2 where e2: "ReserveSpaceForOffsets False e1 = Some (SUCCESS, e2)" "rep e2 ?ps"
    using second_pass.pass_reaches[OF wf1 e1] idle(1) unfolding built_def by metis
  note mk = first_pass.pass_marks[OF wf]
  have pc: "GetPc e' l = lab ?ps l" if "rep e' ?ps" "l \<in> set (marks ?cs)" for e' l
    using cellsD[of e' ?ps l "lab ?ps l"] lab_mem[of l ?ps] that mk by (simp add: rep_cells GetPc_def)
  have "\<forall>l \<in> set (jumps ?ps). lab ?ps l = GetPc e2 l" using pc[OF e2(2)] wf_layout_D(3)[OF wf1] mk by (metis subsetD)
  then have "fits 0 ?ps (GetPc e2)" using idle fits_cong by metis
  then show ?thesis using e1(1) e2 pc by (auto simp: rep_def list_all_iff)
qed

theorem emitter_first_pass_suffices_witness:
  "\<exists>e e1 e2. emit_program 1 demo_calls = Some e \<and> ReserveSpaceForOffsets True e = Some (SUCCESS, e1) \<and>
    ReserveSpaceForOffsets False e1 = Some (SUCCESS, e2) \<and> bytecode e2 = bytecode e1"
proof -
  obtain e where e: "emit_program 1 demo_calls = Some e" "rep e (map source demo_calls)" "branches e = brs 0 (map source demo_calls)"
    using emit_program_layout[OF demo_calls_ok(1)] by (auto simp: emitted_def)
  then obtain e1 where e1: "ReserveSpaceForOffsets True e = Some (SUCCESS, e1)"
    using first_pass.pass_reaches[OF wf_program[OF demo_calls_ok(1,2)] e(2,3)] by blast
  with e(1) show ?thesis
    using emitter_first_pass_suffices[OF demo_calls_ok(1,2) demo_first_pass e(1) e1] by auto
qed

text \<open>C5: \<open>Build\<close> is correct. Let a program of instructions, jumps and labels be emitted, with every label it jumps
  to bound, whose code has less than $2^{15}$ bytes when every jump takes its longest form. Then \<open>Build\<close> succeeds
  and its output implements the program: read from the start with the accessors of \<open>BytecodeInstruction\<close>, it has
  the bytes of the instructions in order, in place of every jump a jump of that mnemonic with the same
  register whose immediate leads to the position of its label, and nothing else.\<close>

theorem emitter_build_correct:
  assumes "program n prog" "labels_bound prog" "longest (map source prog) \<le> 32767"
  shows "\<exists>e e' out. emit_program n prog = Some e \<and> Build e = Some (SUCCESS, e', Some out) \<and> implements out 0 prog (GetPc e')"
proof (rule build_implements[OF assms(1,2)])
  have wf: "wf_layout (map source prog)" using assms(1,2) by (rule wf_program)
  have "far_free (pass True [] (map source prog))"
    using short_far_free[of "[]"] wf far_free_source assms(3) by simp
  then show "fits 0 (built (map source prog)) (lab (built (map source prog)))"
    using first_pass_suffices(2)[OF wf far_free_source] by simp
qed

theorem emitter_build_correct_witness:
  "\<exists>e e' out. emit_program 1 demo_calls = Some e \<and> Build e = Some (SUCCESS, e', Some out) \<and> implements out 0 demo_calls (GetPc e')"
  using emitter_build_correct[OF demo_calls_ok] .

text \<open>C9: \<open>Build\<close> refines the pass over layouts. For every program below $2^{30}$ bytes whose labels are bound,
  however far its jumps go, \<open>Build\<close> succeeds, and its output is the layout that the two passes compute, assembled with
  the offsets of the branches to their labels; if these fit their fields then the output implements the
  program, far jumps included.\<close>

theorem emitter_refines_layout:
  assumes "program n prog" "labels_bound prog"
  shows "\<exists>e e' out. emit_program n prog = Some e \<and> Build e = Some (SUCCESS, e', Some out) \<and>
    out = assemble 0 (built (map source prog)) (lab (built (map source prog))) \<and>
    (fits 0 (built (map source prog)) (lab (built (map source prog))) \<longrightarrow> implements out 0 prog (GetPc e'))"
  using build_program[OF assms] build_implements[OF assms] by auto

theorem emitter_refines_layout_witness:
  "\<exists>e e' out. emit_program 1 demo_calls = Some e \<and> Build e = Some (SUCCESS, e', Some out) \<and>
    out = assemble 0 (built (map source demo_calls)) (lab (built (map source demo_calls)))"
  using emitter_refines_layout[OF demo_calls_ok(1,2)] by blast

section \<open>Unbound labels\<close>

lemma multiset_finds_iff:
  assumes "sorted (map ((!) pcs) ts)"
  shows "multiset_finds pcs l ts \<longleftrightarrow> pcs ! l \<in> (!) pcs ` set ts"
  using assms by (induction ts) (auto simp: multiset_finds_def)

lemma Build_unbound_iff: "Build e = Some (UNBOUND_LABELS, e', r) \<longleftrightarrow> CheckLabels e = UNBOUND_LABELS \<and> e' = e \<and> r = None"
proof -
  have "CheckLabels e = SUCCESS \<or> CheckLabels e = UNBOUND_LABELS" by (simp add: CheckLabels_def)
  then show ?thesis
    by (auto simp: Build_def Let_def bind_eq_Some_conv ReserveSpaceForOffsets_def UpdateBranches_def split: if_splits dest: Reserve_success)
qed

text \<open>C26: Unbound labels. \<open>Build\<close> refuses a program with \<open>UNBOUND_LABELS\<close>, leaving the emitter as it was and assigning
  no output, exactly if it has a jump to a label that is not bound and no label is bound at position 0, the
  program counter an unbound label has.\<close>

theorem emitter_unbound_labels:
  assumes "program n prog"
  shows "\<exists>e. emit_program n prog = Some e \<and>
    (Build e = Some (UNBOUND_LABELS, e, None) \<longleftrightarrow>
      \<not> labels_bound prog \<and> \<not> list_ex (\<lambda>(l, q). q = 0) (labs 0 (map source prog)))"
proof -
  let ?cs = "map source prog"
  obtain e where e: "emit_program n prog = Some e" "emitted n e ?cs" using emit_program_layout[OF assms] by blast
  then have r: "rep e ?cs" "branches e = brs 0 ?cs" unfolding emitted_def by blast+
  then have r': "targets e = marks ?cs" by (simp add: rep_def)
  note finds = multiset_finds_iff[of "pcList e" "targets e", unfolded rep_marks[OF r(1)], OF sorted_labs]
  have cells: "(!) (pcList e) ` set (targets e) = snd ` set (labs 0 ?cs)"
    using rep_marks[OF r(1)] by (metis set_map)
  have zero: "pcList e ! l = 0" if "l \<in> set (jumps ?cs)" "l \<notin> set (marks ?cs)" for l
    using e(2) that assms by (auto simp: emitted_def program_def list_all_iff)
  have "multiset_finds (pcList e) l (targets e) \<longleftrightarrow> l \<in> set (marks ?cs) \<or> 0 \<in> snd ` set (labs 0 ?cs)" if "l \<in> set (jumps ?cs)" for l
  proof (cases "l \<in> set (marks ?cs)")
    case True
    then show ?thesis using finds r' by auto
  next
    case False
    then show ?thesis using finds[of l] zero[OF that False] cells by simp
  qed
  moreover have "CheckLabels e = UNBOUND_LABELS \<longleftrightarrow> (\<exists>l \<in> set (jumps ?cs). \<not> multiset_finds (pcList e) l (targets e))"
  proof -
    have "map snd (brs p cs) = jumps cs" for p cs by (induction cs arbitrary: p) (simp_all split: chunk.split)
    then have "set (jumps ?cs) = snd ` set (brs 0 ?cs)" by (metis set_map)
    moreover have "CheckLabels e = UNBOUND_LABELS \<longleftrightarrow> (\<exists>b \<in> set (brs 0 ?cs). \<not> multiset_finds (pcList e) (snd b) (targets e))"
      by (simp add: CheckLabels_def list_all_iff r(2) split_beta)
    ultimately show ?thesis by simp
  qed
  ultimately have "CheckLabels e = UNBOUND_LABELS \<longleftrightarrow> \<not> labels_bound prog \<and> 0 \<notin> snd ` set (labs 0 ?cs)"
    by (auto simp: labels_bound_def)
  then show ?thesis using e(1) by (force simp: Build_unbound_iff list_ex_iff)
qed

text \<open>\<open>jmp l\<close> with \<open>l\<close> not bound, after an instruction or a label that is not at position 0.\<close>

theorem emitter_unbound_labels_witness:
  "\<exists>e. emit_program 2 [Insn ldai_group [1], Here 0, JumpTo JMP [] 1] = Some e \<and> Build e = Some (UNBOUND_LABELS, e, None)"
proof -
  let ?p = "[Insn ldai_group [1], Here 0, JumpTo JMP [] 1]"
  have "program 2 ?p" "\<not> labels_bound ?p \<and> \<not> list_ex (\<lambda>(l, q). q = 0) (labs 0 (map source ?p))"
    by (simp_all add: program_def labels_bound_def ldai_bytes nargs_def has_vreg_def)
  then show ?thesis using emitter_unbound_labels[of 2 ?p] by auto
qed

text \<open>With a label bound at position 0, the jump to a label that is not bound is built, and goes to position 0.\<close>

lemma unbound_label_goes_to_start:
  "\<exists>e e'. emit_program 2 [Here 0, JumpTo JMP [] 1] = Some e \<and> Build e = Some (SUCCESS, e', Some [0x22, 0])"
proof -
  have "emit_program 2 [Here 0, JumpTo JMP [] 1] =
      Some \<lparr>cur_pc = 2, branches = [(0, 1)], targets = [0], pcList = [0, 0], bytecode = [0x22, 0]\<rparr>"
    by (simp add: emit_program_def create_labels_eq new_emitter_def Bind_def multiset_insert_def EmitJump_def jump_group_def
        jump_formats_def append_insn_def Emit_def OFF_def fmt_size_def formats store_def map_insert_def to_u32_def numeral_2_eq_2)
  moreover
  let ?e = "\<lparr>cur_pc = 2, branches = [(0, 1)], targets = [0], pcList = [0, 0], bytecode = [0x22, 0 :: u8]\<rparr>"
  have jump: "GetOpcode (bytecode ?e) 0 = Some (jopcode JMP 0)" "GetPc ?e 1 = 0"
    by (simp_all add: GetOpcode_def min_prefix_def GetPc_def)
  have "GetBitImmSizeByOpcode (jopcode JMP 0) = Some BITSIZE_8"
    by (subst GetBitImmSizeByOpcode_jump) (simp_all add: imm_size_def)
  then have "ReserveSpaceForOffsets b ?e = Some (SUCCESS, ?e)" for b
    using jump
    by (cases b) (simp_all add: ReserveSpaceForOffsets_def to_u32_def to_i32_def EstimateMaxDistance_def GetBitLengthSigned_def
        less_BitImmSize_def map_insert_def del: opcode_idx.simps)
  moreover have "UpdateBranches ?e = Some (SUCCESS, ?e)"
    using jump UpdateBranchOffs_jump[of 0 JMP "[]" "[]" 0 "[]" 0]
    by (simp add: UpdateBranches_def jump_bytes_def to_i32_def)
  ultimately show ?thesis
    by (simp add: Build_def CheckLabels_def multiset_finds_def)
qed

section \<open>When two passes are not enough\<close>

text \<open>Three forward jumps over 32,751 instructions of one byte. The third becomes a far jump in the first
  pass, which \<open>EstimateMaxDistance\<close> does not count for the jumps before it. In the second pass the
  second jump therefore becomes a far jump too, after the first, whose label is behind it, was found to fit 16 bits.
  Its label is then 32,768 bytes away, and its immediate leads 32,768 bytes back.\<close>

definition nop :: call where "nop = Insn [(0, \<lparr>prefixed = False, operands = []\<rparr>)] []"

definition far_code :: "call list" where
  "far_code = replicate 32751 nop @ [Here 0] @ replicate 7 nop @ [Here 1] @ replicate 20 nop @ [Here 2]"

definition far_program :: "call list" where
  "far_program = [JumpTo JEQZ [] 0, JumpTo JEQZ [] 1, JumpTo JEQZ [] 2] @ far_code"

lemma nop_call: "insn_bytes [(0, \<lparr>prefixed = False, operands = []\<rparr>)] [] = Some [0]" "valid_call nop" "source nop = Code [0]"
  by (simp_all add: nop_def emit_defs)

lemma code_only:
  "labs p (replicate n (Code bs)) = []" "growth p (replicate n (Code bs)) t = 0" "marks (replicate n (Code bs)) = []"
  "jumps (replicate n (Code bs)) = []" "lsize (replicate n (Code bs)) = n * length bs" "lmax (replicate n (Code bs)) = n * length bs"
  by (induction n arbitrary: p) simp_all

lemma growth_append [simp]: "growth p (xs @ ys) t = growth p xs t + growth (p + lsize xs) ys t"
  by (induction xs arbitrary: p) (simp_all add: add.assoc)

lemma pass_no_jumps: "jumps cs = [] \<Longrightarrow> pass b dn cs = dn @ cs"
proof (induction cs arbitrary: dn)
  case (Cons c cs)
  then show ?case by (cases c) (simp_all add: resize_def)
qed simp

lemma far_code_layout:
  "labs p (map source far_code) = [(0, p + 32751), (1, p + 32758), (2, p + 32778)]"
  "growth p (map source far_code) t = 0" "marks (map source far_code) = [0, 1, 2]" "jumps (map source far_code) = []"
  "lmax (map source far_code) = 32778" "pass b dn (map source far_code) = dn @ map source far_code"
proof -
  show "labs p (map source far_code) = [(0, p + 32751), (1, p + 32758), (2, p + 32778)]"
    by (simp add: far_code_def nop_call code_only)
  show "growth p (map source far_code) t = 0" "marks (map source far_code) = [0, 1, 2]" "lmax (map source far_code) = 32778"
    by (simp_all add: far_code_def nop_call code_only)
  show j: "jumps (map source far_code) = []" by (simp add: far_code_def nop_call code_only)
  show "pass b dn (map source far_code) = dn @ map source far_code" by (rule pass_no_jumps[OF j])
qed

lemma far_program_ok: "program 3 far_program" "labels_bound far_program"
proof -
  have "list_all valid_call far_code" by (simp add: far_code_def nop_call list_all_iff)
  then show "program 3 far_program" "labels_bound far_program"
    by (simp_all add: far_program_def program_def labels_bound_def far_code_layout nargs_def has_vreg_def far_size_def jsize_def)
qed

lemma far_program_built:
  "built (map source far_program) = [Jump JEQZ [] (Form 1) 0, Jump JEQZ [] Far 1, Jump JEQZ [] Far 2] @ map source far_code"
proof -
  have sz: "jsize JEQZ 0 = 2" "jsize JEQZ (Suc 0) = 3" "forms JEQZ = 2" "far_size JEQZ = 7"
    by (simp_all add: jsize_def nargs_def has_vreg_def forms_def far_size_def)
  note defs = resize_def distance_def Let_def lab_def far_code_layout sz GetBitLengthSigned_def suitable_def imm_size_def BitImmSize_order
  have 1: "pass True [] (map source far_program) =
      [Jump JEQZ [] (Form 1) 0, Jump JEQZ [] (Form 1) 1, Jump JEQZ [] Far 2] @ map source far_code"
    by (simp add: far_program_def defs)
  show ?thesis unfolding built_def 1 by (simp add: defs)
qed

lemma far_jumps_truncate_offset:
  "\<exists>e e' out. emit_program 3 far_program = Some e \<and> Build e = Some (SUCCESS, e', Some out) \<and>
    GetPc e' 0 = 32768 \<and> decode_jump out 0 = Some (JEQZ, [], -32768, 3)"
proof -
  let ?b = "built (map source far_program)"
  have lab: "lab ?b 0 = 32768"
    unfolding far_program_built by (simp add: lab_def far_code_layout jsize_def nargs_def has_vreg_def far_size_def)
  obtain z where out: "assemble 0 ?b (lab ?b) = jump_bytes JEQZ 1 [] 32768 @ z"
    using lab unfolding far_program_built by (simp add: branch_offset_def)
  have "jump_bytes JEQZ 1 [] 32768 = jump_bytes JEQZ 1 [] (-32768)"
    by (simp add: jump_bytes_def le_simps)
  moreover have "decode_jump ([] @ jump_bytes JEQZ 1 [] (-32768) @ z) (length ([] :: u8 list)) = Some (JEQZ, [], -32768, 3)"
    by (subst decode_jump_bytes) (simp_all add: forms_def nargs_def has_vreg_def fits_off_def jsize_def)
  ultimately have "decode_jump (assemble 0 ?b (lab ?b)) 0 = Some (JEQZ, [], -32768, 3)" unfolding out by simp
  moreover have "0 \<in> set (marks (map source far_program))" by (simp add: far_program_def far_code_layout)
  ultimately show ?thesis using build_program[OF far_program_ok] lab by auto
qed

section \<open>Instructions with several formats\<close>

text \<open>The method takes the first format that can hold the arguments; with one format there is no choice.\<close>

lemma select_insn_first:
  assumes "valid_group g args" "list_ex (\<lambda>(opcode, f). list_all2 representable (operands f) args) g"
  shows "\<exists>a opcode f b. g = a @ (opcode, f) # b \<and> select_insn g args = Some (opcode, f) \<and>
    list_all2 representable (operands f) args \<and> list_all (\<lambda>(opcode, f). \<not> list_all2 representable (operands f) args) a"
proof (cases "1 < length g")
  case False
  then obtain opcode f where "g = [(opcode, f)]" using assms(2) by (cases g; cases "tl g") auto
  then show ?thesis using assms(2) by (intro exI[of _ "[]"] exI[of _ opcode] exI[of _ f]) (simp add: select_insn_def)
next
  case True
  have acc: "fmt_accepts f args \<longleftrightarrow> list_all2 representable (operands f) args" if "(opcode, f) \<in> set g" for opcode f
    using assms(1) that True by (intro fmt_accepts_iff[of "start_bit f"]) (auto simp: valid_group_def list_all_iff)
  then have "find (\<lambda>(opcode, f). fmt_accepts f args) g \<noteq> None"
    using assms(2) by (auto simp: find_None_iff list_ex_iff)
  then obtain opcode f where find: "find (\<lambda>(opcode, f). fmt_accepts f args) g = Some (opcode, f)" by auto
  from find_split[OF this] obtain a b where g: "g = a @ (opcode, f) # b" "fmt_accepts f args"
    "list_all (\<lambda>y. \<not> (case y of (opcode, f) \<Rightarrow> fmt_accepts f args)) a" by auto
  have "select_insn g args = Some (opcode, f)" using find True by (auto simp: select_insn_def split: list.split)
  moreover have "list_all (\<lambda>(opcode, f). \<not> list_all2 representable (operands f) args) a"
    using g(1,3) acc by (auto simp: list_all_iff)
  ultimately show ?thesis using g(1,2) acc[of opcode f] by (intro exI[of _ a] exI[of _ opcode] exI[of _ f] exI[of _ b]) simp
qed

text \<open>C22: The generated emitter methods. A mnemonic with one format may have operands of 4, 8, 16, 32 and 64
  bits, and its arguments are values that its fields can hold. A mnemonic with several formats has fields of
  at most 32 bits and takes arguments of the types of its method: immediates of 32 bits, registers and
  identifiers below 2^16 (\<open>typed_arg\<close>), which some format of the group can hold. Then the method emits one
  instruction, whose opcode and operands are read back as the opcode of the chosen format and the arguments;
  the formats before it in the group, whose opcodes are lower, cannot hold the arguments. Opcodes are those
  of \<open>valid_opcode\<close>: below the first prefix, or two bytes that begin with a prefix.\<close>

theorem emitter_insn_roundtrip:
  assumes "valid_group g args" "list_ex (\<lambda>(opcode, f). list_all2 representable (operands f) args) g"
  shows "\<exists>shorter opcode f longer bs. g = shorter @ (opcode, f) # longer \<and> insn_bytes g args = Some bs \<and>
    GetOpcode bs 0 = Some opcode \<and> read_operands bs (start_bit f) (operands f) = Some args \<and> length bs = fmt_size f \<and>
    list_all (\<lambda>(opcode, f). \<not> list_all2 representable (operands f) args) shorter"
proof -
  obtain a opcode f b where g: "g = a @ (opcode, f) # b" "select_insn g args = Some (opcode, f)"
    "list_all2 representable (operands f) args" "list_all (\<lambda>(opcode, f). \<not> list_all2 representable (operands f) args) a"
    using select_insn_first[OF assms] by blast
  have "valid_opcode f opcode" "aligned (start_bit f) (operands f)" using g(1) assms(1) by (simp_all add: valid_group_def)
  from Emit_fields[OF this(2,1) g(3)] obtain bs where bs: "Emit f (int opcode # args) = Some bs" "length bs = fmt_size f"
    "GetOpcode bs 0 = Some opcode" "read_operands bs (start_bit f) (operands f) = Some args" by blast
  moreover have "insn_bytes g args = Some bs"
    using g(2) bs(1) by (simp add: insn_bytes_def EmitInsn_def append_insn_def new_emitter_def)
  ultimately show ?thesis using g(1,4) by blast
qed

text \<open>\<open>ldai 1000\<close> takes the 16-bit format, and \<open>ldai.64\<close> has one format, with an immediate of 64 bits.\<close>

definition ldai64_group :: group where
  "ldai64_group = [(0x16, \<lparr>prefixed = False, operands = [(Imm, 64)]\<rparr>)]"

theorem emitter_insn_roundtrip_witness:
  "(\<exists>shorter opcode f longer bs. ldai_group = shorter @ (opcode, f) # longer \<and> insn_bytes ldai_group [1000] = Some bs \<and>
      GetOpcode bs 0 = Some opcode \<and> read_operands bs (start_bit f) (operands f) = Some [1000]) \<and>
   (\<exists>bs. insn_bytes ldai64_group [2 ^ 62 + 5] = Some bs \<and> GetOpcode bs 0 = Some 0x16 \<and>
      read_operands bs 8 [(Imm, 64)] = Some [2 ^ 62 + 5])"
proof -
  have "valid_group ldai_group [1000]" "list_ex (\<lambda>(opcode, f). list_all2 representable (operands f) [1000]) ldai_group"
    by (simp_all add: valid_group_def ldai_group_def formats valid_opcode_def min_prefix_def start_bit_def typed_arg_def
        representable_def fits_off_def)
  note one = emitter_insn_roundtrip[OF this]
  have "valid_group ldai64_group [2 ^ 62 + 5]"
    "list_ex (\<lambda>(opcode, f). list_all2 representable (operands f) [2 ^ 62 + 5]) ldai64_group"
    by (simp_all add: valid_group_def ldai64_group_def valid_opcode_def min_prefix_def start_bit_def representable_def fits_off_def)
  from emitter_insn_roundtrip[OF this] obtain bs where "insn_bytes ldai64_group [2 ^ 62 + 5] = Some bs" "GetOpcode bs 0 = Some 0x16"
    "read_operands bs 8 [(Imm, 64)] = Some [2 ^ 62 + 5]"
    by (auto simp: ldai64_group_def Cons_eq_append_conv start_bit_def)
  with one show ?thesis by blast
qed

end
