(* ===== verification/Bounds_Range.thy ===== *)
theory Bounds_Range
  imports Data_Types "HOL-Library.Signed_Division" "HOL-Library.Monad_Syntax"
begin

text \<open>
  The value ranges of the compiler's bounds analysis: class \<open>BoundsRange\<close> of
  \<^verbatim>\<open>compiler/optimizer/analysis/bounds_analysis.h\<close> and \<^verbatim>\<open>bounds_analysis.cpp\<close>. A bound is an
  \<open>int\<close> that stands for an \<open>int64_t\<close>; where the C++ arithmetic can leave the 64 bits, the
  wrap-around is written out (\<open>to_i64\<close>). \<open>GetLenArray\<close>, a pointer to the instruction whose value
  bounds the range from above, is the number of that instruction. \<open>UNREACHABLE()\<close> is \<open>None\<close>.
\<close>

section \<open>The class\<close>

definition MAX_RANGE_VALUE :: int where "MAX_RANGE_VALUE = 9223372036854775807"
definition MIN_RANGE_VALUE :: int where "MIN_RANGE_VALUE = - 9223372036854775808"

text \<open>A 64-bit two's complement result, and the view of an \<open>int64_t\<close> as \<open>uint64_t\<close>.\<close>

definition to_i64 :: "int \<Rightarrow> int" where "to_i64 v = signed_take_bit 63 v"
definition as_u64 :: "int \<Rightarrow> u64" where "as_u64 v = word_of_int v"

record BoundsRange =
  GetLeft :: int
  GetRight :: int
  GetLenArray :: "nat option"

fun GetMin :: "DataType \<Rightarrow> int option" where
  "GetMin BOOL = Some 0"
| "GetMin UINT8 = Some 0"
| "GetMin UINT16 = Some 0"
| "GetMin UINT32 = Some 0"
| "GetMin UINT64 = Some 0"
| "GetMin REFERENCE = Some 0"
| "GetMin POINTER = Some 0"
| "GetMin INT8 = Some (- 128)"
| "GetMin INT16 = Some (- 32768)"
| "GetMin INT32 = Some (- 2147483648)"
| "GetMin INT64 = Some (- 9223372036854775808)"
| "GetMin _ = None"

fun GetMax :: "DataType \<Rightarrow> int option" where
  "GetMax BOOL = Some 1"
| "GetMax UINT8 = Some 255"
| "GetMax UINT16 = Some 65535"
| "GetMax UINT32 = Some 4294967295"
| "GetMax INT8 = Some 127"
| "GetMax INT16 = Some 32767"
| "GetMax INT32 = Some 2147483647"
| "GetMax INT64 = Some 9223372036854775807"
| "GetMax UINT64 = Some 9223372036854775807"
| "GetMax REFERENCE = Some 9223372036854775807"
| "GetMax POINTER = Some 9223372036854775807"
| "GetMax _ = None"

definition mkRange :: "int \<Rightarrow> int \<Rightarrow> BoundsRange" where
  "mkRange l r = \<lparr>GetLeft = l, GetRight = r, GetLenArray = None\<rparr>"

definition constRange :: "int \<Rightarrow> BoundsRange" where
  "constRange val = mkRange val val"

definition typeRange :: "DataType \<Rightarrow> BoundsRange option" where
  "typeRange type = do { l \<leftarrow> GetMin type; r \<leftarrow> GetMax type; Some (mkRange l r) }"

definition maxRange :: BoundsRange where
  "maxRange = mkRange MIN_RANGE_VALUE MAX_RANGE_VALUE"

definition SetLenArray :: "BoundsRange \<Rightarrow> nat \<Rightarrow> BoundsRange" where
  "SetLenArray r inst = r\<lparr>GetLenArray := Some inst\<rparr>"

section \<open>Arithmetic with overflow checks\<close>

definition AddWithOverflowCheck :: "int \<Rightarrow> int \<Rightarrow> int option" where
  "AddWithOverflowCheck left right =
     (if right = 0 then Some left
      else if right > 0 then
        if left \<le> MAX_RANGE_VALUE - right then Some (left + right) else None
      else if left \<ge> MIN_RANGE_VALUE - right then Some (left + right) else None)"

definition AddWithOverflowCheck_u64 :: "u64 \<Rightarrow> u64 \<Rightarrow> u64 option" where
  "AddWithOverflowCheck_u64 left right =
     (if right = 0 then Some left
      else if left \<le> - 1 - right then Some (left + right) else None)"

definition abs_range_value :: "int \<Rightarrow> int" where
  "abs_range_value v = (if v = MIN_RANGE_VALUE then MAX_RANGE_VALUE else \<bar>v\<bar>)"

definition MulWithOverflowCheck :: "int \<Rightarrow> int \<Rightarrow> int option" where
  "MulWithOverflowCheck left right =
     (if left = 0 \<or> right = 0 then Some 0
      else let leftAbs = abs_range_value left; rightAbs = abs_range_value right
           in if leftAbs \<le> MAX_RANGE_VALUE sdiv rightAbs then Some (to_i64 (left * right)) else None)"

definition MulWithOverflowCheck_u64 :: "u64 \<Rightarrow> u64 \<Rightarrow> u64 option" where
  "MulWithOverflowCheck_u64 left right =
     (if left = 0 \<or> right = 0 then Some 0
      else if left \<le> (- 1) div right then Some (left * right) else None)"

definition DivWithOverflowCheck :: "int \<Rightarrow> int \<Rightarrow> int option" where
  "DivWithOverflowCheck left right =
     (if left = MIN_RANGE_VALUE \<and> right = - 1 then None else Some (left sdiv right))"

section \<open>Predicates\<close>

definition IsConst :: "BoundsRange \<Rightarrow> bool" where
  "IsConst r \<longleftrightarrow> GetLeft r = GetRight r"

definition IsMaxRange :: "BoundsRange \<Rightarrow> DataType \<Rightarrow> bool option" where
  "IsMaxRange r type = do { l \<leftarrow> GetMin type; h \<leftarrow> GetMax type; Some (GetLeft r \<le> l \<and> GetRight r \<ge> h) }"

definition IsEqual :: "BoundsRange \<Rightarrow> BoundsRange \<Rightarrow> bool" where
  "IsEqual r rng \<longleftrightarrow> GetLeft r = GetLeft rng \<and> GetRight r = GetRight rng"

definition IsLess :: "BoundsRange \<Rightarrow> BoundsRange \<Rightarrow> bool" where
  "IsLess r rng \<longleftrightarrow> GetRight r < GetLeft rng"

definition IsMore :: "BoundsRange \<Rightarrow> BoundsRange \<Rightarrow> bool" where
  "IsMore r rng \<longleftrightarrow> GetLeft r > GetRight rng"

definition IsMoreOrEqual :: "BoundsRange \<Rightarrow> BoundsRange \<Rightarrow> bool" where
  "IsMoreOrEqual r rng \<longleftrightarrow> GetLeft r \<ge> GetRight rng"

definition IsWithin :: "BoundsRange \<Rightarrow> BoundsRange \<Rightarrow> bool" where
  "IsWithin r rng \<longleftrightarrow> GetLeft r > GetLeft rng \<and> GetRight r < GetRight rng"

definition IsNotNegative :: "BoundsRange \<Rightarrow> bool" where "IsNotNegative r \<longleftrightarrow> GetLeft r \<ge> 0"
definition IsNegative :: "BoundsRange \<Rightarrow> bool" where "IsNegative r \<longleftrightarrow> GetRight r < 0"
definition IsPositive :: "BoundsRange \<Rightarrow> bool" where "IsPositive r \<longleftrightarrow> GetLeft r > 0"
definition IsNotPositive :: "BoundsRange \<Rightarrow> bool" where "IsNotPositive r \<longleftrightarrow> GetRight r \<le> 0"

definition CanOverflow :: "BoundsRange \<Rightarrow> DataType \<Rightarrow> bool option" where
  "CanOverflow r type = do { l \<leftarrow> GetMin type; h \<leftarrow> GetMax type; Some (GetLeft r \<le> l \<or> GetRight r \<ge> h) }"

definition CanOverflowNeg :: "BoundsRange \<Rightarrow> DataType \<Rightarrow> bool option" where
  "CanOverflowNeg r type = do { h \<leftarrow> GetMax type; Some (GetRight r \<ge> h \<or> GetLeft r \<le> 0 \<and> 0 \<le> GetRight r) }"

definition FitInType :: "BoundsRange \<Rightarrow> DataType \<Rightarrow> BoundsRange option" where
  "FitInType r type = do {
     typeMin \<leftarrow> GetMin type;
     typeMax \<leftarrow> GetMax type;
     Some (if GetLeft r < typeMin \<or> GetLeft r > typeMax \<or> GetRight r < typeMin \<or> GetRight r > typeMax
           then mkRange typeMin typeMax else r) }"

section \<open>Transfer functions\<close>

definition neg_range_value :: "int \<Rightarrow> int" where
  "neg_range_value v = (if v = MIN_RANGE_VALUE then MAX_RANGE_VALUE else - v)"

definition Neg :: "BoundsRange \<Rightarrow> BoundsRange" where
  "Neg r = (let right = neg_range_value (GetLeft r); left = neg_range_value (GetRight r)
            in mkRange left right)"

definition Abs :: "BoundsRange \<Rightarrow> BoundsRange" where
  "Abs r = (let val1 = abs_range_value (GetLeft r);
                val2 = abs_range_value (GetRight r);
                right = max val1 val2;
                left = (if 0 \<le> (GetLeft r XOR GetRight r) then min val1 val2 else 0)
            in mkRange left right)"

definition Add :: "BoundsRange \<Rightarrow> BoundsRange \<Rightarrow> BoundsRange" where
  "Add r rng =
     (case (AddWithOverflowCheck (GetLeft r) (GetLeft rng), AddWithOverflowCheck (GetRight r) (GetRight rng)) of
        (Some left, Some right) \<Rightarrow> mkRange left right
      | _ \<Rightarrow> maxRange)"

definition Sub :: "BoundsRange \<Rightarrow> BoundsRange \<Rightarrow> BoundsRange" where
  "Sub r rng =
     (let negRight = neg_range_value (GetRight rng); negLeft = neg_range_value (GetLeft rng)
      in case (AddWithOverflowCheck (GetLeft r) negRight, AddWithOverflowCheck (GetRight r) negLeft) of
           (Some left, Some right) \<Rightarrow> mkRange left right
         | _ \<Rightarrow> maxRange)"

definition Mul :: "BoundsRange \<Rightarrow> BoundsRange \<Rightarrow> BoundsRange" where
  "Mul r rng =
     (case (MulWithOverflowCheck (GetLeft r) (GetLeft rng), MulWithOverflowCheck (GetLeft r) (GetRight rng),
            MulWithOverflowCheck (GetRight r) (GetLeft rng), MulWithOverflowCheck (GetRight r) (GetRight rng)) of
        (Some m1, Some m2, Some m3, Some m4) \<Rightarrow>
          mkRange (min m1 (min m2 (min m3 m4))) (max m1 (max m2 (max m3 m4)))
      | _ \<Rightarrow> maxRange)"

definition Div :: "BoundsRange \<Rightarrow> BoundsRange \<Rightarrow> BoundsRange" where
  "Div r rng =
     (if GetLeft rng \<noteq> GetRight rng \<or> GetLeft rng = 0 then maxRange
      else case (DivWithOverflowCheck (GetLeft r) (GetLeft rng), DivWithOverflowCheck (GetRight r) (GetLeft rng)) of
             (Some m1, Some m2) \<Rightarrow> mkRange (min m1 m2) (max m1 m2)
           | _ \<Rightarrow> maxRange)"

definition Mod :: "BoundsRange \<Rightarrow> BoundsRange \<Rightarrow> BoundsRange" where
  "Mod r rng =
     (let maxMod = (if GetRight rng > 0 then GetRight rng - 1 else 0);
          maxMod = (if GetLeft rng = MIN_RANGE_VALUE then MAX_RANGE_VALUE
                    else if GetLeft rng < 0 then max maxMod (- GetLeft rng - 1) else maxMod)
      in if maxMod = 0 then maxRange
         else let left = (if GetLeft r < 0 then max (GetLeft r) (- maxMod) else 0);
                  right = (if GetRight r > 0 then min (GetRight r) maxMod else 0)
              in mkRange left right)"

text \<open>The shift amount of a constant range: its value under the mask of the type's size in bits.\<close>

definition shift_amount :: "nat \<Rightarrow> BoundsRange \<Rightarrow> DataType \<Rightarrow> nat option" where
  "shift_amount ops rng type = do {
     size \<leftarrow> GetTypeSize ops type NONE;
     Some (unat (as_u64 (GetLeft rng) AND (of_nat size - 1))) }"

definition Shr :: "nat \<Rightarrow> BoundsRange \<Rightarrow> BoundsRange \<Rightarrow> DataType \<Rightarrow> BoundsRange option" where
  "Shr ops r rng type =
     (if \<not> IsConst rng \<or> IsNegative rng then Some maxRange
      else do {
        n \<leftarrow> shift_amount ops rng type;
        narrowed \<leftarrow> FitInType r type;
        Some (if GetLeft narrowed < 0 \<and> GetRight narrowed \<ge> 0 \<and> n > 0
              then mkRange 0 (sint (drop_bit n (- 1 :: u64)))
              else mkRange (sint (drop_bit n (as_u64 (GetLeft narrowed))))
                     (sint (drop_bit n (as_u64 (GetRight narrowed))))) })"

definition AShr :: "nat \<Rightarrow> BoundsRange \<Rightarrow> BoundsRange \<Rightarrow> DataType \<Rightarrow> BoundsRange option" where
  "AShr ops r rng type =
     (if \<not> IsConst rng \<or> IsNegative rng then Some maxRange
      else do {
        n \<leftarrow> shift_amount ops rng type;
        Some (mkRange (drop_bit n (GetLeft r)) (drop_bit n (GetRight r))) })"

definition Shl :: "nat \<Rightarrow> BoundsRange \<Rightarrow> BoundsRange \<Rightarrow> DataType \<Rightarrow> BoundsRange option" where
  "Shl ops r rng type =
     (if \<not> IsConst rng \<or> IsNegative rng then Some maxRange
      else do {
        n \<leftarrow> shift_amount ops rng type;
        let maxBits = 64 - n - 1;
        let maxValue = sint (push_bit maxBits (1 :: u64));
        Some (if n > 0 \<and> (GetLeft r < - maxValue \<or> GetRight r \<ge> maxValue) then maxRange
              else mkRange (sint (push_bit n (as_u64 (GetLeft r)))) (sint (push_bit n (as_u64 (GetRight r))))) })"

definition Diff :: "BoundsRange \<Rightarrow> BoundsRange \<Rightarrow> BoundsRange" where
  "Diff r rng =
     (let negLeft = neg_range_value (GetLeft rng); negRight = neg_range_value (GetRight rng)
      in case (AddWithOverflowCheck (GetLeft r) negLeft, AddWithOverflowCheck (GetRight r) negRight) of
           (Some left, Some right) \<Rightarrow> if left > right then maxRange else mkRange left right
         | _ \<Rightarrow> maxRange)"

definition And :: "BoundsRange \<Rightarrow> BoundsRange \<Rightarrow> BoundsRange" where
  "And r rng =
     (if \<not> IsConst rng then maxRange
      else let n = as_u64 (GetLeft rng)
           in if drop_bit 63 n = 1 then maxRange else mkRange 0 (sint n))"

fun Union_loop :: "BoundsRange list \<Rightarrow> int \<Rightarrow> int \<Rightarrow> BoundsRange" where
  "Union_loop [] mn mx = mkRange mn mx"
| "Union_loop (rng # ranges) mn mx =
     Union_loop ranges (if GetLeft rng < mn then GetLeft rng else mn)
       (if GetRight rng > mx then GetRight rng else mx)"

definition Union :: "BoundsRange list \<Rightarrow> BoundsRange" where
  "Union ranges = Union_loop ranges MAX_RANGE_VALUE MIN_RANGE_VALUE"

section \<open>Narrowing by a condition\<close>

type_synonym RangePair = "BoundsRange \<times> BoundsRange"

definition NarrowBoundsByNE :: "RangePair \<Rightarrow> RangePair" where
  "NarrowBoundsByNE ranges =
     (let (left_range, right_range) = ranges;
          ll = GetLeft left_range; lr = GetRight left_range; rl = GetLeft right_range; rr = GetRight right_range
      in if IsConst left_range \<and> \<not> IsConst right_range \<and> ll = rl
           then (left_range, mkRange (rl + 1) rr)
         else if IsConst left_range \<and> \<not> IsConst right_range \<and> ll = rr
           then (left_range, mkRange rl (rr - 1))
         else if \<not> IsConst left_range \<and> IsConst right_range \<and> rl = ll
           then (mkRange (ll + 1) lr, right_range)
         else if \<not> IsConst left_range \<and> IsConst right_range \<and> rl = lr
           then (mkRange ll (lr - 1), right_range)
         else ranges)"

definition NarrowBoundsCase1 :: "ConditionCode \<Rightarrow> RangePair \<Rightarrow> RangePair" where
  "NarrowBoundsCase1 cc ranges =
     (let (left_range, right_range) = ranges; lr = GetRight left_range; rl = GetLeft right_range
      in if cc = CC_GT \<or> cc = CC_A then
           if rl = lr then (maxRange, maxRange)
           else (mkRange (rl + 1) lr, mkRange rl (lr - 1))
         else if cc = CC_GE \<or> cc = CC_AE \<or> cc = CC_EQ then (mkRange rl lr, mkRange rl lr)
         else ranges)"

definition NarrowBoundsCase2 :: "ConditionCode \<Rightarrow> RangePair \<Rightarrow> RangePair" where
  "NarrowBoundsCase2 cc ranges =
     (if cc = CC_GT \<or> cc = CC_GE \<or> cc = CC_EQ \<or> cc = CC_A \<or> cc = CC_AE
      then (maxRange, maxRange) else ranges)"

definition NarrowBoundsCase3 :: "ConditionCode \<Rightarrow> RangePair \<Rightarrow> RangePair" where
  "NarrowBoundsCase3 cc ranges =
     (let (left_range, right_range) = ranges;
          ll = GetLeft left_range; lr = GetRight left_range; rl = GetLeft right_range; rr = GetRight right_range
      in if cc = CC_GT \<or> cc = CC_A then (mkRange (rl + 1) lr, right_range)
         else if cc = CC_GE \<or> cc = CC_AE then (mkRange rl lr, right_range)
         else if cc = CC_LT \<or> cc = CC_B then
           if ll = rr then (maxRange, maxRange) else (mkRange ll (rr - 1), right_range)
         else if cc = CC_LE \<or> cc = CC_BE then (mkRange ll rr, right_range)
         else if cc = CC_EQ then (mkRange rl rr, right_range)
         else ranges)"

definition NarrowBoundsCase4 :: "ConditionCode \<Rightarrow> RangePair \<Rightarrow> RangePair" where
  "NarrowBoundsCase4 cc ranges =
     (let (left_range, right_range) = ranges; ll = GetLeft left_range; rr = GetRight right_range
      in if cc = CC_LT \<or> cc = CC_B then
           if ll = rr then (maxRange, maxRange)
           else (mkRange ll (rr - 1), mkRange (ll + 1) rr)
         else if cc = CC_LE \<or> cc = CC_BE \<or> cc = CC_EQ then (mkRange ll rr, mkRange ll rr)
         else ranges)"

definition NarrowBoundsCase5 :: "ConditionCode \<Rightarrow> RangePair \<Rightarrow> RangePair" where
  "NarrowBoundsCase5 cc ranges =
     (if cc = CC_LT \<or> cc = CC_LE \<or> cc = CC_EQ \<or> cc = CC_B \<or> cc = CC_BE
      then (maxRange, maxRange) else ranges)"

definition NarrowBoundsCase6 :: "ConditionCode \<Rightarrow> RangePair \<Rightarrow> RangePair" where
  "NarrowBoundsCase6 cc ranges =
     (let (left_range, right_range) = ranges;
          ll = GetLeft left_range; lr = GetRight left_range; rl = GetLeft right_range; rr = GetRight right_range
      in if cc = CC_GT \<or> cc = CC_A then (left_range, mkRange rl (lr - 1))
         else if cc = CC_GE \<or> cc = CC_AE then (left_range, mkRange rl lr)
         else if cc = CC_LT \<or> cc = CC_B then (left_range, mkRange (ll + 1) rr)
         else if cc = CC_LE \<or> cc = CC_BE then (left_range, mkRange ll rr)
         else if cc = CC_EQ then (left_range, mkRange ll lr)
         else ranges)"

definition TryNarrowBoundsByCC :: "ConditionCode \<Rightarrow> RangePair \<Rightarrow> RangePair" where
  "TryNarrowBoundsByCC cc ranges =
     (if cc = CC_NE then NarrowBoundsByNE ranges
      else let (left_range, right_range) = ranges;
               ll = GetLeft left_range; lr = GetRight left_range; rl = GetLeft right_range; rr = GetRight right_range
           in if ll \<le> rl \<and> rl \<le> lr \<and> lr \<le> rr then NarrowBoundsCase1 cc ranges
              else if ll \<le> lr \<and> lr < rl \<and> rl \<le> rr then NarrowBoundsCase2 cc ranges
              else if ll \<le> rl \<and> rl \<le> rr \<and> rr \<le> lr then NarrowBoundsCase3 cc ranges
              else if rl \<le> ll \<and> ll \<le> rr \<and> rr \<le> lr then NarrowBoundsCase4 cc ranges
              else if rl \<le> rr \<and> rr < ll \<and> ll \<le> lr then NarrowBoundsCase5 cc ranges
              else if rl \<le> ll \<and> ll \<le> lr \<and> lr \<le> rr then NarrowBoundsCase6 cc ranges
              else ranges)"

section \<open>The values a range stands for\<close>

definition in_range :: "int \<Rightarrow> BoundsRange \<Rightarrow> bool" where
  "in_range v r \<longleftrightarrow> GetLeft r \<le> v \<and> v \<le> GetRight r"

definition wf_range :: "BoundsRange \<Rightarrow> bool" where
  "wf_range r \<longleftrightarrow> MIN_RANGE_VALUE \<le> GetLeft r \<and> GetLeft r \<le> GetRight r \<and> GetRight r \<le> MAX_RANGE_VALUE"

text \<open>The value an integer instruction of a type leaves, given the exact result: the low bits of the
  type's width, read with the type's sign. A range holds signed 64-bit numbers, so there is no value at
  \<open>UINT64\<close>, and none at \<open>BOOL\<close>.\<close>

fun wrap_type :: "DataType \<Rightarrow> int \<Rightarrow> int option" where
  "wrap_type UINT8 v = Some (take_bit 8 v)"
| "wrap_type INT8 v = Some (signed_take_bit 7 v)"
| "wrap_type UINT16 v = Some (take_bit 16 v)"
| "wrap_type INT16 v = Some (signed_take_bit 15 v)"
| "wrap_type UINT32 v = Some (take_bit 32 v)"
| "wrap_type INT32 v = Some (signed_take_bit 31 v)"
| "wrap_type INT64 v = Some (signed_take_bit 63 v)"
| "wrap_type _ v = None"

lemma wrap_type_types: "wrap_type t v \<noteq> None \<longleftrightarrow> t \<in> {INT8, INT16, INT32, INT64, UINT8, UINT16, UINT32}"
  by (cases t) simp_all

lemmas range_defs = in_range_def wf_range_def mkRange_def maxRange_def MIN_RANGE_VALUE_def MAX_RANGE_VALUE_def

lemma mkRange_simps [simp]:
  "GetLeft (mkRange l r) = l" "GetRight (mkRange l r) = r" "GetLenArray (mkRange l r) = None"
  by (simp_all add: mkRange_def)

lemma to_i64_id: "MIN_RANGE_VALUE \<le> v \<Longrightarrow> v \<le> MAX_RANGE_VALUE \<Longrightarrow> to_i64 v = v"
  by (simp add: to_i64_def range_defs signed_take_bit_int_eq_self_iff)

lemma to_i64_range: "MIN_RANGE_VALUE \<le> to_i64 v \<and> to_i64 v \<le> MAX_RANGE_VALUE"
  using signed_take_bit_int_less_exp[of 63 v] signed_take_bit_int_greater_eq_minus_exp[of 63 v]
  by (simp add: to_i64_def range_defs)

lemma maxRange_simps [simp]:
  "GetLeft maxRange = MIN_RANGE_VALUE" "GetRight maxRange = MAX_RANGE_VALUE" "GetLenArray maxRange = None"
  by (simp_all add: maxRange_def)

lemma to_i64_bounds [simp]: "MIN_RANGE_VALUE \<le> to_i64 v" "to_i64 v \<le> MAX_RANGE_VALUE"
  using to_i64_range[of v] by simp_all

lemma in_maxRange [simp]: "in_range (to_i64 v) maxRange"
  by (simp add: in_range_def)

lemma MIN_le_MAX [simp]: "MIN_RANGE_VALUE \<le> MAX_RANGE_VALUE"
  by (simp add: range_defs)

lemma wf_maxRange [simp]: "wf_range maxRange"
  by (simp add: range_defs)

lemma in_range_wf: "wf_range r \<Longrightarrow> in_range v r \<Longrightarrow> to_i64 v = v"
  by (rule to_i64_id) (auto simp: wf_range_def in_range_def)

lemma wrap_type_to_i64: "wrap_type t (to_i64 v) = wrap_type t v"
  by (cases t) (simp_all add: to_i64_def take_bit_signed_take_bit)

lemma wrap_type_bounds:
  "wrap_type t v = Some w \<Longrightarrow> GetMin t = Some l \<Longrightarrow> GetMax t = Some h \<Longrightarrow> l \<le> w \<and> w \<le> h"
  using signed_take_bit_int_less_exp[of 63 v] signed_take_bit_int_greater_eq_minus_exp[of 63 v]
    signed_take_bit_int_less_exp[of 31 v] signed_take_bit_int_greater_eq_minus_exp[of 31 v]
    signed_take_bit_int_less_exp[of 15 v] signed_take_bit_int_greater_eq_minus_exp[of 15 v]
    signed_take_bit_int_less_exp[of 7 v] signed_take_bit_int_greater_eq_minus_exp[of 7 v]
    take_bit_int_less_exp[of 8 v] take_bit_int_less_exp[of 16 v] take_bit_int_less_exp[of 32 v]
  by (cases t) auto

lemma wrap_type_id:
  "wrap_type t v = Some w \<Longrightarrow> GetMin t = Some l \<Longrightarrow> GetMax t = Some h \<Longrightarrow> l \<le> v \<Longrightarrow> v \<le> h \<Longrightarrow> w = v"
  by (cases t) (auto simp: signed_take_bit_int_eq_self_iff take_bit_int_eq_self_iff)

lemma FitInType_sound:
  assumes "wrap_type t v = Some w" and "in_range (to_i64 v) r" and "FitInType r t = Some r'"
  shows "in_range w r'"
proof -
  obtain l h where lh: "GetMin t = Some l" "GetMax t = Some h"
    using assms(3) by (auto simp: FitInType_def bind_eq_Some_conv)
  have w: "wrap_type t (to_i64 v) = Some w" using assms(1) by (simp add: wrap_type_to_i64)
  show ?thesis
  proof (cases "l \<le> GetLeft r \<and> GetRight r \<le> h \<and> GetLeft r \<le> h \<and> l \<le> GetRight r")
    case True
    then have "w = to_i64 v"
      using wrap_type_id[OF w lh] assms(2) by (simp add: in_range_def)
    moreover have "r' = r" using assms(3) lh True by (auto simp: FitInType_def)
    ultimately show ?thesis using assms(2) by simp
  next
    case False
    then have "r' = mkRange l h" using assms(3) lh by (auto simp: FitInType_def)
    then show ?thesis using wrap_type_bounds[OF w lh] by (simp add: in_range_def)
  qed
qed

lemma FitInType_wf:
  assumes "wf_range r" "FitInType r t = Some r'" shows "wf_range r'"
  using assms by (cases t) (auto simp: FitInType_def wf_range_def MIN_RANGE_VALUE_def MAX_RANGE_VALUE_def split: if_splits)

section \<open>Transfer functions are sound\<close>

text \<open>The contract between a transfer function \<open>tr\<close> and the instruction \<open>f\<close> it abstracts. \<open>dom\<close> are
  the operands on which the instruction has a value, \<open>pre\<close> the operand ranges that are required.\<close>

locale sound_transfer =
  fixes tr :: "BoundsRange \<Rightarrow> BoundsRange \<Rightarrow> BoundsRange"
    and f :: "int \<Rightarrow> int \<Rightarrow> int"
    and dom :: "int \<Rightarrow> int \<Rightarrow> bool"
    and pre :: "BoundsRange \<Rightarrow> BoundsRange \<Rightarrow> bool"
  assumes transfer: "wf_range a \<Longrightarrow> wf_range b \<Longrightarrow> pre a b \<Longrightarrow> in_range x a \<Longrightarrow> in_range y b \<Longrightarrow>
      dom x y \<Longrightarrow> in_range (to_i64 (f x y)) (tr a b)"
    and wf_transfer: "wf_range a \<Longrightarrow> wf_range b \<Longrightarrow> wf_range (tr a b)"
begin

lemma typed_transfer:
  assumes "wf_range a" "wf_range b" "pre a b" "in_range x a" "in_range y b" "dom x y"
    and "wrap_type t (f x y) = Some w" and "FitInType (tr a b) t = Some r"
  shows "in_range w r \<and> wf_range r"
  using transfer[OF assms(1-6)] FitInType_sound[OF assms(7) _ assms(8)]
    FitInType_wf[OF wf_transfer[OF assms(1,2)] assms(8)] by blast

lemma const_transfer:
  assumes "wf_range (constRange x)" "wf_range (constRange y)" "pre (constRange x) (constRange y)" "dom x y"
    and "IsConst (tr (constRange x) (constRange y))"
  shows "GetLeft (tr (constRange x) (constRange y)) = to_i64 (f x y)"
  using transfer[OF assms(1-3), of x y] assms(4,5)
  by (auto simp: in_range_def constRange_def IsConst_def)

end

lemma AddWithOverflowCheck_Some:
  assumes "MIN_RANGE_VALUE \<le> l" "l \<le> MAX_RANGE_VALUE"
  shows "AddWithOverflowCheck l r = (if MIN_RANGE_VALUE \<le> l + r \<and> l + r \<le> MAX_RANGE_VALUE then Some (l + r) else None)"
  using assms by (auto simp: AddWithOverflowCheck_def)

interpretation add_tr: sound_transfer Add "(+)" "\<lambda>_ _. True" "\<lambda>_ _. True"
proof
  fix a b x y
  assume wf: "wf_range a" "wf_range b" and x: "in_range x a" and y: "in_range y b"
  have v: "GetLeft a + GetLeft b \<le> x + y" "x + y \<le> GetRight a + GetRight b"
    using x y by (auto simp: in_range_def)
  show "in_range (to_i64 (x + y)) (Add a b)"
    using wf v by (auto simp: Add_def AddWithOverflowCheck_Some wf_range_def in_range_def to_i64_id split: option.splits)
next
  fix a b assume "wf_range a" "wf_range b"
  then show "wf_range (Add a b)"
    by (auto simp: Add_def AddWithOverflowCheck_Some wf_range_def split: option.splits if_splits)
qed

interpretation sub_tr: sound_transfer Sub "(-)" "\<lambda>_ _. True" "\<lambda>_ b. GetLeft b \<noteq> MIN_RANGE_VALUE"
proof
  fix a b x y
  assume wf: "wf_range a" "wf_range b" and x: "in_range x a" and y: "in_range y b"
    and pre: "GetLeft b \<noteq> MIN_RANGE_VALUE"
  have "GetRight b \<noteq> MIN_RANGE_VALUE" using wf pre by (auto simp: wf_range_def)
  moreover have v: "GetLeft a - GetRight b \<le> x - y" "x - y \<le> GetRight a - GetLeft b"
    using x y by (auto simp: in_range_def)
  ultimately show "in_range (to_i64 (x - y)) (Sub a b)"
    using wf v pre by (auto simp: Sub_def Let_def neg_range_value_def AddWithOverflowCheck_Some wf_range_def
        in_range_def to_i64_id split: option.splits)
next
  fix a b assume "wf_range a" "wf_range b"
  then show "wf_range (Sub a b)"
    by (auto simp: Sub_def Let_def neg_range_value_def AddWithOverflowCheck_Some wf_range_def MIN_RANGE_VALUE_def
        MAX_RANGE_VALUE_def split: option.splits if_splits)
qed

lemma MulWithOverflowCheck_exact:
  assumes "MIN_RANGE_VALUE \<le> l" "l \<le> MAX_RANGE_VALUE" "MIN_RANGE_VALUE \<le> r" "r \<le> MAX_RANGE_VALUE"
    and "\<not> (l = MIN_RANGE_VALUE \<and> r = - 1)" "\<not> (l = - 1 \<and> r = MIN_RANGE_VALUE)"
    and m: "MulWithOverflowCheck l r = Some m"
  shows "m = l * r \<and> MIN_RANGE_VALUE \<le> m \<and> m \<le> MAX_RANGE_VALUE"
proof (cases "l = 0 \<or> r = 0")
  case True
  then show ?thesis using m by (auto simp: MulWithOverflowCheck_def range_defs)
next
  case False
  define la ra where "la = abs_range_value l" and "ra = abs_range_value r"
  have pos: "0 < la" "0 < ra" using False assms(1-4)
    by (auto simp: la_def ra_def abs_range_value_def MAX_RANGE_VALUE_def MIN_RANGE_VALUE_def)
  have m': "m = to_i64 (l * r)" and le: "la \<le> MAX_RANGE_VALUE sdiv ra"
    using m False by (auto simp: MulWithOverflowCheck_def la_def ra_def Let_def split: if_splits)
  have "MAX_RANGE_VALUE sdiv ra = MAX_RANGE_VALUE div ra"
    using pos by (simp add: signed_divide_int_def sgn_if MAX_RANGE_VALUE_def)
  then have bound: "la * ra \<le> MAX_RANGE_VALUE"
    using le pos mult_right_mono[of la "MAX_RANGE_VALUE div ra" ra] pos_mod_sign[of ra MAX_RANGE_VALUE]
      minus_mod_eq_div_mult[of MAX_RANGE_VALUE ra] by linarith
  have "MIN_RANGE_VALUE \<le> l * r \<and> l * r \<le> MAX_RANGE_VALUE"
  proof (cases "l = MIN_RANGE_VALUE \<or> r = MIN_RANGE_VALUE")
    case True
    then have "\<bar>l\<bar> = 1 \<or> \<bar>r\<bar> = 1"
    proof
      assume l: "l = MIN_RANGE_VALUE"
      then have "MAX_RANGE_VALUE * ra \<le> MAX_RANGE_VALUE" using bound by (simp add: la_def abs_range_value_def)
      then have "ra = 1" using pos(2) by (simp add: MAX_RANGE_VALUE_def)
      then show ?thesis by (auto simp: ra_def abs_range_value_def MAX_RANGE_VALUE_def split: if_splits)
    next
      assume r: "r = MIN_RANGE_VALUE"
      then have "la * MAX_RANGE_VALUE \<le> MAX_RANGE_VALUE" using bound by (simp add: ra_def abs_range_value_def)
      then have "la = 1" using pos(1) by (simp add: MAX_RANGE_VALUE_def)
      then show ?thesis by (auto simp: la_def abs_range_value_def MAX_RANGE_VALUE_def split: if_splits)
    qed
    then show ?thesis using True assms by (auto simp: abs_if MIN_RANGE_VALUE_def MAX_RANGE_VALUE_def split: if_splits)
  next
    case False
    then have "\<bar>l * r\<bar> \<le> MAX_RANGE_VALUE" using bound by (simp add: la_def ra_def abs_range_value_def abs_mult)
    then show ?thesis by (simp add: MIN_RANGE_VALUE_def MAX_RANGE_VALUE_def abs_le_iff)
  qed
  then show ?thesis using m' by (simp add: to_i64_id)
qed

lemma mult_corner_bounds:
  fixes a b c d x y :: int
  assumes "a \<le> x" "x \<le> b" "c \<le> y" "y \<le> d"
  shows "min (a * c) (min (a * d) (min (b * c) (b * d))) \<le> x * y"
    and "x * y \<le> max (a * c) (max (a * d) (max (b * c) (b * d)))"
proof -
  have lin: "min (p * z) (q * z) \<le> w * z \<and> w * z \<le> max (p * z) (q * z)" if "p \<le> w" "w \<le> q" for p q w z :: int
    using that by (cases "0 \<le> z") (auto simp: min_def max_def mult_right_mono mult_right_mono_neg)
  have "min (a * y) (b * y) \<le> x * y" "x * y \<le> max (a * y) (b * y)" using lin[OF assms(1,2)] by auto
  moreover have "min (a * c) (a * d) \<le> a * y" "a * y \<le> max (a * c) (a * d)"
    "min (b * c) (b * d) \<le> b * y" "b * y \<le> max (b * c) (b * d)"
    using lin[OF assms(3,4), of a] lin[OF assms(3,4), of b] by (auto simp: mult.commute)
  ultimately show "min (a * c) (min (a * d) (min (b * c) (b * d))) \<le> x * y"
    and "x * y \<le> max (a * c) (max (a * d) (max (b * c) (b * d)))" by linarith+
qed

definition mul_safe :: "BoundsRange \<Rightarrow> BoundsRange \<Rightarrow> bool" where
  "mul_safe a b \<longleftrightarrow>
     \<not> (GetLeft a = MIN_RANGE_VALUE \<and> (GetLeft b = - 1 \<or> GetRight b = - 1)) \<and>
     \<not> (GetLeft b = MIN_RANGE_VALUE \<and> (GetLeft a = - 1 \<or> GetRight a = - 1))"

lemma MulWithOverflowCheck_bounds:
  "MulWithOverflowCheck l r = Some m \<Longrightarrow> MIN_RANGE_VALUE \<le> m \<and> m \<le> MAX_RANGE_VALUE"
  by (auto simp: MulWithOverflowCheck_def Let_def split: if_splits) (simp_all add: range_defs)

lemma mul_corner_exact:
  assumes wf: "wf_range a" "wf_range b" and safe: "mul_safe a b"
    and lr: "l = GetLeft a \<or> l = GetRight a" "r = GetLeft b \<or> r = GetRight b"
    and m: "MulWithOverflowCheck l r = Some m"
  shows "m = l * r"
proof -
  have b: "MIN_RANGE_VALUE \<le> l" "l \<le> MAX_RANGE_VALUE" "MIN_RANGE_VALUE \<le> r" "r \<le> MAX_RANGE_VALUE"
    using wf lr by (auto simp: wf_range_def)
  have "l = MIN_RANGE_VALUE \<Longrightarrow> GetLeft a = MIN_RANGE_VALUE" "r = MIN_RANGE_VALUE \<Longrightarrow> GetLeft b = MIN_RANGE_VALUE"
    using wf lr by (auto simp: wf_range_def)
  then have "\<not> (l = MIN_RANGE_VALUE \<and> r = - 1)" "\<not> (l = - 1 \<and> r = MIN_RANGE_VALUE)"
    using safe lr by (auto simp: mul_safe_def)
  then show ?thesis using MulWithOverflowCheck_exact[OF b _ _ m] by simp
qed

interpretation mul_tr: sound_transfer Mul "(*)" "\<lambda>_ _. True" mul_safe
proof
  fix a b x y
  assume wf: "wf_range a" "wf_range b" and safe: "mul_safe a b" and x: "in_range x a" and y: "in_range y b"
  show "in_range (to_i64 (x * y)) (Mul a b)"
  proof (cases "Mul a b = maxRange")
    case False
    then obtain m1 m2 m3 m4 where ms:
        "MulWithOverflowCheck (GetLeft a) (GetLeft b) = Some m1" "MulWithOverflowCheck (GetLeft a) (GetRight b) = Some m2"
        "MulWithOverflowCheck (GetRight a) (GetLeft b) = Some m3" "MulWithOverflowCheck (GetRight a) (GetRight b) = Some m4"
      by (auto simp: Mul_def split: option.splits)
    have e: "m1 = GetLeft a * GetLeft b" "m2 = GetLeft a * GetRight b" "m3 = GetRight a * GetLeft b" "m4 = GetRight a * GetRight b"
      using ms mul_corner_exact[OF wf safe] by simp_all
    have "min m1 (min m2 (min m3 m4)) \<le> x * y" "x * y \<le> max m1 (max m2 (max m3 m4))"
      unfolding e using x y by (auto simp: in_range_def intro!: mult_corner_bounds)
    moreover from this have "to_i64 (x * y) = x * y"
      using ms[THEN MulWithOverflowCheck_bounds] by (intro to_i64_id) linarith+
    ultimately show ?thesis using ms by (simp add: Mul_def in_range_def)
  qed simp
next
  fix a b
  show "wf_range (Mul a b)"
    by (auto simp: Mul_def wf_range_def min_le_iff_disj le_max_iff_disj dest!: MulWithOverflowCheck_bounds split: option.splits)
qed

lemma sdiv_mono:
  fixes x y d :: int
  assumes "x \<le> y"
  shows "0 < d \<Longrightarrow> x sdiv d \<le> y sdiv d" and "d < 0 \<Longrightarrow> y sdiv d \<le> x sdiv d"
proof -
  have pos: "x sdiv e \<le> y sdiv e" if "0 < e" for e
  proof -
    have q: "z sdiv e = (if 0 \<le> z then z div e else - (- z div e))" for z
      using that by (auto simp: signed_divide_int_def sgn_if)
    show ?thesis using assms that
      by (auto simp: q zdiv_mono1 pos_imp_zdiv_nonneg_iff) (smt (verit) pos_imp_zdiv_nonneg_iff)
  qed
  then show "0 < d \<Longrightarrow> x sdiv d \<le> y sdiv d" .
  have "z sdiv d = - (z sdiv (- d))" for z
    by (simp add: signed_divide_int_def)
  then show "y sdiv d \<le> x sdiv d" if "d < 0"
    using pos[of "- d"] that by simp
qed

lemma sdiv_bounds:
  fixes x d :: int
  assumes "MIN_RANGE_VALUE \<le> x" "x \<le> MAX_RANGE_VALUE" "d \<noteq> 0" "\<not> (x = MIN_RANGE_VALUE \<and> d = - 1)"
  shows "MIN_RANGE_VALUE \<le> x sdiv d \<and> x sdiv d \<le> MAX_RANGE_VALUE"
proof -
  have a: "\<bar>x sdiv d\<bar> = \<bar>x\<bar> div \<bar>d\<bar>"
    by (cases "x = 0 \<or> d = 0") (auto simp: signed_divide_int_def abs_mult abs_sgn_eq pos_imp_zdiv_nonneg_iff)
  show ?thesis
  proof (cases "\<bar>d\<bar> = 1")
    case True
    then show ?thesis using assms by (auto simp: abs_if signed_divide_int_def sgn_if MIN_RANGE_VALUE_def MAX_RANGE_VALUE_def split: if_splits)
  next
    case False
    then have "\<bar>x\<bar> div \<bar>d\<bar> \<le> \<bar>x\<bar> div 2" using assms(3) by (intro zdiv_mono2) auto
    also have "\<bar>x\<bar> div 2 \<le> MAX_RANGE_VALUE" using assms(1,2) by (simp add: MIN_RANGE_VALUE_def MAX_RANGE_VALUE_def)
    finally show ?thesis unfolding a[symmetric] by (simp add: MIN_RANGE_VALUE_def MAX_RANGE_VALUE_def abs_le_iff)
  qed
qed

interpretation div_tr: sound_transfer Div "(sdiv)" "\<lambda>_ _. True" "\<lambda>_ _. True"
proof
  fix a b x y
  assume wf: "wf_range a" "wf_range b" and x: "in_range x a" and y: "in_range y b"
  show "in_range (to_i64 (x sdiv y)) (Div a b)"
  proof (cases "Div a b = maxRange")
    case False
    then have b: "GetLeft b = y" "GetRight b = y" "y \<noteq> 0" and
      ok: "DivWithOverflowCheck (GetLeft a) y = Some (GetLeft a sdiv y)" "DivWithOverflowCheck (GetRight a) y = Some (GetRight a sdiv y)"
      using y by (auto simp: Div_def in_range_def DivWithOverflowCheck_def split: if_splits)
    have "min (GetLeft a sdiv y) (GetRight a sdiv y) \<le> x sdiv y" "x sdiv y \<le> max (GetLeft a sdiv y) (GetRight a sdiv y)"
      using x b sdiv_mono[of "GetLeft a" x y] sdiv_mono[of x "GetRight a" y] by (cases "0 < y"; simp add: in_range_def min_le_iff_disj le_max_iff_disj)+
    moreover have "to_i64 (x sdiv y) = x sdiv y"
      using sdiv_bounds[of x y] wf x b ok by (intro to_i64_id) (auto simp: wf_range_def in_range_def DivWithOverflowCheck_def split: if_splits)
    ultimately show ?thesis using b ok by (simp add: Div_def in_range_def)
  qed simp
next
  fix a b assume "wf_range a" "wf_range b"
  then show "wf_range (Div a b)"
    using sdiv_bounds[of "GetLeft a" "GetLeft b"] sdiv_bounds[of "GetRight a" "GetLeft b"]
    by (auto simp: Div_def wf_range_def min_le_iff_disj le_max_iff_disj DivWithOverflowCheck_def split: option.splits if_splits)
qed

lemma smod_bounds:
  fixes x y :: int
  shows "0 \<le> x \<Longrightarrow> 0 \<le> x smod y \<and> x smod y \<le> x" and "x \<le> 0 \<Longrightarrow> x \<le> x smod y \<and> x smod y \<le> 0"
    and "y \<noteq> 0 \<Longrightarrow> \<bar>x smod y\<bar> \<le> \<bar>y\<bar> - 1"
proof -
  have m: "x smod y = sgn x * (\<bar>x\<bar> mod \<bar>y\<bar>)" by (rule signed_modulo_int_def)
  have n: "0 \<le> \<bar>x\<bar> mod \<bar>y\<bar>" "\<bar>x\<bar> mod \<bar>y\<bar> \<le> \<bar>x\<bar>" by (cases "y = 0"; simp add: zmod_le_nonneg_dividend)+
  show "0 \<le> x \<Longrightarrow> 0 \<le> x smod y \<and> x smod y \<le> x" using m n by (auto simp: sgn_if)
  show "x \<le> 0 \<Longrightarrow> x \<le> x smod y \<and> x smod y \<le> 0" using m n by (auto simp: sgn_if)
  show "\<bar>x smod y\<bar> \<le> \<bar>y\<bar> - 1" if "y \<noteq> 0"
    using m n that pos_mod_bound[of "\<bar>y\<bar>" "\<bar>x\<bar>"] by (auto simp: sgn_if)
qed

definition max_mod :: "BoundsRange \<Rightarrow> int" where
  "max_mod b = (if GetLeft b = MIN_RANGE_VALUE then MAX_RANGE_VALUE
     else if GetLeft b < 0 then max (if GetRight b > 0 then GetRight b - 1 else 0) (- GetLeft b - 1)
     else if GetRight b > 0 then GetRight b - 1 else 0)"

lemma Mod_eq:
  "Mod a b = (if max_mod b = 0 then maxRange
     else mkRange (if GetLeft a < 0 then max (GetLeft a) (- max_mod b) else 0)
       (if GetRight a > 0 then min (GetRight a) (max_mod b) else 0))"
  by (simp add: Mod_def max_mod_def Let_def)

interpretation mod_tr: sound_transfer Mod "(smod)" "\<lambda>_ y. y \<noteq> 0" "\<lambda>_ _. True"
proof
  fix a b x y
  assume wf: "wf_range a" "wf_range b" and x: "in_range x a" and y: "in_range y b" and y0: "y \<noteq> 0"
  have "\<bar>y\<bar> - 1 \<le> max_mod b"
    using y y0 wf by (auto simp: max_mod_def in_range_def wf_range_def MAX_RANGE_VALUE_def MIN_RANGE_VALUE_def)
  then have m: "\<bar>x smod y\<bar> \<le> max_mod b" using smod_bounds(3)[OF y0, of x] by linarith
  have "to_i64 (x smod y) = x smod y"
    using smod_bounds(1,2)[of x y] wf x
    by (intro to_i64_id; cases "0 \<le> x") (auto simp: in_range_def wf_range_def MAX_RANGE_VALUE_def MIN_RANGE_VALUE_def)
  then show "in_range (to_i64 (x smod y)) (Mod a b)"
    using m smod_bounds(1,2)[of x y] x
    by (cases "max_mod b = 0"; cases "0 \<le> x") (auto simp: Mod_eq in_range_def MAX_RANGE_VALUE_def MIN_RANGE_VALUE_def)
next
  fix a b assume "wf_range a" "wf_range b"
  then show "wf_range (Mod a b)"
    by (auto simp: Mod_eq max_mod_def wf_range_def MAX_RANGE_VALUE_def MIN_RANGE_VALUE_def)
qed

lemma sint_as_u64: "MIN_RANGE_VALUE \<le> v \<Longrightarrow> v \<le> MAX_RANGE_VALUE \<Longrightarrow> sint (as_u64 v) = v"
  using to_i64_id[of v] by (simp add: as_u64_def to_i64_def sint_sbintrunc')

lemma drop_bit_63_iff: "drop_bit 63 (as_u64 v) = 1 \<longleftrightarrow> sint (as_u64 v) < 0"
proof -
  have "drop_bit 63 w = of_bool (bit w 63)" for w :: u64
  proof (rule bit_word_eqI)
    fix n show "bit (drop_bit 63 w) n = bit (of_bool (bit w 63) :: u64) n"
      using bit_imp_le_length[of w "63 + n"] by (cases n) (auto simp: bit_drop_bit_eq bit_1_iff)
  qed
  then show ?thesis using bit_last_iff[of "as_u64 v"] by simp
qed

interpretation and_tr: sound_transfer And "(AND)" "\<lambda>_ _. True" "\<lambda>_ _. True"
proof
  fix a b x y
  assume wf: "wf_range a" "wf_range b" and x: "in_range x a" and y: "in_range y b"
  show "in_range (to_i64 (x AND y)) (And a b)"
  proof (cases "And a b = maxRange")
    case False
    then have "IsConst b" "\<not> drop_bit 63 (as_u64 (GetLeft b)) = 1"
      by (auto simp: And_def Let_def split: if_splits)
    then have b: "GetLeft b = y" "0 \<le> y" "sint (as_u64 y) = y" "y \<le> MAX_RANGE_VALUE"
      using y wf sint_as_u64[of y] drop_bit_63_iff[of y] by (auto simp: IsConst_def in_range_def wf_range_def)
    have "0 \<le> x AND y" "x AND y \<le> y" using b(2) by simp_all
    moreover from this have "to_i64 (x AND y) = x AND y"
      using b(4) MIN_RANGE_VALUE_def by (intro to_i64_id) linarith+
    ultimately show ?thesis using b False by (auto simp: And_def Let_def in_range_def split: if_splits)
  qed simp
next
  fix a b assume "wf_range a" "wf_range b"
  then show "wf_range (And a b)"
    using sint_as_u64[of "GetLeft b"] drop_bit_63_iff[of "GetLeft b"]
    by (auto simp: And_def Let_def wf_range_def MIN_RANGE_VALUE_def)
qed

lemma Neg_sound:
  assumes "wf_range a" "in_range x a" "GetLeft a \<noteq> MIN_RANGE_VALUE"
  shows "in_range (to_i64 (- x)) (Neg a) \<and> wf_range (Neg a)"
  using assms to_i64_id[of "- x"]
  by (auto simp: Neg_def Let_def neg_range_value_def in_range_def wf_range_def MIN_RANGE_VALUE_def MAX_RANGE_VALUE_def)

lemma Abs_sound:
  assumes "wf_range a" "in_range x a" "GetLeft a \<noteq> MIN_RANGE_VALUE"
  shows "in_range (to_i64 \<bar>x\<bar>) (Abs a) \<and> wf_range (Abs a)"
  using assms to_i64_id[of "\<bar>x\<bar>"]
  by (auto simp: Abs_def Let_def abs_range_value_def in_range_def wf_range_def MIN_RANGE_VALUE_def MAX_RANGE_VALUE_def)

lemma Union_loop_bounds:
  "GetLeft (Union_loop rs mn mx) \<le> mn \<and> mx \<le> GetRight (Union_loop rs mn mx) \<and>
   (\<forall>r \<in> set rs. GetLeft (Union_loop rs mn mx) \<le> GetLeft r \<and> GetRight r \<le> GetRight (Union_loop rs mn mx))"
proof (induction rs arbitrary: mn mx)
  case (Cons r rs)
  show ?case
    using Cons.IH[of "if GetLeft r < mn then GetLeft r else mn" "if GetRight r > mx then GetRight r else mx"]
    by (auto split: if_splits)
qed simp

lemma Union_loop_attained:
  "GetLeft (Union_loop rs mn mx) \<in> insert mn (GetLeft ` set rs) \<and>
   GetRight (Union_loop rs mn mx) \<in> insert mx (GetRight ` set rs)"
proof (induction rs arbitrary: mn mx)
  case (Cons r rs)
  show ?case
    using Cons.IH[of "if GetLeft r < mn then GetLeft r else mn" "if GetRight r > mx then GetRight r else mx"]
    by (auto split: if_splits)
qed simp

lemma Union_sound:
  assumes "r \<in> set rs" "in_range v r" shows "in_range v (Union rs)"
  using assms Union_loop_bounds[of rs MAX_RANGE_VALUE MIN_RANGE_VALUE] by (fastforce simp: Union_def in_range_def)

lemma Union_wf:
  assumes "rs \<noteq> []" "\<forall>r \<in> set rs. wf_range r" shows "wf_range (Union rs)"
proof -
  obtain r where r: "r \<in> set rs" "wf_range r" using assms by (cases rs) auto
  have "MIN_RANGE_VALUE \<le> GetLeft (Union rs)" "GetRight (Union rs) \<le> MAX_RANGE_VALUE"
    using assms(2) Union_loop_attained[of rs MAX_RANGE_VALUE MIN_RANGE_VALUE]
    by (fastforce simp: Union_def wf_range_def)+
  moreover have "GetLeft (Union rs) \<le> GetLeft r" "GetRight r \<le> GetRight (Union rs)"
    using r Union_loop_bounds[of rs MAX_RANGE_VALUE MIN_RANGE_VALUE] by (auto simp: Union_def)
  ultimately show ?thesis using r(2) by (simp add: wf_range_def)
qed

section \<open>Narrowing by a condition is sound\<close>

text \<open>The unsigned conditions are treated like the signed ones, which is right on ranges without
  negative values only.\<close>

definition cc_applies :: "ConditionCode \<Rightarrow> RangePair \<Rightarrow> bool" where
  "cc_applies cc ranges \<longleftrightarrow>
     (cc \<in> {CC_B, CC_BE, CC_A, CC_AE} \<longrightarrow> IsNotNegative (fst ranges) \<and> IsNotNegative (snd ranges))"

lemma Compare_int:
  fixes x y :: u64
  assumes "Compare cc x y" "cc_applies cc (a, b)" "in_range (sint x) a" "in_range (sint y) b"
  shows "cc = CC_EQ \<Longrightarrow> sint x = sint y" "cc = CC_NE \<Longrightarrow> sint x \<noteq> sint y"
    "cc = CC_LT \<or> cc = CC_B \<Longrightarrow> sint x < sint y" "cc = CC_LE \<or> cc = CC_BE \<Longrightarrow> sint x \<le> sint y"
    "cc = CC_GT \<or> cc = CC_A \<Longrightarrow> sint y < sint x" "cc = CC_GE \<or> cc = CC_AE \<Longrightarrow> sint y \<le> sint x"
  using assms sint_nonneg_less_iff[of x y] sint_nonneg_less_iff[of y x]
  by (auto simp: cc_applies_def IsNotNegative_def in_range_def dest: signed_word_eqI)

lemma TryNarrowBoundsByCC_wf:
  assumes "wf_range a" "wf_range b" "TryNarrowBoundsByCC cc (a, b) = (a', b')"
  shows "wf_range a' \<and> wf_range b'"
  using assms
  by (cases cc) (auto simp: TryNarrowBoundsByCC_def NarrowBoundsByNE_def NarrowBoundsCase1_def NarrowBoundsCase2_def
      NarrowBoundsCase3_def NarrowBoundsCase4_def NarrowBoundsCase5_def NarrowBoundsCase6_def Let_def IsConst_def
      wf_range_def split: if_splits)

lemma TryNarrowBoundsByCC_sound:
  fixes x y :: u64
  assumes "Compare cc x y" "cc_applies cc (a, b)" "in_range (sint x) a" "in_range (sint y) b"
    and "TryNarrowBoundsByCC cc (a, b) = (a', b')"
  shows "in_range (sint x) a' \<and> in_range (sint y) b'"
  using assms(3-5) Compare_int[OF assms(1-4)]
  by (cases cc) (auto simp: TryNarrowBoundsByCC_def NarrowBoundsByNE_def NarrowBoundsCase1_def NarrowBoundsCase2_def
      NarrowBoundsCase3_def NarrowBoundsCase4_def NarrowBoundsCase5_def NarrowBoundsCase6_def Let_def IsConst_def
      in_range_def split: if_splits)

section \<open>Shifts by a constant are sound\<close>

text \<open>The amount of a shift is reduced by the mask of the type's width.\<close>

lemma wrap_type_Some_cases:
  "wrap_type t v = Some w \<Longrightarrow> t \<in> {UINT8, INT8, UINT16, INT16, UINT32, INT32, INT64}"
  by (cases t) auto

lemma shift_amount_Some:
  assumes "wrap_type t v = Some w" and "wf_range b" "IsConst b" "\<not> IsNegative b"
  shows "shift_amount ops b t = Some (nat (GetLeft b) mod int_width t)" 
proof -
  have b: "0 \<le> GetLeft b" "GetLeft b \<le> MAX_RANGE_VALUE"
    using assms(2-4) by (auto simp: wf_range_def IsConst_def IsNegative_def)
  then have u: "unat (as_u64 (GetLeft b)) = nat (GetLeft b)"
    by (simp add: as_u64_def unat_eq_nat_uint uint_word_of_int MAX_RANGE_VALUE_def)
  have m: "unat (w AND (2 ^ k - 1)) = unat w mod 2 ^ k" for w :: u64 and k
  proof -
    have "w AND (2 ^ k - 1) = take_bit k w" by (simp add: take_bit_eq_mask mask_eq_exp_minus_1)
    then show ?thesis by (simp only: unsigned_take_bit_eq) (simp add: take_bit_eq_mod)
  qed
  show ?thesis
    using wrap_type_Some_cases[OF assms(1)] m[of "as_u64 (GetLeft b)" 3] m[of "as_u64 (GetLeft b)" 4]
      m[of "as_u64 (GetLeft b)" 5] m[of "as_u64 (GetLeft b)" 6]
    by (auto simp: shift_amount_def GetTypeSize_def ShiftByType_def ShiftByType_plain_def u)
qed

lemma drop_bit_int_bounds:
  fixes p :: int and n :: nat
  shows "min p 0 \<le> drop_bit n p \<and> drop_bit n p \<le> max p 0"
proof (cases "0 \<le> p")
  case True
  then have "p div 2 ^ n \<le> p div 1" by (intro zdiv_mono2) simp_all
  then show ?thesis using True by (simp add: drop_bit_eq_div pos_imp_zdiv_nonneg_iff)
next
  case False
  have "p * 2 ^ n \<le> p" using False by (simp add: mult_le_cancel_left1)
  then have "p * 2 ^ n div 2 ^ n \<le> p div 2 ^ n" by (rule zdiv_mono1) simp
  then show ?thesis using False by (simp add: drop_bit_eq_div neg_imp_zdiv_nonneg_iff pos_imp_zdiv_neg_iff less_imp_le)
qed

lemma AShr_sound:
  assumes "wf_range a" "wf_range b" "in_range x a" "in_range y b" "0 \<le> y"
    and w: "wrap_type t (drop_bit (nat y mod int_width t) x) = Some w"
    and r: "AShr ops a b t = Some r" "FitInType r t = Some r'"
  shows "in_range w r' \<and> wf_range r'"
proof -
  let ?n = "nat y mod int_width t"
  have mono: "p \<le> q \<Longrightarrow> drop_bit ?n p \<le> drop_bit ?n q" for p q :: int
    by (simp add: drop_bit_eq_div zdiv_mono1)
  have rng: "MIN_RANGE_VALUE \<le> drop_bit ?n p \<and> drop_bit ?n p \<le> MAX_RANGE_VALUE"
    if "MIN_RANGE_VALUE \<le> p" "p \<le> MAX_RANGE_VALUE" for p
    using that drop_bit_int_bounds[of p ?n] MIN_RANGE_VALUE_def MAX_RANGE_VALUE_def by linarith
  have "in_range (to_i64 (drop_bit ?n x)) r \<and> wf_range r"
  proof (cases "IsConst b \<and> \<not> IsNegative b")
    case True
    then have "GetLeft b = y" using assms(4) by (auto simp: IsConst_def in_range_def)
    then have "r = mkRange (drop_bit ?n (GetLeft a)) (drop_bit ?n (GetRight a))"
      using True r(1) shift_amount_Some[OF w assms(2)] by (simp add: AShr_def)
    then show ?thesis using assms(1,3) mono rng to_i64_id[of "drop_bit ?n x"]
      by (auto simp: in_range_def wf_range_def)
  next
    case False
    then show ?thesis using r(1) by (auto simp: AShr_def)
  qed
  then show ?thesis using FitInType_sound[OF w _ r(2)] FitInType_wf[OF _ r(2)] by blast
qed

lemma sint_push_bit_u64:
  "MIN_RANGE_VALUE \<le> v * 2 ^ n \<Longrightarrow> v * 2 ^ n \<le> MAX_RANGE_VALUE \<Longrightarrow> sint (push_bit n (as_u64 v)) = v * 2 ^ n"
  using sint_as_u64[of "v * 2 ^ n"] by (simp add: as_u64_def push_bit_eq_mult)

lemma Shl_sound:
  assumes "wf_range a" "wf_range b" "in_range x a" "in_range y b" "0 \<le> y"
    and w: "wrap_type t (push_bit (nat y mod int_width t) x) = Some w"
    and r: "Shl ops a b t = Some r" "FitInType r t = Some r'"
  shows "in_range w r' \<and> wf_range r'"
proof -
  let ?n = "nat y mod int_width t"
  have n: "?n < 64" using wrap_type_Some_cases[OF w] by (auto simp: less_le_trans[OF mod_less_divisor])
  have "in_range (to_i64 (push_bit ?n x)) r \<and> wf_range r"
  proof (cases "r = maxRange")
    case False
    then have c: "IsConst b" "\<not> IsNegative b" using r(1) by (auto simp: Shl_def split: if_splits)
    then have "GetLeft b = y" using assms(4) by (auto simp: IsConst_def in_range_def)
    then have r1: "\<not> (?n > 0 \<and> (GetLeft a < - sint (push_bit (64 - ?n - 1) (1 :: u64)) \<or>
        GetRight a \<ge> sint (push_bit (64 - ?n - 1) (1 :: u64))))"
      "r = mkRange (sint (push_bit ?n (as_u64 (GetLeft a)))) (sint (push_bit ?n (as_u64 (GetRight a))))"
      using c r(1) False shift_amount_Some[OF w assms(2) c] by (auto simp: Shl_def Let_def split: if_splits)
    have fits: "MIN_RANGE_VALUE \<le> v * 2 ^ ?n \<and> v * 2 ^ ?n \<le> MAX_RANGE_VALUE" if "GetLeft a \<le> v" "v \<le> GetRight a" for v
    proof (cases "?n = 0")
      case False
      have e: "sint (push_bit (64 - ?n - 1) (1 :: u64)) = 2 ^ (63 - ?n)"
      proof -
        have "(2::int) ^ (63 - ?n) \<le> 4611686018427387904"
          using power_increasing[of "63 - ?n" 62 "2::int"] False by simp
        moreover have "(0::int) \<le> 2 ^ (63 - ?n)" by simp
        ultimately have "MIN_RANGE_VALUE \<le> 1 * 2 ^ (63 - ?n)" "1 * 2 ^ (63 - ?n) \<le> MAX_RANGE_VALUE"
          unfolding MIN_RANGE_VALUE_def MAX_RANGE_VALUE_def mult_1 by linarith+
        from sint_push_bit_u64[OF this] show ?thesis by (simp add: as_u64_def)
      qed
      then have "- (2 ^ (63 - ?n)) \<le> v" "v + 1 \<le> 2 ^ (63 - ?n)" using r1(1) that False by auto
      then have "- (2 ^ (63 - ?n)) * 2 ^ ?n \<le> v * 2 ^ ?n" "(v + 1) * 2 ^ ?n \<le> 2 ^ (63 - ?n) * 2 ^ ?n"
        by (intro mult_right_mono; simp)+
      moreover have "(2::int) ^ (63 - ?n) * 2 ^ ?n = 2 ^ 63" using n by (simp flip: power_add)
      ultimately have "- 9223372036854775808 \<le> v * 2 ^ ?n" "v * 2 ^ ?n + 2 ^ ?n \<le> 9223372036854775808"
        by (simp_all add: distrib_right)
      moreover have "(0::int) < 2 ^ ?n" by simp
      ultimately show ?thesis unfolding MIN_RANGE_VALUE_def MAX_RANGE_VALUE_def by linarith
    qed (use assms(1) that in \<open>simp add: wf_range_def\<close>)
    have "r = mkRange (GetLeft a * 2 ^ ?n) (GetRight a * 2 ^ ?n)"
      using r1(2) fits assms(1) by (simp add: sint_push_bit_u64 wf_range_def)
    then show ?thesis using fits assms(1,3) to_i64_id[of "x * 2 ^ ?n"]
      by (auto simp: in_range_def wf_range_def push_bit_eq_mult intro: mult_right_mono)
  qed simp
  then show ?thesis using FitInType_sound[OF w _ r(2)] FitInType_wf[OF _ r(2)] by blast
qed

text \<open>The logical shift: the bits of the value at the type's width move right and zeros come in.\<close>

definition type_shr :: "DataType \<Rightarrow> int \<Rightarrow> nat \<Rightarrow> int" where
  "type_shr t x n = drop_bit n (take_bit (int_width t) x)"

lemma uint_as_u64: "uint (as_u64 v) = take_bit 64 v"
  by (simp add: as_u64_def uint_word_of_int take_bit_eq_mod)

lemma sint_drop_bit_u64:
  assumes "0 < n"
  shows "sint (drop_bit n (as_u64 v)) = drop_bit n (take_bit 64 v)"
proof -
  have u: "uint (drop_bit n (as_u64 v)) = drop_bit n (take_bit 64 v)"
    by (simp add: unsigned_drop_bit_eq uint_as_u64 take_bit_drop_bit)
  have "drop_bit n (take_bit 64 v) < 2 ^ 63"
  proof -
    have "drop_bit n (take_bit 64 v) < 2 ^ (64 - n)"
      unfolding drop_bit_take_bit by (rule take_bit_int_less_exp)
    also have "(2::int) ^ (64 - n) \<le> 2 ^ 63" using assms by (intro power_increasing) simp_all
    finally show ?thesis .
  qed
  moreover have "0 \<le> drop_bit n (take_bit 64 v)" by simp
  ultimately have "signed_take_bit 63 (drop_bit n (take_bit 64 v)) = drop_bit n (take_bit 64 v)"
    by (intro iffD2[OF signed_take_bit_int_eq_self_iff]) linarith
  then show ?thesis by (simp add: sint_uint u)
qed

lemma type_shr_small:
  assumes "0 < n" "n < int_width t" and w: "wrap_type t (type_shr t x n) = Some w"
  shows "w = type_shr t x n \<and> 0 \<le> w \<and> w < 2 ^ (int_width t - n)"
proof -
  have lt: "type_shr t x n < 2 ^ (int_width t - n)"
    unfolding type_shr_def drop_bit_take_bit by (rule take_bit_int_less_exp)
  have "(2::int) ^ (int_width t - n) \<le> 2 ^ (int_width t - 1)"
    using assms(1) by (intro power_increasing) simp_all
  then have "type_shr t x n < 2 ^ (int_width t - 1)" using lt by linarith
  moreover have "0 \<le> type_shr t x n" by (simp add: type_shr_def)
  ultimately have "w = type_shr t x n"
    using wrap_type_Some_cases[OF w] w
    by (auto simp: signed_take_bit_int_eq_self_iff take_bit_int_eq_self_iff)
  then show ?thesis using lt by (simp add: type_shr_def)
qed

lemma take_bit_64_neg: "MIN_RANGE_VALUE \<le> v \<Longrightarrow> v < 0 \<Longrightarrow> take_bit 64 v = v + 2 ^ 64"
  using take_bit_int_eq_self[of "v + 2 ^ 64" 64] by (simp add: MIN_RANGE_VALUE_def take_bit_eq_mod)

lemma drop_bit_mono_int: "p \<le> q \<Longrightarrow> drop_bit n p \<le> drop_bit n (q :: int)"
  by (simp add: drop_bit_eq_div zdiv_mono1)

lemma type_width_bounds:
  assumes "wrap_type t v = Some w" "GetMin t = Some lo" "GetMax t = Some hi"
  shows "hi < 2 ^ int_width t" "- (2 ^ (int_width t - 1)) \<le> lo" "lo < 0 \<Longrightarrow> hi < 2 ^ (int_width t - 1)"
    "int_width t \<noteq> 64 \<Longrightarrow> int_width t \<le> 32"
  using wrap_type_Some_cases[OF assms(1)] assms(2,3) by auto

text \<open>The bounds that \<open>Shr\<close> computes contain the shifted value, or lie above the type's values, so
  that \<open>FitInType\<close> replaces them by the whole type.\<close>

lemma Shr_bounds:
  fixes l h x lo hi :: int
  assumes t: "wrap_type t v = Some w" "GetMin t = Some lo" "GetMax t = Some hi"
    and n: "0 < n" "n < int_width t"
    and x: "lo \<le> l" "l \<le> x" "x \<le> h" "h \<le> hi" and sgn: "0 \<le> l \<or> h < 0"
  shows "drop_bit n (take_bit 64 l) \<le> type_shr t x n \<and> type_shr t x n \<le> drop_bit n (take_bit 64 h) \<or>
    hi < drop_bit n (take_bit 64 l)"
proof (cases "0 \<le> l")
  case True
  have "hi < 2 ^ 64" using type_width_bounds[OF t] wrap_type_Some_cases[OF t(1)] t(3) by auto
  then have "take_bit 64 l = l" "take_bit 64 h = h" "take_bit (int_width t) x = x"
    using True x type_width_bounds(1)[OF t] by (auto simp: take_bit_int_eq_self_iff)
  then show ?thesis using x by (simp add: type_shr_def drop_bit_mono_int)
next
  case False
  then have neg: "x < 0" "h < 0" "l < 0" using x sgn by auto
  have lo: "MIN_RANGE_VALUE \<le> lo" using t(2) by (cases t) (auto simp: MIN_RANGE_VALUE_def)
  have tb: "take_bit 64 p = p + 2 ^ 64" if "p \<in> {l, x, h}" for p
    using that neg x lo by (intro take_bit_64_neg) auto
  show ?thesis
  proof (cases "int_width t = 64")
    case True
    then show ?thesis using x tb by (simp add: type_shr_def drop_bit_mono_int)
  next
    case False
    then have w32: "int_width t \<le> 32" using type_width_bounds(4)[OF t] by simp
    have "hi < 2 ^ 31"
    proof -
      have "hi < 2 ^ (int_width t - 1)" using type_width_bounds(3)[OF t] x neg by simp
      also have "(2::int) ^ (int_width t - 1) \<le> 2 ^ 31" using w32 by (intro power_increasing) simp_all
      finally show ?thesis .
    qed
    moreover have "2 ^ 31 \<le> drop_bit n (take_bit 64 l)"
    proof -
      have "(2::int) ^ (int_width t - 1) \<le> 2 ^ 31" using w32 by (intro power_increasing) simp_all
      then have "- (2 ^ 31) \<le> l" using x(1) type_width_bounds(2)[OF t] by linarith
      then have "2 ^ 63 \<le> take_bit 64 l" using tb[of l] by simp
      moreover have "drop_bit n (2 ^ 63 :: int) = 2 ^ (63 - n)"
        using n w32 by (simp add: drop_bit_eq_div power_diff)
      moreover have "(2::int) ^ 31 \<le> 2 ^ (63 - n)" using n w32 by (intro power_increasing) simp_all
      ultimately show ?thesis using drop_bit_mono_int[of "2 ^ 63" "take_bit 64 l" n] by linarith
    qed
    ultimately show ?thesis by linarith
  qed
qed

lemma FitInType_bounds:
  assumes "wf_range a" "FitInType a t = Some r" "GetMin t = Some lo" "GetMax t = Some hi"
  shows "lo \<le> GetLeft r \<and> GetLeft r \<le> GetRight r \<and> GetRight r \<le> hi"
  using assms by (cases t) (auto simp: FitInType_def wf_range_def split: if_splits)

lemma wrap_type_take_bit: "wrap_type t v = Some w \<Longrightarrow> wrap_type t (take_bit (int_width t) x) = wrap_type t x"
  using wrap_type_Some_cases[of t v w] by (auto simp: signed_take_bit_take_bit)

lemma take_bit_width_le: "take_bit (int_width t) x \<le> take_bit 64 (- 1 :: int)"
proof -
  have "take_bit (int_width t) x < 2 ^ int_width t" by (rule take_bit_int_less_exp)
  moreover have "(2::int) ^ int_width t \<le> 2 ^ 64" using int_width_le_64 by (intro power_increasing) simp_all
  moreover have "take_bit 64 (- 1 :: int) = 2 ^ 64 - 1" by (simp add: mask_eq_exp_minus_1)
  ultimately show ?thesis by linarith
qed

lemma Shr_sound:
  assumes wf: "wf_range a" "wf_range b" and x: "in_range x a" "wrap_type t x = Some x" and y: "in_range y b" "0 \<le> y"
    and w: "wrap_type t (type_shr t x (nat y mod int_width t)) = Some w"
    and r: "Shr ops a b t = Some r" "FitInType r t = Some r'"
  shows "in_range w r'"
proof (cases "r = maxRange")
  case True
  then show ?thesis using FitInType_sound[OF w _ r(2)] by simp
next
  case False
  let ?n = "nat y mod int_width t"
  have n: "?n < int_width t" using wrap_type_Some_cases[OF w] by auto
  have c: "IsConst b" "\<not> IsNegative b" using r(1) False by (auto simp: Shr_def split: if_splits)
  then have "GetLeft b = y" using y by (auto simp: IsConst_def in_range_def)
  then obtain nr where nr: "FitInType a t = Some nr" and
    req: "r = (if GetLeft nr < 0 \<and> GetRight nr \<ge> 0 \<and> ?n > 0 then mkRange 0 (sint (drop_bit ?n (- 1 :: u64)))
       else mkRange (sint (drop_bit ?n (as_u64 (GetLeft nr)))) (sint (drop_bit ?n (as_u64 (GetRight nr)))))"
    using r(1) c shift_amount_Some[OF w wf(2) c] by (auto simp: Shr_def bind_eq_Some_conv split: if_splits)
  obtain lo hi where lh: "GetMin t = Some lo" "GetMax t = Some hi"
    using nr by (auto simp: FitInType_def bind_eq_Some_conv)
  note b = FitInType_bounds[OF wf(1) nr lh]
  have xin: "in_range x nr" using FitInType_sound[OF x(2) _ nr] in_range_wf[OF wf(1) x(1)] x(1) by simp
  have wfn: "wf_range nr" by (rule FitInType_wf[OF wf(1) nr])
  show ?thesis
  proof (cases "?n = 0")
    case True
    then have "w = x" using w x(2) wrap_type_take_bit[OF w] by (simp add: type_shr_def)
    moreover have "in_range (to_i64 x) r"
      using True req wfn xin in_range_wf[OF wfn xin] by (simp add: sint_as_u64 wf_range_def in_range_def)
    ultimately show ?thesis using FitInType_sound[OF x(2) _ r(2)] by simp
  next
    case False
    note sm = type_shr_small[OF _ n w]
    have i64: "to_i64 w = w" using wrap_type_bounds[OF w lh] lh by (intro to_i64_id; cases t) (auto simp: MIN_RANGE_VALUE_def MAX_RANGE_VALUE_def)
    show ?thesis
    proof (cases "GetLeft nr < 0 \<and> GetRight nr \<ge> 0")
      case True
      have "sint (drop_bit ?n (- 1 :: u64)) = drop_bit ?n (take_bit 64 (- 1))"
        using sint_drop_bit_u64[of ?n "- 1"] False by (simp add: as_u64_def)
      moreover have "w \<le> drop_bit ?n (take_bit 64 (- 1))"
        using sm False drop_bit_mono_int[OF take_bit_width_le[of t x], of ?n] by (simp add: type_shr_def)
      ultimately have "in_range w r" using req True False sm by (simp add: in_range_def)
      then show ?thesis using FitInType_sound[OF w _ r(2)] sm False i64 by simp
    next
      case mixed: False
      have req': "r = mkRange (drop_bit ?n (take_bit 64 (GetLeft nr))) (drop_bit ?n (take_bit 64 (GetRight nr)))"
        using req mixed False by (simp add: sint_drop_bit_u64)
      have "0 \<le> GetLeft nr \<or> GetRight nr < 0" using mixed by auto
      from Shr_bounds[OF w lh _ n _ _ _ _ this, of x]
      consider "in_range w r" | "hi < GetLeft r"
        using b xin False sm req' by (auto simp: in_range_def)
      then show ?thesis
      proof cases
        case 1
        then show ?thesis using FitInType_sound[OF w _ r(2)] sm False i64 by simp
      next
        case 2
        then have "r' = mkRange lo hi" using r(2) lh by (auto simp: FitInType_def)
        then show ?thesis using wrap_type_bounds[OF w lh] by (simp add: in_range_def)
      qed
    qed
  qed
qed

section \<open>Properties\<close>

text \<open>the range of a sum contains every wrapped sum of values of the operand ranges, at every
  integer type, and is well formed.\<close>

lemma range_add_sound:
  assumes "wf_range a" "wf_range b" "in_range x a" "in_range y b"
    and "wrap_type t (x + y) = Some w" and "FitInType (Add a b) t = Some r"
  shows "in_range w r \<and> wf_range r"
  using add_tr.typed_transfer[OF assms(1,2) TrueI assms(3,4) TrueI assms(5,6)] .

text \<open>the range of a difference is sound whenever the subtrahend's range does not reach the least
  64-bit value, and so is the range of a negation.\<close>

lemma range_sub_neg_sound:
  assumes "wf_range a" "wf_range b" "in_range x a" "in_range y b" "GetLeft b \<noteq> MIN_RANGE_VALUE"
  shows "(\<forall>t w r. wrap_type t (x - y) = Some w \<longrightarrow> FitInType (Sub a b) t = Some r \<longrightarrow> in_range w r \<and> wf_range r) \<and>
    (\<forall>t w r. wrap_type t (- y) = Some w \<longrightarrow> FitInType (Neg b) t = Some r \<longrightarrow> in_range w r \<and> wf_range r)"
  using sub_tr.typed_transfer[OF assms(1,2,5,3,4) TrueI] Neg_sound[OF assms(2,4,5)]
    FitInType_sound[where r = "Neg b"] FitInType_wf[where r = "Neg b"] by blast

text \<open>C18: The range of a sum, cut to a type, contains every wrapped sum of operand values; the ranges of a
  difference and of a negation do so unless the range that is negated starts at the least value.\<close>

theorem range_add_sub_neg_sound:
  assumes "wf_range a" "wf_range b" "in_range x a" "in_range y b"
  shows "(\<forall>t w r. wrap_type t (x + y) = Some w \<longrightarrow> FitInType (Add a b) t = Some r \<longrightarrow> in_range w r \<and> wf_range r) \<and>
    (GetLeft b \<noteq> MIN_RANGE_VALUE \<longrightarrow>
     (\<forall>t w r. wrap_type t (x - y) = Some w \<longrightarrow> FitInType (Sub a b) t = Some r \<longrightarrow> in_range w r \<and> wf_range r) \<and>
     (\<forall>t w r. wrap_type t (- y) = Some w \<longrightarrow> FitInType (Neg b) t = Some r \<longrightarrow> in_range w r \<and> wf_range r))"
  using range_add_sound[OF assms] range_sub_neg_sound[OF assms] by blast

theorem range_add_sub_neg_sound_witness:
  "wf_range (mkRange 1 100) \<and> in_range 90 (mkRange 1 100) \<and> wrap_type INT8 (90 + 80) = Some (- 86) \<and>
   FitInType (Add (mkRange 1 100) (mkRange 1 100)) INT8 = Some (mkRange (- 128) 127) \<and>
   in_range (- 86) (mkRange (- 128) 127) \<and>
   FitInType (Sub (mkRange 1 100) (mkRange 1 100)) INT32 = Some (mkRange (- 99) 99) \<and> in_range 10 (mkRange (- 99) 99)"
proof -
  have "wf_range (mkRange 1 100)" "in_range 90 (mkRange 1 100)" "in_range 80 (mkRange 1 100)"
    "wrap_type INT8 (90 + 80) = Some (- 86)" "GetLeft (mkRange 1 100) \<noteq> MIN_RANGE_VALUE" "wrap_type INT32 (90 - 80) = Some 10"
    "FitInType (Add (mkRange 1 100) (mkRange 1 100)) INT8 = Some (mkRange (- 128) 127)"
    "FitInType (Sub (mkRange 1 100) (mkRange 1 100)) INT32 = Some (mkRange (- 99) 99)"
    by code_simp+
  then show ?thesis using range_add_sub_neg_sound[of "mkRange 1 100" "mkRange 1 100" 90 80] by blast
qed

text \<open>C19: the range of a product is sound unless one range starts at the least 64-bit value and the
  other has \<open>- 1\<close> as a bound.\<close>

theorem range_mul_sound:
  assumes "wf_range a" "wf_range b" "in_range x a" "in_range y b" "mul_safe a b"
    and "wrap_type t (x * y) = Some w" and "FitInType (Mul a b) t = Some r"
  shows "in_range w r \<and> wf_range r"
  using mul_tr.typed_transfer[OF assms(1,2,5,3,4) TrueI assms(6,7)] .

theorem range_mul_sound_witness:
  "wf_range (mkRange (- 3) 4) \<and> wf_range (mkRange (- 5) 2) \<and> mul_safe (mkRange (- 3) 4) (mkRange (- 5) 2) \<and>
   FitInType (Mul (mkRange (- 3) 4) (mkRange (- 5) 2)) INT32 = Some (mkRange (- 20) 15) \<and>
   in_range (- 8) (mkRange (- 20) 15)"
proof -
  have "wf_range (mkRange (- 3) 4)" "wf_range (mkRange (- 5) 2)" "in_range 4 (mkRange (- 3) 4)" "in_range (- 2) (mkRange (- 5) 2)"
    "mul_safe (mkRange (- 3) 4) (mkRange (- 5) 2)" "wrap_type INT32 (4 * - 2) = Some (- 8)"
    "FitInType (Mul (mkRange (- 3) 4) (mkRange (- 5) 2)) INT32 = Some (mkRange (- 20) 15)"
    by code_simp+
  then show ?thesis using range_mul_sound[of "mkRange (- 3) 4" "mkRange (- 5) 2" 4 "- 2" INT32] by blast
qed

text \<open>C28: the ranges of quotient, remainder and bitwise conjunction are sound; quotient and remainder
  are those of C++, which round towards zero, and the divisor is not zero.\<close>

theorem range_div_mod_and_sound:
  assumes "wf_range a" "wf_range b" "in_range x a" "in_range y b" "y \<noteq> 0"
  shows "(\<forall>t w r. wrap_type t (x sdiv y) = Some w \<longrightarrow> FitInType (Div a b) t = Some r \<longrightarrow> in_range w r \<and> wf_range r) \<and>
    (\<forall>t w r. wrap_type t (x smod y) = Some w \<longrightarrow> FitInType (Mod a b) t = Some r \<longrightarrow> in_range w r \<and> wf_range r) \<and>
    (\<forall>t w r. wrap_type t (x AND y) = Some w \<longrightarrow> FitInType (And a b) t = Some r \<longrightarrow> in_range w r \<and> wf_range r)"
  using div_tr.typed_transfer[OF assms(1,2) TrueI assms(3,4) TrueI]
    mod_tr.typed_transfer[OF assms(1,2) TrueI assms(3,4,5)]
    and_tr.typed_transfer[OF assms(1,2) TrueI assms(3,4) TrueI] by blast

theorem range_div_mod_and_sound_witness:
  "FitInType (Mod (mkRange (- 100) 100) (mkRange 1 8)) INT32 = Some (mkRange (- 7) 7) \<and> in_range (- 3) (mkRange (- 7) 7)"
proof -
  have "wf_range (mkRange (- 100) 100)" "wf_range (mkRange 1 8)" "in_range (- 19) (mkRange (- 100) 100)"
    "in_range 8 (mkRange 1 8)" "(8::int) \<noteq> 0" "wrap_type INT32 (- 19 smod 8) = Some (- 3)"
    "FitInType (Mod (mkRange (- 100) 100) (mkRange 1 8)) INT32 = Some (mkRange (- 7) 7)"
    by code_simp+
  then show ?thesis using range_div_mod_and_sound[of "mkRange (- 100) 100" "mkRange 1 8" "- 19" 8] by blast
qed

text \<open>the ranges of the left shift and the arithmetic right shift by a non-negative amount, taken
  modulo the width of the type, are sound.\<close>

lemma range_shl_ashr_sound:
  assumes "wf_range a" "wf_range b" "in_range x a" "in_range y b" "0 \<le> y"
  shows "(\<forall>t w r r'. wrap_type t (push_bit (nat y mod int_width t) x) = Some w \<longrightarrow>
      Shl ops a b t = Some r \<longrightarrow> FitInType r t = Some r' \<longrightarrow> in_range w r' \<and> wf_range r') \<and>
    (\<forall>t w r r'. wrap_type t (drop_bit (nat y mod int_width t) x) = Some w \<longrightarrow>
      AShr ops a b t = Some r \<longrightarrow> FitInType r t = Some r' \<longrightarrow> in_range w r' \<and> wf_range r')"
  using Shl_sound[OF assms] AShr_sound[OF assms] by blast

text \<open>the range of the logical right shift contains the shifted value of the type's width, although
  the bounds are shifted as 64-bit values: bounds that are wrong for a narrower type lie outside it.\<close>

lemma range_shr_sound:
  assumes "wf_range a" "wf_range b" "in_range x a" "wrap_type t x = Some x" "in_range y b" "0 \<le> y"
    and "wrap_type t (type_shr t x (nat y mod int_width t)) = Some w"
    and "Shr ops a b t = Some r" "FitInType r t = Some r'"
  shows "in_range w r'"
  using assms by (rule Shr_sound)

text \<open>C29: At the signed integer types and the unsigned ones of 8, 16 and 32 bits (the types at which
  \<open>wrap_type\<close> has a value, \<open>wrap_type_types\<close>; not \<open>BOOL\<close> and \<open>UINT64\<close>): the ranges of left, arithmetic right and
  logical right shift by a non-negative amount, taken modulo the width of the type and cut to the type,
  contain every result, wrapped to the type; for the logical right shift the operand has to be a value of
  the type. The ranges of the operands are well formed and contain the operands.\<close>

theorem range_shifts_sound:
  assumes "wf_range a" "wf_range b" "in_range x a" "in_range y b" "0 \<le> y"
  shows "(\<forall>t w r r'. wrap_type t (push_bit (nat y mod int_width t) x) = Some w \<longrightarrow>
      Shl ops a b t = Some r \<longrightarrow> FitInType r t = Some r' \<longrightarrow> in_range w r' \<and> wf_range r') \<and>
    (\<forall>t w r r'. wrap_type t (drop_bit (nat y mod int_width t) x) = Some w \<longrightarrow>
      AShr ops a b t = Some r \<longrightarrow> FitInType r t = Some r' \<longrightarrow> in_range w r' \<and> wf_range r') \<and>
    (\<forall>t w r r'. wrap_type t x = Some x \<longrightarrow> wrap_type t (type_shr t x (nat y mod int_width t)) = Some w \<longrightarrow>
      Shr ops a b t = Some r \<longrightarrow> FitInType r t = Some r' \<longrightarrow> in_range w r')"
  using range_shl_ashr_sound[OF assms] range_shr_sound[OF assms(1-3) _ assms(4,5)] by blast

theorem range_shifts_sound_witness:
  "AShr 4 (mkRange (- 9) 40) (constRange 35) INT32 = Some (mkRange (- 2) 5) \<and> in_range 4 (mkRange (- 2) 5) \<and>
   Shr 4 (constRange (- 1)) (constRange 4) INT32 = Some (constRange 1152921504606846975) \<and>
   in_range 268435455 (mkRange (- 2147483648) 2147483647)"
proof -
  have "wf_range (mkRange (- 9) 40)" "wf_range (constRange 35)" "in_range 39 (mkRange (- 9) 40)"
    "in_range 35 (constRange 35)" "(0::int) \<le> 35"
    by (simp_all add: range_defs constRange_def)
  moreover have "wrap_type INT32 (drop_bit (nat 35 mod int_width INT32) 39) = Some 4"
    "AShr 4 (mkRange (- 9) 40) (constRange 35) INT32 = Some (mkRange (- 2) 5)" by code_simp+
  moreover have "FitInType (mkRange (- 2) 5) INT32 = Some (mkRange (- 2) 5)" by (simp add: FitInType_def)
  ultimately have a: "AShr 4 (mkRange (- 9) 40) (constRange 35) INT32 = Some (mkRange (- 2) 5) \<and> in_range 4 (mkRange (- 2) 5)"
    using range_shifts_sound[of "mkRange (- 9) 40" "constRange 35" 39 35 4] by blast
  have "wf_range (constRange (- 1))" "wf_range (constRange 4)" "in_range (- 1) (constRange (- 1))"
    "wrap_type INT32 (- 1) = Some (- 1)" "in_range 4 (constRange 4)" "(0::int) \<le> 4"
    by (simp_all add: range_defs constRange_def)
  moreover have "wrap_type INT32 (type_shr INT32 (- 1) (nat 4 mod int_width INT32)) = Some 268435455"
    "Shr 4 (constRange (- 1)) (constRange 4) INT32 = Some (constRange 1152921504606846975)" by code_simp+
  moreover have "FitInType (constRange 1152921504606846975) INT32 = Some (mkRange (- 2147483648) 2147483647)"
    by (simp add: FitInType_def constRange_def)
  ultimately show ?thesis using a range_shifts_sound[of "constRange (- 1)" "constRange 4" "- 1" 4 4] by blast
qed

text \<open>C30: After a comparison that held, the narrowed ranges still contain both values and are well formed,
  in every relative position of the two ranges, for the conditions EQ, NE, LT, LE, GT and GE on all
  well-formed ranges and for the unsigned conditions B, BE, A and AE on ranges without negative values only
  (\<open>cc_applies\<close>): on other ranges the code is wrong, see \<open>range_least_value_counterexamples\<close>.\<close>

theorem narrow_by_condition_sound:
  fixes x y :: u64
  assumes "wf_range a" "wf_range b" "in_range (sint x) a" "in_range (sint y) b"
    and "Compare cc x y" "cc_applies cc (a, b)" and "TryNarrowBoundsByCC cc (a, b) = (a', b')"
  shows "in_range (sint x) a' \<and> in_range (sint y) b' \<and> wf_range a' \<and> wf_range b'"
  using TryNarrowBoundsByCC_sound[OF assms(5,6,3,4,7)] TryNarrowBoundsByCC_wf[OF assms(1,2,7)] by blast

theorem narrow_by_condition_sound_witness:
  "TryNarrowBoundsByCC CC_LT (mkRange 0 100, mkRange (- 5) 10) = (mkRange 0 9, mkRange 1 10) \<and>
   in_range (sint (3 :: u64)) (mkRange 0 9) \<and> in_range (sint (7 :: u64)) (mkRange 1 10)"
proof -
  have "wf_range (mkRange 0 100)" "wf_range (mkRange (- 5) 10)" "in_range (sint (3 :: u64)) (mkRange 0 100)"
    "in_range (sint (7 :: u64)) (mkRange (- 5) 10)" "Compare CC_LT (3 :: u64) 7"
    "cc_applies CC_LT (mkRange 0 100, mkRange (- 5) 10)"
    "TryNarrowBoundsByCC CC_LT (mkRange 0 100, mkRange (- 5) 10) = (mkRange 0 9, mkRange 1 10)"
    by (simp_all add: range_defs cc_applies_def TryNarrowBoundsByCC_def NarrowBoundsCase4_def)
  then show ?thesis
    using narrow_by_condition_sound[of "mkRange 0 100" "mkRange (- 5) 10" 3 7 CC_LT] by blast
qed

text \<open>the restrictions of the soundness theorems are needed. At 64 bits, the least value makes the
  range of a difference one too small, the range of a product miss its wrapped value, and the
  range of a negation miss the wrapped value as well; an unsigned condition on a negative value
  removes that value from its range.\<close>

theorem range_least_value_counterexamples:
  "\<not> in_range (to_i64 (- 5 - MIN_RANGE_VALUE)) (Sub (constRange (- 5)) (mkRange MIN_RANGE_VALUE 0)) \<and>
   \<not> in_range (to_i64 (- 5 * - 1)) (Mul (mkRange MIN_RANGE_VALUE 0) (constRange (- 1))) \<and>
   \<not> in_range (to_i64 (- MIN_RANGE_VALUE)) (Neg (mkRange MIN_RANGE_VALUE 0)) \<and>
   Compare CC_A (- 1 :: u64) 5 \<and>
   TryNarrowBoundsByCC CC_A (mkRange (- 1) 9, constRange 5) = (mkRange 6 9, constRange 5)"
proof (intro conjI)
  show "\<not> in_range (to_i64 (- 5 - MIN_RANGE_VALUE)) (Sub (constRange (- 5)) (mkRange MIN_RANGE_VALUE 0))" by code_simp
  show "\<not> in_range (to_i64 (- 5 * - 1)) (Mul (mkRange MIN_RANGE_VALUE 0) (constRange (- 1)))" by code_simp
  show "\<not> in_range (to_i64 (- MIN_RANGE_VALUE)) (Neg (mkRange MIN_RANGE_VALUE 0))" by code_simp
  show "Compare CC_A (- 1 :: u64) 5" by code_simp
  show "TryNarrowBoundsByCC CC_A (mkRange (- 1) 9, constRange 5) = (mkRange 6 9, constRange 5)" by code_simp
qed

end
