(* ===== verification/Utf.thy ===== *)
theory Utf
  imports Ark_Prelude "HOL-Library.Monad_Syntax"
begin

text \<open>
  String encodings (\<^verbatim>\<open>libarkbase/utils/utf.h\<close> and \<^verbatim>\<open>utf.cpp\<close>): modified UTF-8, UTF-8 and UTF-16. A
  pointer into a buffer is the list of the elements from there to the end of the buffer; a read past
  the end gives \<open>None\<close> for the whole call. A function that fills a buffer returns the list of what
  it writes. Sizes that the code compares or counts down are \<open>u64\<close> where they can wrap around and
  \<open>nat\<close> where they cannot.
\<close>

section \<open>Decoding one character\<close>

definition SplitUtf16Pair :: "u32 \<Rightarrow> u16 \<times> u16" where
  "SplitUtf16Pair pair = (ucast (drop_bit 16 pair), ucast (pair AND 0xffff))"

definition ConvertMUtf8ToUtf16Pair :: "u8 list \<Rightarrow> nat \<Rightarrow> (u32 \<times> nat) option" where
  "ConvertMUtf8ToUtf16Pair data maxBytes = do {
     d0 \<leftarrow> nth_opt data 0;
     if d0 AND 0x80 = 0 then Some (ucast d0, 1)
     else if maxBytes < 2 then Some (ucast d0, 1)
     else do {
       d1 \<leftarrow> nth_opt data 1;
       if d1 = 0 then Some (ucast d0, 1)
       else if d0 AND 0x20 = 0 then Some (push_bit 6 (ucast (d0 AND 0x1f)) OR ucast (d1 AND 0x3f), 2)
       else if maxBytes < 3 then Some (ucast d0, 1)
       else do {
         d2 \<leftarrow> nth_opt data 2;
         if d2 = 0 then Some (ucast d0, 1)
         else if d0 AND 0x10 = 0 then
           Some (push_bit 12 (ucast (d0 AND 0x0f)) OR push_bit 6 (ucast (d1 AND 0x3f)) OR ucast (d2 AND 0x3f), 3)
         else if maxBytes < 4 then Some (ucast d0, 1)
         else do {
           d3 \<leftarrow> nth_opt data 3;
           if d3 = 0 then Some (ucast d0, 1)
           else let codePoint = push_bit 18 (ucast (d0 AND 0x0f)) OR push_bit 12 (ucast (d1 AND 0x3f)) OR
                      push_bit 6 (ucast (d2 AND 0x3f)) OR ucast (d3 AND 0x3f) :: u32
                in Some (push_bit 16 ((drop_bit 10 codePoint + 0xd7c0) AND 0xffff) OR
                         ((codePoint AND 0x3ff) + 0xdc00), 4)
         }
       }
     }
   }"

definition CombineTwoU16 :: "u16 \<Rightarrow> u16 \<Rightarrow> u32" where
  "CombineTwoU16 d0 d1 = (push_bit 10 (ucast d0 - 0xd800) OR (ucast d1 - 0xdc00)) + 0x10000"

fun IsMUtf8OnlySingleBytes :: "u8 list \<Rightarrow> bool option" where
  "IsMUtf8OnlySingleBytes [] = None"
| "IsMUtf8OnlySingleBytes (b # bs) =
     (if b = 0 then Some True else if b \<ge> 0x80 then Some False else IsMUtf8OnlySingleBytes bs)"

lemma ConvertMUtf8ToUtf16Pair_size:
  assumes "ConvertMUtf8ToUtf16Pair data maxBytes = Some (pair, nbytes)"
  shows "0 < nbytes \<and> nbytes \<le> length data \<and> nbytes \<le> max 1 maxBytes \<and> nbytes \<le> 4"
  using assms
  by (auto simp: ConvertMUtf8ToUtf16Pair_def Let_def nth_opt_eq_Some bind_eq_Some_conv Suc_le_eq split: if_splits)

lemma ConvertMUtf8ToUtf16Pair_shorter:
  assumes "Some (pair, nbytes) = ConvertMUtf8ToUtf16Pair data maxBytes"
  shows "length data - nbytes < length data"
  using ConvertMUtf8ToUtf16Pair_size[OF assms[symmetric]] by linarith

section \<open>Strings: modified UTF-8 to UTF-16\<close>

text \<open>The units written for one character.\<close>

definition utf16_units :: "u32 \<Rightarrow> u16 list" where
  "utf16_units pair = (case SplitUtf16Pair pair of (p_hi, p_lo) \<Rightarrow> if p_hi \<noteq> 0 then [p_hi, p_lo] else [p_lo])"

function ConvertMUtf8ToUtf16 :: "u8 list \<Rightarrow> nat \<Rightarrow> u16 list option" where
  "ConvertMUtf8ToUtf16 mutf8In rest =
     (if rest = 0 then Some []
      else case ConvertMUtf8ToUtf16Pair mutf8In rest of
             None \<Rightarrow> None
           | Some (pair, nbytes) \<Rightarrow>
               map_option ((@) (utf16_units pair)) (ConvertMUtf8ToUtf16 (drop nbytes mutf8In) (rest - nbytes)))"
  by pat_completeness auto
termination
  by (relation "measure snd") (auto dest: ConvertMUtf8ToUtf16Pair_size)

declare ConvertMUtf8ToUtf16.simps [simp del]

text \<open>The same for a region. \<open>start\<close> counts down the bytes to skip and wraps around like the
  unsigned variable it is; the result is what has been written and the number \<open>outPos\<close> returned.\<close>

function ConvertRegionMUtf8ToUtf16 :: "u8 list \<Rightarrow> nat \<Rightarrow> u64 \<Rightarrow> u64 \<Rightarrow> u64 \<Rightarrow> (u16 list \<times> u64) option" where
  "ConvertRegionMUtf8ToUtf16 mutf8In rest utf16Len start outPos =
     (if rest = 0 then Some ([], outPos)
      else case ConvertMUtf8ToUtf16Pair mutf8In rest of
             None \<Rightarrow> None
           | Some (pair, nbytes) \<Rightarrow>
               (case SplitUtf16Pair pair of (p_hi, p_lo) \<Rightarrow>
                  if start > 0 then
                    ConvertRegionMUtf8ToUtf16 (drop nbytes mutf8In) (rest - nbytes) utf16Len (start - of_nat nbytes) outPos
                  else if p_hi \<noteq> 0 \<and> outPos \<ge> utf16Len - 1 then Some ([], outPos)
                  else let hi = (if p_hi \<noteq> 0 then [p_hi] else []);
                           outPos' = (if p_hi \<noteq> 0 then outPos + 1 else outPos)
                       in if outPos' \<ge> utf16Len then Some (hi, outPos')
                          else map_option (\<lambda>(us, n). (hi @ p_lo # us, n))
                            (ConvertRegionMUtf8ToUtf16 (drop nbytes mutf8In) (rest - nbytes) utf16Len start (outPos' + 1))))"
  by pat_completeness auto
termination
  by (relation "measure (\<lambda>(_, rest, _). rest)") (auto dest: ConvertMUtf8ToUtf16Pair_size)

declare ConvertRegionMUtf8ToUtf16.simps [simp del]

text \<open>The difference of two characters, the first unit before the second.\<close>

definition pair_difference :: "u32 \<Rightarrow> u32 \<Rightarrow> int" where
  "pair_difference c1 c2 =
     (case (SplitUtf16Pair c1, SplitUtf16Pair c2) of ((c1p1, c1p2), (c2p1, c2p2)) \<Rightarrow>
        let result = uint c1p1 - uint c2p1 in if result \<noteq> 0 then result else uint c1p2 - uint c2p2)"

function CompareMUtf8ToMUtf8 :: "u8 list \<Rightarrow> u8 list \<Rightarrow> int option" where
  "CompareMUtf8ToMUtf8 mutf81 mutf82 =
     (case (nth_opt mutf81 0, nth_opt mutf82 0) of
        (Some b1, Some b2) \<Rightarrow>
          if b1 = 0 \<and> b2 = 0 then Some 0
          else if b1 = 0 \<and> b2 \<noteq> 0 then Some (- 1)
          else if b1 \<noteq> 0 \<and> b2 = 0 then Some 1
          else (case (ConvertMUtf8ToUtf16Pair mutf81 4, ConvertMUtf8ToUtf16Pair mutf82 4) of
                  (Some (c1, n1), Some (c2, n2)) \<Rightarrow>
                    if c1 = c2 then CompareMUtf8ToMUtf8 (drop n1 mutf81) (drop n2 mutf82)
                    else Some (pair_difference c1 c2)
                | _ \<Rightarrow> None)
      | _ \<Rightarrow> None)"
  by pat_completeness auto
termination
  by (relation "measure (\<lambda>(a, _). length a)") (auto dest: ConvertMUtf8ToUtf16Pair_shorter)

declare CompareMUtf8ToMUtf8.simps [simp del]

function CompareUtf8ToUtf8 :: "u8 list \<Rightarrow> nat \<Rightarrow> u8 list \<Rightarrow> nat \<Rightarrow> u32 \<Rightarrow> u32 \<Rightarrow> int option" where
  "CompareUtf8ToUtf8 utf81 utf81Length utf82 utf82Length utf81Index utf82Index =
     (if unat utf81Index = utf81Length \<and> unat utf82Index = utf82Length then Some 0
      else if unat utf81Index = utf81Length \<and> unat utf82Index < utf82Length then Some (- 1)
      else if unat utf81Index < utf81Length \<and> unat utf82Index = utf82Length then Some 1
      else (case (ConvertMUtf8ToUtf16Pair utf81 4, ConvertMUtf8ToUtf16Pair utf82 4) of
              (Some (c1, n1), Some (c2, n2)) \<Rightarrow>
                if c1 = c2 then
                  CompareUtf8ToUtf8 (drop n1 utf81) utf81Length (drop n2 utf82) utf82Length
                    (utf81Index + of_nat n1) (utf82Index + of_nat n2)
                else Some (pair_difference c1 c2)
            | _ \<Rightarrow> None))"
  by pat_completeness auto
termination
  by (relation "measure (\<lambda>(a, _). length a)") (auto dest: ConvertMUtf8ToUtf16Pair_shorter)

declare CompareUtf8ToUtf8.simps [simp del]

text \<open>\<open>strlen\<close> and \<open>strcmp\<close> see the elements before the terminating zero.\<close>

definition c_str :: "u8 list \<Rightarrow> u8 list" where "c_str data = takeWhile (\<lambda>b. b \<noteq> 0) data"

definition Mutf8Size :: "u8 list \<Rightarrow> nat" where "Mutf8Size mutf8 = length (c_str mutf8)"

function MUtf8ToUtf16Size_cstr :: "u8 list \<Rightarrow> nat option" where
  "MUtf8ToUtf16Size_cstr mutf8 =
     (case nth_opt mutf8 0 of
        None \<Rightarrow> None
      | Some b \<Rightarrow>
          if b = 0 then Some 0
          else (case ConvertMUtf8ToUtf16Pair mutf8 4 of
                  None \<Rightarrow> None
                | Some (pair, nbytes) \<Rightarrow>
                    map_option ((+) (if pair > 0xffff then 2 else 1)) (MUtf8ToUtf16Size_cstr (drop nbytes mutf8))))"
  by pat_completeness auto
termination
  by (relation "measure length") (auto dest: ConvertMUtf8ToUtf16Pair_size)

declare MUtf8ToUtf16Size_cstr.simps [simp del]

function MUtf8ToUtf16Size :: "u8 list \<Rightarrow> nat \<Rightarrow> nat option" where
  "MUtf8ToUtf16Size mutf8 rest =
     (if rest = 0 then Some 0
      else case ConvertMUtf8ToUtf16Pair mutf8 rest of
             None \<Rightarrow> None
           | Some (pair, n) \<Rightarrow>
               let nbytes = (if n = 0 then 1 else n)
               in map_option ((+) (if pair > 0xffff then 2 else 1)) (MUtf8ToUtf16Size (drop nbytes mutf8) (rest - nbytes)))"
  by pat_completeness auto
termination
  by (relation "measure snd") (auto dest: ConvertMUtf8ToUtf16Pair_size)

declare MUtf8ToUtf16Size.simps [simp del]

definition IsEqual_mutf8 :: "u8 list \<Rightarrow> u8 list \<Rightarrow> bool" where
  "IsEqual_mutf8 utf81 utf82 = (if length utf81 \<noteq> length utf82 then False else utf81 = utf82)"

definition IsEqual_cstr :: "u8 list \<Rightarrow> u8 list \<Rightarrow> bool" where
  "IsEqual_cstr mutf81 mutf82 = (c_str mutf81 = c_str mutf82)"

section \<open>Validation\<close>

text \<open>\<open>n\<close> continuation bytes, then the rest of the string; \<open>None\<close> inside is a read past the end.\<close>

fun continuation :: "nat \<Rightarrow> u8 list \<Rightarrow> u8 list option option" where
  "continuation 0 elems = Some (Some elems)"
| "continuation (Suc n) [] = None"
| "continuation (Suc n) (b # elems) = (if b AND 0xc0 \<noteq> 0x80 then Some None else continuation n elems)"

lemma continuation_length: "continuation n elems = Some (Some rest) \<Longrightarrow> length rest \<le> length elems"
  by (induction n elems rule: continuation.induct) (auto split: if_splits)

function IsValidModifiedUTF8 :: "u8 list \<Rightarrow> bool option" where
  "IsValidModifiedUTF8 [] = None"
| "IsValidModifiedUTF8 (b # elems) =
     (if b = 0 then Some True
      else let high = b AND 0xf0
           in if high \<in> {0x00, 0x10, 0x20, 0x30, 0x40, 0x50, 0x60, 0x70} then IsValidModifiedUTF8 elems
              else if high \<in> {0x80, 0x90, 0xa0, 0xb0} then Some False
              else if high = 0xf0 \<and> b AND 0x08 \<noteq> 0 then Some False
              else (case continuation (if high = 0xf0 then 3 else if high = 0xe0 then 2 else 1) elems of
                      None \<Rightarrow> None
                    | Some None \<Rightarrow> Some False
                    | Some (Some elems') \<Rightarrow> IsValidModifiedUTF8 elems'))"
  by pat_completeness auto
termination
  by (relation "measure length") (auto simp: less_Suc_eq_le dest: continuation_length)

declare IsValidModifiedUTF8.simps(2) [simp del]

definition UTF16Decode :: "u16 \<Rightarrow> u16 \<Rightarrow> u32" where
  "UTF16Decode lead trail = (ucast lead - 0xd800) * 0x400 + (ucast trail - 0xdc00) + 0x10000"

definition IsValidUTF8 :: "u8 list \<Rightarrow> bool option" where
  "IsValidUTF8 data =
     (let first_ok = (if length data = 1 then Some (\<not> data ! 0 \<ge> 0x80)
                      else if length data = 2 then Some (data ! 0 AND 0xe0 = 0xc0)
                      else if length data = 3 then Some (data ! 0 AND 0xf0 = 0xe0)
                      else if length data = 4 then Some (data ! 0 AND 0xf8 = 0xf0)
                      else None)
      in map_option (\<lambda>ok. ok \<and> list_all (\<lambda>b. b AND 0xc0 = 0x80) (tl data)) first_ok)"

section \<open>UTF-16 to UTF-8\<close>

record Utf8Char =
  n_bytes :: nat
  ch :: "u8 list"

definition IsAvailableNextUtf16Code :: "u16 \<Rightarrow> bool" where
  "IsAvailableNextUtf16Code v \<longleftrightarrow> v \<ge> 0xd800 \<and> v \<le> 0xdfff"

definition IsUTF16SurrogatePair :: "u16 \<Rightarrow> bool" where
  "IsUTF16SurrogatePair lead \<longleftrightarrow> lead \<ge> 0xd800 \<and> lead \<le> 0xdbff"

text \<open>The three bytes of a unit.\<close>

definition utf8_3bytes :: "u16 \<Rightarrow> u8 list" where
  "utf8_3bytes d0 = [0xe0 OR ucast (drop_bit 12 d0), 0x80 OR (ucast (drop_bit 6 d0) AND 0x3f), 0x80 OR ucast (d0 AND 0x3f)]"

definition ConvertUtf16ToUtf8 :: "u16 \<Rightarrow> u16 \<Rightarrow> bool \<Rightarrow> Utf8Char" where
  "ConvertUtf16ToUtf8 d0 d1 modify =
     (if d1 = 0 \<and> d0 \<ge> 0xd800 \<and> d0 \<le> 0xdfff then \<lparr>n_bytes = 3, ch = utf8_3bytes d0 @ [0]\<rparr>
      else if d0 = 0 then
        if modify then \<lparr>n_bytes = 2, ch = [0xc0, 0x80, 0, 0]\<rparr> else \<lparr>n_bytes = 1, ch = [0, 0, 0, 0]\<rparr>
      else if d0 \<le> 0x7f then \<lparr>n_bytes = 1, ch = [ucast d0, 0, 0, 0]\<rparr>
      else if d0 \<le> 0x7ff then
        \<lparr>n_bytes = 2, ch = [0xc0 OR ucast (drop_bit 6 d0), 0x80 OR ucast (d0 AND 0x3f), 0, 0]\<rparr>
      else if d0 < 0xd800 \<or> d0 > 0xdbff then \<lparr>n_bytes = 3, ch = utf8_3bytes d0 @ [0]\<rparr>
      else if d1 < 0xdc00 \<or> d1 > 0xdfff then \<lparr>n_bytes = 3, ch = [0xef, 0xbf, 0xbd, 0]\<rparr>
      else let codePoint = CombineTwoU16 d0 d1
           in \<lparr>n_bytes = 4, ch = [ucast (drop_bit 18 codePoint OR 0xf0), ucast ((drop_bit 12 codePoint AND 0x3f) OR 0x80),
                ucast ((drop_bit 6 codePoint AND 0x3f) OR 0x80), ucast ((codePoint AND 0x3f) OR 0x80)]\<rparr>)"

text \<open>The loop of \<open>Utf16ToUtf8Size\<close> over the units from position \<open>i\<close>, \<open>rest\<close> of them. The length is a
  \<open>uint32_t\<close> in the source: \<open>Utf16ToUtf8Size\<close> takes its value, and a caller that has 2^32 units or more
  passes the length modulo 2^32.\<close>

fun Utf16ToUtf8Size_loop :: "u16 list \<Rightarrow> nat \<Rightarrow> bool \<Rightarrow> nat option" where
  "Utf16ToUtf8Size_loop utf16 0 modify = Some 0"
| "Utf16ToUtf8Size_loop [] (Suc rest) modify = None"
| "Utf16ToUtf8Size_loop (u # us) (Suc rest) modify =
     (if u = 0 then map_option ((+) (if modify then 2 else 1)) (Utf16ToUtf8Size_loop us rest modify)
      else if u \<le> 0x7f then map_option ((+) 1) (Utf16ToUtf8Size_loop us rest modify)
      else if u \<le> 0x7ff then map_option ((+) 2) (Utf16ToUtf8Size_loop us rest modify)
      else if u < 0xd800 \<or> u > 0xdbff then map_option ((+) 3) (Utf16ToUtf8Size_loop us rest modify)
      else (case rest of
              0 \<Rightarrow> map_option ((+) 3) (Utf16ToUtf8Size_loop us rest modify)
            | Suc rest' \<Rightarrow>
                (case us of
                   [] \<Rightarrow> None
                 | v # vs \<Rightarrow>
                     if v \<ge> 0xdc00 \<and> v \<le> 0xdfff then map_option ((+) 4) (Utf16ToUtf8Size_loop vs rest' modify)
                     else map_option ((+) 3) (Utf16ToUtf8Size_loop us rest modify))))"

definition Utf16ToUtf8Size :: "u16 list \<Rightarrow> nat \<Rightarrow> bool \<Rightarrow> nat option" where
  "Utf16ToUtf8Size utf16 len modify =
     (if len = 1 \<and> utf16 = [] then None
      else if len = 1 \<and> utf16 ! 0 \<ge> 0xd800 \<and> utf16 ! 0 \<le> 0xdfff then Some (1 + 3)
      else map_option ((+) 1) (Utf16ToUtf8Size_loop utf16 len modify))"

definition Utf16ToMUtf8Size :: "u16 list \<Rightarrow> nat \<Rightarrow> nat option" where
  "Utf16ToMUtf8Size mutf16 len = Utf16ToUtf8Size mutf16 len True"

text \<open>The loop over the units at \<open>utf16In + i\<close>, \<open>rest\<close> of them, with \<open>space\<close> bytes left.\<close>

fun ConvertRegionUtf16ToUtf8_loop :: "u16 list \<Rightarrow> nat \<Rightarrow> nat \<Rightarrow> bool \<Rightarrow> u8 list option" where
  "ConvertRegionUtf16ToUtf8_loop us 0 space modify = Some []"
| "ConvertRegionUtf16ToUtf8_loop us (Suc rest) space modify =
     (case (nth_opt us 0, if rest \<noteq> 0 then nth_opt us 1 else Some 0) of
        (Some u, Some v) \<Rightarrow>
          (let next16Code = (if rest \<noteq> 0 \<and> IsAvailableNextUtf16Code v then v else 0);
               c = ConvertUtf16ToUtf8 u next16Code modify
           in if n_bytes c > space then Some []
              else map_option ((@) (take (n_bytes c) (ch c)))
                (if n_bytes c = 4
                 then ConvertRegionUtf16ToUtf8_loop (drop 2 us) (rest - 1) (space - n_bytes c) modify
                 else ConvertRegionUtf16ToUtf8_loop (drop 1 us) rest (space - n_bytes c) modify))
      | _ \<Rightarrow> None)"

text \<open>\<open>None\<close> for \<open>utf16In\<close> is the null pointer, \<open>hasOut\<close> says that \<open>utf8Out\<close> is not.\<close>

definition ConvertRegionUtf16ToUtf8 :: "u16 list option \<Rightarrow> bool \<Rightarrow> nat \<Rightarrow> nat \<Rightarrow> nat \<Rightarrow> bool \<Rightarrow> u8 list option" where
  "ConvertRegionUtf16ToUtf8 utf16In hasOut utf16Len utf8Len start modify =
     (case utf16In of
        None \<Rightarrow> Some []
      | Some us \<Rightarrow> if \<not> hasOut \<or> utf8Len = 0 then Some []
                   else ConvertRegionUtf16ToUtf8_loop (drop start us) utf16Len utf8Len modify)"

definition ConvertRegionUtf16ToMUtf8 :: "u16 list option \<Rightarrow> bool \<Rightarrow> nat \<Rightarrow> nat \<Rightarrow> nat \<Rightarrow> u8 list option" where
  "ConvertRegionUtf16ToMUtf8 utf16In hasOut utf16Len mutf8Len start =
     ConvertRegionUtf16ToUtf8 utf16In hasOut utf16Len mutf8Len start True"

definition ConvertUtf8ToUtf16Pair :: "u8 list \<Rightarrow> bool \<Rightarrow> (u32 \<times> nat) option" where
  "ConvertUtf8ToUtf16Pair data combine = do {
     d0 \<leftarrow> nth_opt data 0;
     if d0 AND 0x80 = 0 then Some (ucast d0, 1)
     else do {
       d1 \<leftarrow> nth_opt data 1;
       if d0 AND 0x20 = 0 then Some (push_bit 6 (ucast (d0 AND 0x1f)) OR ucast (d1 AND 0x3f), 2)
       else do {
         d2 \<leftarrow> nth_opt data 2;
         if d0 AND 0x10 = 0 then
           Some (push_bit 12 (ucast (d0 AND 0x0f)) OR push_bit 6 (ucast (d1 AND 0x3f)) OR ucast (d2 AND 0x3f), 3)
         else do {
           d3 \<leftarrow> nth_opt data 3;
           let codePoint = push_bit 18 (ucast (d0 AND 0x0f)) OR push_bit 12 (ucast (d1 AND 0x3f)) OR
                 push_bit 6 (ucast (d2 AND 0x3f)) OR ucast (d3 AND 0x3f) :: u32;
               lead = drop_bit 10 codePoint + 0xd7c0;
               tail = ((codePoint AND 0x3ff) + 0xdc00) AND 0xffff
           in Some (if combine then push_bit 10 lead + tail - ((push_bit 10 0xd800) + 0xdc00 - 0x10000)
                    else push_bit 16 lead OR tail, 4)
         }
       }
     }
   }"

definition Utf8ToUtf16Size :: "u8 list \<Rightarrow> nat \<Rightarrow> nat option" where
  "Utf8ToUtf16Size utf8 utf8Len = MUtf8ToUtf16Size utf8 utf8Len"

definition ConvertRegionUtf8ToUtf16 :: "u8 list \<Rightarrow> nat \<Rightarrow> u64 \<Rightarrow> u64 \<Rightarrow> (u16 list \<times> u64) option" where
  "ConvertRegionUtf8ToUtf16 utf8In utf8Len utf16Len start = ConvertRegionMUtf8ToUtf16 utf8In utf8Len utf16Len start 0"

section \<open>Decimal numbers\<close>

definition BIDIGITS_CODE_TAB :: "u32 list" where
  "BIDIGITS_CODE_TAB =
    [0x00300030, 0x00310030, 0x00320030, 0x00330030, 0x00340030, 0x00350030, 0x00360030, 0x00370030, 0x00380030,
     0x00390030, 0x00300031, 0x00310031, 0x00320031, 0x00330031, 0x00340031, 0x00350031, 0x00360031, 0x00370031,
     0x00380031, 0x00390031, 0x00300032, 0x00310032, 0x00320032, 0x00330032, 0x00340032, 0x00350032, 0x00360032,
     0x00370032, 0x00380032, 0x00390032, 0x00300033, 0x00310033, 0x00320033, 0x00330033, 0x00340033, 0x00350033,
     0x00360033, 0x00370033, 0x00380033, 0x00390033, 0x00300034, 0x00310034, 0x00320034, 0x00330034, 0x00340034,
     0x00350034, 0x00360034, 0x00370034, 0x00380034, 0x00390034, 0x00300035, 0x00310035, 0x00320035, 0x00330035,
     0x00340035, 0x00350035, 0x00360035, 0x00370035, 0x00380035, 0x00390035, 0x00300036, 0x00310036, 0x00320036,
     0x00330036, 0x00340036, 0x00350036, 0x00360036, 0x00370036, 0x00380036, 0x00390036, 0x00300037, 0x00310037,
     0x00320037, 0x00330037, 0x00340037, 0x00350037, 0x00360037, 0x00370037, 0x00380037, 0x00390037, 0x00300038,
     0x00310038, 0x00320038, 0x00330038, 0x00340038, 0x00350038, 0x00360038, 0x00370038, 0x00380038, 0x00390038,
     0x00300039, 0x00310039, 0x00320039, 0x00330039, 0x00340039, 0x00350039, 0x00360039, 0x00370039, 0x00380039,
     0x00390039]"

text \<open>Two units are copied into the buffer at position \<open>bufEnd\<close>, the low half of the code first; a
  write in front of the buffer or past it gives \<open>None\<close>.\<close>

definition put_bidigit :: "u16 list \<Rightarrow> int \<Rightarrow> u64 \<Rightarrow> u16 list option" where
  "put_bidigit buf bufEnd v =
     (let code = BIDIGITS_CODE_TAB ! unat v
      in if 0 \<le> bufEnd \<and> nat bufEnd + 1 < length buf
         then Some (buf[nat bufEnd := ucast code, nat bufEnd + 1 := ucast (drop_bit 16 code)])
         else None)"

function UInt64ToUtf16Array_loop :: "u64 \<Rightarrow> u16 list \<Rightarrow> int \<Rightarrow> (u64 \<times> u16 list \<times> int) option" where
  "UInt64ToUtf16Array_loop v buf bufEnd =
     (if v \<ge> 100 then
        (case put_bidigit buf (bufEnd - 2) (v mod 100) of
           None \<Rightarrow> None
         | Some buf' \<Rightarrow> UInt64ToUtf16Array_loop (v div 100) buf' (bufEnd - 2))
      else Some (v, buf, bufEnd))"
  by pat_completeness auto
termination
  by (relation "measure (\<lambda>(v, _). unat v)") (auto simp: unat_div word_le_nat_alt)

declare UInt64ToUtf16Array_loop.simps [simp del]

definition UInt64ToUtf16Array :: "u64 \<Rightarrow> u16 list \<Rightarrow> nat \<Rightarrow> bool \<Rightarrow> u16 list option" where
  "UInt64ToUtf16Array v outUtf16Buf nDigits negative =
     (case UInt64ToUtf16Array_loop v outUtf16Buf (int nDigits) of
        None \<Rightarrow> None
      | Some (w, buf, bufEnd) \<Rightarrow>
          map_option (\<lambda>buf'. if negative then buf'[0 := 0x2d] else buf')
            (if w \<ge> 10 then put_bidigit buf (bufEnd - 2) w
             else if of_bool negative < length buf then Some (buf[of_bool negative := ucast w + 0x30])
             else None))"

section \<open>White space\<close>

definition IsWhiteSpaceChar :: "u16 \<Rightarrow> bool" where
  "IsWhiteSpaceChar c \<longleftrightarrow>
     (if c = 0x0020 then True
      else if 0x000e \<le> c \<and> c < 0x00a0 then False
      else if c < 0x0009 then False
      else if c \<le> 0x000d then True
      else if c = 0x00a0 then True
      else if c = 0x1680 then True
      else if c < 0x2000 then False
      else if c \<le> 0x200a then True
      else if c = 0x2028 then True
      else if c = 0x2029 then True
      else if c = 0x202f then True
      else if c = 0x205f then True
      else if c = 0xfeff then True
      else if c = 0x3000 then True
      else False)"

end
