(* ===== verification/Utf_Sound.thy ===== *)
theory Utf_Sound
  imports Utf
begin

text \<open>
  Properties of the string encodings (theory \<open>Utf\<close>). The bytes of single characters are decoded bit by
  bit; \<open>enc\<close> is the list of the characters of a UTF-16 string, and the loops of the code are shown to
  write its longest fitting prefix and to compute its size. The locale \<open>string_codec\<close> states what the
  users of an encoding rely on and is interpreted by the conversions of the code, for modified and plain
  UTF-8. The code points of a string and their bytes are also defined independently of the loops
  (\<open>code_points\<close>, \<open>utf8_bytes\<close>), and what a region is converted to is stated with them. Comparison is lexicographic in the list \<open>codes\<close> of the decoded characters, and the decimal
  conversion is compared with the digits by repeated division.
\<close>

section \<open>Bits of characters\<close>

lemma word_eq_bit_list: "a = b \<longleftrightarrow> list_all (\<lambda>k. bit a k = bit b k) [0..<LENGTH('a)]" for a b :: "'a::len word"
  by (auto simp: list_all_iff intro: bit_word_eqI)

lemma upt_bits:
  "[0..<8] = [0, 1, 2, 3, 4, 5, 6, 7]" "[0..<16] = [0, 1, 2, 3, 4, 5, 6, 7, 8, 9, 10, 11, 12, 13, 14, 15]"
  "[0..<32] = [0, 1, 2, 3, 4, 5, 6, 7, 8, 9, 10, 11, 12, 13, 14, 15, 16, 17, 18, 19, 20, 21, 22, 23, 24, 25, 26, 27, 28, 29, 30, 31]"
  by code_simp+

lemma high_bits_zero:
  fixes u :: "'a::len word"
  assumes "unat u < 2 ^ n" "n \<le> k"
  shows "\<not> bit u k"
  using assms unat_less_power_iff_bit bit_imp_le_length by blast

text \<open>The tests of the first byte, as bits.\<close>

lemma byte_tests:
  "(w :: u8) AND 0x80 = 0 \<longleftrightarrow> \<not> bit w 7" "w AND 0x20 = 0 \<longleftrightarrow> \<not> bit w 5" "w AND 0x10 = 0 \<longleftrightarrow> \<not> bit w 4"
  using and_exp_eq_0_iff_not_bit[of w 7] and_exp_eq_0_iff_not_bit[of w 5] and_exp_eq_0_iff_not_bit[of w 4] by simp_all

lemma two_bytes:
  assumes "unat u < 2 ^ 11"
  shows "push_bit 6 (ucast ((0xc0 OR ucast (drop_bit 6 u) :: u8) AND 0x1f)) OR
    ucast ((0x80 OR ucast (u AND 0x3f) :: u8) AND 0x3f) = (ucast (u::u16) :: u32)"
  unfolding word_eq_bit_list by (simp add: upt_bits bit_simps high_bits_zero[OF assms])

lemma three_bytes:
  fixes u :: u16
  shows "push_bit 12 (ucast ((0xe0 OR ucast (drop_bit 12 u) :: u8) AND 0x0f)) OR
    push_bit 6 (ucast ((0x80 OR (ucast (drop_bit 6 u) AND 0x3f) :: u8) AND 0x3f)) OR
    ucast ((0x80 OR ucast (u AND 0x3f) :: u8) AND 0x3f) = (ucast u :: u32)"
proof -
  have "\<not> bit u k" if "k \<ge> 16" for k using that bit_imp_le_length[of u k] by auto
  then show ?thesis unfolding word_eq_bit_list by (simp add: upt_bits bit_simps)
qed

lemma four_bytes:
  fixes cp :: u32
  assumes "unat cp < 2 ^ 21"
  shows "push_bit 18 (ucast ((ucast (drop_bit 18 cp OR 0xf0) :: u8) AND 0x0f)) OR
    push_bit 12 (ucast ((ucast ((drop_bit 12 cp AND 0x3f) OR 0x80) :: u8) AND 0x3f)) OR
    push_bit 6 (ucast ((ucast ((drop_bit 6 cp AND 0x3f) OR 0x80) :: u8) AND 0x3f)) OR
    ucast ((ucast ((cp AND 0x3f) OR 0x80) :: u8) AND 0x3f) = cp"
  unfolding word_eq_bit_list by (simp add: upt_bits bit_simps high_bits_zero[OF assms])

definition is_lead :: "u16 \<Rightarrow> bool" where "is_lead u \<longleftrightarrow> 0xd800 \<le> u \<and> u \<le> 0xdbff"
definition is_trail :: "u16 \<Rightarrow> bool" where "is_trail u \<longleftrightarrow> 0xdc00 \<le> u \<and> u \<le> 0xdfff"

lemma or_add:
  fixes x y :: "'a::len word"
  assumes "unat y < 2 ^ n"
  shows "push_bit n x OR y = push_bit n x + y"
proof -
  have "push_bit n x AND y = 0"
    using high_bits_zero[OF assms] by (intro bit_word_eqI) (auto simp: bit_simps not_le)
  then show ?thesis by (simp add: disjunctive_add_eq_or)
qed

lemma unat_ucast_32: "unat (ucast u :: u32) = unat (u :: u16)"
proof -
  have "unat u < 2 ^ 32" by (rule order_less_le_trans[OF unsigned_less]) simp
  then show ?thesis by (simp add: unsigned_ucast_eq take_bit_nat_eq_self_iff)
qed

lemma unat_push_bit_small:
  fixes w :: "'a::len word"
  assumes "unat w * 2 ^ n < 2 ^ LENGTH('a)"
  shows "unat (push_bit n w) = unat w * 2 ^ n"
  unfolding unsigned_push_bit_eq using assms by (simp add: push_bit_eq_mult take_bit_nat_eq_self)

lemma surrogate_bounds:
  "is_lead u \<longleftrightarrow> 0xd800 \<le> unat u \<and> unat u \<le> 0xdbff" "is_trail u \<longleftrightarrow> 0xdc00 \<le> unat u \<and> unat u \<le> 0xdfff"
  by (simp_all add: is_lead_def is_trail_def word_le_nat_alt)

lemma unat_CombineTwoU16:
  assumes "is_lead u" "is_trail v"
  shows "unat (CombineTwoU16 u v) = 1024 * (unat u - 0xd800) + (unat v - 0xdc00) + 0x10000"
proof -
  have b: "0xd800 \<le> unat u" "unat u \<le> 0xdbff" "0xdc00 \<le> unat v" "unat v \<le> 0xdfff"
    using assms by (simp_all add: surrogate_bounds)
  have a: "unat (ucast u - 0xd800 :: u32) = unat u - 0xd800" "unat (ucast v - 0xdc00 :: u32) = unat v - 0xdc00"
    using b by (simp_all add: unat_sub word_le_nat_alt unat_ucast_32)
  have "unat (push_bit 10 (ucast u - 0xd800) :: u32) = 1024 * (unat u - 0xd800)"
    using b a(1) unat_push_bit_small[of "ucast u - 0xd800 :: u32" 10] by simp
  moreover have "push_bit 10 (ucast u - 0xd800) OR (ucast v - 0xdc00) = push_bit 10 (ucast u - 0xd800) + (ucast v - 0xdc00 :: u32)"
    using a b by (intro or_add) simp
  ultimately show ?thesis using a b by (simp add: CombineTwoU16_def unat_word_ariths unat_ucast_32)
qed

lemma surrogate_pair_units:
  fixes cp :: u32
  assumes u: "is_lead u" and v: "is_trail v"
  defines "cp \<equiv> CombineTwoU16 u v"
  shows "utf16_units (push_bit 16 ((drop_bit 10 cp + 0xd7c0) AND 0xffff) OR ((cp AND 0x3ff) + 0xdc00)) = [u, v]"
    and "unat cp < 2 ^ 21"
proof -
  note n = unat_CombineTwoU16[OF u v, folded cp_def]
  have b: "0xd800 \<le> unat u" "unat u \<le> 0xdbff" "0xdc00 \<le> unat v" "unat v \<le> 0xdfff"
    using u v by (simp_all add: surrogate_bounds)
  show "unat cp < 2 ^ 21" using n b by simp
  have "unat (drop_bit 10 cp) = unat cp div 1024" unfolding unat_drop_bit_eq by (simp add: drop_bit_eq_div)
  also have "\<dots> = unat u - 0xd800 + 64" using n b by simp
  finally have "unat (drop_bit 10 cp + 0xd7c0) = unat u" using b by (simp add: unat_word_ariths)
  then have hi: "drop_bit 10 cp + 0xd7c0 = ucast u" by (metis unat_ucast_32 unsigned_word_eqI)
  have "unat (cp AND 0x3ff) = unat cp mod 1024" using unat_and_mask[of cp 10] by simp
  also have "\<dots> = unat v - 0xdc00"
  proof -
    obtain w where "unat v = 0xdc00 + w" using b(3) le_Suc_ex by blast
    then show ?thesis using n b by (simp add: mod_add_eq[symmetric])
  qed
  finally have "unat ((cp AND 0x3ff) + 0xdc00) = unat v" using b by (simp add: unat_word_ariths)
  then have lo: "(cp AND 0x3ff) + 0xdc00 = ucast v" by (metis unat_ucast_32 unsigned_word_eqI)
  have "u \<noteq> 0" using b by (metis not_numeral_le_zero unsigned_0)
  have "\<not> bit u k \<and> \<not> bit v k" if "k \<ge> 16" for k using that bit_imp_le_length[of u k] bit_imp_le_length[of v k] by auto
  then have "ucast (drop_bit 16 (push_bit 16 (ucast u AND 0xffff) OR ucast v :: u32)) = u"
    "ucast ((push_bit 16 (ucast u AND 0xffff) OR ucast v :: u32) AND 0xffff) = v"
    unfolding word_eq_bit_list[of _ u] word_eq_bit_list[of _ v] by (simp_all add: upt_bits bit_simps)
  then show "utf16_units (push_bit 16 ((drop_bit 10 cp + 0xd7c0) AND 0xffff) OR ((cp AND 0x3ff) + 0xdc00)) = [u, v]"
    using \<open>u \<noteq> 0\<close> by (simp only: hi lo utf16_units_def SplitUtf16Pair_def) simp
qed

definition char_bytes :: "Utf8Char \<Rightarrow> u8 list" where
  "char_bytes c = take (n_bytes c) (ch c)"

lemma single_unit: "utf16_units (ucast u) = [u]" for u :: u16
proof -
  have h: "\<not> bit u k" if "k \<ge> 16" for k using that bit_imp_le_length[of u k] by auto
  have "ucast (drop_bit 16 (ucast u :: u32)) = (0 :: u16)" "ucast ((ucast u :: u32) AND 0xffff) = u"
    unfolding word_eq_bit_list[of _ u] word_eq_bit_list[of _ "0 :: u16"] by (simp_all add: upt_bits bit_simps h)
  then show ?thesis by (simp add: utf16_units_def SplitUtf16Pair_def)
qed

lemma nonzero_by_bit: "bit w k \<Longrightarrow> w \<noteq> 0" for w :: "'a::len word"
  by auto

lemma decode_1:
  assumes "unat u < 2 ^ 7"
  shows "ConvertMUtf8ToUtf16Pair (ucast (u :: u16) # rest) m = Some (ucast u, 1)"
proof -
  have "(ucast (ucast u :: u8) :: u32) = ucast u"
    unfolding word_eq_bit_list by (simp add: upt_bits bit_simps high_bits_zero[OF assms])
  moreover have "\<not> bit (ucast u :: u8) 7" by (simp add: bit_simps high_bits_zero[OF assms])
  ultimately show ?thesis by (simp add: ConvertMUtf8ToUtf16Pair_def byte_tests)
qed

lemma decode_2:
  assumes "unat u < 2 ^ 11" "2 \<le> m"
  shows "ConvertMUtf8ToUtf16Pair ((0xc0 OR ucast (drop_bit 6 u)) # (0x80 OR ucast (u AND 0x3f)) # rest) m = Some (ucast (u :: u16), 2)"
proof -
  have "bit (0xc0 OR ucast (drop_bit 6 u) :: u8) 7" "\<not> bit (0xc0 OR ucast (drop_bit 6 u) :: u8) 5"
    "bit (0x80 OR ucast (u AND 0x3f) :: u8) 7"
    by (simp_all add: bit_simps high_bits_zero[OF assms(1)])
  then show ?thesis
    using assms(2) nonzero_by_bit two_bytes[OF assms(1)] by (simp add: ConvertMUtf8ToUtf16Pair_def byte_tests)
qed

lemma decode_3:
  assumes "3 \<le> m"
  shows "ConvertMUtf8ToUtf16Pair (utf8_3bytes u @ rest) m = Some (ucast u, 3)"
proof -
  have h: "\<not> bit u k" if "k \<ge> 16" for k using that bit_imp_le_length[of u k] by auto
  have "bit (0xe0 OR ucast (drop_bit 12 u) :: u8) 7" "bit (0xe0 OR ucast (drop_bit 12 u) :: u8) 5"
    "\<not> bit (0xe0 OR ucast (drop_bit 12 u) :: u8) 4"
    and c: "bit (0x80 OR (ucast (drop_bit 6 u) AND 0x3f) :: u8) 7" "bit (0x80 OR ucast (u AND 0x3f) :: u8) 7"
    by (simp_all add: bit_simps h)
  then show ?thesis
    using assms c[THEN nonzero_by_bit] three_bytes[of u] by (simp add: ConvertMUtf8ToUtf16Pair_def byte_tests utf8_3bytes_def)
qed

lemma decode_4:
  fixes cp :: u32
  assumes "unat cp < 2 ^ 21" "4 \<le> m"
  shows "ConvertMUtf8ToUtf16Pair (ucast (drop_bit 18 cp OR 0xf0) # ucast ((drop_bit 12 cp AND 0x3f) OR 0x80) #
      ucast ((drop_bit 6 cp AND 0x3f) OR 0x80) # ucast ((cp AND 0x3f) OR 0x80) # rest) m =
    Some (push_bit 16 ((drop_bit 10 cp + 0xd7c0) AND 0xffff) OR ((cp AND 0x3ff) + 0xdc00), 4)"
proof -
  have "bit (ucast (drop_bit 18 cp OR 0xf0) :: u8) 7" "bit (ucast (drop_bit 18 cp OR 0xf0) :: u8) 5"
    "bit (ucast (drop_bit 18 cp OR 0xf0) :: u8) 4"
    and c: "bit (ucast ((drop_bit 12 cp AND 0x3f) OR 0x80) :: u8) 7" "bit (ucast ((drop_bit 6 cp AND 0x3f) OR 0x80) :: u8) 7"
    "bit (ucast ((cp AND 0x3f) OR 0x80) :: u8) 7"
    by (simp_all add: bit_simps)
  then show ?thesis
    using assms c[THEN nonzero_by_bit] four_bytes[OF assms(1)] by (simp add: ConvertMUtf8ToUtf16Pair_def byte_tests Let_def)
qed

text \<open>What the loops hand to \<open>ConvertUtf16ToUtf8\<close> as the next unit.\<close>

definition next_code :: "u16 \<Rightarrow> u16" where
  "next_code v = (if IsAvailableNextUtf16Code v then v else 0)"

lemma is_surrogate: "0xd800 \<le> u \<and> u \<le> 0xdfff \<longleftrightarrow> is_lead u \<or> is_trail u"
  by (auto simp: is_lead_def is_trail_def word_le_nat_alt)

lemma next_code_cases: "next_code v = 0 \<and> \<not> is_lead v \<and> \<not> is_trail v \<or> next_code v = v \<and> (is_lead v \<or> is_trail v)"
  using is_surrogate[of v] by (auto simp: next_code_def IsAvailableNextUtf16Code_def)


lemma char_size:
  "n_bytes (ConvertUtf16ToUtf8 u v modify) =
     (if u = 0 then if modify then 2 else 1 else if u \<le> 0x7f then 1 else if u \<le> 0x7ff then 2
      else if is_lead u \<and> is_trail v then 4 else 3)"
proof -
  have "v = 0 \<Longrightarrow> \<not> is_trail v" "u = 0 \<Longrightarrow> \<not> is_lead u \<and> \<not> is_trail u" by (auto simp: surrogate_bounds)
  moreover have "u \<le> 0x7ff \<Longrightarrow> \<not> is_lead u \<and> \<not> is_trail u" "u \<le> 0x7f \<Longrightarrow> \<not> is_lead u \<and> \<not> is_trail u"
    by (auto simp: surrogate_bounds word_le_nat_alt)
  moreover have "u < 0xd800 \<or> u > 0xdbff \<longleftrightarrow> \<not> is_lead u" "v < 0xdc00 \<or> v > 0xdfff \<longleftrightarrow> \<not> is_trail v"
    by (auto simp: is_lead_def is_trail_def not_le)
  ultimately show ?thesis
    unfolding ConvertUtf16ToUtf8_def using is_surrogate[of u] by (simp add: Let_def)
qed

lemma char_bytes_length: "length (ch (ConvertUtf16ToUtf8 u v modify)) = 4"
  by (simp add: ConvertUtf16ToUtf8_def utf8_3bytes_def Let_def)

lemma char_cases:
  fixes modify :: bool
  defines "conv u v \<equiv> ConvertUtf16ToUtf8 u v modify"
  obtains (three) "conv u v = \<lparr>n_bytes = 3, ch = utf8_3bytes u @ [0]\<rparr>" "\<not> (is_lead u \<and> is_trail v)" "0x7ff < u"
    | (nul2) "u = 0" "modify" "conv u v = \<lparr>n_bytes = 2, ch = [0xc0, 0x80, 0, 0]\<rparr>"
    | (nul1) "u = 0" "\<not> modify" "conv u v = \<lparr>n_bytes = 1, ch = [0, 0, 0, 0]\<rparr>"
    | (one) "u \<le> 0x7f" "u \<noteq> 0" "conv u v = \<lparr>n_bytes = 1, ch = [ucast u, 0, 0, 0]\<rparr>"
    | (two) "u \<le> 0x7ff" "conv u v = \<lparr>n_bytes = 2, ch = [0xc0 OR ucast (drop_bit 6 u), 0x80 OR ucast (u AND 0x3f), 0, 0]\<rparr>"
    | (four) "is_lead u" "is_trail v"
        "conv u v = \<lparr>n_bytes = 4, ch = [ucast (drop_bit 18 (CombineTwoU16 u v) OR 0xf0), ucast ((drop_bit 12 (CombineTwoU16 u v) AND 0x3f) OR 0x80),
                ucast ((drop_bit 6 (CombineTwoU16 u v) AND 0x3f) OR 0x80), ucast ((CombineTwoU16 u v AND 0x3f) OR 0x80)]\<rparr>"
    | (repl) "is_lead u" "v \<noteq> 0" "\<not> is_trail v" "conv u v = \<lparr>n_bytes = 3, ch = [0xef, 0xbf, 0xbd, 0]\<rparr>"
proof (cases "v = 0 \<and> 0xd800 \<le> u \<and> u \<le> 0xdfff")
  case True
  then have "0x7ff < u" "\<not> is_trail v" by (auto simp: word_le_nat_alt word_less_nat_alt surrogate_bounds)
  then show ?thesis using that(1) True by (simp add: conv_def ConvertUtf16ToUtf8_def)
next
  case n1: False
  show ?thesis
  proof (cases "u \<le> 0x7ff")
    case True
    then show ?thesis
      using that(2-5) unfolding conv_def ConvertUtf16ToUtf8_def if_not_P[OF n1] if_P[OF True]
      by (cases "u = 0"; cases modify; cases "u \<le> 0x7f"; simp)
  next
    case n2: False
    then have n3: "u \<noteq> 0" "\<not> u \<le> 0x7f" by (auto simp: word_le_nat_alt)
    note eq = conv_def ConvertUtf16ToUtf8_def if_not_P[OF n1] if_not_P[OF n2] if_not_P[OF n3(1)] if_not_P[OF n3(2)]
    show ?thesis
    proof (cases "u < 0xd800 \<or> u > 0xdbff")
      case True
      then have "\<not> is_lead u" by (auto simp: is_lead_def)
      then show ?thesis using that(1) n2 unfolding eq if_P[OF True] by simp
    next
      case n4: False
      then have l: "is_lead u" by (auto simp: is_lead_def)
      moreover have v0: "v \<noteq> 0" using n1 l is_surrogate[of u] by auto
      show ?thesis
      proof (cases "v < 0xdc00 \<or> v > 0xdfff")
        case True
        then have "\<not> is_trail v" by (auto simp: is_trail_def)
        then show ?thesis using that(7) l v0 unfolding eq if_not_P[OF n4] if_P[OF True] by simp
      next
        case n5: False
        then have "is_trail v" by (auto simp: is_trail_def)
        then show ?thesis using that(6) l unfolding eq if_not_P[OF n4] if_not_P[OF n5] Let_def by simp
      qed
    qed
  qed
qed

lemma char_roundtrip:
  assumes ok: "is_lead u \<Longrightarrow> v = 0 \<or> is_trail v"
    and c_def: "c = ConvertUtf16ToUtf8 u v modify" and m: "n_bytes c \<le> m"
  shows "\<exists>pair. ConvertMUtf8ToUtf16Pair (char_bytes c @ rest) m = Some (pair, n_bytes c) \<and>
    utf16_units pair = (if is_lead u \<and> is_trail v then [u, v] else [u])"
proof (cases rule: char_cases[where u = u and v = v and modify = modify])
  case three
  then show ?thesis using m c_def decode_3[of m u rest] single_unit[of u] by (simp add: char_bytes_def utf8_3bytes_def)
next
  case nul2
  then show ?thesis using m c_def decode_2[of 0 m rest] single_unit[of 0] by (simp add: char_bytes_def surrogate_bounds)
next
  case nul1
  then show ?thesis using m c_def decode_1[of 0 rest m] single_unit[of 0] by (simp add: char_bytes_def surrogate_bounds)
next
  case one
  then have "unat u < 2 ^ 7" "\<not> is_lead u" by (auto simp: word_le_nat_alt surrogate_bounds)
  then show ?thesis using one m c_def decode_1[of u rest m] single_unit[of u] by (simp add: char_bytes_def)
next
  case two
  then have "unat u < 2 ^ 11" "\<not> is_lead u" by (auto simp: word_le_nat_alt surrogate_bounds)
  then show ?thesis using two m c_def decode_2[of u m rest] single_unit[of u] by (simp add: char_bytes_def)
next
  case four
  then show ?thesis using m c_def decode_4[OF surrogate_pair_units(2)[OF four(1,2)], of m rest] surrogate_pair_units(1)[OF four(1,2)]
    by (simp add: char_bytes_def)
next
  case repl
  then show ?thesis using ok by simp
qed

section \<open>Encoding a string\<close>

text \<open>The characters of a string, each as its bytes.\<close>

fun enc :: "bool \<Rightarrow> u16 list \<Rightarrow> u8 list list" where
  "enc modify [] = []"
| "enc modify [u] = [char_bytes (ConvertUtf16ToUtf8 u 0 modify)]"
| "enc modify (u # v # us) =
     char_bytes (ConvertUtf16ToUtf8 u (next_code v) modify) #
     (if is_lead u \<and> is_trail v then enc modify us else enc modify (v # us))"

text \<open>The leading characters that fit into a number of bytes.\<close>

fun fitting :: "nat \<Rightarrow> u8 list list \<Rightarrow> u8 list list" where
  "fitting space [] = []"
| "fitting space (c # cs) = (if length c > space then [] else c # fitting (space - length c) cs)"

text \<open>No two high surrogates in a row.\<close>

fun no_double_lead :: "u16 list \<Rightarrow> bool" where
  "no_double_lead (u # v # us) \<longleftrightarrow> \<not> (is_lead u \<and> is_lead v) \<and> no_double_lead (v # us)"
| "no_double_lead _ \<longleftrightarrow> True"

lemma is_trail_next: "is_trail (next_code v) \<longleftrightarrow> is_trail v"
  using next_code_cases[of v] by (auto simp: surrogate_bounds)

lemma not_trail_0: "\<not> is_trail 0" "\<not> is_lead 0"
  by (simp_all add: surrogate_bounds)

lemma char_size_4: "n_bytes (ConvertUtf16ToUtf8 u v modify) = 4 \<longleftrightarrow> is_lead u \<and> is_trail v"
proof -
  have "is_lead u \<Longrightarrow> u \<noteq> 0 \<and> \<not> u \<le> 0x7f \<and> \<not> u \<le> 0x7ff" by (auto simp: surrogate_bounds word_le_nat_alt)
  then show ?thesis by (auto simp: char_size)
qed

lemma char_size_bounds: "0 < n_bytes (ConvertUtf16ToUtf8 u v modify)" "n_bytes (ConvertUtf16ToUtf8 u v modify) \<le> 4"
  by (simp_all add: char_size)

lemma length_char_bytes: "length (char_bytes (ConvertUtf16ToUtf8 u v modify)) = n_bytes (ConvertUtf16ToUtf8 u v modify)"
  using char_size_bounds(2)[of u v modify] by (simp add: char_bytes_def char_bytes_length)

declare ConvertRegionUtf16ToUtf8_loop.simps(2) [simp del]

lemma region_loop_last:
  "ConvertRegionUtf16ToUtf8_loop (u # us) (Suc 0) space modify =
     (let c = ConvertUtf16ToUtf8 u 0 modify in if n_bytes c > space then Some [] else Some (char_bytes c))"
  using char_size_4[of u 0 modify] not_trail_0
  by (simp add: ConvertRegionUtf16ToUtf8_loop.simps(2) Let_def char_bytes_def)

lemma region_loop_step:
  "ConvertRegionUtf16ToUtf8_loop (u # v # us) (Suc (Suc r)) space modify =
     (let c = ConvertUtf16ToUtf8 u (next_code v) modify
      in if n_bytes c > space then Some []
         else map_option ((@) (char_bytes c))
           (if is_lead u \<and> is_trail v then ConvertRegionUtf16ToUtf8_loop us r (space - n_bytes c) modify
            else ConvertRegionUtf16ToUtf8_loop (v # us) (Suc r) (space - n_bytes c) modify))"
  using char_size_4[of u "next_code v" modify] is_trail_next[of v]
  by (simp add: ConvertRegionUtf16ToUtf8_loop.simps(2)[of "u # v # us"] Let_def char_bytes_def next_code_def)

lemma region_loop_append:
  "ConvertRegionUtf16ToUtf8_loop (us @ rest) (length us) space modify = Some (concat (fitting space (enc modify us)))"
proof (induction modify us arbitrary: space rule: enc.induct)
  case (2 modify u)
  then show ?case by (simp add: region_loop_last Let_def length_char_bytes)
next
  case (3 modify u v us)
  then show ?case by (simp add: region_loop_step Let_def length_char_bytes)
qed simp

lemma region_loop:
  assumes "rest \<le> length us"
  shows "ConvertRegionUtf16ToUtf8_loop us rest space modify = Some (concat (fitting space (enc modify (take rest us))))"
  using region_loop_append[of "take rest us" "drop rest us" space modify] assms by (simp add: min_absorb2)

lemma size_loop:
  "rest \<le> length us \<Longrightarrow>
     Utf16ToUtf8Size_loop us rest modify = Some (length (concat (enc modify (take rest us))))"
proof (induction us rest modify rule: Utf16ToUtf8Size_loop.induct)
  case (3 u us rest modify)
  have l: "u < 0xd800 \<or> u > 0xdbff \<longleftrightarrow> \<not> is_lead u" by (auto simp: is_lead_def)
  have t: "0xdc00 \<le> v \<and> v \<le> 0xdfff \<longleftrightarrow> is_trail v" for v by (simp add: is_trail_def)
  have z: "u \<le> 0x7ff \<Longrightarrow> \<not> is_lead u" "u = 0 \<Longrightarrow> \<not> is_lead u" "u \<le> 0x7f \<Longrightarrow> \<not> is_lead u"
    by (auto simp: surrogate_bounds word_le_nat_alt)
  show ?case
  proof (cases rest)
    case 0
    then show ?thesis using 3 by (simp add: length_char_bytes char_size not_trail_0 l)
  next
    case (Suc r)
    then obtain v ws where us: "us = v # ws" using 3 by (cases us) auto
    then show ?thesis
      using 3 Suc z by (simp add: length_char_bytes char_size is_trail_next l t)
  qed
qed simp_all

lemma enc_roundtrip:
  "no_double_lead us \<Longrightarrow>
     ConvertMUtf8ToUtf16 (concat (enc modify us) @ rest) (length (concat (enc modify us))) = Some us"
proof (induction modify us rule: enc.induct)
  case (1 modify)
  then show ?case by (simp add: ConvertMUtf8ToUtf16.simps)
next
  case (2 modify u)
  obtain pair where "ConvertMUtf8ToUtf16Pair (char_bytes (ConvertUtf16ToUtf8 u 0 modify) @ rest) (n_bytes (ConvertUtf16ToUtf8 u 0 modify)) =
      Some (pair, n_bytes (ConvertUtf16ToUtf8 u 0 modify))" "utf16_units pair = [u]"
    using char_roundtrip[of u 0, OF _ refl order_refl] not_trail_0 by auto
  then show ?case
    using char_size_bounds(1)[of u 0 modify]
    by (simp add: ConvertMUtf8ToUtf16.simps[of "_ @ _"] ConvertMUtf8ToUtf16.simps[of _ 0] length_char_bytes)
next
  case (3 modify u v us)
  let ?c = "ConvertUtf16ToUtf8 u (next_code v) modify"
  let ?tl = "concat (if is_lead u \<and> is_trail v then enc modify us else enc modify (v # us))"
  have "is_lead u \<Longrightarrow> next_code v = 0 \<or> is_trail (next_code v)"
    using 3(3) next_code_cases[of v] by (auto simp: is_trail_next)
  then obtain pair where p: "ConvertMUtf8ToUtf16Pair (char_bytes ?c @ (?tl @ rest)) (n_bytes ?c + length ?tl) = Some (pair, n_bytes ?c)"
    "utf16_units pair = (if is_lead u \<and> is_trail v then [u, next_code v] else [u])"
    using char_roundtrip[of u "next_code v" _ modify "n_bytes ?c + length ?tl" "?tl @ rest", OF _ refl] is_trail_next by auto
  have nd: "no_double_lead (v # us)" "no_double_lead us"
    using 3(3) by (cases us; auto)+
  have "ConvertMUtf8ToUtf16 (?tl @ rest) (length ?tl) = Some (if is_lead u \<and> is_trail v then us else v # us)"
    using 3(1,2) nd by auto
  moreover have "is_trail v \<Longrightarrow> next_code v = v" using next_code_cases[of v] by auto
  ultimately show ?case
    using p char_size_bounds(1)[of u "next_code v" modify]
    by (simp add: ConvertMUtf8ToUtf16.simps[of "char_bytes _ @ _"] length_char_bytes split: if_splits)
qed

lemma fitting_all: "length (concat cs) \<le> space \<Longrightarrow> fitting space cs = cs"
  by (induction space cs rule: fitting.induct) auto


section \<open>Sizes\<close>

lemma Utf16ToUtf8Size_enc:
  assumes "len \<le> length us"
  shows "Utf16ToUtf8Size us len modify = Some (1 + length (concat (enc modify (take len us))))"
proof (cases "len = 1 \<and> us ! 0 \<ge> 0xd800 \<and> us ! 0 \<le> 0xdfff")
  case True
  then obtain u vs where us: "us = u # vs" using assms by (cases us) auto
  then have "is_lead u \<or> is_trail u" using True is_surrogate[of u] by simp
  then have "u \<noteq> 0 \<and> \<not> u \<le> 0x7f \<and> \<not> u \<le> 0x7ff" by (auto simp: surrogate_bounds word_le_nat_alt)
  then show ?thesis using True us by (simp add: Utf16ToUtf8Size_def length_char_bytes char_size not_trail_0)
next
  case False
  then show ?thesis using assms size_loop[OF assms, of modify] unfolding Utf16ToUtf8Size_def if_not_P[OF False] by auto
qed

lemma unit_count: "length (utf16_units pair) = (if pair > 0xffff then 2 else 1)"
proof -
  have "unat pair < 2 ^ 16 * 2 ^ 16" by (rule order_less_le_trans[OF unsigned_less]) simp
  then have "unat pair div 2 ^ 16 < 2 ^ 16" by (simp add: less_mult_imp_div_less)
  then have "unat (ucast (drop_bit 16 pair) :: u16) = unat pair div 2 ^ 16"
    unfolding unsigned_ucast_eq unat_drop_bit_eq by (simp add: drop_bit_eq_div take_bit_nat_eq_self)
  then have "ucast (drop_bit 16 pair) = (0 :: u16) \<longleftrightarrow> unat pair < 2 ^ 16"
    by (metis div_eq_0_iff unsigned_0 unsigned_word_eqI power_not_zero zero_neq_numeral)
  then show ?thesis by (auto simp: utf16_units_def SplitUtf16Pair_def word_less_nat_alt)
qed

lemma MUtf8ToUtf16Size_length:
  "MUtf8ToUtf16Size data len = map_option length (ConvertMUtf8ToUtf16 data len)"
proof (induction data len rule: ConvertMUtf8ToUtf16.induct)
  case (1 data len)
  show ?case
  proof (cases "ConvertMUtf8ToUtf16Pair data len")
    case None
    then show ?thesis by (simp add: MUtf8ToUtf16Size.simps[of data len] ConvertMUtf8ToUtf16.simps[of data len])
  next
    case (Some p)
    obtain pair n where p: "p = (pair, n)" by (cases p)
    have "n \<noteq> 0" using ConvertMUtf8ToUtf16Pair_size[of data len pair n] Some p by simp
    then show ?thesis using 1[OF _ Some p[symmetric]] Some p
      by (simp add: MUtf8ToUtf16Size.simps[of data len] ConvertMUtf8ToUtf16.simps[of data len] option.map_comp comp_def unit_count)
  qed
qed

section \<open>Reads stay inside the buffer\<close>

lemma Pair_reads:
  assumes "0 < length data" "min maxBytes 4 \<le> length data"
  shows "ConvertMUtf8ToUtf16Pair data maxBytes \<noteq> None"
  using assms by (auto simp: ConvertMUtf8ToUtf16Pair_def nth_opt_def Let_def split: bind_splits)

lemma ConvertMUtf8ToUtf16_total: "len \<le> length data \<Longrightarrow> ConvertMUtf8ToUtf16 data len \<noteq> None"
proof (induction data len rule: ConvertMUtf8ToUtf16.induct)
  case (1 data len)
  show ?case
  proof (cases "len = 0")
    case False
    then obtain pair n where p: "ConvertMUtf8ToUtf16Pair data len = Some (pair, n)"
      using Pair_reads[of data len] 1(2) by force
    then have "n \<le> len" using ConvertMUtf8ToUtf16Pair_size[OF p] False by auto
    then show ?thesis using 1(1)[OF False p refl] 1(2) p by (simp add: ConvertMUtf8ToUtf16.simps[of data len])
  qed (simp add: ConvertMUtf8ToUtf16.simps)
qed

text \<open>A read of a character inside a terminated string stops at the zero byte at the latest.\<close>

lemma Pair_terminated:
  assumes "0 \<in> set data" "hd data \<noteq> 0"
  shows "\<exists>pair n. ConvertMUtf8ToUtf16Pair data 4 = Some (pair, n) \<and> 0 \<in> set (drop n data)"
proof -
  obtain pre suf where d: "data = pre @ 0 # suf" "0 \<notin> set pre" using assms(1) by (meson split_list_first)
  then obtain d0 pre' where p: "pre = d0 # pre'" using assms(2) by (cases pre) auto
  consider "pre' = []" | d1 where "pre' = [d1]" | d1 d2 where "pre' = [d1, d2]"
    | d1 d2 d3 ds where "pre' = d1 # d2 # d3 # ds"
    by (metis remdups_adj.cases)
  then show ?thesis
    by cases (use d p in \<open>simp_all add: ConvertMUtf8ToUtf16Pair_def Let_def\<close>)
qed

lemma MUtf8ToUtf16Size_cstr_total: "0 \<in> set data \<Longrightarrow> MUtf8ToUtf16Size_cstr data \<noteq> None"
proof (induction data rule: MUtf8ToUtf16Size_cstr.induct)
  case (1 data)
  show ?case
  proof (cases "hd data = 0")
    case True
    then show ?thesis using 1(2) by (cases data) (auto simp: MUtf8ToUtf16Size_cstr.simps[of "_ # _"])
  next
    case False
    obtain b bs where d: "data = b # bs" using 1(2) by (cases data) auto
    obtain pair n where p: "ConvertMUtf8ToUtf16Pair data 4 = Some (pair, n)" "0 \<in> set (drop n data)"
      using Pair_terminated[OF 1(2) False] by blast
    then show ?thesis using 1(1)[of b "(pair, n)" pair n] False d by (simp add: MUtf8ToUtf16Size_cstr.simps[of "b # bs"])
  qed
qed

section \<open>Encoded strings are valid\<close>





section \<open>Comparison\<close>

function codes :: "u8 list \<Rightarrow> u32 list" where
  "codes data =
     (case ConvertMUtf8ToUtf16Pair data 4 of
        None \<Rightarrow> []
      | Some (pair, n) \<Rightarrow> if hd data = 0 then [] else pair # codes (drop n data))"
  by pat_completeness auto
termination
  by (relation "measure length") (auto dest: ConvertMUtf8ToUtf16Pair_shorter[OF sym])

declare codes.simps [simp del]

lemma codes_cases:
  assumes "0 \<in> set data"
  shows "(\<exists>ds. data = 0 # ds \<and> codes data = []) \<or>
    (\<exists>b ds pair n. data = b # ds \<and> b \<noteq> 0 \<and> ConvertMUtf8ToUtf16Pair data 4 = Some (pair, n) \<and>
       0 \<in> set (drop n data) \<and> codes data = pair # codes (drop n data))"
proof -
  obtain b ds where d: "data = b # ds" using assms by (cases data) auto
  show ?thesis
  proof (cases "b = 0")
    case True
    then show ?thesis using d by (simp add: codes.simps[of "0 # ds"] split: option.splits)
  next
    case False
    then show ?thesis using d Pair_terminated[OF assms] by (auto simp: codes.simps[of "b # ds"])
  qed
qed

lemma SplitUtf16Pair_unat:
  "unat (fst (SplitUtf16Pair c)) = unat c div 2 ^ 16" "unat (snd (SplitUtf16Pair c)) = unat c mod 2 ^ 16"
proof -
  have "unat c < 2 ^ 16 * 2 ^ 16" by (rule order_less_le_trans[OF unsigned_less]) simp
  then have "unat c div 2 ^ 16 < 2 ^ 16" by (simp add: less_mult_imp_div_less)
  then show "unat (fst (SplitUtf16Pair c)) = unat c div 2 ^ 16"
    unfolding SplitUtf16Pair_def fst_conv unsigned_ucast_eq unat_drop_bit_eq by (simp add: drop_bit_eq_div take_bit_nat_eq_self)
  show "unat (snd (SplitUtf16Pair c)) = unat c mod 2 ^ 16"
    using unat_and_mask[of c 16] by (simp add: SplitUtf16Pair_def unsigned_ucast_eq take_bit_nat_eq_self)
qed

lemma lex_nat:
  fixes q r :: nat
  assumes "r < m" "r' < m"
  shows "m * q + r < m * q' + r' \<longleftrightarrow> q < q' \<or> q = q' \<and> r < r'"
proof -
  have "m * q + r < m * q' + r'" if "q < q'" "r < m" for q q' r r'
  proof -
    have "m * Suc q \<le> m * q'" using that(1) by (intro mult_le_mono2) simp
    then show ?thesis using that(2) by simp
  qed
  from this[of q q' r r'] this[of q' q r' r] show ?thesis using assms by (metis add_less_cancel_left linorder_neqE_nat order_less_asym)
qed

lemma split_less:
  "pair_difference c d < 0 \<longleftrightarrow> c < d" "pair_difference c d = 0 \<longleftrightarrow> c = d"
proof -
  have f: "uint (fst (SplitUtf16Pair c)) = int (unat c div 2 ^ 16)" "uint (snd (SplitUtf16Pair c)) = int (unat c mod 2 ^ 16)" for c
    by (metis SplitUtf16Pair_unat(1) uint_nat) (metis SplitUtf16Pair_unat(2) uint_nat)
  have eq: "pair_difference c d = (let r = int (unat c div 2 ^ 16) - int (unat d div 2 ^ 16)
      in if r \<noteq> 0 then r else int (unat c mod 2 ^ 16) - int (unat d mod 2 ^ 16))"
    unfolding f[symmetric] pair_difference_def by (simp split: prod.split)
  have d: "x = 2 ^ 16 * (x div 2 ^ 16) + x mod 2 ^ 16" "x mod 2 ^ 16 < 2 ^ 16" for x :: nat by simp_all
  have "unat c < unat d \<longleftrightarrow> unat c div 2 ^ 16 < unat d div 2 ^ 16 \<or>
      unat c div 2 ^ 16 = unat d div 2 ^ 16 \<and> unat c mod 2 ^ 16 < unat d mod 2 ^ 16"
    using lex_nat[OF d(2)[of "unat c"] d(2)[of "unat d"], of "unat c div 2 ^ 16" "unat d div 2 ^ 16"]
    unfolding d(1)[of "unat c", symmetric] d(1)[of "unat d", symmetric] .
  moreover have "unat c = unat d \<longleftrightarrow> unat c div 2 ^ 16 = unat d div 2 ^ 16 \<and> unat c mod 2 ^ 16 = unat d mod 2 ^ 16"
    using d[of "unat c"] d[of "unat d"] by metis
  ultimately show "pair_difference c d < 0 \<longleftrightarrow> c < d" "pair_difference c d = 0 \<longleftrightarrow> c = d"
    unfolding eq by (auto simp: word_less_nat_alt Let_def word_unat_eq_iff)
qed

lemma CompareMUtf8ToMUtf8_codes:
  assumes "0 \<in> set a" "0 \<in> set b"
  shows "\<exists>r. CompareMUtf8ToMUtf8 a b = Some r \<and> (r = 0 \<longleftrightarrow> codes a = codes b) \<and>
    (r < 0 \<longleftrightarrow> (codes a, codes b) \<in> lexord {(c, d). c < d})"
  using assms
proof (induction a b rule: CompareMUtf8ToMUtf8.induct)
  case (1 a b)
  consider (ee) as bs where "a = 0 # as" "b = 0 # bs" "codes a = []" "codes b = []"
    | (en) as d bs p n where "a = 0 # as" "codes a = []" "b = d # bs" "d \<noteq> 0" "codes b = p # codes (drop n b)"
    | (ne) c as bs p n where "a = c # as" "c \<noteq> 0" "codes a = p # codes (drop n a)" "b = 0 # bs" "codes b = []"
    | (nn) c as d bs p n q m where "a = c # as" "c \<noteq> 0" "ConvertMUtf8ToUtf16Pair a 4 = Some (p, n)"
        "0 \<in> set (drop n a)" "codes a = p # codes (drop n a)"
        "b = d # bs" "d \<noteq> 0" "ConvertMUtf8ToUtf16Pair b 4 = Some (q, m)" "0 \<in> set (drop m b)" "codes b = q # codes (drop m b)"
    using codes_cases[OF 1(2)] codes_cases[OF 1(3)] by metis
  then show ?case
  proof cases
    case nn
    show ?thesis
    proof (cases "p = q")
      case True
      then show ?thesis
        using 1(1)[of "nth_opt a 0" "nth_opt b 0" c d "Some (p, n)" "Some (q, m)" "(p, n)" p n "(q, m)" q m] nn
        by (simp add: CompareMUtf8ToMUtf8.simps[of "c # as" "d # bs"])
    next
      case False
      then show ?thesis using nn split_less[of p q] by (simp add: CompareMUtf8ToMUtf8.simps[of "c # as" "d # bs"])
    qed
  qed (simp_all add: CompareMUtf8ToMUtf8.simps)
qed

section \<open>Regions\<close>

lemma unat_step: "outPos < n \<Longrightarrow> unat (outPos + 1 :: u64) = Suc (unat outPos)"
proof -
  assume "outPos < n"
  moreover have "unat n < 2 ^ 64" by (rule order_less_le_trans[OF unsigned_less]) simp
  ultimately have "Suc (unat outPos) < 2 ^ 64" by (simp add: word_less_nat_alt)
  then show ?thesis by (simp add: unat_word_ariths)
qed

lemma region_decode:
  assumes "utf16Len \<noteq> 0" "outPos \<le> utf16Len" "ConvertMUtf8ToUtf16 data len = Some us"
  shows "\<exists>ws n k. ConvertRegionMUtf8ToUtf16 data len utf16Len 0 outPos = Some (ws, n) \<and>
    ws = take k us \<and> unat n = unat outPos + length ws \<and> n \<le> utf16Len"
  using assms
proof (induction data len arbitrary: outPos us rule: ConvertMUtf8ToUtf16.induct)
  case (1 data len)
  show ?case
  proof (cases "len = 0")
    case True
    then show ?thesis using 1(2-4) by (simp add: ConvertRegionMUtf8ToUtf16.simps[of data 0] ConvertMUtf8ToUtf16.simps[of data 0])
  next
    case False
    then obtain pair m us' where p: "ConvertMUtf8ToUtf16Pair data len = Some (pair, m)"
      and us': "ConvertMUtf8ToUtf16 (drop m data) (len - m) = Some us'" "us = utf16_units pair @ us'"
      using 1(4) by (auto simp: ConvertMUtf8ToUtf16.simps[of data len] split: option.splits)
    obtain hi lo where s: "SplitUtf16Pair pair = (hi, lo)" by (cases "SplitUtf16Pair pair")
    let ?out = "if hi \<noteq> 0 then outPos + 1 else outPos" and ?hi = "if hi \<noteq> 0 then [hi] else []"
    have units: "utf16_units pair = ?hi @ [lo]" by (simp add: utf16_units_def s)
    have eq: "ConvertRegionMUtf8ToUtf16 data len utf16Len 0 outPos =
        (if hi \<noteq> 0 \<and> outPos \<ge> utf16Len - 1 then Some ([], outPos)
         else if ?out \<ge> utf16Len then Some (?hi, ?out)
         else map_option (\<lambda>(us, n). (?hi @ lo # us, n)) (ConvertRegionMUtf8ToUtf16 (drop m data) (len - m) utf16Len 0 (?out + 1)))"
      using False p s by (simp add: ConvertRegionMUtf8ToUtf16.simps[of data len] Let_def)
    have l1: "unat (utf16Len - 1) = unat utf16Len - 1" using 1(2) by (simp add: unat_minus_one)
    show ?thesis
    proof (cases "hi \<noteq> 0 \<and> outPos \<ge> utf16Len - 1 \<or> hi = 0 \<and> outPos \<ge> utf16Len")
      case True
      then show ?thesis unfolding eq using 1(3) by (auto intro: exI[of _ 0])
    next
      case go: False
      have o: "unat ?out = unat outPos + length ?hi" "?out < utf16Len"
        using go l1 unat_step[of outPos utf16Len] by (auto simp: word_le_nat_alt word_less_nat_alt not_le)
      then have o': "unat (?out + 1) = unat outPos + length ?hi + 1" "?out + 1 \<le> utf16Len"
        using unat_step[OF o(2)] by (simp_all only: word_le_nat_alt word_less_nat_alt)
      obtain ws n k where ih: "ConvertRegionMUtf8ToUtf16 (drop m data) (len - m) utf16Len 0 (?out + 1) = Some (ws, n)"
        "ws = take k us'" "unat n = unat (?out + 1) + length ws" "n \<le> utf16Len"
        using 1(1)[OF False p refl 1(2) o'(2) us'(1)] by auto
      have "\<not> (hi \<noteq> 0 \<and> outPos \<ge> utf16Len - 1)" "\<not> ?out \<ge> utf16Len" using go o(2) by auto
      then show ?thesis
        using ih o'(1) us'(2) units
        unfolding eq if_not_P[OF \<open>\<not> (hi \<noteq> 0 \<and> outPos \<ge> utf16Len - 1)\<close>] if_not_P[OF \<open>\<not> ?out \<ge> utf16Len\<close>]
        by (intro exI[of _ "?hi @ lo # ws"] exI[of _ n] exI[of _ "length ?hi + 1 + k"]) simp
    qed
  qed
qed

section \<open>Decimal numbers\<close>

fun decimal :: "nat \<Rightarrow> u16 list" where
  "decimal n = (if n < 10 then [of_nat (48 + n)] else decimal (n div 10) @ [of_nat (48 + n mod 10)])"

declare decimal.simps [simp del]

lemma bidigit_table:
  assumes "k < 100"
  shows "ucast (BIDIGITS_CODE_TAB ! k) = (of_nat (48 + k div 10) :: u16)"
    and "ucast (drop_bit 16 (BIDIGITS_CODE_TAB ! k)) = (of_nat (48 + k mod 10) :: u16)"
proof -
  have "list_all (\<lambda>k. ucast (BIDIGITS_CODE_TAB ! k) = (of_nat (48 + k div 10) :: u16) \<and>
      ucast (drop_bit 16 (BIDIGITS_CODE_TAB ! k)) = (of_nat (48 + k mod 10) :: u16)) [0..<100]"
    by code_simp
  then show "ucast (BIDIGITS_CODE_TAB ! k) = (of_nat (48 + k div 10) :: u16)"
    "ucast (drop_bit 16 (BIDIGITS_CODE_TAB ! k)) = (of_nat (48 + k mod 10) :: u16)"
    using assms by (auto simp: list_all_iff)
qed

lemma decimal_100:
  assumes "100 \<le> n"
  shows "decimal n = decimal (n div 100) @ [of_nat (48 + n mod 100 div 10), of_nat (48 + n mod 100 mod 10)]"
proof -
  have "n div 10 mod 10 = n mod 100 div 10" "n mod 10 = n mod 100 mod 10"
    by (simp_all add: mod_mult2_eq[of n 10 10, simplified] mod_mod_cancel)
  moreover have "\<not> n div 10 < 10" using div_le_mono[OF assms, of 10] by simp
  ultimately show ?thesis
    using assms decimal.simps[of n] decimal.simps[of "n div 10"] by (simp add: div_mult2_eq[of n 10 10, simplified, symmetric])
qed

lemma decimal_2: "10 \<le> n \<Longrightarrow> n < 100 \<Longrightarrow> decimal n = [of_nat (48 + n div 10), of_nat (48 + n mod 10)]"
  using less_mult_imp_div_less[of n 10 10] by (simp add: decimal.simps[of n] decimal.simps[of "n div 10"])

lemma put_bidigit_spec:
  assumes "2 \<le> e" "e \<le> length buf" "unat v < 100"
  shows "put_bidigit buf (int e - 2) v =
    Some (take (e - 2) buf @ [of_nat (48 + unat v div 10), of_nat (48 + unat v mod 10)] @ drop e buf)"
proof -
  have n: "nat (int e - 2) = e - 2" "nat (int e - 2) + 1 = e - 1" using assms(1) by auto
  have "buf[e - 2 := a, e - 1 := b] = take (e - 2) buf @ [a, b] @ drop e buf" for a b
    using assms(1,2) by (intro nth_equalityI) (auto simp: nth_list_update nth_append nth_Cons')
  then show ?thesis
    using assms n by (simp add: put_bidigit_def bidigit_table[OF assms(3)] Let_def)
qed

lemma decimal_loop:
  "length (decimal (unat v)) \<le> e \<Longrightarrow> e \<le> length buf \<Longrightarrow>
   \<exists>w ds. UInt64ToUtf16Array_loop v buf (int e) = Some (w, take (e - length ds) buf @ ds @ drop e buf, int (e - length ds)) \<and>
     unat w < 100 \<and> decimal (unat v) = decimal (unat w) @ ds"
proof (induction v buf "int e" arbitrary: e rule: UInt64ToUtf16Array_loop.induct)
  case (1 v buf e)
  show ?case
  proof (cases "100 \<le> v")
    case False
    then show ?thesis using 1(3)
      by (intro exI[of _ v] exI[of _ "[]"]) (simp add: UInt64ToUtf16Array_loop.simps[of v] word_le_nat_alt)
  next
    case True
    then have n: "100 \<le> unat v" "unat (v mod 100) = unat v mod 100" "unat (v div 100) = unat v div 100"
      by (simp_all add: word_le_nat_alt unat_mod unat_div)
    let ?ds = "[of_nat (48 + unat v mod 100 div 10), of_nat (48 + unat v mod 100 mod 10)] :: u16 list"
    let ?buf = "take (e - 2) buf @ ?ds @ drop e buf"
    have d: "decimal (unat v) = decimal (unat (v div 100)) @ ?ds" using decimal_100[OF n(1)] n(3) by simp
    then have e: "2 \<le> e" "length (decimal (unat (v div 100))) \<le> e - 2" "e - 2 \<le> length ?buf" using 1(2,3) by auto
    have put: "put_bidigit buf (int e - 2) (v mod 100) = Some ?buf"
      using put_bidigit_spec[OF e(1) 1(3), of "v mod 100"] n(2) by simp
    obtain w ds where ih: "UInt64ToUtf16Array_loop (v div 100) ?buf (int (e - 2)) =
        Some (w, take (e - 2 - length ds) ?buf @ ds @ drop (e - 2) ?buf, int (e - 2 - length ds))"
      "unat w < 100" "decimal (unat (v div 100)) = decimal (unat w) @ ds"
      using 1(1)[OF True put, of "e - 2"] e by auto
    have l: "length ds \<le> e - 2" using ih(3) e(2) by simp
    have "take (e - 2 - length ds) ?buf @ ds @ drop (e - 2) ?buf = take (e - length (ds @ ?ds)) buf @ (ds @ ?ds) @ drop e buf"
      using e 1(3) by (simp add: min_absorb1)
    moreover have "int (e - 2) = int e - 2" using e(1) by simp
    ultimately show ?thesis
      using ih d put True l by (intro exI[of _ w] exI[of _ "ds @ ?ds"]) (simp add: UInt64ToUtf16Array_loop.simps[of v] diff_diff_add)
  qed
qed

lemma decimal_length: "0 < length (decimal n)" "n < 10 \<Longrightarrow> length (decimal n) = 1"
  by (simp_all add: decimal.simps[of n])

text \<open>With room for exactly the sign and the digits, the digits are written after the sign.\<close>

lemma UInt64ToUtf16Array_decimal:
  fixes negative :: bool
  defines "m \<equiv> of_bool negative :: nat"
  assumes n: "n = m + length (decimal (unat v))" and b: "n \<le> length buf"
  shows "UInt64ToUtf16Array v buf n negative =
    Some ((if negative then [0x2d] else []) @ decimal (unat v) @ drop n buf)"
proof -
  obtain w ds where l: "UInt64ToUtf16Array_loop v buf (int n) = Some (w, take (n - length ds) buf @ ds @ drop n buf, int (n - length ds))"
    "unat w < 100" "decimal (unat v) = decimal (unat w) @ ds"
    using decimal_loop[of v n buf] n b by auto
  have e: "n - length ds = m + length (decimal (unat w))" using n l(3) by simp
  let ?e = "m + length (decimal (unat w))"
  let ?buf = "take ?e buf @ ds @ drop n buf"
  have len: "?e \<le> length buf" "?e \<le> length ?buf" using n b l(3) by auto
  have "UInt64ToUtf16Array v buf n negative = map_option (\<lambda>buf'. if negative then buf'[0 := 0x2d] else buf')
      (Some (take m buf @ decimal (unat w) @ ds @ drop n buf))"
  proof (cases "10 \<le> w")
    case True
    then have d: "decimal (unat w) = [of_nat (48 + unat w div 10), of_nat (48 + unat w mod 10)]"
      using decimal_2[of "unat w"] l(2) by (simp add: word_le_nat_alt)
    have "put_bidigit ?buf (int ?e - 2) w = Some (take m buf @ decimal (unat w) @ ds @ drop n buf)"
      using put_bidigit_spec[OF _ len(2) l(2)] len(1) d by (simp add: min_absorb1)
    then show ?thesis using l(1) True unfolding UInt64ToUtf16Array_def e by simp
  next
    case False
    then have w: "unat w < 10" by (simp add: word_le_nat_alt)
    then have d: "decimal (unat w) = [of_nat (48 + unat w)]" by (simp add: decimal.simps)
    have "(ucast w :: u16) = of_nat (unat w)" by simp
    then have "?buf[m := ucast w + 0x30] = take m buf @ decimal (unat w) @ ds @ drop n buf"
      using len(1) d by (simp add: list_update_append take_Suc_conv_app_nth algebra_simps)
    then show ?thesis using l(1) False len d unfolding UInt64ToUtf16Array_def e m_def by simp
  qed
  then show ?thesis using n b l(3) by (cases buf; cases negative) (auto simp: m_def)
qed

lemma UTF16Decode_Combine:
  assumes "is_lead u" "is_trail v"
  shows "UTF16Decode u v = CombineTwoU16 u v"
proof -
  have b: "0xd800 \<le> unat u" "unat u \<le> 0xdbff" "0xdc00 \<le> unat v" "unat v \<le> 0xdfff"
    using assms by (simp_all add: surrogate_bounds)
  have a: "unat (ucast u - 0xd800 :: u32) = unat u - 0xd800" "unat (ucast v - 0xdc00 :: u32) = unat v - 0xdc00"
    using b by (simp_all add: unat_sub word_le_nat_alt unat_ucast_32)
  have "unat (UTF16Decode u v) = (((unat u - 0xd800) * 0x400 mod 2 ^ 32 + (unat v - 0xdc00)) mod 2 ^ 32 + 0x10000) mod 2 ^ 32"
    unfolding UTF16Decode_def by (simp only: unat_word_ariths a) simp
  also have "\<dots> = unat (CombineTwoU16 u v)" using b unat_CombineTwoU16[OF assms] by simp
  finally show ?thesis by (simp add: unsigned_word_eqI)
qed

lemma white_space_set:
  "IsWhiteSpaceChar c \<longleftrightarrow> unat c \<in> {9..13} \<union> {0x20, 0xa0, 0x1680} \<union> {0x2000..0x200a} \<union>
     {0x2028, 0x2029, 0x202f, 0x205f, 0x3000, 0xfeff}"
proof -
  have e: "c = numeral k \<longleftrightarrow> unat c = unat (numeral k :: u16)" for k by (simp add: word_unat_eq_iff)
  show ?thesis unfolding IsWhiteSpaceChar_def e word_le_nat_alt word_less_nat_alt by auto
qed

lemma region_decode_skip:
  assumes "utf16Len \<noteq> 0" "ConvertMUtf8ToUtf16 data len = Some us"
  shows "\<exists>n k j. ConvertRegionMUtf8ToUtf16 data len utf16Len start 0 = Some (take k (drop j us), n) \<and>
    unat n = length (take k (drop j us)) \<and> n \<le> utf16Len \<and> (start = 0 \<longrightarrow> j = 0)"
  using assms(2)
proof (induction data len arbitrary: start us rule: ConvertMUtf8ToUtf16.induct)
  case (1 data len)
  show ?case
  proof (cases "start = 0")
    case True
    obtain n k where "ConvertRegionMUtf8ToUtf16 data len utf16Len 0 0 = Some (take k us, n)" "unat n = length (take k us)" "n \<le> utf16Len"
      using region_decode[OF assms(1) _ 1(2), of 0] by auto
    then show ?thesis using True by (intro exI[of _ n] exI[of _ k] exI[of _ 0]) simp
  next
    case s: False
    show ?thesis
    proof (cases "len = 0")
      case True
      then show ?thesis using 1(2) s by (auto simp: ConvertRegionMUtf8ToUtf16.simps[of data 0] ConvertMUtf8ToUtf16.simps[of data 0])
    next
      case False
      then obtain pair m us' where p: "ConvertMUtf8ToUtf16Pair data len = Some (pair, m)"
        and us': "ConvertMUtf8ToUtf16 (drop m data) (len - m) = Some us'" "us = utf16_units pair @ us'"
        using 1(2) by (auto simp: ConvertMUtf8ToUtf16.simps[of data len] split: option.splits)
      obtain n k j where ih: "ConvertRegionMUtf8ToUtf16 (drop m data) (len - m) utf16Len (start - of_nat m) 0 = Some (take k (drop j us'), n)"
        "unat n = length (take k (drop j us'))" "n \<le> utf16Len"
        using 1(1)[OF False p refl us'(1), of "start - of_nat m"] by blast
      have "ConvertRegionMUtf8ToUtf16 data len utf16Len start 0 = ConvertRegionMUtf8ToUtf16 (drop m data) (len - m) utf16Len (start - of_nat m) 0"
        using False s p by (simp add: ConvertRegionMUtf8ToUtf16.simps[of data len] word_gt_0 split: prod.split)
      then show ?thesis
        using ih s us'(2) by (intro exI[of _ n] exI[of _ k] exI[of _ "length (utf16_units pair) + j"]) simp
    qed
  qed
qed

section \<open>The standard encoding\<close>

















section \<open>The contract of a string codec\<close>

locale string_codec =
  fixes encode :: "'u list \<Rightarrow> 'b list option"
    and decode :: "'b list \<Rightarrow> nat \<Rightarrow> 'u list option"
    and encoding_size :: "'u list \<Rightarrow> nat option"
    and ok :: "'u list \<Rightarrow> bool"
  assumes size: "\<exists>bs. encode us = Some bs \<and> encoding_size us = Some (1 + length bs)"
    and decode_encode: "ok us \<Longrightarrow> encode us = Some bs \<Longrightarrow> decode (bs @ rest) (length bs) = Some us"
begin

lemma encode_inj: "ok us \<Longrightarrow> ok vs \<Longrightarrow> encode us = encode vs \<Longrightarrow> us = vs"
  using size[of us] decode_encode[of us _ "[]"] decode_encode[of vs _ "[]"] by auto

lemma roundtrip:
  assumes "ok us"
  shows "\<exists>bs. encode us = Some bs \<and> decode (bs @ rest) (length bs) = Some us \<and> encoding_size us = Some (1 + length bs)"
  using size[of us] decode_encode[OF assms] by blast

end

text \<open>A whole string, written into a buffer of the announced size.\<close>

definition to_utf8 :: "bool \<Rightarrow> u16 list \<Rightarrow> u8 list option" where
  "to_utf8 modify us = (case Utf16ToUtf8Size us (length us) modify of
     None \<Rightarrow> None | Some n \<Rightarrow> ConvertRegionUtf16ToUtf8 (Some us) True (length us) n 0 modify)"

lemma to_utf8_enc: "to_utf8 modify us = Some (concat (enc modify us))"
  by (simp add: to_utf8_def Utf16ToUtf8Size_enc ConvertRegionUtf16ToUtf8_def region_loop fitting_all)

interpretation utf8: string_codec "to_utf8 modify" ConvertMUtf8ToUtf16 "\<lambda>us. Utf16ToUtf8Size us (length us) modify" no_double_lead
  by unfold_locales (auto simp: to_utf8_enc Utf16ToUtf8Size_enc enc_roundtrip)

section \<open>Properties\<close>

text \<open>C16: A UTF-16 string without two high surrogates in a row, written as modified or plain UTF-8 into a
  buffer of the size \<open>Utf16ToUtf8Size\<close> announces, fills the buffer up to the terminating zero byte and
  is decoded to the same string, isolated surrogates and zero units included.\<close>

theorem utf16_roundtrip:
  assumes "no_double_lead us"
  shows "\<exists>n bs. Utf16ToUtf8Size us (length us) modify = Some n \<and>
    ConvertRegionUtf16ToUtf8 (Some us) True (length us) n 0 modify = Some bs \<and> length bs = n - 1 \<and>
    ConvertMUtf8ToUtf16 (bs @ rest) (length bs) = Some us"
  using utf8.roundtrip[OF assms, of modify rest] by (auto simp: to_utf8_def split: option.splits)

theorem utf16_roundtrip_witness:
  "\<exists>n bs. Utf16ToUtf8Size [0x41, 0, 0xd83d, 0xde00, 0xd800, 0x20ac] 6 True = Some n \<and>
    ConvertRegionUtf16ToUtf8 (Some [0x41, 0, 0xd83d, 0xde00, 0xd800, 0x20ac]) True 6 n 0 True = Some bs \<and> length bs = n - 1 \<and>
    ConvertMUtf8ToUtf16 (bs @ [7]) (length bs) = Some [0x41, 0, 0xd83d, 0xde00, 0xd800, 0x20ac]"
proof -
  have "no_double_lead [0x41, 0, 0xd83d, 0xde00, 0xd800, 0x20ac]" by code_simp
  moreover have "length [0x41 :: u16, 0, 0xd83d, 0xde00, 0xd800, 0x20ac] = 6" by simp
  ultimately show ?thesis using utf16_roundtrip[of "[0x41, 0, 0xd83d, 0xde00, 0xd800, 0x20ac]" True "[7]"] by metis
qed



text \<open>C17: Decoding \<open>len\<close> bytes of a buffer that has them always ends without a read past the buffer, on
  malformed input too; \<open>MUtf8ToUtf16Size\<close> is the number of units it writes. The decoder of regions, given
  room for at least one unit, also ends without a read past the buffer for every value of \<open>start\<close>: it leaves
  out some of the first units, none if \<open>start\<close> is zero, and writes units of the whole decoding that follow
  them, in order and at most as many as there is room for, and returns their number. (With room for no unit
  it writes one, see \<open>utf_boundary_counterexamples\<close>.)\<close>

theorem mutf8_decode_total:
  assumes "len \<le> length data"
  shows "\<exists>us. ConvertMUtf8ToUtf16 data len = Some us \<and> MUtf8ToUtf16Size data len = Some (length us) \<and>
    (utf16Len \<noteq> 0 \<longrightarrow> (\<exists>n k j. ConvertRegionMUtf8ToUtf16 data len utf16Len start 0 = Some (take k (drop j us), n) \<and>
       unat n = length (take k (drop j us)) \<and> n \<le> utf16Len \<and> (start = 0 \<longrightarrow> j = 0)))"
proof -
  obtain us where us: "ConvertMUtf8ToUtf16 data len = Some us" using ConvertMUtf8ToUtf16_total[OF assms] by blast
  then show ?thesis
    using region_decode_skip[OF _ us, of utf16Len start] by (intro exI[of _ us]) (auto simp: MUtf8ToUtf16Size_length)
qed

theorem mutf8_decode_total_witness:
  "\<exists>us n k j. ConvertMUtf8ToUtf16 [0xe2, 0x82, 0xff, 0xf0] 4 = Some us \<and> MUtf8ToUtf16Size [0xe2, 0x82, 0xff, 0xf0] 4 = Some (length us) \<and>
    ConvertRegionMUtf8ToUtf16 [0xe2, 0x82, 0xff, 0xf0] 4 1 3 0 = Some (take k (drop j us), n) \<and> n \<le> 1"
  using mutf8_decode_total[of 4 "[0xe2, 0x82, 0xff, 0xf0]" 1 3] by auto

text \<open>C37: On zero-terminated strings \<open>CompareMUtf8ToMUtf8\<close> always returns, reads nothing after the first
  zero byte it needs, and orders the strings lexicographically by the character codes: it returns zero
  iff both strings have the same characters, and a negative number iff the first one is smaller.\<close>

theorem mutf8_compare_lexicographic:
  assumes "0 \<in> set a" "0 \<in> set b"
  shows "\<exists>r. CompareMUtf8ToMUtf8 a b = Some r \<and> (r = 0 \<longleftrightarrow> codes a = codes b) \<and>
    (r < 0 \<longleftrightarrow> (codes a, codes b) \<in> lexord {(c, d). c < d})"
  by (rule CompareMUtf8ToMUtf8_codes[OF assms])

theorem mutf8_compare_lexicographic_witness:
  "\<exists>r. CompareMUtf8ToMUtf8 [0x61, 0x62, 0] [0x61, 0xe2, 0x82, 0xac, 0] = Some r \<and> r < 0"
proof -
  have "(codes [0x61, 0x62, 0], codes [0x61, 0xe2, 0x82, 0xac, 0]) \<in> lexord {(c, d). c < d}"
    by (simp add: codes.simps ConvertMUtf8ToUtf16Pair_def)
  then show ?thesis
    using mutf8_compare_lexicographic[of "[0x61, 0x62, 0]" "[0x61, 0xe2, 0x82, 0xac, 0]"] by auto
qed

text \<open>\<open>UInt64ToUtf16Array\<close>, given the number of units the decimal representation with its sign has,
  writes the sign and the decimal digits of the number, most significant first, and nothing else.\<close>

theorem uint64_decimal:
  assumes "n = of_bool negative + length (decimal (unat v))" "n \<le> length buf"
  shows "UInt64ToUtf16Array v buf n negative =
    Some ((if negative then [0x2d] else []) @ decimal (unat v) @ drop n buf)"
  by (rule UInt64ToUtf16Array_decimal[OF assms])

theorem uint64_decimal_witness:
  "UInt64ToUtf16Array 907 [0, 0, 0, 0, 5] 4 True = Some [0x2d, 0x39, 0x30, 0x37, 5]"
proof -
  have d: "decimal 907 = [0x39, 0x30, 0x37]" by code_simp
  show ?thesis using uint64_decimal[of 4 True 907 "[0, 0, 0, 0, 5]"] d by simp
qed

text \<open>\<open>IsWhiteSpaceChar\<close> holds exactly for the white space and line terminator characters of the
  ECMAScript standard.\<close>

theorem white_space_chars:
  "IsWhiteSpaceChar c \<longleftrightarrow> unat c \<in> {9..13} \<union> {0x20, 0xa0, 0x1680} \<union> {0x2000..0x200a} \<union>
     {0x2028, 0x2029, 0x202f, 0x205f, 0x3000, 0xfeff}"
  by (rule white_space_set)

text \<open>Where the conversions fail: a high surrogate followed by another one is replaced by U+FFFD,
  although an isolated high surrogate in front of any other unit is kept; with room for no unit at all
  the region decoder still writes the first half of a surrogate pair; and skipping one byte of a
  two-byte character wraps the count around and skips the whole rest of the string.\<close>

theorem utf_boundary_counterexamples:
  "to_utf8 True [0xd800, 0xd800] = Some [0xef, 0xbf, 0xbd, 0xed, 0xa0, 0x80] \<and>
   to_utf8 True [0xd800, 0x41] = Some [0xed, 0xa0, 0x80, 0x41] \<and>
   ConvertRegionMUtf8ToUtf16 [0xf0, 0x9f, 0x98, 0x80] 4 0 0 0 = Some ([0xd83d], 1) \<and>
   ConvertRegionMUtf8ToUtf16 [0xc3, 0xa9, 0x41, 0x42] 4 10 1 0 = Some ([], 0) \<and>
   ConvertRegionMUtf8ToUtf16 [0x41, 0x41, 0x42] 3 10 1 0 = Some ([0x41, 0x42], 2)"
  by code_simp

end
