(* ===== verification/Const_Folding.thy ===== *)
theory Const_Folding
  imports Data_Types "HOL-Library.Signed_Division"
begin

text \<open>
  Constants of the intermediate representation (\<open>ConstantInst\<close> and \<open>Graph::FindOrCreateConstant\<close> of
  \<^verbatim>\<open>compiler/optimizer/ir/inst.h\<close> and \<^verbatim>\<open>graph.h\<close>) and constant folding
  (\<^verbatim>\<open>compiler/optimizer/optimizations/const_folding.cpp\<close>). The state is the graph with its list of
  constants; a folding function takes the graph and the instruction and returns what it does with the
  instruction's users (\<open>Replaced\<close>: it calls \<open>ReplaceUsers\<close> and returns true; \<open>Kept\<close>: it returns
  false; \<open>Unreachable\<close>: it runs into \<open>UNREACHABLE()\<close> or, in a debug build, a failing assertion; \<open>Undefined\<close>: it evaluates an integer
  division by zero or replaces the users by a null pointer) and the graph it leaves. A floating point
  value is its bit pattern; rounding arithmetic on bit patterns is the argument \<open>fo\<close>. What the
  runtime answers to the compiler is the argument \<open>rt\<close>.
\<close>

section \<open>Constants and the graph\<close>

record ConstantInst =
  GetType :: DataType
  value_raw :: u64

text \<open>A value of one of the C++ types the templates are used with.\<close>

datatype CValue = U64 u64 | U32 u32 | I32 u32 | F32 u32 | F64 u64 | AnyVal u64

fun GetTypeFromCType :: "CValue \<Rightarrow> bool \<Rightarrow> DataType" where
  "GetTypeFromCType (U64 v) supportInt32 = INT64"
| "GetTypeFromCType (U32 v) supportInt32 = (if supportInt32 then INT32 else INT64)"
| "GetTypeFromCType (I32 v) supportInt32 = (if supportInt32 then INT32 else INT64)"
| "GetTypeFromCType (F32 v) supportInt32 = FLOAT32"
| "GetTypeFromCType (F64 v) supportInt32 = FLOAT64"
| "GetTypeFromCType (AnyVal v) supportInt32 = ANY"

fun CreateInstConstant :: "CValue \<Rightarrow> bool \<Rightarrow> ConstantInst" where
  "CreateInstConstant (U64 v) supportInt32 = \<lparr>GetType = INT64, value_raw = v\<rparr>"
| "CreateInstConstant (U32 v) supportInt32 =
     (if supportInt32 then \<lparr>GetType = INT32, value_raw = scast v\<rparr> else \<lparr>GetType = INT64, value_raw = ucast v\<rparr>)"
| "CreateInstConstant (I32 v) supportInt32 =
     (if supportInt32 then \<lparr>GetType = INT32, value_raw = scast v\<rparr> else \<lparr>GetType = INT64, value_raw = scast v\<rparr>)"
| "CreateInstConstant (F32 v) supportInt32 = \<lparr>GetType = FLOAT32, value_raw = ucast v\<rparr>"
| "CreateInstConstant (F64 v) supportInt32 = \<lparr>GetType = FLOAT64, value_raw = v\<rparr>"
| "CreateInstConstant (AnyVal v) supportInt32 = \<lparr>GetType = ANY, value_raw = v\<rparr>"

text \<open>The accessors. An \<open>ASSERT\<close> on the type is a condition of the callers.\<close>

definition GetIntValue :: "ConstantInst \<Rightarrow> u64" where "GetIntValue c = value_raw c"
definition GetInt32Value :: "ConstantInst \<Rightarrow> u32" where "GetInt32Value c = ucast (value_raw c)"
definition GetFloatValue :: "ConstantInst \<Rightarrow> u32" where "GetFloatValue c = ucast (value_raw c)"
definition GetDoubleValue :: "ConstantInst \<Rightarrow> u64" where "GetDoubleValue c = value_raw c"

text \<open>\<open>std::isnan\<close> on bit patterns: a full exponent and a mantissa that is not zero.\<close>

definition isnan32 :: "u32 \<Rightarrow> bool" where
  "isnan32 x \<longleftrightarrow> x AND 0x7f800000 = 0x7f800000 \<and> x AND 0x007fffff \<noteq> 0"

definition isnan64 :: "u64 \<Rightarrow> bool" where
  "isnan64 x \<longleftrightarrow> x AND 0x7ff0000000000000 = 0x7ff0000000000000 \<and> x AND 0x000fffffffffffff \<noteq> 0"

fun IsEqualConst :: "ConstantInst \<Rightarrow> CValue \<Rightarrow> bool \<Rightarrow> bool" where
  "IsEqualConst c (F64 v) supportInt32 \<longleftrightarrow>
     GetType c = FLOAT64 \<and> isnan64 v \<and> isnan64 (value_raw c) \<or> GetType c = FLOAT64 \<and> value_raw c = v"
| "IsEqualConst c (F32 v) supportInt32 \<longleftrightarrow>
     GetType c = FLOAT32 \<and> isnan32 v \<and> isnan32 (ucast (value_raw c)) \<or>
     GetType c = FLOAT32 \<and> value_raw c = ucast v"
| "IsEqualConst c (U32 v) supportInt32 \<longleftrightarrow>
     (if supportInt32 then GetType c = INT32 \<and> (ucast (value_raw c) :: u32) = v
      else GetType c = INT64 \<and> value_raw c = ucast v)"
| "IsEqualConst c (I32 v) supportInt32 \<longleftrightarrow>
     (if supportInt32 then GetType c = INT32 \<and> (ucast (value_raw c) :: u32) = v
      else GetType c = INT64 \<and> value_raw c = scast v)"
| "IsEqualConst c (AnyVal v) supportInt32 \<longleftrightarrow> GetType c = ANY \<and> value_raw c = v"
| "IsEqualConst c (U64 v) supportInt32 \<longleftrightarrow> GetType c = INT64 \<and> value_raw c = v"

definition IsNaNConst :: "ConstantInst \<Rightarrow> bool" where
  "IsNaNConst c \<longleftrightarrow> (if GetType c = FLOAT32 then isnan32 (GetFloatValue c) else isnan64 (GetDoubleValue c))"

record Graph =
  IsBytecodeOptimizer :: bool
  IsDynamicMethod :: bool
  GetArch :: Arch
  ObjectPointerSize :: nat
  constants :: "ConstantInst list"

definition FindOrCreateConstant :: "Graph \<Rightarrow> CValue \<Rightarrow> ConstantInst \<times> Graph" where
  "FindOrCreateConstant g v =
     (let isSupportInt32 = IsBytecodeOptimizer g
      in case List.find (\<lambda>c. IsEqualConst c v isSupportInt32) (constants g) of
           Some c \<Rightarrow> (c, g)
         | None \<Rightarrow> let c = CreateInstConstant v isSupportInt32 in (c, g\<lparr>constants := constants g @ [c]\<rparr>))"

section \<open>Instructions\<close>

text \<open>An input of an instruction, as far as folding looks at it. Two inputs are the same pointer iff
  they are equal; instructions other than constants carry their number. \<open>CheckInst\<close> is a check
  instruction around its data-flow input.\<close>

datatype Inst = Constant ConstantInst | NullPtr | LoadImmediate nat nat DataType | LoadUniqueObject nat
  | Allocation nat | OtherInst nat DataType | CheckInst nat Inst

fun IsConst_inst :: "Inst \<Rightarrow> bool" where
  "IsConst_inst (Constant c) = True"
| "IsConst_inst _ = False"

fun InstType :: "Inst \<Rightarrow> DataType" where
  "InstType (Constant c) = GetType c"
| "InstType NullPtr = REFERENCE"
| "InstType (LoadImmediate obj n t) = t"
| "InstType (LoadUniqueObject n) = REFERENCE"
| "InstType (Allocation n) = REFERENCE"
| "InstType (OtherInst n t) = t"
| "InstType (CheckInst n i) = InstType i"

fun GetDataFlowInput :: "Inst \<Rightarrow> Inst" where
  "GetDataFlowInput (CheckInst n i) = GetDataFlowInput i"
| "GetDataFlowInput i = i"

text \<open>The instruction that is folded: its type, its inputs, the type of its operands and, for
  comparisons, the condition code and the treatment of NaN.\<close>

record FoldInst =
  itype :: DataType
  input0 :: Inst
  input1 :: Inst
  GetInputType :: DataType
  GetCc :: ConditionCode
  IsFcmpg :: bool

datatype Folding = Replaced Inst | Kept | Unreachable | Undefined

definition replaceBy :: "ConstantInst \<times> Graph \<Rightarrow> Folding \<times> Graph" where
  "replaceBy cg = (case cg of (c, g) \<Rightarrow> (Replaced (Constant c), g))"

section \<open>Floating point operations and the runtime\<close>

record FloatOps =
  f_add :: "u32 \<Rightarrow> u32 \<Rightarrow> u32"
  f_sub :: "u32 \<Rightarrow> u32 \<Rightarrow> u32"
  f_mul :: "u32 \<Rightarrow> u32 \<Rightarrow> u32"
  f_div :: "u32 \<Rightarrow> u32 \<Rightarrow> u32"
  f_mod :: "u32 \<Rightarrow> u32 \<Rightarrow> u32"
  f_sqrt :: "u32 \<Rightarrow> u32"
  f_less :: "u32 \<Rightarrow> u32 \<Rightarrow> bool"
  f_of_int :: "int \<Rightarrow> u32"
  f_trunc :: "u32 \<Rightarrow> int"
  d_add :: "u64 \<Rightarrow> u64 \<Rightarrow> u64"
  d_sub :: "u64 \<Rightarrow> u64 \<Rightarrow> u64"
  d_mul :: "u64 \<Rightarrow> u64 \<Rightarrow> u64"
  d_div :: "u64 \<Rightarrow> u64 \<Rightarrow> u64"
  d_mod :: "u64 \<Rightarrow> u64 \<Rightarrow> u64"
  d_sqrt :: "u64 \<Rightarrow> u64"
  d_less :: "u64 \<Rightarrow> u64 \<Rightarrow> bool"
  d_of_int :: "int \<Rightarrow> u64"
  d_trunc :: "u64 \<Rightarrow> int"
  f_of_d :: "u64 \<Rightarrow> u32"
  d_of_f :: "u32 \<Rightarrow> u64"

definition f_zero :: "u32 \<Rightarrow> bool" where "f_zero x \<longleftrightarrow> x AND 0x7fffffff = 0"
definition d_zero :: "u64 \<Rightarrow> bool" where "d_zero x \<longleftrightarrow> x AND 0x7fffffffffffffff = 0"
definition f_neg :: "u32 \<Rightarrow> u32" where "f_neg x = x XOR 0x80000000"
definition d_neg :: "u64 \<Rightarrow> u64" where "d_neg x = x XOR 0x8000000000000000"
definition f_abs :: "u32 \<Rightarrow> u32" where "f_abs x = x AND 0x7fffffff"
definition d_abs :: "u64 \<Rightarrow> u64" where "d_abs x = x AND 0x7fffffffffffffff"

definition f_le :: "FloatOps \<Rightarrow> u32 \<Rightarrow> u32 \<Rightarrow> bool" where
  "f_le fo a b \<longleftrightarrow> \<not> isnan32 a \<and> \<not> isnan32 b \<and> \<not> f_less fo b a"

definition d_le :: "FloatOps \<Rightarrow> u64 \<Rightarrow> u64 \<Rightarrow> bool" where
  "d_le fo a b \<longleftrightarrow> \<not> isnan64 a \<and> \<not> isnan64 b \<and> \<not> d_less fo b a"

text \<open>\<open>ark::helpers::math::Min\<close> and \<open>Max\<close>.\<close>

definition MathMin32 :: "FloatOps \<Rightarrow> u32 \<Rightarrow> u32 \<Rightarrow> u32" where
  "MathMin32 fo a b = (if isnan32 a then a
     else if f_zero a \<and> f_zero b \<and> bit b 31 then b
     else if f_le fo a b then a else b)"

definition MathMin64 :: "FloatOps \<Rightarrow> u64 \<Rightarrow> u64 \<Rightarrow> u64" where
  "MathMin64 fo a b = (if isnan64 a then a
     else if d_zero a \<and> d_zero b \<and> bit b 63 then b
     else if d_le fo a b then a else b)"

definition MathMax32 :: "FloatOps \<Rightarrow> u32 \<Rightarrow> u32 \<Rightarrow> u32" where
  "MathMax32 fo a b = (if isnan32 a then a
     else if f_zero a \<and> f_zero b \<and> bit a 31 then b
     else if f_le fo b a then a else b)"

definition MathMax64 :: "FloatOps \<Rightarrow> u64 \<Rightarrow> u64 \<Rightarrow> u64" where
  "MathMax64 fo a b = (if isnan64 a then a
     else if d_zero a \<and> d_zero b \<and> bit a 63 then b
     else if d_le fo b a then a else b)"

record Runtime =
  DynamicCastDoubleToInt :: "u64 \<Rightarrow> nat \<Rightarrow> u64"
  IsFieldReadonly :: "nat \<Rightarrow> bool"
  IsClassInitialized :: "nat \<Rightarrow> bool"
  GetClassForField :: "nat \<Rightarrow> nat"
  GetStaticFieldFloatValue :: "nat \<Rightarrow> u64"
  GetStaticFieldIntegerValue :: "nat \<Rightarrow> u64"

section \<open>Conversions\<close>

text \<open>\<open>static_cast\<close> of an integer to an integer type of C++, as the value it leaves.\<close>

fun castTo :: "DataType \<Rightarrow> int \<Rightarrow> int option" where
  "castTo BOOL v = Some (of_bool (v \<noteq> 0))"
| "castTo UINT8 v = Some (uint (word_of_int v :: 8 word))"
| "castTo INT8 v = Some (sint (word_of_int v :: 8 word))"
| "castTo UINT16 v = Some (uint (word_of_int v :: 16 word))"
| "castTo INT16 v = Some (sint (word_of_int v :: 16 word))"
| "castTo UINT32 v = Some (uint (word_of_int v :: 32 word))"
| "castTo INT32 v = Some (sint (word_of_int v :: 32 word))"
| "castTo UINT64 v = Some (uint (word_of_int v :: 64 word))"
| "castTo INT64 v = Some (sint (word_of_int v :: 64 word))"
| "castTo _ v = None"

definition ConvertIntToInt :: "int \<Rightarrow> DataType \<Rightarrow> u64 option" where
  "ConvertIntToInt v targetType = map_option word_of_int (castTo targetType v)"

definition ConvertIntToFloat :: "FloatOps \<Rightarrow> u64 \<Rightarrow> DataType \<Rightarrow> u32 option" where
  "ConvertIntToFloat fo v sourceType = map_option (f_of_int fo) (castTo sourceType (uint v))"

definition ConvertIntToDouble :: "FloatOps \<Rightarrow> u64 \<Rightarrow> DataType \<Rightarrow> u64 option" where
  "ConvertIntToDouble fo v sourceType = map_option (d_of_int fo) (castTo sourceType (uint v))"

text \<open>\<open>std::numeric_limits\<close> of the integer types.\<close>

fun limits :: "DataType \<Rightarrow> (int \<times> int) option" where
  "limits BOOL = Some (0, 1)"
| "limits UINT8 = Some (0, 255)"
| "limits INT8 = Some (- 128, 127)"
| "limits UINT16 = Some (0, 65535)"
| "limits INT16 = Some (- 32768, 32767)"
| "limits UINT32 = Some (0, 4294967295)"
| "limits INT32 = Some (- 2147483648, 2147483647)"
| "limits UINT64 = Some (0, 18446744073709551615)"
| "limits INT64 = Some (- 9223372036854775808, 9223372036854775807)"
| "limits _ = None"

text \<open>The saturating conversion, over the comparison, the NaN test and the two casts of the
  floating point type. A cast of a value that is not zero to \<open>bool\<close> is 1.\<close>

definition ConvertFloatToInt_sat ::
  "('f \<Rightarrow> 'f \<Rightarrow> bool) \<Rightarrow> ('f \<Rightarrow> bool) \<Rightarrow> (int \<Rightarrow> 'f) \<Rightarrow> ('f \<Rightarrow> int) \<Rightarrow> DataType \<Rightarrow> 'f \<Rightarrow> int option" where
  "ConvertFloatToInt_sat lt isnan of_i trunc targetType v =
     (case limits targetType of None \<Rightarrow> None | Some (MIN_INT, MAX_INT) \<Rightarrow>
        Some (if lt (of_i MIN_INT) v then
                if lt v (of_i MAX_INT) then if targetType = BOOL then 1 else trunc v
                else MAX_INT
              else if isnan v then 0
              else MIN_INT))"

definition ConvertFloatToInt :: "FloatOps \<Rightarrow> u32 \<Rightarrow> DataType \<Rightarrow> u64 option" where
  "ConvertFloatToInt fo v targetType =
     map_option word_of_int (ConvertFloatToInt_sat (f_less fo) isnan32 (f_of_int fo) (f_trunc fo) targetType v)"

definition ConvertDoubleToInt :: "FloatOps \<Rightarrow> u64 \<Rightarrow> DataType \<Rightarrow> u64 option" where
  "ConvertDoubleToInt fo v targetType =
     map_option word_of_int (ConvertFloatToInt_sat (d_less fo) isnan64 (d_of_int fo) (d_trunc fo) targetType v)"

definition ConstFoldingCreateIntConst :: "Graph \<Rightarrow> DataType \<Rightarrow> u64 \<Rightarrow> bool \<Rightarrow> ConstantInst \<times> Graph" where
  "ConstFoldingCreateIntConst g instType v isLiteralData =
     (if IsBytecodeOptimizer g \<and> IsInt32Bit instType \<and> \<not> isLiteralData
      then FindOrCreateConstant g (U32 (ucast v))
      else FindOrCreateConstant g (U64 v))"

text \<open>The same with the value converted to the instruction's type first, which most callers do.\<close>

definition foldInt :: "Graph \<Rightarrow> DataType \<Rightarrow> int \<Rightarrow> Folding \<times> Graph" where
  "foldInt g instType v =
     (case ConvertIntToInt v instType of
        None \<Rightarrow> (Unreachable, g)
      | Some u \<Rightarrow> replaceBy (ConstFoldingCreateIntConst g instType u False))"

section \<open>Casts\<close>

definition ConstFoldingCastInt2Int :: "Graph \<Rightarrow> FoldInst \<Rightarrow> ConstantInst \<Rightarrow> Folding \<times> Graph" where
  "ConstFoldingCastInt2Int g inst cnst =
     (case castTo (GetInputType inst) (uint (GetIntValue cnst)) of
        None \<Rightarrow> (Kept, g)
      | Some v \<Rightarrow> foldInt g (itype inst) v)"

definition ConstFoldingCastIntConst ::
  "FloatOps \<Rightarrow> Graph \<Rightarrow> FoldInst \<Rightarrow> ConstantInst \<Rightarrow> bool \<Rightarrow> Folding \<times> Graph" where
  "ConstFoldingCastIntConst fo g inst cnst isLiteralData =
     (let instType = GetCommonType (itype inst)
      in if instType = INT64 then ConstFoldingCastInt2Int g inst cnst
         else if instType = FLOAT32 then
           if IsBytecodeOptimizer g \<and> \<not> isLiteralData then (Kept, g)
           else (case ConvertIntToFloat fo (GetIntValue cnst) (GetInputType inst) of
                   None \<Rightarrow> (Unreachable, g)
                 | Some v \<Rightarrow> replaceBy (FindOrCreateConstant g (F32 v)))
         else if instType = FLOAT64 then
           (case ConvertIntToDouble fo (GetIntValue cnst) (GetInputType inst) of
              None \<Rightarrow> (Unreachable, g)
            | Some v \<Rightarrow> replaceBy (FindOrCreateConstant g (F64 v)))
         else (Kept, g))"

definition ConstFoldingCastConst ::
  "FloatOps \<Rightarrow> Runtime \<Rightarrow> Graph \<Rightarrow> FoldInst \<Rightarrow> ConstantInst \<Rightarrow> bool \<Rightarrow> Folding \<times> Graph" where
  "ConstFoldingCastConst fo rt g inst cnst isLiteralData =
     (let instType = GetCommonType (itype inst)
      in if GetType cnst = INT32 \<or> GetType cnst = INT64 then ConstFoldingCastIntConst fo g inst cnst False
         else if GetType cnst = FLOAT32 then
           if IsBytecodeOptimizer g \<and> \<not> isLiteralData then (Kept, g)
           else if instType = INT64 then
             (case ConvertFloatToInt fo (GetFloatValue cnst) (itype inst) of
                None \<Rightarrow> (Unreachable, g)
              | Some v \<Rightarrow> replaceBy (FindOrCreateConstant g (U64 v)))
           else if instType = FLOAT32 then (Replaced (Constant cnst), g)
           else if instType = FLOAT64 then
             replaceBy (FindOrCreateConstant g (F64 (d_of_f fo (GetFloatValue cnst))))
           else (Kept, g)
         else if GetType cnst = FLOAT64 then
           if instType = INT64 then
             (case (if IsDynamicMethod g
                    then map_option (DynamicCastDoubleToInt rt (GetDoubleValue cnst))
                           (GetTypeSize (ObjectPointerSize g) (itype inst) (GetArch g))
                    else ConvertDoubleToInt fo (GetDoubleValue cnst) (itype inst)) of
                None \<Rightarrow> (Unreachable, g)
              | Some v \<Rightarrow> replaceBy (ConstFoldingCreateIntConst g (itype inst) v isLiteralData))
           else if instType = FLOAT32 then
             if IsBytecodeOptimizer g \<and> \<not> isLiteralData then (Kept, g)
             else replaceBy (FindOrCreateConstant g (F32 (f_of_d fo (GetDoubleValue cnst))))
           else if instType = FLOAT64 then (Replaced (Constant cnst), g)
           else (Kept, g)
         else (Kept, g))"

definition ConstFoldingCast :: "FloatOps \<Rightarrow> Runtime \<Rightarrow> Graph \<Rightarrow> FoldInst \<Rightarrow> Folding \<times> Graph" where
  "ConstFoldingCast fo rt g inst =
     (case input0 inst of
        Constant cnst \<Rightarrow> ConstFoldingCastConst fo rt g inst cnst False
      | _ \<Rightarrow> (Kept, g))"

section \<open>Unary operations\<close>

definition ConstFoldingNeg :: "Graph \<Rightarrow> FoldInst \<Rightarrow> Folding \<times> Graph" where
  "ConstFoldingNeg g inst =
     (case input0 inst of
        Constant cnst \<Rightarrow>
          (let t = GetCommonType (itype inst)
           in if t = INT64 then foldInt g (itype inst) (uint (- GetIntValue cnst))
              else if t = FLOAT32 then replaceBy (FindOrCreateConstant g (F32 (f_neg (GetFloatValue cnst))))
              else if t = FLOAT64 then replaceBy (FindOrCreateConstant g (F64 (d_neg (GetDoubleValue cnst))))
              else (Unreachable, g))
      | _ \<Rightarrow> (Kept, g))"

text \<open>\<open>nd\<close> is a release build: the assertion on the type stops a debug build (\<open>Unreachable\<close>).\<close>

definition ConstFoldingAbs :: "bool \<Rightarrow> Graph \<Rightarrow> FoldInst \<Rightarrow> Folding \<times> Graph" where
  "ConstFoldingAbs nd g inst =
     (case input0 inst of
        Constant cnst \<Rightarrow>
          (let t = GetCommonType (itype inst)
           in if t = INT64 then
                if \<not> nd \<and> \<not> IsTypeSigned (itype inst) then (Unreachable, g)
                else
                let v = sint (GetIntValue cnst)
                in if v = - (2 ^ 63) then (Replaced (Constant cnst), g)
                   else foldInt g (itype inst) (if v < 0 then - v else v)
              else if t = FLOAT32 then replaceBy (FindOrCreateConstant g (F32 (f_abs (GetFloatValue cnst))))
              else if t = FLOAT64 then replaceBy (FindOrCreateConstant g (F64 (d_abs (GetDoubleValue cnst))))
              else (Unreachable, g))
      | _ \<Rightarrow> (Kept, g))"

definition ConstFoldingNot :: "Graph \<Rightarrow> FoldInst \<Rightarrow> Folding \<times> Graph" where
  "ConstFoldingNot g inst =
     (case input0 inst of
        Constant cnst \<Rightarrow> foldInt g (itype inst) (uint (NOT (GetIntValue cnst)))
      | _ \<Rightarrow> (Kept, g))"

definition ConstFoldingSqrt :: "FloatOps \<Rightarrow> Graph \<Rightarrow> FoldInst \<Rightarrow> Folding \<times> Graph" where
  "ConstFoldingSqrt fo g inst =
     (case input0 inst of
        Constant cnst \<Rightarrow>
          if GetType cnst = FLOAT32 then replaceBy (FindOrCreateConstant g (F32 (f_sqrt fo (GetFloatValue cnst))))
          else replaceBy (FindOrCreateConstant g (F64 (d_sqrt fo (GetDoubleValue cnst))))
      | _ \<Rightarrow> (Kept, g))"

section \<open>Binary arithmetic\<close>

definition ConstFoldingBinaryMathWithNan :: "Graph \<Rightarrow> FoldInst \<Rightarrow> Folding \<times> Graph" where
  "ConstFoldingBinaryMathWithNan g inst =
     (if \<not> IsFloatType (itype inst) then (Kept, g)
      else case (if IsConst_inst (input0 inst) then input0 inst else input1 inst) of
             Constant c \<Rightarrow> if IsNaNConst c then (Replaced (Constant c), g) else (Kept, g)
           | _ \<Rightarrow> (Kept, g))"

definition ConstFoldingAdd :: "FloatOps \<Rightarrow> Graph \<Rightarrow> FoldInst \<Rightarrow> Folding \<times> Graph" where
  "ConstFoldingAdd fo g inst =
     (case (input0 inst, input1 inst) of
        (Constant cnst0, Constant cnst1) \<Rightarrow>
          (let t = GetCommonType (itype inst)
           in if t = INT64 then foldInt g (itype inst) (uint (GetIntValue cnst0 + GetIntValue cnst1))
              else if t = FLOAT32 then
                replaceBy (FindOrCreateConstant g (F32 (f_add fo (GetFloatValue cnst0) (GetFloatValue cnst1))))
              else if t = FLOAT64 then
                replaceBy (FindOrCreateConstant g (F64 (d_add fo (GetDoubleValue cnst0) (GetDoubleValue cnst1))))
              else (Unreachable, g))
      | _ \<Rightarrow> ConstFoldingBinaryMathWithNan g inst)"

definition ConstFoldingSub :: "FloatOps \<Rightarrow> Graph \<Rightarrow> FoldInst \<Rightarrow> Folding \<times> Graph" where
  "ConstFoldingSub fo g inst =
     (case (input0 inst, input1 inst) of
        (Constant cnst0, Constant cnst1) \<Rightarrow>
          (let t = GetCommonType (itype inst)
           in if t = INT64 then foldInt g (itype inst) (uint (GetIntValue cnst0 - GetIntValue cnst1))
              else if t = FLOAT32 then
                replaceBy (FindOrCreateConstant g (F32 (f_sub fo (GetFloatValue cnst0) (GetFloatValue cnst1))))
              else if t = FLOAT64 then
                replaceBy (FindOrCreateConstant g (F64 (d_sub fo (GetDoubleValue cnst0) (GetDoubleValue cnst1))))
              else (Unreachable, g))
      | _ \<Rightarrow>
          if input0 inst = input1 inst \<and> GetCommonType (itype inst) = INT64
          then replaceBy (ConstFoldingCreateIntConst g (itype inst) 0 False)
          else ConstFoldingBinaryMathWithNan g inst)"

definition ConstFoldingMul :: "FloatOps \<Rightarrow> Graph \<Rightarrow> FoldInst \<Rightarrow> Folding \<times> Graph" where
  "ConstFoldingMul fo g inst =
     (case (input0 inst, input1 inst) of
        (Constant cnst0, Constant cnst1) \<Rightarrow>
          (let t = GetCommonType (itype inst)
           in if t = INT64 then foldInt g (itype inst) (uint (GetIntValue cnst0 * GetIntValue cnst1))
              else if t = FLOAT32 then
                replaceBy (FindOrCreateConstant g (F32 (f_mul fo (GetFloatValue cnst0) (GetFloatValue cnst1))))
              else if t = FLOAT64 then
                replaceBy (FindOrCreateConstant g (F64 (d_mul fo (GetDoubleValue cnst0) (GetDoubleValue cnst1))))
              else (Unreachable, g))
      | _ \<Rightarrow>
          (case ConstFoldingBinaryMathWithNan g inst of
             (Replaced i, g') \<Rightarrow> (Replaced i, g')
           | _ \<Rightarrow>
             (case (if IsConst_inst (input0 inst) then input0 inst else input1 inst) of
                Constant c \<Rightarrow>
                  if IsEqualConst c (I32 0) (IsBytecodeOptimizer g) then (Replaced (Constant c), g) else (Kept, g)
              | _ \<Rightarrow> (Kept, g))))"

text \<open>The 32-bit and 64-bit signed readings of a constant.\<close>

definition asInt32 :: "ConstantInst \<Rightarrow> int" where "asInt32 c = sint (ucast (GetIntValue c) :: u32)"
definition asInt64 :: "ConstantInst \<Rightarrow> int" where "asInt64 c = sint (GetIntValue c)"

text \<open>A constant of 32 bits, which keeps its width in the bytecode optimizer only, and one of 64
  bits; the value is first converted to the instruction's type.\<close>

definition foldInt32 :: "Graph \<Rightarrow> DataType \<Rightarrow> int \<Rightarrow> Folding \<times> Graph" where
  "foldInt32 g instType v =
     (case ConvertIntToInt v instType of
        None \<Rightarrow> (Unreachable, g)
      | Some u \<Rightarrow> replaceBy (FindOrCreateConstant g (U32 (ucast u))))"

definition foldInt64 :: "Graph \<Rightarrow> DataType \<Rightarrow> int \<Rightarrow> Folding \<times> Graph" where
  "foldInt64 g instType v =
     (case ConvertIntToInt v instType of
        None \<Rightarrow> (Unreachable, g)
      | Some u \<Rightarrow> replaceBy (FindOrCreateConstant g (U64 u)))"

definition ConstFoldingDivInt2Int :: "Graph \<Rightarrow> FoldInst \<Rightarrow> ConstantInst \<Rightarrow> ConstantInst \<Rightarrow> Folding \<times> Graph" where
  "ConstFoldingDivInt2Int g inst cnst0 cnst1 =
     (if GetIntValue cnst1 = 0 then (Kept, g)
      else if IsTypeSigned (itype inst) then
        if IsBytecodeOptimizer g \<and> IsInt32Bit (itype inst) then
          if asInt32 cnst0 = - (2 ^ 31) \<and> asInt32 cnst1 = - 1
          then replaceBy (FindOrCreateConstant g (U32 0x80000000))
          else if asInt32 cnst1 = 0 then (Undefined, g)
          else foldInt32 g (itype inst) (asInt32 cnst0 sdiv asInt32 cnst1)
        else if asInt64 cnst0 = - (2 ^ 63) \<and> asInt64 cnst1 = - 1
        then replaceBy (FindOrCreateConstant g (U64 0x8000000000000000))
        else foldInt64 g (itype inst) (asInt64 cnst0 sdiv asInt64 cnst1)
      else case (ConvertIntToInt (uint (GetIntValue cnst0)) (itype inst),
                 ConvertIntToInt (uint (GetIntValue cnst1)) (itype inst)) of
             (Some a, Some b) \<Rightarrow>
               if b = 0 then (Undefined, g)
               else replaceBy (ConstFoldingCreateIntConst g (itype inst) (a div b) False)
           | _ \<Rightarrow> (Unreachable, g))"

definition ConstFoldingDiv :: "FloatOps \<Rightarrow> Graph \<Rightarrow> FoldInst \<Rightarrow> Folding \<times> Graph" where
  "ConstFoldingDiv fo g inst =
     (case (GetDataFlowInput (input0 inst), GetDataFlowInput (input1 inst)) of
        (Constant cnst0, Constant cnst1) \<Rightarrow>
          (let t = GetCommonType (itype inst)
           in if t = INT64 then ConstFoldingDivInt2Int g inst cnst0 cnst1
              else if t = FLOAT32 then
                replaceBy (FindOrCreateConstant g (F32 (f_div fo (GetFloatValue cnst0) (GetFloatValue cnst1))))
              else if t = FLOAT64 then
                replaceBy (FindOrCreateConstant g (F64 (d_div fo (GetDoubleValue cnst0) (GetDoubleValue cnst1))))
              else (Unreachable, g))
      | _ \<Rightarrow> ConstFoldingBinaryMathWithNan g inst)"

definition ConstFoldingMinInt :: "Graph \<Rightarrow> FoldInst \<Rightarrow> ConstantInst \<Rightarrow> ConstantInst \<Rightarrow> Folding \<times> Graph" where
  "ConstFoldingMinInt g inst cnst0 cnst1 =
     (if IsTypeSigned (itype inst) then
        if IsBytecodeOptimizer g \<and> IsInt32Bit (itype inst)
        then foldInt32 g (itype inst) (min (asInt32 cnst0) (asInt32 cnst1))
        else foldInt64 g (itype inst) (min (asInt64 cnst0) (asInt64 cnst1))
      else foldInt g (itype inst) (uint (min (GetIntValue cnst0) (GetIntValue cnst1))))"

definition ConstFoldingMin :: "FloatOps \<Rightarrow> Graph \<Rightarrow> FoldInst \<Rightarrow> Folding \<times> Graph" where
  "ConstFoldingMin fo g inst =
     (case (input0 inst, input1 inst) of
        (Constant cnst0, Constant cnst1) \<Rightarrow>
          (let t = GetCommonType (itype inst)
           in if t = INT64 then ConstFoldingMinInt g inst cnst0 cnst1
              else if t = FLOAT32 then
                replaceBy (FindOrCreateConstant g (F32 (MathMin32 fo (GetFloatValue cnst0) (GetFloatValue cnst1))))
              else if t = FLOAT64 then
                replaceBy (FindOrCreateConstant g (F64 (MathMin64 fo (GetDoubleValue cnst0) (GetDoubleValue cnst1))))
              else (Unreachable, g))
      | _ \<Rightarrow> ConstFoldingBinaryMathWithNan g inst)"

definition ConstFoldingMaxInt :: "Graph \<Rightarrow> FoldInst \<Rightarrow> ConstantInst \<Rightarrow> ConstantInst \<Rightarrow> Folding \<times> Graph" where
  "ConstFoldingMaxInt g inst cnst0 cnst1 =
     (if IsTypeSigned (itype inst) then
        if IsBytecodeOptimizer g \<and> IsInt32Bit (itype inst)
        then foldInt32 g (itype inst) (max (asInt32 cnst0) (asInt32 cnst1))
        else foldInt64 g (itype inst) (max (asInt64 cnst0) (asInt64 cnst1))
      else foldInt g (itype inst) (uint (max (GetIntValue cnst0) (GetIntValue cnst1))))"

definition ConstFoldingMax :: "FloatOps \<Rightarrow> Graph \<Rightarrow> FoldInst \<Rightarrow> Folding \<times> Graph" where
  "ConstFoldingMax fo g inst =
     (case (input0 inst, input1 inst) of
        (Constant cnst0, Constant cnst1) \<Rightarrow>
          (let t = GetCommonType (itype inst)
           in if t = INT64 then ConstFoldingMaxInt g inst cnst0 cnst1
              else if t = FLOAT32 then
                replaceBy (FindOrCreateConstant g (F32 (MathMax32 fo (GetFloatValue cnst0) (GetFloatValue cnst1))))
              else if t = FLOAT64 then
                replaceBy (FindOrCreateConstant g (F64 (MathMax64 fo (GetDoubleValue cnst0) (GetDoubleValue cnst1))))
              else (Unreachable, g))
      | _ \<Rightarrow> ConstFoldingBinaryMathWithNan g inst)"

definition ConstFoldingModIntConst :: "Graph \<Rightarrow> FoldInst \<Rightarrow> ConstantInst \<Rightarrow> ConstantInst \<Rightarrow> Folding \<times> Graph" where
  "ConstFoldingModIntConst g inst cnst0 cnst1 =
     (if IsTypeSigned (itype inst) then
        if IsBytecodeOptimizer g \<and> IsInt32Bit (itype inst) then
          if asInt32 cnst0 = - (2 ^ 31) \<and> asInt32 cnst1 = - 1
          then replaceBy (FindOrCreateConstant g (U32 0))
          else if asInt32 cnst1 = 0 then (Undefined, g)
          else foldInt32 g (itype inst) (asInt32 cnst0 smod asInt32 cnst1)
        else if asInt64 cnst0 = - (2 ^ 63) \<and> asInt64 cnst1 = - 1
        then replaceBy (FindOrCreateConstant g (U64 0))
        else foldInt64 g (itype inst) (asInt64 cnst0 smod asInt64 cnst1)
      else case (ConvertIntToInt (uint (GetIntValue cnst0)) (itype inst),
                 ConvertIntToInt (uint (GetIntValue cnst1)) (itype inst)) of
             (Some a, Some b) \<Rightarrow>
               if b = 0 then (Undefined, g)
               else replaceBy (ConstFoldingCreateIntConst g (itype inst) (a mod b) False)
           | _ \<Rightarrow> (Unreachable, g))"

definition ConstFoldingMod :: "FloatOps \<Rightarrow> Graph \<Rightarrow> FoldInst \<Rightarrow> Folding \<times> Graph" where
  "ConstFoldingMod fo g inst =
     (case (GetDataFlowInput (input0 inst), GetDataFlowInput (input1 inst)) of
        (in0, in1) \<Rightarrow>
          if (case in1 of Constant c \<Rightarrow> \<not> IsFloatType (itype inst) \<and> GetIntValue c = 1 | _ \<Rightarrow> False)
          then replaceBy (ConstFoldingCreateIntConst g (itype inst) 0 False)
          else (case (in0, in1) of
            (Constant cnst0, Constant cnst1) \<Rightarrow>
              if GetCommonType (itype inst) = INT64 then
                if GetIntValue cnst1 = 0 then (Kept, g) else ConstFoldingModIntConst g inst cnst0 cnst1
              else if itype inst = FLOAT32 then
                if f_zero (GetFloatValue cnst1) then (Kept, g)
                else replaceBy (FindOrCreateConstant g (F32 (f_mod fo (GetFloatValue cnst0) (GetFloatValue cnst1))))
              else if itype inst = FLOAT64 then
                if d_zero (GetDoubleValue cnst1) then (Kept, g)
                else replaceBy (FindOrCreateConstant g (F64 (d_mod fo (GetDoubleValue cnst0) (GetDoubleValue cnst1))))
              else (Undefined, g)
          | _ \<Rightarrow> ConstFoldingBinaryMathWithNan g inst))"

section \<open>Shifts and bitwise operations\<close>

definition ConstFoldingShl :: "Graph \<Rightarrow> FoldInst \<Rightarrow> Folding \<times> Graph" where
  "ConstFoldingShl g inst =
     (case (input0 inst, input1 inst, GetTypeSize (ObjectPointerSize g) (itype inst) (GetArch g)) of
        (Constant c0, Constant c1, Some sz) \<Rightarrow>
          (let cnst0 = GetIntValue c0; cnst1 = GetIntValue c1; sizeMask = (of_nat sz - 1 :: u64)
           in if IsBytecodeOptimizer g \<and> IsInt32Bit (itype inst)
              then foldInt32 g (itype inst)
                     (uint (push_bit (unat ((ucast cnst1 :: u32) AND ucast sizeMask)) (ucast cnst0 :: u32)))
              else foldInt64 g (itype inst) (uint (push_bit (unat (cnst1 AND sizeMask)) cnst0)))
      | (Constant c0, Constant c1, None) \<Rightarrow> (Unreachable, g)
      | _ \<Rightarrow> (Kept, g))"

definition ConstFoldingShr :: "Graph \<Rightarrow> FoldInst \<Rightarrow> Folding \<times> Graph" where
  "ConstFoldingShr g inst =
     (case (input0 inst, input1 inst, GetTypeSize (ObjectPointerSize g) (itype inst) (GetArch g)) of
        (Constant c0, Constant c1, Some sz) \<Rightarrow>
          (let cnst1 = GetIntValue c1; sizeMask = (of_nat sz - 1 :: u64);
               typeMask = push_bit (unat (sizeMask + 1)) (1 :: u64) - 1;
               cnst0 = (if sizeMask < 32 then GetIntValue c0 AND typeMask else GetIntValue c0)
           in if IsBytecodeOptimizer g \<and> IsInt32Bit (itype inst)
              then foldInt32 g (itype inst)
                     (uint (drop_bit (unat ((ucast cnst1 :: u32) AND ucast sizeMask)) (ucast cnst0 :: u32)))
              else foldInt64 g (itype inst) (uint (drop_bit (unat (cnst1 AND sizeMask)) cnst0)))
      | (Constant c0, Constant c1, None) \<Rightarrow> (Unreachable, g)
      | _ \<Rightarrow> (Kept, g))"

definition ConstFoldingAShr :: "Graph \<Rightarrow> FoldInst \<Rightarrow> Folding \<times> Graph" where
  "ConstFoldingAShr g inst =
     (case (input0 inst, input1 inst, GetTypeSize (ObjectPointerSize g) (itype inst) (GetArch g)) of
        (Constant c0, Constant c1, Some sz) \<Rightarrow>
          (let cnst1 = GetIntValue c1; sizeMask = (of_nat sz - 1 :: u64)
           in if IsBytecodeOptimizer g \<and> IsInt32Bit (itype inst)
              then foldInt32 g (itype inst)
                     (drop_bit (unat ((ucast cnst1 :: u32) AND ucast sizeMask)) (asInt32 c0))
              else foldInt64 g (itype inst) (drop_bit (unat (cnst1 AND sizeMask)) (asInt64 c0)))
      | (Constant c0, Constant c1, None) \<Rightarrow> (Unreachable, g)
      | _ \<Rightarrow> (Kept, g))"

text \<open>The constant among two inputs of which at most one is a constant.\<close>

fun theConst :: "Inst \<Rightarrow> Inst \<Rightarrow> ConstantInst option" where
  "theConst (Constant c) _ = Some c"
| "theConst _ (Constant c) = Some c"
| "theConst _ _ = None"

definition ConstFoldingAnd :: "Graph \<Rightarrow> FoldInst \<Rightarrow> Folding \<times> Graph" where
  "ConstFoldingAnd g inst =
     (case (input0 inst, input1 inst) of
        (Constant cnst0, Constant cnst1) \<Rightarrow>
          foldInt g (itype inst) (uint (GetIntValue cnst0 AND GetIntValue cnst1))
      | _ \<Rightarrow>
          (case theConst (input0 inst) (input1 inst) of
             Some newCnst \<Rightarrow> if GetIntValue newCnst = 0 then (Replaced (Constant newCnst), g) else (Kept, g)
           | None \<Rightarrow> (Kept, g)))"

definition ConstFoldingOr :: "Graph \<Rightarrow> FoldInst \<Rightarrow> Folding \<times> Graph" where
  "ConstFoldingOr g inst =
     (case (input0 inst, input1 inst) of
        (Constant cnst0, Constant cnst1) \<Rightarrow>
          foldInt g (itype inst) (uint (GetIntValue cnst0 OR GetIntValue cnst1))
      | _ \<Rightarrow>
          (case theConst (input0 inst) (input1 inst) of
             Some newCnst \<Rightarrow> if GetIntValue newCnst = - 1 then (Replaced (Constant newCnst), g) else (Kept, g)
           | None \<Rightarrow> (Kept, g)))"

definition ConstFoldingXor :: "Graph \<Rightarrow> FoldInst \<Rightarrow> Folding \<times> Graph" where
  "ConstFoldingXor g inst =
     (case (input0 inst, input1 inst) of
        (Constant cnst0, Constant cnst1) \<Rightarrow>
          foldInt g (itype inst) (uint (GetIntValue cnst0 XOR GetIntValue cnst1))
      | _ \<Rightarrow>
          if input0 inst = input1 inst then replaceBy (ConstFoldingCreateIntConst g (itype inst) 0 False)
          else (Kept, g))"

section \<open>Comparisons\<close>

definition GetResult_int :: "int \<Rightarrow> int \<Rightarrow> int" where
  "GetResult_int l r = (if l > r then 1 else if l < r then - 1 else 0)"

definition GetResult_float :: "('f \<Rightarrow> 'f \<Rightarrow> bool) \<Rightarrow> ('f \<Rightarrow> bool) \<Rightarrow> bool \<Rightarrow> 'f \<Rightarrow> 'f \<Rightarrow> int" where
  "GetResult_float lt isnan fcmpg l r =
     (if isnan l \<or> isnan r then if fcmpg then 1 else - 1
      else if lt r l then 1 else if lt l r then - 1 else 0)"

definition GetIntResult :: "Graph \<Rightarrow> ConstantInst \<Rightarrow> ConstantInst \<Rightarrow> DataType \<Rightarrow> int option" where
  "GetIntResult g cnst0 cnst1 inputType =
     (case (ConvertIntToInt (uint (GetIntValue cnst0)) inputType, ConvertIntToInt (uint (GetIntValue cnst1)) inputType) of
        (Some l, Some r) \<Rightarrow> Some (
          if IsTypeSigned inputType then
            if IsBytecodeOptimizer g \<and> IsInt32Bit inputType
            then GetResult_int (sint (ucast l :: u32)) (sint (ucast r :: u32))
            else GetResult_int (sint l) (sint r)
          else if IsBytecodeOptimizer g \<and> IsInt32Bit inputType
          then GetResult_int (uint (ucast l :: u32)) (uint (ucast r :: u32))
          else GetResult_int (uint l) (uint r))
      | _ \<Rightarrow> None)"

definition ConstFoldingCmpFloatNan :: "Graph \<Rightarrow> FoldInst \<Rightarrow> Folding \<times> Graph" where
  "ConstFoldingCmpFloatNan g inst =
     (if \<not> IsConst_inst (input0 inst) \<and> \<not> IsConst_inst (input1 inst) then (Kept, g)
      else if \<not> IsFloatType (GetInputType inst) then (Kept, g)
      else (case (if IsConst_inst (input0 inst) then input0 inst else input1 inst) of
              Constant c \<Rightarrow>
                if \<not> IsNaNConst c then (Kept, g)
                else replaceBy (ConstFoldingCreateIntConst g (itype inst) (if IsFcmpg inst then 1 else - 1) False)
            | _ \<Rightarrow> (Kept, g)))"

definition ConstFoldingCmp :: "FloatOps \<Rightarrow> Graph \<Rightarrow> FoldInst \<Rightarrow> Folding \<times> Graph" where
  "ConstFoldingCmp fo g inst =
     (case ConstFoldingCmpFloatNan g inst of
        (Replaced i, g') \<Rightarrow> (Replaced i, g')
      | _ \<Rightarrow>
        (case (input0 inst, input1 inst) of
           (Constant cnst0, Constant cnst1) \<Rightarrow>
             (let t = GetCommonType (GetInputType inst);
                  result = (if t = INT64 then GetIntResult g cnst0 cnst1 (GetInputType inst)
                            else if t = FLOAT32 then
                              Some (GetResult_float (f_less fo) isnan32 (IsFcmpg inst) (GetFloatValue cnst0) (GetFloatValue cnst1))
                            else if t = FLOAT64 then
                              Some (GetResult_float (d_less fo) isnan64 (IsFcmpg inst) (GetDoubleValue cnst0) (GetDoubleValue cnst1))
                            else Some 0)
              in case result of
                   None \<Rightarrow> (Unreachable, g)
                 | Some r \<Rightarrow> replaceBy (FindOrCreateConstant g
                     (if IsBytecodeOptimizer g then I32 (word_of_int r) else U64 (word_of_int r))))
         | _ \<Rightarrow>
             if input0 inst = input1 inst \<and> GetCommonType (GetInputType inst) = INT64
             then replaceBy (ConstFoldingCreateIntConst g (itype inst) 0 False)
             else (Kept, g)))"

definition ConstFoldingCompareCreateConst :: "Graph \<Rightarrow> DataType \<Rightarrow> bool \<Rightarrow> ConstantInst \<times> Graph" where
  "ConstFoldingCompareCreateConst g instType v =
     (if IsBytecodeOptimizer g \<and> IsInt32Bit instType
      then FindOrCreateConstant g (U32 (of_bool v)) else FindOrCreateConstant g (U64 (of_bool v)))"

fun ConstFoldingCompareCreateNewConst :: "ConditionCode \<Rightarrow> u64 \<Rightarrow> u64 \<Rightarrow> bool" where
  "ConstFoldingCompareCreateNewConst CC_EQ v0 v1 = (v0 = v1)"
| "ConstFoldingCompareCreateNewConst CC_NE v0 v1 = (v0 \<noteq> v1)"
| "ConstFoldingCompareCreateNewConst CC_LT v0 v1 = (sint v0 < sint v1)"
| "ConstFoldingCompareCreateNewConst CC_B v0 v1 = (v0 < v1)"
| "ConstFoldingCompareCreateNewConst CC_LE v0 v1 = (sint v0 \<le> sint v1)"
| "ConstFoldingCompareCreateNewConst CC_BE v0 v1 = (v0 \<le> v1)"
| "ConstFoldingCompareCreateNewConst CC_GT v0 v1 = (sint v0 > sint v1)"
| "ConstFoldingCompareCreateNewConst CC_A v0 v1 = (v0 > v1)"
| "ConstFoldingCompareCreateNewConst CC_GE v0 v1 = (sint v0 \<ge> sint v1)"
| "ConstFoldingCompareCreateNewConst CC_AE v0 v1 = (v0 \<ge> v1)"
| "ConstFoldingCompareCreateNewConst CC_TST_EQ v0 v1 = (v0 AND v1 = 0)"
| "ConstFoldingCompareCreateNewConst CC_TST_NE v0 v1 = (v0 AND v1 \<noteq> 0)"

definition ConstFoldingCompareEqualInputs :: "Graph \<Rightarrow> FoldInst \<Rightarrow> Folding \<times> Graph" where
  "ConstFoldingCompareEqualInputs g inst =
     (if input0 inst \<noteq> input1 inst then (Kept, g)
      else let commonType = GetCommonType (InstType (input0 inst));
               cc = GetCc inst
           in if cc \<in> {CC_EQ, CC_LE, CC_GE, CC_BE, CC_AE} then
                if commonType = INT64 \<or> commonType = POINTER
                then replaceBy (ConstFoldingCreateIntConst g (itype inst) 1 False) else (Kept, g)
              else if cc = CC_NE then
                if commonType = INT64 \<or> commonType = POINTER
                then replaceBy (ConstFoldingCreateIntConst g (itype inst) 0 False) else (Kept, g)
              else if cc \<in> {CC_LT, CC_GT, CC_B, CC_A}
              then replaceBy (ConstFoldingCreateIntConst g (itype inst) 0 False)
              else (Kept, g))"

fun IsUniqueRef :: "Inst \<Rightarrow> bool" where
  "IsUniqueRef (Allocation n) = True"
| "IsUniqueRef NullPtr = True"
| "IsUniqueRef (LoadUniqueObject n) = True"
| "IsUniqueRef _ = False"

definition ConstFoldingCompareFloatNan :: "Graph \<Rightarrow> FoldInst \<Rightarrow> Folding \<times> Graph" where
  "ConstFoldingCompareFloatNan g inst =
     (if \<not> IsConst_inst (input0 inst) \<and> \<not> IsConst_inst (input1 inst) then (Kept, g)
      else (case (if IsConst_inst (input0 inst) then input0 inst else input1 inst) of
              Constant c \<Rightarrow>
                if \<not> IsNaNConst c then (Kept, g)
                else if GetCc inst = CC_NE then replaceBy (ConstFoldingCompareCreateConst g (itype inst) True)
                else if GetCc inst \<in> {CC_EQ, CC_LT, CC_LE, CC_GT, CC_GE}
                then replaceBy (ConstFoldingCompareCreateConst g (itype inst) False)
                else (Unreachable, g)
            | _ \<Rightarrow> (Kept, g)))"

definition ConstFoldingCompareIntConstant :: "Graph \<Rightarrow> FoldInst \<Rightarrow> Folding \<times> Graph" where
  "ConstFoldingCompareIntConstant g inst =
     (case (input0 inst, input1 inst) of
        (Constant cnst0, Constant cnst1) \<Rightarrow>
          if GetCommonType (GetInputType inst) = INT64 then
            (case (ConvertIntToInt (uint (GetIntValue cnst0)) (GetInputType inst),
                   ConvertIntToInt (uint (GetIntValue cnst1)) (GetInputType inst)) of
               (Some v0, Some v1) \<Rightarrow>
                 replaceBy (ConstFoldingCompareCreateConst g (itype inst)
                   (ConstFoldingCompareCreateNewConst (GetCc inst) v0 v1))
             | _ \<Rightarrow> (Unreachable, g))
          else (Kept, g)
      | _ \<Rightarrow> (Kept, g))"

fun IsZeroConstantOrNullPtr :: "Inst \<Rightarrow> bool" where
  "IsZeroConstantOrNullPtr (Constant c) \<longleftrightarrow> GetType c = INT64 \<and> GetIntValue c = 0"
| "IsZeroConstantOrNullPtr NullPtr \<longleftrightarrow> True"
| "IsZeroConstantOrNullPtr _ \<longleftrightarrow> False"

definition ConstFoldingCompare :: "Graph \<Rightarrow> FoldInst \<Rightarrow> Folding \<times> Graph" where
  "ConstFoldingCompare g inst =
     (case (if IsFloatType (GetInputType inst) then ConstFoldingCompareFloatNan g inst
            else ConstFoldingCompareIntConstant g inst) of
        (Kept, _) \<Rightarrow>
          (case (input0 inst, input1 inst) of
             (LoadImmediate class0 _ _, LoadImmediate class1 _ _) \<Rightarrow>
               replaceBy (ConstFoldingCompareCreateConst g (itype inst) ((class0 = class1) = (GetCc inst = CC_EQ)))
           | _ \<Rightarrow>
             if IsZeroConstantOrNullPtr (input0 inst) \<and> IsZeroConstantOrNullPtr (input1 inst)
             then replaceBy (ConstFoldingCompareCreateConst g (itype inst) (GetCc inst = CC_EQ))
             else (case ConstFoldingCompareEqualInputs g inst of
                     (Kept, _) \<Rightarrow>
                       if GetInputType inst = REFERENCE \<and> IsUniqueRef (input0 inst) \<and> IsUniqueRef (input1 inst)
                       then replaceBy (ConstFoldingCompareCreateConst g (itype inst) (GetCc inst = CC_NE))
                       else (Kept, g)
                   | r \<Rightarrow> r))
      | r \<Rightarrow> r)"

section \<open>Static fields\<close>

definition ConstFoldingLoadStatic :: "FloatOps \<Rightarrow> Runtime \<Rightarrow> Graph \<Rightarrow> DataType \<Rightarrow> nat \<Rightarrow> Folding \<times> Graph" where
  "ConstFoldingLoadStatic fo rt g instType field =
     (if GetCommonType instType \<noteq> INT64 \<and> \<not> IsFloatType instType then (Kept, g)
      else if IsFieldReadonly rt field \<and> IsClassInitialized rt (GetClassForField rt field) then
        if IsFloatType instType then
          if instType = FLOAT32
          then replaceBy (FindOrCreateConstant g (F32 (f_of_d fo (GetStaticFieldFloatValue rt field))))
          else replaceBy (FindOrCreateConstant g (F64 (GetStaticFieldFloatValue rt field)))
        else foldInt64 g instType (uint (GetStaticFieldIntegerValue rt field))
      else (Kept, g))"

end
