(* ===== verification/Interpreter.thy ===== *)
theory Interpreter
  imports Const_Folding "HOL-Library.Monad_Syntax"
begin

text \<open>
  The bytecode interpreter for statically typed methods (\<^verbatim>\<open>runtime/interpreter\<close>): virtual registers with
  their tags (\<^verbatim>\<open>vregister.h\<close>, \<^verbatim>\<open>acc_vregister.h\<close>), arithmetic (\<^verbatim>\<open>math_helpers.h\<close>), branch
  profiling (\<^verbatim>\<open>jit/profiling_data.h\<close>), control flow (\<^verbatim>\<open>instruction_handler_base.h\<close>) and the instruction
  handlers of \<^verbatim>\<open>interpreter-inl.h\<close> for moves, jumps, arithmetic, conversions, arrays, returns and throws.
  A handler takes the decoded operands of the instruction and the state, and returns the new state, or
  \<open>None\<close> where the C++ code has undefined behaviour: a register number outside the frame, signed
  overflow, a reference that is not in the heap. The record \<open>Env\<close> stands for the thread, the collector,
  the just-in-time compiler and the class hierarchy behind the runtime interface, and for floating point
  arithmetic.
\<close>

section \<open>Virtual registers\<close>

record VReg =
  payload :: u64
  mirror :: u64

definition GC_OBJECT_TYPE :: u64 where "GC_OBJECT_TYPE = 1"
definition PRIMITIVE_TYPE :: u64 where "PRIMITIVE_TYPE = 0"

definition HasObject :: "VReg \<Rightarrow> bool" where "HasObject r \<longleftrightarrow> mirror r = GC_OBJECT_TYPE"

text \<open>\<open>GetAs\<close> for the integral types and for the bit patterns of the floating point types; a reference
  is stored in 32 bits.\<close>

definition GetAs :: "VReg \<Rightarrow> 'a::len word" where "GetAs r = ucast (payload r)"
definition GetInt :: "VReg \<Rightarrow> int" where "GetInt r = sint (GetAs r :: u32)"
definition GetReference :: "VReg \<Rightarrow> u32" where "GetReference r = GetAs r"

text \<open>The overloads of \<open>Set\<close>: what is stored for a value of each type. Narrower integral types are
  promoted to \<open>int32_t\<close>.\<close>

definition Set_int8 :: "8 word \<Rightarrow> u64" where "Set_int8 v = scast v"
definition Set_uint8 :: "8 word \<Rightarrow> u64" where "Set_uint8 v = ucast v"
definition Set_int16 :: "16 word \<Rightarrow> u64" where "Set_int16 v = scast v"
definition Set_uint16 :: "16 word \<Rightarrow> u64" where "Set_uint16 v = ucast v"
definition Set_bool :: "bool \<Rightarrow> u64" where "Set_bool v = of_bool v"
definition Set_int32 :: "u32 \<Rightarrow> u64" where "Set_int32 v = scast v"
definition Set_uint32 :: "u32 \<Rightarrow> u64" where "Set_uint32 v = ucast v"
definition Set_int64 :: "u64 \<Rightarrow> u64" where "Set_int64 v = v"
definition Set_uint64 :: "u64 \<Rightarrow> u64" where "Set_uint64 v = v"
definition Set_float :: "u32 \<Rightarrow> u64" where "Set_float v = scast v"
definition Set_double :: "u64 \<Rightarrow> u64" where "Set_double v = v"
definition Set_reference :: "u32 \<Rightarrow> u64" where "Set_reference v = scast v"

text \<open>Operations on a register together with its tag. \<open>SetValue\<close> leaves the tag.\<close>

definition SetValue :: "u64 \<Rightarrow> VReg \<Rightarrow> VReg" where "SetValue v r = r\<lparr>payload := v\<rparr>"
definition SetPrimitive :: "u64 \<Rightarrow> VReg" where "SetPrimitive v = \<lparr>payload = v, mirror = PRIMITIVE_TYPE\<rparr>"
definition SetReference :: "u32 \<Rightarrow> VReg" where "SetReference obj = \<lparr>payload = Set_reference obj, mirror = GC_OBJECT_TYPE\<rparr>"
definition MovePrimitive :: "VReg \<Rightarrow> VReg" where "MovePrimitive other = \<lparr>payload = payload other, mirror = PRIMITIVE_TYPE\<rparr>"
definition MoveReference :: "VReg \<Rightarrow> VReg" where "MoveReference other = \<lparr>payload = payload other, mirror = GC_OBJECT_TYPE\<rparr>"
definition Move :: "VReg \<Rightarrow> VReg" where "Move other = \<lparr>payload = payload other, mirror = mirror other\<rparr>"

section \<open>Arithmetic\<close>

definition bit_shl :: "'a::len word \<Rightarrow> 'a word \<Rightarrow> 'a word" where
  "bit_shl x y = push_bit (unat (y AND of_nat (LENGTH('a) - 1))) x"

definition bit_shr :: "'a::len word \<Rightarrow> 'a word \<Rightarrow> 'a word" where
  "bit_shr x y = drop_bit (unat (y AND of_nat (LENGTH('a) - 1))) x"

definition bit_ashr :: "'a::len word \<Rightarrow> 'a word \<Rightarrow> 'a word" where
  "bit_ashr x y = signed_drop_bit (unat (y AND of_nat (LENGTH('a) - 1))) x"

definition cmp_signed :: "'a::len word \<Rightarrow> 'a word \<Rightarrow> u32" where
  "cmp_signed x y = (if sint x > sint y then 1 else if x = y then 0 else - 1)"

definition cmp_unsigned :: "'a::len word \<Rightarrow> 'a word \<Rightarrow> u32" where
  "cmp_unsigned x y = (if x > y then 1 else if x = y then 0 else - 1)"

text \<open>Floating point comparisons over \<open>operator<\<close> and the NaN test; \<open>x == y\<close> means that neither is
  NaN and neither is smaller.\<close>

definition fcmpl :: "('f \<Rightarrow> 'f \<Rightarrow> bool) \<Rightarrow> ('f \<Rightarrow> bool) \<Rightarrow> 'f \<Rightarrow> 'f \<Rightarrow> u32" where
  "fcmpl lt isnan x y =
     (if lt y x then 1
      else if \<not> isnan x \<and> \<not> isnan y \<and> \<not> lt x y \<and> \<not> lt y x then 0
      else - 1)"

definition fcmpg :: "('f \<Rightarrow> 'f \<Rightarrow> bool) \<Rightarrow> ('f \<Rightarrow> bool) \<Rightarrow> 'f \<Rightarrow> 'f \<Rightarrow> u32" where
  "fcmpg lt isnan x y =
     (if lt x y then - 1
      else if \<not> isnan x \<and> \<not> isnan y \<and> \<not> lt x y \<and> \<not> lt y x then 0
      else 1)"

definition idivides_signed :: "'a::len word \<Rightarrow> 'a word \<Rightarrow> 'a word" where
  "idivides_signed x y =
     (if sint x = - (2 ^ (LENGTH('a) - 1)) \<and> y = - 1 then x else word_of_int (sint x sdiv sint y))"

definition idivides_unsigned :: "'a::len word \<Rightarrow> 'a word \<Rightarrow> 'a word" where
  "idivides_unsigned x y = x div y"

definition imodulus_signed :: "'a::len word \<Rightarrow> 'a word \<Rightarrow> 'a word" where
  "imodulus_signed x y =
     (if sint x = - (2 ^ (LENGTH('a) - 1)) \<and> y = - 1 then 0 else word_of_int (sint x smod sint y))"

definition imodulus_unsigned :: "'a::len word \<Rightarrow> 'a word \<Rightarrow> 'a word" where
  "imodulus_unsigned x y = x mod y"

definition Plus :: "'a::len word \<Rightarrow> 'a word \<Rightarrow> 'a word" where "Plus a b = a + b"
definition Minus :: "'a::len word \<Rightarrow> 'a word \<Rightarrow> 'a word" where "Minus a b = a - b"
definition Multiplies :: "'a::len word \<Rightarrow> 'a word \<Rightarrow> 'a word" where "Multiplies a b = a * b"

text \<open>\<open>std::negate\<close> of the least value is a signed overflow.\<close>

definition negate_signed :: "'a::len word \<Rightarrow> 'a word option" where
  "negate_signed x = (if sint x = - (2 ^ (LENGTH('a) - 1)) then None else Some (- x))"

text \<open>\<open>CastFloatToInt\<close> for a target type with the given limits, over the operations of the floating
  point type.\<close>

definition CastFloatToInt ::
  "('f \<Rightarrow> 'f \<Rightarrow> bool) \<Rightarrow> ('f \<Rightarrow> bool) \<Rightarrow> (int \<Rightarrow> 'f) \<Rightarrow> ('f \<Rightarrow> int) \<Rightarrow> int \<Rightarrow> int \<Rightarrow> 'f \<Rightarrow> 'a::len word" where
  "CastFloatToInt lt isnan of_i trunc MIN_INT MAX_INT v =
     word_of_int (if lt (of_i MIN_INT) v then if lt v (of_i MAX_INT) then trunc v else MAX_INT
                  else if isnan v then 0
                  else MIN_INT)"

section \<open>Branch and throw profiles\<close>

record BranchData =
  br_pc :: nat
  takenCounter :: u64
  notTakenCounter :: u64

record ThrowData =
  thr_pc :: nat
  throwCounter :: u64

record ProfilingData =
  branchProfilingEnabled :: bool
  branchData :: "BranchData list"
  throwData :: "ThrowData list"
  isUpdated :: bool

text \<open>\<open>std::lower_bound\<close> in a list sorted by \<open>pc\<close>: the position of the first entry that is not
  smaller.\<close>

definition lower_bound :: "('e \<Rightarrow> nat) \<Rightarrow> nat \<Rightarrow> 'e list \<Rightarrow> nat" where
  "lower_bound key from_pc es = length (takeWhile (\<lambda>e. key e < from_pc) es)"

definition FindBranchData :: "ProfilingData \<Rightarrow> nat \<Rightarrow> nat option" where
  "FindBranchData p fromPc =
     (let it = lower_bound br_pc fromPc (branchData p)
      in if it = length (branchData p) \<or> br_pc (branchData p ! it) \<noteq> fromPc then None else Some it)"

definition FindThrowData :: "ProfilingData \<Rightarrow> nat \<Rightarrow> nat option" where
  "FindThrowData p fromPc =
     (if throwData p = [] then None
      else let it = lower_bound thr_pc fromPc (throwData p)
           in if it = length (throwData p) \<or> thr_pc (throwData p ! it) \<noteq> fromPc then None else Some it)"

definition UpdateBranchTaken :: "nat \<Rightarrow> ProfilingData \<Rightarrow> ProfilingData" where
  "UpdateBranchTaken from_pc p =
     (case FindBranchData p from_pc of
        None \<Rightarrow> p
      | Some k \<Rightarrow> p\<lparr>branchData := (branchData p)[k := (branchData p ! k)\<lparr>takenCounter := takenCounter (branchData p ! k) + 1\<rparr>],
                    isUpdated := True\<rparr>)"

definition UpdateBranchNotTaken :: "nat \<Rightarrow> ProfilingData \<Rightarrow> ProfilingData" where
  "UpdateBranchNotTaken from_pc p =
     (case FindBranchData p from_pc of
        None \<Rightarrow> p
      | Some k \<Rightarrow> p\<lparr>branchData := (branchData p)[k := (branchData p ! k)\<lparr>notTakenCounter := notTakenCounter (branchData p ! k) + 1\<rparr>],
                    isUpdated := True\<rparr>)"

definition GetBranchTakenCounter :: "ProfilingData \<Rightarrow> nat \<Rightarrow> u64" where
  "GetBranchTakenCounter p from_pc =
     (case FindBranchData p from_pc of None \<Rightarrow> 0 | Some k \<Rightarrow> takenCounter (branchData p ! k))"

definition GetBranchNotTakenCounter :: "ProfilingData \<Rightarrow> nat \<Rightarrow> u64" where
  "GetBranchNotTakenCounter p from_pc =
     (case FindBranchData p from_pc of None \<Rightarrow> 0 | Some k \<Rightarrow> notTakenCounter (branchData p ! k))"

text \<open>A throw without an entry is excluded by an assertion.\<close>

definition UpdateThrowTaken :: "nat \<Rightarrow> ProfilingData \<Rightarrow> ProfilingData option" where
  "UpdateThrowTaken from_pc p =
     (case FindThrowData p from_pc of
        None \<Rightarrow> None
      | Some k \<Rightarrow> Some (p\<lparr>throwData := (throwData p)[k := (throwData p ! k)\<lparr>throwCounter := throwCounter (throwData p ! k) + 1\<rparr>],
                          isUpdated := True\<rparr>))"

section \<open>The state of the interpreter\<close>

datatype Exn = ArithmeticException | NullPointerException | ArrayIndexOutOfBoundsException int u32
  | ArrayStoreException u32 u32 | ThrownException u32

text \<open>An array is the list of its elements, each as a bit pattern, and whether they are references.\<close>

record ArrayObj =
  ref_array :: bool
  elements :: "u64 list"

record Interp =
  vregs :: "VReg list"
  acc :: VReg
  frame_acc :: VReg
  bytecode_offset :: nat
  fake_return :: bool
  opcodeExtension :: u16
  exception :: "Exn option"
  heap :: "u32 \<Rightarrow> ArrayObj option"
  profData :: "ProfilingData option"

text \<open>The decoded operands of an instruction.\<close>

record BytecodeInst =
  inst_size :: nat
  primary_opcode :: u8
  vreg0 :: nat
  vreg1 :: nat
  imm :: int

record Env =
  NUM_PREFIXED :: nat
  TestAllFlags :: "Interp \<Rightarrow> bool"
  Safepoint :: "Interp \<Rightarrow> Interp"
  UpdateHotnessOSR :: "Interp \<Rightarrow> int \<Rightarrow> bool"
  IsInstanceOfComponent :: "u32 \<Rightarrow> u32 \<Rightarrow> bool"
  fops :: FloatOps

type_synonym handler = "Env \<Rightarrow> BytecodeInst \<Rightarrow> Interp \<Rightarrow> Interp option"

definition GetVReg :: "Interp \<Rightarrow> nat \<Rightarrow> VReg option" where "GetVReg s k = nth_opt (vregs s) k"

definition PutVReg :: "nat \<Rightarrow> VReg \<Rightarrow> Interp \<Rightarrow> Interp option" where
  "PutVReg k r s = (if k < length (vregs s) then Some (s\<lparr>vregs := (vregs s)[k := r]\<rparr>) else None)"

definition MoveToNextInst :: "bool \<Rightarrow> BytecodeInst \<Rightarrow> Interp \<Rightarrow> Interp" where
  "MoveToNextInst canThrow i s =
     s\<lparr>bytecode_offset := bytecode_offset s + inst_size i,
       opcodeExtension := (if canThrow then 0 else opcodeExtension s)\<rparr>"

text \<open>A jump in front of the method's code has no defined target.\<close>

definition JumpToInst :: "int \<Rightarrow> Interp \<Rightarrow> Interp option" where
  "JumpToInst offset s =
     (if int (bytecode_offset s) + offset < 0 then None
      else Some (s\<lparr>bytecode_offset := nat (int (bytecode_offset s) + offset)\<rparr>))"

definition MoveToExceptionHandler :: "Env \<Rightarrow> BytecodeInst \<Rightarrow> Interp \<Rightarrow> Interp" where
  "MoveToExceptionHandler env i s =
     (let s1 = s\<lparr>opcodeExtension := of_nat (255 + NUM_PREFIXED env + 1)\<rparr>
      in s1\<lparr>opcodeExtension := opcodeExtension s1 - ucast (primary_opcode i)\<rparr>)"

definition GetExceptionOpcode :: "BytecodeInst \<Rightarrow> Interp \<Rightarrow> u16" where
  "GetExceptionOpcode i s = ucast (primary_opcode i) + opcodeExtension s"

definition UpdateBranchStatistics :: "bool \<Rightarrow> Interp \<Rightarrow> Interp" where
  "UpdateBranchStatistics taken s =
     (case profData s of
        Some p \<Rightarrow>
          if branchProfilingEnabled p
          then s\<lparr>profData := Some (if taken then UpdateBranchTaken (bytecode_offset s) p else UpdateBranchNotTaken (bytecode_offset s) p)\<rparr>
          else s
      | None \<Rightarrow> s)"

definition UpdateThrowStatistics :: "Interp \<Rightarrow> Interp option" where
  "UpdateThrowStatistics s =
     (case profData s of
        None \<Rightarrow> Some s
      | Some p \<Rightarrow> map_option (\<lambda>p'. s\<lparr>profData := Some p'\<rparr>) (UpdateThrowTaken (bytecode_offset s) p))"

text \<open>On a branch backwards the thread may stop at a safepoint, with the accumulator kept in the frame,
  and compiled code may take over (on-stack replacement), which leaves a fake return instruction. What the
  compiled code does to the accumulator and the heap is not modelled: the state is the one the interpreter
  hands over, and the interpreter executes no further instruction of the method.\<close>

definition InstrumentBranches :: "Env \<Rightarrow> int \<Rightarrow> Interp \<Rightarrow> bool \<times> Interp" where
  "InstrumentBranches env offset s =
     (if offset > 0 then (False, s)
      else let s1 = (if TestAllFlags env s
                     then let t = Safepoint env (s\<lparr>frame_acc := acc s\<rparr>) in t\<lparr>acc := frame_acc t\<rparr>
                     else s)
           in if UpdateHotnessOSR env s1 offset then (True, s1\<lparr>fake_return := True\<rparr>) else (False, s1))"

section \<open>Shared handler bodies\<close>

definition HandleBranch :: "Env \<Rightarrow> BytecodeInst \<Rightarrow> bool \<Rightarrow> Interp \<Rightarrow> Interp option" where
  "HandleBranch env i taken s =
     (if taken then
        (case InstrumentBranches env (imm i) (UpdateBranchStatistics True s) of
           (True, s') \<Rightarrow> Some s'
         | (False, s') \<Rightarrow> JumpToInst (imm i) s')
      else Some (MoveToNextInst False i (UpdateBranchStatistics False s)))"

definition HandleCondJmpz :: "(int \<Rightarrow> int \<Rightarrow> bool) \<Rightarrow> handler" where
  "HandleCondJmpz Op env i s = HandleBranch env i (Op (GetInt (acc s)) 0) s"

definition HandleCondJmp :: "(int \<Rightarrow> int \<Rightarrow> bool) \<Rightarrow> handler" where
  "HandleCondJmp Op env i s = do {
     r \<leftarrow> GetVReg s (vreg0 i);
     HandleBranch env i (Op (GetInt (acc s)) (GetInt r)) s }"

definition HandleCondJmpzObj :: "(u32 \<Rightarrow> u32 \<Rightarrow> bool) \<Rightarrow> handler" where
  "HandleCondJmpzObj Op env i s = HandleBranch env i (Op (GetReference (acc s)) 0) s"

definition HandleCondJmpObj :: "(u32 \<Rightarrow> u32 \<Rightarrow> bool) \<Rightarrow> handler" where
  "HandleCondJmpObj Op env i s = do {
     r \<leftarrow> GetVReg s (vreg0 i);
     HandleBranch env i (Op (GetReference (acc s)) (GetReference r)) s }"

definition ThrowTo :: "Exn \<Rightarrow> Env \<Rightarrow> BytecodeInst \<Rightarrow> Interp \<Rightarrow> Interp" where
  "ThrowTo e env i s = MoveToExceptionHandler env i (s\<lparr>exception := Some e\<rparr>)"

text \<open>The binary operations: \<open>isDiv\<close> is the template parameter, \<open>setv\<close> the overload of \<open>Set\<close> for the
  result and \<open>Op\<close> the operation on the words the operands are read as.\<close>

definition HandleBinaryOp2Imm :: "bool \<Rightarrow> ('r \<Rightarrow> u64) \<Rightarrow> ('a::len word \<Rightarrow> 'a word \<Rightarrow> 'r) \<Rightarrow> handler" where
  "HandleBinaryOp2Imm isDiv setv Op env i s =
     (let v1 = GetAs (acc s); v2 = word_of_int (imm i)
      in if isDiv \<and> v2 = 0 then Some (ThrowTo ArithmeticException env i s)
         else Some (MoveToNextInst isDiv i (s\<lparr>acc := SetValue (setv (Op v1 v2)) (acc s)\<rparr>)))"

definition HandleBinaryOpImmV :: "bool \<Rightarrow> ('r \<Rightarrow> u64) \<Rightarrow> ('a::len word \<Rightarrow> 'a word \<Rightarrow> 'r) \<Rightarrow> handler" where
  "HandleBinaryOpImmV isDiv setv Op env i s = do {
     r \<leftarrow> GetVReg s (vreg1 i);
     let v = GetAs r; im = word_of_int (imm i) in
     if isDiv \<and> im = 0 then Some (ThrowTo ArithmeticException env i s)
     else map_option (MoveToNextInst isDiv i) (PutVReg (vreg0 i) (SetPrimitive (setv (Op v im))) s) }"

definition HandleBinaryOp2 :: "bool \<Rightarrow> ('r \<Rightarrow> u64) \<Rightarrow> ('a::len word \<Rightarrow> 'a word \<Rightarrow> 'r) \<Rightarrow> handler" where
  "HandleBinaryOp2 isDiv setv Op env i s = do {
     r \<leftarrow> GetVReg s (vreg0 i);
     let v1 = GetAs (acc s); v2 = GetAs r in
     if isDiv \<and> v2 = 0 then Some (ThrowTo ArithmeticException env i s)
     else Some (MoveToNextInst isDiv i (s\<lparr>acc := SetValue (setv (Op v1 v2)) (acc s)\<rparr>)) }"

definition HandleBinaryOp2V :: "bool \<Rightarrow> ('r \<Rightarrow> u64) \<Rightarrow> ('a::len word \<Rightarrow> 'a word \<Rightarrow> 'r) \<Rightarrow> handler" where
  "HandleBinaryOp2V isDiv setv Op env i s = do {
     r \<leftarrow> GetVReg s (vreg1 i);
     let v1 = GetAs (acc s); v2 = GetAs r in
     if isDiv \<and> v2 = 0 then Some (ThrowTo ArithmeticException env i s)
     else map_option (MoveToNextInst isDiv i) (PutVReg (vreg0 i) (SetPrimitive (setv (Op v1 v2))) s) }"

definition HandleBinaryOp :: "bool \<Rightarrow> ('r \<Rightarrow> u64) \<Rightarrow> ('a::len word \<Rightarrow> 'a word \<Rightarrow> 'r) \<Rightarrow> handler" where
  "HandleBinaryOp isDiv setv Op env i s = do {
     r1 \<leftarrow> GetVReg s (vreg0 i);
     r2 \<leftarrow> GetVReg s (vreg1 i);
     let v1 = GetAs r1; v2 = GetAs r2 in
     if isDiv \<and> v2 = 0 then Some (ThrowTo ArithmeticException env i s)
     else Some (MoveToNextInst isDiv i (s\<lparr>acc := SetPrimitive (setv (Op v1 v2))\<rparr>)) }"

definition HandleBinaryOpV :: "bool \<Rightarrow> ('r \<Rightarrow> u64) \<Rightarrow> ('a::len word \<Rightarrow> 'a word \<Rightarrow> 'r) \<Rightarrow> handler" where
  "HandleBinaryOpV isDiv setv Op env i s = do {
     r1 \<leftarrow> GetVReg s (vreg0 i);
     r2 \<leftarrow> GetVReg s (vreg1 i);
     let v1 = GetAs r1; v2 = GetAs r2 in
     if isDiv \<and> v2 = 0 then Some (ThrowTo ArithmeticException env i s)
     else map_option (MoveToNextInst isDiv i) (PutVReg (vreg0 i) (SetPrimitive (setv (Op v1 v2))) s) }"

definition HandleUnaryOp :: "('r \<Rightarrow> u64) \<Rightarrow> ('a::len word \<Rightarrow> 'r option) \<Rightarrow> handler" where
  "HandleUnaryOp setv Op env i s = do {
     v \<leftarrow> Op (GetAs (acc s));
     Some (MoveToNextInst False i (s\<lparr>acc := SetValue (setv v) (acc s)\<rparr>)) }"

definition HandleConversion :: "('r \<Rightarrow> u64) \<Rightarrow> ('a::len word \<Rightarrow> 'r) \<Rightarrow> handler" where
  "HandleConversion setv cast env i s =
     Some (MoveToNextInst False i (s\<lparr>acc := SetValue (setv (cast (GetAs (acc s)))) (acc s)\<rparr>))"

definition HandleFloatToIntConversion :: "('r \<Rightarrow> u64) \<Rightarrow> ('a::len word \<Rightarrow> 'r) \<Rightarrow> handler" where
  "HandleFloatToIntConversion setv cast env i s =
     Some (MoveToNextInst False i (s\<lparr>acc := SetValue (setv (cast (GetAs (acc s)))) (acc s)\<rparr>))"

text \<open>The checks before an array access: the exception to throw, if any.\<close>

definition CheckLoadArrayOp :: "Interp \<Rightarrow> u32 \<Rightarrow> int \<Rightarrow> (Exn + ArrayObj) option" where
  "CheckLoadArrayOp s array idx =
     (if array = 0 then Some (Inl NullPointerException)
      else case heap s array of
             None \<Rightarrow> None
           | Some a \<Rightarrow> Some (if idx < 0 \<or> idx \<ge> int (length (elements a))
                             then Inl (ArrayIndexOutOfBoundsException idx (of_nat (length (elements a))))
                             else Inr a))"

definition CheckStoreArrayOp :: "Env \<Rightarrow> bool \<Rightarrow> Interp \<Rightarrow> u32 \<Rightarrow> int \<Rightarrow> u32 \<Rightarrow> (Exn + ArrayObj) option" where
  "CheckStoreArrayOp env isObj s array idx elem =
     (if array = 0 then Some (Inl NullPointerException)
      else case heap s array of
             None \<Rightarrow> None
           | Some a \<Rightarrow> Some (if idx < 0 \<or> idx \<ge> int (length (elements a))
                             then Inl (ArrayIndexOutOfBoundsException idx (of_nat (length (elements a))))
                             else if isObj \<and> elem \<noteq> 0 \<and> \<not> IsInstanceOfComponent env elem array
                             then Inl (ArrayStoreException array elem)
                             else Inr a))"

definition HandleArrayPrimitiveLoad :: "('a::len word \<Rightarrow> u64) \<Rightarrow> handler" where
  "HandleArrayPrimitiveLoad setv env i s = do {
     r \<leftarrow> GetVReg s (vreg0 i);
     let idx = GetInt (acc s) in do {
       chk \<leftarrow> CheckLoadArrayOp s (GetReference r) idx;
       Some (case chk of
               Inr a \<Rightarrow> MoveToNextInst True i (s\<lparr>acc := SetValue (setv (ucast (elements a ! nat idx))) (acc s)\<rparr>)
             | Inl e \<Rightarrow> ThrowTo e env i s) } }"

definition HandleArrayStore :: "bool \<Rightarrow> ('a::len word \<Rightarrow> u64) \<Rightarrow> handler" where
  "HandleArrayStore isObj store env i s = do {
     r1 \<leftarrow> GetVReg s (vreg0 i);
     r2 \<leftarrow> GetVReg s (vreg1 i);
     let array = GetReference r1; idx = GetInt r2; elem = GetAs (acc s) in do {
       chk \<leftarrow> CheckStoreArrayOp env isObj s array idx (ucast elem);
       Some (case chk of
               Inr a \<Rightarrow> MoveToNextInst True i
                 (s\<lparr>heap := (heap s)(array \<mapsto> a\<lparr>elements := (elements a)[nat idx := store elem]\<rparr>)\<rparr>)
             | Inl e \<Rightarrow> ThrowTo e env i s) } }"

section \<open>Handlers: moves, loads and stores of the accumulator\<close>

definition HandleNop :: handler where
  "HandleNop env i s = Some (MoveToNextInst False i s)"

definition HandleMov :: handler where
  "HandleMov env i s = do {
     r \<leftarrow> GetVReg s (vreg1 i);
     map_option (MoveToNextInst False i) (PutVReg (vreg0 i) (MovePrimitive r) s) }"

definition HandleMovWide :: handler where
  "HandleMovWide env i s = do {
     r \<leftarrow> GetVReg s (vreg1 i);
     map_option (MoveToNextInst False i) (PutVReg (vreg0 i) (MovePrimitive r) s) }"

definition HandleMovObj :: handler where
  "HandleMovObj env i s = do {
     r \<leftarrow> GetVReg s (vreg1 i);
     map_option (MoveToNextInst False i) (PutVReg (vreg0 i) (MoveReference r) s) }"

definition HandleMovDyn :: handler where
  "HandleMovDyn env i s = do {
     r \<leftarrow> GetVReg s (vreg1 i);
     map_option (MoveToNextInst False i) (PutVReg (vreg0 i) (Move r) s) }"

definition HandleMovi :: handler where
  "HandleMovi env i s = map_option (MoveToNextInst False i) (PutVReg (vreg0 i) (SetPrimitive (Set_int32 (word_of_int (imm i)))) s)"

definition HandleMoviWide :: handler where
  "HandleMoviWide env i s = map_option (MoveToNextInst False i) (PutVReg (vreg0 i) (SetPrimitive (Set_int64 (word_of_int (imm i)))) s)"

definition HandleFmovi :: handler where
  "HandleFmovi env i s = map_option (MoveToNextInst False i) (PutVReg (vreg0 i) (SetPrimitive (Set_float (word_of_int (imm i)))) s)"

definition HandleFmoviWide :: handler where
  "HandleFmoviWide env i s = map_option (MoveToNextInst False i) (PutVReg (vreg0 i) (SetPrimitive (Set_double (word_of_int (imm i)))) s)"

definition HandleMovNull :: handler where
  "HandleMovNull env i s = map_option (MoveToNextInst False i) (PutVReg (vreg0 i) (SetReference 0) s)"

definition HandleLda :: handler where
  "HandleLda env i s = do {
     r \<leftarrow> GetVReg s (vreg0 i);
     Some (MoveToNextInst False i (s\<lparr>acc := SetPrimitive (Set_int32 (GetAs r))\<rparr>)) }"

definition HandleLdaWide :: handler where
  "HandleLdaWide env i s = do {
     r \<leftarrow> GetVReg s (vreg0 i);
     Some (MoveToNextInst False i (s\<lparr>acc := SetPrimitive (Set_int64 (payload r))\<rparr>)) }"

definition HandleLdaObj :: handler where
  "HandleLdaObj env i s = do {
     r \<leftarrow> GetVReg s (vreg0 i);
     Some (MoveToNextInst False i (s\<lparr>acc := SetReference (GetReference r)\<rparr>)) }"

definition HandleLdai :: handler where
  "HandleLdai env i s = Some (MoveToNextInst False i (s\<lparr>acc := SetPrimitive (Set_int32 (word_of_int (imm i)))\<rparr>))"

definition HandleLdaiWide :: handler where
  "HandleLdaiWide env i s = Some (MoveToNextInst False i (s\<lparr>acc := SetPrimitive (Set_int64 (word_of_int (imm i)))\<rparr>))"

definition HandleFldai :: handler where
  "HandleFldai env i s = Some (MoveToNextInst False i (s\<lparr>acc := SetPrimitive (Set_float (word_of_int (imm i)))\<rparr>))"

definition HandleFldaiWide :: handler where
  "HandleFldaiWide env i s = Some (MoveToNextInst False i (s\<lparr>acc := SetPrimitive (Set_double (word_of_int (imm i)))\<rparr>))"

definition HandleLdaNull :: handler where
  "HandleLdaNull env i s = Some (MoveToNextInst False i (s\<lparr>acc := SetReference 0\<rparr>))"

definition HandleLdaDyn :: handler where
  "HandleLdaDyn env i s = do {
     r \<leftarrow> GetVReg s (vreg0 i);
     Some (MoveToNextInst False i (s\<lparr>acc := Move r\<rparr>)) }"

definition HandleSta :: handler where
  "HandleSta env i s = map_option (MoveToNextInst False i) (PutVReg (vreg0 i) (SetPrimitive (Set_int32 (GetAs (acc s)))) s)"

definition HandleStaWide :: handler where
  "HandleStaWide env i s = map_option (MoveToNextInst False i) (PutVReg (vreg0 i) (SetPrimitive (Set_int64 (payload (acc s)))) s)"

definition HandleStaObj :: handler where
  "HandleStaObj env i s = map_option (MoveToNextInst False i) (PutVReg (vreg0 i) (SetReference (GetReference (acc s))) s)"

definition HandleStaDyn :: handler where
  "HandleStaDyn env i s = map_option (MoveToNextInst False i) (PutVReg (vreg0 i) (Move (acc s)) s)"

definition HandleJmp :: handler where
  "HandleJmp env i s =
     (case InstrumentBranches env (imm i) s of (True, s') \<Rightarrow> Some s' | (False, s') \<Rightarrow> JumpToInst (imm i) s')"

text \<open>The increment adds signed 32-bit numbers; an overflow is undefined.\<close>

definition HandleInci :: handler where
  "HandleInci env i s = do {
     r \<leftarrow> GetVReg s (vreg0 i);
     let v = GetInt r + sint (word_of_int (imm i) :: u32) in
     if v < - (2 ^ 31) \<or> 2 ^ 31 \<le> v then None
     else map_option (MoveToNextInst False i) (PutVReg (vreg0 i) (SetValue (Set_int32 (word_of_int v)) r) s) }"

definition HandleLdarrObj :: handler where
  "HandleLdarrObj env i s = do {
     r \<leftarrow> GetVReg s (vreg0 i);
     let idx = GetInt (acc s) in do {
       chk \<leftarrow> CheckLoadArrayOp s (GetReference r) idx;
       Some (case chk of
               Inr a \<Rightarrow> MoveToNextInst True i (s\<lparr>acc := SetReference (ucast (elements a ! nat idx))\<rparr>)
             | Inl e \<Rightarrow> ThrowTo e env i s) } }"

definition HandleLenarr :: handler where
  "HandleLenarr env i s = do {
     r \<leftarrow> GetVReg s (vreg0 i);
     if GetReference r = 0 then Some (ThrowTo NullPointerException env i s)
     else do {
       a \<leftarrow> heap s (GetReference r);
       Some (MoveToNextInst True i (s\<lparr>acc := SetPrimitive (Set_int32 (of_nat (length (elements a))))\<rparr>)) } }"

definition HandleReturn :: handler where
  "HandleReturn env i s = Some (s\<lparr>frame_acc := SetPrimitive (Set_int32 (GetAs (acc s)))\<rparr>)"

definition HandleReturnWide :: handler where
  "HandleReturnWide env i s = Some (s\<lparr>frame_acc := SetPrimitive (Set_int64 (payload (acc s)))\<rparr>)"

definition HandleReturnObj :: handler where
  "HandleReturnObj env i s = Some (s\<lparr>frame_acc := SetReference (GetReference (acc s))\<rparr>)"

definition HandleReturnVoid :: handler where
  "HandleReturnVoid env i s = Some s"

definition HandleThrow :: handler where
  "HandleThrow env i s = do {
     r \<leftarrow> GetVReg s (vreg0 i);
     let e = (if GetReference r = 0 then NullPointerException else ThrownException (GetReference r)) in do {
       s' \<leftarrow> UpdateThrowStatistics (s\<lparr>exception := Some e\<rparr>);
       Some (MoveToExceptionHandler env i s') } }"

section \<open>Handlers: accumulator and register\<close>

definition HandleCmpWide :: handler where
  "HandleCmpWide env = HandleBinaryOp2 False Set_int32 (cmp_signed :: u64 \<Rightarrow> u64 \<Rightarrow> u32) env"

definition HandleUcmp :: handler where
  "HandleUcmp env = HandleBinaryOp2 False Set_int32 (cmp_unsigned :: u32 \<Rightarrow> u32 \<Rightarrow> u32) env"

definition HandleUcmpWide :: handler where
  "HandleUcmpWide env = HandleBinaryOp2 False Set_int32 (cmp_unsigned :: u64 \<Rightarrow> u64 \<Rightarrow> u32) env"

definition HandleFcmpl :: handler where
  "HandleFcmpl env = HandleBinaryOp2 False Set_int32 (fcmpl (f_less (fops env)) isnan32) env"

definition HandleFcmplWide :: handler where
  "HandleFcmplWide env = HandleBinaryOp2 False Set_int32 (fcmpl (d_less (fops env)) isnan64) env"

definition HandleFcmpg :: handler where
  "HandleFcmpg env = HandleBinaryOp2 False Set_int32 (fcmpg (f_less (fops env)) isnan32) env"

definition HandleFcmpgWide :: handler where
  "HandleFcmpgWide env = HandleBinaryOp2 False Set_int32 (fcmpg (d_less (fops env)) isnan64) env"

section \<open>Handlers: conditional jumps\<close>

definition HandleJeqz :: handler where
  "HandleJeqz = HandleCondJmpz (=)"

definition HandleJnez :: handler where
  "HandleJnez = HandleCondJmpz (\<noteq>)"

definition HandleJltz :: handler where
  "HandleJltz = HandleCondJmpz (<)"

definition HandleJgtz :: handler where
  "HandleJgtz = HandleCondJmpz (>)"

definition HandleJlez :: handler where
  "HandleJlez = HandleCondJmpz (\<le>)"

definition HandleJgez :: handler where
  "HandleJgez = HandleCondJmpz (\<ge>)"

definition HandleJeq :: handler where
  "HandleJeq = HandleCondJmp (=)"

definition HandleJne :: handler where
  "HandleJne = HandleCondJmp (\<noteq>)"

definition HandleJlt :: handler where
  "HandleJlt = HandleCondJmp (<)"

definition HandleJgt :: handler where
  "HandleJgt = HandleCondJmp (>)"

definition HandleJle :: handler where
  "HandleJle = HandleCondJmp (\<le>)"

definition HandleJge :: handler where
  "HandleJge = HandleCondJmp (\<ge>)"

definition HandleJeqzObj :: handler where
  "HandleJeqzObj = HandleCondJmpzObj (=)"

definition HandleJnezObj :: handler where
  "HandleJnezObj = HandleCondJmpzObj (\<noteq>)"

definition HandleJeqObj :: handler where
  "HandleJeqObj = HandleCondJmpObj (=)"

definition HandleJneObj :: handler where
  "HandleJneObj = HandleCondJmpObj (\<noteq>)"

definition HandleAdd2 :: handler where
  "HandleAdd2 env = HandleBinaryOp2 False Set_int32 (Plus :: u32 \<Rightarrow> u32 \<Rightarrow> u32) env"

definition HandleAdd2Wide :: handler where
  "HandleAdd2Wide env = HandleBinaryOp2 False Set_int64 (Plus :: u64 \<Rightarrow> u64 \<Rightarrow> u64) env"

definition HandleFadd2 :: handler where
  "HandleFadd2 env = HandleBinaryOp2 False Set_float (f_add (fops env)) env"

definition HandleFadd2Wide :: handler where
  "HandleFadd2Wide env = HandleBinaryOp2 False Set_double (d_add (fops env)) env"

definition HandleSub2 :: handler where
  "HandleSub2 env = HandleBinaryOp2 False Set_int32 (Minus :: u32 \<Rightarrow> u32 \<Rightarrow> u32) env"

definition HandleSub2Wide :: handler where
  "HandleSub2Wide env = HandleBinaryOp2 False Set_int64 (Minus :: u64 \<Rightarrow> u64 \<Rightarrow> u64) env"

definition HandleFsub2 :: handler where
  "HandleFsub2 env = HandleBinaryOp2 False Set_float (f_sub (fops env)) env"

definition HandleFsub2Wide :: handler where
  "HandleFsub2Wide env = HandleBinaryOp2 False Set_double (d_sub (fops env)) env"

definition HandleMul2 :: handler where
  "HandleMul2 env = HandleBinaryOp2 False Set_int32 (Multiplies :: u32 \<Rightarrow> u32 \<Rightarrow> u32) env"

definition HandleMul2Wide :: handler where
  "HandleMul2Wide env = HandleBinaryOp2 False Set_int64 (Multiplies :: u64 \<Rightarrow> u64 \<Rightarrow> u64) env"

definition HandleFmul2 :: handler where
  "HandleFmul2 env = HandleBinaryOp2 False Set_float (f_mul (fops env)) env"

definition HandleFmul2Wide :: handler where
  "HandleFmul2Wide env = HandleBinaryOp2 False Set_double (d_mul (fops env)) env"

definition HandleFdiv2 :: handler where
  "HandleFdiv2 env = HandleBinaryOp2 False Set_float (f_div (fops env)) env"

definition HandleFdiv2Wide :: handler where
  "HandleFdiv2Wide env = HandleBinaryOp2 False Set_double (d_div (fops env)) env"

definition HandleFmod2 :: handler where
  "HandleFmod2 env = HandleBinaryOp2 False Set_float (f_mod (fops env)) env"

definition HandleFmod2Wide :: handler where
  "HandleFmod2Wide env = HandleBinaryOp2 False Set_double (d_mod (fops env)) env"

definition HandleAnd2 :: handler where
  "HandleAnd2 env = HandleBinaryOp2 False Set_int32 ((AND) :: u32 \<Rightarrow> u32 \<Rightarrow> u32) env"

definition HandleAnd2Wide :: handler where
  "HandleAnd2Wide env = HandleBinaryOp2 False Set_int64 ((AND) :: u64 \<Rightarrow> u64 \<Rightarrow> u64) env"

definition HandleOr2 :: handler where
  "HandleOr2 env = HandleBinaryOp2 False Set_int32 ((OR) :: u32 \<Rightarrow> u32 \<Rightarrow> u32) env"

definition HandleOr2Wide :: handler where
  "HandleOr2Wide env = HandleBinaryOp2 False Set_int64 ((OR) :: u64 \<Rightarrow> u64 \<Rightarrow> u64) env"

definition HandleXor2 :: handler where
  "HandleXor2 env = HandleBinaryOp2 False Set_int32 ((XOR) :: u32 \<Rightarrow> u32 \<Rightarrow> u32) env"

definition HandleXor2Wide :: handler where
  "HandleXor2Wide env = HandleBinaryOp2 False Set_int64 ((XOR) :: u64 \<Rightarrow> u64 \<Rightarrow> u64) env"

definition HandleShl2 :: handler where
  "HandleShl2 env = HandleBinaryOp2 False Set_int32 (bit_shl :: u32 \<Rightarrow> u32 \<Rightarrow> u32) env"

definition HandleShl2Wide :: handler where
  "HandleShl2Wide env = HandleBinaryOp2 False Set_int64 (bit_shl :: u64 \<Rightarrow> u64 \<Rightarrow> u64) env"

definition HandleShr2 :: handler where
  "HandleShr2 env = HandleBinaryOp2 False Set_int32 (bit_shr :: u32 \<Rightarrow> u32 \<Rightarrow> u32) env"

definition HandleShr2Wide :: handler where
  "HandleShr2Wide env = HandleBinaryOp2 False Set_int64 (bit_shr :: u64 \<Rightarrow> u64 \<Rightarrow> u64) env"

definition HandleAshr2 :: handler where
  "HandleAshr2 env = HandleBinaryOp2 False Set_int32 (bit_ashr :: u32 \<Rightarrow> u32 \<Rightarrow> u32) env"

definition HandleAshr2Wide :: handler where
  "HandleAshr2Wide env = HandleBinaryOp2 False Set_int64 (bit_ashr :: u64 \<Rightarrow> u64 \<Rightarrow> u64) env"

definition HandleDiv2 :: handler where
  "HandleDiv2 env = HandleBinaryOp2 True Set_int32 (idivides_signed :: u32 \<Rightarrow> u32 \<Rightarrow> u32) env"

definition HandleDiv2Wide :: handler where
  "HandleDiv2Wide env = HandleBinaryOp2 True Set_int64 (idivides_signed :: u64 \<Rightarrow> u64 \<Rightarrow> u64) env"

definition HandleMod2 :: handler where
  "HandleMod2 env = HandleBinaryOp2 True Set_int32 (imodulus_signed :: u32 \<Rightarrow> u32 \<Rightarrow> u32) env"

definition HandleMod2Wide :: handler where
  "HandleMod2Wide env = HandleBinaryOp2 True Set_int64 (imodulus_signed :: u64 \<Rightarrow> u64 \<Rightarrow> u64) env"

definition HandleDivu2 :: handler where
  "HandleDivu2 env = HandleBinaryOp2 True Set_uint32 (idivides_unsigned :: u32 \<Rightarrow> u32 \<Rightarrow> u32) env"

definition HandleDivu2Wide :: handler where
  "HandleDivu2Wide env = HandleBinaryOp2 True Set_uint64 (idivides_unsigned :: u64 \<Rightarrow> u64 \<Rightarrow> u64) env"

definition HandleModu2 :: handler where
  "HandleModu2 env = HandleBinaryOp2 True Set_uint32 (imodulus_unsigned :: u32 \<Rightarrow> u32 \<Rightarrow> u32) env"

definition HandleModu2Wide :: handler where
  "HandleModu2Wide env = HandleBinaryOp2 True Set_uint64 (imodulus_unsigned :: u64 \<Rightarrow> u64 \<Rightarrow> u64) env"

section \<open>Handlers: accumulator and register into a register\<close>

definition HandleAdd2v :: handler where
  "HandleAdd2v env = HandleBinaryOp2V False Set_int32 (Plus :: u32 \<Rightarrow> u32 \<Rightarrow> u32) env"

definition HandleAdd2vWide :: handler where
  "HandleAdd2vWide env = HandleBinaryOp2V False Set_int64 (Plus :: u64 \<Rightarrow> u64 \<Rightarrow> u64) env"

definition HandleFadd2v :: handler where
  "HandleFadd2v env = HandleBinaryOp2V False Set_float (f_add (fops env)) env"

definition HandleFadd2vWide :: handler where
  "HandleFadd2vWide env = HandleBinaryOp2V False Set_double (d_add (fops env)) env"

definition HandleSub2v :: handler where
  "HandleSub2v env = HandleBinaryOp2V False Set_int32 (Minus :: u32 \<Rightarrow> u32 \<Rightarrow> u32) env"

definition HandleSub2vWide :: handler where
  "HandleSub2vWide env = HandleBinaryOp2V False Set_int64 (Minus :: u64 \<Rightarrow> u64 \<Rightarrow> u64) env"

definition HandleFsub2v :: handler where
  "HandleFsub2v env = HandleBinaryOp2V False Set_float (f_sub (fops env)) env"

definition HandleFsub2vWide :: handler where
  "HandleFsub2vWide env = HandleBinaryOp2V False Set_double (d_sub (fops env)) env"

definition HandleMul2v :: handler where
  "HandleMul2v env = HandleBinaryOp2V False Set_int32 (Multiplies :: u32 \<Rightarrow> u32 \<Rightarrow> u32) env"

definition HandleMul2vWide :: handler where
  "HandleMul2vWide env = HandleBinaryOp2V False Set_int64 (Multiplies :: u64 \<Rightarrow> u64 \<Rightarrow> u64) env"

definition HandleFmul2v :: handler where
  "HandleFmul2v env = HandleBinaryOp2V False Set_float (f_mul (fops env)) env"

definition HandleFmul2vWide :: handler where
  "HandleFmul2vWide env = HandleBinaryOp2V False Set_double (d_mul (fops env)) env"

definition HandleFdiv2v :: handler where
  "HandleFdiv2v env = HandleBinaryOp2V False Set_float (f_div (fops env)) env"

definition HandleFdiv2vWide :: handler where
  "HandleFdiv2vWide env = HandleBinaryOp2V False Set_double (d_div (fops env)) env"

definition HandleFmod2v :: handler where
  "HandleFmod2v env = HandleBinaryOp2V False Set_float (f_mod (fops env)) env"

definition HandleFmod2vWide :: handler where
  "HandleFmod2vWide env = HandleBinaryOp2V False Set_double (d_mod (fops env)) env"

definition HandleAnd2v :: handler where
  "HandleAnd2v env = HandleBinaryOp2V False Set_int32 ((AND) :: u32 \<Rightarrow> u32 \<Rightarrow> u32) env"

definition HandleAnd2vWide :: handler where
  "HandleAnd2vWide env = HandleBinaryOp2V False Set_int64 ((AND) :: u64 \<Rightarrow> u64 \<Rightarrow> u64) env"

definition HandleOr2v :: handler where
  "HandleOr2v env = HandleBinaryOp2V False Set_int32 ((OR) :: u32 \<Rightarrow> u32 \<Rightarrow> u32) env"

definition HandleOr2vWide :: handler where
  "HandleOr2vWide env = HandleBinaryOp2V False Set_int64 ((OR) :: u64 \<Rightarrow> u64 \<Rightarrow> u64) env"

definition HandleXor2v :: handler where
  "HandleXor2v env = HandleBinaryOp2V False Set_int32 ((XOR) :: u32 \<Rightarrow> u32 \<Rightarrow> u32) env"

definition HandleXor2vWide :: handler where
  "HandleXor2vWide env = HandleBinaryOp2V False Set_int64 ((XOR) :: u64 \<Rightarrow> u64 \<Rightarrow> u64) env"

definition HandleShl2v :: handler where
  "HandleShl2v env = HandleBinaryOp2V False Set_int32 (bit_shl :: u32 \<Rightarrow> u32 \<Rightarrow> u32) env"

definition HandleShl2vWide :: handler where
  "HandleShl2vWide env = HandleBinaryOp2V False Set_int64 (bit_shl :: u64 \<Rightarrow> u64 \<Rightarrow> u64) env"

definition HandleShr2v :: handler where
  "HandleShr2v env = HandleBinaryOp2V False Set_int32 (bit_shr :: u32 \<Rightarrow> u32 \<Rightarrow> u32) env"

definition HandleShr2vWide :: handler where
  "HandleShr2vWide env = HandleBinaryOp2V False Set_int64 (bit_shr :: u64 \<Rightarrow> u64 \<Rightarrow> u64) env"

definition HandleAshr2v :: handler where
  "HandleAshr2v env = HandleBinaryOp2V False Set_int32 (bit_ashr :: u32 \<Rightarrow> u32 \<Rightarrow> u32) env"

definition HandleAshr2vWide :: handler where
  "HandleAshr2vWide env = HandleBinaryOp2V False Set_int64 (bit_ashr :: u64 \<Rightarrow> u64 \<Rightarrow> u64) env"

definition HandleDiv2v :: handler where
  "HandleDiv2v env = HandleBinaryOp2V True Set_int32 (idivides_signed :: u32 \<Rightarrow> u32 \<Rightarrow> u32) env"

definition HandleDiv2vWide :: handler where
  "HandleDiv2vWide env = HandleBinaryOp2V True Set_int64 (idivides_signed :: u64 \<Rightarrow> u64 \<Rightarrow> u64) env"

definition HandleMod2v :: handler where
  "HandleMod2v env = HandleBinaryOp2V True Set_int32 (imodulus_signed :: u32 \<Rightarrow> u32 \<Rightarrow> u32) env"

definition HandleMod2vWide :: handler where
  "HandleMod2vWide env = HandleBinaryOp2V True Set_int64 (imodulus_signed :: u64 \<Rightarrow> u64 \<Rightarrow> u64) env"

definition HandleDivu2v :: handler where
  "HandleDivu2v env = HandleBinaryOp2V True Set_int32 (idivides_unsigned :: u32 \<Rightarrow> u32 \<Rightarrow> u32) env"

definition HandleDivu2vWide :: handler where
  "HandleDivu2vWide env = HandleBinaryOp2V True Set_int64 (idivides_unsigned :: u64 \<Rightarrow> u64 \<Rightarrow> u64) env"

definition HandleModu2v :: handler where
  "HandleModu2v env = HandleBinaryOp2V True Set_int32 (imodulus_unsigned :: u32 \<Rightarrow> u32 \<Rightarrow> u32) env"

definition HandleModu2vWide :: handler where
  "HandleModu2vWide env = HandleBinaryOp2V True Set_int64 (imodulus_unsigned :: u64 \<Rightarrow> u64 \<Rightarrow> u64) env"

section \<open>Handlers: two registers into the accumulator\<close>

definition HandleAdd :: handler where
  "HandleAdd env = HandleBinaryOp False Set_int32 (Plus :: u32 \<Rightarrow> u32 \<Rightarrow> u32) env"

definition HandleSub :: handler where
  "HandleSub env = HandleBinaryOp False Set_int32 (Minus :: u32 \<Rightarrow> u32 \<Rightarrow> u32) env"

definition HandleMul :: handler where
  "HandleMul env = HandleBinaryOp False Set_int32 (Multiplies :: u32 \<Rightarrow> u32 \<Rightarrow> u32) env"

definition HandleAnd :: handler where
  "HandleAnd env = HandleBinaryOp False Set_int32 ((AND) :: u32 \<Rightarrow> u32 \<Rightarrow> u32) env"

definition HandleOr :: handler where
  "HandleOr env = HandleBinaryOp False Set_int32 ((OR) :: u32 \<Rightarrow> u32 \<Rightarrow> u32) env"

definition HandleXor :: handler where
  "HandleXor env = HandleBinaryOp False Set_int32 ((XOR) :: u32 \<Rightarrow> u32 \<Rightarrow> u32) env"

definition HandleShl :: handler where
  "HandleShl env = HandleBinaryOp False Set_int32 (bit_shl :: u32 \<Rightarrow> u32 \<Rightarrow> u32) env"

definition HandleShr :: handler where
  "HandleShr env = HandleBinaryOp False Set_int32 (bit_shr :: u32 \<Rightarrow> u32 \<Rightarrow> u32) env"

definition HandleAshr :: handler where
  "HandleAshr env = HandleBinaryOp False Set_int32 (bit_ashr :: u32 \<Rightarrow> u32 \<Rightarrow> u32) env"

definition HandleDiv :: handler where
  "HandleDiv env = HandleBinaryOp True Set_int32 (idivides_signed :: u32 \<Rightarrow> u32 \<Rightarrow> u32) env"

definition HandleMod :: handler where
  "HandleMod env = HandleBinaryOp True Set_int32 (imodulus_signed :: u32 \<Rightarrow> u32 \<Rightarrow> u32) env"

section \<open>Handlers: two registers into the first one\<close>

definition HandleAddv :: handler where
  "HandleAddv env = HandleBinaryOpV False Set_int32 (Plus :: u32 \<Rightarrow> u32 \<Rightarrow> u32) env"

definition HandleSubv :: handler where
  "HandleSubv env = HandleBinaryOpV False Set_int32 (Minus :: u32 \<Rightarrow> u32 \<Rightarrow> u32) env"

definition HandleMulv :: handler where
  "HandleMulv env = HandleBinaryOpV False Set_int32 (Multiplies :: u32 \<Rightarrow> u32 \<Rightarrow> u32) env"

definition HandleAndv :: handler where
  "HandleAndv env = HandleBinaryOpV False Set_int32 ((AND) :: u32 \<Rightarrow> u32 \<Rightarrow> u32) env"

definition HandleOrv :: handler where
  "HandleOrv env = HandleBinaryOpV False Set_int32 ((OR) :: u32 \<Rightarrow> u32 \<Rightarrow> u32) env"

definition HandleXorv :: handler where
  "HandleXorv env = HandleBinaryOpV False Set_int32 ((XOR) :: u32 \<Rightarrow> u32 \<Rightarrow> u32) env"

definition HandleShlv :: handler where
  "HandleShlv env = HandleBinaryOpV False Set_int32 (bit_shl :: u32 \<Rightarrow> u32 \<Rightarrow> u32) env"

definition HandleShrv :: handler where
  "HandleShrv env = HandleBinaryOpV False Set_int32 (bit_shr :: u32 \<Rightarrow> u32 \<Rightarrow> u32) env"

definition HandleAshrv :: handler where
  "HandleAshrv env = HandleBinaryOpV False Set_int32 (bit_ashr :: u32 \<Rightarrow> u32 \<Rightarrow> u32) env"

definition HandleDivv :: handler where
  "HandleDivv env = HandleBinaryOpV True Set_int32 (idivides_signed :: u32 \<Rightarrow> u32 \<Rightarrow> u32) env"

definition HandleModv :: handler where
  "HandleModv env = HandleBinaryOpV True Set_int32 (imodulus_signed :: u32 \<Rightarrow> u32 \<Rightarrow> u32) env"

section \<open>Handlers: accumulator and immediate\<close>

definition HandleAddi :: handler where
  "HandleAddi env = HandleBinaryOp2Imm False Set_int32 (Plus :: u32 \<Rightarrow> u32 \<Rightarrow> u32) env"

definition HandleSubi :: handler where
  "HandleSubi env = HandleBinaryOp2Imm False Set_int32 (Minus :: u32 \<Rightarrow> u32 \<Rightarrow> u32) env"

definition HandleMuli :: handler where
  "HandleMuli env = HandleBinaryOp2Imm False Set_int32 (Multiplies :: u32 \<Rightarrow> u32 \<Rightarrow> u32) env"

definition HandleAndi :: handler where
  "HandleAndi env = HandleBinaryOp2Imm False Set_int32 ((AND) :: u32 \<Rightarrow> u32 \<Rightarrow> u32) env"

definition HandleOri :: handler where
  "HandleOri env = HandleBinaryOp2Imm False Set_int32 ((OR) :: u32 \<Rightarrow> u32 \<Rightarrow> u32) env"

definition HandleXori :: handler where
  "HandleXori env = HandleBinaryOp2Imm False Set_int32 ((XOR) :: u32 \<Rightarrow> u32 \<Rightarrow> u32) env"

definition HandleShli :: handler where
  "HandleShli env = HandleBinaryOp2Imm False Set_int32 (bit_shl :: u32 \<Rightarrow> u32 \<Rightarrow> u32) env"

definition HandleShri :: handler where
  "HandleShri env = HandleBinaryOp2Imm False Set_int32 (bit_shr :: u32 \<Rightarrow> u32 \<Rightarrow> u32) env"

definition HandleAshri :: handler where
  "HandleAshri env = HandleBinaryOp2Imm False Set_int32 (bit_ashr :: u32 \<Rightarrow> u32 \<Rightarrow> u32) env"

definition HandleDivi :: handler where
  "HandleDivi env = HandleBinaryOp2Imm True Set_int32 (idivides_signed :: u32 \<Rightarrow> u32 \<Rightarrow> u32) env"

definition HandleModi :: handler where
  "HandleModi env = HandleBinaryOp2Imm True Set_int32 (imodulus_signed :: u32 \<Rightarrow> u32 \<Rightarrow> u32) env"

section \<open>Handlers: register and immediate\<close>

definition HandleAddiv :: handler where
  "HandleAddiv env = HandleBinaryOpImmV False Set_int32 (Plus :: u32 \<Rightarrow> u32 \<Rightarrow> u32) env"

definition HandleSubiv :: handler where
  "HandleSubiv env = HandleBinaryOpImmV False Set_int32 (Minus :: u32 \<Rightarrow> u32 \<Rightarrow> u32) env"

definition HandleMuliv :: handler where
  "HandleMuliv env = HandleBinaryOpImmV False Set_int32 (Multiplies :: u32 \<Rightarrow> u32 \<Rightarrow> u32) env"

definition HandleAndiv :: handler where
  "HandleAndiv env = HandleBinaryOpImmV False Set_int32 ((AND) :: u32 \<Rightarrow> u32 \<Rightarrow> u32) env"

definition HandleOriv :: handler where
  "HandleOriv env = HandleBinaryOpImmV False Set_int32 ((OR) :: u32 \<Rightarrow> u32 \<Rightarrow> u32) env"

definition HandleXoriv :: handler where
  "HandleXoriv env = HandleBinaryOpImmV False Set_int32 ((XOR) :: u32 \<Rightarrow> u32 \<Rightarrow> u32) env"

definition HandleShliv :: handler where
  "HandleShliv env = HandleBinaryOpImmV False Set_int32 (bit_shl :: u32 \<Rightarrow> u32 \<Rightarrow> u32) env"

definition HandleShriv :: handler where
  "HandleShriv env = HandleBinaryOpImmV False Set_int32 (bit_shr :: u32 \<Rightarrow> u32 \<Rightarrow> u32) env"

definition HandleAshriv :: handler where
  "HandleAshriv env = HandleBinaryOpImmV False Set_int32 (bit_ashr :: u32 \<Rightarrow> u32 \<Rightarrow> u32) env"

definition HandleDiviv :: handler where
  "HandleDiviv env = HandleBinaryOpImmV True Set_int32 (idivides_signed :: u32 \<Rightarrow> u32 \<Rightarrow> u32) env"

definition HandleModiv :: handler where
  "HandleModiv env = HandleBinaryOpImmV True Set_int32 (imodulus_signed :: u32 \<Rightarrow> u32 \<Rightarrow> u32) env"

section \<open>Handlers: unary operations\<close>

definition HandleNeg :: handler where
  "HandleNeg = HandleUnaryOp Set_int32 negate_signed"

definition HandleNegWide :: handler where
  "HandleNegWide = HandleUnaryOp Set_int64 negate_signed"

definition HandleFneg :: handler where
  "HandleFneg = HandleUnaryOp Set_float (\<lambda>v. Some (f_neg v))"

definition HandleFnegWide :: handler where
  "HandleFnegWide = HandleUnaryOp Set_double (\<lambda>v. Some (d_neg v))"

definition HandleNot :: handler where
  "HandleNot = HandleUnaryOp Set_int32 (\<lambda>v :: u32. Some (NOT v))"

definition HandleNotWide :: handler where
  "HandleNotWide = HandleUnaryOp Set_int64 (\<lambda>v :: u64. Some (NOT v))"

section \<open>Handlers: conversions\<close>

definition HandleU32toi64 :: handler where
  "HandleU32toi64 env = HandleConversion Set_int64 (ucast :: u32 \<Rightarrow> u64) env"

definition HandleU32toi16 :: handler where
  "HandleU32toi16 env = HandleConversion Set_int16 (ucast :: u32 \<Rightarrow> u16) env"

definition HandleU32tou16 :: handler where
  "HandleU32tou16 env = HandleConversion Set_uint16 (ucast :: u32 \<Rightarrow> u16) env"

definition HandleU32toi8 :: handler where
  "HandleU32toi8 env = HandleConversion Set_int8 (ucast :: u32 \<Rightarrow> u8) env"

definition HandleU32tou8 :: handler where
  "HandleU32tou8 env = HandleConversion Set_uint8 (ucast :: u32 \<Rightarrow> u8) env"

definition HandleU32tou1 :: handler where
  "HandleU32tou1 env = HandleConversion Set_bool (\<lambda>v :: u32. v \<noteq> 0) env"

definition HandleI32toi64 :: handler where
  "HandleI32toi64 env = HandleConversion Set_int64 (scast :: u32 \<Rightarrow> u64) env"

definition HandleI32tou16 :: handler where
  "HandleI32tou16 env = HandleConversion Set_uint16 (ucast :: u32 \<Rightarrow> u16) env"

definition HandleI32toi16 :: handler where
  "HandleI32toi16 env = HandleConversion Set_int16 (ucast :: u32 \<Rightarrow> u16) env"

definition HandleI32toi8 :: handler where
  "HandleI32toi8 env = HandleConversion Set_int8 (ucast :: u32 \<Rightarrow> u8) env"

definition HandleI32tou8 :: handler where
  "HandleI32tou8 env = HandleConversion Set_uint8 (ucast :: u32 \<Rightarrow> u8) env"

definition HandleI32tou1 :: handler where
  "HandleI32tou1 env = HandleConversion Set_bool (\<lambda>v :: u32. v \<noteq> 0) env"

definition HandleI32tof32 :: handler where
  "HandleI32tof32 env = HandleConversion Set_float (\<lambda>v :: u32. f_of_int (fops env) (sint v)) env"

definition HandleI32tof64 :: handler where
  "HandleI32tof64 env = HandleConversion Set_double (\<lambda>v :: u32. d_of_int (fops env) (sint v)) env"

definition HandleU32tof32 :: handler where
  "HandleU32tof32 env = HandleConversion Set_float (\<lambda>v :: u32. f_of_int (fops env) (uint v)) env"

definition HandleU32tof64 :: handler where
  "HandleU32tof64 env = HandleConversion Set_double (\<lambda>v :: u32. d_of_int (fops env) (uint v)) env"

definition HandleI64toi32 :: handler where
  "HandleI64toi32 env = HandleConversion Set_int32 (ucast :: u64 \<Rightarrow> u32) env"

definition HandleI64tou1 :: handler where
  "HandleI64tou1 env = HandleConversion Set_bool (\<lambda>v :: u64. v \<noteq> 0) env"

definition HandleI64tof32 :: handler where
  "HandleI64tof32 env = HandleConversion Set_float (\<lambda>v :: u64. f_of_int (fops env) (sint v)) env"

definition HandleI64tof64 :: handler where
  "HandleI64tof64 env = HandleConversion Set_double (\<lambda>v :: u64. d_of_int (fops env) (sint v)) env"

definition HandleU64toi32 :: handler where
  "HandleU64toi32 env = HandleConversion Set_int32 (ucast :: u64 \<Rightarrow> u32) env"

definition HandleU64tou32 :: handler where
  "HandleU64tou32 env = HandleConversion Set_uint32 (ucast :: u64 \<Rightarrow> u32) env"

definition HandleU64tou1 :: handler where
  "HandleU64tou1 env = HandleConversion Set_bool (\<lambda>v :: u64. v \<noteq> 0) env"

definition HandleU64tof32 :: handler where
  "HandleU64tof32 env = HandleConversion Set_float (\<lambda>v :: u64. f_of_int (fops env) (uint v)) env"

definition HandleU64tof64 :: handler where
  "HandleU64tof64 env = HandleConversion Set_double (\<lambda>v :: u64. d_of_int (fops env) (uint v)) env"

definition HandleF32tof64 :: handler where
  "HandleF32tof64 env = HandleConversion Set_double (d_of_f (fops env)) env"

definition HandleF32toi32 :: handler where
  "HandleF32toi32 env = HandleFloatToIntConversion Set_int32
     (CastFloatToInt (f_less (fops env)) isnan32 (f_of_int (fops env)) (f_trunc (fops env)) (- 2147483648) 2147483647 :: u32 \<Rightarrow> u32) env"

definition HandleF32toi64 :: handler where
  "HandleF32toi64 env = HandleFloatToIntConversion Set_int64
     (CastFloatToInt (f_less (fops env)) isnan32 (f_of_int (fops env)) (f_trunc (fops env)) (- 9223372036854775808) 9223372036854775807 :: u32 \<Rightarrow> u64) env"

definition HandleF32tou32 :: handler where
  "HandleF32tou32 env = HandleFloatToIntConversion Set_uint32
     (CastFloatToInt (f_less (fops env)) isnan32 (f_of_int (fops env)) (f_trunc (fops env)) 0 4294967295 :: u32 \<Rightarrow> u32) env"

definition HandleF32tou64 :: handler where
  "HandleF32tou64 env = HandleFloatToIntConversion Set_uint64
     (CastFloatToInt (f_less (fops env)) isnan32 (f_of_int (fops env)) (f_trunc (fops env)) 0 18446744073709551615 :: u32 \<Rightarrow> u64) env"

definition HandleF64tof32 :: handler where
  "HandleF64tof32 env = HandleConversion Set_float (f_of_d (fops env)) env"

definition HandleF64toi64 :: handler where
  "HandleF64toi64 env = HandleFloatToIntConversion Set_int64
     (CastFloatToInt (d_less (fops env)) isnan64 (d_of_int (fops env)) (d_trunc (fops env)) (- 9223372036854775808) 9223372036854775807 :: u64 \<Rightarrow> u64) env"

definition HandleF64toi32 :: handler where
  "HandleF64toi32 env = HandleFloatToIntConversion Set_int32
     (CastFloatToInt (d_less (fops env)) isnan64 (d_of_int (fops env)) (d_trunc (fops env)) (- 2147483648) 2147483647 :: u64 \<Rightarrow> u32) env"

definition HandleF64tou64 :: handler where
  "HandleF64tou64 env = HandleFloatToIntConversion Set_uint64
     (CastFloatToInt (d_less (fops env)) isnan64 (d_of_int (fops env)) (d_trunc (fops env)) 0 18446744073709551615 :: u64 \<Rightarrow> u64) env"

definition HandleF64tou32 :: handler where
  "HandleF64tou32 env = HandleFloatToIntConversion Set_uint32
     (CastFloatToInt (d_less (fops env)) isnan64 (d_of_int (fops env)) (d_trunc (fops env)) 0 4294967295 :: u64 \<Rightarrow> u32) env"

section \<open>Handlers: array loads\<close>

definition HandleLdarr8 :: handler where
  "HandleLdarr8 = HandleArrayPrimitiveLoad Set_int8"

definition HandleLdarr16 :: handler where
  "HandleLdarr16 = HandleArrayPrimitiveLoad Set_int16"

definition HandleLdarr :: handler where
  "HandleLdarr = HandleArrayPrimitiveLoad Set_int32"

definition HandleLdarrWide :: handler where
  "HandleLdarrWide = HandleArrayPrimitiveLoad Set_int64"

definition HandleLdarru8 :: handler where
  "HandleLdarru8 = HandleArrayPrimitiveLoad Set_uint8"

definition HandleLdarru16 :: handler where
  "HandleLdarru16 = HandleArrayPrimitiveLoad Set_uint16"

definition HandleFldarr32 :: handler where
  "HandleFldarr32 = HandleArrayPrimitiveLoad Set_float"

definition HandleFldarrWide :: handler where
  "HandleFldarrWide = HandleArrayPrimitiveLoad Set_double"

section \<open>Handlers: array stores\<close>

definition HandleStarr8 :: handler where
  "HandleStarr8 = HandleArrayStore False (ucast :: u8 \<Rightarrow> u64)"

definition HandleStarr16 :: handler where
  "HandleStarr16 = HandleArrayStore False (ucast :: u16 \<Rightarrow> u64)"

definition HandleStarr :: handler where
  "HandleStarr = HandleArrayStore False (ucast :: u32 \<Rightarrow> u64)"

definition HandleStarrWide :: handler where
  "HandleStarrWide = HandleArrayStore False (ucast :: u64 \<Rightarrow> u64)"

definition HandleFstarr32 :: handler where
  "HandleFstarr32 = HandleArrayStore False (ucast :: u32 \<Rightarrow> u64)"

definition HandleFstarrWide :: handler where
  "HandleFstarrWide = HandleArrayStore False (ucast :: u64 \<Rightarrow> u64)"

definition HandleStarrObj :: handler where
  "HandleStarrObj = HandleArrayStore True (ucast :: u32 \<Rightarrow> u64)"

section \<open>The handlers as a table\<close>

text \<open>All handlers above, in the order of their definitions.\<close>

definition handlers :: "handler list" where
  "handlers =
    [HandleNop, HandleMov, HandleMovWide, HandleMovObj, HandleMovDyn, HandleMovi, HandleMoviWide,
     HandleFmovi, HandleFmoviWide, HandleMovNull, HandleLda, HandleLdaWide, HandleLdaObj, HandleLdai,
     HandleLdaiWide, HandleFldai, HandleFldaiWide, HandleLdaNull, HandleLdaDyn, HandleSta, HandleStaWide,
     HandleStaObj, HandleStaDyn, HandleJmp, HandleInci, HandleLdarrObj, HandleLenarr, HandleReturn,
     HandleReturnWide, HandleReturnObj, HandleReturnVoid, HandleThrow, HandleCmpWide, HandleUcmp,
     HandleUcmpWide, HandleFcmpl, HandleFcmplWide, HandleFcmpg, HandleFcmpgWide, HandleJeqz, HandleJnez,
     HandleJltz, HandleJgtz, HandleJlez, HandleJgez, HandleJeq, HandleJne, HandleJlt, HandleJgt,
     HandleJle, HandleJge, HandleJeqzObj, HandleJnezObj, HandleJeqObj, HandleJneObj, HandleAdd2,
     HandleAdd2Wide, HandleFadd2, HandleFadd2Wide, HandleSub2, HandleSub2Wide, HandleFsub2,
     HandleFsub2Wide, HandleMul2, HandleMul2Wide, HandleFmul2, HandleFmul2Wide, HandleFdiv2,
     HandleFdiv2Wide, HandleFmod2, HandleFmod2Wide, HandleAnd2, HandleAnd2Wide, HandleOr2, HandleOr2Wide,
     HandleXor2, HandleXor2Wide, HandleShl2, HandleShl2Wide, HandleShr2, HandleShr2Wide, HandleAshr2,
     HandleAshr2Wide, HandleDiv2, HandleDiv2Wide, HandleMod2, HandleMod2Wide, HandleDivu2,
     HandleDivu2Wide, HandleModu2, HandleModu2Wide, HandleAdd2v, HandleAdd2vWide, HandleFadd2v,
     HandleFadd2vWide, HandleSub2v, HandleSub2vWide, HandleFsub2v, HandleFsub2vWide, HandleMul2v,
     HandleMul2vWide, HandleFmul2v, HandleFmul2vWide, HandleFdiv2v, HandleFdiv2vWide, HandleFmod2v,
     HandleFmod2vWide, HandleAnd2v, HandleAnd2vWide, HandleOr2v, HandleOr2vWide, HandleXor2v,
     HandleXor2vWide, HandleShl2v, HandleShl2vWide, HandleShr2v, HandleShr2vWide, HandleAshr2v,
     HandleAshr2vWide, HandleDiv2v, HandleDiv2vWide, HandleMod2v, HandleMod2vWide, HandleDivu2v,
     HandleDivu2vWide, HandleModu2v, HandleModu2vWide, HandleAdd, HandleSub, HandleMul, HandleAnd,
     HandleOr, HandleXor, HandleShl, HandleShr, HandleAshr, HandleDiv, HandleMod, HandleAddv, HandleSubv,
     HandleMulv, HandleAndv, HandleOrv, HandleXorv, HandleShlv, HandleShrv, HandleAshrv, HandleDivv,
     HandleModv, HandleAddi, HandleSubi, HandleMuli, HandleAndi, HandleOri, HandleXori, HandleShli,
     HandleShri, HandleAshri, HandleDivi, HandleModi, HandleAddiv, HandleSubiv, HandleMuliv, HandleAndiv,
     HandleOriv, HandleXoriv, HandleShliv, HandleShriv, HandleAshriv, HandleDiviv, HandleModiv, HandleNeg,
     HandleNegWide, HandleFneg, HandleFnegWide, HandleNot, HandleNotWide, HandleU32toi64, HandleU32toi16,
     HandleU32tou16, HandleU32toi8, HandleU32tou8, HandleU32tou1, HandleI32toi64, HandleI32tou16,
     HandleI32toi16, HandleI32toi8, HandleI32tou8, HandleI32tou1, HandleI32tof32, HandleI32tof64,
     HandleU32tof32, HandleU32tof64, HandleI64toi32, HandleI64tou1, HandleI64tof32, HandleI64tof64,
     HandleU64toi32, HandleU64tou32, HandleU64tou1, HandleU64tof32, HandleU64tof64, HandleF32tof64,
     HandleF32toi32, HandleF32toi64, HandleF32tou32, HandleF32tou64, HandleF64tof32, HandleF64toi64,
     HandleF64toi32, HandleF64tou64, HandleF64tou32, HandleLdarr8, HandleLdarr16, HandleLdarr,
     HandleLdarrWide, HandleLdarru8, HandleLdarru16, HandleFldarr32, HandleFldarrWide, HandleStarr8,
     HandleStarr16, HandleStarr, HandleStarrWide, HandleFstarr32, HandleFstarrWide, HandleStarrObj]"

end
