(* ===== verification/Interpreter_Step.thy ===== *)
theory Interpreter_Step
  imports Interpreter
begin

text \<open>
  What a single step of the interpreter may change (theory \<open>Interpreter\<close>). Every handler of the table
  leaves the registers other than its first operand alone, and it either goes on with the next
  instruction, jumps by its immediate, ends the method, leaves for compiled code, or throws; a throw
  changes nothing but the pending exception, the profile and the opcode dispatched next.
\<close>

text \<open>The definitions of all handlers.\<close>

lemmas handler_defs =
  HandleNop_def HandleMov_def HandleMovWide_def HandleMovObj_def HandleMovDyn_def HandleMovi_def
  HandleMoviWide_def HandleFmovi_def HandleFmoviWide_def HandleMovNull_def HandleLda_def HandleLdaWide_def
  HandleLdaObj_def HandleLdai_def HandleLdaiWide_def HandleFldai_def HandleFldaiWide_def HandleLdaNull_def
  HandleLdaDyn_def HandleSta_def HandleStaWide_def HandleStaObj_def HandleStaDyn_def HandleJmp_def
  HandleInci_def HandleLdarrObj_def HandleLenarr_def HandleReturn_def HandleReturnWide_def
  HandleReturnObj_def HandleReturnVoid_def HandleThrow_def HandleCmpWide_def HandleUcmp_def
  HandleUcmpWide_def HandleFcmpl_def HandleFcmplWide_def HandleFcmpg_def HandleFcmpgWide_def HandleJeqz_def
  HandleJnez_def HandleJltz_def HandleJgtz_def HandleJlez_def HandleJgez_def HandleJeq_def HandleJne_def
  HandleJlt_def HandleJgt_def HandleJle_def HandleJge_def HandleJeqzObj_def HandleJnezObj_def
  HandleJeqObj_def HandleJneObj_def HandleAdd2_def HandleAdd2Wide_def HandleFadd2_def HandleFadd2Wide_def
  HandleSub2_def HandleSub2Wide_def HandleFsub2_def HandleFsub2Wide_def HandleMul2_def HandleMul2Wide_def
  HandleFmul2_def HandleFmul2Wide_def HandleFdiv2_def HandleFdiv2Wide_def HandleFmod2_def
  HandleFmod2Wide_def HandleAnd2_def HandleAnd2Wide_def HandleOr2_def HandleOr2Wide_def HandleXor2_def
  HandleXor2Wide_def HandleShl2_def HandleShl2Wide_def HandleShr2_def HandleShr2Wide_def HandleAshr2_def
  HandleAshr2Wide_def HandleDiv2_def HandleDiv2Wide_def HandleMod2_def HandleMod2Wide_def HandleDivu2_def
  HandleDivu2Wide_def HandleModu2_def HandleModu2Wide_def HandleAdd2v_def HandleAdd2vWide_def
  HandleFadd2v_def HandleFadd2vWide_def HandleSub2v_def HandleSub2vWide_def HandleFsub2v_def
  HandleFsub2vWide_def HandleMul2v_def HandleMul2vWide_def HandleFmul2v_def HandleFmul2vWide_def
  HandleFdiv2v_def HandleFdiv2vWide_def HandleFmod2v_def HandleFmod2vWide_def HandleAnd2v_def
  HandleAnd2vWide_def HandleOr2v_def HandleOr2vWide_def HandleXor2v_def HandleXor2vWide_def HandleShl2v_def
  HandleShl2vWide_def HandleShr2v_def HandleShr2vWide_def HandleAshr2v_def HandleAshr2vWide_def
  HandleDiv2v_def HandleDiv2vWide_def HandleMod2v_def HandleMod2vWide_def HandleDivu2v_def
  HandleDivu2vWide_def HandleModu2v_def HandleModu2vWide_def HandleAdd_def HandleSub_def HandleMul_def
  HandleAnd_def HandleOr_def HandleXor_def HandleShl_def HandleShr_def HandleAshr_def HandleDiv_def
  HandleMod_def HandleAddv_def HandleSubv_def HandleMulv_def HandleAndv_def HandleOrv_def HandleXorv_def
  HandleShlv_def HandleShrv_def HandleAshrv_def HandleDivv_def HandleModv_def HandleAddi_def HandleSubi_def
  HandleMuli_def HandleAndi_def HandleOri_def HandleXori_def HandleShli_def HandleShri_def HandleAshri_def
  HandleDivi_def HandleModi_def HandleAddiv_def HandleSubiv_def HandleMuliv_def HandleAndiv_def
  HandleOriv_def HandleXoriv_def HandleShliv_def HandleShriv_def HandleAshriv_def HandleDiviv_def
  HandleModiv_def HandleNeg_def HandleNegWide_def HandleFneg_def HandleFnegWide_def HandleNot_def
  HandleNotWide_def HandleU32toi64_def HandleU32toi16_def HandleU32tou16_def HandleU32toi8_def
  HandleU32tou8_def HandleU32tou1_def HandleI32toi64_def HandleI32tou16_def HandleI32toi16_def
  HandleI32toi8_def HandleI32tou8_def HandleI32tou1_def HandleI32tof32_def HandleI32tof64_def
  HandleU32tof32_def HandleU32tof64_def HandleI64toi32_def HandleI64tou1_def HandleI64tof32_def
  HandleI64tof64_def HandleU64toi32_def HandleU64tou32_def HandleU64tou1_def HandleU64tof32_def
  HandleU64tof64_def HandleF32tof64_def HandleF32toi32_def HandleF32toi64_def HandleF32tou32_def
  HandleF32tou64_def HandleF64tof32_def HandleF64toi64_def HandleF64toi32_def HandleF64tou64_def
  HandleF64tou32_def HandleLdarr8_def HandleLdarr16_def HandleLdarr_def HandleLdarrWide_def
  HandleLdarru8_def HandleLdarru16_def HandleFldarr32_def HandleFldarrWide_def HandleStarr8_def
  HandleStarr16_def HandleStarr_def HandleStarrWide_def HandleFstarr32_def HandleFstarrWide_def
  HandleStarrObj_def

section \<open>What a handler changes\<close>

text \<open>A step without a safepoint leaves the registers other than its first operand alone, and the
  number of registers.\<close>

definition frame_kept :: "BytecodeInst \<Rightarrow> Interp \<Rightarrow> Interp \<Rightarrow> bool" where
  "frame_kept i s s' \<longleftrightarrow> length (vregs s') = length (vregs s) \<and>
     (\<forall>k < length (vregs s). k \<noteq> vreg0 i \<longrightarrow> vregs s' ! k = vregs s ! k)"

text \<open>A step that throws changes nothing but the pending exception, the profile and the opcode that is
  dispatched next, which is the one of the exception handler.\<close>

definition throws_cleanly :: "Env \<Rightarrow> BytecodeInst \<Rightarrow> Interp \<Rightarrow> Interp \<Rightarrow> bool" where
  "throws_cleanly env i s s' \<longleftrightarrow>
     GetExceptionOpcode i s' = of_nat (256 + NUM_PREFIXED env) \<and> vregs s' = vregs s \<and> acc s' = acc s \<and>
     bytecode_offset s' = bytecode_offset s \<and> heap s' = heap s \<and> frame_acc s' = frame_acc s"

definition no_safepoint :: "Env \<Rightarrow> bool" where
  "no_safepoint env \<longleftrightarrow> (\<forall>s. \<not> TestAllFlags env s)"

text \<open>The outcome of a handler: it throws, it ends the method or leaves the interpreter by on-stack
  replacement, it jumps by the immediate, or it goes on with the next instruction.\<close>

definition outcome :: "Env \<Rightarrow> BytecodeInst \<Rightarrow> Interp \<Rightarrow> Interp \<Rightarrow> bool" where
  "outcome env i s s' \<longleftrightarrow> frame_kept i s s' \<and>
     (if exception s' \<noteq> exception s then throws_cleanly env i s s'
      else bytecode_offset s' = bytecode_offset s + inst_size i \<or>
           int (bytecode_offset s') = int (bytecode_offset s) + imm i \<or>
           fake_return s' \<or>
           s' = s\<lparr>frame_acc := frame_acc s'\<rparr>)"

definition handles :: "Env \<Rightarrow> Interp \<Rightarrow> (BytecodeInst \<Rightarrow> Interp \<Rightarrow> Interp option) \<Rightarrow> bool" where
  "handles env s h \<longleftrightarrow> (\<forall>i s'. h i s = Some s' \<longrightarrow> outcome env i s s')"

lemma frame_kept_same: "vregs s' = vregs s \<Longrightarrow> frame_kept i s s'"
  by (simp add: frame_kept_def)

lemma ThrowTo_outcome: "exception s = None \<Longrightarrow> outcome env i s (ThrowTo e env i s)"
  by (simp add: outcome_def ThrowTo_def MoveToExceptionHandler_def throws_cleanly_def GetExceptionOpcode_def
      frame_kept_def Let_def)

lemma checked_outcome:
  assumes "exception s = None" "\<And>a. outcome env i s (f a)"
  shows "outcome env i s (case c of Inl e \<Rightarrow> ThrowTo e env i s | Inr a \<Rightarrow> f a)"
  using assms ThrowTo_outcome by (cases c) auto

lemma MoveToNextInst_outcome:
  "vregs s' = vregs s \<Longrightarrow> exception s' = exception s \<Longrightarrow> bytecode_offset s' = bytecode_offset s \<Longrightarrow>
   outcome env i s (MoveToNextInst b i s')"
  by (simp add: outcome_def MoveToNextInst_def frame_kept_def)

lemma PutVReg_outcome: "PutVReg (vreg0 i) r s = Some s' \<Longrightarrow> outcome env i s (MoveToNextInst b i s')"
  by (auto simp: PutVReg_def outcome_def MoveToNextInst_def frame_kept_def split: if_splits)

lemma UpdateBranchStatistics_frame [simp]:
  "vregs (UpdateBranchStatistics b s) = vregs s" "exception (UpdateBranchStatistics b s) = exception s"
  "bytecode_offset (UpdateBranchStatistics b s) = bytecode_offset s" "fake_return (UpdateBranchStatistics b s) = fake_return s"
  "acc (UpdateBranchStatistics b s) = acc s" "heap (UpdateBranchStatistics b s) = heap s" "frame_acc (UpdateBranchStatistics b s) = frame_acc s"
  by (simp_all add: UpdateBranchStatistics_def split: option.split)

lemma InstrumentBranches_frame:
  assumes "no_safepoint env" "InstrumentBranches env off s = (b, s')"
  shows "vregs s' = vregs s \<and> exception s' = exception s \<and> bytecode_offset s' = bytecode_offset s \<and> (b \<longrightarrow> fake_return s')"
  using assms by (auto simp: InstrumentBranches_def no_safepoint_def Let_def split: if_splits)

lemma JumpToInst_outcome:
  assumes "JumpToInst (imm i) t = Some s'" "vregs t = vregs s" "exception t = exception s" "bytecode_offset t = bytecode_offset s"
  shows "outcome env i s s'"
  using assms by (auto simp: JumpToInst_def outcome_def frame_kept_def split: if_splits)

lemma branch_outcome:
  assumes "no_safepoint env" "(case InstrumentBranches env (imm i) t of (True, s') \<Rightarrow> Some s' | (False, s') \<Rightarrow> JumpToInst (imm i) s') = Some s'"
    "vregs t = vregs s" "exception t = exception s" "bytecode_offset t = bytecode_offset s"
  shows "outcome env i s s'"
proof -
  obtain b u where u: "InstrumentBranches env (imm i) t = (b, u)" by (cases "InstrumentBranches env (imm i) t")
  note f = InstrumentBranches_frame[OF assms(1) u]
  show ?thesis
  proof (cases b)
    case True
    then show ?thesis using u f assms by (simp add: outcome_def frame_kept_def)
  next
    case False
    then show ?thesis using u f assms JumpToInst_outcome[of i u s' s env] by simp
  qed
qed

lemma HandleBranch_outcome:
  assumes "no_safepoint env" "HandleBranch env i taken s = Some s'"
  shows "outcome env i s s'"
proof (cases taken)
  case True
  then show ?thesis using assms branch_outcome[OF assms(1), of i "UpdateBranchStatistics True s"] by (simp add: HandleBranch_def)
next
  case False
  then show ?thesis using assms(2) by (auto simp: HandleBranch_def intro!: MoveToNextInst_outcome)
qed

text \<open>The three ways the shared bodies end without a throw.\<close>

lemma MoveToNextInst_outcomes [simp]:
  "outcome env i s (MoveToNextInst b i s)"
  "outcome env i s (MoveToNextInst b i (s\<lparr>acc := a\<rparr>))"
  "outcome env i s (MoveToNextInst b i (s\<lparr>heap := h\<rparr>))"
  by (simp_all add: MoveToNextInst_outcome)

lemma PutVReg_Some_outcome [simp]:
  "map_option (MoveToNextInst b i) (PutVReg (vreg0 i) r s) = Some s' \<Longrightarrow> outcome env i s s'"
  by (auto dest: PutVReg_outcome)

text \<open>The shared bodies.\<close>

lemma acc_template_outcomes:
  assumes "exception s = None"
  shows "handles env s (HandleBinaryOp2Imm d setv Op env)"
    and "handles env s (HandleBinaryOp2 d setv Op env)"
    and "handles env s (HandleBinaryOp d setv Op env)"
    and "handles env s (HandleUnaryOp setv op1 env)"
    and "handles env s (HandleConversion setv cst env)"
    and "handles env s (HandleFloatToIntConversion setv cst env)"
    and "handles env s (HandleArrayPrimitiveLoad ld env)"
    and "handles env s (HandleArrayStore ob st env)"
  using ThrowTo_outcome[OF assms, of env]
  by (auto simp: handles_def HandleBinaryOp2Imm_def HandleBinaryOp2_def HandleBinaryOp_def HandleUnaryOp_def HandleConversion_def
      HandleFloatToIntConversion_def HandleArrayPrimitiveLoad_def HandleArrayStore_def Let_def bind_eq_Some_conv
      intro!: checked_outcome[OF assms] split: if_splits)

lemma vreg_template_outcomes:
  assumes "exception s = None"
  shows "handles env s (HandleBinaryOpImmV d setv Op env)"
    and "handles env s (HandleBinaryOp2V d setv Op env)"
    and "handles env s (HandleBinaryOpV d setv Op env)"
  using ThrowTo_outcome[OF assms, of env]
  by (auto simp: handles_def HandleBinaryOpImmV_def HandleBinaryOp2V_def HandleBinaryOpV_def Let_def bind_eq_Some_conv
      dest: PutVReg_outcome split: if_splits)

lemma mov_outcomes:
  assumes "exception s = None"
  shows "handles env s (HandleNop env)"
    and "handles env s (HandleMov env)"
    and "handles env s (HandleMovWide env)"
    and "handles env s (HandleMovObj env)"
    and "handles env s (HandleMovDyn env)"
    and "handles env s (HandleMovi env)"
    and "handles env s (HandleMoviWide env)"
    and "handles env s (HandleFmovi env)"
    and "handles env s (HandleFmoviWide env)"
    and "handles env s (HandleMovNull env)"
    and "handles env s (HandleSta env)"
    and "handles env s (HandleStaWide env)"
    and "handles env s (HandleStaObj env)"
    and "handles env s (HandleStaDyn env)"
    and "handles env s (HandleInci env)"
  by (auto simp: handles_def HandleNop_def HandleMov_def HandleMovWide_def HandleMovObj_def HandleMovDyn_def HandleMovi_def
      HandleMoviWide_def HandleFmovi_def HandleFmoviWide_def HandleMovNull_def HandleSta_def HandleStaWide_def
      HandleStaObj_def HandleStaDyn_def HandleInci_def Let_def bind_eq_Some_conv dest: PutVReg_outcome split: if_splits)

lemma lda_outcomes:
  assumes "exception s = None"
  shows "handles env s (HandleLda env)"
    and "handles env s (HandleLdaWide env)"
    and "handles env s (HandleLdaObj env)"
    and "handles env s (HandleLdai env)"
    and "handles env s (HandleLdaiWide env)"
    and "handles env s (HandleFldai env)"
    and "handles env s (HandleFldaiWide env)"
    and "handles env s (HandleLdaNull env)"
    and "handles env s (HandleLdaDyn env)"
    and "handles env s (HandleLdarrObj env)"
    and "handles env s (HandleLenarr env)"
  using ThrowTo_outcome[OF assms, of env]
  by (auto simp: handles_def HandleLda_def HandleLdaWide_def HandleLdaObj_def HandleLdai_def HandleLdaiWide_def HandleFldai_def
      HandleFldaiWide_def HandleLdaNull_def HandleLdaDyn_def HandleLdarrObj_def HandleLenarr_def Let_def
      bind_eq_Some_conv intro!: checked_outcome[OF assms] split: if_splits)

lemma return_outcomes:
  "handles env s (HandleReturn env)"
  "handles env s (HandleReturnWide env)"
  "handles env s (HandleReturnObj env)"
  "handles env s (HandleReturnVoid env)"
  by (auto simp: handles_def HandleReturn_def HandleReturnWide_def HandleReturnObj_def HandleReturnVoid_def outcome_def frame_kept_def)

lemma jump_outcomes:
  assumes "no_safepoint env"
  shows "handles env s (HandleCondJmpz op2 env)"
    and "handles env s (HandleCondJmp op2 env)"
    and "handles env s (HandleCondJmpzObj op3 env)"
    and "handles env s (HandleCondJmpObj op3 env)"
  by (auto simp: handles_def HandleCondJmpz_def HandleCondJmp_def HandleCondJmpzObj_def HandleCondJmpObj_def bind_eq_Some_conv
      dest: HandleBranch_outcome[OF assms])

lemma HandleJmp_outcome:
  assumes "no_safepoint env"
  shows "handles env s (HandleJmp env)"
  unfolding handles_def HandleJmp_def using branch_outcome[OF assms, where t = s and s = s] by blast

lemma UpdateThrowStatistics_frame:
  "UpdateThrowStatistics s = Some s' \<Longrightarrow> \<exists>p. s' = s\<lparr>profData := p\<rparr>"
  by (cases s) (auto simp: UpdateThrowStatistics_def split: option.splits)

lemma HandleThrow_outcome:
  assumes "exception s = None"
  shows "handles env s (HandleThrow env)"
proof -
  have "outcome env i s (MoveToExceptionHandler env i (s\<lparr>exception := Some e, profData := p\<rparr>))" for i e p
    using assms by (simp add: outcome_def throws_cleanly_def frame_kept_def MoveToExceptionHandler_def GetExceptionOpcode_def)
  then show ?thesis by (auto simp: handles_def HandleThrow_def Let_def bind_eq_Some_conv dest!: UpdateThrowStatistics_frame)
qed

lemma all_outcomes:
  assumes "no_safepoint env" "exception s = None"
  shows "list_all (\<lambda>h. handles env s (h env)) handlers"
  by (simp add: handlers_def handler_defs acc_template_outcomes vreg_template_outcomes mov_outcomes lda_outcomes
      return_outcomes jump_outcomes HandleJmp_outcome HandleThrow_outcome assms)

section \<open>Properties\<close>

text \<open>An environment without safepoints, and an instruction.\<close>

definition quiet_env :: "FloatOps \<Rightarrow> Env" where
  "quiet_env fo = \<lparr>NUM_PREFIXED = 0, TestAllFlags = (\<lambda>_. False), Safepoint = (\<lambda>s. s), UpdateHotnessOSR = (\<lambda>_ _. False),
     IsInstanceOfComponent = (\<lambda>_ _. True), fops = fo\<rparr>"

definition mk_binst :: "nat \<Rightarrow> nat \<Rightarrow> int \<Rightarrow> BytecodeInst" where
  "mk_binst a b im = \<lparr>inst_size = 3, primary_opcode = 7, vreg0 = a, vreg1 = b, imm = im\<rparr>"

definition mk_interp :: "VReg list \<Rightarrow> VReg \<Rightarrow> (u32 \<Rightarrow> ArrayObj option) \<Rightarrow> ProfilingData option \<Rightarrow> Interp" where
  "mk_interp rs a h p = \<lparr>vregs = rs, acc = a, frame_acc = SetPrimitive 0, bytecode_offset = 10, fake_return = False,
     opcodeExtension = 0, exception = None, heap = h, profData = p\<rparr>"

lemma quiet_env_simps [simp]: "no_safepoint (quiet_env fo)" "\<not> UpdateHotnessOSR (quiet_env fo) s off"
  by (simp_all add: no_safepoint_def quiet_env_def)

text \<open>C23: Between safepoints, every handler that returns leaves the number of registers and all
  registers but its first operand as they are. If it throws, which shows as a changed pending exception,
  then the dispatched opcode becomes the one of the exception handler and the registers, the accumulator,
  the position, the heap and the saved accumulator are unchanged; otherwise the position moves to the next
  instruction or by the jump offset, or the method ends or is left for compiled code.\<close>

theorem handlers_outcome:
  assumes "no_safepoint env" "exception s = None"
  shows "list_all (\<lambda>h. \<forall>s'. h env i s = Some s' \<longrightarrow> outcome env i s s') handlers"
  using all_outcomes[OF assms] by (simp add: handles_def list_all_iff)

theorem handlers_outcome_witness:
  "\<forall>fo. HandleDiv2 (quiet_env fo) (mk_binst 0 0 0) (mk_interp [SetPrimitive 0] (SetPrimitive 5) (\<lambda>_. None) None) =
     Some (ThrowTo ArithmeticException (quiet_env fo) (mk_binst 0 0 0) (mk_interp [SetPrimitive 0] (SetPrimitive 5) (\<lambda>_. None) None)) \<and>
   throws_cleanly (quiet_env fo) (mk_binst 0 0 0) (mk_interp [SetPrimitive 0] (SetPrimitive 5) (\<lambda>_. None) None)
     (ThrowTo ArithmeticException (quiet_env fo) (mk_binst 0 0 0) (mk_interp [SetPrimitive 0] (SetPrimitive 5) (\<lambda>_. None) None))"
proof
  fix fo
  let ?e = "quiet_env fo" and ?i = "mk_binst 0 0 0" and ?s = "mk_interp [SetPrimitive 0] (SetPrimitive 5) (\<lambda>_. None) None"
  have d: "HandleDiv2 ?e ?i ?s = Some (ThrowTo ArithmeticException ?e ?i ?s)"
    by (simp add: HandleDiv2_def HandleBinaryOp2_def GetVReg_def nth_opt_def mk_binst_def mk_interp_def SetPrimitive_def GetAs_def)
  have "HandleDiv2 \<in> set handlers" by (simp add: handlers_def)
  then have "outcome ?e ?i ?s (ThrowTo ArithmeticException ?e ?i ?s)"
    using handlers_outcome[of ?e ?s ?i] d by (auto simp: list_all_iff mk_interp_def)
  then have "throws_cleanly ?e ?i ?s (ThrowTo ArithmeticException ?e ?i ?s)"
    by (simp add: outcome_def ThrowTo_def MoveToExceptionHandler_def mk_interp_def Let_def)
  with d show "HandleDiv2 ?e ?i ?s = Some (ThrowTo ArithmeticException ?e ?i ?s) \<and>
    throws_cleanly ?e ?i ?s (ThrowTo ArithmeticException ?e ?i ?s)" by simp
qed

end
