(* ===== verification/Const_Folding_Sound.thy ===== *)
theory Const_Folding_Sound
  imports Const_Folding
begin

text \<open>
  Correctness of constant folding (theory \<open>Const_Folding\<close>). A constant \<^emph>\<open>denotes\<close> a number at a type
  when the cast to that type reads the number; folding is correct when the instruction is replaced by a
  constant of the graph that denotes the operation's result, wrapped to the instruction's type. The
  locale \<open>int_folding\<close> states this contract for a binary operation and is interpreted by the folding
  functions of the thirteen binary integer operations; unary operations, casts, comparisons, the
  identities on operands that are not constants and the comparisons with NaN follow.
\<close>


section \<open>Integer types and conversions\<close>

definition is_int :: "DataType \<Rightarrow> bool" where
  "is_int t \<longleftrightarrow> t \<in> {UINT8, INT8, UINT16, INT16, UINT32, INT32, UINT64, INT64}"

definition wrap_int :: "DataType \<Rightarrow> int \<Rightarrow> int" where
  "wrap_int t v = (if IsTypeSigned t then signed_take_bit (int_width t - 1) v else take_bit (int_width t) v)"

lemma castTo_wrap: "is_int t \<Longrightarrow> castTo t v = Some (wrap_int t v)"
  by (auto simp: is_int_def wrap_int_def IsTypeSigned_def uint_word_of_int take_bit_eq_mod sint_sbintrunc')

lemma int_width_pos: "is_int t \<Longrightarrow> 0 < int_width t"
  by (auto simp: is_int_def)

lemma take_bit_wrap_int: "is_int t \<Longrightarrow> take_bit (int_width t) (wrap_int t v) = take_bit (int_width t) v"
  by (auto simp: wrap_int_def take_bit_signed_take_bit is_int_def IsTypeSigned_def)

lemma wrap_int_cong:
  assumes "is_int t" "take_bit (int_width t) a = take_bit (int_width t) b"
  shows "wrap_int t a = wrap_int t b"
proof -
  have "signed_take_bit (int_width t - 1) a = signed_take_bit (int_width t - 1) (take_bit (int_width t) a)" for a :: int
    using int_width_pos[OF assms(1)] by (cases "int_width t") (simp_all add: signed_take_bit_take_bit)
  then show ?thesis using assms(2) by (simp add: wrap_int_def) (metis assms(2))
qed

lemma is_int_common: "is_int t \<Longrightarrow> GetCommonType t = INT64"
  by (auto simp: is_int_def GetCommonType_def)

lemma is_int_32_width: "is_int t \<Longrightarrow> IsInt32Bit t \<Longrightarrow> int_width t \<le> 32"
  by (auto simp: is_int_def IsInt32Bit_def)

lemma IsInt32Bit_width: "is_int t \<Longrightarrow> IsInt32Bit t \<longleftrightarrow> int_width t \<noteq> 64"
  by (auto simp: is_int_def IsInt32Bit_def)

text \<open>\<open>denotes t c x\<close>: read at type \<open>t\<close>, the constant \<open>c\<close> is the number \<open>x\<close>. Different
  constants may denote the same number, since the bits above the type's width do not matter.\<close>

definition denotes :: "DataType \<Rightarrow> ConstantInst \<Rightarrow> int \<Rightarrow> bool" where
  "denotes t c x \<longleftrightarrow> castTo t (uint (GetIntValue c)) = Some x"

text \<open>\<open>canonical t c x\<close>: the whole constant is \<open>x\<close>, extended by the sign of the type.\<close>

definition canonical :: "DataType \<Rightarrow> ConstantInst \<Rightarrow> int \<Rightarrow> bool" where
  "canonical t c x \<longleftrightarrow> (if IsTypeSigned t then sint (GetIntValue c) = x \<and> wrap_int t x = x
     else uint (GetIntValue c) = x \<and> wrap_int t x = x)"

lemma denotes_take_bit:
  assumes "is_int t" "denotes t c x"
  shows "take_bit (int_width t) x = take_bit (int_width t) (uint (GetIntValue c))"
  using assms by (simp add: denotes_def castTo_wrap) (metis take_bit_wrap_int)

lemma take_bit_64_width: "is_int t \<Longrightarrow> take_bit (int_width t) (take_bit 64 v) = take_bit (int_width t) v"
  using int_width_le_64[of t] by (simp add: min_absorb1)

lemma canonical_denotes:
  assumes "is_int t" "canonical t c x" shows "denotes t c x"
proof -
  have "take_bit (int_width t) (uint (GetIntValue c)) = take_bit (int_width t) x"
    using assms by (auto simp: canonical_def uint_sint min_absorb1 int_width_le_64 split: if_splits)
  then have "wrap_int t (uint (GetIntValue c)) = wrap_int t x" by (rule wrap_int_cong[OF assms(1)])
  then show ?thesis using assms by (simp add: denotes_def castTo_wrap canonical_def split: if_splits)
qed

section \<open>Constants of the graph\<close>

text \<open>A graph that has all constants of another one, and is otherwise the same.\<close>

definition extends :: "Graph \<Rightarrow> Graph \<Rightarrow> bool" where
  "extends g g' \<longleftrightarrow> (\<exists>cs. g' = g\<lparr>constants := constants g @ cs\<rparr>)"

lemma ucast_scast_32: "ucast (scast v :: u64) = (v :: u32)"
  by (rule bit_word_eqI) (simp add: bit_ucast_iff bit_signed_iff)

lemma FindOrCreateConstant_spec:
  assumes "FindOrCreateConstant g v = (c, g')"
  shows "IsEqualConst c v (IsBytecodeOptimizer g) \<and> c \<in> set (constants g') \<and> extends g g'"
proof (cases "List.find (\<lambda>c. IsEqualConst c v (IsBytecodeOptimizer g)) (constants g)")
  case None
  then have c: "c = CreateInstConstant v (IsBytecodeOptimizer g)" "g' = g\<lparr>constants := constants g @ [c]\<rparr>"
    using assms by (auto simp: FindOrCreateConstant_def Let_def)
  have "IsEqualConst c v (IsBytecodeOptimizer g)"
    unfolding c(1) by (cases v) (auto simp: ucast_scast_32)
  then show ?thesis using c(2) by (auto simp: extends_def)
next
  case (Some d)
  then have "c = d" "g' = g" using assms by (auto simp: FindOrCreateConstant_def Let_def)
  moreover have "constants g = constants g @ []" by simp
  ultimately show ?thesis using Some by (auto simp: find_Some_iff extends_def intro!: exI[of _ "[]"])
qed

section \<open>Folding creates a constant that denotes the wrapped result\<close>

text \<open>\<open>folds_to g t r v\<close>: the instruction is replaced by a constant of the graph that denotes \<open>v\<close>,
  wrapped to the type.\<close>

definition folds_to :: "Graph \<Rightarrow> DataType \<Rightarrow> Folding \<times> Graph \<Rightarrow> int \<Rightarrow> bool" where
  "folds_to g t r v \<longleftrightarrow>
     (\<exists>c g'. r = (Replaced (Constant c), g') \<and> denotes t c (wrap_int t v) \<and> c \<in> set (constants g') \<and> extends g g')"

lemma wrap_int_idem: "is_int t \<Longrightarrow> wrap_int t (wrap_int t v) = wrap_int t v"
  by (rule wrap_int_cong) (simp_all add: take_bit_wrap_int)

lemma folds_to_cong: "is_int t \<Longrightarrow> wrap_int t v = wrap_int t w \<Longrightarrow> folds_to g t r v \<longleftrightarrow> folds_to g t r w"
  by (simp add: folds_to_def)

lemma folds_to_U64:
  assumes "is_int t"
  shows "folds_to g t (replaceBy (FindOrCreateConstant g (U64 u))) (uint u)"
proof -
  obtain c g' where f: "FindOrCreateConstant g (U64 u) = (c, g')" by (cases "FindOrCreateConstant g (U64 u)")
  then show ?thesis
    using FindOrCreateConstant_spec[OF f] assms
    by (auto simp: folds_to_def replaceBy_def denotes_def castTo_wrap GetIntValue_def)
qed

lemma wrap_int_low32:
  assumes "is_int t" "IsInt32Bit t" "(ucast a :: u32) = ucast b"
  shows "wrap_int t (uint (a :: u64)) = wrap_int t (uint (b :: u64))"
proof -
  have "take_bit 32 (uint a) = take_bit 32 (uint b)"
    using arg_cong[OF assms(3), of uint] by (simp add: unsigned_ucast_eq)
  then have "take_bit (int_width t) (take_bit 32 (uint a)) = take_bit (int_width t) (take_bit 32 (uint b))" by simp
  then show ?thesis using is_int_32_width[OF assms(1,2)] by (intro wrap_int_cong assms(1)) (simp add: min_absorb1)
qed

lemma folds_to_U32:
  assumes "is_int t" "IsInt32Bit t" "IsBytecodeOptimizer g"
  shows "folds_to g t (replaceBy (FindOrCreateConstant g (U32 (ucast u)))) (uint (u :: u64))"
proof -
  obtain c g' where f: "FindOrCreateConstant g (U32 (ucast u)) = (c, g')"
    by (cases "FindOrCreateConstant g (U32 (ucast u))")
  have "(ucast (value_raw c) :: u32) = ucast u" using FindOrCreateConstant_spec[OF f] assms(3) by simp
  then have "wrap_int t (uint (value_raw c)) = wrap_int t (uint u)" by (rule wrap_int_low32[OF assms(1,2)])
  then show ?thesis
    using FindOrCreateConstant_spec[OF f] f assms
    by (auto simp: folds_to_def replaceBy_def denotes_def castTo_wrap GetIntValue_def)
qed

lemma folds_to_CreateIntConst:
  "is_int t \<Longrightarrow> folds_to g t (replaceBy (ConstFoldingCreateIntConst g t u l)) (uint u)"
  by (simp add: ConstFoldingCreateIntConst_def folds_to_U64 folds_to_U32)

lemma wrap_int_uint_of_int: "is_int t \<Longrightarrow> wrap_int t (uint (word_of_int v :: u64)) = wrap_int t v"
  using take_bit_64_width[of t v] by (intro wrap_int_cong) (simp_all add: uint_word_of_int take_bit_eq_mod)

lemma foldInt_folds:
  assumes t: "is_int t"
  shows "folds_to g t (foldInt g t v) v" and "folds_to g t (foldInt64 g t v) v"
    and "IsInt32Bit t \<Longrightarrow> IsBytecodeOptimizer g \<Longrightarrow> folds_to g t (foldInt32 g t v) v"
  using folds_to_CreateIntConst[OF t, of g "word_of_int (wrap_int t v)" False]
    folds_to_U64[OF t, of g "word_of_int (wrap_int t v)"] folds_to_U32[OF t, of g "word_of_int (wrap_int t v)"]
  by (simp_all add: foldInt_def foldInt64_def foldInt32_def ConvertIntToInt_def castTo_wrap[OF t]
      folds_to_def wrap_int_uint_of_int[OF t] wrap_int_idem[OF t])


section \<open>Folding of binary operations\<close>

text \<open>The contract of a folding function for an integer operation \<open>f\<close> on two constants; \<open>pre\<close> says
  how the constants have to present the operands.\<close>

locale int_folding =
  fixes fold :: "Graph \<Rightarrow> FoldInst \<Rightarrow> Folding \<times> Graph"
    and f :: "DataType \<Rightarrow> int \<Rightarrow> int \<Rightarrow> int"
    and pre :: "DataType \<Rightarrow> ConstantInst \<Rightarrow> ConstantInst \<Rightarrow> int \<Rightarrow> int \<Rightarrow> bool"
  assumes folds: "is_int (itype inst) \<Longrightarrow> input0 inst = Constant c0 \<Longrightarrow> input1 inst = Constant c1 \<Longrightarrow>
      pre (itype inst) c0 c1 x y \<Longrightarrow> folds_to g (itype inst) (fold g inst) (f (itype inst) x y)"
begin

lemma folds_value:
  assumes "is_int (itype inst)" "input0 inst = Constant c0" "input1 inst = Constant c1" "pre (itype inst) c0 c1 x y"
  obtains c g' where "fold g inst = (Replaced (Constant c), g')"
    and "denotes (itype inst) c (wrap_int (itype inst) (f (itype inst) x y))" and "extends g g'"
  using folds[OF assms, of g] by (auto simp: folds_to_def)

lemma never_stuck:
  assumes "is_int (itype inst)" "input0 inst = Constant c0" "input1 inst = Constant c1" "pre (itype inst) c0 c1 x y"
  shows "fst (fold g inst) \<noteq> Kept \<and> fst (fold g inst) \<noteq> Unreachable \<and> fst (fold g inst) \<noteq> Undefined"
  using folds[OF assms, of g] by (auto simp: folds_to_def)

end

definition denote2 :: "DataType \<Rightarrow> ConstantInst \<Rightarrow> ConstantInst \<Rightarrow> int \<Rightarrow> int \<Rightarrow> bool" where
  "denote2 t c0 c1 x y \<longleftrightarrow> denotes t c0 x \<and> denotes t c1 y"

text \<open>Operations whose low result bits depend on the low operand bits only.\<close>

lemma folds_low_bits:
  assumes d: "denote2 t c0 c1 x y" and t: "is_int t"
    and low: "\<And>a b. take_bit (int_width t) (h (take_bit (int_width t) a) (take_bit (int_width t) b)) = take_bit (int_width t) (h a b)"
    and r: "take_bit (int_width t) v = take_bit (int_width t) (h (uint (GetIntValue c0)) (uint (GetIntValue c1)))"
  shows "folds_to g t (foldInt g t v) (h x y)"
proof -
  let ?tb = "take_bit (int_width t)" and ?a = "uint (GetIntValue c0)" and ?b = "uint (GetIntValue c1)"
  have e: "?tb x = ?tb ?a" "?tb y = ?tb ?b" using d denotes_take_bit[OF t] by (simp_all add: denote2_def)
  have "?tb (h x y) = ?tb (h (?tb x) (?tb y))" by (rule low[symmetric])
  also have "\<dots> = ?tb (h ?a ?b)" unfolding e by (rule low)
  finally have "wrap_int t (h x y) = wrap_int t v" using r by (intro wrap_int_cong t) simp
  then show ?thesis using foldInt_folds(1)[OF t, of g v] by (simp add: folds_to_def)
qed

lemma take_bit_uint_word:
  assumes "is_int t"
  shows "take_bit (int_width t) (uint (a + b :: u64)) = take_bit (int_width t) (uint a + uint b)"
    and "take_bit (int_width t) (uint (a - b)) = take_bit (int_width t) (uint a - uint b)"
    and "take_bit (int_width t) (uint (a * b)) = take_bit (int_width t) (uint a * uint b)"
    and "take_bit (int_width t) (uint (- a)) = take_bit (int_width t) (- uint a)"
proof -
  have m: "take_bit (int_width t) (v mod 2 ^ 64) = take_bit (int_width t) v" for v :: int
    using take_bit_64_width[OF assms, of v] by (simp only: take_bit_eq_mod[of 64])
  show "take_bit (int_width t) (uint (a + b :: u64)) = take_bit (int_width t) (uint a + uint b)"
    "take_bit (int_width t) (uint (a - b)) = take_bit (int_width t) (uint a - uint b)"
    "take_bit (int_width t) (uint (a * b)) = take_bit (int_width t) (uint a * uint b)"
    "take_bit (int_width t) (uint (- a)) = take_bit (int_width t) (- uint a)"
    using m[of "uint a + uint b"] m[of "uint a - uint b"] m[of "uint a * uint b"] m[of "- uint a"]
    by (simp_all add: uint_word_ariths)
qed

interpretation fold_add: int_folding "ConstFoldingAdd fo" "\<lambda>_. (+)" denote2
  by unfold_locales (simp add: ConstFoldingAdd_def is_int_common, erule folds_low_bits,
    simp_all add: take_bit_add take_bit_uint_word)

interpretation fold_sub: int_folding "ConstFoldingSub fo" "\<lambda>_. (-)" denote2
  by unfold_locales (simp add: ConstFoldingSub_def is_int_common, erule folds_low_bits,
    simp_all add: take_bit_diff take_bit_uint_word)

interpretation fold_mul: int_folding "ConstFoldingMul fo" "\<lambda>_. (*)" denote2
  by unfold_locales (simp add: ConstFoldingMul_def is_int_common, erule folds_low_bits,
    simp_all add: take_bit_mult take_bit_uint_word)

interpretation fold_and: int_folding ConstFoldingAnd "\<lambda>_. (AND)" denote2
  by unfold_locales (simp add: ConstFoldingAnd_def, erule folds_low_bits, simp_all add: unsigned_and_eq)

interpretation fold_or: int_folding ConstFoldingOr "\<lambda>_. (OR)" denote2
  by unfold_locales (simp add: ConstFoldingOr_def, erule folds_low_bits, simp_all add: unsigned_or_eq)

interpretation fold_xor: int_folding ConstFoldingXor "\<lambda>_. (XOR)" denote2
  by unfold_locales (simp add: ConstFoldingXor_def, erule folds_low_bits, simp_all add: unsigned_xor_eq)


subsection \<open>Division, remainder, minimum and maximum\<close>

definition canonical2 :: "DataType \<Rightarrow> ConstantInst \<Rightarrow> ConstantInst \<Rightarrow> int \<Rightarrow> int \<Rightarrow> bool" where
  "canonical2 t c0 c1 x y \<longleftrightarrow> canonical t c0 x \<and> canonical t c1 y"

lemma sint_ucast_32: "sint (ucast (w :: u64) :: u32) = signed_take_bit 31 (sint w)"
proof -
  have "sint (ucast w :: u32) = signed_take_bit 31 (uint w)" by (simp add: signed_ucast_eq)
  moreover have "signed_take_bit 31 (uint w) = signed_take_bit 31 (sint w)"
    by (simp add: uint_sint signed_take_bit_take_bit)
  ultimately show ?thesis by simp
qed

lemma wrap_int_bounds:
  assumes "is_int t" "wrap_int t x = x"
  shows "IsTypeSigned t \<Longrightarrow> - (2 ^ (int_width t - 1)) \<le> x \<and> x < 2 ^ (int_width t - 1)"
    and "\<not> IsTypeSigned t \<Longrightarrow> 0 \<le> x \<and> x < 2 ^ int_width t"
  using assms by (simp_all add: wrap_int_def signed_take_bit_int_eq_self_iff take_bit_int_eq_self_iff)

lemma asInt_canonical:
  assumes "is_int t" "IsTypeSigned t" "canonical t c x"
  shows "asInt64 c = x" and "IsInt32Bit t \<Longrightarrow> asInt32 c = x"
proof -
  have x: "sint (GetIntValue c) = x" "wrap_int t x = x" using assms by (auto simp: canonical_def)
  then show "asInt64 c = x" by (simp add: asInt64_def)
  assume "IsInt32Bit t"
  then have "(2::int) ^ (int_width t - 1) \<le> 2 ^ 31"
    using is_int_32_width[OF assms(1)] by (intro power_increasing) simp_all
  then have "signed_take_bit 31 x = x"
    using wrap_int_bounds(1)[OF assms(1) x(2) assms(2)] unfolding signed_take_bit_int_eq_self_iff by linarith
  then show "asInt32 c = x" using x(1) by (simp add: asInt32_def sint_ucast_32)
qed

lemma wrap_int_INT:
  "wrap_int INT32 v = signed_take_bit 31 v" "wrap_int INT64 v = signed_take_bit 63 v"
  by (simp_all add: wrap_int_def IsTypeSigned_def)

lemma signed_min32:
  assumes "is_int t" "IsTypeSigned t" "IsInt32Bit t" "wrap_int t (- (2 ^ 31)) = - (2 ^ 31)"
  shows "t = INT32"
  using assms by (auto simp: is_int_def IsTypeSigned_def IsInt32Bit_def wrap_int_def signed_take_bit_int_eq_self_iff)

lemma signed_min64:
  assumes "is_int t" "IsTypeSigned t" "wrap_int t (- (2 ^ 63)) = - (2 ^ 63)"
  shows "t = INT64"
  using assms by (auto simp: is_int_def IsTypeSigned_def wrap_int_def signed_take_bit_int_eq_self_iff)

lemma canonical_unsigned:
  assumes "is_int t" "\<not> IsTypeSigned t" "canonical t c x"
  shows "ConvertIntToInt (uint (GetIntValue c)) t = Some (GetIntValue c)" "uint (GetIntValue c) = x"
  using assms by (auto simp: canonical_def ConvertIntToInt_def castTo_wrap)

text \<open>Both division and remainder treat the least value divided by minus one apart, then divide at
  the width at hand. \<open>k\<close> is the constant for that case, \<open>h\<close> the operation.\<close>

lemma signed_division_folds:
  assumes t: "is_int t" and s: "IsTypeSigned t" and c: "canonical t c0 x" "canonical t c1 y" "y \<noteq> 0"
    and k: "wrap_int INT32 (uint k32) = wrap_int INT32 (h (- (2 ^ 31)) (- 1))"
      "wrap_int INT64 (uint k64) = wrap_int INT64 (h (- (2 ^ 63)) (- 1))"
  shows "folds_to g t
    (if IsBytecodeOptimizer g \<and> IsInt32Bit t then
       if asInt32 c0 = - (2 ^ 31) \<and> asInt32 c1 = - 1 then replaceBy (FindOrCreateConstant g (U32 (ucast (k32 :: u64))))
       else if asInt32 c1 = 0 then (Undefined, g)
       else foldInt32 g t (h (asInt32 c0) (asInt32 c1))
     else if asInt64 c0 = - (2 ^ 63) \<and> asInt64 c1 = - 1 then replaceBy (FindOrCreateConstant g (U64 k64))
     else foldInt64 g t (h (asInt64 c0) (asInt64 c1))) (h x y)"
proof -
  note v = asInt_canonical[OF t s c(1)] asInt_canonical[OF t s c(2)]
  have w: "wrap_int t x = x" using c(1) s by (simp add: canonical_def)
  show ?thesis
  proof (cases "IsBytecodeOptimizer g \<and> IsInt32Bit t")
    case b: True
    have "folds_to g t (replaceBy (FindOrCreateConstant g (U32 (ucast k32)))) (h x y)"
      if m: "x = - (2 ^ 31)" "y = - 1"
    proof -
      have "t = INT32" using signed_min32[OF t s] w b m(1) by simp
      then show ?thesis using folds_to_U32[OF t, of g k32] b k(1) m by (simp add: folds_to_def)
    qed
    then show ?thesis using b c(3) foldInt_folds(3)[OF t] by (simp add: v)
  next
    case b: False
    have "folds_to g t (replaceBy (FindOrCreateConstant g (U64 k64))) (h x y)"
      if m: "x = - (2 ^ 63)" "y = - 1"
    proof -
      have "t = INT64" using signed_min64[OF t s] w m(1) by simp
      then show ?thesis using folds_to_U64[OF t, of g k64] k(2) m by (simp add: folds_to_def)
    qed
    then show ?thesis using b foldInt_folds(2)[OF t] by (auto simp: v)
  qed
qed

lemma canonical_nonzero: "canonical t c y \<Longrightarrow> y \<noteq> 0 \<Longrightarrow> GetIntValue c \<noteq> 0"
  by (auto simp: canonical_def split: if_splits)

lemma uint_division:
  fixes a b :: u64
  shows "uint (a div b) = uint a sdiv uint b" "uint (a mod b) = uint a smod uint b"
proof -
  have s: "sgn (uint w) = (if uint w = 0 then 0 else 1)" for w :: u64
    using uint_ge_0[of w] by (cases "uint w = 0") (simp_all add: sgn_if less_le)
  show "uint (a div b) = uint a sdiv uint b" "uint (a mod b) = uint a smod uint b"
    by (simp_all only: uint_div uint_mod signed_divide_int_def signed_modulo_int_def s) simp_all
qed

interpretation fold_div: int_folding "ConstFoldingDiv fo" "\<lambda>_. (sdiv)" "\<lambda>t c0 c1 x y. canonical2 t c0 c1 x y \<and> y \<noteq> 0"
proof
  fix inst :: FoldInst and c0 c1 x y g
  assume t: "is_int (itype inst)" and i: "input0 inst = Constant c0" "input1 inst = Constant c1"
    and p: "canonical2 (itype inst) c0 c1 x y \<and> y \<noteq> 0"
  then have c: "canonical (itype inst) c0 x" "canonical (itype inst) c1 y" "y \<noteq> 0" by (auto simp: canonical2_def)
  have eq: "ConstFoldingDiv fo g inst = ConstFoldingDivInt2Int g inst c0 c1"
    using i t by (simp add: ConstFoldingDiv_def is_int_common)
  show "folds_to g (itype inst) (ConstFoldingDiv fo g inst) (x sdiv y)"
  proof (cases "IsTypeSigned (itype inst)")
    case True
    have k: "U32 0x80000000 = U32 (ucast (0x80000000 :: u64))" by simp
    show ?thesis
      unfolding eq ConstFoldingDivInt2Int_def if_not_P[OF canonical_nonzero[OF c(2,3)]] if_P[OF True] k
      by (rule signed_division_folds[OF t True c]) (simp_all add: wrap_int_INT)
  next
    case False
    note u = canonical_unsigned[OF t False c(1)] canonical_unsigned[OF t False c(2)]
    show ?thesis
      using folds_to_CreateIntConst[OF t, of g "GetIntValue c0 div GetIntValue c1" False] False canonical_nonzero[OF c(2,3)] u
      by (simp add: eq ConstFoldingDivInt2Int_def uint_division)
  qed
qed

interpretation fold_mod: int_folding "ConstFoldingMod fo" "\<lambda>_. (smod)" "\<lambda>t c0 c1 x y. canonical2 t c0 c1 x y \<and> y \<noteq> 0"
proof
  fix inst :: FoldInst and c0 c1 x y g
  assume t: "is_int (itype inst)" and i: "input0 inst = Constant c0" "input1 inst = Constant c1"
    and p: "canonical2 (itype inst) c0 c1 x y \<and> y \<noteq> 0"
  then have c: "canonical (itype inst) c0 x" "canonical (itype inst) c1 y" "y \<noteq> 0" by (auto simp: canonical2_def)
  have nf: "\<not> IsFloatType (itype inst)" using t by (auto simp: is_int_def IsFloatType_def)
  show "folds_to g (itype inst) (ConstFoldingMod fo g inst) (x smod y)"
  proof (cases "GetIntValue c1 = 1")
    case True
    then have "y = 1" using c(2) by (auto simp: canonical_def split: if_splits)
    then show ?thesis
      using True i nf folds_to_CreateIntConst[OF t, of g 0 False]
      by (simp add: ConstFoldingMod_def signed_modulo_int_def)
  next
    case n1: False
    have eq: "ConstFoldingMod fo g inst = ConstFoldingModIntConst g inst c0 c1"
      using i t n1 canonical_nonzero[OF c(2,3)] by (simp add: ConstFoldingMod_def is_int_common)
    show ?thesis
    proof (cases "IsTypeSigned (itype inst)")
      case True
      have k: "U32 0 = U32 (ucast (0 :: u64))" by simp
      show ?thesis
        unfolding eq ConstFoldingModIntConst_def if_P[OF True] k
        by (rule signed_division_folds[OF t True c]) (simp_all add: wrap_int_INT signed_modulo_int_def)
    next
      case False
      note u = canonical_unsigned[OF t False c(1)] canonical_unsigned[OF t False c(2)]
      show ?thesis
        using folds_to_CreateIntConst[OF t, of g "GetIntValue c0 mod GetIntValue c1" False] False canonical_nonzero[OF c(2,3)] u
        by (simp add: eq ConstFoldingModIntConst_def uint_division)
    qed
  qed
qed

lemma uint_min_max: "uint (min a b :: u64) = min (uint a) (uint b)" "uint (max a b :: u64) = max (uint a) (uint b)"
  by (simp_all add: min_def max_def word_le_def)

interpretation fold_min: int_folding "ConstFoldingMin fo" "\<lambda>_. min" canonical2
proof
  fix inst :: FoldInst and c0 c1 x y g
  assume t: "is_int (itype inst)" and i: "input0 inst = Constant c0" "input1 inst = Constant c1"
    and p: "canonical2 (itype inst) c0 c1 x y"
  then have c: "canonical (itype inst) c0 x" "canonical (itype inst) c1 y" by (auto simp: canonical2_def)
  have eq: "ConstFoldingMin fo g inst = ConstFoldingMinInt g inst c0 c1"
    using i t by (simp add: ConstFoldingMin_def is_int_common)
  show "folds_to g (itype inst) (ConstFoldingMin fo g inst) (min x y)"
    using foldInt_folds[OF t, of g "min x y"] asInt_canonical[OF t _ c(1)] asInt_canonical[OF t _ c(2)]
      canonical_unsigned[OF t _ c(1)] canonical_unsigned[OF t _ c(2)]
    by (auto simp: eq ConstFoldingMinInt_def uint_min_max)
qed

interpretation fold_max: int_folding "ConstFoldingMax fo" "\<lambda>_. max" canonical2
proof
  fix inst :: FoldInst and c0 c1 x y g
  assume t: "is_int (itype inst)" and i: "input0 inst = Constant c0" "input1 inst = Constant c1"
    and p: "canonical2 (itype inst) c0 c1 x y"
  then have c: "canonical (itype inst) c0 x" "canonical (itype inst) c1 y" by (auto simp: canonical2_def)
  have eq: "ConstFoldingMax fo g inst = ConstFoldingMaxInt g inst c0 c1"
    using i t by (simp add: ConstFoldingMax_def is_int_common)
  show "folds_to g (itype inst) (ConstFoldingMax fo g inst) (max x y)"
    using foldInt_folds[OF t, of g "max x y"] asInt_canonical[OF t _ c(1)] asInt_canonical[OF t _ c(2)]
      canonical_unsigned[OF t _ c(1)] canonical_unsigned[OF t _ c(2)]
    by (auto simp: eq ConstFoldingMaxInt_def uint_min_max)
qed

subsection \<open>Shifts\<close>

lemma GetTypeSize_int: "is_int t \<Longrightarrow> GetTypeSize ops t a = Some (int_width t)"
  by (auto simp: is_int_def GetTypeSize_def ShiftByType_def ShiftByType_plain_def)

text \<open>The masked shift amount, at 64 and at 32 bits, is the amount modulo the width.\<close>

lemma shift_mask:
  assumes t: "is_int t" and y: "denotes t c y"
  shows "unat (GetIntValue c AND (of_nat (int_width t) - 1)) = nat (y mod int (int_width t))"
    and "IsInt32Bit t \<Longrightarrow> unat ((ucast (GetIntValue c) :: u32) AND ucast (of_nat (int_width t) - 1 :: u64)) =
      nat (y mod int (int_width t))"
proof -
  obtain k where k: "int_width t = 2 ^ k" "k \<le> int_width t" and k5: "IsInt32Bit t \<Longrightarrow> k \<le> 5"
    and m: "(of_nat (int_width t) - 1 :: u64) = 2 ^ k - 1"
      "IsInt32Bit t \<Longrightarrow> (ucast (of_nat (int_width t) - 1 :: u64) :: u32) = 2 ^ k - 1"
  proof -
    have "int_width t \<in> {2 ^ 3, 2 ^ 4, 2 ^ 5, 2 ^ 6}" using t by (auto simp: is_int_def)
    then show ?thesis using that[of 3] that[of 4] that[of 5] that[of 6] t
      by (auto simp: IsInt32Bit_width)
  qed
  have "take_bit k (uint (GetIntValue c)) = take_bit k y"
    using arg_cong[OF denotes_take_bit[OF t y], of "take_bit k"] k(2) by (simp add: min_absorb1)
  then have u: "nat (uint (GetIntValue c) mod 2 ^ k) = nat (y mod 2 ^ k)" by (simp add: take_bit_eq_mod)
  have n: "nat (uint v mod 2 ^ k) = unat v mod 2 ^ k" for v :: "'a::len word"
    by (simp add: nat_mod_distrib nat_power_eq)
  show "unat (GetIntValue c AND (of_nat (int_width t) - 1)) = nat (y mod int (int_width t))"
    unfolding m(1) unat_and_mask using u n[of "GetIntValue c"] k(1) by simp
  show "unat ((ucast (GetIntValue c) :: u32) AND ucast (of_nat (int_width t) - 1 :: u64)) = nat (y mod int (int_width t))"
    if "IsInt32Bit t"
  proof -
    have "unat (ucast (GetIntValue c) :: u32) mod 2 ^ k = unat (GetIntValue c) mod 2 ^ k"
      using k5[OF that] by (simp add: unsigned_ucast_eq min_absorb1 flip: take_bit_eq_mod)
    then show ?thesis unfolding m(2)[OF that] unat_and_mask using u n[of "GetIntValue c"] k(1) by simp
  qed
qed

lemma take_bit_push_bit_uint:
  fixes a :: "'a::len word"
  assumes "w \<le> LENGTH('a)"
  shows "take_bit w (uint (push_bit n a)) = take_bit w (push_bit n (uint a))"
  using assms by (simp add: unsigned_push_bit_eq min_absorb1 del: push_bit_of_1)

lemma take_bit_push_bit_cong:
  "take_bit w a = take_bit w b \<Longrightarrow> take_bit w (push_bit n a) = take_bit w (push_bit n (b :: int))"
  unfolding push_bit_eq_mult by (metis take_bit_mult)

definition shift_by :: "DataType \<Rightarrow> int \<Rightarrow> nat" where
  "shift_by t y = nat (y mod int (int_width t))"

interpretation fold_shl: int_folding ConstFoldingShl "\<lambda>t x y. push_bit (shift_by t y) x" denote2
proof
  fix inst :: FoldInst and c0 c1 x y g
  assume t: "is_int (itype inst)" and i: "input0 inst = Constant c0" "input1 inst = Constant c1"
    and p: "denote2 (itype inst) c0 c1 x y"
  let ?W = "int_width (itype inst)" and ?n = "shift_by (itype inst) y"
  have d: "take_bit ?W x = take_bit ?W (uint (GetIntValue c0))" "denotes (itype inst) c1 y"
    using p denotes_take_bit[OF t] by (auto simp: denote2_def)
  show "folds_to g (itype inst) (ConstFoldingShl g inst) (push_bit ?n x)"
  proof (cases "IsBytecodeOptimizer g \<and> IsInt32Bit (itype inst)")
    case True
    then have w: "?W \<le> 32" using is_int_32_width[OF t] by simp
    let ?v = "uint (push_bit ?n (ucast (GetIntValue c0) :: u32))"
    have e: "take_bit ?W (uint (ucast (GetIntValue c0) :: u32)) = take_bit ?W x"
      using d(1) w by (simp add: unsigned_ucast_eq min_absorb1)
    have "take_bit ?W ?v = take_bit ?W (push_bit ?n x)"
      using take_bit_push_bit_cong[OF e] w by (simp add: take_bit_push_bit_uint)
    then have "wrap_int (itype inst) ?v = wrap_int (itype inst) (push_bit ?n x)" by (rule wrap_int_cong[OF t])
    then show ?thesis
      using foldInt_folds(3)[OF t, of g ?v] True i shift_mask(2)[OF t d(2)]
      by (simp add: ConstFoldingShl_def GetTypeSize_int[OF t] folds_to_def shift_by_def Let_def)
  next
    case False
    let ?v = "uint (push_bit ?n (GetIntValue c0))"
    have "take_bit ?W ?v = take_bit ?W (push_bit ?n x)"
      using take_bit_push_bit_cong[OF d(1)] int_width_le_64[of "itype inst"] by (simp add: take_bit_push_bit_uint)
    then have "wrap_int (itype inst) ?v = wrap_int (itype inst) (push_bit ?n x)" by (rule wrap_int_cong[OF t])
    then show ?thesis
      using foldInt_folds(2)[OF t, of g ?v] False i shift_mask(1)[OF t d(2)]
      by (auto simp: ConstFoldingShl_def GetTypeSize_int[OF t] folds_to_def shift_by_def Let_def)
  qed
qed

interpretation fold_ashr: int_folding ConstFoldingAShr "\<lambda>t x y. drop_bit (shift_by t y) x"
  "\<lambda>t c0 c1 x y. IsTypeSigned t \<and> canonical t c0 x \<and> denotes t c1 y"
proof
  fix inst :: FoldInst and c0 c1 x y g
  assume t: "is_int (itype inst)" and i: "input0 inst = Constant c0" "input1 inst = Constant c1"
    and p: "IsTypeSigned (itype inst) \<and> canonical (itype inst) c0 x \<and> denotes (itype inst) c1 y"
  then have c: "IsTypeSigned (itype inst)" "canonical (itype inst) c0 x" "denotes (itype inst) c1 y" by auto
  show "folds_to g (itype inst) (ConstFoldingAShr g inst) (drop_bit (shift_by (itype inst) y) x)"
    using foldInt_folds(2,3)[OF t, of g "drop_bit (shift_by (itype inst) y) x"] i
      asInt_canonical[OF t c(1,2)] shift_mask[OF t c(3)]
    by (auto simp: ConstFoldingAShr_def GetTypeSize_int[OF t] shift_by_def Let_def)
qed

lemma shr_operand:
  assumes t: "is_int t" and d: "denotes t c x"
  defines "m \<equiv> of_nat (int_width t) - 1 :: u64"
  shows "uint (if m < 32 then GetIntValue c AND (push_bit (unat (m + 1)) 1 - 1) else GetIntValue c) =
    take_bit (int_width t) x"
proof (cases "int_width t = 64")
  case True
  have "take_bit 64 (uint (GetIntValue c)) = uint (GetIntValue c)"
    using uint_lt2p[of "GetIntValue c"] by (intro take_bit_int_eq_self) simp_all
  then show ?thesis using denotes_take_bit[OF t d] True by (simp add: m_def)
next
  case False
  then have w: "int_width t \<le> 32" "0 < int_width t" using is_int_32_width[OF t] IsInt32Bit_width[OF t] int_width_pos[OF t] by auto
  have um: "unat (of_nat (int_width t) :: u64) = int_width t"
    using w by (simp add: unat_of_nat)
  have "m < 32" using w t by (auto simp: m_def is_int_def)
  moreover have "push_bit (unat (m + 1)) (1 :: u64) - 1 = mask (int_width t)"
    unfolding m_def by (simp add: um mask_eq_exp_minus_1)
  moreover have "uint (GetIntValue c AND mask (int_width t)) = take_bit (int_width t) (uint (GetIntValue c))"
    by (simp add: unsigned_and_eq flip: take_bit_eq_mask) (simp add: unsigned_take_bit_eq)
  ultimately show ?thesis using denotes_take_bit[OF t d] by simp
qed

lemma uint_drop_bit_eq: "uint (drop_bit n w) = drop_bit n (uint w)" for w :: "'a::len word"
proof -
  have "take_bit LENGTH('a) (uint w) = uint w"
    using uint_lt2p[of w] by (intro take_bit_int_eq_self) simp_all
  then show ?thesis by (simp add: unsigned_drop_bit_eq)
qed

interpretation fold_shr: int_folding ConstFoldingShr "\<lambda>t x y. drop_bit (shift_by t y) (take_bit (int_width t) x)" denote2
proof
  fix inst :: FoldInst and c0 c1 x y g
  assume t: "is_int (itype inst)" and i: "input0 inst = Constant c0" "input1 inst = Constant c1"
    and p: "denote2 (itype inst) c0 c1 x y"
  let ?W = "int_width (itype inst)" and ?n = "shift_by (itype inst) y"
  have d: "denotes (itype inst) c0 x" "denotes (itype inst) c1 y" using p by (auto simp: denote2_def)
  define m where "m = (of_nat ?W - 1 :: u64)"
  define v where "v = (if m < 32 then GetIntValue c0 AND (push_bit (unat (m + 1)) 1 - 1) else GetIntValue c0)"
  have v: "uint v = take_bit ?W x" unfolding v_def m_def by (rule shr_operand[OF t d(1)])
  have eq: "ConstFoldingShr g inst =
      (if IsBytecodeOptimizer g \<and> IsInt32Bit (itype inst)
       then foldInt32 g (itype inst) (uint (drop_bit (unat ((ucast (GetIntValue c1) :: u32) AND ucast m)) (ucast v :: u32)))
       else foldInt64 g (itype inst) (uint (drop_bit (unat (GetIntValue c1 AND m)) v)))"
    using i by (simp add: ConstFoldingShr_def GetTypeSize_int[OF t] Let_def v_def m_def)
  have u32: "uint (ucast v :: u32) = take_bit ?W x" if "IsInt32Bit (itype inst)"
    using v is_int_32_width[OF t that] by (simp add: unsigned_ucast_eq min_absorb2)
  show "folds_to g (itype inst) (ConstFoldingShr g inst) (drop_bit ?n (take_bit ?W x))"
    using foldInt_folds(2,3)[OF t, of g "drop_bit ?n (take_bit ?W x)"] shift_mask[OF t d(2)] u32 v
    by (auto simp: eq m_def shift_by_def uint_drop_bit_eq)
qed

subsection \<open>Unary operations and casts\<close>

lemma folds_low_bits1:
  assumes t: "is_int t" and d: "denotes t c x"
    and low: "\<And>a. take_bit (int_width t) (h (take_bit (int_width t) a)) = take_bit (int_width t) (h a)"
    and r: "take_bit (int_width t) v = take_bit (int_width t) (h (uint (GetIntValue c)))"
  shows "folds_to g t (foldInt g t v) (h x)"
proof -
  let ?tb = "take_bit (int_width t)"
  have "?tb (h x) = ?tb (h (?tb x))" by (rule low[symmetric])
  also have "\<dots> = ?tb (h (uint (GetIntValue c)))" unfolding denotes_take_bit[OF t d] by (rule low)
  finally have "wrap_int t (h x) = wrap_int t v" using r by (intro wrap_int_cong t) simp
  then show ?thesis using foldInt_folds(1)[OF t, of g v] by (simp add: folds_to_def)
qed

lemma ConstFoldingNeg_folds:
  assumes "is_int (itype inst)" "input0 inst = Constant c" "denotes (itype inst) c x"
  shows "folds_to g (itype inst) (ConstFoldingNeg g inst) (- x)"
  using assms folds_low_bits1[OF assms(1,3), of uminus]
  by (simp add: ConstFoldingNeg_def is_int_common take_bit_minus take_bit_uint_word)

lemma ConstFoldingNot_folds:
  assumes t: "is_int (itype inst)" and "input0 inst = Constant c" "denotes (itype inst) c x"
  shows "folds_to g (itype inst) (ConstFoldingNot g inst) (NOT x)"
proof -
  have "take_bit (int_width (itype inst)) (uint (NOT (GetIntValue c))) = take_bit (int_width (itype inst)) (NOT (uint (GetIntValue c)))"
    using take_bit_64_width[OF t, of "NOT (uint (GetIntValue c))"] by (simp add: unsigned_not_eq)
  then show ?thesis
    using assms folds_low_bits1[OF t assms(3), of "NOT"] by (simp add: ConstFoldingNot_def take_bit_not_take_bit)
qed

lemma ConstFoldingAbs_folds:
  assumes t: "is_int (itype inst)" and i: "input0 inst = Constant c"
    and c: "IsTypeSigned (itype inst)" "canonical (itype inst) c x" "c \<in> set (constants g)"
  shows "folds_to g (itype inst) (ConstFoldingAbs nd g inst) \<bar>x\<bar>"
proof (cases "x = - (2 ^ 63)")
  case True
  then have t64: "itype inst = INT64" using signed_min64[OF t c(1)] c by (simp add: canonical_def)
  have "sint (GetIntValue c) = x" using c by (simp add: canonical_def)
  moreover have "denotes INT64 c (wrap_int INT64 \<bar>x\<bar>)"
    using canonical_denotes[OF t c(2)] True t64 by (simp add: wrap_int_INT)
  ultimately show ?thesis using i c(1,3) True t64
    by (auto simp: ConstFoldingAbs_def GetCommonType_def folds_to_def extends_def intro!: exI[of _ "[]"])
next
  case False
  then show ?thesis
    using i c foldInt_folds(1)[OF t, of g "\<bar>x\<bar>"]
    by (auto simp: ConstFoldingAbs_def is_int_common[OF t] canonical_def abs_if Let_def)
qed

lemma ConstFoldingCast_int_folds:
  assumes t: "is_int (itype inst)" "is_int (GetInputType inst)" and i: "input0 inst = Constant c"
    and c: "GetType c = INT32 \<or> GetType c = INT64" "denotes (GetInputType inst) c x"
  shows "folds_to g (itype inst) (ConstFoldingCast fo rt g inst) x"
proof -
  have "castTo (GetInputType inst) (uint (GetIntValue c)) = Some x" using c(2) by (simp add: denotes_def)
  then show ?thesis
    using i c(1) foldInt_folds(1)[OF t(1), of g x]
    by (auto simp: ConstFoldingCast_def ConstFoldingCastConst_def ConstFoldingCastIntConst_def
        ConstFoldingCastInt2Int_def is_int_common[OF t(1)] Let_def)
qed

subsection \<open>Comparisons\<close>

text \<open>\<open>cc_int\<close> is the comparison by a condition code. The signed codes compare signed types and the unsigned codes
  unsigned types, as the values are numbers.\<close>

definition cc_fits :: "ConditionCode \<Rightarrow> DataType \<Rightarrow> bool" where
  "cc_fits cc t \<longleftrightarrow> (cc \<in> {CC_LT, CC_LE, CC_GT, CC_GE} \<longrightarrow> IsTypeSigned t) \<and>
     (cc \<in> {CC_B, CC_BE, CC_A, CC_AE} \<longrightarrow> \<not> IsTypeSigned t)"

fun cc_int :: "ConditionCode \<Rightarrow> int \<Rightarrow> int \<Rightarrow> bool" where
  "cc_int CC_EQ x y = (x = y)"
| "cc_int CC_NE x y = (x \<noteq> y)"
| "cc_int CC_LT x y = (x < y)" | "cc_int CC_B x y = (x < y)"
| "cc_int CC_LE x y = (x \<le> y)" | "cc_int CC_BE x y = (x \<le> y)"
| "cc_int CC_GT x y = (x > y)" | "cc_int CC_A x y = (x > y)"
| "cc_int CC_GE x y = (x \<ge> y)" | "cc_int CC_AE x y = (x \<ge> y)"
| "cc_int CC_TST_EQ x y = (x AND y = 0)"
| "cc_int CC_TST_NE x y = (x AND y \<noteq> 0)"

lemma converted_value:
  assumes t: "is_int t" and d: "denotes t c x"
  shows "ConvertIntToInt (uint (GetIntValue c)) t = Some (word_of_int x)"
    and "IsTypeSigned t \<Longrightarrow> sint (word_of_int x :: u64) = x"
    and "\<not> IsTypeSigned t \<Longrightarrow> uint (word_of_int x :: u64) = x"
    and "IsTypeSigned t \<Longrightarrow> IsInt32Bit t \<Longrightarrow> sint (ucast (word_of_int x :: u64) :: u32) = x"
    and "\<not> IsTypeSigned t \<Longrightarrow> IsInt32Bit t \<Longrightarrow> uint (ucast (word_of_int x :: u64) :: u32) = x"
proof -
  show "ConvertIntToInt (uint (GetIntValue c)) t = Some (word_of_int x)"
    using d by (simp add: ConvertIntToInt_def denotes_def)
  have x: "wrap_int t x = x" using d wrap_int_idem[OF t, of "uint (GetIntValue c)"] by (auto simp: denotes_def castTo_wrap[OF t])
  have p: "(2::int) ^ (int_width t - 1) \<le> 2 ^ 63" "(2::int) ^ int_width t \<le> 2 ^ 64"
    using int_width_le_64[of t] by (intro power_increasing; simp)+
  have p32: "(2::int) ^ (int_width t - 1) \<le> 2 ^ 31" "(2::int) ^ int_width t \<le> 2 ^ 32" if "IsInt32Bit t"
    using is_int_32_width[OF t that] by (intro power_increasing; simp)+
  show s: "sint (word_of_int x :: u64) = x" if "IsTypeSigned t"
  proof -
    have "- (2 ^ 63) \<le> x" "x < 2 ^ 63" using wrap_int_bounds(1)[OF t x that] p by linarith+
    then show ?thesis by (simp add: sint_sbintrunc' signed_take_bit_int_eq_self_iff)
  qed
  show u: "uint (word_of_int x :: u64) = x" if "\<not> IsTypeSigned t"
  proof -
    have "0 \<le> x" "x < 2 ^ 64" using wrap_int_bounds(2)[OF t x that] p by linarith+
    then show ?thesis by (simp add: uint_word_of_int)
  qed
  show "sint (ucast (word_of_int x :: u64) :: u32) = x" if "IsTypeSigned t" "IsInt32Bit t"
  proof -
    have "- (2 ^ 31) \<le> x" "x < 2 ^ 31" using wrap_int_bounds(1)[OF t x that(1)] p32[OF that(2)] by linarith+
    then show ?thesis using s[OF that(1)] by (simp add: sint_ucast_32 signed_take_bit_int_eq_self_iff)
  qed
  show "uint (ucast (word_of_int x :: u64) :: u32) = x" if "\<not> IsTypeSigned t" "IsInt32Bit t"
  proof -
    have "0 \<le> x" "x < 2 ^ 32" using wrap_int_bounds(2)[OF t x that(1)] p32[OF that(2)] by linarith+
    then show ?thesis using u[OF that(1)] by (simp add: unsigned_ucast_eq take_bit_int_eq_self_iff)
  qed
qed

lemma GetIntResult_spec:
  assumes t: "is_int t" and d: "denotes t c0 x" "denotes t c1 y"
  shows "GetIntResult g c0 c1 t = Some (GetResult_int x y)"
  using converted_value[OF t d(1)] converted_value[OF t d(2)] by (simp add: GetIntResult_def)

lemma word_of_int_eq_iff_denotes:
  assumes t: "is_int t" and d: "denotes t c0 x" "denotes t c1 y"
  shows "(word_of_int x :: u64) = word_of_int y \<longleftrightarrow> x = y"
  using converted_value(2,3)[OF t d(1)] converted_value(2,3)[OF t d(2)] by (cases "IsTypeSigned t") metis+

lemma word_and_zero_iff:
  assumes t: "is_int t" and d: "denotes t c0 x" "denotes t c1 y"
  shows "(word_of_int x :: u64) AND word_of_int y = 0 \<longleftrightarrow> x AND y = 0"
proof (cases "IsTypeSigned t")
  case True
  have "sint ((word_of_int x :: u64) AND word_of_int y) = x AND y"
    using converted_value(2)[OF t d(1) True] converted_value(2)[OF t d(2) True] by (simp add: signed_and_eq)
  then show ?thesis by (metis signed_0 signed_word_eqI)
next
  case False
  have "uint ((word_of_int x :: u64) AND word_of_int y) = x AND y"
    using converted_value(3)[OF t d(1) False] converted_value(3)[OF t d(2) False] by (simp add: unsigned_and_eq)
  then show ?thesis by (metis uint_0_iff)
qed

lemma ConstFoldingCompareCreateNewConst_spec:
  assumes t: "is_int t" and d: "denotes t c0 x" "denotes t c1 y" and cc: "cc_fits cc t"
  shows "ConstFoldingCompareCreateNewConst cc (word_of_int x) (word_of_int y) = cc_int cc x y"
  using cc converted_value(2,3)[OF t d(1)] converted_value(2,3)[OF t d(2)]
    word_of_int_eq_iff_denotes[OF t d] word_and_zero_iff[OF t d]
  by (cases cc) (auto simp: cc_fits_def word_less_def word_le_def)


lemma folds_to_I32:
  assumes "IsBytecodeOptimizer g"
  shows "folds_to g INT32 (replaceBy (FindOrCreateConstant g (I32 (word_of_int v)))) v"
proof -
  obtain c g' where f: "FindOrCreateConstant g (I32 (word_of_int v)) = (c, g')"
    by (cases "FindOrCreateConstant g (I32 (word_of_int v))")
  have "(ucast (value_raw c) :: u32) = word_of_int v" using FindOrCreateConstant_spec[OF f] assms(1) by simp
  then have "sint (ucast (value_raw c) :: u32) = signed_take_bit 31 v" by (simp add: sint_sbintrunc')
  then have "castTo INT32 (uint (value_raw c)) = Some (wrap_int INT32 v)" by (simp add: wrap_int_INT)
  then show ?thesis
    using FindOrCreateConstant_spec[OF f] f by (auto simp: folds_to_def replaceBy_def denotes_def GetIntValue_def)
qed

lemma ConstFoldingCmp_folds:
  assumes t: "is_int (GetInputType inst)" and i: "input0 inst = Constant c0" "input1 inst = Constant c1"
    and d: "denotes (GetInputType inst) c0 x" "denotes (GetInputType inst) c1 y"
  shows "folds_to g INT32 (ConstFoldingCmp fo g inst) (GetResult_int x y)"
proof -
  let ?r = "GetResult_int x y"
  let ?v = "if IsBytecodeOptimizer g then I32 (word_of_int ?r) else U64 (word_of_int ?r)"
  have nf: "\<not> IsFloatType (GetInputType inst)" using t by (auto simp: is_int_def IsFloatType_def)
  have eq: "ConstFoldingCmp fo g inst = replaceBy (FindOrCreateConstant g ?v)"
    using i nf by (simp add: ConstFoldingCmp_def ConstFoldingCmpFloatNan_def is_int_common[OF t]
        GetIntResult_spec[OF t d] replaceBy_def)
  have "folds_to g INT32 (replaceBy (FindOrCreateConstant g (U64 (word_of_int ?r)))) ?r"
    using folds_to_U64[of INT32 g "word_of_int ?r"] wrap_int_uint_of_int[of INT32 ?r] by (simp add: folds_to_def is_int_def)
  then show ?thesis using folds_to_I32[of g ?r] by (simp add: eq)
qed

text \<open>The constants of a graph: \<open>INT32\<close> constants are stored sign-extended, \<open>FLOAT32\<close> constants
  zero-extended, and no constant is there twice.\<close>

definition wf_const :: "ConstantInst \<Rightarrow> bool" where
  "wf_const c \<longleftrightarrow> GetType c \<in> {INT32, INT64, FLOAT32, FLOAT64, ANY} \<and>
     (GetType c = INT32 \<longrightarrow> value_raw c = scast (ucast (value_raw c) :: u32)) \<and>
     (GetType c = FLOAT32 \<longrightarrow> value_raw c = ucast (ucast (value_raw c) :: u32))"

definition wf_graph :: "Graph \<Rightarrow> bool" where
  "wf_graph g \<longleftrightarrow> list_all wf_const (constants g) \<and> distinct (constants g)"

lemma ucast_ucast_32: "ucast (ucast v :: u64) = (v :: u32)"
  by (rule bit_word_eqI) (simp add: bit_ucast_iff)

lemma CreateInstConstant_wf: "wf_const (CreateInstConstant v b)"
  by (cases v) (auto simp: wf_const_def ucast_scast_32 ucast_ucast_32)

lemma CreateInstConstant_equal: "IsEqualConst (CreateInstConstant v b) v b"
  by (cases v) (auto simp: ucast_scast_32)

lemma FindOrCreateConstant_wf:
  assumes "wf_graph g" "FindOrCreateConstant g v = (c, g')"
  shows "wf_graph g' \<and> wf_const c"
proof (cases "List.find (\<lambda>c. IsEqualConst c v (IsBytecodeOptimizer g)) (constants g)")
  case None
  then have "c = CreateInstConstant v (IsBytecodeOptimizer g)" "g' = g\<lparr>constants := constants g @ [c]\<rparr>"
    using assms by (auto simp: FindOrCreateConstant_def Let_def)
  moreover have "c \<notin> set (constants g)"
    using None calculation(1) CreateInstConstant_equal by (auto simp: find_None_iff)
  ultimately show ?thesis using assms(1) CreateInstConstant_wf by (simp add: wf_graph_def)
next
  case (Some d)
  then have "c = d" "g' = g" using assms by (auto simp: FindOrCreateConstant_def Let_def)
  then show ?thesis using Some assms(1)
    by (auto simp: wf_graph_def find_Some_iff list_all_length)
qed

lemma find_snoc: "List.find P xs = None \<Longrightarrow> P c \<Longrightarrow> List.find P (xs @ [c]) = Some c"
  by (induction xs) (auto split: if_splits)

lemma FindOrCreateConstant_again:
  assumes "FindOrCreateConstant g v = (c, g')"
  shows "FindOrCreateConstant g' v = (c, g')"
proof (cases "List.find (\<lambda>c. IsEqualConst c v (IsBytecodeOptimizer g)) (constants g)")
  case None
  then have "c = CreateInstConstant v (IsBytecodeOptimizer g)" "g' = g\<lparr>constants := constants g @ [c]\<rparr>"
    using assms by (auto simp: FindOrCreateConstant_def Let_def)
  moreover have "List.find (\<lambda>c. IsEqualConst c v (IsBytecodeOptimizer g)) (constants g @ [c]) = Some c"
    using None CreateInstConstant_equal[of v "IsBytecodeOptimizer g"] calculation(1) by (simp add: find_snoc)
  ultimately show ?thesis by (simp add: FindOrCreateConstant_def Let_def)
next
  case (Some d)
  then show ?thesis using assms by (auto simp: FindOrCreateConstant_def Let_def)
qed

lemma ConstFoldingCompareCreateConst_spec:
  assumes "wf_graph g"
  shows "\<exists>c g'. replaceBy (ConstFoldingCompareCreateConst g t v) = (Replaced (Constant c), g') \<and>
    GetIntValue c = of_bool v \<and> c \<in> set (constants g') \<and> extends g g'"
proof -
  let ?k = "if IsBytecodeOptimizer g \<and> IsInt32Bit t then U32 (of_bool v) else U64 (of_bool v)"
  obtain c g' where f: "FindOrCreateConstant g ?k = (c, g')" by (cases "FindOrCreateConstant g ?k")
  have "value_raw c = of_bool v"
    using FindOrCreateConstant_spec[OF f] FindOrCreateConstant_wf[OF assms f]
    by (cases v) (auto simp: wf_const_def split: if_splits)
  then show ?thesis using f FindOrCreateConstant_spec[OF f]
    by (auto simp: ConstFoldingCompareCreateConst_def replaceBy_def GetIntValue_def)
qed

lemma ConstFoldingCompare_folds:
  assumes t: "is_int (GetInputType inst)" and i: "input0 inst = Constant c0" "input1 inst = Constant c1"
    and d: "denotes (GetInputType inst) c0 x" "denotes (GetInputType inst) c1 y"
    and cc: "cc_fits (GetCc inst) (GetInputType inst)" and g: "wf_graph g"
  shows "\<exists>c g'. ConstFoldingCompare g inst = (Replaced (Constant c), g') \<and>
    GetIntValue c = of_bool (cc_int (GetCc inst) x y) \<and> c \<in> set (constants g') \<and> extends g g'"
proof -
  have nf: "\<not> IsFloatType (GetInputType inst)" using t by (auto simp: is_int_def IsFloatType_def)
  have "ConstFoldingCompareIntConstant g inst =
      replaceBy (ConstFoldingCompareCreateConst g (itype inst) (cc_int (GetCc inst) x y))"
    using i by (simp add: ConstFoldingCompareIntConstant_def is_int_common[OF t] converted_value(1)[OF t d(1)]
        converted_value(1)[OF t d(2)] ConstFoldingCompareCreateNewConst_spec[OF t d cc])
  then show ?thesis
    using ConstFoldingCompareCreateConst_spec[OF g, of "itype inst" "cc_int (GetCc inst) x y"] nf
    by (auto simp: ConstFoldingCompare_def)
qed


subsection \<open>Identities\<close>

text \<open>\<open>folds_to\<close> of the constant zero, which the identities create.\<close>

lemma folds_to_zero:
  assumes "is_int t" "wrap_int t v = 0"
  shows "folds_to g t (replaceBy (ConstFoldingCreateIntConst g t 0 l)) v"
proof -
  have "wrap_int t (uint (0 :: u64)) = 0" by (simp add: wrap_int_def)
  then show ?thesis using folds_to_CreateIntConst[OF assms(1), of g 0 l] assms(2) by (simp add: folds_to_def)
qed

lemma ConstFolding_same_input:
  assumes t: "is_int (itype inst)" and i: "input1 inst = input0 inst" "\<not> IsConst_inst (input0 inst)"
  shows "folds_to g (itype inst) (ConstFoldingSub fo g inst) (x - x)"
    and "folds_to g (itype inst) (ConstFoldingXor g inst) (x XOR x)"
  using folds_to_zero[OF t, of 0] i
  by (cases "input0 inst"; simp add: ConstFoldingSub_def ConstFoldingXor_def is_int_common[OF t] wrap_int_def)+

lemma ConstFoldingMod_one:
  assumes t: "is_int (itype inst)" and i: "GetDataFlowInput (input1 inst) = Constant c" "GetIntValue c = 1"
  shows "folds_to g (itype inst) (ConstFoldingMod fo g inst) (x smod 1)"
proof -
  have nf: "\<not> IsFloatType (itype inst)" using t by (auto simp: is_int_def IsFloatType_def)
  show ?thesis using folds_to_zero[OF t, of 0] i nf
    by (simp add: ConstFoldingMod_def wrap_int_def signed_modulo_int_def)
qed

lemma ConstFoldingAnd_Or_absorb:
  assumes t: "is_int (itype inst)" and k: "theConst (input0 inst) (input1 inst) = Some c"
    and n: "\<not> (IsConst_inst (input0 inst) \<and> IsConst_inst (input1 inst))" and d: "denotes (itype inst) c y"
  shows "ConstFoldingAnd g inst = (Replaced (Constant c'), g') \<Longrightarrow>
      g' = g \<and> denotes (itype inst) c' (wrap_int (itype inst) (x AND y))"
    and "ConstFoldingOr g inst = (Replaced (Constant c'), g') \<Longrightarrow>
      g' = g \<and> denotes (itype inst) c' (wrap_int (itype inst) (x OR y))"
proof -
  have y: "y = wrap_int (itype inst) (uint (GetIntValue c))" using d by (simp add: denotes_def castTo_wrap[OF t])
  have z: "wrap_int (itype inst) 0 = 0" by (simp add: wrap_int_def)
  have m: "wrap_int (itype inst) (x OR wrap_int (itype inst) (uint (- 1 :: u64))) = wrap_int (itype inst) (uint (- 1 :: u64))"
  proof (rule wrap_int_cong[OF t])
    let ?W = "int_width (itype inst)"
    have "take_bit ?W (uint (- 1 :: u64)) = mask ?W"
      using int_width_le_64[of "itype inst"] by (simp add: unsigned_minus_1_eq_mask min_absorb1)
    then have "take_bit ?W (x OR wrap_int (itype inst) (uint (- 1 :: u64))) = take_bit ?W x OR mask ?W"
      by (simp only: take_bit_or take_bit_wrap_int[OF t])
    moreover have "take_bit ?W x OR mask ?W = mask ?W"
      by (rule bit_eqI) (auto simp: bit_simps)
    ultimately show "take_bit ?W (x OR wrap_int (itype inst) (uint (- 1 :: u64))) = take_bit ?W (uint (- 1 :: u64))"
      using \<open>take_bit ?W (uint (- 1 :: u64)) = mask ?W\<close> by simp
  qed
  have a: "ConstFoldingAnd g inst = (if GetIntValue c = 0 then (Replaced (Constant c), g) else (Kept, g))"
    "ConstFoldingOr g inst = (if GetIntValue c = - 1 then (Replaced (Constant c), g) else (Kept, g))"
    using k n by (cases "input0 inst"; cases "input1 inst"; simp add: ConstFoldingAnd_def ConstFoldingOr_def)+
  show "ConstFoldingAnd g inst = (Replaced (Constant c'), g') \<Longrightarrow>
      g' = g \<and> denotes (itype inst) c' (wrap_int (itype inst) (x AND y))"
    using a(1) y by (auto simp: z denotes_def castTo_wrap[OF t] split: if_splits)
  show "ConstFoldingOr g inst = (Replaced (Constant c'), g') \<Longrightarrow>
      g' = g \<and> denotes (itype inst) c' (wrap_int (itype inst) (x OR y))"
    using a(2) y m by (auto simp: denotes_def castTo_wrap[OF t] split: if_splits)
qed

lemma ConstFoldingCmp_same_input:
  assumes t: "is_int (itype inst)" "is_int (GetInputType inst)" and i: "input1 inst = input0 inst" "\<not> IsConst_inst (input0 inst)"
  shows "folds_to g (itype inst) (ConstFoldingCmp fo g inst) (GetResult_int x x)"
proof -
  have nf: "\<not> IsFloatType (GetInputType inst)" using t by (auto simp: is_int_def IsFloatType_def)
  show ?thesis using folds_to_zero[OF t(1), of 0] i nf
    by (cases "input0 inst"; simp add: ConstFoldingCmp_def ConstFoldingCmpFloatNan_def is_int_common[OF t(2)] GetResult_int_def wrap_int_def)
qed

subsection \<open>Not-a-number\<close>

text \<open>The constant the float comparisons look at: the first input if it is a constant, else the
  second.\<close>

definition nan_input :: "FoldInst \<Rightarrow> bool" where
  "nan_input inst \<longleftrightarrow> (\<exists>c. IsNaNConst c \<and>
     (input0 inst = Constant c \<or> \<not> IsConst_inst (input0 inst) \<and> input1 inst = Constant c))"

lemma ConstFoldingCmp_nan:
  assumes t: "is_int (itype inst)" "IsFloatType (GetInputType inst)" and n: "nan_input inst"
  shows "folds_to g (itype inst) (ConstFoldingCmp fo g inst) (if IsFcmpg inst then 1 else - 1)"
proof -
  have "ConstFoldingCmp fo g inst = replaceBy (ConstFoldingCreateIntConst g (itype inst) (if IsFcmpg inst then 1 else - 1) False)"
    using n t(2) by (auto simp: nan_input_def ConstFoldingCmp_def ConstFoldingCmpFloatNan_def replaceBy_def split: prod.splits)
  moreover have "wrap_int (itype inst) (uint (- 1 :: u64)) = wrap_int (itype inst) (- 1)"
    using wrap_int_uint_of_int[OF t(1), of "- 1"] by simp
  ultimately show ?thesis
    using folds_to_CreateIntConst[OF t(1), of g 1 False] folds_to_CreateIntConst[OF t(1), of g "- 1" False]
      folds_to_cong[OF t(1), of "uint (- 1 :: u64)" "- 1"]
    by (cases "IsFcmpg inst") (simp_all only: if_True if_False unsigned_1)
qed

lemma ConstFoldingCompare_nan:
  assumes t: "IsFloatType (GetInputType inst)" and n: "nan_input inst" and g: "wf_graph g"
    and cc: "GetCc inst \<in> {CC_EQ, CC_NE, CC_LT, CC_LE, CC_GT, CC_GE}"
  shows "\<exists>c g'. ConstFoldingCompare g inst = (Replaced (Constant c), g') \<and>
    GetIntValue c = of_bool (GetCc inst = CC_NE) \<and> c \<in> set (constants g') \<and> extends g g'"
proof -
  obtain c where c: "IsNaNConst c" "(if IsConst_inst (input0 inst) then input0 inst else input1 inst) = Constant c"
    "IsConst_inst (input0 inst) \<or> IsConst_inst (input1 inst)"
    using n by (auto simp: nan_input_def)
  have "ConstFoldingCompareFloatNan g inst = replaceBy (ConstFoldingCompareCreateConst g (itype inst) (GetCc inst = CC_NE))"
    using c cc unfolding ConstFoldingCompareFloatNan_def c(2) by auto
  then have "ConstFoldingCompare g inst = replaceBy (ConstFoldingCompareCreateConst g (itype inst) (GetCc inst = CC_NE))"
    by (simp add: ConstFoldingCompare_def t replaceBy_def split: prod.split)
  then show ?thesis using ConstFoldingCompareCreateConst_spec[OF g, of "itype inst" "GetCc inst = CC_NE"] by auto
qed


section \<open>Properties\<close>

text \<open>A graph without constants and an instruction, for the concrete instances.\<close>

definition empty_graph :: "bool \<Rightarrow> Graph" where
  "empty_graph bytecode = \<lparr>IsBytecodeOptimizer = bytecode, IsDynamicMethod = False, GetArch = AARCH64,
     ObjectPointerSize = 4, constants = []\<rparr>"

definition mk_inst :: "DataType \<Rightarrow> DataType \<Rightarrow> Inst \<Rightarrow> Inst \<Rightarrow> ConditionCode \<Rightarrow> FoldInst" where
  "mk_inst t it i0 i1 cc = \<lparr>itype = t, input0 = i0, input1 = i1, GetInputType = it, GetCc = cc, IsFcmpg = False\<rparr>"

definition const64 :: "int \<Rightarrow> ConstantInst" where
  "const64 v = \<lparr>GetType = INT64, value_raw = word_of_int v\<rparr>"

lemma mk_inst_simps [simp]:
  "itype (mk_inst t it i0 i1 cc) = t" "input0 (mk_inst t it i0 i1 cc) = i0" "input1 (mk_inst t it i0 i1 cc) = i1"
  "GetInputType (mk_inst t it i0 i1 cc) = it" "GetCc (mk_inst t it i0 i1 cc) = cc" "IsFcmpg (mk_inst t it i0 i1 cc) = False"
  by (simp_all add: mk_inst_def)

lemma wf_empty_graph [simp]: "wf_graph (empty_graph b)"
  by (simp add: wf_graph_def empty_graph_def)

text \<open>C20: Folding an addition, subtraction, multiplication, bitwise operation, left shift or logical
  right shift of two integer constants replaces the instruction by a constant of the graph that
  denotes the operation's result, wrapped to the instruction's type; shift amounts are taken modulo
  the width. It does not matter what the operand constants have above the type's width.\<close>

theorem fold_wrapping_operations:
  assumes "is_int (itype inst)" "input0 inst = Constant c0" "input1 inst = Constant c1"
    and "denotes (itype inst) c0 x" "denotes (itype inst) c1 y"
  shows "folds_to g (itype inst) (ConstFoldingAdd fo g inst) (x + y) \<and>
    folds_to g (itype inst) (ConstFoldingSub fo g inst) (x - y) \<and>
    folds_to g (itype inst) (ConstFoldingMul fo g inst) (x * y) \<and>
    folds_to g (itype inst) (ConstFoldingAnd g inst) (x AND y) \<and>
    folds_to g (itype inst) (ConstFoldingOr g inst) (x OR y) \<and>
    folds_to g (itype inst) (ConstFoldingXor g inst) (x XOR y) \<and>
    folds_to g (itype inst) (ConstFoldingShl g inst) (push_bit (shift_by (itype inst) y) x) \<and>
    folds_to g (itype inst) (ConstFoldingShr g inst) (drop_bit (shift_by (itype inst) y) (take_bit (int_width (itype inst)) x))"
proof -
  have d: "denote2 (itype inst) c0 c1 x y" using assms by (simp add: denote2_def)
  note f = fold_add.folds fold_sub.folds fold_mul.folds fold_and.folds fold_or.folds fold_xor.folds
    fold_shl.folds fold_shr.folds
  show ?thesis by (intro conjI f[OF assms(1,2,3) d])
qed

theorem fold_wrapping_operations_witness:
  "\<forall>fo. folds_to (empty_graph True) INT8 (ConstFoldingAdd fo (empty_graph True)
     (mk_inst INT8 INT8 (Constant (const64 100)) (Constant (const64 100)) CC_EQ)) 200 \<and> wrap_int INT8 200 = - 56"
proof
  fix fo
  let ?i = "mk_inst INT8 INT8 (Constant (const64 100)) (Constant (const64 100)) CC_EQ"
  have "is_int (itype ?i)" "denotes (itype ?i) (const64 100) 100"
    by (simp_all add: is_int_def denotes_def const64_def GetIntValue_def)
  then show "folds_to (empty_graph True) INT8 (ConstFoldingAdd fo (empty_graph True) ?i) 200 \<and> wrap_int INT8 200 = - 56"
    using fold_wrapping_operations[of ?i "const64 100" "const64 100" 100 100 "empty_graph True" fo]
    by (auto simp: wrap_int_def IsTypeSigned_def signed_take_bit_eq_if_negative)
qed

text \<open>C21: Folding a division, remainder, minimum or maximum of two integer constants that are stored
  extended to 64 bits by the sign of the type, and of an arithmetic right shift at a signed type,
  gives the truncating quotient, the remainder with the sign of the dividend, the minimum, the maximum
  and the shifted value, wrapped to the type. The least value divided by minus one is included; the
  divisor must not be zero, and a zero divisor is not folded.\<close>

theorem fold_division_min_max:
  assumes "is_int (itype inst)" "input0 inst = Constant c0" "input1 inst = Constant c1"
    and "canonical (itype inst) c0 x" "canonical (itype inst) c1 y"
  shows "(y \<noteq> 0 \<longrightarrow> folds_to g (itype inst) (ConstFoldingDiv fo g inst) (x sdiv y)) \<and>
    (y \<noteq> 0 \<longrightarrow> folds_to g (itype inst) (ConstFoldingMod fo g inst) (x smod y)) \<and>
    (y = 0 \<longrightarrow> ConstFoldingDiv fo g inst = (Kept, g) \<and> ConstFoldingMod fo g inst = (Kept, g)) \<and>
    folds_to g (itype inst) (ConstFoldingMin fo g inst) (min x y) \<and>
    folds_to g (itype inst) (ConstFoldingMax fo g inst) (max x y) \<and>
    (IsTypeSigned (itype inst) \<longrightarrow> folds_to g (itype inst) (ConstFoldingAShr g inst) (drop_bit (shift_by (itype inst) y) x))"
proof -
  note t = assms(1)
  have d: "canonical2 (itype inst) c0 c1 x y" using assms by (simp add: canonical2_def)
  have "GetIntValue c1 = 0" if "y = 0"
    using assms(5) that by (metis canonical_def signed_0 signed_word_eqI uint_0_iff)
  then have "ConstFoldingDiv fo g inst = (Kept, g) \<and> ConstFoldingMod fo g inst = (Kept, g)" if "y = 0"
    using that assms(2,3) by (simp add: ConstFoldingDiv_def ConstFoldingMod_def ConstFoldingDivInt2Int_def is_int_common[OF t])
  moreover have "folds_to g (itype inst) (ConstFoldingAShr g inst) (drop_bit (shift_by (itype inst) y) x)"
    if "IsTypeSigned (itype inst)"
    using fold_ashr.folds[OF assms(1,2,3)] that assms(4) canonical_denotes[OF t assms(5)] by blast
  ultimately show ?thesis
    using fold_div.folds[OF assms(1,2,3)] fold_mod.folds[OF assms(1,2,3)] d
      fold_min.folds[OF assms(1,2,3) d] fold_max.folds[OF assms(1,2,3) d] by blast
qed

theorem fold_division_min_max_witness:
  "\<forall>fo. folds_to (empty_graph True) INT32 (ConstFoldingDiv fo (empty_graph True)
     (mk_inst INT32 INT32 (Constant (const64 (- 2147483648))) (Constant (const64 (- 1))) CC_EQ)) 2147483648"
proof
  fix fo
  let ?a = "const64 (- 2147483648)" and ?b = "const64 (- 1)"
  let ?i = "mk_inst INT32 INT32 (Constant ?a) (Constant ?b) CC_EQ"
  have "is_int (itype ?i)" "canonical (itype ?i) ?a (- 2147483648)" "canonical (itype ?i) ?b (- 1)"
    by (simp_all add: is_int_def canonical_def const64_def GetIntValue_def IsTypeSigned_def wrap_int_def
        signed_take_bit_eq_if_negative)
  then show "folds_to (empty_graph True) INT32 (ConstFoldingDiv fo (empty_graph True) ?i) 2147483648"
    using fold_division_min_max[of ?i ?a ?b "- 2147483648" "- 1" "empty_graph True" fo]
    by (simp add: signed_divide_int_def)
qed

text \<open>C31: Folding the negation or complement, at any integer type, of a constant that denotes \<open>x\<close> at that
  type gives the negated or complemented \<open>x\<close>, wrapped to the type. Folding an integer cast of an INT32 or
  INT64 constant that denotes \<open>x\<close> at the integer input type gives \<open>x\<close> wrapped to the type of the result. The
  absolute value is right at the signed types, and for a constant of the graph that stores \<open>x\<close> extended by
  its sign to 64 bits (\<open>canonical\<close>); the absolute value of the least value of INT64 is the value itself. Other
  constants that denote \<open>x\<close> are folded wrongly (\<open>fold_abs_counterexample\<close>).\<close>

theorem fold_unary_and_cast:
  assumes "is_int (itype inst)" "input0 inst = Constant c"
  shows "(denotes (itype inst) c x \<longrightarrow> folds_to g (itype inst) (ConstFoldingNeg g inst) (- x) \<and>
      folds_to g (itype inst) (ConstFoldingNot g inst) (NOT x)) \<and>
    (IsTypeSigned (itype inst) \<and> canonical (itype inst) c x \<and> c \<in> set (constants g) \<longrightarrow>
      folds_to g (itype inst) (ConstFoldingAbs nd g inst) \<bar>x\<bar>) \<and>
    (is_int (GetInputType inst) \<and> GetType c \<in> {INT32, INT64} \<and> denotes (GetInputType inst) c x \<longrightarrow>
      folds_to g (itype inst) (ConstFoldingCast fo rt g inst) x)"
  using ConstFoldingNeg_folds[OF assms] ConstFoldingNot_folds[OF assms] ConstFoldingAbs_folds[OF assms]
    ConstFoldingCast_int_folds[OF assms(1) _ assms(2)] by blast

theorem fold_unary_and_cast_witness:
  "\<forall>fo rt. folds_to (empty_graph False) UINT8 (ConstFoldingCast fo rt (empty_graph False)
     (mk_inst UINT8 INT16 (Constant (const64 65535)) NullPtr CC_EQ)) (- 1) \<and> wrap_int UINT8 (- 1) = 255"
proof (intro allI)
  fix fo rt
  let ?i = "mk_inst UINT8 INT16 (Constant (const64 65535)) NullPtr CC_EQ"
  have "is_int (itype ?i)" "is_int (GetInputType ?i)" "GetType (const64 65535) \<in> {INT32, INT64}"
    "denotes (GetInputType ?i) (const64 65535) (- 1)" "wrap_int UINT8 (- 1) = 255"
    by code_simp+
  then show "folds_to (empty_graph False) UINT8 (ConstFoldingCast fo rt (empty_graph False) ?i) (- 1) \<and> wrap_int UINT8 (- 1) = 255"
    using fold_unary_and_cast[of ?i "const64 65535" "- 1" "empty_graph False" True fo rt] by simp
qed

text \<open>C32: Folding a three-way comparison of two integer constants gives 1, -1 or 0 by their order at
  the operand type, and folding a comparison by a condition code of the type's signedness gives 1 or 0
  by that code; the constants are in the graph afterwards.\<close>

theorem fold_comparisons:
  assumes "is_int (GetInputType inst)" "input0 inst = Constant c0" "input1 inst = Constant c1"
    and "denotes (GetInputType inst) c0 x" "denotes (GetInputType inst) c1 y"
  shows "folds_to g INT32 (ConstFoldingCmp fo g inst) (if x > y then 1 else if x < y then - 1 else 0) \<and>
    (cc_fits (GetCc inst) (GetInputType inst) \<and> wf_graph g \<longrightarrow>
     (\<exists>c g'. ConstFoldingCompare g inst = (Replaced (Constant c), g') \<and>
        GetIntValue c = of_bool (cc_int (GetCc inst) x y) \<and> c \<in> set (constants g') \<and> extends g g'))"
  using ConstFoldingCmp_folds[OF assms] ConstFoldingCompare_folds[OF assms] by (simp add: GetResult_int_def)

theorem fold_comparisons_witness:
  "\<exists>c g'. ConstFoldingCompare (empty_graph True)
     (mk_inst BOOL UINT8 (Constant (const64 (- 1))) (Constant (const64 1)) CC_A) = (Replaced (Constant c), g') \<and> GetIntValue c = 1"
proof -
  let ?i = "mk_inst BOOL UINT8 (Constant (const64 (- 1))) (Constant (const64 1)) CC_A"
  have "is_int (GetInputType ?i)" "denotes (GetInputType ?i) (const64 (- 1)) 255" "denotes (GetInputType ?i) (const64 1) 1"
    "cc_fits (GetCc ?i) (GetInputType ?i)"
    by code_simp+
  then have "\<exists>c g'. ConstFoldingCompare (empty_graph True) ?i = (Replaced (Constant c), g') \<and> GetIntValue c = of_bool (cc_int (GetCc ?i) 255 1)"
    using fold_comparisons[of ?i "const64 (- 1)" "const64 1" 255 1 "empty_graph True"]
      wf_empty_graph[of True] mk_inst_simps(2,3) by blast
  then show ?thesis by simp
qed

text \<open>The identities that fold an instruction with an operand that is not a constant: x - x, x xor
  x, the comparison of x with itself and x mod 1 are folded to the constant that denotes their value,
  and whenever a conjunction or disjunction with one constant operand is folded, the constant denotes
  the result for every value of the other operand.\<close>

lemma fold_identities:
  assumes "is_int (itype inst)"
  shows "(input1 inst = input0 inst \<and> \<not> IsConst_inst (input0 inst) \<longrightarrow>
      folds_to g (itype inst) (ConstFoldingSub fo g inst) (x - x) \<and>
      folds_to g (itype inst) (ConstFoldingXor g inst) (x XOR x) \<and>
      (is_int (GetInputType inst) \<longrightarrow> folds_to g (itype inst) (ConstFoldingCmp fo g inst) 0)) \<and>
    (GetDataFlowInput (input1 inst) = Constant c \<and> GetIntValue c = 1 \<longrightarrow>
      folds_to g (itype inst) (ConstFoldingMod fo g inst) (x smod 1)) \<and>
    (theConst (input0 inst) (input1 inst) = Some c \<and> \<not> (IsConst_inst (input0 inst) \<and> IsConst_inst (input1 inst)) \<and>
       denotes (itype inst) c y \<longrightarrow>
      (ConstFoldingAnd g inst = (Replaced (Constant c'), g') \<longrightarrow> denotes (itype inst) c' (wrap_int (itype inst) (x AND y))) \<and>
      (ConstFoldingOr g inst = (Replaced (Constant c'), g') \<longrightarrow> denotes (itype inst) c' (wrap_int (itype inst) (x OR y))))"
  using ConstFolding_same_input[OF assms] ConstFoldingMod_one[OF assms] ConstFoldingAnd_Or_absorb[OF assms]
    ConstFoldingCmp_same_input[OF assms, of g fo 0] by (simp add: GetResult_int_def)

text \<open>A float comparison with a constant operand that is not a number is folded whatever the other
  operand is: the three-way comparison to 1 or -1 by the treatment of NaN the instruction asks for, and
  the comparison by a condition code to 1 for CC_NE and to 0 for the other codes.\<close>

lemma fold_nan_comparisons:
  assumes "IsFloatType (GetInputType inst)" "nan_input inst"
  shows "(is_int (itype inst) \<longrightarrow> folds_to g (itype inst) (ConstFoldingCmp fo g inst) (if IsFcmpg inst then 1 else - 1)) \<and>
    (wf_graph g \<and> GetCc inst \<in> {CC_EQ, CC_NE, CC_LT, CC_LE, CC_GT, CC_GE} \<longrightarrow>
     (\<exists>c g'. ConstFoldingCompare g inst = (Replaced (Constant c), g') \<and>
        GetIntValue c = of_bool (GetCc inst = CC_NE) \<and> c \<in> set (constants g') \<and> extends g g'))"
  using ConstFoldingCmp_nan[OF _ assms] ConstFoldingCompare_nan[OF assms] by blast

text \<open>C33: Instructions with an operand that is not a constant: x - x, x xor x, the comparison of x with
  itself and x mod 1 are folded to the constant that denotes their value; whenever a conjunction or
  disjunction with one constant operand is folded, the constant denotes the result for every value of the
  other operand; and a float comparison with a constant that is not a number is folded to 1 or -1 by the
  treatment of NaN the instruction asks for, or to 1 for CC_NE and to 0 for the other condition codes.\<close>

theorem fold_one_constant_operand:
  "(is_int (itype inst) \<longrightarrow>
     (input1 inst = input0 inst \<and> \<not> IsConst_inst (input0 inst) \<longrightarrow>
       folds_to g (itype inst) (ConstFoldingSub fo g inst) (x - x) \<and>
       folds_to g (itype inst) (ConstFoldingXor g inst) (x XOR x) \<and>
       (is_int (GetInputType inst) \<longrightarrow> folds_to g (itype inst) (ConstFoldingCmp fo g inst) 0)) \<and>
     (GetDataFlowInput (input1 inst) = Constant c \<and> GetIntValue c = 1 \<longrightarrow>
       folds_to g (itype inst) (ConstFoldingMod fo g inst) (x smod 1)) \<and>
     (theConst (input0 inst) (input1 inst) = Some c \<and> \<not> (IsConst_inst (input0 inst) \<and> IsConst_inst (input1 inst)) \<and>
        denotes (itype inst) c y \<longrightarrow>
       (ConstFoldingAnd g inst = (Replaced (Constant c'), g') \<longrightarrow> denotes (itype inst) c' (wrap_int (itype inst) (x AND y))) \<and>
       (ConstFoldingOr g inst = (Replaced (Constant c'), g') \<longrightarrow> denotes (itype inst) c' (wrap_int (itype inst) (x OR y))))) \<and>
   (IsFloatType (GetInputType inst) \<and> nan_input inst \<longrightarrow>
     (is_int (itype inst) \<longrightarrow> folds_to g (itype inst) (ConstFoldingCmp fo g inst) (if IsFcmpg inst then 1 else - 1)) \<and>
     (wf_graph g \<and> GetCc inst \<in> {CC_EQ, CC_NE, CC_LT, CC_LE, CC_GT, CC_GE} \<longrightarrow>
      (\<exists>c g'. ConstFoldingCompare g inst = (Replaced (Constant c), g') \<and>
         GetIntValue c = of_bool (GetCc inst = CC_NE) \<and> c \<in> set (constants g') \<and> extends g g')))"
  using fold_identities[of inst] fold_nan_comparisons[of inst g] by blast

theorem fold_one_constant_operand_witness:
  "denotes INT32 (const64 (- 1)) (wrap_int INT32 (5 OR - 1)) \<and>
   (\<exists>c g'. ConstFoldingCompare (empty_graph False)
     (mk_inst BOOL FLOAT32 (OtherInst 3 FLOAT32) (Constant \<lparr>GetType = FLOAT32, value_raw = 0x7fc00000\<rparr>) CC_NE) =
       (Replaced (Constant c), g') \<and> GetIntValue c = 1)"
proof
  let ?i = "mk_inst INT32 INT32 (OtherInst 3 INT32) (Constant (const64 (- 1))) CC_EQ"
  have "is_int (itype ?i)" "denotes (itype ?i) (const64 (- 1)) (- 1)"
    "ConstFoldingOr (empty_graph False) ?i = (Replaced (Constant (const64 (- 1))), empty_graph False)"
    by code_simp+
  then show "denotes INT32 (const64 (- 1)) (wrap_int INT32 (5 OR - 1))"
    using fold_one_constant_operand[of ?i "empty_graph False" _ 5 "const64 (- 1)" "- 1" "const64 (- 1)" "empty_graph False"]
    by simp
next
  let ?i = "mk_inst BOOL FLOAT32 (OtherInst 3 FLOAT32) (Constant \<lparr>GetType = FLOAT32, value_raw = 0x7fc00000\<rparr>) CC_NE"
  have "IsFloatType (GetInputType ?i)" "nan_input ?i"
    by (simp_all add: IsFloatType_def nan_input_def IsNaNConst_def GetFloatValue_def isnan32_def)
  then have "\<exists>c g'. ConstFoldingCompare (empty_graph False) ?i = (Replaced (Constant c), g') \<and> GetIntValue c = of_bool (GetCc ?i = CC_NE)"
    using fold_one_constant_operand[of ?i "empty_graph False"] wf_empty_graph[of False] mk_inst_simps(5) by blast
  then show "\<exists>c g'. ConstFoldingCompare (empty_graph False) ?i = (Replaced (Constant c), g') \<and> GetIntValue c = 1" by simp
qed

text \<open>C34: FindOrCreateConstant keeps the graph's constants well-formed and without duplicates, returns
  a constant of the new graph that equals the value, keeps every earlier constant, and finds the same
  constant without a change when it is asked again.\<close>

theorem constants_interned:
  assumes "wf_graph g" "FindOrCreateConstant g v = (c, g')"
  shows "wf_graph g' \<and> extends g g' \<and> c \<in> set (constants g') \<and> wf_const c \<and>
    IsEqualConst c v (IsBytecodeOptimizer g) \<and> FindOrCreateConstant g' v = (c, g')"
  using FindOrCreateConstant_wf[OF assms] FindOrCreateConstant_spec[OF assms(2)] FindOrCreateConstant_again[OF assms(2)]
  by blast

theorem constants_interned_witness:
  "FindOrCreateConstant (snd (FindOrCreateConstant (empty_graph True) (U32 0xffffffff))) (U32 0xffffffff) =
     FindOrCreateConstant (empty_graph True) (U32 0xffffffff)"
  using constants_interned[OF wf_empty_graph, of True "U32 0xffffffff"]
  by (cases "FindOrCreateConstant (empty_graph True) (U32 0xffffffff)") simp

text \<open>The absolute value is taken of all 64 bits of the constant: the constant 0xFFFFFFFF, which denotes -1 at
  INT32, is folded to a constant that denotes -1 as well. A debug build stops at an unsigned type.\<close>

theorem fold_abs_counterexample:
  "denotes INT32 (const64 0xffffffff) (- 1) \<and>
   folds_to (empty_graph False) INT32 (ConstFoldingAbs nd (empty_graph False)
     (mk_inst INT32 INT32 (Constant (const64 0xffffffff)) NullPtr CC_EQ)) (- 1) \<and>
   fst (ConstFoldingAbs False (empty_graph False) (mk_inst UINT32 UINT32 (Constant (const64 1)) NullPtr CC_EQ)) = Unreachable"
proof -
  have "is_int INT32" by (simp add: is_int_def)
  have "denotes INT32 (const64 0xffffffff) (- 1)" by code_simp
  moreover have "folds_to (empty_graph False) INT32 (foldInt (empty_graph False) INT32 0xffffffff) 0xffffffff"
    by (rule foldInt_folds(1)[OF \<open>is_int INT32\<close>])
  moreover have "wrap_int INT32 0xffffffff = wrap_int INT32 (- 1)" by code_simp
  moreover have "ConstFoldingAbs nd (empty_graph False) (mk_inst INT32 INT32 (Constant (const64 0xffffffff)) NullPtr CC_EQ)
      = foldInt (empty_graph False) INT32 0xffffffff"
    by (simp add: ConstFoldingAbs_def GetCommonType_def IsTypeSigned_def const64_def GetIntValue_def)
  ultimately show ?thesis
    by (simp add: folds_to_def) (simp add: ConstFoldingAbs_def GetCommonType_def IsTypeSigned_def)
qed

text \<open>The guard of division and remainder looks at all 64 bits of the divisor constant: a constant
  that is zero at a 32-bit type but has a bit set above passes it, and the bytecode optimizer then
  divides by zero at 32 bits. And an integer literal is not cast to a float in the bytecode optimizer
  even if the cast is asked for literal data, while a float literal is.\<close>

theorem fold_guard_counterexamples:
  "denotes INT32 (const64 0x100000000) 0 \<and>
   fst (ConstFoldingDiv fo (empty_graph True)
     (mk_inst INT32 INT32 (Constant (const64 7)) (Constant (const64 0x100000000)) CC_EQ)) = Undefined \<and>
   fst (ConstFoldingMod fo (empty_graph True)
     (mk_inst INT32 INT32 (Constant (const64 7)) (Constant (const64 0x100000000)) CC_EQ)) = Undefined \<and>
   fst (ConstFoldingCastConst fo rt (empty_graph True) (mk_inst FLOAT32 INT64 (Constant (const64 7)) NullPtr CC_EQ) (const64 7) True) = Kept \<and>
   fst (ConstFoldingCastConst fo rt (empty_graph True) (mk_inst FLOAT32 FLOAT64 NullPtr NullPtr CC_EQ) \<lparr>GetType = FLOAT64, value_raw = 0\<rparr> True) \<noteq> Kept"
  by (simp add: denotes_def const64_def GetIntValue_def ConstFoldingDiv_def ConstFoldingDivInt2Int_def ConstFoldingMod_def
      ConstFoldingModIntConst_def GetCommonType_def IsTypeSigned_def empty_graph_def IsInt32Bit_def IsFloatType_def
      asInt32_def ConstFoldingCastConst_def ConstFoldingCastIntConst_def replaceBy_def split: prod.split)

end
