(* ===== verification/Interpreter_Ops.thy ===== *)
theory Interpreter_Ops
  imports Interpreter_Step Const_Folding_Sound
begin

text \<open>
  What the handlers compute (theory \<open>Interpreter\<close>), as functions on the numbers that registers hold at
  the types of the intermediate representation. The locale \<open>word_op\<close> is the contract of an operation on
  machine words, interpreted by the operations of \<^verbatim>\<open>math_helpers.h\<close>; the locale \<open>typed_slot\<close> is the
  contract of reading operands and storing results at a type, interpreted by the overloads of
  \<^verbatim>\<open>VRegister::Set\<close>; in it the shared handler bodies are related to integer functions once for all types
  and operations. Conversions, comparisons, conditional branches with their profile counters, and array
  accesses follow.
\<close>

section \<open>Integer operations\<close>

text \<open>The number a register holds, read at an integer type.\<close>

definition ival :: "DataType \<Rightarrow> VReg \<Rightarrow> int" where
  "ival t r = wrap_int t (uint (payload r))"

text \<open>The contract of an operation on machine words: it is the integer function \<open>f\<close> on the numbers the
  words are read as, modulo the width.\<close>

locale word_op =
  fixes rd :: "'a::len word \<Rightarrow> int" and Op :: "'a word \<Rightarrow> 'a word \<Rightarrow> 'a word" and f :: "int \<Rightarrow> int \<Rightarrow> int"
  assumes op: "Op a b = word_of_int (f (rd a) (rd b))"

interpretation add_op: word_op sint Plus "(+)"
  by unfold_locales (simp add: Plus_def)

interpretation sub_op: word_op sint Minus "(-)"
  by unfold_locales (simp add: Minus_def)

interpretation mul_op: word_op sint Multiplies "(*)"
  by unfold_locales (simp add: Multiplies_def)

interpretation and_op: word_op sint "(AND)" "(AND)"
  by unfold_locales (simp flip: signed_and_eq)

interpretation or_op: word_op sint "(OR)" "(OR)"
  by unfold_locales (simp flip: signed_or_eq)

interpretation xor_op: word_op sint "(XOR)" "(XOR)"
  by unfold_locales (simp flip: signed_xor_eq)

lemma word_of_int_least_quotient:
  assumes "sint (x :: 'a::len word) = - (2 ^ (LENGTH('a) - 1))"
  shows "word_of_int (2 ^ (LENGTH('a) - 1)) = x"
proof -
  have "(2 :: 'a word) * 2 ^ (LENGTH('a) - 1) = 2 ^ LENGTH('a)" by (metis Suc_diff_1 len_gt_0 power_Suc)
  then have "- (2 ^ (LENGTH('a) - 1)) = (2 :: 'a word) ^ (LENGTH('a) - 1)" by (simp add: neg_eq_iff_add_eq_0)
  moreover have "x = - (2 ^ (LENGTH('a) - 1))" using arg_cong[OF assms, of "word_of_int :: int \<Rightarrow> 'a word"] by simp
  ultimately show ?thesis by simp
qed

interpretation div_op: word_op sint idivides_signed "(sdiv)"
proof
  show "idivides_signed x y = word_of_int (sint x sdiv sint y)" for x y :: "'a::len word"
    using word_of_int_least_quotient[of x] by (auto simp: idivides_signed_def signed_divide_int_def)
qed

interpretation mod_op: word_op sint imodulus_signed "(smod)"
  by unfold_locales (auto simp: imodulus_signed_def signed_modulo_int_def signed_divide_int_def)

interpretation divu_op: word_op uint idivides_unsigned "(div)"
  by unfold_locales (simp add: idivides_unsigned_def word_div_def)

interpretation modu_op: word_op uint imodulus_unsigned "(mod)"
  by unfold_locales (simp add: imodulus_unsigned_def word_mod_def)


lemma shift_amount:
  assumes "k < LENGTH('a)"
  shows "unat ((y :: 'a::len word) AND (2 ^ k - 1)) = nat (sint y mod 2 ^ k)"
proof -
  have "sint y mod 2 ^ k = uint y mod 2 ^ k"
    using take_bit_signed_take_bit[of k "LENGTH('a) - 1" "uint y"] assms by (simp add: sint_uint take_bit_eq_mod)
  then show ?thesis by (simp only: unat_and_mask unsigned_of_nat) (simp add: nat_mod_distrib nat_power_eq)
qed

lemma shift_amounts: "unat (y AND 31) = nat (sint y mod 32)" "unat (z AND 63) = nat (sint z mod 64)" for y :: u32 and z :: u64
  using shift_amount[of 5 y] shift_amount[of 6 z] by simp_all

lemma word_drop_bit_wi: "word_of_int (drop_bit n (take_bit LENGTH('a) (sint x))) = drop_bit n (x :: 'a::len word)"
  unfolding uint_sint[symmetric] by (rule bit_word_eqI) (auto simp: bit_simps)

lemma word_push_bit_wi: "word_of_int (push_bit n (sint x)) = push_bit n (x :: 'a::len word)"
  by (rule bit_word_eqI) (auto simp: bit_simps)

lemma word_ashr_wi: "word_of_int (drop_bit n (sint x)) = signed_drop_bit n (x :: 'a::len word)"
  by (rule bit_word_eqI) (auto simp: bit_simps)

interpretation shl32_op: word_op sint "bit_shl :: u32 \<Rightarrow> _" "\<lambda>x y. push_bit (nat (y mod 32)) x"
  by unfold_locales (simp add: bit_shl_def shift_amounts word_push_bit_wi)

interpretation shl64_op: word_op sint "bit_shl :: u64 \<Rightarrow> _" "\<lambda>x y. push_bit (nat (y mod 64)) x"
  by unfold_locales (simp add: bit_shl_def shift_amounts word_push_bit_wi)

interpretation shr32_op: word_op sint "bit_shr :: u32 \<Rightarrow> _" "\<lambda>x y. drop_bit (nat (y mod 32)) (take_bit 32 x)"
  using word_drop_bit_wi[where 'a = 32] by unfold_locales (simp add: bit_shr_def shift_amounts)

interpretation shr64_op: word_op sint "bit_shr :: u64 \<Rightarrow> _" "\<lambda>x y. drop_bit (nat (y mod 64)) (take_bit 64 x)"
  using word_drop_bit_wi[where 'a = 64] by unfold_locales (simp add: bit_shr_def shift_amounts)

interpretation ashr32_op: word_op sint "bit_ashr :: u32 \<Rightarrow> _" "\<lambda>x y. drop_bit (nat (y mod 32)) x"
  by unfold_locales (simp add: bit_ashr_def shift_amounts word_ashr_wi)

interpretation ashr64_op: word_op sint "bit_ashr :: u64 \<Rightarrow> _" "\<lambda>x y. drop_bit (nat (y mod 64)) x"
  by unfold_locales (simp add: bit_ashr_def shift_amounts word_ashr_wi)


lemma sint_uint_zero: "sint w = 0 \<longleftrightarrow> w = 0" "uint w = 0 \<longleftrightarrow> w = 0"
  by (metis signed_0 signed_word_eqI) (rule uint_0_iff)

text \<open>A type an operand is read at and a result is stored with: \<open>rd\<close> reads the low bits as the type does,
  and what \<open>setv\<close> stores for a number is that number at the type.\<close>

locale typed_slot =
  fixes t :: DataType and setv :: "'a::len word \<Rightarrow> u64" and rd :: "'a word \<Rightarrow> int"
  assumes read: "rd (word_of_int v) = wrap_int t v"
    and stored: "wrap_int t (uint (setv (word_of_int v))) = wrap_int t v"
    and zero: "rd w = 0 \<longleftrightarrow> w = 0"

interpretation int32: typed_slot INT32 Set_int32 sint
  by unfold_locales
    (simp_all add: sint_uint_zero wrap_int_def IsTypeSigned_def sint_sbintrunc' Set_int32_def scast_eq uint_word_of_int_eq
      signed_take_bit_take_bit)

interpretation int64: typed_slot INT64 Set_int64 sint
  by unfold_locales
    (simp_all add: sint_uint_zero wrap_int_def IsTypeSigned_def sint_sbintrunc' Set_int64_def uint_word_of_int_eq signed_take_bit_take_bit)

interpretation uint32: typed_slot UINT32 Set_uint32 uint
  by unfold_locales
    (simp_all add: sint_uint_zero wrap_int_def IsTypeSigned_def Set_uint32_def uint_word_of_int_eq unsigned_ucast_eq)

interpretation uint64: typed_slot UINT64 Set_uint64 uint
  by unfold_locales (simp_all add: sint_uint_zero wrap_int_def IsTypeSigned_def Set_uint64_def uint_word_of_int_eq)


text \<open>The results of the unsigned operations go through the signed type when they are stored in a register.\<close>

interpretation uint32s: typed_slot UINT32 Set_int32 uint
  by unfold_locales
    (simp_all add: sint_uint_zero wrap_int_def IsTypeSigned_def Set_int32_def scast_eq sint_sbintrunc' uint_word_of_int_eq
      take_bit_signed_take_bit)

interpretation uint64s: typed_slot UINT64 Set_int64 uint
  by unfold_locales (simp_all add: sint_uint_zero wrap_int_def IsTypeSigned_def Set_int64_def uint_word_of_int_eq)

text \<open>The effect of a binary operation on integers, with its result in the accumulator and in the register
  of the first operand.\<close>

definition acc_gets :: "DataType \<Rightarrow> bool \<Rightarrow> Env \<Rightarrow> BytecodeInst \<Rightarrow> Interp \<Rightarrow> (int \<Rightarrow> int \<Rightarrow> int) \<Rightarrow> int \<Rightarrow> int \<Rightarrow> Interp option \<Rightarrow> bool" where
  "acc_gets t isDiv env i s f x y res \<longleftrightarrow>
     (if isDiv \<and> y = 0 then res = Some (ThrowTo ArithmeticException env i s)
      else \<exists>r. res = Some (MoveToNextInst isDiv i (s\<lparr>acc := r\<rparr>)) \<and> ival t r = wrap_int t (f x y) \<and>
               (mirror r = mirror (acc s) \<or> mirror r = PRIMITIVE_TYPE))"

definition vreg_gets :: "DataType \<Rightarrow> bool \<Rightarrow> Env \<Rightarrow> BytecodeInst \<Rightarrow> Interp \<Rightarrow> (int \<Rightarrow> int \<Rightarrow> int) \<Rightarrow> int \<Rightarrow> int \<Rightarrow> Interp option \<Rightarrow> bool" where
  "vreg_gets t isDiv env i s f x y res \<longleftrightarrow>
     (if isDiv \<and> y = 0 then res = Some (ThrowTo ArithmeticException env i s)
      else \<exists>r. res = Some (MoveToNextInst isDiv i (s\<lparr>vregs := (vregs s)[vreg0 i := r]\<rparr>)) \<and> ival t r = wrap_int t (f x y) \<and>
               mirror r = PRIMITIVE_TYPE)"

lemma GetVReg_Some: "GetVReg s k = Some r \<longleftrightarrow> k < length (vregs s) \<and> vregs s ! k = r"
  by (simp add: GetVReg_def nth_opt_def)

lemma acc_getsI:
  assumes "z \<longleftrightarrow> y = 0" "ival t r = wrap_int t (f x y)" "mirror r = mirror (acc s) \<or> mirror r = PRIMITIVE_TYPE"
  shows "acc_gets t d env i s f x y
    (if d \<and> z then Some (ThrowTo ArithmeticException env i s) else Some (MoveToNextInst d i (s\<lparr>acc := r\<rparr>)))"
  using assms by (auto simp: acc_gets_def)

lemma vreg_getsI:
  assumes "vreg0 i < length (vregs s)" "z \<longleftrightarrow> y = 0" "wrap_int t (uint v) = wrap_int t (f x y)"
  shows "vreg_gets t d env i s f x y
    (if d \<and> z then Some (ThrowTo ArithmeticException env i s)
     else map_option (MoveToNextInst d i) (PutVReg (vreg0 i) (SetPrimitive v) s))"
  using assms by (auto simp: vreg_gets_def PutVReg_def ival_def SetPrimitive_def)

context typed_slot
begin

lemma rd_GetAs: "rd (GetAs r) = ival t r"
  using read[of "uint (payload r)"] by (simp add: GetAs_def ival_def word_of_int_uint)

lemma GetAs_zero: "GetAs r = (0 :: 'a word) \<longleftrightarrow> ival t r = 0"
  by (simp flip: zero rd_GetAs)

lemma imm_zero: "word_of_int v = (0 :: 'a word) \<longleftrightarrow> wrap_int t v = 0"
  by (simp add: read flip: zero)

lemma store_op:
  assumes "word_op rd Op f"
  shows "wrap_int t (uint (setv (Op a b))) = wrap_int t (f (rd a) (rd b))"
  using stored by (simp add: word_op.op[OF assms])

lemma op2_imm:
  assumes "word_op rd Op f"
  shows "acc_gets t d env i s f (ival t (acc s)) (wrap_int t (imm i)) (HandleBinaryOp2Imm d setv Op env i s)"
  unfolding HandleBinaryOp2Imm_def Let_def
  by (rule acc_getsI) (simp_all add: imm_zero SetValue_def store_op[OF assms] rd_GetAs read ival_def[of t "acc s\<lparr>payload := _\<rparr>"])

lemma op_immV:
  assumes "word_op rd Op f" "GetVReg s (vreg1 i) = Some r" "vreg0 i < length (vregs s)"
  shows "vreg_gets t d env i s f (ival t r) (wrap_int t (imm i)) (HandleBinaryOpImmV d setv Op env i s)"
  unfolding HandleBinaryOpImmV_def Let_def assms(2) bind.bind_lunit
  by (rule vreg_getsI) (simp_all add: imm_zero store_op[OF assms(1)] rd_GetAs read assms(3))

lemma op2:
  assumes "word_op rd Op f" "GetVReg s (vreg0 i) = Some r"
  shows "acc_gets t d env i s f (ival t (acc s)) (ival t r) (HandleBinaryOp2 d setv Op env i s)"
  unfolding HandleBinaryOp2_def Let_def assms(2) bind.bind_lunit
  by (rule acc_getsI) (simp_all add: GetAs_zero SetValue_def store_op[OF assms(1)] rd_GetAs ival_def[of t "acc s\<lparr>payload := _\<rparr>"])

lemma op2V:
  assumes "word_op rd Op f" "GetVReg s (vreg1 i) = Some r" "vreg0 i < length (vregs s)"
  shows "vreg_gets t d env i s f (ival t (acc s)) (ival t r) (HandleBinaryOp2V d setv Op env i s)"
  unfolding HandleBinaryOp2V_def Let_def assms(2) bind.bind_lunit
  by (rule vreg_getsI) (simp_all add: GetAs_zero store_op[OF assms(1)] rd_GetAs assms(3))

lemma op3:
  assumes "word_op rd Op f" "GetVReg s (vreg0 i) = Some r0" "GetVReg s (vreg1 i) = Some r1"
  shows "acc_gets t d env i s f (ival t r0) (ival t r1) (HandleBinaryOp d setv Op env i s)"
  unfolding HandleBinaryOp_def Let_def assms(2,3) bind.bind_lunit
  by (rule acc_getsI) (simp_all add: GetAs_zero SetPrimitive_def store_op[OF assms(1)] rd_GetAs ival_def[of t "\<lparr>payload = _, mirror = _\<rparr>"])

lemma op3V:
  assumes "word_op rd Op f" "GetVReg s (vreg0 i) = Some r0" "GetVReg s (vreg1 i) = Some r1"
  shows "vreg_gets t d env i s f (ival t r0) (ival t r1) (HandleBinaryOpV d setv Op env i s)"
  unfolding HandleBinaryOpV_def Let_def assms(2,3) bind.bind_lunit
  using assms(2) by (intro vreg_getsI) (simp_all add: GetAs_zero store_op[OF assms(1)] rd_GetAs GetVReg_Some)

end

text \<open>The handlers of the arithmetic instructions with the integer function each computes: on the
  accumulator and a register, with the result in the accumulator and in a register; on two registers, with
  the result in the accumulator and in the first of them; with an immediate, on the accumulator and on a
  register; whether the operation throws on a zero divisor.\<close>

definition int32_ops ::
  "(handler \<times> handler \<times> handler \<times> handler \<times> handler \<times> handler \<times> bool \<times> (int \<Rightarrow> int \<Rightarrow> int)) list" where
  "int32_ops =
    [(HandleAdd2, HandleAdd2v, HandleAdd, HandleAddv, HandleAddi, HandleAddiv, False, (+)),
     (HandleSub2, HandleSub2v, HandleSub, HandleSubv, HandleSubi, HandleSubiv, False, (-)),
     (HandleMul2, HandleMul2v, HandleMul, HandleMulv, HandleMuli, HandleMuliv, False, (*)),
     (HandleAnd2, HandleAnd2v, HandleAnd, HandleAndv, HandleAndi, HandleAndiv, False, (AND)),
     (HandleOr2, HandleOr2v, HandleOr, HandleOrv, HandleOri, HandleOriv, False, (OR)),
     (HandleXor2, HandleXor2v, HandleXor, HandleXorv, HandleXori, HandleXoriv, False, (XOR)),
     (HandleShl2, HandleShl2v, HandleShl, HandleShlv, HandleShli, HandleShliv, False, \<lambda>x y. push_bit (nat (y mod 32)) x),
     (HandleShr2, HandleShr2v, HandleShr, HandleShrv, HandleShri, HandleShriv, False, \<lambda>x y. drop_bit (nat (y mod 32)) (take_bit 32 x)),
     (HandleAshr2, HandleAshr2v, HandleAshr, HandleAshrv, HandleAshri, HandleAshriv, False, \<lambda>x y. drop_bit (nat (y mod 32)) x),
     (HandleDiv2, HandleDiv2v, HandleDiv, HandleDivv, HandleDivi, HandleDiviv, True, (sdiv)),
     (HandleMod2, HandleMod2v, HandleMod, HandleModv, HandleModi, HandleModiv, True, (smod))]"

definition int64_ops :: "(handler \<times> handler \<times> bool \<times> (int \<Rightarrow> int \<Rightarrow> int)) list" where
  "int64_ops =
    [(HandleAdd2Wide, HandleAdd2vWide, False, (+)),
     (HandleSub2Wide, HandleSub2vWide, False, (-)),
     (HandleMul2Wide, HandleMul2vWide, False, (*)),
     (HandleAnd2Wide, HandleAnd2vWide, False, (AND)),
     (HandleOr2Wide, HandleOr2vWide, False, (OR)),
     (HandleXor2Wide, HandleXor2vWide, False, (XOR)),
     (HandleShl2Wide, HandleShl2vWide, False, \<lambda>x y. push_bit (nat (y mod 64)) x),
     (HandleShr2Wide, HandleShr2vWide, False, \<lambda>x y. drop_bit (nat (y mod 64)) (take_bit 64 x)),
     (HandleAshr2Wide, HandleAshr2vWide, False, \<lambda>x y. drop_bit (nat (y mod 64)) x),
     (HandleDiv2Wide, HandleDiv2vWide, True, (sdiv)),
     (HandleMod2Wide, HandleMod2vWide, True, (smod))]"

definition unsigned_ops :: "(handler \<times> handler \<times> handler \<times> handler \<times> (int \<Rightarrow> int \<Rightarrow> int)) list" where
  "unsigned_ops =
    [(HandleDivu2, HandleDivu2v, HandleDivu2Wide, HandleDivu2vWide, (div)),
     (HandleModu2, HandleModu2v, HandleModu2Wide, HandleModu2vWide, (mod))]"

lemmas common_op_laws = add_op.word_op_axioms sub_op.word_op_axioms mul_op.word_op_axioms and_op.word_op_axioms
  or_op.word_op_axioms xor_op.word_op_axioms div_op.word_op_axioms mod_op.word_op_axioms

lemmas shift32_laws = shl32_op.word_op_axioms shr32_op.word_op_axioms ashr32_op.word_op_axioms

lemmas shift64_laws = shl64_op.word_op_axioms shr64_op.word_op_axioms ashr64_op.word_op_axioms

lemmas op_laws = common_op_laws shift32_laws shift64_laws divu_op.word_op_axioms modu_op.word_op_axioms

lemma int32_ops_ok:
  assumes "GetVReg s (vreg0 i) = Some r0" "GetVReg s (vreg1 i) = Some r1"
  shows "list_all (\<lambda>(h2, h2v, h3, h3v, hi, hiv, d, f).
      acc_gets INT32 d env i s f (ival INT32 (acc s)) (ival INT32 r0) (h2 env i s) \<and>
      vreg_gets INT32 d env i s f (ival INT32 (acc s)) (ival INT32 r1) (h2v env i s) \<and>
      acc_gets INT32 d env i s f (ival INT32 r0) (ival INT32 r1) (h3 env i s) \<and>
      vreg_gets INT32 d env i s f (ival INT32 r0) (ival INT32 r1) (h3v env i s) \<and>
      acc_gets INT32 d env i s f (ival INT32 (acc s)) (wrap_int INT32 (imm i)) (hi env i s) \<and>
      vreg_gets INT32 d env i s f (ival INT32 r1) (wrap_int INT32 (imm i)) (hiv env i s)) int32_ops"
proof -
  have l: "vreg0 i < length (vregs s)" using assms(1) by (simp add: GetVReg_Some)
  note laws = int32.op2_imm int32.op_immV[OF _ assms(2) l] int32.op2[OF _ assms(1)] int32.op2V[OF _ assms(2) l]
    int32.op3[OF _ assms] int32.op3V[OF _ assms]
  show ?thesis
    unfolding int32_ops_def list.pred_inject prod.case handler_defs by (intro conjI list.pred_inject(1) laws op_laws)
qed

lemma wide_ops_ok:
  assumes "GetVReg s (vreg0 i) = Some r0" "GetVReg s (vreg1 i) = Some r1"
  shows "list_all (\<lambda>(h2, h2v, d, f).
      acc_gets INT64 d env i s f (ival INT64 (acc s)) (ival INT64 r0) (h2 env i s) \<and>
      vreg_gets INT64 d env i s f (ival INT64 (acc s)) (ival INT64 r1) (h2v env i s)) int64_ops \<and>
    list_all (\<lambda>(h2, h2v, w2, w2v, f).
      acc_gets UINT32 True env i s f (ival UINT32 (acc s)) (ival UINT32 r0) (h2 env i s) \<and>
      vreg_gets UINT32 True env i s f (ival UINT32 (acc s)) (ival UINT32 r1) (h2v env i s) \<and>
      acc_gets UINT64 True env i s f (ival UINT64 (acc s)) (ival UINT64 r0) (w2 env i s) \<and>
      vreg_gets UINT64 True env i s f (ival UINT64 (acc s)) (ival UINT64 r1) (w2v env i s)) unsigned_ops"
proof -
  have l: "vreg0 i < length (vregs s)" using assms(1) by (simp add: GetVReg_Some)
  note laws = int64.op2[OF _ assms(1)] int64.op2V[OF _ assms(2) l] uint32.op2[OF _ assms(1)] uint32s.op2V[OF _ assms(2) l]
    uint64.op2[OF _ assms(1)] uint64s.op2V[OF _ assms(2) l]
  show ?thesis
    unfolding int64_ops_def unsigned_ops_def list.pred_inject prod.case handler_defs by (intro conjI list.pred_inject(1) laws op_laws)
qed



section \<open>Conversions and comparisons\<close>

text \<open>A conversion between integer types: the type the accumulator is read at, the type it is converted to,
  and the type the result is read at, which is INT32 for the narrow types.\<close>

definition int_conversions :: "(handler \<times> DataType \<times> DataType \<times> DataType) list" where
  "int_conversions =
    [(HandleU32toi64, UINT32, INT64, INT64), (HandleU32toi16, UINT32, INT16, INT32), (HandleU32tou16, UINT32, UINT16, INT32),
     (HandleU32toi8, UINT32, INT8, INT32), (HandleU32tou8, UINT32, UINT8, INT32),
     (HandleI32toi64, INT32, INT64, INT64), (HandleI32tou16, INT32, UINT16, INT32), (HandleI32toi16, INT32, INT16, INT32),
     (HandleI32toi8, INT32, INT8, INT32), (HandleI32tou8, INT32, UINT8, INT32),
     (HandleI64toi32, INT64, INT32, INT32), (HandleU64toi32, UINT64, INT32, INT32), (HandleU64tou32, UINT64, UINT32, UINT32)]"

definition bool_conversions :: "(handler \<times> DataType) list" where
  "bool_conversions = [(HandleU32tou1, UINT32), (HandleI32tou1, INT32), (HandleI64tou1, INT64), (HandleU64tou1, UINT64)]"

definition comparisons :: "(handler \<times> DataType) list" where
  "comparisons = [(HandleCmpWide, INT64), (HandleUcmp, UINT32), (HandleUcmpWide, UINT64)]"

text \<open>The handler goes on with the next instruction and replaces the accumulator's value, read at type \<open>t\<close>.\<close>

definition acc_becomes :: "DataType \<Rightarrow> BytecodeInst \<Rightarrow> Interp \<Rightarrow> int \<Rightarrow> Interp option \<Rightarrow> bool" where
  "acc_becomes t i s v res \<longleftrightarrow>
     (\<exists>r. res = Some (MoveToNextInst False i (s\<lparr>acc := r\<rparr>)) \<and> ival t r = v \<and> mirror r = mirror (acc s))"

lemma acc_becomesI: "ival t (SetValue w (acc s)) = v \<Longrightarrow> acc_becomes t i s v (Some (MoveToNextInst False i (s\<lparr>acc := SetValue w (acc s)\<rparr>)))"
  by (auto simp: acc_becomes_def SetValue_def)

lemma conversion_becomes:
  "wrap_int t (uint (setv (cst (GetAs (acc s))))) = v \<Longrightarrow> acc_becomes t i s v (HandleConversion setv cst env i s)"
  unfolding HandleConversion_def by (rule acc_becomesI) (simp add: ival_def SetValue_def)

lemma narrow_stored:
  "wrap_int INT32 (uint (Set_int8 (word_of_int v))) = wrap_int INT8 v"
  "wrap_int INT32 (uint (Set_uint8 (word_of_int v))) = wrap_int UINT8 v"
  "wrap_int INT32 (uint (Set_int16 (word_of_int v))) = wrap_int INT16 v"
  "wrap_int INT32 (uint (Set_uint16 (word_of_int v))) = wrap_int UINT16 v"
  by (simp_all add: wrap_int_def IsTypeSigned_def Set_int8_def Set_uint8_def Set_int16_def Set_uint16_def scast_eq ucast_eq
      sint_sbintrunc' uint_word_of_int_eq signed_take_bit_take_bit  take_bit_signed_take_bit
      signed_take_bit_eq_if_positive bit_take_bit_iff)

lemmas stored_laws = int64.stored int32.stored uint32.stored narrow_stored

lemma wrap_int_narrow:
  assumes "is_int t" "is_int t1" "int_width t \<le> int_width t1"
  shows "wrap_int t (wrap_int t1 v) = wrap_int t v"
proof (rule wrap_int_cong[OF assms(1)])
  have "take_bit (int_width t) (take_bit (int_width t1) (wrap_int t1 v)) = take_bit (int_width t) (take_bit (int_width t1) v)"
    by (simp only: take_bit_wrap_int[OF assms(2)])
  then show "take_bit (int_width t) (wrap_int t1 v) = take_bit (int_width t) v" using assms(3) by simp
qed

lemma cast_reads:
  "ucast (GetAs r :: u32) = word_of_int (ival UINT32 r)"
  "scast (GetAs r :: u32) = word_of_int (ival INT32 r)"
  "ucast (GetAs r :: u64) = word_of_int (ival UINT64 r)"
  by (simp_all add: ucast_eq scast_eq int32.rd_GetAs uint32.rd_GetAs uint64.rd_GetAs)

lemma reads_zero:
  "(GetAs r :: u32) = 0 \<longleftrightarrow> ival UINT32 r = 0" "(GetAs r :: u32) = 0 \<longleftrightarrow> ival INT32 r = 0"
  "(GetAs r :: u64) = 0 \<longleftrightarrow> ival UINT64 r = 0" "(GetAs r :: u64) = 0 \<longleftrightarrow> ival INT64 r = 0"
  by (rule int32.GetAs_zero uint32.GetAs_zero int64.GetAs_zero uint64.GetAs_zero)+

lemma bool_stored: "wrap_int INT32 (uint (Set_bool b)) = of_bool b"
  by (simp add: wrap_int_def IsTypeSigned_def Set_bool_def signed_take_bit_eq_if_positive)

lemma int_conversions_ok:
  "list_all (\<lambda>(h, t1, t2, t3). acc_becomes t3 i s (wrap_int t2 (ival t1 (acc s))) (h env i s)) int_conversions"
  unfolding int_conversions_def list.pred_inject prod.case handler_defs
  by (intro conjI list.pred_inject(1) conversion_becomes)
    (simp_all add: stored_laws cast_reads, simp_all add: ival_def wrap_int_narrow is_int_def)

lemma bool_conversions_ok:
  "list_all (\<lambda>(h, t1). acc_becomes INT32 i s (of_bool (ival t1 (acc s) \<noteq> 0)) (h env i s)) bool_conversions"
  unfolding bool_conversions_def list.pred_inject prod.case handler_defs
  by (intro conjI list.pred_inject(1) conversion_becomes) (simp_all only: bool_stored reads_zero(1,3) reads_zero(2,4)[symmetric] simp_thms)

lemma comparison_becomes:
  assumes "GetVReg s (vreg0 i) = Some r" "\<And>a b. Op a b = word_of_int (sgn (rd a - rd b))" "\<And>r. rd (GetAs r) = ival t r"
  shows "acc_becomes INT32 i s (sgn (ival t (acc s) - ival t r)) (HandleBinaryOp2 False Set_int32 Op env i s)"
  unfolding HandleBinaryOp2_def assms(1) bind.bind_lunit Let_def simp_thms if_False
  by (rule acc_becomesI) (simp add: ival_def[of INT32] SetValue_def assms int32.stored, simp add: wrap_int_def IsTypeSigned_def sgn_if)

lemma cmp_laws:
  "cmp_signed a b = word_of_int (sgn (sint a - sint b))" "cmp_unsigned a b = word_of_int (sgn (uint a - uint b))"
  by (cases "sint a" "sint b" rule: linorder_cases; auto simp: cmp_signed_def dest: signed_word_eqI)
    (cases "uint a" "uint b" rule: linorder_cases; auto simp: cmp_unsigned_def word_less_def dest: unsigned_word_eqI)

lemma comparisons_ok:
  assumes "GetVReg s (vreg0 i) = Some r"
  shows "list_all (\<lambda>(h, t). acc_becomes INT32 i s (sgn (ival t (acc s) - ival t r)) (h env i s)) comparisons"
  unfolding comparisons_def list.pred_inject prod.case handler_defs
  by (intro conjI list.pred_inject(1) comparison_becomes[OF assms cmp_laws(1) int64.rd_GetAs]
      comparison_becomes[OF assms cmp_laws(2) uint32.rd_GetAs] comparison_becomes[OF assms cmp_laws(2) uint64.rd_GetAs])


section \<open>Branches and their profile\<close>

lemma lower_bound_sorted:
  assumes "sorted_wrt (\<lambda>a b. key a < key b) es" "k < length es" "key (es ! k) = pc"
  shows "lower_bound key pc es = k"
proof -
  have "takeWhile (\<lambda>e. key e < pc) es = take k es"
  proof (rule takeWhile_eq_take_P_nth)
    show "key (es ! j) < pc" if "j < k" for j
      using sorted_wrt_nth_less[OF assms(1) that assms(2)] assms(3) by simp
    show "\<not> key (es ! k) < pc" using assms(3) by simp
  qed
  then show ?thesis using assms(2) by (simp add: lower_bound_def)
qed

definition wf_profile :: "ProfilingData \<Rightarrow> bool" where
  "wf_profile p \<longleftrightarrow> sorted_wrt (\<lambda>a b. br_pc a < br_pc b) (branchData p)"

lemma FindBranchData_Some:
  assumes "wf_profile p"
  shows "FindBranchData p pc = Some k \<longleftrightarrow> k < length (branchData p) \<and> br_pc (branchData p ! k) = pc"
proof
  assume "FindBranchData p pc = Some k"
  moreover have "lower_bound br_pc pc (branchData p) \<le> length (branchData p)"
    by (simp add: lower_bound_def length_takeWhile_le)
  ultimately show "k < length (branchData p) \<and> br_pc (branchData p ! k) = pc"
    by (auto simp: FindBranchData_def Let_def split: if_splits)
next
  assume "k < length (branchData p) \<and> br_pc (branchData p ! k) = pc"
  then show "FindBranchData p pc = Some k"
    using lower_bound_sorted[of br_pc "branchData p" k pc] assms by (simp add: FindBranchData_def wf_profile_def)
qed

lemma branch_entry:
  assumes "wf_profile p" "pc \<in> br_pc ` set (branchData p)"
  obtains k where "FindBranchData p pc = Some k" "k < length (branchData p)" "br_pc (branchData p ! k) = pc"
  using assms by (metis FindBranchData_Some image_iff in_set_conv_nth)


lemma FindBranchData_cong:
  assumes "map br_pc (branchData p') = map br_pc (branchData p)"
  shows "FindBranchData p' pc = FindBranchData p pc"
proof -
  have "lower_bound br_pc pc es = length (takeWhile (\<lambda>x. x < pc) (map br_pc es))" for es :: "BranchData list"
    by (simp add: lower_bound_def takeWhile_map comp_def)
  then have "lower_bound br_pc pc (branchData p') = lower_bound br_pc pc (branchData p)" using assms by simp
  moreover have "length (branchData p') = length (branchData p)" using assms by (rule map_eq_imp_length_eq)
  moreover have "br_pc (branchData p' ! k) = br_pc (branchData p ! k)" if "k < length (branchData p)" for k
    using assms that by (metis calculation(2) nth_map)
  moreover have "lower_bound br_pc pc (branchData p) \<le> length (branchData p)"
    by (simp add: lower_bound_def length_takeWhile_le)
  ultimately show ?thesis by (auto simp: FindBranchData_def Let_def)
qed

lemma update_pc: "k < length es \<Longrightarrow> br_pc e = br_pc (es ! k) \<Longrightarrow> map br_pc (es[k := e]) = map br_pc es"
  by (simp add: map_update list_update_same_conv)

text \<open>Counting a branch raises the counter of its side at its address and changes no other counter.\<close>

lemma branch_counted:
  assumes "wf_profile p" "pc \<in> br_pc ` set (branchData p)"
  shows "GetBranchTakenCounter (UpdateBranchTaken pc p) q = GetBranchTakenCounter p q + of_bool (q = pc)"
    and "GetBranchNotTakenCounter (UpdateBranchTaken pc p) q = GetBranchNotTakenCounter p q"
    and "GetBranchNotTakenCounter (UpdateBranchNotTaken pc p) q = GetBranchNotTakenCounter p q + of_bool (q = pc)"
    and "GetBranchTakenCounter (UpdateBranchNotTaken pc p) q = GetBranchTakenCounter p q"
proof -
  obtain k where k: "FindBranchData p pc = Some k" "k < length (branchData p)" "br_pc (branchData p ! k) = pc"
    using branch_entry[OF assms] .
  have t: "FindBranchData (UpdateBranchTaken pc p) q = FindBranchData p q"
    and n: "FindBranchData (UpdateBranchNotTaken pc p) q = FindBranchData p q"
    by (rule FindBranchData_cong; simp add: UpdateBranchTaken_def UpdateBranchNotTaken_def k update_pc)+
  have other: "j \<noteq> k" if "FindBranchData p q = Some j" "q \<noteq> pc" for j
    using that k(3) by (auto simp: FindBranchData_Some[OF assms(1)])
  show "GetBranchTakenCounter (UpdateBranchTaken pc p) q = GetBranchTakenCounter p q + of_bool (q = pc)"
    "GetBranchNotTakenCounter (UpdateBranchTaken pc p) q = GetBranchNotTakenCounter p q"
    "GetBranchNotTakenCounter (UpdateBranchNotTaken pc p) q = GetBranchNotTakenCounter p q + of_bool (q = pc)"
    "GetBranchTakenCounter (UpdateBranchNotTaken pc p) q = GetBranchTakenCounter p q"
    using k other unfolding GetBranchTakenCounter_def GetBranchNotTakenCounter_def t n
    by (cases "q = pc"; cases "FindBranchData p q"; simp add: UpdateBranchTaken_def UpdateBranchNotTaken_def)+
qed

text \<open>The effect of a conditional branch: the next position, and the counter of its side.\<close>

definition branches :: "BytecodeInst \<Rightarrow> Interp \<Rightarrow> ProfilingData \<Rightarrow> bool \<Rightarrow> Interp option \<Rightarrow> bool" where
  "branches i s p taken res \<longleftrightarrow> (\<exists>s' p'. res = Some s' \<and> profData s' = Some p' \<and>
     int (bytecode_offset s') = int (bytecode_offset s) + (if taken then imm i else int (inst_size i)) \<and>
     vregs s' = vregs s \<and> acc s' = acc s \<and>
     (\<forall>q. GetBranchTakenCounter p' q = GetBranchTakenCounter p q + of_bool (taken \<and> q = bytecode_offset s) \<and>
          GetBranchNotTakenCounter p' q = GetBranchNotTakenCounter p q + of_bool (\<not> taken \<and> q = bytecode_offset s)))"

lemma HandleBranch_branches:
  assumes "no_safepoint env" "\<And>s off. \<not> UpdateHotnessOSR env s off" "0 \<le> int (bytecode_offset s) + imm i"
    and "profData s = Some p" "branchProfilingEnabled p" "wf_profile p" "bytecode_offset s \<in> br_pc ` set (branchData p)"
  shows "branches i s p taken (HandleBranch env i taken s)"
proof -
  have "InstrumentBranches env off t = (False, t)" for off t
    using assms(1,2) by (simp add: InstrumentBranches_def no_safepoint_def Let_def)
  then show ?thesis
    using assms(3-5) branch_counted[OF assms(6,7)]
    by (cases taken) (simp_all add: branches_def HandleBranch_def JumpToInst_def UpdateBranchStatistics_def MoveToNextInst_def)
qed

definition conditional_jumps :: "(handler \<times> handler \<times> (int \<Rightarrow> int \<Rightarrow> bool)) list" where
  "conditional_jumps =
    [(HandleJeq, HandleJeqz, (=)), (HandleJne, HandleJnez, (\<noteq>)), (HandleJlt, HandleJltz, (<)),
     (HandleJgt, HandleJgtz, (>)), (HandleJle, HandleJlez, (\<le>)), (HandleJge, HandleJgez, (\<ge>))]"

lemma GetInt_ival: "GetInt r = ival INT32 r"
  by (simp add: GetInt_def int32.rd_GetAs)

lemma conditional_jumps_ok:
  assumes "GetVReg s (vreg0 i) = Some r" "no_safepoint env" "\<And>s off. \<not> UpdateHotnessOSR env s off"
    and "0 \<le> int (bytecode_offset s) + imm i" "profData s = Some p" "branchProfilingEnabled p" "wf_profile p"
    and "bytecode_offset s \<in> br_pc ` set (branchData p)"
  shows "list_all (\<lambda>(h, hz, rel). branches i s p (rel (ival INT32 (acc s)) (ival INT32 r)) (h env i s) \<and>
      branches i s p (rel (ival INT32 (acc s)) 0) (hz env i s)) conditional_jumps \<and>
    branches i s p (GetReference (acc s) = 0) (HandleJeqzObj env i s) \<and>
    branches i s p (GetReference (acc s) \<noteq> 0) (HandleJnezObj env i s) \<and>
    branches i s p (GetReference (acc s) = GetReference r) (HandleJeqObj env i s) \<and>
    branches i s p (GetReference (acc s) \<noteq> GetReference r) (HandleJneObj env i s)"
  unfolding conditional_jumps_def list.pred_inject prod.case handler_defs HandleCondJmp_def HandleCondJmpz_def
    HandleCondJmpzObj_def HandleCondJmpObj_def assms(1) bind.bind_lunit GetInt_ival
  by (intro conjI list.pred_inject(1) HandleBranch_branches[OF assms(2-8)])

section \<open>Arrays\<close>

definition array_loads :: "handler list" where
  "array_loads = [HandleLdarr8, HandleLdarr16, HandleLdarr, HandleLdarrWide, HandleLdarru8, HandleLdarru16,
     HandleFldarr32, HandleFldarrWide, HandleLdarrObj]"

definition array_stores :: "handler list" where
  "array_stores = [HandleStarr8, HandleStarr16, HandleStarr, HandleStarrWide, HandleFstarr32, HandleFstarrWide, HandleStarrObj]"

text \<open>A store and a load of the same elements: the type the accumulator is stored from and the loaded value
  is read at, and the type of the elements.\<close>

definition array_accesses :: "(handler \<times> handler \<times> DataType \<times> DataType) list" where
  "array_accesses =
    [(HandleStarr8, HandleLdarr8, INT32, INT8), (HandleStarr8, HandleLdarru8, INT32, UINT8),
     (HandleStarr16, HandleLdarr16, INT32, INT16), (HandleStarr16, HandleLdarru16, INT32, UINT16),
     (HandleStarr, HandleLdarr, INT32, INT32), (HandleStarrWide, HandleLdarrWide, INT64, INT64),
     (HandleFstarr32, HandleFldarr32, UINT32, UINT32), (HandleFstarrWide, HandleFldarrWide, UINT64, UINT64)]"

text \<open>What an access does with a bad reference or index, given the length of the array.\<close>

definition bad_access :: "u32 \<Rightarrow> int \<Rightarrow> Interp \<Rightarrow> Exn option" where
  "bad_access array idx s =
     (if array = 0 then Some NullPointerException
      else case heap s array of
             None \<Rightarrow> None
           | Some a \<Rightarrow> if idx \<in> {0..<int (length (elements a))} then None
                       else Some (ArrayIndexOutOfBoundsException idx (of_nat (length (elements a)))))"

lemma CheckLoadArrayOp_bad: "bad_access array idx s = Some e \<Longrightarrow> CheckLoadArrayOp s array idx = Some (Inl e)"
  by (auto simp: bad_access_def CheckLoadArrayOp_def split: if_splits option.splits)

lemma CheckStoreArrayOp_bad: "bad_access array idx s = Some e \<Longrightarrow> CheckStoreArrayOp env ob s array idx v = Some (Inl e)"
  by (auto simp: bad_access_def CheckStoreArrayOp_def split: if_splits option.splits)

lemma bad_access_throws:
  assumes "GetVReg s (vreg0 i) = Some r0"
  shows "bad_access (GetReference r0) (GetInt (acc s)) s = Some e \<Longrightarrow> HandleArrayPrimitiveLoad ld env i s = Some (ThrowTo e env i s)"
    and "bad_access (GetReference r0) (GetInt (acc s)) s = Some e \<Longrightarrow> HandleLdarrObj env i s = Some (ThrowTo e env i s)"
    and "GetVReg s (vreg1 i) = Some r1 \<Longrightarrow> bad_access (GetReference r0) (GetInt r1) s = Some e \<Longrightarrow>
      HandleArrayStore ob st env i s = Some (ThrowTo e env i s)"
  using assms CheckLoadArrayOp_bad CheckStoreArrayOp_bad
  by (simp_all add: HandleArrayPrimitiveLoad_def HandleLdarrObj_def HandleArrayStore_def Let_def)

lemmas array_handler_defs = HandleLdarr8_def HandleLdarr16_def HandleLdarr_def HandleLdarrWide_def HandleLdarru8_def
  HandleLdarru16_def HandleFldarr32_def HandleFldarrWide_def HandleStarr8_def HandleStarr16_def HandleStarr_def
  HandleStarrWide_def HandleFstarr32_def HandleFstarrWide_def HandleStarrObj_def

lemma array_exceptions_ok:
  assumes "GetVReg s (vreg0 i) = Some r0" "GetVReg s (vreg1 i) = Some r1"
  shows "(\<forall>e. bad_access (GetReference r0) (ival INT32 (acc s)) s = Some e \<longrightarrow>
      list_all (\<lambda>h. h env i s = Some (ThrowTo e env i s)) array_loads) \<and>
    (\<forall>e. bad_access (GetReference r0) (ival INT32 r1) s = Some e \<longrightarrow>
      list_all (\<lambda>h. h env i s = Some (ThrowTo e env i s)) array_stores)"
  unfolding array_loads_def array_stores_def list.pred_inject array_handler_defs GetInt_ival[symmetric]
  by (intro conjI allI impI list.pred_inject(1) bad_access_throws[OF assms(1)] bad_access_throws(3)[OF assms])

text \<open>A store followed by a load of the same element.\<close>

lemma store_load:
  fixes st :: "'a::len word \<Rightarrow> u64" and ld :: "'a word \<Rightarrow> u64"
  assumes "GetVReg s (vreg0 i) = Some r0" "GetVReg s (vreg1 i) = Some r1" "GetReference r0 \<noteq> 0"
    and "heap s (GetReference r0) = Some a" "ival INT32 r1 \<in> {0..<int (length (elements a))}"
    and "\<And>w. (ucast (st w) :: 'a word) = w" "wrap_int t (uint (ld (GetAs (acc s)))) = wrap_int te (ival t (acc s))"
  shows "\<exists>s1 s2. HandleArrayStore False st env i s = Some s1 \<and>
    HandleArrayPrimitiveLoad ld env i (s1\<lparr>acc := r1\<rparr>) = Some s2 \<and> ival t (acc s2) = wrap_int te (ival t (acc s))"
  using assms
  by (auto simp: HandleArrayStore_def HandleArrayPrimitiveLoad_def GetInt_ival CheckStoreArrayOp_def CheckLoadArrayOp_def
      MoveToNextInst_def GetVReg_def ival_def[of t] SetValue_def)

lemma ucast_back: "LENGTH('a) \<le> 64 \<Longrightarrow> (ucast (ucast (w :: 'a::len word) :: u64) :: 'a word) = w"
  by (rule bit_word_eqI) (auto simp: bit_simps)

lemma float_stored:
  "wrap_int UINT32 (uint (Set_float (word_of_int v))) = wrap_int UINT32 v"
  "wrap_int UINT64 (uint (Set_double (word_of_int v))) = wrap_int UINT64 v"
  using uint32s.stored uint64s.stored by (simp_all add: Set_float_def Set_int32_def Set_double_def Set_int64_def)

lemma loaded_value: "GetAs r = word_of_int (uint (payload r))"
  unfolding GetAs_def by (rule ucast_eq)

lemma array_accesses_ok:
  assumes "GetVReg s (vreg0 i) = Some r0" "GetVReg s (vreg1 i) = Some r1" "GetReference r0 \<noteq> 0"
    and "heap s (GetReference r0) = Some a" "ival INT32 r1 \<in> {0..<int (length (elements a))}"
  shows "list_all (\<lambda>(st, ld, t, te). \<exists>s1 s2. st env i s = Some s1 \<and> ld env i (s1\<lparr>acc := r1\<rparr>) = Some s2 \<and>
    ival t (acc s2) = wrap_int te (ival t (acc s))) array_accesses"
  unfolding array_accesses_def list.pred_inject prod.case array_handler_defs
  by (intro conjI list.pred_inject(1) store_load[OF assms] ucast_back)
    (simp_all only: loaded_value narrow_stored int32.stored int64.stored float_stored,
      simp_all add: ival_def wrap_int_narrow is_int_def)

section \<open>Properties\<close>

text \<open>C24: The arithmetic instructions on 32-bit integers compute the integer function of their operands
  modulo the width, in all six forms (accumulator and register, two registers, immediate; result in the
  accumulator or in a register), the 64-bit and the unsigned division instructions in their two forms.
  Shift amounts count modulo the width; division truncates, and the least value divided by minus one
  wraps. A zero divisor throws an arithmetic exception and leaves the registers.\<close>

theorem integer_arithmetic:
  assumes "GetVReg s (vreg0 i) = Some r0" "GetVReg s (vreg1 i) = Some r1"
  shows "list_all (\<lambda>(h2, h2v, h3, h3v, hi, hiv, d, f).
      acc_gets INT32 d env i s f (ival INT32 (acc s)) (ival INT32 r0) (h2 env i s) \<and>
      vreg_gets INT32 d env i s f (ival INT32 (acc s)) (ival INT32 r1) (h2v env i s) \<and>
      acc_gets INT32 d env i s f (ival INT32 r0) (ival INT32 r1) (h3 env i s) \<and>
      vreg_gets INT32 d env i s f (ival INT32 r0) (ival INT32 r1) (h3v env i s) \<and>
      acc_gets INT32 d env i s f (ival INT32 (acc s)) (wrap_int INT32 (imm i)) (hi env i s) \<and>
      vreg_gets INT32 d env i s f (ival INT32 r1) (wrap_int INT32 (imm i)) (hiv env i s)) int32_ops \<and>
    list_all (\<lambda>(h2, h2v, d, f).
      acc_gets INT64 d env i s f (ival INT64 (acc s)) (ival INT64 r0) (h2 env i s) \<and>
      vreg_gets INT64 d env i s f (ival INT64 (acc s)) (ival INT64 r1) (h2v env i s)) int64_ops \<and>
    list_all (\<lambda>(h2, h2v, w2, w2v, f).
      acc_gets UINT32 True env i s f (ival UINT32 (acc s)) (ival UINT32 r0) (h2 env i s) \<and>
      vreg_gets UINT32 True env i s f (ival UINT32 (acc s)) (ival UINT32 r1) (h2v env i s) \<and>
      acc_gets UINT64 True env i s f (ival UINT64 (acc s)) (ival UINT64 r0) (w2 env i s) \<and>
      vreg_gets UINT64 True env i s f (ival UINT64 (acc s)) (ival UINT64 r1) (w2v env i s)) unsigned_ops"
  using int32_ops_ok[OF assms] wide_ops_ok[OF assms] by (rule conjI)

theorem integer_arithmetic_witness:
  "\<forall>fo. acc_gets INT32 True (quiet_env fo) (mk_binst 0 0 0) (mk_interp [SetPrimitive 4294967295] (SetPrimitive 2147483648) (\<lambda>_. None) None)
     (sdiv) (- 2147483648) (- 1)
     (HandleDiv2 (quiet_env fo) (mk_binst 0 0 0) (mk_interp [SetPrimitive 4294967295] (SetPrimitive 2147483648) (\<lambda>_. None) None))"
proof
  fix fo
  let ?s = "mk_interp [SetPrimitive 4294967295] (SetPrimitive 2147483648) (\<lambda>_. None) None" and ?i = "mk_binst 0 0 0"
  have v: "GetVReg ?s (vreg0 ?i) = Some (SetPrimitive 4294967295)" "GetVReg ?s (vreg1 ?i) = Some (SetPrimitive 4294967295)"
    by (simp_all add: GetVReg_def nth_opt_def mk_interp_def mk_binst_def)
  have "ival INT32 (acc ?s) = - 2147483648" "ival INT32 (SetPrimitive 4294967295) = - 1"
    by (simp_all add: ival_def wrap_int_def IsTypeSigned_def mk_interp_def SetPrimitive_def signed_take_bit_eq_if_negative)
  then show "acc_gets INT32 True (quiet_env fo) ?i ?s (sdiv) (- 2147483648) (- 1) (HandleDiv2 (quiet_env fo) ?i ?s)"
    using integer_arithmetic[OF v, of "quiet_env fo"] unfolding int32_ops_def by simp
qed

text \<open>Integer conversions put the accumulator's value, wrapped to the target type, into the
  accumulator, where the narrow types are held as 32-bit integers; conversions to a boolean give zero
  exactly for zero; and the three-way comparisons give the sign of the difference of the operands as
  signed or unsigned numbers.\<close>

theorem conversions_and_comparisons:
  assumes "GetVReg s (vreg0 i) = Some r"
  shows "list_all (\<lambda>(h, t1, t2, t3). acc_becomes t3 i s (wrap_int t2 (ival t1 (acc s))) (h env i s)) int_conversions \<and>
    list_all (\<lambda>(h, t1). acc_becomes INT32 i s (of_bool (ival t1 (acc s) \<noteq> 0)) (h env i s)) bool_conversions \<and>
    list_all (\<lambda>(h, t). acc_becomes INT32 i s (sgn (ival t (acc s) - ival t r)) (h env i s)) comparisons"
  by (intro conjI int_conversions_ok bool_conversions_ok comparisons_ok[OF assms])

theorem conversions_and_comparisons_witness:
  "\<forall>fo. acc_becomes INT32 (mk_binst 0 0 0) (mk_interp [SetPrimitive (- 1)] (SetPrimitive 200) (\<lambda>_. None) None) (- 56)
     (HandleI32toi8 (quiet_env fo) (mk_binst 0 0 0) (mk_interp [SetPrimitive (- 1)] (SetPrimitive 200) (\<lambda>_. None) None))"
proof
  fix fo
  let ?s = "mk_interp [SetPrimitive (- 1)] (SetPrimitive 200) (\<lambda>_. None) None" and ?i = "mk_binst 0 0 0"
  have v: "GetVReg ?s (vreg0 ?i) = Some (SetPrimitive (- 1))"
    by (simp add: GetVReg_def nth_opt_def mk_interp_def mk_binst_def)
  have "wrap_int INT8 (ival INT32 (acc ?s)) = - 56"
    by (simp add: ival_def wrap_int_def IsTypeSigned_def mk_interp_def SetPrimitive_def signed_take_bit_eq_if_negative
        signed_take_bit_eq_if_positive)
  then show "acc_becomes INT32 ?i ?s (- 56) (HandleI32toi8 (quiet_env fo) ?i ?s)"
    using conversions_and_comparisons[OF v, of "quiet_env fo"] unfolding int_conversions_def by simp
qed

text \<open>C35: A conditional jump compares the accumulator with the register, or with zero, and moves by its
  offset exactly if the comparison holds, otherwise to the next instruction; the counter of the side
  taken at this address goes up by one and all other counters stay.\<close>

theorem conditional_jumps_profiled:
  assumes "GetVReg s (vreg0 i) = Some r" "no_safepoint env" "\<And>s off. \<not> UpdateHotnessOSR env s off"
    and "0 \<le> int (bytecode_offset s) + imm i" "profData s = Some p" "branchProfilingEnabled p" "wf_profile p"
    and "bytecode_offset s \<in> br_pc ` set (branchData p)"
  shows "list_all (\<lambda>(h, hz, rel). branches i s p (rel (ival INT32 (acc s)) (ival INT32 r)) (h env i s) \<and>
      branches i s p (rel (ival INT32 (acc s)) 0) (hz env i s)) conditional_jumps \<and>
    branches i s p (GetReference (acc s) = 0) (HandleJeqzObj env i s) \<and>
    branches i s p (GetReference (acc s) \<noteq> 0) (HandleJnezObj env i s) \<and>
    branches i s p (GetReference (acc s) = GetReference r) (HandleJeqObj env i s) \<and>
    branches i s p (GetReference (acc s) \<noteq> GetReference r) (HandleJneObj env i s)"
  using assms by (rule conditional_jumps_ok)

definition mk_profile :: ProfilingData where
  "mk_profile = \<lparr>branchProfilingEnabled = True, branchData = [\<lparr>br_pc = 4, takenCounter = 2, notTakenCounter = 3\<rparr>,
     \<lparr>br_pc = 10, takenCounter = 5, notTakenCounter = 6\<rparr>], throwData = [], isUpdated = False\<rparr>"

theorem conditional_jumps_profiled_witness:
  "\<forall>fo. branches (mk_binst 0 0 (- 4)) (mk_interp [SetPrimitive 9] (SetPrimitive 7) (\<lambda>_. None) (Some mk_profile)) mk_profile True
     (HandleJlt (quiet_env fo) (mk_binst 0 0 (- 4)) (mk_interp [SetPrimitive 9] (SetPrimitive 7) (\<lambda>_. None) (Some mk_profile)))"
proof
  fix fo
  let ?s = "mk_interp [SetPrimitive 9] (SetPrimitive 7) (\<lambda>_. None) (Some mk_profile)" and ?i = "mk_binst 0 0 (- 4)"
  have v: "GetVReg ?s (vreg0 ?i) = Some (SetPrimitive 9)"
    by (simp add: GetVReg_def nth_opt_def mk_interp_def mk_binst_def)
  have o: "0 \<le> int (bytecode_offset ?s) + imm ?i" by (simp add: mk_interp_def mk_binst_def)
  have p: "profData ?s = Some mk_profile" "branchProfilingEnabled mk_profile" "wf_profile mk_profile"
    "bytecode_offset ?s \<in> br_pc ` set (branchData mk_profile)"
    by (simp_all add: mk_interp_def mk_profile_def wf_profile_def)
  have "ival INT32 (acc ?s) < ival INT32 (SetPrimitive 9)"
    by (simp add: ival_def wrap_int_def IsTypeSigned_def mk_interp_def SetPrimitive_def signed_take_bit_eq_if_positive)
  then show "branches ?i ?s mk_profile True (HandleJlt (quiet_env fo) ?i ?s)"
    using conditional_jumps_profiled[OF v quiet_env_simps o p] unfolding conditional_jumps_def by simp
qed

text \<open>C36: An array access through a null reference throws a null pointer exception, one with an index
  outside the array throws an index exception with the index and the length, and nothing else changes.
  Otherwise a load gives back what a store of the same kind has put at the index, wrapped to the element
  type.\<close>

theorem array_access:
  assumes "GetVReg s (vreg0 i) = Some r0" "GetVReg s (vreg1 i) = Some r1"
  shows "(\<forall>e. bad_access (GetReference r0) (ival INT32 (acc s)) s = Some e \<longrightarrow>
      list_all (\<lambda>h. h env i s = Some (ThrowTo e env i s)) array_loads) \<and>
    (\<forall>e. bad_access (GetReference r0) (ival INT32 r1) s = Some e \<longrightarrow>
      list_all (\<lambda>h. h env i s = Some (ThrowTo e env i s)) array_stores) \<and>
    (\<forall>a. GetReference r0 \<noteq> 0 \<and> heap s (GetReference r0) = Some a \<and> ival INT32 r1 \<in> {0..<int (length (elements a))} \<longrightarrow>
      list_all (\<lambda>(st, ld, t, te). \<exists>s1 s2. st env i s = Some s1 \<and> ld env i (s1\<lparr>acc := r1\<rparr>) = Some s2 \<and>
        ival t (acc s2) = wrap_int te (ival t (acc s))) array_accesses)"
  using array_exceptions_ok[OF assms] array_accesses_ok[OF assms] by blast

theorem array_access_witness:
  "\<forall>fo. (\<exists>s1 s2. HandleStarr8 (quiet_env fo) (mk_binst 0 1 0)
        (mk_interp [SetReference 40, SetPrimitive 1] (SetPrimitive 300) [40 \<mapsto> \<lparr>ref_array = False, elements = [0, 0, 0]\<rparr>] None) = Some s1 \<and>
      HandleLdarru8 (quiet_env fo) (mk_binst 0 1 0) (s1\<lparr>acc := SetPrimitive 1\<rparr>) = Some s2 \<and> ival INT32 (acc s2) = 44)"
proof
  fix fo
  let ?s = "mk_interp [SetReference 40, SetPrimitive 1] (SetPrimitive 300) [40 \<mapsto> \<lparr>ref_array = False, elements = [0, 0, 0]\<rparr>] None"
    and ?i = "mk_binst 0 1 0"
  have v: "GetVReg ?s (vreg0 ?i) = Some (SetReference 40)" "GetVReg ?s (vreg1 ?i) = Some (SetPrimitive 1)"
    by (simp_all add: GetVReg_def nth_opt_def mk_interp_def mk_binst_def)
  have "GetReference (SetReference 40) = 40"
    by (simp add: GetReference_def SetReference_def GetAs_def Set_reference_def)
  moreover have "ival INT32 (SetPrimitive 1) = 1" "wrap_int UINT8 (ival INT32 (acc ?s)) = 44"
    by (simp_all add: ival_def wrap_int_def IsTypeSigned_def mk_interp_def SetPrimitive_def signed_take_bit_eq_if_positive take_bit_eq_mod)
  ultimately show "\<exists>s1 s2. HandleStarr8 (quiet_env fo) ?i ?s = Some s1 \<and>
      HandleLdarru8 (quiet_env fo) ?i (s1\<lparr>acc := SetPrimitive 1\<rparr>) = Some s2 \<and> ival INT32 (acc s2) = 44"
    using array_access[OF v, of "quiet_env fo"] unfolding array_accesses_def by (simp add: mk_interp_def)
qed

text \<open>Where the operands overflow, the increment instruction and the negations are undefined, although
  the addition of the same immediate and the subtraction from zero wrap.\<close>

theorem signed_overflow_counterexamples:
  "HandleInci env (mk_binst 0 0 1) (mk_interp [SetPrimitive 2147483647] (SetPrimitive 0) h p) = None \<and>
   HandleNeg env i (mk_interp rs (SetPrimitive 2147483648) h p) = None \<and>
   HandleNegWide env i (mk_interp rs (SetPrimitive 9223372036854775808) h p) = None \<and>
   HandleAddi env (mk_binst 0 0 1) (mk_interp rs (SetPrimitive 2147483647) h p) \<noteq> None"
  by (simp add: HandleInci_def HandleNeg_def HandleNegWide_def HandleAddi_def HandleBinaryOp2Imm_def HandleUnaryOp_def
      negate_signed_def GetVReg_def nth_opt_def mk_interp_def mk_binst_def GetInt_def GetAs_def SetPrimitive_def)

end
