(* ===== verification/Interpreter_Refs.thy ===== *)
theory Interpreter_Refs
  imports Interpreter_Ops
begin

text \<open>
  References in the interpreter's state (theory \<open>Interpreter\<close>): every register with the object tag, every
  element of an object array and the pending exception refer to a live object or are null. The handlers
  are listed with what well-typed bytecode guarantees of their operands, and each keeps the invariant. The
  step relation is the dispatch loop of \<^verbatim>\<open>ExecuteImpl\<close>, over a method's decoded instructions and its
  catch blocks.
\<close>

section \<open>References and the collector's view\<close>

text \<open>A reference is null or the address of one of the objects \<open>live\<close>. What the collector takes for a
  reference must be one: the registers and accumulators with the object tag, the elements of object arrays
  and the pending exception.\<close>

definition valid_ref :: "u32 set \<Rightarrow> u32 \<Rightarrow> bool" where
  "valid_ref live a \<longleftrightarrow> a = 0 \<or> a \<in> live"

definition tag_ok :: "u32 set \<Rightarrow> VReg \<Rightarrow> bool" where
  "tag_ok live r \<longleftrightarrow> (HasObject r \<longrightarrow> valid_ref live (GetReference r))"

definition array_ok :: "u32 set \<Rightarrow> ArrayObj \<Rightarrow> bool" where
  "array_ok live a \<longleftrightarrow> (ref_array a \<longrightarrow> list_all (\<lambda>e. valid_ref live (ucast e)) (elements a))"

definition exn_ok :: "u32 set \<Rightarrow> Exn option \<Rightarrow> bool" where
  "exn_ok live e \<longleftrightarrow> (case e of Some (ThrownException a) \<Rightarrow> valid_ref live a | _ \<Rightarrow> True)"

definition gc_safe :: "u32 set \<Rightarrow> Interp \<Rightarrow> bool" where
  "gc_safe live s \<longleftrightarrow> list_all (tag_ok live) (vregs s) \<and> tag_ok live (acc s) \<and> tag_ok live (frame_acc s) \<and>
     (\<forall>a arr. heap s a = Some arr \<longrightarrow> array_ok live arr) \<and> exn_ok live (exception s)"

text \<open>What well-typed bytecode guarantees about the operands of an instruction.\<close>

definition any_operands :: "BytecodeInst \<Rightarrow> Interp \<Rightarrow> bool" where "any_operands i s \<longleftrightarrow> True"

definition acc_primitive :: "BytecodeInst \<Rightarrow> Interp \<Rightarrow> bool" where "acc_primitive i s \<longleftrightarrow> \<not> HasObject (acc s)"

definition acc_object :: "BytecodeInst \<Rightarrow> Interp \<Rightarrow> bool" where "acc_object i s \<longleftrightarrow> HasObject (acc s)"

definition vreg_object :: "BytecodeInst \<Rightarrow> Interp \<Rightarrow> bool" where
  "vreg_object i s \<longleftrightarrow> (\<forall>r. GetVReg s (vreg0 i) = Some r \<longrightarrow> HasObject r)"

definition src_object :: "BytecodeInst \<Rightarrow> Interp \<Rightarrow> bool" where
  "src_object i s \<longleftrightarrow> (\<forall>r. GetVReg s (vreg1 i) = Some r \<longrightarrow> HasObject r)"

definition vreg_primitive :: "BytecodeInst \<Rightarrow> Interp \<Rightarrow> bool" where
  "vreg_primitive i s \<longleftrightarrow> (\<forall>r. GetVReg s (vreg0 i) = Some r \<longrightarrow> \<not> HasObject r)"

definition object_array :: "BytecodeInst \<Rightarrow> Interp \<Rightarrow> bool" where
  "object_array i s \<longleftrightarrow> (\<forall>r a. GetVReg s (vreg0 i) = Some r \<and> heap s (GetReference r) = Some a \<longrightarrow> ref_array a)"

definition primitive_array :: "BytecodeInst \<Rightarrow> Interp \<Rightarrow> bool" where
  "primitive_array i s \<longleftrightarrow> (\<forall>r a. GetVReg s (vreg0 i) = Some r \<and> heap s (GetReference r) = Some a \<longrightarrow> \<not> ref_array a)"

definition object_store :: "BytecodeInst \<Rightarrow> Interp \<Rightarrow> bool" where
  "object_store i s \<longleftrightarrow> HasObject (acc s)"

text \<open>The handlers with the typing of their operands.\<close>

definition operand_typing :: "((BytecodeInst \<Rightarrow> Interp \<Rightarrow> bool) \<times> handler list) list" where
  "operand_typing =
    [(any_operands,
       [HandleNop, HandleMov, HandleMovWide, HandleMovDyn, HandleMovi, HandleMoviWide, HandleFmovi,
        HandleFmoviWide, HandleMovNull, HandleLda, HandleLdaWide, HandleLdai, HandleLdaiWide, HandleFldai,
        HandleFldaiWide, HandleLdaNull, HandleLdaDyn, HandleSta, HandleStaWide, HandleStaDyn, HandleJmp,
        HandleLenarr, HandleReturn, HandleReturnWide, HandleReturnVoid, HandleJeqz, HandleJnez, HandleJltz,
        HandleJgtz, HandleJlez, HandleJgez, HandleJeq, HandleJne, HandleJlt, HandleJgt, HandleJle, HandleJge,
        HandleJeqzObj, HandleJnezObj, HandleJeqObj, HandleJneObj, HandleAdd2v, HandleAdd2vWide, HandleFadd2v,
        HandleFadd2vWide, HandleSub2v, HandleSub2vWide, HandleFsub2v, HandleFsub2vWide, HandleMul2v,
        HandleMul2vWide, HandleFmul2v, HandleFmul2vWide, HandleFdiv2v, HandleFdiv2vWide, HandleFmod2v,
        HandleFmod2vWide, HandleAnd2v, HandleAnd2vWide, HandleOr2v, HandleOr2vWide, HandleXor2v,
        HandleXor2vWide, HandleShl2v, HandleShl2vWide, HandleShr2v, HandleShr2vWide, HandleAshr2v,
        HandleAshr2vWide, HandleDiv2v, HandleDiv2vWide, HandleMod2v, HandleMod2vWide, HandleDivu2v,
        HandleDivu2vWide, HandleModu2v, HandleModu2vWide, HandleAdd, HandleSub, HandleMul, HandleAnd, HandleOr,
        HandleXor, HandleShl, HandleShr, HandleAshr, HandleDiv, HandleMod, HandleAddv, HandleSubv, HandleMulv,
        HandleAndv, HandleOrv, HandleXorv, HandleShlv, HandleShrv, HandleAshrv, HandleDivv, HandleModv,
        HandleAddiv, HandleSubiv, HandleMuliv, HandleAndiv, HandleOriv, HandleXoriv, HandleShliv, HandleShriv,
        HandleAshriv, HandleDiviv, HandleModiv]),
     (acc_primitive,
       [HandleCmpWide, HandleUcmp, HandleUcmpWide, HandleFcmpl, HandleFcmplWide, HandleFcmpg, HandleFcmpgWide,
        HandleAdd2, HandleAdd2Wide, HandleFadd2, HandleFadd2Wide, HandleSub2, HandleSub2Wide, HandleFsub2,
        HandleFsub2Wide, HandleMul2, HandleMul2Wide, HandleFmul2, HandleFmul2Wide, HandleFdiv2, HandleFdiv2Wide,
        HandleFmod2, HandleFmod2Wide, HandleAnd2, HandleAnd2Wide, HandleOr2, HandleOr2Wide, HandleXor2,
        HandleXor2Wide, HandleShl2, HandleShl2Wide, HandleShr2, HandleShr2Wide, HandleAshr2, HandleAshr2Wide,
        HandleDiv2, HandleDiv2Wide, HandleMod2, HandleMod2Wide, HandleDivu2, HandleDivu2Wide, HandleModu2,
        HandleModu2Wide, HandleAddi, HandleSubi, HandleMuli, HandleAndi, HandleOri, HandleXori, HandleShli,
        HandleShri, HandleAshri, HandleDivi, HandleModi, HandleNeg, HandleNegWide, HandleFneg, HandleFnegWide,
        HandleNot, HandleNotWide, HandleU32toi64, HandleU32toi16, HandleU32tou16, HandleU32toi8, HandleU32tou8,
        HandleU32tou1, HandleI32toi64, HandleI32tou16, HandleI32toi16, HandleI32toi8, HandleI32tou8,
        HandleI32tou1, HandleI32tof32, HandleI32tof64, HandleU32tof32, HandleU32tof64, HandleI64toi32,
        HandleI64tou1, HandleI64tof32, HandleI64tof64, HandleU64toi32, HandleU64tou32, HandleU64tou1,
        HandleU64tof32, HandleU64tof64, HandleF32tof64, HandleF32toi32, HandleF32toi64, HandleF32tou32,
        HandleF32tou64, HandleF64tof32, HandleF64toi64, HandleF64toi32, HandleF64tou64, HandleF64tou32,
        HandleLdarr8, HandleLdarr16, HandleLdarr, HandleLdarrWide, HandleLdarru8, HandleLdarru16,
        HandleFldarr32, HandleFldarrWide]),
     (acc_object,
       [HandleStaObj, HandleReturnObj]),
     (vreg_object,
       [HandleLdaObj, HandleThrow]),
     (src_object,
       [HandleMovObj]),
     (vreg_primitive,
       [HandleInci]),
     (object_array,
       [HandleLdarrObj]),
     (primitive_array,
       [HandleStarr8, HandleStarr16, HandleStarr, HandleStarrWide, HandleFstarr32, HandleFstarrWide]),
     (object_store,
       [HandleStarrObj])]"

definition keeps_refs :: "u32 set \<Rightarrow> (BytecodeInst \<Rightarrow> Interp \<Rightarrow> bool) \<Rightarrow> (BytecodeInst \<Rightarrow> Interp \<Rightarrow> Interp option) \<Rightarrow> bool" where
  "keeps_refs live pre h \<longleftrightarrow> (\<forall>i s s'. gc_safe live s \<longrightarrow> pre i s \<longrightarrow> h i s = Some s' \<longrightarrow> gc_safe live s')"

named_theorems refs_simps \<open>what the register operations do to references\<close>

lemma primitive_tag [refs_simps]: "tag_ok live (SetPrimitive v)" "tag_ok live (MovePrimitive r)"
  by (simp_all add: tag_ok_def HasObject_def SetPrimitive_def MovePrimitive_def PRIMITIVE_TYPE_def GC_OBJECT_TYPE_def)

lemma SetReference_tag [refs_simps]: "tag_ok live (SetReference a) \<longleftrightarrow> valid_ref live a"
proof -
  have "GetReference (SetReference a) = a"
    by (simp add: GetReference_def GetAs_def SetReference_def Set_reference_def) (rule bit_word_eqI, simp add: bit_simps)
  then show ?thesis by (simp add: tag_ok_def HasObject_def SetReference_def)
qed

lemma SetValue_tag [refs_simps]: "\<not> HasObject r \<Longrightarrow> tag_ok live (SetValue v r)"
  by (simp add: tag_ok_def HasObject_def SetValue_def)

lemma Move_tag [refs_simps]: "tag_ok live (Move r) \<longleftrightarrow> tag_ok live r"
  by (simp add: tag_ok_def HasObject_def Move_def GetReference_def GetAs_def)

lemma MoveReference_tag [refs_simps]: "HasObject r \<Longrightarrow> tag_ok live (MoveReference r) \<longleftrightarrow> tag_ok live r"
  by (simp add: tag_ok_def HasObject_def MoveReference_def GetReference_def GetAs_def)

lemma object_ref: "tag_ok live r \<Longrightarrow> HasObject r \<Longrightarrow> valid_ref live (GetReference r)"
  by (simp add: tag_ok_def)

lemma gc_safe_control [refs_simps]:
  "gc_safe live (MoveToNextInst b i s) = gc_safe live s"
  "gc_safe live (UpdateBranchStatistics b s) = gc_safe live s"
  "gc_safe live (s\<lparr>fake_return := f\<rparr>) = gc_safe live s"
  "gc_safe live (MoveToExceptionHandler env i s) = gc_safe live s"
  "gc_safe live (s\<lparr>profData := p\<rparr>) = gc_safe live s"
  by (simp_all add: gc_safe_def MoveToNextInst_def UpdateBranchStatistics_def MoveToExceptionHandler_def Let_def split: option.split)

lemma gc_safe_updates [refs_simps]:
  "gc_safe live s \<Longrightarrow> tag_ok live r \<Longrightarrow> gc_safe live (s\<lparr>acc := r\<rparr>)"
  "gc_safe live s \<Longrightarrow> tag_ok live r \<Longrightarrow> gc_safe live (s\<lparr>frame_acc := r\<rparr>)"
  "gc_safe live s \<Longrightarrow> exn_ok live e \<Longrightarrow> gc_safe live (s\<lparr>exception := e\<rparr>)"
  "gc_safe live s \<Longrightarrow> array_ok live arr \<Longrightarrow> gc_safe live (s\<lparr>heap := (heap s)(a \<mapsto> arr)\<rparr>)"
  by (simp_all add: gc_safe_def)

lemma gc_safe_PutVReg: "gc_safe live s \<Longrightarrow> tag_ok live r \<Longrightarrow> PutVReg k r s = Some s' \<Longrightarrow> gc_safe live s'"
  by (auto simp: gc_safe_def PutVReg_def list_all_iff split: if_splits dest!: set_update_subset_insert[THEN subsetD])

lemma gc_safe_PutPrimitive:
  "PutVReg k (SetPrimitive v) s = Some s' \<Longrightarrow> gc_safe live s \<Longrightarrow> gc_safe live s'"
  "PutVReg k (MovePrimitive r) s = Some s' \<Longrightarrow> gc_safe live s \<Longrightarrow> gc_safe live s'"
  by (auto intro: gc_safe_PutVReg primitive_tag)

lemma gc_safe_GetVReg: "gc_safe live s \<Longrightarrow> GetVReg s k = Some r \<Longrightarrow> tag_ok live r"
  by (auto simp: gc_safe_def GetVReg_Some list_all_length)

lemma gc_safe_acc: "gc_safe live s \<Longrightarrow> tag_ok live (acc s)"
  by (simp add: gc_safe_def)

lemma gc_safe_JumpToInst: "gc_safe live s \<Longrightarrow> JumpToInst off s = Some s' \<Longrightarrow> gc_safe live s'"
  by (auto simp: gc_safe_def JumpToInst_def split: if_splits)

lemma gc_safe_ThrowTo: "gc_safe live s \<Longrightarrow> exn_ok live (Some e) \<Longrightarrow> gc_safe live (ThrowTo e env i s)"
  by (simp add: ThrowTo_def refs_simps)

lemma exn_ok_simps [simp]:
  "exn_ok live (Some ArithmeticException)" "exn_ok live (Some NullPointerException)"
  "exn_ok live (Some (ThrownException a)) = valid_ref live a"
  by (simp_all add: exn_ok_def)

lemma CheckLoadArrayOp_cases:
  assumes "CheckLoadArrayOp s a idx = Some c"
  obtains e where "c = Inl e" "\<And>live. exn_ok live (Some e)"
  | arr where "c = Inr arr" "heap s a = Some arr" "nat idx < length (elements arr)"
  using assms that by (auto simp: CheckLoadArrayOp_def exn_ok_def split: if_splits option.splits)

lemma CheckStoreArrayOp_cases:
  assumes "CheckStoreArrayOp env ob s a idx v = Some c"
  obtains e where "c = Inl e" "\<And>live. exn_ok live (Some e)"
  | arr where "c = Inr arr" "heap s a = Some arr"
  using assms that by (auto simp: CheckStoreArrayOp_def exn_ok_def split: if_splits option.splits)

lemma acc_template_refs:
  "keeps_refs live acc_primitive (HandleBinaryOp2 d setv Op env)"
  "keeps_refs live acc_primitive (HandleBinaryOp2Imm d setv Op env)"
  "keeps_refs live acc_primitive (HandleUnaryOp setv op1 env)"
  "keeps_refs live acc_primitive (HandleConversion setv cst env)"
  "keeps_refs live acc_primitive (HandleFloatToIntConversion setv cst env)"
  "keeps_refs live any_operands (HandleBinaryOp d setv Op env)"
  by (auto simp: keeps_refs_def acc_primitive_def HandleBinaryOp2_def HandleBinaryOp2Imm_def HandleUnaryOp_def HandleConversion_def
      HandleFloatToIntConversion_def HandleBinaryOp_def Let_def bind_eq_Some_conv refs_simps gc_safe_ThrowTo split: if_splits)

lemma vreg_template_refs:
  "keeps_refs live any_operands (HandleBinaryOp2V d setv Op env)"
  "keeps_refs live any_operands (HandleBinaryOpImmV d setv Op env)"
  "keeps_refs live any_operands (HandleBinaryOpV d setv Op env)"
  by (auto simp: keeps_refs_def HandleBinaryOp2V_def HandleBinaryOpImmV_def HandleBinaryOpV_def Let_def bind_eq_Some_conv refs_simps
      gc_safe_ThrowTo dest: gc_safe_PutPrimitive split: if_splits)

lemma array_template_refs:
  "keeps_refs live acc_primitive (HandleArrayPrimitiveLoad ld env)"
  "keeps_refs live primitive_array (HandleArrayStore ob st env)"
  by (auto simp: keeps_refs_def acc_primitive_def primitive_array_def HandleArrayPrimitiveLoad_def HandleArrayStore_def Let_def
      bind_eq_Some_conv refs_simps gc_safe_ThrowTo array_ok_def
      elim!: CheckLoadArrayOp_cases CheckStoreArrayOp_cases)

lemma gc_safe_element:
  "gc_safe live s \<Longrightarrow> heap s a = Some arr \<Longrightarrow> ref_array arr \<Longrightarrow> k < length (elements arr) \<Longrightarrow> valid_ref live (ucast (elements arr ! k))"
  by (auto simp: gc_safe_def array_ok_def list_all_length)

lemma object_array_refs:
  "keeps_refs live object_array (HandleLdarrObj env)"
  by (auto simp: keeps_refs_def object_array_def HandleLdarrObj_def Let_def bind_eq_Some_conv refs_simps gc_safe_ThrowTo
      intro!: gc_safe_updates(1) SetReference_tag[THEN iffD2] intro: gc_safe_element elim!: CheckLoadArrayOp_cases)

lemma array_ok_update:
  "array_ok live a \<Longrightarrow> valid_ref live (ucast v) \<Longrightarrow> array_ok live (a\<lparr>elements := (elements a)[k := v]\<rparr>)"
  by (auto simp: array_ok_def list_all_iff dest!: set_update_subset_insert[THEN subsetD])

lemma gc_safe_array: "gc_safe live s \<Longrightarrow> heap s a = Some arr \<Longrightarrow> array_ok live arr"
  by (auto simp: gc_safe_def)

lemma object_store_refs: "keeps_refs live object_store (HandleStarrObj env)"
proof -
  have "valid_ref live (ucast (ucast (GetAs (acc s) :: u32) :: u64))" if "gc_safe live s" "HasObject (acc s)" for s
    using object_ref[OF gc_safe_acc[OF that(1)] that(2)] ucast_back[of "GetAs (acc s) :: u32"] by (simp add: GetReference_def)
  then show ?thesis
    by (auto simp: keeps_refs_def object_store_def HandleStarrObj_def HandleArrayStore_def Let_def bind_eq_Some_conv refs_simps
        gc_safe_ThrowTo array_ok_update gc_safe_array elim!: CheckStoreArrayOp_cases)
qed

lemma move_refs:
  "keeps_refs live any_operands (HandleNop env)"
  "keeps_refs live any_operands (HandleMov env)"
  "keeps_refs live any_operands (HandleMovWide env)"
  "keeps_refs live any_operands (HandleMovi env)"
  "keeps_refs live any_operands (HandleMoviWide env)"
  "keeps_refs live any_operands (HandleFmovi env)"
  "keeps_refs live any_operands (HandleFmoviWide env)"
  "keeps_refs live any_operands (HandleSta env)"
  "keeps_refs live any_operands (HandleStaWide env)"
  by (auto simp: keeps_refs_def HandleNop_def HandleMov_def HandleMovWide_def HandleMovi_def HandleMoviWide_def HandleFmovi_def
      HandleFmoviWide_def HandleSta_def HandleStaWide_def bind_eq_Some_conv refs_simps dest: gc_safe_PutPrimitive)

lemma move_object_refs:
  "keeps_refs live any_operands (HandleMovNull env)"
  "keeps_refs live any_operands (HandleMovDyn env)"
  "keeps_refs live any_operands (HandleStaDyn env)"
  "keeps_refs live acc_object (HandleStaObj env)"
  "keeps_refs live src_object (HandleMovObj env)"
  "keeps_refs live vreg_primitive (HandleInci env)"
  by (auto simp: keeps_refs_def HandleMovNull_def HandleMovDyn_def HandleStaDyn_def HandleStaObj_def HandleMovObj_def HandleInci_def
      acc_object_def src_object_def vreg_primitive_def Let_def bind_eq_Some_conv refs_simps valid_ref_def[of _ 0]
      gc_safe_GetVReg object_ref gc_safe_acc elim!: gc_safe_PutVReg[rotated 2] split: if_splits)

lemma lda_refs:
  "keeps_refs live any_operands (HandleLda env)"
  "keeps_refs live any_operands (HandleLdaWide env)"
  "keeps_refs live any_operands (HandleLdai env)"
  "keeps_refs live any_operands (HandleLdaiWide env)"
  "keeps_refs live any_operands (HandleFldai env)"
  "keeps_refs live any_operands (HandleFldaiWide env)"
  "keeps_refs live any_operands (HandleLdaNull env)"
  "keeps_refs live any_operands (HandleLdaDyn env)"
  "keeps_refs live vreg_object (HandleLdaObj env)"
  "keeps_refs live any_operands (HandleLenarr env)"
  by (auto simp: keeps_refs_def HandleLda_def HandleLdaWide_def HandleLdai_def HandleLdaiWide_def HandleFldai_def HandleFldaiWide_def
      HandleLdaNull_def HandleLdaDyn_def HandleLdaObj_def HandleLenarr_def vreg_object_def bind_eq_Some_conv refs_simps
      gc_safe_ThrowTo valid_ref_def[of _ 0] gc_safe_GetVReg object_ref[OF gc_safe_GetVReg] split: if_splits)

lemma return_refs:
  "keeps_refs live any_operands (HandleReturn env)"
  "keeps_refs live any_operands (HandleReturnWide env)"
  "keeps_refs live acc_object (HandleReturnObj env)"
  "keeps_refs live any_operands (HandleReturnVoid env)"
  by (auto simp: keeps_refs_def HandleReturn_def HandleReturnWide_def HandleReturnObj_def HandleReturnVoid_def acc_object_def
      refs_simps object_ref gc_safe_acc)

lemma throw_refs: "keeps_refs live vreg_object (HandleThrow env)"
  by (auto simp: keeps_refs_def HandleThrow_def vreg_object_def Let_def bind_eq_Some_conv refs_simps
      object_ref[OF gc_safe_GetVReg] dest!: UpdateThrowStatistics_frame)

lemma InstrumentBranches_refs:
  "no_safepoint env \<Longrightarrow> InstrumentBranches env off s = (b, s') \<Longrightarrow> gc_safe live s \<Longrightarrow> gc_safe live s'"
  by (auto simp: InstrumentBranches_def no_safepoint_def Let_def refs_simps split: if_splits)

lemma jump_refs:
  assumes "no_safepoint env"
    and "(case InstrumentBranches env off t of (True, s') \<Rightarrow> Some s' | (False, s') \<Rightarrow> JumpToInst off s') = Some s'" "gc_safe live t"
  shows "gc_safe live s'"
  using assms(2) InstrumentBranches_refs[OF assms(1) _ assms(3), of off] gc_safe_JumpToInst
  by (auto split: prod.splits bool.splits)

lemma branch_refs:
  assumes "no_safepoint env"
  shows "keeps_refs live any_operands (HandleJmp env)"
    and "keeps_refs live any_operands (HandleCondJmpz op2 env)"
    and "keeps_refs live any_operands (HandleCondJmp op2 env)"
    and "keeps_refs live any_operands (HandleCondJmpzObj op3 env)"
    and "keeps_refs live any_operands (HandleCondJmpObj op3 env)"
proof -
  have "gc_safe live s'" if "HandleBranch env i b s = Some s'" "gc_safe live s" for i b s s'
    using that jump_refs[OF assms, where t = "UpdateBranchStatistics True s"]
    by (cases b) (auto simp: HandleBranch_def refs_simps)
  moreover have "gc_safe live s'" if "HandleJmp env i s = Some s'" "gc_safe live s" for i s s'
    using that jump_refs[OF assms] unfolding HandleJmp_def by blast
  ultimately show "keeps_refs live any_operands (HandleJmp env)" "keeps_refs live any_operands (HandleCondJmpz op2 env)"
    "keeps_refs live any_operands (HandleCondJmp op2 env)" "keeps_refs live any_operands (HandleCondJmpzObj op3 env)"
    "keeps_refs live any_operands (HandleCondJmpObj op3 env)"
    by (auto simp: keeps_refs_def HandleCondJmpz_def HandleCondJmp_def HandleCondJmpzObj_def HandleCondJmpObj_def bind_eq_Some_conv)
qed

lemma all_refs:
  assumes "no_safepoint env"
  shows "list_all (\<lambda>(pre, hs). list_all (\<lambda>h. keeps_refs live pre (h env)) hs) operand_typing"
  by (simp add: operand_typing_def handler_defs acc_template_refs vreg_template_refs array_template_refs object_array_refs
      object_store_refs[unfolded handler_defs] move_refs move_object_refs lda_refs return_refs throw_refs branch_refs[OF assms])

section \<open>The dispatch loop\<close>

text \<open>A method: the handler and the operands of the instruction at each offset, which the generated
  dispatch table gives, whether the instruction returns, and for an exception and an offset the catch
  block. \<open>exn_object\<close> is the exception object the runtime has created. A catch writes it to the accumulator
  of the frame, from which the new state of the interpreter takes its own accumulator.\<close>

record MethodCode =
  instruction :: "nat \<Rightarrow> (handler \<times> BytecodeInst) option"
  is_return :: "nat \<Rightarrow> bool"
  find_catch_block :: "Exn \<Rightarrow> nat \<Rightarrow> nat option"
  exn_object :: "Exn \<Rightarrow> u32"

inductive interp_step :: "Env \<Rightarrow> MethodCode \<Rightarrow> Interp \<Rightarrow> Interp \<Rightarrow> bool" for env m where
  execute: "exception s = None \<Longrightarrow> \<not> fake_return s \<Longrightarrow> \<not> is_return m (bytecode_offset s) \<Longrightarrow>
    instruction m (bytecode_offset s) = Some (h, i) \<Longrightarrow> h env i s = Some s' \<Longrightarrow> interp_step env m s s'"
| catch: "exception s = Some e \<Longrightarrow> find_catch_block m e (bytecode_offset s) = Some pc \<Longrightarrow>
    interp_step env m s (s\<lparr>acc := SetReference (exn_object m e), frame_acc := SetReference (exn_object m e), exception := None, bytecode_offset := pc, opcodeExtension := 0\<rparr>)"

text \<open>The operands of every instruction the method reaches are typed as the table asks.\<close>

definition well_typed :: "Env \<Rightarrow> MethodCode \<Rightarrow> Interp \<Rightarrow> bool" where
  "well_typed env m s0 \<longleftrightarrow> (\<forall>pc h i. instruction m pc = Some (h, i) \<longrightarrow>
     (\<exists>pre hs. (pre, hs) \<in> set operand_typing \<and> h \<in> set hs \<and>
       (\<forall>s. (interp_step env m)\<^sup>*\<^sup>* s0 s \<and> bytecode_offset s = pc \<and> exception s = None \<longrightarrow> pre i s)))"

lemma step_refs:
  assumes "interp_step env m s s'" "gc_safe live s" "no_safepoint env" "\<And>e. valid_ref live (exn_object m e)"
    and "well_typed env m s0" "(interp_step env m)\<^sup>*\<^sup>* s0 s"
  shows "gc_safe live s'"
  using assms(1)
proof cases
  case (execute h i)
  then obtain pre hs where p: "(pre, hs) \<in> set operand_typing" "h \<in> set hs" "pre i s"
    using assms(5,6) by (fastforce simp: well_typed_def)
  then have "keeps_refs live pre (h env)" using all_refs[OF assms(3), of live] by (fastforce simp: list_all_iff)
  then show ?thesis using execute assms(2) p(3) by (auto simp: keeps_refs_def)
next
  case (catch e pc)
  have "gc_safe live (s\<lparr>acc := SetReference (exn_object m e), frame_acc := SetReference (exn_object m e), exception := None\<rparr>)"
    using assms(2,4) by (simp add: refs_simps exn_ok_def)
  then show ?thesis using catch by (simp add: gc_safe_def)
qed

section \<open>Properties\<close>

text \<open>Each handler, applied to operands of the types it is meant for, keeps the collector's invariant:
  registers tagged as objects, the elements of object arrays and a thrown object are null or live objects.\<close>

theorem handlers_keep_references:
  assumes "no_safepoint env"
  shows "list_all (\<lambda>(pre, hs). list_all (\<lambda>h. \<forall>i s s'. gc_safe live s \<longrightarrow> pre i s \<longrightarrow> h env i s = Some s' \<longrightarrow> gc_safe live s') hs)
    operand_typing"
  using all_refs[OF assms, of live] unfolding keeps_refs_def .

theorem handlers_keep_references_witness:
  "\<forall>fo. \<exists>s'. HandleStaObj (quiet_env fo) (mk_binst 0 0 0) (mk_interp [SetPrimitive 7] (SetReference 40) (\<lambda>_. None) None) = Some s' \<and>
     gc_safe {40} s'"
proof
  fix fo
  let ?s = "mk_interp [SetPrimitive 7] (SetReference 40) (\<lambda>_. None) None" and ?i = "mk_binst 0 0 0"
  obtain s' where h: "HandleStaObj (quiet_env fo) ?i ?s = Some s'"
    by (simp add: HandleStaObj_def PutVReg_def mk_binst_def mk_interp_def)
  have m: "(acc_object, [HandleStaObj, HandleReturnObj]) \<in> set operand_typing"
    unfolding operand_typing_def by (rule list.set_intros(2), rule list.set_intros(2), rule list.set_intros(1))
  have "list_all (\<lambda>h. \<forall>i s s'. gc_safe {40} s \<longrightarrow> acc_object i s \<longrightarrow> h (quiet_env fo) i s = Some s' \<longrightarrow> gc_safe {40} s')
      [HandleStaObj, HandleReturnObj]"
    using handlers_keep_references[OF quiet_env_simps(1)[of fo], of "{40}", unfolded list_all_iff[of _ operand_typing], THEN bspec, OF m]
    by (simp only: prod.case)
  moreover have "gc_safe {40} ?s" by (simp add: gc_safe_def mk_interp_def refs_simps valid_ref_def exn_ok_def)
  moreover have "acc_object ?i ?s" by (simp add: acc_object_def mk_interp_def HasObject_def SetReference_def)
  ultimately have "gc_safe {40} s'" using h unfolding list.pred_inject by blast
  with h show "\<exists>s'. HandleStaObj (quiet_env fo) ?i ?s = Some s' \<and> gc_safe {40} s'" by blast
qed

text \<open>C3: In every state that the interpreter reaches in a well-typed method, through instructions,
  exceptions and catch blocks, the collector's invariant holds.\<close>

theorem reachable_references:
  assumes "(interp_step env m)\<^sup>*\<^sup>* s0 s" "gc_safe live s0" "no_safepoint env" "\<And>e. valid_ref live (exn_object m e)" "well_typed env m s0"
  shows "gc_safe live s"
  using assms(1)
proof (induction rule: rtranclp_induct)
  case base
  show ?case by (rule assms(2))
next
  case (step s s')
  show ?case by (rule step_refs[OF step.hyps(2) step.IH assms(3-5) step.hyps(1)])
qed

lemma any_typed:
  "\<exists>hs. (any_operands, hs) \<in> set operand_typing \<and> HandleMovNull \<in> set hs"
  "\<exists>hs. (any_operands, hs) \<in> set operand_typing \<and> HandleDivv \<in> set hs"
  unfolding operand_typing_def by (rule exI, rule conjI, rule list.set_intros(1), simp)+

definition null_method :: MethodCode where
  "null_method = \<lparr>instruction = [10 \<mapsto> (HandleMovNull, mk_binst 0 0 0), 13 \<mapsto> (HandleDivv, mk_binst 1 1 0)],
     is_return = (\<lambda>_. False), find_catch_block = (\<lambda>_ _. Some 10), exn_object = (\<lambda>_. 48)\<rparr>"

theorem reachable_references_witness:
  "\<forall>fo. \<exists>s. (interp_step (quiet_env fo) null_method)\<^sup>*\<^sup>* (mk_interp [SetReference 40, SetPrimitive 0] (SetPrimitive 1) (\<lambda>_. None) None) s \<and>
     bytecode_offset s = 13 \<and> gc_safe {40, 48} s"
proof
  fix fo
  let ?init = "mk_interp [SetReference 40, SetPrimitive 0] (SetPrimitive 1) (\<lambda>_. None) None"
  let ?s = "?init\<lparr>vregs := [SetReference 0, SetPrimitive 0], bytecode_offset := 13\<rparr>"
  have "interp_step (quiet_env fo) null_method ?init ?s"
    by (rule interp_step.execute[where h = HandleMovNull and i = "mk_binst 0 0 0"])
      (simp_all add: mk_interp_def null_method_def, simp add: mk_binst_def HandleMovNull_def PutVReg_def MoveToNextInst_def)
  then have r: "(interp_step (quiet_env fo) null_method)\<^sup>*\<^sup>* ?init ?s" by (rule r_into_rtranclp)
  have "gc_safe {40, 48} ?init" by (simp add: gc_safe_def mk_interp_def refs_simps valid_ref_def exn_ok_def)
  moreover have "well_typed (quiet_env fo) null_method ?init"
    unfolding well_typed_def
  proof (intro allI impI exI[of _ any_operands])
    fix pc h i
    assume "instruction null_method pc = Some (h, i)"
    then have "h = HandleMovNull \<or> h = HandleDivv" by (auto simp: null_method_def split: if_splits)
    then show "\<exists>hs. (any_operands, hs) \<in> set operand_typing \<and> h \<in> set hs \<and>
        (\<forall>s. (interp_step (quiet_env fo) null_method)\<^sup>*\<^sup>* ?init s \<and> bytecode_offset s = pc \<and> exception s = None \<longrightarrow> any_operands i s)"
      using any_typed by (auto simp only: any_operands_def simp_thms)
  qed
  moreover have "valid_ref {40, 48} (exn_object null_method e)" for e
    by (simp add: valid_ref_def null_method_def)
  ultimately have "gc_safe {40, 48} ?s"
    using reachable_references[OF r _ quiet_env_simps(1)] by blast
  with r show "\<exists>s. (interp_step (quiet_env fo) null_method)\<^sup>*\<^sup>* ?init s \<and> bytecode_offset s = 13 \<and> gc_safe {40, 48} s"
    by (intro exI[of _ ?s]) simp
qed

end
