(* ===== verification/Mark_Word.thy ===== *)
theory Mark_Word
  imports Ark_Prelude
begin

text \<open>
  The mark word of an object header (\<^verbatim>\<open>runtime/mark_word.h\<close>) in the configuration for 32-bit object
  pointers (\<^verbatim>\<open>HighEndConfig<sizeof(uint32_t)>\<close>): two bits of status, the read barrier and GC bits, and 28
  bits that hold a lightweight lock, the number of a monitor or a hash code; with the status of the
  collector, all other bits hold a forwarding address. The hash codes come from the linear congruential
  generator of \<^verbatim>\<open>ObjectHeader::GenerateHashCode\<close>.
\<close>

section \<open>Fields\<close>

type_synonym MarkWord = "32 word"

definition STATUS_SIZE :: nat where "STATUS_SIZE = 2"
definition GC_STATUS_SIZE :: nat where "GC_STATUS_SIZE = 1"
definition RB_STATUS_SIZE :: nat where "RB_STATUS_SIZE = 1"
definition MONITOR_POINTER_SIZE :: nat where "MONITOR_POINTER_SIZE = 32 - STATUS_SIZE - GC_STATUS_SIZE - RB_STATUS_SIZE"
definition HASH_SIZE :: nat where "HASH_SIZE = 32 - STATUS_SIZE - GC_STATUS_SIZE - RB_STATUS_SIZE"
definition FORWARDING_ADDRESS_SIZE :: nat where "FORWARDING_ADDRESS_SIZE = 32 - STATUS_SIZE"
definition LIGHT_LOCK_THREADID_SIZE :: nat where "LIGHT_LOCK_THREADID_SIZE = 13"
definition LIGHT_LOCK_LOCK_COUNT_SIZE :: nat where
  "LIGHT_LOCK_LOCK_COUNT_SIZE = MONITOR_POINTER_SIZE - LIGHT_LOCK_THREADID_SIZE"
definition LIGHT_LOCK_LOCK_COUNT_SHIFT :: nat where "LIGHT_LOCK_LOCK_COUNT_SHIFT = 0"
definition LIGHT_LOCK_THREADID_SHIFT :: nat where "LIGHT_LOCK_THREADID_SHIFT = LIGHT_LOCK_LOCK_COUNT_SIZE"
definition MONITOR_POINTER_SHIFT :: nat where "MONITOR_POINTER_SHIFT = 0"
definition HASH_SHIFT :: nat where "HASH_SHIFT = 0"
definition FORWARDING_ADDRESS_SHIFT :: nat where "FORWARDING_ADDRESS_SHIFT = 0"
definition STATUS_SHIFT :: nat where "STATUS_SHIFT = 32 - STATUS_SIZE"
definition GC_STATUS_SHIFT :: nat where "GC_STATUS_SHIFT = MONITOR_POINTER_SIZE"
definition RB_STATUS_SHIFT :: nat where "RB_STATUS_SHIFT = GC_STATUS_SHIFT + GC_STATUS_SIZE"

text \<open>The masks: \<open>field_mask n\<close> has the \<open>n\<close> low bits set.\<close>

definition field_mask :: "nat \<Rightarrow> MarkWord" where "field_mask n = push_bit n 1 - 1"

definition UNLOCKED_STATE_MASK_IN_PLACE :: MarkWord where "UNLOCKED_STATE_MASK_IN_PLACE = field_mask MONITOR_POINTER_SIZE"
definition LIGHT_LOCK_LOCK_COUNT_MASK :: MarkWord where "LIGHT_LOCK_LOCK_COUNT_MASK = field_mask LIGHT_LOCK_LOCK_COUNT_SIZE"
definition LIGHT_LOCK_LOCK_COUNT_MASK_IN_PLACE :: MarkWord where
  "LIGHT_LOCK_LOCK_COUNT_MASK_IN_PLACE = push_bit LIGHT_LOCK_LOCK_COUNT_SHIFT LIGHT_LOCK_LOCK_COUNT_MASK"
definition LIGHT_LOCK_LOCK_MAX_COUNT :: MarkWord where "LIGHT_LOCK_LOCK_MAX_COUNT = LIGHT_LOCK_LOCK_COUNT_MASK"
definition LIGHT_LOCK_THREADID_MASK :: MarkWord where "LIGHT_LOCK_THREADID_MASK = field_mask LIGHT_LOCK_THREADID_SIZE"
definition LIGHT_LOCK_THREADID_MASK_IN_PLACE :: MarkWord where
  "LIGHT_LOCK_THREADID_MASK_IN_PLACE = push_bit LIGHT_LOCK_THREADID_SHIFT LIGHT_LOCK_THREADID_MASK"
definition LIGHT_LOCK_THREADID_MAX_COUNT :: MarkWord where "LIGHT_LOCK_THREADID_MAX_COUNT = LIGHT_LOCK_THREADID_MASK"
definition MONITOR_POINTER_MASK :: MarkWord where "MONITOR_POINTER_MASK = field_mask MONITOR_POINTER_SIZE"
definition MONITOR_POINTER_MASK_IN_PLACE :: MarkWord where
  "MONITOR_POINTER_MASK_IN_PLACE = push_bit MONITOR_POINTER_SHIFT MONITOR_POINTER_MASK"
definition MONITOR_POINTER_MAX_COUNT :: MarkWord where "MONITOR_POINTER_MAX_COUNT = MONITOR_POINTER_MASK"
definition HASH_MASK :: MarkWord where "HASH_MASK = field_mask HASH_SIZE"
definition HASH_MASK_IN_PLACE :: MarkWord where "HASH_MASK_IN_PLACE = push_bit HASH_SHIFT HASH_MASK"
definition FORWARDING_ADDRESS_MASK :: MarkWord where "FORWARDING_ADDRESS_MASK = field_mask FORWARDING_ADDRESS_SIZE"
definition STATUS_MASK :: MarkWord where "STATUS_MASK = field_mask STATUS_SIZE"
definition STATUS_MASK_IN_PLACE :: MarkWord where "STATUS_MASK_IN_PLACE = push_bit STATUS_SHIFT STATUS_MASK"
definition GC_STATUS_MASK_IN_PLACE :: MarkWord where "GC_STATUS_MASK_IN_PLACE = push_bit GC_STATUS_SHIFT (field_mask GC_STATUS_SIZE)"
definition RB_STATUS_MASK_IN_PLACE :: MarkWord where "RB_STATUS_MASK_IN_PLACE = push_bit RB_STATUS_SHIFT (field_mask RB_STATUS_SIZE)"

definition STATUS_UNLOCKED :: MarkWord where "STATUS_UNLOCKED = 0"
definition STATUS_LIGHTWEIGHT_LOCK :: MarkWord where "STATUS_LIGHTWEIGHT_LOCK = 0"
definition STATUS_HEAVYWEIGHT_LOCK :: MarkWord where "STATUS_HEAVYWEIGHT_LOCK = 1"
definition STATUS_HASHED :: MarkWord where "STATUS_HASHED = 2"
definition STATUS_GC :: MarkWord where "STATUS_GC = 3"

datatype ObjectState = STATE_UNLOCKED | STATE_LIGHT_LOCKED | STATE_HEAVY_LOCKED | STATE_HASHED | STATE_GC

section \<open>Operations\<close>

definition DecodeFromMonitor :: "u64 \<Rightarrow> MarkWord \<Rightarrow> MarkWord" where
  "DecodeFromMonitor monitor v =
     (let temp = v AND NOT (MONITOR_POINTER_MASK_IN_PLACE OR STATUS_MASK_IN_PLACE);
          monitorInPlace = push_bit MONITOR_POINTER_SHIFT (ucast monitor AND MONITOR_POINTER_MASK)
      in temp OR monitorInPlace OR push_bit STATUS_SHIFT STATUS_HEAVYWEIGHT_LOCK)"

definition DecodeFromHashWide :: "MarkWord \<Rightarrow> MarkWord \<Rightarrow> MarkWord" where
  "DecodeFromHashWide hash v =
     (let temp = v AND NOT (HASH_MASK_IN_PLACE OR STATUS_MASK_IN_PLACE);
          hashInPlace = push_bit HASH_SHIFT (hash AND HASH_MASK)
      in temp OR hashInPlace OR push_bit STATUS_SHIFT STATUS_HASHED)"

definition DecodeFromHash :: "u32 \<Rightarrow> MarkWord \<Rightarrow> MarkWord" where
  "DecodeFromHash hash v = DecodeFromHashWide hash v"

definition DecodeFromForwardingAddressField :: "MarkWord \<Rightarrow> MarkWord" where
  "DecodeFromForwardingAddressField forwardingAddress =
     (let forwardingAddressInPlace = push_bit FORWARDING_ADDRESS_SHIFT (forwardingAddress AND FORWARDING_ADDRESS_MASK)
      in forwardingAddressInPlace OR push_bit STATUS_SHIFT STATUS_GC)"

definition DecodeFromForwardingAddress :: "MarkWord \<Rightarrow> MarkWord" where
  "DecodeFromForwardingAddress forwardingAddress =
     (let fa = drop_bit STATUS_SIZE forwardingAddress
      in DecodeFromForwardingAddressField (drop_bit FORWARDING_ADDRESS_SHIFT fa))"

definition DecodeFromLightLock :: "u32 \<Rightarrow> u32 \<Rightarrow> MarkWord \<Rightarrow> MarkWord" where
  "DecodeFromLightLock threadId count v =
     (let temp = v AND NOT (LIGHT_LOCK_THREADID_MASK_IN_PLACE OR LIGHT_LOCK_LOCK_COUNT_MASK_IN_PLACE OR STATUS_MASK_IN_PLACE);
          lightlockThreadInPlace = push_bit LIGHT_LOCK_THREADID_SHIFT (threadId AND LIGHT_LOCK_THREADID_MASK);
          lightlockLockCountInPlace = push_bit LIGHT_LOCK_LOCK_COUNT_SHIFT (count AND LIGHT_LOCK_LOCK_COUNT_MASK)
      in temp OR lightlockThreadInPlace OR lightlockLockCountInPlace OR push_bit STATUS_SHIFT STATUS_LIGHTWEIGHT_LOCK)"

definition DecodeFromUnlocked :: "MarkWord \<Rightarrow> MarkWord" where
  "DecodeFromUnlocked v =
     (let unlocked = v AND NOT (UNLOCKED_STATE_MASK_IN_PLACE OR STATUS_MASK_IN_PLACE)
      in unlocked OR push_bit STATUS_SHIFT STATUS_UNLOCKED)"

definition IsMarkedForGC :: "MarkWord \<Rightarrow> bool" where "IsMarkedForGC v \<longleftrightarrow> v AND GC_STATUS_MASK_IN_PLACE \<noteq> 0"
definition IsReadBarrierSet :: "MarkWord \<Rightarrow> bool" where "IsReadBarrierSet v \<longleftrightarrow> v AND RB_STATUS_MASK_IN_PLACE \<noteq> 0"
definition SetMarkedForGC :: "MarkWord \<Rightarrow> MarkWord" where
  "SetMarkedForGC v = (v AND NOT GC_STATUS_MASK_IN_PLACE) OR GC_STATUS_MASK_IN_PLACE"
definition SetUnMarkedForGC :: "MarkWord \<Rightarrow> MarkWord" where "SetUnMarkedForGC v = v AND NOT GC_STATUS_MASK_IN_PLACE"
definition SetReadBarrier :: "MarkWord \<Rightarrow> MarkWord" where
  "SetReadBarrier v = (v AND NOT RB_STATUS_MASK_IN_PLACE) OR RB_STATUS_MASK_IN_PLACE"
definition ClearReadBarrier :: "MarkWord \<Rightarrow> MarkWord" where "ClearReadBarrier v = v AND NOT RB_STATUS_MASK_IN_PLACE"

definition GetState :: "MarkWord \<Rightarrow> ObjectState" where
  "GetState v =
     (let status = drop_bit STATUS_SHIFT v AND STATUS_MASK
      in if status = STATUS_HEAVYWEIGHT_LOCK then STATE_HEAVY_LOCKED
         else if status = STATUS_HASHED then STATE_HASHED
         else if status = STATUS_GC then STATE_GC
         else if status = STATUS_UNLOCKED
         then if v AND UNLOCKED_STATE_MASK_IN_PLACE = 0 then STATE_UNLOCKED else STATE_LIGHT_LOCKED
         else STATE_GC)"

definition GetThreadId :: "MarkWord \<Rightarrow> u32" where
  "GetThreadId v = drop_bit LIGHT_LOCK_THREADID_SHIFT v AND LIGHT_LOCK_THREADID_MASK"

definition GetLockCount :: "MarkWord \<Rightarrow> u32" where
  "GetLockCount v = drop_bit LIGHT_LOCK_LOCK_COUNT_SHIFT v AND LIGHT_LOCK_LOCK_COUNT_MASK"

definition GetHash :: "MarkWord \<Rightarrow> u32" where "GetHash v = drop_bit HASH_SHIFT v AND HASH_MASK"

definition GetForwardingAddressField :: "MarkWord \<Rightarrow> MarkWord" where
  "GetForwardingAddressField v = drop_bit FORWARDING_ADDRESS_SHIFT v AND FORWARDING_ADDRESS_MASK"

definition GetForwardingAddress :: "MarkWord \<Rightarrow> MarkWord" where
  "GetForwardingAddress v = push_bit STATUS_SIZE (push_bit FORWARDING_ADDRESS_SHIFT (GetForwardingAddressField v))"

definition IsForwarded :: "MarkWord \<Rightarrow> bool" where "IsForwarded v \<longleftrightarrow> GetState v = STATE_GC"

definition GetMonitorId :: "MarkWord \<Rightarrow> u64" where
  "GetMonitorId v = ucast (drop_bit MONITOR_POINTER_SHIFT v AND MONITOR_POINTER_MASK)"

section \<open>Hash codes\<close>

definition LINEAR_X :: u32 where "LINEAR_X = 1103515245"
definition LINEAR_Y :: u32 where "LINEAR_Y = 12345"

text \<open>\<open>GenerateHashCode\<close> moves the seed on and tries again while the seed has no bit of a hash code. It
  returns the hash code and the new seed; the loop ends because the successor of such a seed has one.\<close>

definition next_seed :: "u32 \<Rightarrow> u32" where "next_seed exVal = exVal * LINEAR_X + LINEAR_Y"

function GenerateHashCode :: "u32 \<Rightarrow> u32 \<times> u32" where
  "GenerateHashCode exVal =
     (let nVal = next_seed exVal
      in if exVal AND HASH_MASK = 0 then GenerateHashCode nVal else (exVal AND HASH_MASK, nVal))"
  by auto

lemma hash_bits: "v AND HASH_MASK = take_bit 28 v"
  by (simp add: HASH_MASK_def HASH_SIZE_def STATUS_SIZE_def GC_STATUS_SIZE_def RB_STATUS_SIZE_def field_mask_def take_bit_eq_mask
      mask_eq_exp_minus_1)

lemma next_seed_hash:
  assumes "take_bit 28 v = 0"
  shows "take_bit 28 (next_seed v) = 12345"
proof -
  have v: "unat v mod 2 ^ 28 = 0"
    using arg_cong[OF assms, of unat] by (simp only: unsigned_take_bit_eq) (simp add: take_bit_eq_mod)
  have "unat (next_seed v) mod 2 ^ 28 = (unat v * 1103515245 + 12345) mod 2 ^ 28"
    by (simp add: next_seed_def LINEAR_X_def LINEAR_Y_def unat_word_ariths mod_mod_cancel mod_simps)
  also have "\<dots> = ((unat v mod 2 ^ 28) * 1103515245 + 12345) mod 2 ^ 28" by (metis mod_add_left_eq mod_mult_left_eq)
  finally have "unat (next_seed v) mod 2 ^ 28 = 12345" by (simp only: v) simp
  then have "unat (take_bit 28 (next_seed v)) = unat (12345 :: u32)"
    by (simp only: unsigned_take_bit_eq) (simp add: take_bit_eq_mod)
  then show ?thesis by (rule unsigned_word_eqI)
qed

termination GenerateHashCode
  by (relation "measure (\<lambda>v. if v AND HASH_MASK = 0 then 1 else 0)") (auto simp: hash_bits next_seed_hash)

declare GenerateHashCode.simps [simp del]

lemma field_mask: "field_mask k = mask k"
  by (simp add: field_mask_def mask_eq_exp_minus_1 push_bit_eq_mult)

lemmas field_sizes = STATUS_SIZE_def GC_STATUS_SIZE_def RB_STATUS_SIZE_def MONITOR_POINTER_SIZE_def HASH_SIZE_def
  FORWARDING_ADDRESS_SIZE_def LIGHT_LOCK_THREADID_SIZE_def LIGHT_LOCK_LOCK_COUNT_SIZE_def LIGHT_LOCK_LOCK_COUNT_SHIFT_def
  LIGHT_LOCK_THREADID_SHIFT_def MONITOR_POINTER_SHIFT_def HASH_SHIFT_def FORWARDING_ADDRESS_SHIFT_def STATUS_SHIFT_def
  GC_STATUS_SHIFT_def RB_STATUS_SHIFT_def

lemmas field_masks = UNLOCKED_STATE_MASK_IN_PLACE_def LIGHT_LOCK_LOCK_COUNT_MASK_def LIGHT_LOCK_LOCK_COUNT_MASK_IN_PLACE_def
  LIGHT_LOCK_THREADID_MASK_def LIGHT_LOCK_THREADID_MASK_IN_PLACE_def MONITOR_POINTER_MASK_def
  MONITOR_POINTER_MASK_IN_PLACE_def HASH_MASK_def HASH_MASK_IN_PLACE_def FORWARDING_ADDRESS_MASK_def STATUS_MASK_def
  STATUS_MASK_IN_PLACE_def GC_STATUS_MASK_IN_PLACE_def RB_STATUS_MASK_IN_PLACE_def field_mask field_sizes

lemmas status_codes = STATUS_UNLOCKED_def STATUS_LIGHTWEIGHT_LOCK_def STATUS_HEAVYWEIGHT_LOCK_def STATUS_HASHED_def STATUS_GC_def

lemma bit_one_word: "bit (1 :: u32) n \<longleftrightarrow> n = 0" by (simp add: bit_1_iff)

lemma bit_two_word: "bit (2 :: u32) n \<longleftrightarrow> n = 1"
  using bit_exp_iff[of 1 n, where ?'a = "32 word"] by auto

lemma bit_three_word: "bit (3 :: u32) n \<longleftrightarrow> n < 2"
proof -
  have "(3 :: u32) = mask 2" by (simp add: mask_eq_exp_minus_1)
  then show ?thesis by (simp only: bit_mask_iff) auto
qed

lemma bit_places:
  "bit (268435456 :: u32) n \<longleftrightarrow> n = 28" "bit (536870912 :: u32) n \<longleftrightarrow> n = 29" "bit (1073741824 :: u32) n \<longleftrightarrow> n = 30"
  "bit (2147483648 :: u32) n \<longleftrightarrow> n = 31" "bit (3221225472 :: u32) n \<longleftrightarrow> n = 30 \<or> n = 31"
proof -
  have p: "bit (2 ^ k :: u32) n \<longleftrightarrow> n = k" if "k < 32" for k
    using that by (auto simp: bit_exp_iff)
  show "bit (268435456 :: u32) n \<longleftrightarrow> n = 28" "bit (536870912 :: u32) n \<longleftrightarrow> n = 29" "bit (1073741824 :: u32) n \<longleftrightarrow> n = 30"
    "bit (2147483648 :: u32) n \<longleftrightarrow> n = 31"
    using p[of 28] p[of 29] p[of 30] p[of 31] by simp_all
  have "(3221225472 :: u32) = 2 ^ 30 OR 2 ^ 31" by simp
  then show "bit (3221225472 :: u32) n \<longleftrightarrow> n = 30 \<or> n = 31" using p[of 30] p[of 31] by (simp only: bit_or_iff)
qed

lemmas bit_statuses = bit_one_word bit_two_word bit_three_word bit_places

text \<open>The bits of what the operations build.\<close>

lemma bit_DecodeFromMonitor:
  "n < 32 \<Longrightarrow> bit (DecodeFromMonitor m v) n \<longleftrightarrow> (if n < 28 then bit m n else if n < 30 then bit v n else n = 30)"
  by (auto simp: DecodeFromMonitor_def field_masks status_codes bit_simps bit_statuses Let_def simp del: bit_numeral_word_iff)

lemma bit_DecodeFromHash:
  "n < 32 \<Longrightarrow> bit (DecodeFromHash h v) n \<longleftrightarrow> (if n < 28 then bit h n else if n < 30 then bit v n else n = 31)"
  by (auto simp: DecodeFromHash_def DecodeFromHashWide_def field_masks status_codes bit_simps bit_statuses Let_def simp del: bit_numeral_word_iff)

lemma bit_DecodeFromLightLock:
  "n < 32 \<Longrightarrow> bit (DecodeFromLightLock t c v) n \<longleftrightarrow>
     (if n < 15 then bit c n else if n < 28 then bit t (n - 15) else if n < 30 then bit v n else False)"
  by (auto simp: DecodeFromLightLock_def field_masks status_codes bit_simps bit_statuses Let_def simp del: bit_numeral_word_iff)

lemma bit_DecodeFromUnlocked:
  "n < 32 \<Longrightarrow> bit (DecodeFromUnlocked v) n \<longleftrightarrow> 28 \<le> n \<and> n < 30 \<and> bit v n"
  by (auto simp: DecodeFromUnlocked_def field_masks status_codes bit_simps bit_statuses Let_def simp del: bit_numeral_word_iff)

lemma bit_DecodeFromForwardingAddress:
  "n < 32 \<Longrightarrow> bit (DecodeFromForwardingAddress a) n \<longleftrightarrow> (n < 30 \<longrightarrow> bit a (n + 2))"
  by (auto simp: DecodeFromForwardingAddress_def DecodeFromForwardingAddressField_def field_masks status_codes bit_simps bit_statuses Let_def
      add.commute simp del: bit_numeral_word_iff)

lemmas bit_decode = bit_DecodeFromMonitor bit_DecodeFromHash bit_DecodeFromLightLock bit_DecodeFromUnlocked
  bit_DecodeFromForwardingAddress

lemma bit_gc_rb:
  "n < 32 \<Longrightarrow> bit (SetMarkedForGC v) n \<longleftrightarrow> n = 28 \<or> bit v n"
  "n < 32 \<Longrightarrow> bit (SetUnMarkedForGC v) n \<longleftrightarrow> n \<noteq> 28 \<and> bit v n"
  "n < 32 \<Longrightarrow> bit (SetReadBarrier v) n \<longleftrightarrow> n = 29 \<or> bit v n"
  "n < 32 \<Longrightarrow> bit (ClearReadBarrier v) n \<longleftrightarrow> n \<noteq> 29 \<and> bit v n"
  by (auto simp: SetMarkedForGC_def SetUnMarkedForGC_def SetReadBarrier_def ClearReadBarrier_def field_masks bit_simps bit_statuses simp del: bit_numeral_word_iff)

lemma status_bits: "drop_bit 30 v AND mask 2 = (if bit v 31 then 2 else 0) + (if bit v 30 then 1 else (0 :: u32))"
proof -
  have "drop_bit 30 v AND mask 2 = (if bit v 31 then 2 else 0) OR (if bit v 30 then 1 else (0 :: u32))"
  proof (rule bit_word_eqI)
    fix n assume n: "n < LENGTH(32)"
    consider "n = 0" | "n = 1" | "2 \<le> n" by linarith
    then show "bit (drop_bit 30 v AND mask 2) n = bit ((if bit v 31 then 2 else 0) OR (if bit v 30 then 1 else (0 :: u32))) n"
      by cases (simp_all add: bit_and_iff bit_or_iff bit_drop_bit_eq bit_mask_iff bit_statuses del: bit_numeral_word_iff)
  qed
  then show ?thesis by simp
qed

lemma GetState_bits:
  "GetState v =
     (if bit v 31 then if bit v 30 then STATE_GC else STATE_HASHED
      else if bit v 30 then STATE_HEAVY_LOCKED
      else if \<forall>n < 28. \<not> bit v n then STATE_UNLOCKED else STATE_LIGHT_LOCKED)"
proof -
  have "v AND mask 28 = 0 \<longleftrightarrow> (\<forall>n < 28. \<not> bit v n)"
  proof -
    have "bit (v AND mask 28) n \<longleftrightarrow> n < 28 \<and> bit v n" for n by (auto simp: bit_and_iff bit_mask_iff dest: bit_imp_le_length)
    then show ?thesis by (metis bit_eqI bit_0_eq bot_apply bot_bool_def)
  qed
  then show ?thesis
    by (simp add: GetState_def field_masks status_codes status_bits Let_def)
qed


section \<open>Reading back\<close>

lemma bit_getters:
  "bit (GetThreadId v) n \<longleftrightarrow> n < 13 \<and> bit v (n + 15)"
  "bit (GetLockCount v) n \<longleftrightarrow> n < 15 \<and> bit v n"
  "bit (GetHash v) n \<longleftrightarrow> n < 28 \<and> bit v n"
  "bit (GetMonitorId v) n \<longleftrightarrow> n < 28 \<and> bit v n"
  by (auto simp: GetThreadId_def GetLockCount_def GetHash_def GetMonitorId_def field_masks bit_simps add.commute
      dest: bit_imp_le_length)

lemma small_bits: "unat (w :: 'a::len word) < 2 ^ k \<Longrightarrow> bit w n \<Longrightarrow> n < k"
  by (metis bit_imp_le_length not_le unat_less_power_iff_bit)

lemma decode_states [simp]:
  "GetState (DecodeFromMonitor m v) = STATE_HEAVY_LOCKED"
  "GetState (DecodeFromHash h v) = STATE_HASHED"
  "GetState (DecodeFromUnlocked v) = STATE_UNLOCKED"
  "GetState (DecodeFromForwardingAddress a) = STATE_GC"
  by (simp_all add: GetState_bits bit_decode)

lemma DecodeFromLightLock_state:
  assumes "unat c < 2 ^ 15" "c \<noteq> 0"
  shows "GetState (DecodeFromLightLock t c v) = STATE_LIGHT_LOCKED"
proof -
  obtain n where "bit c n" using assms(2) by (metis bit_0_eq bit_eqI bot_apply bot_bool_def)
  moreover have "n < 15" using small_bits[OF assms(1)] calculation .
  ultimately show ?thesis by (auto simp: GetState_bits bit_decode intro!: exI[of _ n])
qed

lemma decode_fields:
  "unat m < 2 ^ 28 \<Longrightarrow> GetMonitorId (DecodeFromMonitor m v) = m"
  "unat h < 2 ^ 28 \<Longrightarrow> GetHash (DecodeFromHash h v) = h"
  "unat t < 2 ^ 13 \<Longrightarrow> GetThreadId (DecodeFromLightLock t c v) = t"
  "unat c < 2 ^ 15 \<Longrightarrow> GetLockCount (DecodeFromLightLock t c v) = c"
proof -
  have low: "bit (DecodeFromMonitor m v) n \<longleftrightarrow> bit m n" "bit (DecodeFromHash h v) n \<longleftrightarrow> bit h n" if "n < 28" for n
    using that by (simp_all add: bit_decode)
  have tid: "bit (DecodeFromLightLock t c v) (n + 15) \<longleftrightarrow> bit t n" if "n < 13" for n using that by (simp add: bit_decode)
  have cnt: "bit (DecodeFromLightLock t c v) n \<longleftrightarrow> bit c n" if "n < 15" for n using that by (simp add: bit_decode)
  show "GetMonitorId (DecodeFromMonitor m v) = m" if "unat m < 2 ^ 28"
    using small_bits[OF that] low(1) by (intro bit_word_eqI) (auto simp: bit_getters)
  show "GetHash (DecodeFromHash h v) = h" if "unat h < 2 ^ 28"
    using small_bits[OF that] low(2) by (intro bit_word_eqI) (auto simp: bit_getters)
  show "GetThreadId (DecodeFromLightLock t c v) = t" if "unat t < 2 ^ 13"
    using small_bits[OF that] tid by (intro bit_word_eqI) (auto simp: bit_getters)
  show "GetLockCount (DecodeFromLightLock t c v) = c" if "unat c < 2 ^ 15"
    using small_bits[OF that] cnt by (intro bit_word_eqI) (auto simp: bit_getters)
qed

lemma forwarding_fields:
  assumes "take_bit 2 a = 0"
  shows "GetForwardingAddress (DecodeFromForwardingAddress a) = a"
proof (rule bit_word_eqI)
  fix n assume n: "n < LENGTH(32)"
  have "\<not> bit a k" if "k < 2" for k using assms that by (metis bit_take_bit_iff bit_0_eq bot_apply bot_bool_def)
  moreover have "bit (GetForwardingAddress (DecodeFromForwardingAddress a)) n \<longleftrightarrow> 2 \<le> n \<and> bit (DecodeFromForwardingAddress a) (n - 2)"
    using n by (auto simp: GetForwardingAddress_def GetForwardingAddressField_def field_masks bit_simps)
  ultimately show "bit (GetForwardingAddress (DecodeFromForwardingAddress a)) n = bit a n"
    using n bit_DecodeFromForwardingAddress[of "n - 2" a] le_add_diff_inverse2[of 2 n]
    by (cases "n < 2") (auto simp del: add_2_eq_Suc')
qed

lemma gc_bit: "IsMarkedForGC v \<longleftrightarrow> bit v 28" and rb_bit: "IsReadBarrierSet v \<longleftrightarrow> bit v 29"
  using bit_iff_and_push_bit_not_eq_0[of v 28] bit_iff_and_push_bit_not_eq_0[of v 29]
  by (simp_all add: IsMarkedForGC_def IsReadBarrierSet_def field_masks)


text \<open>The bits of the collector and of the read barrier survive every change of the lock or hash, and the
  state and the fields survive changes of those bits, except in a forwarded object.\<close>

lemma decode_gc_rb [simp]:
  "IsMarkedForGC (DecodeFromMonitor m v) = IsMarkedForGC v" "IsReadBarrierSet (DecodeFromMonitor m v) = IsReadBarrierSet v"
  "IsMarkedForGC (DecodeFromHash h v) = IsMarkedForGC v" "IsReadBarrierSet (DecodeFromHash h v) = IsReadBarrierSet v"
  "IsMarkedForGC (DecodeFromLightLock t c v) = IsMarkedForGC v"
  "IsReadBarrierSet (DecodeFromLightLock t c v) = IsReadBarrierSet v"
  "IsMarkedForGC (DecodeFromUnlocked v) = IsMarkedForGC v" "IsReadBarrierSet (DecodeFromUnlocked v) = IsReadBarrierSet v"
  by (simp_all add: gc_bit rb_bit bit_decode)

text \<open>A step of the collector on the word.\<close>

definition gc_ops :: "(MarkWord \<Rightarrow> MarkWord) list" where
  "gc_ops = [SetMarkedForGC, SetUnMarkedForGC, SetReadBarrier, ClearReadBarrier]"

lemma gc_ops_keep:
  assumes "g \<in> set gc_ops"
  shows "GetState (g v) = GetState v" "GetThreadId (g v) = GetThreadId v" "GetLockCount (g v) = GetLockCount v"
    "GetHash (g v) = GetHash v" "GetMonitorId (g v) = GetMonitorId v"
proof -
  have b: "bit (g v) n \<longleftrightarrow> bit v n" if "n < 32" "n \<noteq> 28" "n \<noteq> 29" for n
    using assms that by (auto simp: gc_ops_def bit_gc_rb)
  have "(\<forall>n < 28. \<not> bit (g v) n) \<longleftrightarrow> (\<forall>n < 28. \<not> bit v n)" using b by auto
  then show "GetState (g v) = GetState v" by (simp only: GetState_bits) (simp add: b)
  show "GetThreadId (g v) = GetThreadId v" "GetLockCount (g v) = GetLockCount v" "GetHash (g v) = GetHash v"
    "GetMonitorId (g v) = GetMonitorId v"
    using b by (intro bit_word_eqI; auto simp: bit_getters)+
qed

lemma gc_bits_ops:
  "IsMarkedForGC (SetMarkedForGC v)" "\<not> IsMarkedForGC (SetUnMarkedForGC v)" "IsReadBarrierSet (SetReadBarrier v)"
  "\<not> IsReadBarrierSet (ClearReadBarrier v)" "IsReadBarrierSet (SetMarkedForGC v) = IsReadBarrierSet v"
  "IsReadBarrierSet (SetUnMarkedForGC v) = IsReadBarrierSet v" "IsMarkedForGC (SetReadBarrier v) = IsMarkedForGC v"
  "IsMarkedForGC (ClearReadBarrier v) = IsMarkedForGC v"
  by (simp_all add: gc_bit rb_bit bit_gc_rb)

text \<open>Each operation that sets a field writes the bits of the field and the status only, and each operation
  of the collector its own bit only.\<close>

lemma status_only_bits:
  assumes "n < 32"
  shows "bit (SetMarkedForGC v) n \<longleftrightarrow> n = GC_STATUS_SHIFT \<or> bit v n"
    "bit (SetUnMarkedForGC v) n \<longleftrightarrow> n \<noteq> GC_STATUS_SHIFT \<and> bit v n"
    "bit (SetReadBarrier v) n \<longleftrightarrow> n = RB_STATUS_SHIFT \<or> bit v n"
    "bit (ClearReadBarrier v) n \<longleftrightarrow> n \<noteq> RB_STATUS_SHIFT \<and> bit v n"
  using assms by (simp_all add: bit_gc_rb field_sizes)

text \<open>What a state means for the payload.\<close>

lemma unlocked_fields: "GetState v = STATE_UNLOCKED \<Longrightarrow> DecodeFromUnlocked v = v"
proof -
  have "n = 30 \<or> n = 31" if "\<not> n < 30" "n < 32" for n :: nat using that by linarith
  then show "GetState v = STATE_UNLOCKED \<Longrightarrow> DecodeFromUnlocked v = v"
    by (intro bit_word_eqI) (auto simp: GetState_bits bit_decode not_less[symmetric] split: if_splits)
qed

lemma light_lock_fields: "GetState v = STATE_LIGHT_LOCKED \<Longrightarrow> GetThreadId v \<noteq> 0 \<or> GetLockCount v \<noteq> 0"
proof -
  assume "GetState v = STATE_LIGHT_LOCKED"
  then obtain n where n: "n < 28" "bit v n" by (auto simp: GetState_bits split: if_splits)
  then have "bit (GetLockCount v) n \<or> bit (GetThreadId v) (n - 15)" by (auto simp: bit_getters)
  then show ?thesis by auto
qed

lemma field_bounds:
  "unat (GetThreadId v) < 2 ^ 13" "unat (GetLockCount v) < 2 ^ 15" "unat (GetHash v) < 2 ^ 28" "unat (GetMonitorId v) < 2 ^ 28"
  by (simp_all only: unat_less_power_iff_bit bit_getters) auto

section \<open>Hash codes\<close>

text \<open>The generator ends after at most two rounds.\<close>

lemma GenerateHashCode_eq:
  "GenerateHashCode v =
     (if take_bit 28 v = 0 then (12345, next_seed (next_seed v)) else (take_bit 28 v, next_seed v))"
  using next_seed_hash[of v]
  by (simp add: GenerateHashCode.simps[of v] GenerateHashCode.simps[of "next_seed v"] hash_bits Let_def)

lemma GenerateHashCode_range:
  "GenerateHashCode v = (h, v') \<Longrightarrow> h \<noteq> 0 \<and> unat h < 2 ^ 28"
proof -
  have "unat (take_bit 28 v) < 2 ^ 28" by (simp only: unsigned_take_bit_eq take_bit_nat_less_exp)
  then show "GenerateHashCode v = (h, v') \<Longrightarrow> h \<noteq> 0 \<and> unat h < 2 ^ 28"
    by (auto simp: GenerateHashCode_eq split: if_splits)
qed

section \<open>Properties\<close>

text \<open>C40: A mark word gives back what was put into it: after each of the operations that set it, its state is
  the one of the operation and its field the value given, for every value that fits the field (a hash code or
  monitor number of 28 bits, a thread id of 13 bits with a lock count between 1 and 2^15 - 1, a forwarding
  address that is a multiple of 4), and except for a forwarding address, which takes all other bits, the mark
  of the collector and the read barrier are the ones before. The four operations on these two bits set or
  clear their own bit and change no other bit of the word: marking and unmarking keep the read barrier,
  setting and clearing the read barrier keep the mark, and all four keep the state, the owner and count of a
  lock, the monitor number and the hash code.\<close>

theorem mark_word_roundtrip:
  "(unat m < 2 ^ 28 \<longrightarrow> GetState (DecodeFromMonitor m v) = STATE_HEAVY_LOCKED \<and> GetMonitorId (DecodeFromMonitor m v) = m) \<and>
   (unat h < 2 ^ 28 \<longrightarrow> GetState (DecodeFromHash h v) = STATE_HASHED \<and> GetHash (DecodeFromHash h v) = h) \<and>
   (unat t < 2 ^ 13 \<and> unat c < 2 ^ 15 \<and> c \<noteq> 0 \<longrightarrow> GetState (DecodeFromLightLock t c v) = STATE_LIGHT_LOCKED \<and>
      GetThreadId (DecodeFromLightLock t c v) = t \<and> GetLockCount (DecodeFromLightLock t c v) = c) \<and>
   GetState (DecodeFromUnlocked v) = STATE_UNLOCKED \<and>
   (take_bit 2 a = 0 \<longrightarrow> IsForwarded (DecodeFromForwardingAddress a) \<and> GetForwardingAddress (DecodeFromForwardingAddress a) = a) \<and>
   (\<forall>f \<in> {DecodeFromMonitor m, DecodeFromHash h, DecodeFromLightLock t c, DecodeFromUnlocked}.
      IsMarkedForGC (f v) = IsMarkedForGC v \<and> IsReadBarrierSet (f v) = IsReadBarrierSet v) \<and>
   (\<forall>f \<in> {SetMarkedForGC, SetUnMarkedForGC, SetReadBarrier, ClearReadBarrier}.
      GetState (f v) = GetState v \<and> GetThreadId (f v) = GetThreadId v \<and> GetLockCount (f v) = GetLockCount v \<and>
      GetHash (f v) = GetHash v \<and> GetMonitorId (f v) = GetMonitorId v) \<and>
   IsMarkedForGC (SetMarkedForGC v) \<and> \<not> IsMarkedForGC (SetUnMarkedForGC v) \<and>
   IsReadBarrierSet (SetReadBarrier v) \<and> \<not> IsReadBarrierSet (ClearReadBarrier v) \<and>
   IsReadBarrierSet (SetMarkedForGC v) = IsReadBarrierSet v \<and> IsReadBarrierSet (SetUnMarkedForGC v) = IsReadBarrierSet v \<and>
   IsMarkedForGC (SetReadBarrier v) = IsMarkedForGC v \<and> IsMarkedForGC (ClearReadBarrier v) = IsMarkedForGC v \<and>
   (\<forall>n < 32. (bit (SetMarkedForGC v) n \<longleftrightarrow> n = GC_STATUS_SHIFT \<or> bit v n) \<and>
      (bit (SetUnMarkedForGC v) n \<longleftrightarrow> n \<noteq> GC_STATUS_SHIFT \<and> bit v n) \<and>
      (bit (SetReadBarrier v) n \<longleftrightarrow> n = RB_STATUS_SHIFT \<or> bit v n) \<and>
      (bit (ClearReadBarrier v) n \<longleftrightarrow> n \<noteq> RB_STATUS_SHIFT \<and> bit v n))"
  using gc_ops_keep[of _ v]
  by (simp add: decode_fields DecodeFromLightLock_state forwarding_fields IsForwarded_def gc_bits_ops gc_ops_def status_only_bits)

lemma mark_word_roundtrip_witness:
  "GetMonitorId (DecodeFromMonitor 7 0x30000000) = 7 \<and> GetHash (DecodeFromHash 12345 0x10000000) = 12345 \<and>
   GetThreadId (DecodeFromLightLock 9 2 0) = 9 \<and> GetForwardingAddress (DecodeFromForwardingAddress 0x1000) = 0x1000 \<and>
   \<not> IsMarkedForGC (SetUnMarkedForGC 0x30000000) \<and>
   IsReadBarrierSet (SetUnMarkedForGC 0x30000000) = IsReadBarrierSet 0x30000000"
  using mark_word_roundtrip[of 7 "0x30000000" 0 0 0 0] mark_word_roundtrip[of 0 "0x10000000" 12345 0 0 0]
    mark_word_roundtrip[of 0 0 0 9 2 "0x1000"] by (simp add: take_bit_eq_mod)

text \<open>The loop that generates a hash code ends for every seed: it takes the seed's 28 low bits unless they
  are zero, and in that case takes the next seed, whose low bits are 12345. So a hash code is never 0, which
  stands for a missing hash code in a monitor, and fits the field of the mark word.\<close>

theorem hash_code_generated:
  "GenerateHashCode v = (if take_bit 28 v = 0 then (12345, next_seed (next_seed v)) else (take_bit 28 v, next_seed v)) \<and>
   fst (GenerateHashCode v) \<noteq> 0 \<and> GetHash (DecodeFromHash (fst (GenerateHashCode v)) w) = fst (GenerateHashCode v)"
  using GenerateHashCode_eq[of v] GenerateHashCode_range[of v] decode_fields(2) by (metis prod.collapse)

end
