(* ===== verification/Thread_List.thy ===== *)
theory Thread_List
  imports Ark_Prelude
begin

text \<open>
  The intrusive list of waiting threads of a monitor (\<^verbatim>\<open>ThreadList\<close>, \<^verbatim>\<open>runtime/monitor.h\<close> and
  \<^verbatim>\<open>monitor.cpp\<close>): a head pointer into a chain that is linked through one field of the threads
  (\<^verbatim>\<open>MTManagedThread::next_\<close>). The operations are modelled on the pointers; loops over the chain are
  partial functions, so that a loop over a cyclic chain would have no value. They are related to
  operations on lists, over which the monitors are modelled.
\<close>

section \<open>Operations on the pointers\<close>

type_synonym tid = u32
type_synonym links = "tid \<Rightarrow> tid option"

definition Empty :: "tid option \<Rightarrow> bool" where "Empty head \<longleftrightarrow> head = None"

definition Front :: "tid option \<Rightarrow> tid option" where "Front head = head"

text \<open>\<open>None\<close> in a result is the access through a null pointer.\<close>

definition GetNextWait :: "links \<Rightarrow> tid option \<Rightarrow> tid option option" where
  "GetNextWait nxt p = map_option nxt p"

definition SetWaitNext :: "links \<Rightarrow> tid option \<Rightarrow> tid option \<Rightarrow> links option" where
  "SetWaitNext nxt p q = map_option (\<lambda>t. nxt(t := q)) p"

definition PopFront :: "links \<Rightarrow> tid option \<Rightarrow> tid option option" where
  "PopFront nxt head = GetNextWait nxt head"

definition PushFront :: "links \<Rightarrow> tid option \<Rightarrow> tid \<Rightarrow> links \<times> tid option" where
  "PushFront nxt head thread = (nxt(thread := head), Some thread)"

definition EraseAfter :: "links \<Rightarrow> tid option \<Rightarrow> tid option \<Rightarrow> tid option \<Rightarrow> (links \<times> tid option) option" where
  "EraseAfter nxt head prev current =
     (case GetNextWait nxt current of None \<Rightarrow> None
      | Some n \<Rightarrow> if current = head then Some (nxt, n) else map_option (\<lambda>nxt'. (nxt', head)) (SetWaitNext nxt prev n))"

partial_function (option) last_of :: "links \<Rightarrow> tid \<Rightarrow> tid option" where
  "last_of nxt l = (case nxt l of None \<Rightarrow> Some l | Some n \<Rightarrow> last_of nxt n)"

text \<open>The links and the two heads after the call.\<close>

definition Splice :: "links \<Rightarrow> tid option \<Rightarrow> tid option \<Rightarrow> (links \<times> tid option \<times> tid option) option" where
  "Splice nxt head other =
     (case head of None \<Rightarrow> Some (nxt, other, None)
      | Some h \<Rightarrow> map_option (\<lambda>l. (nxt(l := other), head, None)) (last_of nxt h))"

definition Swap :: "tid option \<Rightarrow> tid option \<Rightarrow> tid option \<times> tid option" where "Swap head other = (other, head)"

definition Clear :: "tid option" where "Clear = None"

partial_function (option) RemoveIf_loop ::
  "(tid \<Rightarrow> bool) \<Rightarrow> links \<Rightarrow> tid option \<Rightarrow> bool \<Rightarrow> tid option \<Rightarrow> tid option \<Rightarrow> (bool \<times> links \<times> tid option) option"
where
  "RemoveIf_loop pred nxt head found prev current =
     (case current of None \<Rightarrow> Some (found, nxt, head)
      | Some c \<Rightarrow>
          if pred c
          then (case EraseAfter nxt head prev current of None \<Rightarrow> None
                | Some (nxt', head') \<Rightarrow>
                    (case GetNextWait nxt' prev of None \<Rightarrow> None
                     | Some n \<Rightarrow> RemoveIf_loop pred nxt' head' True prev n))
          else RemoveIf_loop pred nxt head found current (nxt c))"

definition RemoveIf :: "(tid \<Rightarrow> bool) \<Rightarrow> links \<Rightarrow> tid option \<Rightarrow> (bool \<times> links \<times> tid option) option" where
  "RemoveIf pred nxt head = RemoveIf_loop pred nxt head False head head"

section \<open>Chains\<close>

fun chain :: "links \<Rightarrow> tid option \<Rightarrow> tid list \<Rightarrow> bool" where
  "chain nxt p [] \<longleftrightarrow> p = None"
| "chain nxt p (t # ts) \<longleftrightarrow> p = Some t \<and> chain nxt (nxt t) ts"

fun segment :: "links \<Rightarrow> tid option \<Rightarrow> tid list \<Rightarrow> tid option \<Rightarrow> bool" where
  "segment nxt p [] q \<longleftrightarrow> p = q"
| "segment nxt p (t # ts) q \<longleftrightarrow> p = Some t \<and> segment nxt (nxt t) ts q"

lemma chain_None [simp]: "chain nxt None ts \<longleftrightarrow> ts = []" by (cases ts) auto

lemma chain_Some: "chain nxt (Some t) ts \<longleftrightarrow> (\<exists>us. ts = t # us \<and> chain nxt (nxt t) us)" by (cases ts) auto

lemma chain_update [simp]: "t \<notin> set ts \<Longrightarrow> chain (nxt(t := q)) p ts = chain nxt p ts"
  by (induction ts arbitrary: p) auto

lemma segment_update [simp]: "t \<notin> set ts \<Longrightarrow> segment (nxt(t := q)) p ts r = segment nxt p ts r"
  by (induction ts arbitrary: p) auto

lemma chain_append: "chain nxt p (xs @ ys) \<longleftrightarrow> (\<exists>q. segment nxt p xs q \<and> chain nxt q ys)"
  by (induction xs arbitrary: p) auto

lemma segment_append: "segment nxt p (xs @ ys) q \<longleftrightarrow> (\<exists>r. segment nxt p xs r \<and> segment nxt r ys q)"
  by (induction xs arbitrary: p) auto

lemma chain_unique: "chain nxt p xs \<Longrightarrow> chain nxt p ys \<Longrightarrow> xs = ys"
  by (induction xs arbitrary: p ys) (auto simp: chain_Some)

lemma chain_distinct: "chain nxt p ts \<Longrightarrow> distinct ts"
proof (induction ts arbitrary: p)
  case (Cons t ts)
  have "t \<notin> set ts"
  proof
    assume "t \<in> set ts"
    then obtain us vs where ts: "ts = us @ t # vs" by (auto simp: in_set_conv_decomp)
    then obtain q where "chain nxt q (t # vs)" using Cons.prems by (auto simp: chain_append)
    then have "ts = vs" using Cons.prems chain_unique by simp blast
    then show False using ts by simp
  qed
  then show ?case using Cons by auto
qed simp

section \<open>The operations on lists\<close>

text \<open>What each operation does to the lists that the heads stand for.\<close>

lemma last_of_chain: "chain nxt (Some t) ts \<Longrightarrow> last_of nxt t = Some (last ts)"
proof (induction ts arbitrary: t)
  case (Cons u us)
  then show ?case by (subst last_of.simps) (cases us; auto)
qed simp

lemma push_chain: "chain nxt h ts \<Longrightarrow> t \<notin> set ts \<Longrightarrow> PushFront nxt h t = (nxt', h') \<Longrightarrow> chain nxt' h' (t # ts)"
  by (auto simp: PushFront_def)

lemma pop_chain: "chain nxt h (t # ts) \<Longrightarrow> \<exists>h'. PopFront nxt h = Some h' \<and> chain nxt h' ts"
  by (auto simp: PopFront_def GetNextWait_def)

lemma splice_chain:
  assumes "chain nxt h xs" "chain nxt g ys" "set xs \<inter> set ys = {}"
  shows "\<exists>nxt' h'. Splice nxt h g = Some (nxt', h', None) \<and> chain nxt' h' (xs @ ys) \<and> (\<forall>t. t \<notin> set xs \<longrightarrow> nxt' t = nxt t)"
proof (cases xs rule: rev_exhaust)
  case Nil
  then show ?thesis using assms by (simp add: Splice_def)
next
  case (snoc us l)
  obtain h0 where h0: "h = Some h0" using assms(1) snoc by (cases h) auto
  have d: "distinct xs" using assms(1) by (rule chain_distinct)
  have l: "last_of nxt h0 = Some l" using last_of_chain[of nxt h0 xs] assms(1) h0 snoc by simp
  have "segment nxt h us (Some l)" using assms(1) snoc by (auto simp: chain_append)
  then have "chain (nxt(l := g)) h (xs @ ys)"
    using assms(2,3) d snoc by (auto simp: chain_append segment_append)
  then show ?thesis using l h0 snoc by (auto simp: Splice_def)
qed

text \<open>
  \<open>RemoveIf\<close> keeps in \<open>prev\<close> the last thread it kept. While it has kept none, \<open>prev\<close> is the first thread of
  the chain, already out of the list, and a removal leaves its link behind by one or not at all: the
  loop may visit a removed thread a second time before it goes on.
\<close>

lemma RemoveIf_loop_kept:
  assumes "segment nxt head (ks @ [p]) cur" "chain nxt cur ts" "distinct (ks @ p # ts)"
  shows "\<exists>nxt'. RemoveIf_loop pred nxt head found (Some p) cur = Some (found \<or> (\<exists>t \<in> set ts. pred t), nxt', head) \<and>
           chain nxt' head (ks @ p # filter (\<lambda>t. \<not> pred t) ts) \<and> (\<forall>t. t \<notin> set (p # ts) \<longrightarrow> nxt' t = nxt t)"
  using assms
proof (induction ts arbitrary: nxt ks p cur found)
  case Nil
  then have "chain nxt head ((ks @ [p]) @ [])" unfolding chain_append by auto
  then show ?case using Nil by (subst RemoveIf_loop.simps) simp
next
  case (Cons t ts)
  have cur: "cur = Some t" and ts: "chain nxt (nxt t) ts" using Cons.prems by auto
  have head: "head \<noteq> Some t" using Cons.prems by (cases ks) auto
  show ?case
  proof (cases "pred t")
    case True
    let ?n = "nxt(p := nxt t)"
    have "segment ?n head (ks @ [p]) (nxt t)" using Cons.prems by (auto simp: segment_append)
    moreover have "chain ?n (nxt t) ts" using ts Cons.prems by simp
    moreover have "distinct (ks @ p # ts)" using Cons.prems by auto
    ultimately obtain n' where n': "RemoveIf_loop pred ?n head True (Some p) (nxt t) = Some (True, n', head)"
        "chain n' head (ks @ p # filter (\<lambda>t. \<not> pred t) ts)" "\<forall>u. u \<notin> set (p # ts) \<longrightarrow> n' u = ?n u"
      using Cons.IH[of ?n ks p "nxt t" True] by (auto simp del: fun_upd_apply)
    have "RemoveIf_loop pred nxt head found (Some p) cur = RemoveIf_loop pred ?n head True (Some p) (nxt t)"
      using True cur head by (subst RemoveIf_loop.simps) (auto simp: EraseAfter_def GetNextWait_def SetWaitNext_def)
    then show ?thesis using n' True by auto
  next
    case False
    have "segment nxt head ((ks @ [p]) @ [t]) (nxt t)" using Cons.prems by (auto simp: segment_append)
    then obtain n' where n': "RemoveIf_loop pred nxt head found (Some t) (nxt t) = Some (found \<or> (\<exists>t \<in> set ts. pred t), n', head)"
        "chain n' head ((ks @ [p]) @ t # filter (\<lambda>t. \<not> pred t) ts)" "\<forall>u. u \<notin> set (t # ts) \<longrightarrow> n' u = nxt u"
      using Cons.IH[of nxt "ks @ [p]" t "nxt t" found] ts Cons.prems by auto
    have "RemoveIf_loop pred nxt head found (Some p) cur = RemoveIf_loop pred nxt head found (Some t) (nxt t)"
      using False cur by (subst RemoveIf_loop.simps) simp
    then show ?thesis using n' False by auto
  qed
qed

lemma RemoveIf_loop_none_kept:
  assumes "chain nxt cur ts" "p \<notin> set ts" "nxt p = cur"
  shows "\<exists>nxt' h'. RemoveIf_loop pred nxt cur found (Some p) cur = Some (found \<or> (\<exists>t \<in> set ts. pred t), nxt', h') \<and>
           chain nxt' h' (filter (\<lambda>t. \<not> pred t) ts) \<and> (\<forall>t. t \<notin> set (p # ts) \<longrightarrow> nxt' t = nxt t)"
  using assms
proof (induction ts arbitrary: nxt cur found)
  case Nil
  then show ?case by (subst RemoveIf_loop.simps) simp
next
  case (Cons t ts)
  have cur: "cur = Some t" and ts: "chain nxt (nxt t) ts" and d: "distinct (t # ts)"
    using Cons.prems chain_distinct[OF Cons.prems(1)] by auto
  show ?case
  proof (cases "pred t")
    case True
    let ?n = "nxt(p := nxt t)"
    have once: "RemoveIf_loop pred nxt cur found (Some p) cur = RemoveIf_loop pred nxt (nxt t) True (Some p) cur"
      using True cur Cons.prems by (subst RemoveIf_loop.simps) (auto simp: EraseAfter_def GetNextWait_def)
    have "nxt t \<noteq> Some t" using ts d by (cases ts) auto
    then have twice: "RemoveIf_loop pred nxt (nxt t) True (Some p) cur = RemoveIf_loop pred ?n (nxt t) True (Some p) (nxt t)"
      using True cur by (subst RemoveIf_loop.simps) (auto simp: EraseAfter_def GetNextWait_def SetWaitNext_def)
    obtain n' h' where n': "RemoveIf_loop pred ?n (nxt t) True (Some p) (nxt t) = Some (True, n', h')"
        "chain n' h' (filter (\<lambda>t. \<not> pred t) ts)" "\<forall>u. u \<notin> set (p # ts) \<longrightarrow> n' u = ?n u"
      using Cons.IH[of ?n "nxt t" True, OF chain_update[THEN iffD2, OF _ ts] _ fun_upd_same] Cons.prems
      by (simp del: fun_upd_apply) blast
    then show ?thesis using once twice True by auto
  next
    case False
    have "RemoveIf_loop pred nxt cur found (Some p) cur = RemoveIf_loop pred nxt cur found (Some t) (nxt t)"
      using False cur by (subst RemoveIf_loop.simps) simp
    moreover obtain n' where "RemoveIf_loop pred nxt cur found (Some t) (nxt t) = Some (found \<or> (\<exists>t \<in> set ts. pred t), n', cur)"
        "chain n' cur (t # filter (\<lambda>t. \<not> pred t) ts)" "\<forall>u. u \<notin> set (t # ts) \<longrightarrow> n' u = nxt u"
      using RemoveIf_loop_kept[of nxt cur "[]" t "nxt t" ts pred found] ts d cur by auto
    ultimately show ?thesis using False by auto
  qed
qed

lemma RemoveIf_chain:
  assumes "chain nxt h ts"
  shows "\<exists>nxt' h'. RemoveIf pred nxt h = Some (\<exists>t \<in> set ts. pred t, nxt', h') \<and>
           chain nxt' h' (filter (\<lambda>t. \<not> pred t) ts) \<and> (\<forall>t. t \<notin> set ts \<longrightarrow> nxt' t = nxt t)"
proof (cases ts)
  case Nil
  then show ?thesis using assms by (simp add: RemoveIf_def RemoveIf_loop.simps)
next
  case (Cons t us)
  have h: "h = Some t" and us: "chain nxt (nxt t) us" and d: "distinct (t # us)"
    using assms Cons chain_distinct[OF assms] by auto
  show ?thesis
  proof (cases "pred t")
    case True
    have "RemoveIf pred nxt h = RemoveIf_loop pred nxt (nxt t) True (Some t) (nxt t)"
      unfolding RemoveIf_def using True h by (subst RemoveIf_loop.simps) (auto simp: EraseAfter_def GetNextWait_def)
    then show ?thesis using RemoveIf_loop_none_kept[of nxt "nxt t" us t pred True] us d True Cons by auto
  next
    case False
    have "RemoveIf pred nxt h = RemoveIf_loop pred nxt h False (Some t) (nxt t)"
      unfolding RemoveIf_def using False h by (subst RemoveIf_loop.simps) simp
    then show ?thesis using RemoveIf_loop_kept[of nxt h "[]" t "nxt t" us pred False] us d h False Cons by auto
  qed
qed

section \<open>The two queues of a monitor\<close>

text \<open>
  A monitor has a list of waiting threads and a list of threads to wake up, linked through the same field
  of the threads. The parts of \<^verbatim>\<open>Monitor::WaitWithHeavyLockedState\<close>, \<^verbatim>\<open>Notify\<close>, \<^verbatim>\<open>NotifyAll\<close> and \<^verbatim>\<open>Release\<close>
  that work on them, on the links and the two heads.
\<close>

type_synonym queues = "links \<times> tid option \<times> tid option"

definition queue_wait :: "tid \<Rightarrow> queues \<Rightarrow> queues" where
  "queue_wait t q = (case q of (nxt, w, u) \<Rightarrow> (case PushFront nxt w t of (nxt', w') \<Rightarrow> (nxt', w', u)))"

definition queue_notify :: "queues \<Rightarrow> queues option" where
  "queue_notify q = (case q of (nxt, w, u) \<Rightarrow>
     if Empty w then Some q
     else (case (Front w, PopFront nxt w) of
             (Some waiter, Some w') \<Rightarrow> (case PushFront nxt u waiter of (nxt', u') \<Rightarrow> Some (nxt', w', u'))
           | _ \<Rightarrow> None))"

definition queue_notify_all :: "queues \<Rightarrow> queues option" where
  "queue_notify_all q = (case q of (nxt, w, u) \<Rightarrow>
     if Empty u then (case Swap u w of (u', w') \<Rightarrow> Some (nxt, w', u'))
     else if Empty w then Some q
     else map_option (\<lambda>(nxt', u', _). (nxt', Clear, u')) (Splice nxt u w))"

definition queue_wakeup :: "queues \<Rightarrow> (tid option \<times> queues) option" where
  "queue_wakeup q = (case q of (nxt, w, u) \<Rightarrow>
     if Empty u then Some (None, q) else map_option (\<lambda>u'. (Front u, (nxt, w, u'))) (PopFront nxt u))"

definition queue_leave :: "tid \<Rightarrow> queues \<Rightarrow> queues option" where
  "queue_leave t q = (case q of (nxt, w, u) \<Rightarrow>
     (case RemoveIf (\<lambda>x. x = t) nxt w of None \<Rightarrow> None
      | Some (found, nxt', w') \<Rightarrow>
          if found then Some (nxt', w', u) else map_option (\<lambda>(_, nxt'', u'). (nxt'', w', u')) (RemoveIf (\<lambda>x. x = t) nxt' u)))"

text \<open>The same on lists; the model of the monitors uses these.\<close>

type_synonym lists = "tid list \<times> tid list"

definition list_wait :: "tid \<Rightarrow> lists \<Rightarrow> lists" where "list_wait t q = (t # fst q, snd q)"

definition list_notify :: "lists \<Rightarrow> lists" where
  "list_notify q = (case fst q of [] \<Rightarrow> q | t # ts \<Rightarrow> (ts, t # snd q))"

definition list_notify_all :: "lists \<Rightarrow> lists" where "list_notify_all q = ([], snd q @ fst q)"

definition list_wakeup :: "lists \<Rightarrow> tid option \<times> lists" where
  "list_wakeup q = (case snd q of [] \<Rightarrow> (None, q) | t # ts \<Rightarrow> (Some t, (fst q, ts)))"

definition list_leave :: "tid \<Rightarrow> lists \<Rightarrow> lists" where
  "list_leave t q = (if t \<in> set (fst q) then (removeAll t (fst q), snd q) else (fst q, removeAll t (snd q)))"

text \<open>What the monitors rely on: a pair of queues, of the threads that wait and of those to wake up, as an
  interface. No operation loses a thread or holds one twice, only \<open>leave\<close> and \<open>wakeup\<close> let a thread go,
  and \<open>wakeup\<close> takes the first of the threads to wake up.\<close>

locale waiting_queues =
  fixes wait leave :: "tid \<Rightarrow> 'q \<Rightarrow> 'q" and notify notify_all :: "'q \<Rightarrow> 'q" and wakeup :: "'q \<Rightarrow> tid option \<times> 'q"
    and waiting notified :: "'q \<Rightarrow> tid list"
  assumes wait_law: "waiting (wait t q) = t # waiting q \<and> notified (wait t q) = notified q"
    and notify_law: "set (waiting (notify q)) \<union> set (notified (notify q)) = set (waiting q) \<union> set (notified q)"
      "distinct (waiting q @ notified q) \<Longrightarrow> distinct (waiting (notify q) @ notified (notify q))"
    and notify_all_law: "waiting (notify_all q) = []" "set (notified (notify_all q)) = set (waiting q) \<union> set (notified q)"
      "distinct (waiting q @ notified q) \<Longrightarrow> distinct (notified (notify_all q))"
    and wakeup_law: "notified q = [] \<Longrightarrow> wakeup q = (None, q)"
      "notified q = t # ts \<Longrightarrow> \<exists>q'. wakeup q = (Some t, q') \<and> waiting q' = waiting q \<and> notified q' = ts"
    and leave_law: "distinct (waiting q @ notified q) \<Longrightarrow>
        set (waiting (leave t q)) \<union> set (notified (leave t q)) = set (waiting q) \<union> set (notified q) - {t}"
      "distinct (waiting q @ notified q) \<Longrightarrow> distinct (waiting (leave t q) @ notified (leave t q))"
begin

lemma wakeup_result:
  "wakeup q = (w, q') \<Longrightarrow> waiting q' = waiting q \<and> notified q' = tl (notified q) \<and> w = (case notified q of [] \<Rightarrow> None | t # _ \<Rightarrow> Some t)"
  using wakeup_law[of q] by (cases "notified q") force+

lemma wakeup_threads: "wakeup q = (w, q') \<Longrightarrow> set (waiting q') \<union> set (notified q') \<subseteq> set (waiting q) \<union> set (notified q)"
  using wakeup_result[of q w q'] by (cases "notified q") auto

lemma wakeup_distinct: "wakeup q = (w, q') \<Longrightarrow> distinct (waiting q @ notified q) \<Longrightarrow> distinct (waiting q' @ notified q')"
  using wakeup_result[of q w q'] by (cases "notified q") auto

lemma woken: "wakeup q = (w, q') \<Longrightarrow> notified q' \<noteq> [] \<Longrightarrow> \<exists>t. w = Some t \<and> t \<in> set (notified q)"
  using wakeup_result[of q w q'] by (cases "notified q") auto

lemma announce_threads:
  assumes "distinct (waiting q @ notified q)" "q' = (if every then notify_all q else notify q)"
  shows "set (waiting q') \<union> set (notified q') = set (waiting q) \<union> set (notified q)" "distinct (waiting q' @ notified q')"
  using assms notify_law notify_all_law by (cases every; simp)+

end

interpretation list_queues: waiting_queues list_wait list_leave list_notify list_notify_all list_wakeup fst snd
proof
  fix t :: tid and q :: lists and ts
  show "fst (list_wait t q) = t # fst q \<and> snd (list_wait t q) = snd q" by (simp add: list_wait_def)
  show "set (fst (list_notify q)) \<union> set (snd (list_notify q)) = set (fst q) \<union> set (snd q)"
    by (auto simp: list_notify_def split: list.splits)
  show "distinct (fst q @ snd q) \<Longrightarrow> distinct (fst (list_notify q) @ snd (list_notify q))"
    by (auto simp: list_notify_def split: list.splits)
  show "fst (list_notify_all q) = []" "set (snd (list_notify_all q)) = set (fst q) \<union> set (snd q)"
    "distinct (fst q @ snd q) \<Longrightarrow> distinct (snd (list_notify_all q))" by (auto simp: list_notify_all_def)
  show "snd q = [] \<Longrightarrow> list_wakeup q = (None, q)"
    "snd q = t # ts \<Longrightarrow> \<exists>q'. list_wakeup q = (Some t, q') \<and> fst q' = fst q \<and> snd q' = ts" by (simp_all add: list_wakeup_def)
  show "distinct (fst q @ snd q) \<Longrightarrow> set (fst (list_leave t q)) \<union> set (snd (list_leave t q)) = set (fst q) \<union> set (snd q) - {t}"
    "distinct (fst q @ snd q) \<Longrightarrow> distinct (fst (list_leave t q) @ snd (list_leave t q))"
    by (auto simp: list_leave_def distinct_removeAll)
qed

definition queues_rep :: "queues \<Rightarrow> lists \<Rightarrow> bool" where
  "queues_rep q l \<longleftrightarrow> chain (fst q) (fst (snd q)) (fst l) \<and> chain (fst q) (snd (snd q)) (snd l) \<and> distinct (fst l @ snd l)"

definition others_kept :: "queues \<Rightarrow> lists \<Rightarrow> queues \<Rightarrow> bool" where
  "others_kept q l q' \<longleftrightarrow> (\<forall>t. t \<notin> set (fst l) \<union> set (snd l) \<longrightarrow> fst q' t = fst q t)"

lemma queues_repE:
  assumes "queues_rep q l"
  obtains nxt w u ws us where "q = (nxt, w, u)" "l = (ws, us)" "chain nxt w ws" "chain nxt u us" "distinct (ws @ us)"
  using assms by (cases q; cases l) (auto simp: queues_rep_def)

lemma queue_wait_list:
  "queues_rep q l \<Longrightarrow> t \<notin> set (fst l) \<union> set (snd l) \<Longrightarrow> queues_rep (queue_wait t q) (list_wait t l)"
  by (auto simp: queues_rep_def queue_wait_def list_wait_def PushFront_def split: prod.splits)

lemma queue_notify_list:
  assumes "queues_rep q l"
  shows "\<exists>q'. queue_notify q = Some q' \<and> queues_rep q' (list_notify l) \<and> others_kept q l q'"
  using assms
proof (rule queues_repE)
  fix nxt w u ws us
  assume q: "q = (nxt, w, u)" "l = (ws, us)" "chain nxt w ws" "chain nxt u us" "distinct (ws @ us)"
  then show ?thesis
    by (cases ws)
      (auto simp: queues_rep_def queue_notify_def list_notify_def others_kept_def Empty_def Front_def PopFront_def GetNextWait_def
        PushFront_def)
qed

lemma queue_notify_all_list:
  assumes "queues_rep q l"
  shows "\<exists>q'. queue_notify_all q = Some q' \<and> queues_rep q' (list_notify_all l) \<and> others_kept q l q'"
  using assms
proof (rule queues_repE)
  fix nxt w u ws us
  assume q: "q = (nxt, w, u)" "l = (ws, us)" "chain nxt w ws" "chain nxt u us" "distinct (ws @ us)"
  have "set us \<inter> set ws = {}" using q by auto
  then obtain n' h' where "Splice nxt u w = Some (n', h', None)" "chain n' h' (us @ ws)" "\<forall>t. t \<notin> set us \<longrightarrow> n' t = nxt t"
    using splice_chain[of nxt u us w ws] q by blast
  then show ?thesis using q
    by (cases us; cases ws)
      (auto simp: queues_rep_def queue_notify_all_def list_notify_all_def others_kept_def Empty_def Swap_def Clear_def)
qed

lemma queue_wakeup_list:
  assumes "queues_rep q l"
  shows "\<exists>q'. queue_wakeup q = Some (fst (list_wakeup l), q') \<and> queues_rep q' (snd (list_wakeup l)) \<and> others_kept q l q'"
  using assms
proof (rule queues_repE)
  fix nxt w u ws us
  assume q: "q = (nxt, w, u)" "l = (ws, us)" "chain nxt w ws" "chain nxt u us" "distinct (ws @ us)"
  then show ?thesis
    by (cases us)
      (auto simp: queues_rep_def queue_wakeup_def list_wakeup_def others_kept_def Empty_def Front_def PopFront_def GetNextWait_def)
qed

lemma filter_removeAll: "filter (\<lambda>x. x \<noteq> t) xs = removeAll t xs"
  by (simp add: removeAll_filter_not_eq eq_commute)

lemma chain_cong: "\<forall>t \<in> set ts. n' t = nxt t \<Longrightarrow> chain n' p ts = chain nxt p ts"
  by (induction ts arbitrary: p) auto

lemma queue_leave_list:
  assumes "queues_rep q l"
  shows "\<exists>q'. queue_leave t q = Some q' \<and> queues_rep q' (list_leave t l) \<and> others_kept q l q'"
  using assms
proof (rule queues_repE)
  fix nxt w u ws us
  assume q: "q = (nxt, w, u)" "l = (ws, us)" "chain nxt w ws" "chain nxt u us" "distinct (ws @ us)"
  obtain n1 w1 where r1: "RemoveIf (\<lambda>x. x = t) nxt w = Some (t \<in> set ws, n1, w1)" "chain n1 w1 (removeAll t ws)"
      "\<forall>x. x \<notin> set ws \<longrightarrow> n1 x = nxt x"
    using RemoveIf_chain[OF q(3), of "\<lambda>x. x = t"] by (auto simp: filter_removeAll)
  have u1: "chain n1 u us" using q r1(3) chain_cong[of us n1 nxt u] by auto
  obtain n2 u2 where r2: "RemoveIf (\<lambda>x. x = t) n1 u = Some (t \<in> set us, n2, u2)" "chain n2 u2 (removeAll t us)"
      "\<forall>x. x \<notin> set us \<longrightarrow> n2 x = n1 x"
    using RemoveIf_chain[OF u1, of "\<lambda>x. x = t"] by (auto simp: filter_removeAll)
  have "chain n2 w1 (removeAll t ws)" using q r1(2) r2(3) chain_cong[of "removeAll t ws" n2 n1 w1] by auto
  then show ?thesis using q r1 r2 u1
    by (auto simp: queues_rep_def queue_leave_def list_leave_def others_kept_def distinct_removeAll)
qed

text \<open>C25: The pointer operations on the two queues of a monitor do what the operations on lists do that the
  model of the monitors uses: a wait puts the thread in front of the waiting threads, a notification moves
  the front waiting thread, or all of them, to the threads to wake up, a release takes the front one of
  these, and a thread that leaves is removed from the list it is in. No loop over the links fails to end, no
  null pointer is read, the lists stay without repetition and the links of all other threads are kept.\<close>

theorem thread_queues_refine_lists:
  assumes "queues_rep q l"
  shows "(t \<notin> set (fst l) \<union> set (snd l) \<longrightarrow> queues_rep (queue_wait t q) (list_wait t l)) \<and>
    (\<exists>q'. queue_notify q = Some q' \<and> queues_rep q' (list_notify l) \<and> others_kept q l q') \<and>
    (\<exists>q'. queue_notify_all q = Some q' \<and> queues_rep q' (list_notify_all l) \<and> others_kept q l q') \<and>
    (\<exists>q'. queue_wakeup q = Some (fst (list_wakeup l), q') \<and> queues_rep q' (snd (list_wakeup l)) \<and> others_kept q l q') \<and>
    (\<exists>q'. queue_leave t q = Some q' \<and> queues_rep q' (list_leave t l) \<and> others_kept q l q')"
  using assms queue_wait_list queue_notify_list queue_notify_all_list queue_wakeup_list queue_leave_list by blast

definition sample_queues :: queues where
  "sample_queues = ((\<lambda>t. if t = 1 then Some 2 else if t = 3 then Some 4 else None), Some 1, Some 3)"

lemma thread_queues_refine_lists_witness:
  "queues_rep sample_queues ([1, 2], [3, 4]) \<and> queues_rep (queue_wait 5 sample_queues) ([5, 1, 2], [3, 4]) \<and>
   (\<exists>q'. queue_notify_all sample_queues = Some q' \<and> queues_rep q' ([], [3, 4, 1, 2])) \<and>
   (\<exists>q'. queue_leave 4 sample_queues = Some q' \<and> queues_rep q' ([1, 2], [3]))"
proof -
  have r: "queues_rep sample_queues ([1, 2], [3, 4])" by (simp add: queues_rep_def sample_queues_def)
  have a: "queues_rep (queue_wait 5 sample_queues) ([5, 1, 2], [3, 4])"
    using thread_queues_refine_lists[OF r, of 5] by (simp add: list_wait_def)
  have b: "\<exists>q'. queue_notify_all sample_queues = Some q' \<and> queues_rep q' ([], [3, 4, 1, 2])"
    using thread_queues_refine_lists[OF r, of 5] by (auto simp: list_notify_all_def)
  have c: "\<exists>q'. queue_leave 4 sample_queues = Some q' \<and> queues_rep q' ([1, 2], [3])"
    using thread_queues_refine_lists[OF r, of 4] by (auto simp: list_leave_def)
  show ?thesis using r a b c by blast
qed

end
