(* ===== verification/Monitors.thy ===== *)
theory Monitors
  imports Mark_Word Thread_List
begin

text \<open>
  Object monitors (\<^verbatim>\<open>runtime/monitor.cpp\<close>, \<^verbatim>\<open>monitor.h\<close>, \<^verbatim>\<open>monitor_pool.cpp\<close>, and the identity hash of
  \<^verbatim>\<open>object_header.cpp\<close>, which shares the mark word with them). Threads run \<^verbatim>\<open>MonitorEnter\<close>, \<^verbatim>\<open>MonitorExit\<close>,
  \<^verbatim>\<open>Wait\<close>, \<^verbatim>\<open>Notify\<close>, \<^verbatim>\<open>NotifyAll\<close> and \<^verbatim>\<open>GetHashCode\<close> concurrently. A thread's position in its call, with the
  local variables that are live there, is a program counter of type \<open>pc\<close>; a step of a thread does one access
  to the shared state (a load of the mark word, a compare-and-swap on it, an operation on a mutex, on the
  pool or on a counter) and what depends on it. Monitor fields that the monitor's own mutex protects are
  read and written in the step of the function that holds it.
\<close>

section \<open>State\<close>

type_synonym obj = nat
type_synonym mon_id = u64

datatype State = OK | INTERRUPTED | ILLEGAL

datatype MutatorStatus = CREATED | RUNNING | IS_BLOCKED | IS_WAITING | IS_TIMED_WAITING | IS_SUSPENDED | IS_COMPILER_WAITING
  | IS_WAITING_INFLATION | IS_SLEEPING | IS_TERMINATED_LOOP | NATIVE | TERMINATING | FINISHED

record Monitor =
  mobj :: obj
  owner :: "tid option"
  waiters :: "tid list"
  toWakeup :: "tid list"
  recursiveCounter :: u64
  mlock :: "tid option"
  hashCode :: u32
  waitersCounter :: u32

text \<open>The arguments and local variables of a call of \<open>MonitorEnter\<close> and of \<open>Wait\<close>.\<close>

datatype enter_call = EC (ec_obj: obj) (ec_trylock: bool) (ec_shouldInflate: bool) (ec_retryCount: u32)
datatype wait_call = WC (wc_obj: obj) (wc_status: MutatorStatus) (wc_ignoreInterruption: bool)

text \<open>The places that call \<open>InflateThinLock\<close>, \<open>Inflate\<close>, \<open>Acquire\<close> and \<open>Release\<close>, where the thread goes on
  after the call. \<open>IK_EnterMax\<close> is the call for a lightweight lock at its maximal count; \<open>IK_Thin\<close> the one that
  inflates the lock of another thread.\<close>

datatype thin_cont = TK_Enter enter_call | TK_Hash obj
datatype inflate_cont = IK_Enter enter_call | IK_EnterMax enter_call | IK_Wait wait_call | IK_Hash obj | IK_Thin thin_cont tid
datatype acquire_cont = AK_Enter enter_call | AK_Wait wait_call u64 State
datatype release_cont = RK_Exit obj | RK_Wait wait_call u64

datatype enter_pc = EnterLoop enter_call | EnterCas enter_call MarkWord MarkWord | EnterLookup enter_call mon_id

datatype inflate_pc = InflateLoad inflate_cont | InflateCreate inflate_cont MarkWord | InflateCas inflate_cont MarkWord mon_id

datatype thin_pc = ThinLoad thin_cont | ThinSuspend thin_cont tid | ThinAwait thin_cont tid | ThinRun thin_cont "tid option"
  | ThinSleep thin_cont | ThinResume thin_cont tid

datatype acquire_pc = AcqOwner acquire_cont mon_id | AcqTry acquire_cont mon_id | AcqCount acquire_cont mon_id
  | AcqLock acquire_cont mon_id | AcqSet bool acquire_cont mon_id | AcqUncount acquire_cont mon_id

datatype exit_pc = ExitLoop obj | ExitCas obj MarkWord MarkWord | ExitLookup obj mon_id

datatype release_pc = RelOwner release_cont mon_id | RelSignal release_cont mon_id tid | RelUnlock release_cont mon_id

datatype wait_pc = WaitLoop wait_call | WaitLookup wait_call mon_id | WaitOwner wait_call mon_id
  | WaitCheck wait_call mon_id u64 | WaitSafepoint wait_call mon_id u64 | WaitSleep wait_call mon_id u64
  | WaitRestore wait_call mon_id u64 State

datatype notify_pc = NotifyLoad obj bool | NotifyLookup obj bool mon_id | NotifyOwner obj bool mon_id

datatype hash_pc = HashLoop obj | HashCas obj MarkWord MarkWord | HashLookup obj mon_id | HashRead obj mon_id
  | HashStore obj mon_id u32

datatype pc = Idle | At_Enter enter_pc | At_Inflate inflate_pc | At_Thin thin_pc | At_Acquire acquire_pc | At_Exit exit_pc
  | At_Release release_pc | At_Wait wait_pc | At_Notify notify_pc | At_Hash hash_pc

datatype result = R_None | R_State State | R_Hash u32

record Thread =
  pc :: pc
  res :: result
  waitingMonitor :: "mon_id option"
  enteringMonitor :: "mon_id option"
  enterMonitorObject :: "obj option"
  monitorOldStatus :: MutatorStatus
  localObjectsLocked :: "obj list"
  monitorCount :: u32
  isInterrupted :: bool
  signalled :: bool
  suspendCount :: nat

record sys =
  marks :: "obj \<Rightarrow> MarkWord"
  pool :: "mon_id \<Rightarrow> Monitor option"
  lastId :: mon_id
  hashSeed :: u32
  thr :: "tid \<Rightarrow> Thread"

text \<open>A step goes on, is blocked until another thread changes the state, or ends the process with a message
  at level FATAL or an access through a null pointer.\<close>

datatype fault = F_OutOfMonitorIds | F_OutOfMemory | F_SetOwner | F_ReleaseNotOwner | F_WaitNotOwner | F_GcState | F_NoMonitor
  | F_HashRewrite | F_Unreachable | F_FailedInflate

datatype outcome = Go sys | Blocked | Fatal fault

definition on_thread :: "tid \<Rightarrow> (Thread \<Rightarrow> Thread) \<Rightarrow> sys \<Rightarrow> sys" where
  "on_thread t f s = s\<lparr>thr := (thr s)(t := f (thr s t))\<rparr>"

definition put_monitor :: "mon_id \<Rightarrow> Monitor \<Rightarrow> sys \<Rightarrow> sys" where
  "put_monitor mid m s = s\<lparr>pool := (pool s)(mid \<mapsto> m)\<rparr>"

definition goto :: "tid \<Rightarrow> pc \<Rightarrow> sys \<Rightarrow> sys" where "goto t p = on_thread t (pc_update (\<lambda>_. p))"

definition ret :: "tid \<Rightarrow> result \<Rightarrow> sys \<Rightarrow> sys" where
  "ret t r = on_thread t (\<lambda>th. th\<lparr>pc := Idle, res := r\<rparr>)"

definition PushLocalObjectLocked :: "tid \<Rightarrow> obj \<Rightarrow> sys \<Rightarrow> sys" where
  "PushLocalObjectLocked t obj = on_thread t (\<lambda>th. th\<lparr>localObjectsLocked := localObjectsLocked th @ [obj]\<rparr>)"

definition PopLocalObjectLocked :: "tid \<Rightarrow> obj \<Rightarrow> sys \<Rightarrow> sys" where
  "PopLocalObjectLocked t out = on_thread t (\<lambda>th.
     if localObjectsLocked th \<noteq> [] then th\<lparr>localObjectsLocked := butlast (localObjectsLocked th)\<rparr> else th)"

definition AddMonitor :: "tid \<Rightarrow> sys \<Rightarrow> sys" where
  "AddMonitor t = on_thread t (\<lambda>th. th\<lparr>monitorCount := monitorCount th + 1\<rparr>)"

definition RemoveMonitor :: "tid \<Rightarrow> sys \<Rightarrow> sys" where
  "RemoveMonitor t = on_thread t (\<lambda>th. th\<lparr>monitorCount := monitorCount th - 1\<rparr>)"

definition AtomicSetMark :: "obj \<Rightarrow> MarkWord \<Rightarrow> MarkWord \<Rightarrow> sys \<Rightarrow> sys option" where
  "AtomicSetMark obj old new s = (if marks s obj = old then Some (s\<lparr>marks := (marks s)(obj := new)\<rparr>) else None)"

section \<open>The pool\<close>

definition MAX_MONITOR_ID :: mon_id where "MAX_MONITOR_ID = ucast MONITOR_POINTER_MAX_COUNT"

function CreateMonitor_loop :: "u64 \<Rightarrow> mon_id \<Rightarrow> (mon_id \<Rightarrow> Monitor option) \<Rightarrow> mon_id option" where
  "CreateMonitor_loop i prevId monitors =
     (if i < MAX_MONITOR_ID
      then let nextId = (prevId + 1) mod MAX_MONITOR_ID
           in if monitors nextId = None then Some nextId else CreateMonitor_loop (i + 1) nextId monitors
      else None)"
  by auto
termination
proof (relation "measure (\<lambda>(i, _). unat MAX_MONITOR_ID - unat i)")
  fix i :: u64 and prevId nextId :: mon_id and monitors :: "mon_id \<Rightarrow> Monitor option"
  assume "i < MAX_MONITOR_ID"
  then have i: "unat i < unat MAX_MONITOR_ID" by (rule unat_mono)
  have "unat (i + 1) = unat i + 1" using i unsigned_less[of MAX_MONITOR_ID, where 'a = nat] by (simp add: unat_word_ariths)
  then show "((i + 1, nextId, monitors), (i, prevId, monitors)) \<in> measure (\<lambda>(i, _). unat MAX_MONITOR_ID - unat i)"
    using i by simp
qed simp

declare CreateMonitor_loop.simps [simp del]

definition new_monitor :: "obj \<Rightarrow> Monitor" where
  "new_monitor obj = \<lparr>mobj = obj, owner = None, waiters = [], toWakeup = [], recursiveCounter = 0, mlock = None, hashCode = 0,
     waitersCounter = 0\<rparr>"

definition LookupMonitor :: "mon_id \<Rightarrow> sys \<Rightarrow> Monitor option" where "LookupMonitor mid s = pool s mid"

definition FreeMonitor :: "mon_id \<Rightarrow> sys \<Rightarrow> sys" where "FreeMonitor mid s = s\<lparr>pool := (pool s)(mid := None)\<rparr>"

section \<open>Entering\<close>

definition MAX_TRYLOCK_RETRY :: u32 where "MAX_TRYLOCK_RETRY = 100"

definition HandleLightLockedState :: "tid \<Rightarrow> enter_call \<Rightarrow> MarkWord \<Rightarrow> sys \<Rightarrow> sys" where
  "HandleLightLockedState t c mark s =
     (if GetThreadId mark = t
      then let newCount = GetLockCount mark + 1
           in if newCount < LIGHT_LOCK_LOCK_MAX_COUNT
              then goto t (At_Enter (EnterCas c mark (DecodeFromLightLock t newCount mark))) s
              else goto t (At_Inflate (InflateLoad (IK_EnterMax c))) s
      else if ec_trylock c then ret t (R_State ILLEGAL) s
      else let c' = EC (ec_obj c) (ec_trylock c) (ec_shouldInflate c) (ec_retryCount c + 1)
           in if ec_retryCount c' < MAX_TRYLOCK_RETRY then goto t (At_Enter (EnterLoop c')) s
              else goto t (At_Thin (ThinLoad (TK_Enter c')))
                (on_thread t (\<lambda>th. th\<lparr>enterMonitorObject := Some (ec_obj c), monitorOldStatus := IS_WAITING_INFLATION\<rparr>) s))"

definition HandleUnlockedState :: "tid \<Rightarrow> enter_call \<Rightarrow> MarkWord \<Rightarrow> sys \<Rightarrow> sys" where
  "HandleUnlockedState t c mark s =
     (if ec_shouldInflate c then goto t (At_Inflate (InflateLoad (IK_Enter c))) s
      else goto t (At_Enter (EnterCas c mark (DecodeFromLightLock t 1 mark))) s)"

definition MonitorEnter_loop :: "tid \<Rightarrow> enter_call \<Rightarrow> sys \<Rightarrow> outcome" where
  "MonitorEnter_loop t c s =
     (let mark = marks s (ec_obj c)
      in case GetState mark of
           STATE_HEAVY_LOCKED \<Rightarrow> Go (goto t (At_Enter (EnterLookup c (GetMonitorId mark))) s)
         | STATE_LIGHT_LOCKED \<Rightarrow> Go (HandleLightLockedState t c mark s)
         | STATE_HASHED \<Rightarrow> Go (goto t (At_Inflate (InflateLoad (IK_Enter c))) s)
         | STATE_UNLOCKED \<Rightarrow> Go (HandleUnlockedState t c mark s)
         | STATE_GC \<Rightarrow> Fatal F_GcState)"

text \<open>The end of \<open>HandleLightLockedState\<close> and \<open>HandleUnlockedState\<close>: the compare-and-swap.\<close>

definition enter_retry :: "tid \<Rightarrow> enter_call \<Rightarrow> sys \<Rightarrow> sys" where
  "enter_retry t c s = (if ec_trylock c then ret t (R_State ILLEGAL) s else goto t (At_Enter (EnterLoop c)) s)"

definition MonitorEnter_cas :: "tid \<Rightarrow> enter_call \<Rightarrow> MarkWord \<Rightarrow> MarkWord \<Rightarrow> sys \<Rightarrow> outcome" where
  "MonitorEnter_cas t c mark newMark s =
     (case AtomicSetMark (ec_obj c) mark newMark s of
        Some s' \<Rightarrow> Go (ret t (R_State OK) (PushLocalObjectLocked t (ec_obj c) s'))
      | None \<Rightarrow> Go (enter_retry t c s))"

definition HandleHeavyLockedState :: "tid \<Rightarrow> enter_call \<Rightarrow> mon_id \<Rightarrow> sys \<Rightarrow> outcome" where
  "HandleHeavyLockedState t c mid s =
     (case LookupMonitor mid s of
        None \<Rightarrow> Go (ret t (R_State ILLEGAL) s)
      | Some _ \<Rightarrow> Go (goto t (At_Acquire (AcqOwner (AK_Enter c) mid)) s))"

section \<open>Inflation\<close>

fun thin_obj :: "thin_cont \<Rightarrow> obj" where
  "thin_obj (TK_Enter c) = ec_obj c"
| "thin_obj (TK_Hash obj) = obj"

fun inflate_obj :: "inflate_cont \<Rightarrow> obj" where
  "inflate_obj (IK_Enter c) = ec_obj c"
| "inflate_obj (IK_EnterMax c) = ec_obj c"
| "inflate_obj (IK_Wait w) = wc_obj w"
| "inflate_obj (IK_Hash obj) = obj"
| "inflate_obj (IK_Thin tk _) = thin_obj tk"

text \<open>The parameter \<open>thread\<close> of \<open>Inflate\<close>, and the template parameter \<open>FOR_OTHER_THREAD\<close>.\<close>

fun inflate_thread :: "tid \<Rightarrow> inflate_cont \<Rightarrow> tid" where
  "inflate_thread t (IK_Thin _ own) = own"
| "inflate_thread t ik = t"

fun FOR_OTHER_THREAD :: "inflate_cont \<Rightarrow> bool" where
  "FOR_OTHER_THREAD (IK_Thin _ _) = True"
| "FOR_OTHER_THREAD ik = False"

fun inflate_return :: "tid \<Rightarrow> inflate_cont \<Rightarrow> bool \<Rightarrow> sys \<Rightarrow> sys" where
  "inflate_return t (IK_Enter c) b s =
     (if b then ret t (R_State OK) (PushLocalObjectLocked t (ec_obj c) s) else enter_retry t c s)"
| "inflate_return t (IK_EnterMax c) b s = enter_retry t c s"
| "inflate_return t (IK_Wait w) b s = goto t (At_Wait (WaitLoop w)) s"
| "inflate_return t (IK_Hash obj) b s = goto t (At_Hash (HashLoop obj)) s"
| "inflate_return t (IK_Thin tk own) b s = goto t (At_Thin (ThinResume tk own)) s"

definition SetOwner :: "tid option \<Rightarrow> tid option \<Rightarrow> Monitor \<Rightarrow> Monitor option" where
  "SetOwner expected thread m = (if owner m = expected then Some (m\<lparr>owner := thread\<rparr>) else None)"

definition InitWithOwner :: "tid \<Rightarrow> Monitor \<Rightarrow> Monitor option" where
  "InitWithOwner thread m =
     map_option (\<lambda>m'. m'\<lparr>recursiveCounter := recursiveCounter m' + 1\<rparr>) (SetOwner None (Some thread) (m\<lparr>mlock := Some thread\<rparr>))"

definition ReleaseOnFailedInflate :: "tid \<Rightarrow> Monitor \<Rightarrow> Monitor option" where
  "ReleaseOnFailedInflate thread m =
     (if owner m \<noteq> Some thread then None
      else map_option (\<lambda>m'. m'\<lparr>mlock := None\<rparr>)
        (SetOwner (Some thread) None (m\<lparr>recursiveCounter := recursiveCounter m - 1\<rparr>)))"

definition SetHashCode :: "u32 \<Rightarrow> Monitor \<Rightarrow> Monitor option" where
  "SetHashCode hash m = (if hashCode m = 0 then Some (m\<lparr>hashCode := hash\<rparr>) else None)"

definition Inflate_load :: "tid \<Rightarrow> inflate_cont \<Rightarrow> sys \<Rightarrow> outcome" where
  "Inflate_load t ik s =
     (let oldMark = marks s (inflate_obj ik)
      in if GetState oldMark = STATE_HEAVY_LOCKED then Go (inflate_return t ik False s)
         else if FOR_OTHER_THREAD ik \<and>
           (GetState oldMark \<noteq> STATE_LIGHT_LOCKED \<or> GetThreadId oldMark \<noteq> inflate_thread t ik)
         then Go (inflate_return t ik False s)
         else Go (goto t (At_Inflate (InflateCreate ik oldMark)) s))"

text \<open>\<open>CreateMonitor\<close>, \<open>InitWithOwner\<close> and the switch over the state: all on the new monitor, which no other
  thread can reach yet. \<open>nomem\<close> says that the allocator has no memory.\<close>

definition Inflate_init :: "tid \<Rightarrow> inflate_cont \<Rightarrow> MarkWord \<Rightarrow> mon_id \<Rightarrow> Monitor \<Rightarrow> sys \<Rightarrow> outcome" where
  "Inflate_init t ik oldMark mid m s =
     (case GetState oldMark of
        STATE_LIGHT_LOCKED \<Rightarrow>
          if GetThreadId oldMark \<noteq> inflate_thread t ik
          then (case ReleaseOnFailedInflate (inflate_thread t ik) m of
                  None \<Rightarrow> Fatal F_FailedInflate
                | Some _ \<Rightarrow> Go (inflate_return t ik False (FreeMonitor mid s)))
          else Go (goto t (At_Inflate (InflateCas ik oldMark mid)) (put_monitor mid (m\<lparr>recursiveCounter := ucast (GetLockCount oldMark)\<rparr>) s))
      | STATE_HASHED \<Rightarrow>
          (case SetHashCode (GetHash oldMark) m of
             None \<Rightarrow> Fatal F_HashRewrite
           | Some m' \<Rightarrow> if FOR_OTHER_THREAD ik then Fatal F_Unreachable
               else Go (goto t (At_Inflate (InflateCas ik oldMark mid)) (put_monitor mid m' s)))
      | STATE_UNLOCKED \<Rightarrow> if FOR_OTHER_THREAD ik then Fatal F_Unreachable
          else Go (goto t (At_Inflate (InflateCas ik oldMark mid)) (put_monitor mid m s))
      | STATE_HEAVY_LOCKED \<Rightarrow> Fatal F_Unreachable
      | STATE_GC \<Rightarrow> Fatal F_GcState)"

definition Inflate_create :: "bool \<Rightarrow> tid \<Rightarrow> inflate_cont \<Rightarrow> MarkWord \<Rightarrow> sys \<Rightarrow> outcome" where
  "Inflate_create nomem t ik oldMark s =
     (case CreateMonitor_loop 0 (lastId s) (pool s) of
        None \<Rightarrow> Fatal F_OutOfMonitorIds
      | Some mid \<Rightarrow>
          if nomem then Fatal F_OutOfMemory
          else (case InitWithOwner (inflate_thread t ik) (new_monitor (inflate_obj ik)) of
                  None \<Rightarrow> Fatal F_SetOwner
                | Some m \<Rightarrow> Inflate_init t ik oldMark mid m (put_monitor mid m (s\<lparr>lastId := mid\<rparr>))))"

definition TryAddMonitor :: "tid \<Rightarrow> inflate_cont \<Rightarrow> MarkWord \<Rightarrow> mon_id \<Rightarrow> sys \<Rightarrow> outcome" where
  "TryAddMonitor t ik oldMark mid s =
     (case AtomicSetMark (inflate_obj ik) oldMark (DecodeFromMonitor mid oldMark) s of
        Some s' \<Rightarrow> Go (inflate_return t ik True (AddMonitor (inflate_thread t ik) s'))
      | None \<Rightarrow>
          (case pool s mid of
             None \<Rightarrow> Fatal F_NoMonitor
           | Some m \<Rightarrow>
               (case ReleaseOnFailedInflate (inflate_thread t ik) (m\<lparr>recursiveCounter := 1\<rparr>) of
                  None \<Rightarrow> Fatal F_FailedInflate
                | Some _ \<Rightarrow> Go (inflate_return t ik False (FreeMonitor mid s)))))"

text \<open>\<open>InflateThinLock\<close>. With futexes (\<open>futex\<close>) the owner of the lightweight lock is suspended and its lock
  inflated for it; otherwise the thread sleeps and tries again. A thread that is suspended stops when it
  returns to managed code: \<open>stopped\<close> are the places where it is not running.\<close>

fun stopped :: "pc \<Rightarrow> bool" where
  "stopped Idle = True"
| "stopped (At_Thin (ThinSuspend _ _)) = True"
| "stopped (At_Thin (ThinAwait _ _)) = True"
| "stopped (At_Thin (ThinRun _ _)) = True"
| "stopped (At_Thin (ThinSleep _)) = True"
| "stopped (At_Acquire (AcqLock _ _)) = True"
| "stopped (At_Acquire (AcqSet slow _ _)) = slow"
| "stopped (At_Acquire (AcqUncount _ _)) = True"
| "stopped (At_Wait (WaitSafepoint _ _ _)) = True"
| "stopped (At_Wait (WaitSleep _ _ _)) = True"
| "stopped _ = False"

definition thin_return :: "bool \<Rightarrow> tid \<Rightarrow> thin_cont \<Rightarrow> sys \<Rightarrow> sys" where
  "thin_return futex t tk s =
     (case tk of
        TK_Enter c \<Rightarrow> goto t (At_Enter (EnterLoop (if futex then EC (ec_obj c) (ec_trylock c) (ec_shouldInflate c) 0
                                       else EC (ec_obj c) (ec_trylock c) True (ec_retryCount c)))) s
      | TK_Hash obj \<Rightarrow> goto t (At_Hash (HashLoop obj)) s)"

definition leave_inflation_wait :: "tid \<Rightarrow> sys \<Rightarrow> sys" where
  "leave_inflation_wait t = on_thread t (\<lambda>th. th\<lparr>enterMonitorObject := None, monitorOldStatus := FINISHED\<rparr>)"

definition InflateThinLock_load :: "bool \<Rightarrow> tid \<Rightarrow> thin_cont \<Rightarrow> sys \<Rightarrow> outcome" where
  "InflateThinLock_load futex t tk s =
     (if futex then Go (goto t (At_Thin (ThinSuspend tk (GetThreadId (marks s (thin_obj tk))))) s) else Go (goto t (At_Thin (ThinSleep tk)) s))"

definition SuspendAndWaitThreadByInternalThreadId :: "bool \<Rightarrow> tid \<Rightarrow> thin_cont \<Rightarrow> tid \<Rightarrow> sys \<Rightarrow> outcome" where
  "SuspendAndWaitThreadByInternalThreadId gone t tk threadId s =
     (if suspendCount (thr s t) > 0 then Blocked
      else if gone then Go (goto t (At_Thin (ThinRun tk None)) s)
      else Go (goto t (At_Thin (ThinAwait tk threadId)) (on_thread threadId (\<lambda>th. th\<lparr>suspendCount := suspendCount th + 1\<rparr>) s)))"

definition SuspendAndWait_await :: "tid \<Rightarrow> thin_cont \<Rightarrow> tid \<Rightarrow> sys \<Rightarrow> outcome" where
  "SuspendAndWait_await t tk suspended s =
     (if stopped (pc (thr s suspended)) then Go (goto t (At_Thin (ThinRun tk (Some suspended))) s) else Blocked)"

definition InflateThinLock_run :: "bool \<Rightarrow> tid \<Rightarrow> thin_cont \<Rightarrow> tid option \<Rightarrow> sys \<Rightarrow> outcome" where
  "InflateThinLock_run futex t tk own s =
     (if suspendCount (thr s t) > 0 then Blocked
      else let s' = leave_inflation_wait t s
           in case own of None \<Rightarrow> Go (thin_return futex t tk s')
              | Some o' \<Rightarrow> Go (goto t (At_Inflate (InflateLoad (IK_Thin tk o'))) s'))"

definition InflateThinLock_sleep :: "bool \<Rightarrow> tid \<Rightarrow> thin_cont \<Rightarrow> sys \<Rightarrow> outcome" where
  "InflateThinLock_sleep futex t tk s =
     (if suspendCount (thr s t) > 0 then Blocked else Go (thin_return futex t tk (leave_inflation_wait t s)))"

definition InflateThinLock_resume :: "bool \<Rightarrow> tid \<Rightarrow> thin_cont \<Rightarrow> tid \<Rightarrow> sys \<Rightarrow> outcome" where
  "InflateThinLock_resume futex t tk own s =
     Go (thin_return futex t tk (on_thread own (\<lambda>th. th\<lparr>suspendCount := suspendCount th - 1\<rparr>) s))"

section \<open>Acquiring and releasing a monitor\<close>

fun acquire_return :: "tid \<Rightarrow> acquire_cont \<Rightarrow> mon_id \<Rightarrow> bool \<Rightarrow> sys \<Rightarrow> sys" where
  "acquire_return t (AK_Enter c) mid b s =
     (if b then ret t (R_State OK) (PushLocalObjectLocked t (ec_obj c) s) else ret t (R_State ILLEGAL) s)"
| "acquire_return t (AK_Wait w counter resultState) mid b s = goto t (At_Wait (WaitRestore w mid counter resultState)) s"

fun acquire_trylock :: "acquire_cont \<Rightarrow> bool" where
  "acquire_trylock (AK_Enter c) = ec_trylock c"
| "acquire_trylock (AK_Wait _ _ _) = False"

fun acquire_obj :: "acquire_cont \<Rightarrow> obj" where
  "acquire_obj (AK_Enter c) = ec_obj c"
| "acquire_obj (AK_Wait w _ _) = wc_obj w"

definition Acquire_owner :: "tid \<Rightarrow> acquire_cont \<Rightarrow> mon_id \<Rightarrow> sys \<Rightarrow> outcome" where
  "Acquire_owner t ak mid s =
     (case pool s mid of None \<Rightarrow> Fatal F_NoMonitor
      | Some m \<Rightarrow>
          if owner m = Some t
          then Go (acquire_return t ak mid True (put_monitor mid (m\<lparr>recursiveCounter := recursiveCounter m + 1\<rparr>) s))
          else Go (goto t (At_Acquire (AcqTry ak mid)) s))"

definition Acquire_trylock :: "tid \<Rightarrow> acquire_cont \<Rightarrow> mon_id \<Rightarrow> sys \<Rightarrow> outcome" where
  "Acquire_trylock t ak mid s =
     (case pool s mid of None \<Rightarrow> Fatal F_NoMonitor
      | Some m \<Rightarrow>
          if mlock m = None then Go (goto t (At_Acquire (AcqSet False ak mid)) (put_monitor mid (m\<lparr>mlock := Some t\<rparr>) s))
          else if acquire_trylock ak then Go (acquire_return t ak mid False s)
          else Go (goto t (At_Acquire (AcqCount ak mid)) s))"

definition Acquire_count :: "tid \<Rightarrow> acquire_cont \<Rightarrow> mon_id \<Rightarrow> sys \<Rightarrow> outcome" where
  "Acquire_count t ak mid s =
     (case pool s mid of None \<Rightarrow> Fatal F_NoMonitor
      | Some m \<Rightarrow> Go (goto t (At_Acquire (AcqLock ak mid))
          (on_thread t (\<lambda>th. th\<lparr>enterMonitorObject := Some (acquire_obj ak), monitorOldStatus := IS_BLOCKED,
              enteringMonitor := Some mid\<rparr>)
            (put_monitor mid (m\<lparr>waitersCounter := waitersCounter m + 1\<rparr>) s))))"

definition Acquire_lock :: "tid \<Rightarrow> acquire_cont \<Rightarrow> mon_id \<Rightarrow> sys \<Rightarrow> outcome" where
  "Acquire_lock t ak mid s =
     (case pool s mid of None \<Rightarrow> Fatal F_NoMonitor
      | Some m \<Rightarrow>
          if mlock m = None
          then Go (goto t (At_Acquire (AcqSet True ak mid))
            (on_thread t (\<lambda>th. th\<lparr>enteringMonitor := None\<rparr>) (put_monitor mid (m\<lparr>mlock := Some t\<rparr>) s)))
          else Blocked)"

definition Acquire_set :: "tid \<Rightarrow> bool \<Rightarrow> acquire_cont \<Rightarrow> mon_id \<Rightarrow> sys \<Rightarrow> outcome" where
  "Acquire_set t slow ak mid s =
     (case pool s mid of None \<Rightarrow> Fatal F_NoMonitor
      | Some m \<Rightarrow>
          (case SetOwner None (Some t) m of None \<Rightarrow> Fatal F_SetOwner
           | Some m' \<Rightarrow>
               let s' = AddMonitor t (put_monitor mid (m'\<lparr>recursiveCounter := recursiveCounter m' + 1\<rparr>) s)
               in if slow then Go (goto t (At_Acquire (AcqUncount ak mid)) s') else Go (acquire_return t ak mid True s')))"

definition Acquire_uncount :: "tid \<Rightarrow> acquire_cont \<Rightarrow> mon_id \<Rightarrow> sys \<Rightarrow> outcome" where
  "Acquire_uncount t ak mid s =
     (if suspendCount (thr s t) > 0 then Blocked
      else (case pool s mid of None \<Rightarrow> Fatal F_NoMonitor
            | Some m \<Rightarrow> Go (acquire_return t ak mid True
                (on_thread t (\<lambda>th. th\<lparr>enterMonitorObject := None, monitorOldStatus := FINISHED\<rparr>)
                  (put_monitor mid (m\<lparr>waitersCounter := waitersCounter m - 1\<rparr>) s)))))"

fun release_return :: "tid \<Rightarrow> release_cont \<Rightarrow> mon_id \<Rightarrow> sys \<Rightarrow> sys" where
  "release_return t (RK_Exit obj) mid s = ret t (R_State OK) (PopLocalObjectLocked t obj s)"
| "release_return t (RK_Wait w counter) mid s = goto t (At_Wait (WaitCheck w mid counter)) s"

definition Release_owner :: "tid \<Rightarrow> release_cont \<Rightarrow> mon_id \<Rightarrow> sys \<Rightarrow> outcome" where
  "Release_owner t rk mid s =
     (case pool s mid of None \<Rightarrow> Fatal F_NoMonitor
      | Some m \<Rightarrow>
          if owner m \<noteq> Some t then Fatal F_ReleaseNotOwner
          else let m1 = m\<lparr>recursiveCounter := recursiveCounter m - 1\<rparr>
            in if recursiveCounter m1 = 0
               then (case SetOwner (Some t) None m1 of None \<Rightarrow> Fatal F_SetOwner
                     | Some m2 \<Rightarrow>
                         (case list_wakeup (waiters m2, toWakeup m2) of (waiter, ws, us) \<Rightarrow>
                            let s' = RemoveMonitor t (put_monitor mid (m2\<lparr>waiters := ws, toWakeup := us\<rparr>) s)
                            in (case waiter of None \<Rightarrow> Go (goto t (At_Release (RelUnlock rk mid)) s')
                                | Some w \<Rightarrow>
                                    if waitingMonitor (thr s w) = Some mid then Go (goto t (At_Release (RelSignal rk mid w)) s')
                                    else Go (goto t (At_Release (RelUnlock rk mid)) s'))))
               else Go (release_return t rk mid (put_monitor mid m1 s)))"

text \<open>A thread holds its own waiting mutex from the start of \<open>Wait\<close> until it sleeps on its condition variable;
  a signal waits for the mutex and wakes the thread if it sleeps.\<close>

fun holds_waiting_mutex :: "pc \<Rightarrow> bool" where
  "holds_waiting_mutex (At_Release (RelOwner (RK_Wait _ _) _)) = True"
| "holds_waiting_mutex (At_Release (RelSignal (RK_Wait _ _) _ _)) = True"
| "holds_waiting_mutex (At_Release (RelUnlock (RK_Wait _ _) _)) = True"
| "holds_waiting_mutex (At_Wait (WaitCheck _ _ _)) = True"
| "holds_waiting_mutex _ = False"

fun sleeping :: "pc \<Rightarrow> bool" where
  "sleeping (At_Wait (WaitSleep _ _ _)) = True"
| "sleeping _ = False"

definition SignalThread :: "tid \<Rightarrow> sys \<Rightarrow> sys" where
  "SignalThread w = on_thread w (\<lambda>th. if sleeping (pc th) then th\<lparr>signalled := True\<rparr> else th)"

definition Release_signal :: "tid \<Rightarrow> release_cont \<Rightarrow> mon_id \<Rightarrow> tid \<Rightarrow> sys \<Rightarrow> outcome" where
  "Release_signal t rk mid w s =
     (if holds_waiting_mutex (pc (thr s w)) then Blocked else Go (goto t (At_Release (RelUnlock rk mid)) (SignalThread w s)))"

definition Release_unlock :: "tid \<Rightarrow> release_cont \<Rightarrow> mon_id \<Rightarrow> sys \<Rightarrow> outcome" where
  "Release_unlock t rk mid s =
     (case pool s mid of None \<Rightarrow> Fatal F_NoMonitor
      | Some m \<Rightarrow> Go (release_return t rk mid (put_monitor mid (m\<lparr>mlock := None\<rparr>) s)))"

section \<open>Exiting\<close>

definition MonitorExit_loop :: "tid \<Rightarrow> obj \<Rightarrow> sys \<Rightarrow> outcome" where
  "MonitorExit_loop t obj s =
     (let mark = marks s obj
      in case GetState mark of
           STATE_HEAVY_LOCKED \<Rightarrow> Go (goto t (At_Exit (ExitLookup obj (GetMonitorId mark))) s)
         | STATE_LIGHT_LOCKED \<Rightarrow>
             if GetThreadId mark \<noteq> t then Go (ret t (R_State ILLEGAL) s)
             else let newCount = GetLockCount mark - 1;
                      newMark = (if newCount \<noteq> 0 then DecodeFromLightLock t newCount mark else DecodeFromUnlocked mark)
                  in Go (goto t (At_Exit (ExitCas obj mark newMark)) s)
         | STATE_HASHED \<Rightarrow> Go (ret t (R_State ILLEGAL) s)
         | STATE_UNLOCKED \<Rightarrow> Go (ret t (R_State ILLEGAL) s)
         | STATE_GC \<Rightarrow> Fatal F_GcState)"

definition MonitorExit_cas :: "tid \<Rightarrow> obj \<Rightarrow> MarkWord \<Rightarrow> MarkWord \<Rightarrow> sys \<Rightarrow> outcome" where
  "MonitorExit_cas t obj mark newMark s =
     (case AtomicSetMark obj mark newMark s of
        Some s' \<Rightarrow> Go (ret t (R_State OK) (PopLocalObjectLocked t obj s'))
      | None \<Rightarrow> Go (goto t (At_Exit (ExitLoop obj)) s))"

definition MonitorExit_heavy :: "tid \<Rightarrow> obj \<Rightarrow> mon_id \<Rightarrow> sys \<Rightarrow> outcome" where
  "MonitorExit_heavy t obj mid s =
     (case LookupMonitor mid s of None \<Rightarrow> Fatal F_NoMonitor
      | Some _ \<Rightarrow> Go (goto t (At_Release (RelOwner (RK_Exit obj) mid)) s))"

section \<open>Waiting and notifying\<close>

definition Wait_loop :: "tid \<Rightarrow> wait_call \<Rightarrow> sys \<Rightarrow> outcome" where
  "Wait_loop t w s =
     (let mark = marks s (wc_obj w)
      in case GetState mark of
           STATE_HEAVY_LOCKED \<Rightarrow> Go (goto t (At_Wait (WaitLookup w (GetMonitorId mark))) s)
         | STATE_LIGHT_LOCKED \<Rightarrow>
             if GetThreadId mark \<noteq> t then Fatal F_WaitNotOwner else Go (goto t (At_Inflate (InflateLoad (IK_Wait w))) s)
         | STATE_UNLOCKED \<Rightarrow> Go (ret t (R_State ILLEGAL) s)
         | STATE_HASHED \<Rightarrow> Go (ret t (R_State ILLEGAL) s)
         | STATE_GC \<Rightarrow> Go (ret t (R_State ILLEGAL) s))"

definition Wait_lookup :: "tid \<Rightarrow> wait_call \<Rightarrow> mon_id \<Rightarrow> sys \<Rightarrow> outcome" where
  "Wait_lookup t w mid s =
     (case LookupMonitor mid s of None \<Rightarrow> Fatal F_NoMonitor | Some _ \<Rightarrow> Go (goto t (At_Wait (WaitOwner w mid)) s))"

definition Wait_enqueue :: "tid \<Rightarrow> wait_call \<Rightarrow> mon_id \<Rightarrow> sys \<Rightarrow> outcome" where
  "Wait_enqueue t w mid s =
     (case pool s mid of None \<Rightarrow> Fatal F_NoMonitor
      | Some m \<Rightarrow>
          if owner m \<noteq> Some t then Go (ret t (R_State ILLEGAL) s)
          else let counter = recursiveCounter m; ls = list_wait t (waiters m, toWakeup m);
                   m' = m\<lparr>waiters := fst ls, toWakeup := snd ls, recursiveCounter := 1, waitersCounter := waitersCounter m + 1\<rparr>
               in Go (goto t (At_Release (RelOwner (RK_Wait w counter) mid))
                    (on_thread t (\<lambda>th. th\<lparr>waitingMonitor := Some mid, monitorOldStatus := wc_status w\<rparr>) (put_monitor mid m' s))))"

definition Wait_check :: "tid \<Rightarrow> wait_call \<Rightarrow> mon_id \<Rightarrow> u64 \<Rightarrow> sys \<Rightarrow> outcome" where
  "Wait_check t w mid counter s =
     (if isInterrupted (thr s t) \<and> \<not> wc_ignoreInterruption w then Go (goto t (At_Wait (WaitSafepoint w mid counter)) s)
      else Go (goto t (At_Wait (WaitSleep w mid counter)) s))"

definition Wait_safepoint :: "tid \<Rightarrow> wait_call \<Rightarrow> mon_id \<Rightarrow> u64 \<Rightarrow> sys \<Rightarrow> outcome" where
  "Wait_safepoint t w mid counter s =
     (if suspendCount (thr s t) > 0 then Blocked else Go (goto t (At_Acquire (AcqOwner (AK_Wait w counter INTERRUPTED) mid)) s))"

text \<open>\<open>wakes\<close>: the wait is over without a signal, by its timeout or spuriously.\<close>

definition DoWaitInternal :: "bool \<Rightarrow> tid \<Rightarrow> wait_call \<Rightarrow> mon_id \<Rightarrow> u64 \<Rightarrow> sys \<Rightarrow> outcome" where
  "DoWaitInternal wakes t w mid counter s =
     (if suspendCount (thr s t) > 0 \<or> \<not> (signalled (thr s t) \<or> wakes) then Blocked
      else Go (goto t (At_Acquire (AcqOwner (AK_Wait w counter OK) mid)) (on_thread t (\<lambda>th. th\<lparr>signalled := False\<rparr>) s)))"

definition Wait_restore :: "tid \<Rightarrow> wait_call \<Rightarrow> mon_id \<Rightarrow> u64 \<Rightarrow> State \<Rightarrow> sys \<Rightarrow> outcome" where
  "Wait_restore t w mid counter resultState s =
     (case pool s mid of None \<Rightarrow> Fatal F_NoMonitor
      | Some m \<Rightarrow>
          let ls = list_leave t (waiters m, toWakeup m);
              m' = m\<lparr>waitersCounter := waitersCounter m - 1, recursiveCounter := counter, waiters := fst ls, toWakeup := snd ls\<rparr>;
              r = (if isInterrupted (thr s t) then INTERRUPTED else resultState)
          in Go (ret t (R_State r)
               (on_thread t (\<lambda>th. th\<lparr>waitingMonitor := None, monitorOldStatus := FINISHED\<rparr>) (put_monitor mid m' s))))"

definition Notify_load :: "tid \<Rightarrow> obj \<Rightarrow> bool \<Rightarrow> sys \<Rightarrow> outcome" where
  "Notify_load t obj notifyAll s =
     (let mark = marks s obj
      in case GetState mark of
           STATE_HEAVY_LOCKED \<Rightarrow> Go (goto t (At_Notify (NotifyLookup obj notifyAll (GetMonitorId mark))) s)
         | STATE_LIGHT_LOCKED \<Rightarrow>
             if GetThreadId mark \<noteq> t then Go (ret t (R_State ILLEGAL) s) else Go (ret t (R_State OK) s)
         | STATE_UNLOCKED \<Rightarrow> Go (ret t (R_State ILLEGAL) s)
         | STATE_HASHED \<Rightarrow> Go (ret t (R_State ILLEGAL) s)
         | STATE_GC \<Rightarrow> Go (ret t (R_State ILLEGAL) s))"

definition Notify_lookup :: "tid \<Rightarrow> obj \<Rightarrow> bool \<Rightarrow> mon_id \<Rightarrow> sys \<Rightarrow> outcome" where
  "Notify_lookup t obj notifyAll mid s =
     (case LookupMonitor mid s of None \<Rightarrow> Fatal F_NoMonitor | Some _ \<Rightarrow> Go (goto t (At_Notify (NotifyOwner obj notifyAll mid)) s))"

definition Notify_queues :: "bool \<Rightarrow> lists \<Rightarrow> lists" where
  "Notify_queues notifyAll ls = (if notifyAll then list_notify_all ls else list_notify ls)"

definition Notify_owner :: "tid \<Rightarrow> bool \<Rightarrow> mon_id \<Rightarrow> sys \<Rightarrow> outcome" where
  "Notify_owner t notifyAll mid s =
     (case pool s mid of None \<Rightarrow> Fatal F_NoMonitor
      | Some m \<Rightarrow>
          if owner m \<noteq> Some t then Go (ret t (R_State ILLEGAL) s)
          else let ls = Notify_queues notifyAll (waiters m, toWakeup m)
               in Go (ret t (R_State OK) (put_monitor mid (m\<lparr>waiters := fst ls, toWakeup := snd ls\<rparr>) s)))"

section \<open>Hash codes\<close>

definition GetHashCode_loop :: "tid \<Rightarrow> obj \<Rightarrow> sys \<Rightarrow> outcome" where
  "GetHashCode_loop t obj s =
     (let mark = marks s obj
      in case GetState mark of
           STATE_UNLOCKED \<Rightarrow>
             (case GenerateHashCode (hashSeed s) of (hash, seed) \<Rightarrow>
                Go (goto t (At_Hash (HashCas obj mark (DecodeFromHash hash mark))) (s\<lparr>hashSeed := seed\<rparr>)))
         | STATE_LIGHT_LOCKED \<Rightarrow>
             if GetThreadId mark = t then Go (goto t (At_Inflate (InflateLoad (IK_Hash obj))) s) else Go (goto t (At_Thin (ThinLoad (TK_Hash obj))) s)
         | STATE_HEAVY_LOCKED \<Rightarrow> Go (goto t (At_Hash (HashLookup obj (GetMonitorId mark))) s)
         | STATE_HASHED \<Rightarrow> Go (ret t (R_Hash (GetHash mark)) s)
         | STATE_GC \<Rightarrow> Fatal F_GcState)"

definition GetHashCode_cas :: "tid \<Rightarrow> obj \<Rightarrow> MarkWord \<Rightarrow> MarkWord \<Rightarrow> sys \<Rightarrow> outcome" where
  "GetHashCode_cas t obj mark hashMark s =
     (case AtomicSetMark obj mark hashMark s of
        Some s' \<Rightarrow> Go (goto t (At_Hash (HashLoop obj)) s')
      | None \<Rightarrow> Go (goto t (At_Hash (HashLoop obj)) s))"

definition GetHashCode_lookup :: "tid \<Rightarrow> obj \<Rightarrow> mon_id \<Rightarrow> sys \<Rightarrow> outcome" where
  "GetHashCode_lookup t obj mid s =
     (case LookupMonitor mid s of None \<Rightarrow> Fatal F_NoMonitor | Some _ \<Rightarrow> Go (goto t (At_Hash (HashRead obj mid)) s))"

text \<open>\<open>Monitor::GetHashCode\<close>; \<open>weak\<close> is a failure of the weak compare-and-swap.\<close>

definition Monitor_GetHashCode_read :: "tid \<Rightarrow> obj \<Rightarrow> mon_id \<Rightarrow> sys \<Rightarrow> outcome" where
  "Monitor_GetHashCode_read t obj mid s =
     (case pool s mid of None \<Rightarrow> Fatal F_NoMonitor
      | Some m \<Rightarrow>
          if hashCode m \<noteq> 0 then Go (ret t (R_Hash (hashCode m)) s)
          else (case GenerateHashCode (hashSeed s) of (hash, seed) \<Rightarrow>
                  Go (goto t (At_Hash (HashStore obj mid hash)) (s\<lparr>hashSeed := seed\<rparr>))))"

definition Monitor_GetHashCode_cas :: "bool \<Rightarrow> tid \<Rightarrow> obj \<Rightarrow> mon_id \<Rightarrow> u32 \<Rightarrow> sys \<Rightarrow> outcome" where
  "Monitor_GetHashCode_cas weak t obj mid newHash s =
     (case pool s mid of None \<Rightarrow> Fatal F_NoMonitor
      | Some m \<Rightarrow>
          if hashCode m = 0 \<and> \<not> weak then Go (ret t (R_Hash newHash) (put_monitor mid (m\<lparr>hashCode := newHash\<rparr>) s))
          else Go (goto t (At_Hash (HashRead obj mid)) s))"

section \<open>Reading the lock\<close>

definition HoldsLock :: "tid \<Rightarrow> obj \<Rightarrow> sys \<Rightarrow> bool" where
  "HoldsLock t obj s =
     (let mark = marks s obj
      in case GetState mark of
           STATE_HEAVY_LOCKED \<Rightarrow> (case LookupMonitor (GetMonitorId mark) s of None \<Rightarrow> False | Some m \<Rightarrow> owner m = Some t)
         | STATE_LIGHT_LOCKED \<Rightarrow> GetThreadId mark = t
         | _ \<Rightarrow> False)"

text \<open>\<open>osId\<close> gives the operating system's number of a thread (\<^verbatim>\<open>GetId\<close>).\<close>

definition GetLockOwnerOsThreadID :: "(tid \<Rightarrow> u32) \<Rightarrow> obj option \<Rightarrow> sys \<Rightarrow> u32" where
  "GetLockOwnerOsThreadID osId obj s =
     (case obj of None \<Rightarrow> 0
      | Some x \<Rightarrow>
          let mark = marks s x
          in (case GetState mark of
                STATE_HEAVY_LOCKED \<Rightarrow>
                  (case LookupMonitor (GetMonitorId mark) s of None \<Rightarrow> 0
                   | Some m \<Rightarrow> (case owner m of None \<Rightarrow> 0 | Some t \<Rightarrow> osId t))
              | STATE_LIGHT_LOCKED \<Rightarrow> GetThreadId mark
              | _ \<Rightarrow> 0))"

definition GetMonitorFromObject :: "obj option \<Rightarrow> sys \<Rightarrow> Monitor option" where
  "GetMonitorFromObject obj s =
     (case obj of None \<Rightarrow> None
      | Some x \<Rightarrow>
          let mark = marks s x
          in if GetState mark = STATE_HEAVY_LOCKED then LookupMonitor (GetMonitorId mark) s else None)"

section \<open>Deflation\<close>

text \<open>Deflation runs while the threads are stopped. \<open>DeflateInternal\<close> gives the state after a success.\<close>

definition DeflateInternal :: "Monitor \<Rightarrow> sys \<Rightarrow> sys option" where
  "DeflateInternal m s =
     (if owner m \<noteq> None then None
      else if waitersCounter m > 0 then None
      else if mlock m \<noteq> None then None
      else let oldMark = marks s (mobj m);
               newMark = (if hashCode m \<noteq> 0 then DecodeFromHash (hashCode m) oldMark else DecodeFromUnlocked oldMark)
           in Some (s\<lparr>marks := (marks s)(mobj m := newMark)\<rparr>))"

definition Deflate :: "obj \<Rightarrow> sys \<Rightarrow> bool \<times> sys" where
  "Deflate obj s =
     (let oldMark = marks s obj
      in if GetState oldMark \<noteq> STATE_HEAVY_LOCKED then (False, s)
         else (case LookupMonitor (GetMonitorId oldMark) s of None \<Rightarrow> (False, s)
               | Some m \<Rightarrow>
                   (case DeflateInternal m s of None \<Rightarrow> (False, s)
                    | Some s' \<Rightarrow> (True, FreeMonitor (GetMonitorId oldMark) s'))))"

text \<open>The passes over the pool; the list gives the order in which the map yields its entries.\<close>

fun DeflateMonitorsWithCallBack :: "(Monitor \<Rightarrow> bool) \<Rightarrow> mon_id list \<Rightarrow> sys \<Rightarrow> sys" where
  "DeflateMonitorsWithCallBack cb [] s = s"
| "DeflateMonitorsWithCallBack cb (mid # rest) s =
     DeflateMonitorsWithCallBack cb rest
       (case pool s mid of None \<Rightarrow> s
        | Some m \<Rightarrow>
            if cb m then (case DeflateInternal m s of None \<Rightarrow> s | Some s' \<Rightarrow> FreeMonitor mid s') else s)"

definition DeflateMonitors :: "mon_id list \<Rightarrow> sys \<Rightarrow> sys" where
  "DeflateMonitors = DeflateMonitorsWithCallBack (\<lambda>_. True)"

section \<open>Steps\<close>

text \<open>A step of a thread. \<open>ch\<close> is the choice of the environment where a step has one: no memory for a monitor,
  a thread to suspend that has ended, a wait that ends without a signal, a weak operation that fails.\<close>

definition act :: "bool \<Rightarrow> bool \<Rightarrow> tid \<Rightarrow> sys \<Rightarrow> outcome" where
  "act futex ch t s =
     (case pc (thr s t) of
        Idle \<Rightarrow> Blocked
      | At_Enter (EnterLoop c) \<Rightarrow> MonitorEnter_loop t c s
      | At_Enter (EnterCas c mark new) \<Rightarrow> MonitorEnter_cas t c mark new s
      | At_Enter (EnterLookup c mid) \<Rightarrow> HandleHeavyLockedState t c mid s
      | At_Inflate (InflateLoad ik) \<Rightarrow> Inflate_load t ik s
      | At_Inflate (InflateCreate ik mark) \<Rightarrow> Inflate_create ch t ik mark s
      | At_Inflate (InflateCas ik mark mid) \<Rightarrow> TryAddMonitor t ik mark mid s
      | At_Thin (ThinLoad tk) \<Rightarrow> InflateThinLock_load futex t tk s
      | At_Thin (ThinSuspend tk own) \<Rightarrow> SuspendAndWaitThreadByInternalThreadId ch t tk own s
      | At_Thin (ThinAwait tk own) \<Rightarrow> SuspendAndWait_await t tk own s
      | At_Thin (ThinRun tk own) \<Rightarrow> InflateThinLock_run futex t tk own s
      | At_Thin (ThinSleep tk) \<Rightarrow> InflateThinLock_sleep futex t tk s
      | At_Thin (ThinResume tk own) \<Rightarrow> InflateThinLock_resume futex t tk own s
      | At_Acquire (AcqOwner ak mid) \<Rightarrow> Acquire_owner t ak mid s
      | At_Acquire (AcqTry ak mid) \<Rightarrow> Acquire_trylock t ak mid s
      | At_Acquire (AcqCount ak mid) \<Rightarrow> Acquire_count t ak mid s
      | At_Acquire (AcqLock ak mid) \<Rightarrow> Acquire_lock t ak mid s
      | At_Acquire (AcqSet slow ak mid) \<Rightarrow> Acquire_set t slow ak mid s
      | At_Acquire (AcqUncount ak mid) \<Rightarrow> Acquire_uncount t ak mid s
      | At_Exit (ExitLoop obj) \<Rightarrow> MonitorExit_loop t obj s
      | At_Exit (ExitCas obj mark new) \<Rightarrow> MonitorExit_cas t obj mark new s
      | At_Exit (ExitLookup obj mid) \<Rightarrow> MonitorExit_heavy t obj mid s
      | At_Release (RelOwner rk mid) \<Rightarrow> Release_owner t rk mid s
      | At_Release (RelSignal rk mid w) \<Rightarrow> Release_signal t rk mid w s
      | At_Release (RelUnlock rk mid) \<Rightarrow> Release_unlock t rk mid s
      | At_Wait (WaitLoop w) \<Rightarrow> Wait_loop t w s
      | At_Wait (WaitLookup w mid) \<Rightarrow> Wait_lookup t w mid s
      | At_Wait (WaitOwner w mid) \<Rightarrow> Wait_enqueue t w mid s
      | At_Wait (WaitCheck w mid counter) \<Rightarrow> Wait_check t w mid counter s
      | At_Wait (WaitSafepoint w mid counter) \<Rightarrow> Wait_safepoint t w mid counter s
      | At_Wait (WaitSleep w mid counter) \<Rightarrow> DoWaitInternal ch t w mid counter s
      | At_Wait (WaitRestore w mid counter st) \<Rightarrow> Wait_restore t w mid counter st s
      | At_Notify (NotifyLoad obj every) \<Rightarrow> Notify_load t obj every s
      | At_Notify (NotifyLookup obj every mid) \<Rightarrow> Notify_lookup t obj every mid s
      | At_Notify (NotifyOwner obj every mid) \<Rightarrow> Notify_owner t every mid s
      | At_Hash (HashLoop obj) \<Rightarrow> GetHashCode_loop t obj s
      | At_Hash (HashCas obj mark new) \<Rightarrow> GetHashCode_cas t obj mark new s
      | At_Hash (HashLookup obj mid) \<Rightarrow> GetHashCode_lookup t obj mid s
      | At_Hash (HashRead obj mid) \<Rightarrow> Monitor_GetHashCode_read t obj mid s
      | At_Hash (HashStore obj mid hash) \<Rightarrow> Monitor_GetHashCode_cas ch t obj mid hash s)"

text \<open>The calls, and where a call starts.\<close>

datatype call = C_Enter obj bool | C_Exit obj | C_Wait obj MutatorStatus bool | C_Notify obj bool | C_Hash obj

fun start :: "call \<Rightarrow> pc" where
  "start (C_Enter obj trylock) = At_Enter (EnterLoop (EC obj trylock False 0))"
| "start (C_Exit obj) = At_Exit (ExitLoop obj)"
| "start (C_Wait obj status ign) = At_Wait (WaitLoop (WC obj status ign))"
| "start (C_Notify obj every) = At_Notify (NotifyLoad obj every)"
| "start (C_Hash obj) = At_Hash (HashLoop obj)"

definition Interrupt :: "tid \<Rightarrow> sys \<Rightarrow> sys" where
  "Interrupt t s = SignalThread t (on_thread t (\<lambda>th. th\<lparr>isInterrupted := True\<rparr>) s)"

definition ClearInterrupted :: "tid \<Rightarrow> sys \<Rightarrow> sys" where
  "ClearInterrupted t = on_thread t (\<lambda>th. th\<lparr>isInterrupted := False\<rparr>)"

definition valid_tid :: "tid \<Rightarrow> bool" where "valid_tid t \<longleftrightarrow> t \<le> LIGHT_LOCK_THREADID_MAX_COUNT"

inductive sys_step :: "bool \<Rightarrow> sys \<Rightarrow> sys \<Rightarrow> bool" for futex where
  run: "valid_tid t \<Longrightarrow> act futex ch t s = Go s' \<Longrightarrow> sys_step futex s s'"
| call: "valid_tid t \<Longrightarrow> pc (thr s t) = Idle \<Longrightarrow> suspendCount (thr s t) = 0 \<Longrightarrow> sys_step futex s (goto t (start c) s)"
| collector: "g \<in> set gc_ops \<Longrightarrow> sys_step futex s (s\<lparr>marks := (marks s)(obj := g (marks s obj))\<rparr>)"
| interrupt: "\<not> holds_waiting_mutex (pc (thr s t)) \<Longrightarrow> sys_step futex s (Interrupt t s)"
| clear: "\<not> holds_waiting_mutex (pc (thr s t)) \<Longrightarrow> sys_step futex s (ClearInterrupted t s)"
| deflate: "\<forall>t. stopped (pc (thr s t)) \<Longrightarrow> pool s mid = Some m \<Longrightarrow> DeflateInternal m s = Some s' \<Longrightarrow>
    sys_step futex s (FreeMonitor mid s')"

definition init_thread :: Thread where
  "init_thread = \<lparr>pc = Idle, res = R_None, waitingMonitor = None, enteringMonitor = None, enterMonitorObject = None,
     monitorOldStatus = FINISHED, localObjectsLocked = [], monitorCount = 0, isInterrupted = False, signalled = False,
     suspendCount = 0\<rparr>"

definition init_sys :: "(obj \<Rightarrow> MarkWord) \<Rightarrow> u32 \<Rightarrow> sys" where
  "init_sys mk seed = \<lparr>marks = mk, pool = (\<lambda>_. None), lastId = 0, hashSeed = seed, thr = (\<lambda>_. init_thread)\<rparr>"

text \<open>\<open>reachable n s\<close>: after \<open>n\<close> steps, from objects that are neither locked nor hashed.\<close>

inductive reachable :: "bool \<Rightarrow> nat \<Rightarrow> sys \<Rightarrow> bool" for futex where
  init: "(\<forall>obj. GetState (mk obj) = STATE_UNLOCKED) \<Longrightarrow> reachable futex 0 (init_sys mk seed)"
| step: "reachable futex n s \<Longrightarrow> sys_step futex s s' \<Longrightarrow> reachable futex (Suc n) s'"

inductive_cases sys_stepE: "sys_step futex s s'"

end
