(* ===== verification/Monitors_Inv.thy ===== *)
theory Monitors_Inv
  imports Monitors
begin

text \<open>
  The invariant of the monitors. It is stated on the mark words, the pool and the program counters. Each
  program counter has an assertion about the shared state; an assertion of a thread is kept by the steps of
  the other threads because these keep the published monitors, the locks the thread owns and the monitor it
  has not published yet (\<open>rely\<close>). The steps are classified by what they change, and there is one preservation
  lemma per class.
\<close>

type_synonym mark_map = "obj \<Rightarrow> MarkWord"
type_synonym mon_map = "mon_id \<Rightarrow> Monitor option"

section \<open>Assertions\<close>

text \<open>The monitor that an object's mark word refers to.\<close>

definition published :: "mark_map \<Rightarrow> mon_id \<Rightarrow> obj \<Rightarrow> bool" where
  "published mk mid obj \<longleftrightarrow> GetState (mk obj) = STATE_HEAVY_LOCKED \<and> GetMonitorId (mk obj) = mid"

definition owns :: "mark_map \<Rightarrow> mon_map \<Rightarrow> tid \<Rightarrow> obj \<Rightarrow> bool" where
  "owns mk pl t obj \<longleftrightarrow>
     (GetState (mk obj) = STATE_LIGHT_LOCKED \<and> GetThreadId (mk obj) = t) \<or>
     (GetState (mk obj) = STATE_HEAVY_LOCKED \<and> (\<exists>m. pl (GetMonitorId (mk obj)) = Some m \<and> owner m = Some t))"

definition on_mon :: "mark_map \<Rightarrow> mon_map \<Rightarrow> mon_id \<Rightarrow> obj \<Rightarrow> (Monitor \<Rightarrow> bool) \<Rightarrow> bool" where
  "on_mon mk pl mid obj P \<longleftrightarrow> published mk mid obj \<and> (\<exists>m. pl mid = Some m \<and> mobj m = obj \<and> P m)"

fun inflate_ok :: "mark_map \<Rightarrow> mon_map \<Rightarrow> tid \<Rightarrow> inflate_cont \<Rightarrow> bool" where
  "inflate_ok mk pl t (IK_EnterMax c) = owns mk pl t (ec_obj c)"
| "inflate_ok mk pl t (IK_Wait w) = owns mk pl t (wc_obj w)"
| "inflate_ok mk pl t (IK_Hash obj) = owns mk pl t obj"
| "inflate_ok mk pl t (IK_Enter c) = (\<not> owns mk pl t (ec_obj c))"
| "inflate_ok mk pl t (IK_Thin _ _) = True"

text \<open>The lock count that a waiting thread has saved.\<close>

definition saved_ok :: "nat \<Rightarrow> u64 \<Rightarrow> bool" where "saved_ok b c \<longleftrightarrow> c \<noteq> 0 \<and> unat c \<le> b"

fun acquire_ok :: "nat \<Rightarrow> acquire_cont \<Rightarrow> bool" where
  "acquire_ok b (AK_Wait _ c st) = (saved_ok b c \<and> st \<noteq> ILLEGAL)"
| "acquire_ok b (AK_Enter _) = True"

fun release_ok :: "nat \<Rightarrow> release_cont \<Rightarrow> bool" where
  "release_ok b (RK_Wait _ c) = saved_ok b c"
| "release_ok b (RK_Exit _) = True"

fun release_obj :: "release_cont \<Rightarrow> obj" where
  "release_obj (RK_Exit obj) = obj"
| "release_obj (RK_Wait w _) = wc_obj w"

text \<open>A monitor that is not published yet, made for a mark word.\<close>

definition fresh_monitor :: "tid \<Rightarrow> inflate_cont \<Rightarrow> MarkWord \<Rightarrow> Monitor \<Rightarrow> bool" where
  "fresh_monitor t ik mark m \<longleftrightarrow>
     mobj m = inflate_obj ik \<and> owner m = Some (inflate_thread t ik) \<and> mlock m = Some (inflate_thread t ik) \<and>
     waiters m = [] \<and> toWakeup m = [] \<and> waitersCounter m = 0 \<and>
     (GetState mark = STATE_LIGHT_LOCKED \<and> GetThreadId mark = inflate_thread t ik \<and>
        recursiveCounter m = ucast (GetLockCount mark) \<and> hashCode m = 0 \<or>
      GetState mark = STATE_UNLOCKED \<and> \<not> FOR_OTHER_THREAD ik \<and> recursiveCounter m = 1 \<and> hashCode m = 0 \<or>
      GetState mark = STATE_HASHED \<and> \<not> FOR_OTHER_THREAD ik \<and> recursiveCounter m = 1 \<and> hashCode m = GetHash mark)"

definition hash_ok :: "u32 \<Rightarrow> bool" where "hash_ok h \<longleftrightarrow> h \<noteq> 0 \<and> unat h < 2 ^ 28"

definition mark_ok :: "MarkWord \<Rightarrow> bool" where
  "mark_ok v \<longleftrightarrow> GetState v \<noteq> STATE_GC \<and> (GetState v = STATE_LIGHT_LOCKED \<longrightarrow> GetLockCount v \<noteq> 0) \<and>
     (GetState v = STATE_HASHED \<longrightarrow> GetHash v \<noteq> 0)"

fun enter_inv :: "mark_map \<Rightarrow> tid \<Rightarrow> enter_pc \<Rightarrow> bool" where
  "enter_inv mk t (EnterLoop c) = True"
| "enter_inv mk t (EnterCas c mark new) =
     (GetState mark = STATE_UNLOCKED \<and> new = DecodeFromLightLock t 1 mark \<or>
      GetState mark = STATE_LIGHT_LOCKED \<and> GetThreadId mark = t \<and> new = DecodeFromLightLock t (GetLockCount mark + 1) mark \<and>
        GetLockCount mark + 1 < LIGHT_LOCK_LOCK_MAX_COUNT)"
| "enter_inv mk t (EnterLookup c mid) = published mk mid (ec_obj c)"

fun inflate_inv :: "mark_map \<Rightarrow> mon_map \<Rightarrow> tid \<Rightarrow> inflate_pc \<Rightarrow> bool" where
  "inflate_inv mk pl t (InflateLoad ik) = inflate_ok mk pl t ik"
| "inflate_inv mk pl t (InflateCreate ik mark) =
     (inflate_ok mk pl t ik \<and> mark_ok mark \<and> GetState mark \<noteq> STATE_HEAVY_LOCKED \<and>
      (FOR_OTHER_THREAD ik \<longrightarrow> GetState mark = STATE_LIGHT_LOCKED \<and> GetThreadId mark = inflate_thread t ik))"
| "inflate_inv mk pl t (InflateCas ik mark mid) =
     (inflate_ok mk pl t ik \<and> \<not> published mk mid (inflate_obj ik) \<and> (\<exists>m. pl mid = Some m \<and> fresh_monitor t ik mark m))"

fun acquire_inv :: "nat \<Rightarrow> mark_map \<Rightarrow> mon_map \<Rightarrow> tid \<Rightarrow> acquire_pc \<Rightarrow> bool" where
  "acquire_inv b mk pl t (AcqOwner ak mid) =
     (acquire_ok b ak \<and>
      (case ak of AK_Enter c \<Rightarrow> published mk mid (ec_obj c)
       | AK_Wait w _ _ \<Rightarrow> on_mon mk pl mid (wc_obj w) (\<lambda>m. owner m \<noteq> Some t)))"
| "acquire_inv b mk pl t (AcqTry ak mid) = (acquire_ok b ak \<and> on_mon mk pl mid (acquire_obj ak) (\<lambda>m. owner m \<noteq> Some t))"
| "acquire_inv b mk pl t (AcqCount ak mid) = (acquire_ok b ak \<and> on_mon mk pl mid (acquire_obj ak) (\<lambda>m. owner m \<noteq> Some t))"
| "acquire_inv b mk pl t (AcqLock ak mid) = (acquire_ok b ak \<and> on_mon mk pl mid (acquire_obj ak) (\<lambda>m. owner m \<noteq> Some t))"
| "acquire_inv b mk pl t (AcqSet slow ak mid) =
     (acquire_ok b ak \<and> on_mon mk pl mid (acquire_obj ak) (\<lambda>m. mlock m = Some t \<and> owner m = None))"
| "acquire_inv b mk pl t (AcqUncount ak mid) =
     (acquire_ok b ak \<and> on_mon mk pl mid (acquire_obj ak) (\<lambda>m. owner m = Some t \<and> recursiveCounter m = 1))"

fun exit_inv :: "mark_map \<Rightarrow> tid \<Rightarrow> exit_pc \<Rightarrow> bool" where
  "exit_inv mk t (ExitLoop obj) = True"
| "exit_inv mk t (ExitCas obj mark new) =
     (GetState mark = STATE_LIGHT_LOCKED \<and> GetThreadId mark = t \<and>
      new = (if GetLockCount mark - 1 \<noteq> 0 then DecodeFromLightLock t (GetLockCount mark - 1) mark else DecodeFromUnlocked mark))"
| "exit_inv mk t (ExitLookup obj mid) = published mk mid obj"

fun release_inv :: "nat \<Rightarrow> mark_map \<Rightarrow> mon_map \<Rightarrow> tid \<Rightarrow> release_pc \<Rightarrow> bool" where
  "release_inv b mk pl t (RelOwner rk mid) =
     (release_ok b rk \<and>
      (case rk of RK_Exit obj \<Rightarrow> published mk mid obj
       | RK_Wait w _ \<Rightarrow> on_mon mk pl mid (wc_obj w) (\<lambda>m. owner m = Some t \<and> recursiveCounter m = 1)))"
| "release_inv b mk pl t (RelSignal rk mid w) =
     (release_ok b rk \<and> on_mon mk pl mid (release_obj rk) (\<lambda>m. mlock m = Some t \<and> owner m = None))"
| "release_inv b mk pl t (RelUnlock rk mid) =
     (release_ok b rk \<and> on_mon mk pl mid (release_obj rk) (\<lambda>m. mlock m = Some t \<and> owner m = None))"

fun wait_inv :: "nat \<Rightarrow> mark_map \<Rightarrow> mon_map \<Rightarrow> tid \<Rightarrow> wait_pc \<Rightarrow> bool" where
  "wait_inv b mk pl t (WaitLoop w) = True"
| "wait_inv b mk pl t (WaitLookup w mid) = published mk mid (wc_obj w)"
| "wait_inv b mk pl t (WaitOwner w mid) = published mk mid (wc_obj w)"
| "wait_inv b mk pl t (WaitCheck w mid c) = (saved_ok b c \<and> on_mon mk pl mid (wc_obj w) (\<lambda>m. owner m \<noteq> Some t))"
| "wait_inv b mk pl t (WaitSafepoint w mid c) = (saved_ok b c \<and> on_mon mk pl mid (wc_obj w) (\<lambda>m. owner m \<noteq> Some t))"
| "wait_inv b mk pl t (WaitSleep w mid c) = (saved_ok b c \<and> on_mon mk pl mid (wc_obj w) (\<lambda>m. owner m \<noteq> Some t))"
| "wait_inv b mk pl t (WaitRestore w mid c st) =
     (saved_ok b c \<and> st \<noteq> ILLEGAL \<and> on_mon mk pl mid (wc_obj w) (\<lambda>m. owner m = Some t \<and> recursiveCounter m = 1))"

fun notify_inv :: "mark_map \<Rightarrow> notify_pc \<Rightarrow> bool" where
  "notify_inv mk (NotifyLoad obj every) = True"
| "notify_inv mk (NotifyLookup obj every mid) = published mk mid obj"
| "notify_inv mk (NotifyOwner obj every mid) = published mk mid obj"

fun hash_inv :: "mark_map \<Rightarrow> hash_pc \<Rightarrow> bool" where
  "hash_inv mk (HashLoop obj) = True"
| "hash_inv mk (HashCas obj mark new) =
     (GetState mark = STATE_UNLOCKED \<and> (\<exists>h. hash_ok h \<and> new = DecodeFromHash h mark))"
| "hash_inv mk (HashLookup obj mid) = published mk mid obj"
| "hash_inv mk (HashRead obj mid) = published mk mid obj"
| "hash_inv mk (HashStore obj mid h) = (hash_ok h \<and> published mk mid obj)"

fun thread_inv :: "nat \<Rightarrow> mark_map \<Rightarrow> mon_map \<Rightarrow> tid \<Rightarrow> pc \<Rightarrow> bool" where
  "thread_inv b mk pl t Idle = True"
| "thread_inv b mk pl t (At_Enter p) = enter_inv mk t p"
| "thread_inv b mk pl t (At_Inflate p) = inflate_inv mk pl t p"
| "thread_inv b mk pl t (At_Thin p) = True"
| "thread_inv b mk pl t (At_Acquire p) = acquire_inv b mk pl t p"
| "thread_inv b mk pl t (At_Exit p) = exit_inv mk t p"
| "thread_inv b mk pl t (At_Release p) = release_inv b mk pl t p"
| "thread_inv b mk pl t (At_Wait p) = wait_inv b mk pl t p"
| "thread_inv b mk pl t (At_Notify p) = notify_inv mk p"
| "thread_inv b mk pl t (At_Hash p) = hash_inv mk p"

text \<open>The monitor that a thread waits on, is blocked at, holds the mutex of without being the owner, or has
  made and not published.\<close>

fun acquire_wait :: "acquire_cont \<Rightarrow> mon_id \<Rightarrow> mon_id option" where
  "acquire_wait (AK_Wait _ _ _) mid = Some mid"
| "acquire_wait (AK_Enter _) mid = None"

fun release_wait :: "release_cont \<Rightarrow> mon_id \<Rightarrow> mon_id option" where
  "release_wait (RK_Wait _ _) mid = Some mid"
| "release_wait (RK_Exit _) mid = None"

fun wait_mon :: "pc \<Rightarrow> mon_id option" where
  "wait_mon (At_Acquire p) =
     (case p of AcqOwner ak mid \<Rightarrow> acquire_wait ak mid | AcqTry ak mid \<Rightarrow> acquire_wait ak mid | AcqCount ak mid \<Rightarrow> acquire_wait ak mid
      | AcqLock ak mid \<Rightarrow> acquire_wait ak mid | AcqSet _ ak mid \<Rightarrow> acquire_wait ak mid | AcqUncount ak mid \<Rightarrow> acquire_wait ak mid)"
| "wait_mon (At_Release p) =
     (case p of RelOwner rk mid \<Rightarrow> release_wait rk mid | RelSignal rk mid _ \<Rightarrow> release_wait rk mid
      | RelUnlock rk mid \<Rightarrow> release_wait rk mid)"
| "wait_mon (At_Wait p) =
     (case p of WaitCheck _ mid _ \<Rightarrow> Some mid | WaitSafepoint _ mid _ \<Rightarrow> Some mid | WaitSleep _ mid _ \<Rightarrow> Some mid
      | WaitRestore _ mid _ _ \<Rightarrow> Some mid | _ \<Rightarrow> None)"
| "wait_mon _ = None"

fun block_mon :: "pc \<Rightarrow> mon_id option" where
  "block_mon (At_Acquire p) =
     (case p of AcqLock _ mid \<Rightarrow> Some mid | AcqSet slow _ mid \<Rightarrow> if slow then Some mid else None | AcqUncount _ mid \<Rightarrow> Some mid
      | _ \<Rightarrow> None)"
| "block_mon _ = None"

fun lock_mon :: "pc \<Rightarrow> mon_id option" where
  "lock_mon (At_Acquire p) = (case p of AcqSet _ _ mid \<Rightarrow> Some mid | _ \<Rightarrow> None)"
| "lock_mon (At_Release p) = (case p of RelSignal _ mid _ \<Rightarrow> Some mid | RelUnlock _ mid \<Rightarrow> Some mid | _ \<Rightarrow> None)"
| "lock_mon _ = None"

fun fresh_mon :: "pc \<Rightarrow> mon_id option" where
  "fresh_mon (At_Inflate p) = (case p of InflateCas _ _ mid \<Rightarrow> Some mid | _ \<Rightarrow> None)"
| "fresh_mon _ = None"

definition wcount :: "mon_id \<Rightarrow> pc \<Rightarrow> nat" where
  "wcount mid p = (if wait_mon p = Some mid then 1 else 0) + (if block_mon p = Some mid then 1 else 0)"

definition wsum :: "mon_id \<Rightarrow> (tid \<Rightarrow> pc) \<Rightarrow> nat" where "wsum mid pcs = (\<Sum>t \<in> UNIV. wcount mid (pcs t))"

text \<open>A monitor is well-formed: owner, mutex and counter agree, no thread is in its lists twice or without
  waiting on it, and the counter of waiters counts the threads that wait or are blocked.\<close>

definition monitor_ok :: "nat \<Rightarrow> (tid \<Rightarrow> pc) \<Rightarrow> mon_id \<Rightarrow> Monitor \<Rightarrow> bool" where
  "monitor_ok b pcs mid m \<longleftrightarrow>
     mid < MAX_MONITOR_ID \<and> unat (hashCode m) < 2 ^ 28 \<and> unat (recursiveCounter m) \<le> b \<and>
     (owner m = None \<longrightarrow> recursiveCounter m = 0) \<and>
     (\<forall>t. owner m = Some t \<longrightarrow> mlock m = Some t \<and> recursiveCounter m \<noteq> 0) \<and>
     (\<forall>t. mlock m = Some t \<longrightarrow> owner m = None \<longrightarrow> lock_mon (pcs t) = Some mid) \<and>
     distinct (waiters m @ toWakeup m) \<and> (\<forall>t \<in> set (waiters m) \<union> set (toWakeup m). wait_mon (pcs t) = Some mid) \<and>
     unat (waitersCounter m) = wsum mid pcs"

definition inv :: "nat \<Rightarrow> mark_map \<Rightarrow> mon_map \<Rightarrow> (tid \<Rightarrow> pc) \<Rightarrow> (tid \<Rightarrow> mon_id option) \<Rightarrow> bool" where
  "inv b mk pl pcs wm \<longleftrightarrow>
     2 ^ 15 \<le> b \<and>
     (\<forall>mid m. pl mid = Some m \<longrightarrow> monitor_ok b pcs mid m) \<and>
     (\<forall>obj. GetState (mk obj) = STATE_HEAVY_LOCKED \<longrightarrow> (\<exists>m. pl (GetMonitorId (mk obj)) = Some m \<and> mobj m = obj)) \<and>
     (\<forall>obj. mark_ok (mk obj)) \<and>
     (\<forall>mid m. pl mid = Some m \<longrightarrow> published mk mid (mobj m) \<or> (\<exists>t. fresh_mon (pcs t) = Some mid)) \<and>
     (\<forall>t t' mid. fresh_mon (pcs t) = Some mid \<longrightarrow> fresh_mon (pcs t') = Some mid \<longrightarrow> t = t') \<and>
     (\<forall>t. thread_inv b mk pl t (pcs t)) \<and>
     (\<forall>t. wm t = wait_mon (pcs t)) \<and>
     (\<forall>t. \<not> valid_tid t \<longrightarrow> pcs t = Idle)"

definition pc_of :: "sys \<Rightarrow> tid \<Rightarrow> pc" where "pc_of s t = pc (thr s t)"
definition wm_of :: "sys \<Rightarrow> tid \<Rightarrow> mon_id option" where "wm_of s t = waitingMonitor (thr s t)"

definition sys_inv :: "nat \<Rightarrow> sys \<Rightarrow> bool" where "sys_inv b s \<longleftrightarrow> inv b (marks s) (pool s) (pc_of s) (wm_of s)"

lemma invD:
  assumes "inv b mk pl pcs wm"
  shows "2 ^ 15 \<le> b" "pl mid = Some m \<Longrightarrow> monitor_ok b pcs mid m"
    "GetState (mk obj) = STATE_HEAVY_LOCKED \<Longrightarrow> \<exists>m. pl (GetMonitorId (mk obj)) = Some m \<and> mobj m = obj"
    "mark_ok (mk obj)" "pl mid = Some m \<Longrightarrow> published mk mid (mobj m) \<or> (\<exists>t. fresh_mon (pcs t) = Some mid)"
    "fresh_mon (pcs t) = Some mid \<Longrightarrow> fresh_mon (pcs t') = Some mid \<Longrightarrow> t = t'"
    "thread_inv b mk pl t (pcs t)" "wm t = wait_mon (pcs t)" "\<not> valid_tid t \<Longrightarrow> pcs t = Idle"
  using assms unfolding inv_def by blast+

section \<open>Stability\<close>

text \<open>What the steps of other threads leave of the things that the assertions of a thread speak of.\<close>

definition kept_monitor :: "tid \<Rightarrow> Monitor \<Rightarrow> Monitor \<Rightarrow> bool" where
  "kept_monitor t m m' \<longleftrightarrow>
     mobj m' = mobj m \<and> (owner m' = Some t \<longleftrightarrow> owner m = Some t) \<and>
     (owner m = Some t \<longrightarrow> recursiveCounter m' = recursiveCounter m) \<and>
     (mlock m = Some t \<and> owner m = None \<longrightarrow> mlock m' = Some t \<and> owner m' = None)"

definition rely :: "tid \<Rightarrow> pc \<Rightarrow> mark_map \<Rightarrow> mon_map \<Rightarrow> mark_map \<Rightarrow> mon_map \<Rightarrow> bool" where
  "rely t p mk pl mk' pl' \<longleftrightarrow>
     (\<forall>mid obj. published mk mid obj \<longrightarrow> published mk' mid obj) \<and>
     (\<forall>obj. owns mk' pl' t obj \<longleftrightarrow> owns mk pl t obj) \<and>
     (\<forall>mid m. published mk mid (mobj m) \<longrightarrow> pl mid = Some m \<longrightarrow> (\<exists>m'. pl' mid = Some m' \<and> kept_monitor t m m')) \<and>
     (\<forall>mid. fresh_mon p = Some mid \<longrightarrow> pl' mid = pl mid \<and> (\<forall>obj. published mk' mid obj \<longrightarrow> published mk mid obj))"

lemma saved_ok_mono: "saved_ok b c \<Longrightarrow> b \<le> b' \<Longrightarrow> saved_ok b' c" by (simp add: saved_ok_def)

lemma acquire_ok_mono: "acquire_ok b ak \<Longrightarrow> b \<le> b' \<Longrightarrow> acquire_ok b' ak" by (cases ak) (auto intro: saved_ok_mono)

lemma release_ok_mono: "release_ok b rk \<Longrightarrow> b \<le> b' \<Longrightarrow> release_ok b' rk" by (cases rk) (auto intro: saved_ok_mono)

lemma on_mon_kept:
  assumes "rely t p mk pl mk' pl'" "on_mon mk pl mid obj P" "\<And>m m'. kept_monitor t m m' \<Longrightarrow> P m \<Longrightarrow> P m'"
  shows "on_mon mk' pl' mid obj P"
proof -
  obtain m where m: "published mk mid (mobj m)" "pl mid = Some m" "mobj m = obj" "P m" using assms(2) by (auto simp: on_mon_def)
  then obtain m' where "pl' mid = Some m'" "kept_monitor t m m'" using assms(1) unfolding rely_def by blast
  then show ?thesis using m assms(1,3) by (auto simp: on_mon_def rely_def kept_monitor_def)
qed

lemma inflate_ok_kept: "rely t p mk pl mk' pl' \<Longrightarrow> inflate_ok mk pl t ik \<Longrightarrow> inflate_ok mk' pl' t ik"
  by (cases ik) (auto simp: rely_def)

lemma thread_inv_kept:
  assumes r: "rely t p mk pl mk' pl'" and b: "b \<le> b'" and i: "thread_inv b mk pl t p"
  shows "thread_inv b' mk' pl' t p"
proof -
  have pub: "published mk mid obj \<Longrightarrow> published mk' mid obj" for mid obj using r by (simp add: rely_def)
  note mono = saved_ok_mono[OF _ b] acquire_ok_mono[OF _ b] release_ok_mono[OF _ b]
  have P: "on_mon mk pl mid obj (\<lambda>m. owner m \<noteq> Some t) \<Longrightarrow> on_mon mk' pl' mid obj (\<lambda>m. owner m \<noteq> Some t)"
    "on_mon mk pl mid obj (\<lambda>m. mlock m = Some t \<and> owner m = None) \<Longrightarrow> on_mon mk' pl' mid obj (\<lambda>m. mlock m = Some t \<and> owner m = None)"
    "on_mon mk pl mid obj (\<lambda>m. owner m = Some t \<and> recursiveCounter m = 1) \<Longrightarrow>
       on_mon mk' pl' mid obj (\<lambda>m. owner m = Some t \<and> recursiveCounter m = 1)" for mid obj
    by (rule on_mon_kept[OF r]; simp add: kept_monitor_def)+
  show ?thesis
  proof (cases p)
    case (At_Enter q) then show ?thesis using i pub by (cases q) auto
  next
    case (At_Inflate q) then show ?thesis using i r inflate_ok_kept[OF r] by (cases q) (auto simp: rely_def)
  next
    case (At_Acquire q) then show ?thesis using i pub P mono by (cases q) (auto split: acquire_cont.splits)
  next
    case (At_Exit q) then show ?thesis using i pub by (cases q) auto
  next
    case (At_Release q) then show ?thesis using i pub P mono by (cases q) (auto split: release_cont.splits)
  next
    case (At_Wait q) then show ?thesis using i pub P mono by (cases q) auto
  next
    case (At_Notify q) then show ?thesis using i pub by (cases q) auto
  next
    case (At_Hash q) then show ?thesis using i pub by (cases q) auto
  qed auto
qed

lemma rely_refl: "rely t p mk pl mk pl" by (auto simp: rely_def kept_monitor_def)

text \<open>The sum of the waiting and blocked threads when one thread moves.\<close>

lemma wsum_upd: "wsum mid (f(t := p)) + wcount mid (f t) = wsum mid f + wcount mid p"
proof -
  have *: "wsum mid g = wcount mid (g t) + (\<Sum>u \<in> UNIV - {t}. wcount mid (g u))" for g
    unfolding wsum_def by (rule sum.remove) auto
  have "(\<Sum>u \<in> UNIV - {t}. wcount mid ((f(t := p)) u)) = (\<Sum>u \<in> UNIV - {t}. wcount mid (f u))" by (rule sum.cong) auto
  then show ?thesis using *[of f] *[of "f(t := p)"] by simp
qed

lemma wsum_same: "wcount mid p = wcount mid (f t) \<Longrightarrow> wsum mid (f(t := p)) = wsum mid f"
  using wsum_upd[of mid f t p] by simp

section \<open>Preservation by class of step\<close>

lemma monitor_ok_upd:
  assumes "monitor_ok b pcs mid m" "b \<le> b'" "wcount mid p' = wcount mid (pcs t)"
    and "wait_mon (pcs t) = Some mid \<Longrightarrow> wait_mon p' = Some mid"
    and "lock_mon (pcs t) = Some mid \<Longrightarrow> lock_mon p' = Some mid"
  shows "monitor_ok b' (pcs(t := p')) mid m"
  using assms wsum_same[of mid p' pcs t] unfolding monitor_ok_def by auto

lemma inv_step:
  assumes I: "inv b mk pl pcs wm" and t: "valid_tid t"
    and others: "\<And>u. u \<noteq> t \<Longrightarrow> rely u (pcs u) mk pl mk' pl'"
    and self: "thread_inv (Suc b) mk' pl' t p'"
    and mons: "\<And>mid m. pl' mid = Some m \<Longrightarrow> monitor_ok (Suc b) (pcs(t := p')) mid m"
    and heavy: "\<And>obj. GetState (mk' obj) = STATE_HEAVY_LOCKED \<Longrightarrow> \<exists>m. pl' (GetMonitorId (mk' obj)) = Some m \<and> mobj m = obj"
    and mark: "\<And>obj. mark_ok (mk' obj)"
    and pub: "\<And>mid m. pl' mid = Some m \<Longrightarrow> published mk' mid (mobj m) \<or> (\<exists>u. fresh_mon ((pcs(t := p')) u) = Some mid)"
    and fresh: "\<And>mid u. fresh_mon p' = Some mid \<Longrightarrow> u \<noteq> t \<Longrightarrow> fresh_mon (pcs u) \<noteq> Some mid"
  shows "inv (Suc b) mk' pl' (pcs(t := p')) (wm(t := wait_mon p'))"
  unfolding inv_def
proof (intro conjI allI impI)
  show "2 ^ 15 \<le> Suc b" using invD(1)[OF I] by simp
  show "thread_inv (Suc b) mk' pl' u ((pcs(t := p')) u)" for u
    using self thread_inv_kept[OF others _ invD(7)[OF I]] by (cases "u = t") auto
  show "(wm(t := wait_mon p')) u = wait_mon ((pcs(t := p')) u)" for u using invD(8)[OF I] by simp
  show "(pcs(t := p')) u = Idle" if "\<not> valid_tid u" for u using that t invD(9)[OF I] by auto
  show "u = u'" if "fresh_mon ((pcs(t := p')) u) = Some mid" "fresh_mon ((pcs(t := p')) u') = Some mid" for u u' mid
    using that fresh invD(6)[OF I, of u mid u'] by (cases "u = t"; cases "u' = t") (auto split: if_splits)
qed (use mons heavy mark pub in auto)

lemma inv_local:
  assumes I: "inv b mk pl pcs wm" and t: "valid_tid t" and self: "thread_inv (Suc b) mk pl t p'"
    and same: "wait_mon p' = wait_mon (pcs t)" "block_mon p' = block_mon (pcs t)" "lock_mon p' = lock_mon (pcs t)"
    and fresh: "fresh_mon p' = None" "fresh_mon (pcs t) = None"
  shows "inv (Suc b) mk pl (pcs(t := p')) wm"
proof -
  have "wm(t := wait_mon p') = wm" using same invD(8)[OF I, of t] by auto
  moreover have "inv (Suc b) mk pl (pcs(t := p')) (wm(t := wait_mon p'))"
  proof (rule inv_step[OF I t rely_refl self])
    show "monitor_ok (Suc b) (pcs(t := p')) mid m" if "pl mid = Some m" for mid m
      using monitor_ok_upd[OF invD(2)[OF I that]] same by (auto simp: wcount_def)
    show "\<exists>m. pl (GetMonitorId (mk obj)) = Some m \<and> mobj m = obj" if "GetState (mk obj) = STATE_HEAVY_LOCKED" for obj
      using invD(3)[OF I that] .
    show "mark_ok (mk obj)" for obj using invD(4)[OF I] .
    show "published mk mid (mobj m) \<or> (\<exists>u. fresh_mon ((pcs(t := p')) u) = Some mid)" if "pl mid = Some m" for mid m
    proof -
      have "published mk mid (mobj m) \<or> (\<exists>u. fresh_mon (pcs u) = Some mid)" using invD(5)[OF I that] .
      then show ?thesis using fresh(2) by (metis fun_upd_other option.distinct(1))
    qed
  qed (use fresh in auto)
  ultimately show ?thesis by simp
qed

text \<open>A thread that keeps its own program counter, while the environment changes the shared state.\<close>

lemma inv_env:
  assumes I: "inv b mk pl pcs wm"
    and others: "\<And>u. rely u (pcs u) mk pl mk' pl'"
    and mons: "\<And>mid m. pl' mid = Some m \<Longrightarrow> monitor_ok (Suc b) pcs mid m"
    and heavy: "\<And>obj. GetState (mk' obj) = STATE_HEAVY_LOCKED \<Longrightarrow> \<exists>m. pl' (GetMonitorId (mk' obj)) = Some m \<and> mobj m = obj"
    and mark: "\<And>obj. mark_ok (mk' obj)"
    and pub: "\<And>mid m. pl' mid = Some m \<Longrightarrow> published mk' mid (mobj m) \<or> (\<exists>u. fresh_mon (pcs u) = Some mid)"
  shows "inv (Suc b) mk' pl' pcs wm"
  unfolding inv_def
proof (intro conjI allI impI)
  show "2 ^ 15 \<le> Suc b" using invD(1)[OF I] by simp
  show "thread_inv (Suc b) mk' pl' u (pcs u)" for u using thread_inv_kept[OF others _ invD(7)[OF I]] by auto
  show "wm u = wait_mon (pcs u)" for u using invD(8)[OF I] .
  show "pcs u = Idle" if "\<not> valid_tid u" for u using invD(9)[OF I that] .
  show "u = u'" if "fresh_mon (pcs u) = Some mid" "fresh_mon (pcs u') = Some mid" for u u' mid using that invD(6)[OF I] by blast
qed (use mons heavy mark pub in auto)

lemma monitor_ok_mono: "monitor_ok b pcs mid m \<Longrightarrow> b \<le> b' \<Longrightarrow> monitor_ok b' pcs mid m"
  unfolding monitor_ok_def by auto

text \<open>A compare-and-swap between states without a monitor, by the owner of the lock if it is taken.\<close>

lemma inv_mark:
  assumes I: "inv b mk pl pcs wm" and t: "valid_tid t"
    and old: "mk obj = old" "GetState old \<noteq> STATE_HEAVY_LOCKED" "GetState old = STATE_LIGHT_LOCKED \<Longrightarrow> GetThreadId old = t"
    and new: "GetState new \<noteq> STATE_HEAVY_LOCKED" "mark_ok new" "GetState new = STATE_LIGHT_LOCKED \<Longrightarrow> GetThreadId new = t"
    and self: "thread_inv (Suc b) (mk(obj := new)) pl t p'"
    and same: "wait_mon p' = wait_mon (pcs t)" "block_mon p' = block_mon (pcs t)" "lock_mon p' = lock_mon (pcs t)"
    and fresh: "fresh_mon p' = None" "fresh_mon (pcs t) = None"
  shows "inv (Suc b) (mk(obj := new)) pl (pcs(t := p')) wm"
proof -
  have pub: "published (mk(obj := new)) mid o' \<longleftrightarrow> published mk mid o'" for mid o'
    using old new by (auto simp: published_def)
  have "wm(t := wait_mon p') = wm" using same invD(8)[OF I, of t] by auto
  moreover have "inv (Suc b) (mk(obj := new)) pl (pcs(t := p')) (wm(t := wait_mon p'))"
  proof (rule inv_step[OF I t _ self])
    show "rely u (pcs u) mk pl (mk(obj := new)) pl" if "u \<noteq> t" for u
    proof -
      have "owns (mk(obj := new)) pl u o' \<longleftrightarrow> owns mk pl u o'" for o' using that old new by (auto simp: owns_def)
      then show ?thesis by (simp add: rely_def pub) (simp add: kept_monitor_def)
    qed
    show "monitor_ok (Suc b) (pcs(t := p')) mid m" if "pl mid = Some m" for mid m
      using monitor_ok_upd[OF invD(2)[OF I that]] same by (auto simp: wcount_def)
    show "\<exists>m. pl (GetMonitorId ((mk(obj := new)) o')) = Some m \<and> mobj m = o'"
      if "GetState ((mk(obj := new)) o') = STATE_HEAVY_LOCKED" for o'
      using that new invD(3)[OF I, of o'] by (auto split: if_splits)
    show "mark_ok ((mk(obj := new)) o')" for o' using new invD(4)[OF I] by auto
    show "published (mk(obj := new)) mid (mobj m) \<or> (\<exists>u. fresh_mon ((pcs(t := p')) u) = Some mid)" if "pl mid = Some m" for mid m
      using invD(5)[OF I that] fresh(2) pub by (metis fun_upd_other option.distinct(1))
  qed (use fresh in auto)
  ultimately show ?thesis by simp
qed

lemma fresh_monD: "fresh_mon p = Some mid \<Longrightarrow> \<exists>ik mark. p = At_Inflate (InflateCas ik mark mid)"
  by (cases p) (auto split: inflate_pc.splits)

lemma fresh_threadD:
  assumes "inv b mk pl pcs wm" "fresh_mon (pcs t) = Some mid"
  obtains ik mark m where "pcs t = At_Inflate (InflateCas ik mark mid)" "pl mid = Some m" "fresh_monitor t ik mark m"
    "\<not> published mk mid (mobj m)" "inflate_ok mk pl t ik"
proof -
  obtain ik mark where p: "pcs t = At_Inflate (InflateCas ik mark mid)" using fresh_monD[OF assms(2)] by blast
  then have "inflate_inv mk pl t (InflateCas ik mark mid)" using invD(7)[OF assms(1), of t] by simp
  then show ?thesis using that p by (auto simp: fresh_monitor_def)
qed

text \<open>A change of a published monitor that leaves alone what other threads own.\<close>

definition own_change :: "tid \<Rightarrow> Monitor \<Rightarrow> Monitor \<Rightarrow> bool" where
  "own_change t m m' \<longleftrightarrow>
     owner m' = owner m \<and> mlock m' = mlock m \<and> (recursiveCounter m' = recursiveCounter m \<or> owner m = Some t) \<or>
     owner m \<in> {None, Some t} \<and> owner m' \<in> {None, Some t} \<and> mlock m \<in> {None, Some t} \<and> mlock m' \<in> {None, Some t}"

definition refs_only :: "mon_id \<Rightarrow> pc \<Rightarrow> bool" where
  "refs_only mid p \<longleftrightarrow> wait_mon p \<in> {None, Some mid} \<and> block_mon p \<in> {None, Some mid} \<and> lock_mon p \<in> {None, Some mid} \<and>
     fresh_mon p = None"

lemma refs_onlyD:
  assumes "refs_only mid0 p"
  shows "fresh_mon p = None"
    "mid \<noteq> mid0 \<Longrightarrow> wcount mid p = 0" "mid \<noteq> mid0 \<Longrightarrow> wait_mon p \<noteq> Some mid" "mid \<noteq> mid0 \<Longrightarrow> lock_mon p \<noteq> Some mid"
proof -
  have "wait_mon p = None \<or> wait_mon p = Some mid0" "block_mon p = None \<or> block_mon p = Some mid0"
    "lock_mon p = None \<or> lock_mon p = Some mid0" using assms by (simp_all add: refs_only_def)
  then show "mid \<noteq> mid0 \<Longrightarrow> wcount mid p = 0" "mid \<noteq> mid0 \<Longrightarrow> wait_mon p \<noteq> Some mid" "mid \<noteq> mid0 \<Longrightarrow> lock_mon p \<noteq> Some mid"
    by (auto simp: wcount_def)
qed (use assms in \<open>simp add: refs_only_def\<close>)

lemma kept_own_change: "own_change t m m' \<Longrightarrow> mobj m' = mobj m \<Longrightarrow> u \<noteq> t \<Longrightarrow> kept_monitor u m m'"
  unfolding own_change_def kept_monitor_def by (elim disjE conjE insertE emptyE; simp)

lemma inv_monitor:
  assumes I: "inv b mk pl pcs wm" and t: "valid_tid t"
    and m: "published mk mid0 (mobj m)" "pl mid0 = Some m" "mobj m' = mobj m" "own_change t m m'"
    and m': "monitor_ok (Suc b) (pcs(t := p')) mid0 m'"
    and self: "thread_inv (Suc b) mk (pl(mid0 \<mapsto> m')) t p'"
    and refs: "refs_only mid0 (pcs t)" "refs_only mid0 p'"
  shows "inv (Suc b) mk (pl(mid0 \<mapsto> m')) (pcs(t := p')) (wm(t := wait_mon p'))"
proof (rule inv_step[OF I t _ self])
  show "rely u (pcs u) mk pl mk (pl(mid0 \<mapsto> m'))" if u: "u \<noteq> t" for u
  proof -
    have k: "kept_monitor u m m'" using m(4,3) u by (rule kept_own_change)
    have "fresh_mon (pcs u) \<noteq> Some mid0" by (rule notI, rule fresh_threadD[OF I], assumption) (use m in simp)
    moreover have "owns mk (pl(mid0 \<mapsto> m')) u obj \<longleftrightarrow> owns mk pl u obj" for obj
      using k m(2) unfolding owns_def kept_monitor_def by (cases "GetMonitorId (mk obj) = mid0") auto
    moreover have "\<exists>m2'. (pl(mid0 \<mapsto> m')) mid = Some m2' \<and> kept_monitor u m2 m2'" if "pl mid = Some m2" for mid m2
      using that k m(2) by (cases "mid = mid0") (simp_all add: kept_monitor_def)
    ultimately show ?thesis by (simp add: rely_def)
  qed
  show "monitor_ok (Suc b) (pcs(t := p')) mid m2" if p: "(pl(mid0 \<mapsto> m')) mid = Some m2" for mid m2
  proof (cases "mid = mid0")
    case False
    then have "monitor_ok b pcs mid m2" using p invD(2)[OF I] by simp
    moreover have "wcount mid p' = wcount mid (pcs t)" "wait_mon (pcs t) \<noteq> Some mid" "lock_mon (pcs t) \<noteq> Some mid"
      using refs_onlyD(2-4)[OF refs(1) False] refs_onlyD(2)[OF refs(2) False] by simp_all
    ultimately show ?thesis using monitor_ok_upd[of b pcs mid m2 "Suc b" p' t] by simp
  qed (use p m' in simp)
  show "\<exists>m2. (pl(mid0 \<mapsto> m')) (GetMonitorId (mk obj)) = Some m2 \<and> mobj m2 = obj" if "GetState (mk obj) = STATE_HEAVY_LOCKED" for obj
    using invD(3)[OF I that] m by auto
  show "mark_ok (mk obj)" for obj using invD(4)[OF I] .
  show "published mk mid (mobj m2) \<or> (\<exists>u. fresh_mon ((pcs(t := p')) u) = Some mid)" if p: "(pl(mid0 \<mapsto> m')) mid = Some m2" for mid m2
  proof (cases "mid = mid0")
    case False
    then have "published mk mid (mobj m2) \<or> (\<exists>u. fresh_mon (pcs u) = Some mid)" using p invD(5)[OF I] by simp
    then show ?thesis using refs_onlyD(1)[OF refs(1)] by (metis fun_upd_other option.distinct(1))
  qed (use p m in auto)
qed (use refs_onlyD(1)[OF refs(2)] in simp)

text \<open>A monitor that a thread waits on or is blocked at is published, so a number that is free in the pool is
  referred to by no thread.\<close>

lemma wait_published:
  assumes I: "inv b mk pl pcs wm" and w: "wait_mon (pcs t) = Some mid \<or> block_mon (pcs t) = Some mid \<or> lock_mon (pcs t) = Some mid"
  shows "\<exists>obj m. published mk mid obj \<and> pl mid = Some m \<and> mobj m = obj"
proof -
  have "\<exists>obj. published mk mid obj"
    using w invD(7)[OF I, of t]
    by (cases "pcs t"; simp split: acquire_pc.splits release_pc.splits wait_pc.splits if_splits)
      (auto simp: on_mon_def elim!: acquire_wait.elims release_wait.elims)
  then show ?thesis using invD(3)[OF I] by (auto simp: published_def)
qed

lemma wsum_zero:
  assumes "inv b mk pl pcs wm" "\<And>obj m. published mk mid obj \<Longrightarrow> pl mid = Some m \<Longrightarrow> mobj m = obj \<Longrightarrow> False"
  shows "wsum mid pcs = 0"
  using wait_published[OF assms(1), of _ mid] assms(2) by (auto simp: wsum_def wcount_def)

lemma wsum_bound:
  assumes I: "inv b mk pl pcs wm"
  shows "wsum mid pcs \<le> 2 ^ 14"
proof -
  let ?V = "{t. valid_tid t}"
  have c: "card ?V \<le> 2 ^ 13"
  proof -
    have "?V = {..LIGHT_LOCK_THREADID_MAX_COUNT}" by (auto simp: valid_tid_def)
    moreover have "unat ` {..LIGHT_LOCK_THREADID_MAX_COUNT} \<subseteq> {..unat LIGHT_LOCK_THREADID_MAX_COUNT}"
      by (auto simp: word_le_nat_alt)
    moreover have "inj_on unat {..LIGHT_LOCK_THREADID_MAX_COUNT}" by (auto intro: inj_onI simp: word_unat_eq_iff)
    ultimately have "card ?V \<le> card {..unat LIGHT_LOCK_THREADID_MAX_COUNT}" by (metis card_image card_mono finite_atMost)
    moreover have "unat LIGHT_LOCK_THREADID_MAX_COUNT = 8191" by code_simp
    ultimately show ?thesis by simp
  qed
  have "wsum mid pcs = (\<Sum>t \<in> ?V. wcount mid (pcs t))"
    unfolding wsum_def using invD(9)[OF I] by (intro sum.mono_neutral_right) (auto simp: wcount_def)
  also have "\<dots> \<le> (\<Sum>t \<in> ?V. 2)" by (rule sum_mono) (simp add: wcount_def)
  finally show ?thesis using c by simp
qed

text \<open>Inflation: a new monitor is put into the pool, published by a compare-and-swap on the mark word, or
  freed again.\<close>

lemma unused_id:
  assumes I: "inv b mk pl pcs wm" and n: "pl mid = None"
  shows "wsum mid pcs = 0" "wait_mon (pcs u) \<noteq> Some mid" "lock_mon (pcs u) \<noteq> Some mid" "block_mon (pcs u) \<noteq> Some mid"
    "fresh_mon (pcs u) \<noteq> Some mid" "\<not> published mk mid obj"
proof -
  show "wsum mid pcs = 0" using wsum_zero[OF I, of mid] n by simp
  show "wait_mon (pcs u) \<noteq> Some mid" "lock_mon (pcs u) \<noteq> Some mid" "block_mon (pcs u) \<noteq> Some mid"
    using wait_published[OF I, of u mid] n by auto
  show "fresh_mon (pcs u) \<noteq> Some mid" by (rule notI, rule fresh_threadD[OF I], assumption) (use n in simp)
  show "\<not> published mk mid obj" using invD(3)[OF I, of obj] n by (auto simp: published_def)
qed

definition quiet :: "pc \<Rightarrow> bool" where "quiet p \<longleftrightarrow> wait_mon p = None \<and> block_mon p = None \<and> lock_mon p = None"

lemma quietD: "quiet p \<Longrightarrow> wcount mid p = 0" "quiet p \<Longrightarrow> wait_mon p = None" "quiet p \<Longrightarrow> lock_mon p = None"
  by (simp_all add: quiet_def wcount_def)

lemma quiet_monitor_ok:
  "monitor_ok b pcs mid m \<Longrightarrow> b \<le> b' \<Longrightarrow> quiet (pcs t) \<Longrightarrow> quiet p' \<Longrightarrow> monitor_ok b' (pcs(t := p')) mid m"
  by (rule monitor_ok_upd) (simp_all add: quietD)

lemma quiet_wm: "inv b mk pl pcs wm \<Longrightarrow> quiet (pcs t) \<Longrightarrow> quiet p' \<Longrightarrow> wm(t := wait_mon p') = wm"
  using invD(8)[of b mk pl pcs wm t] by (auto simp: quietD)

lemma inv_create:
  assumes I: "inv b mk pl pcs wm" and t: "valid_tid t" and n: "pl mid0 = None"
    and m: "monitor_ok (Suc b) (pcs(t := p')) mid0 m" "fresh_mon p' = Some mid0"
    and self: "thread_inv (Suc b) mk (pl(mid0 \<mapsto> m)) t p'"
    and q: "quiet (pcs t)" "quiet p'" "fresh_mon (pcs t) = None"
  shows "inv (Suc b) mk (pl(mid0 \<mapsto> m)) (pcs(t := p')) wm"
proof -
  note unused = unused_id[OF I n]
  have "inv (Suc b) mk (pl(mid0 \<mapsto> m)) (pcs(t := p')) (wm(t := wait_mon p'))"
  proof (rule inv_step[OF I t _ self])
    show "rely u (pcs u) mk pl mk (pl(mid0 \<mapsto> m))" for u
    proof -
      have "owns mk (pl(mid0 \<mapsto> m)) u obj \<longleftrightarrow> owns mk pl u obj" for obj
        using unused(6)[of obj] by (auto simp: owns_def published_def)
      moreover have "\<exists>m'. (pl(mid0 \<mapsto> m)) mid = Some m' \<and> kept_monitor u m2 m'" if "pl mid = Some m2" for mid m2
        using that n by (cases "mid = mid0") (simp_all add: kept_monitor_def)
      ultimately show ?thesis using unused(5) by (simp add: rely_def)
    qed
    show "monitor_ok (Suc b) (pcs(t := p')) mid m2" if "(pl(mid0 \<mapsto> m)) mid = Some m2" for mid m2
      using that m(1) quiet_monitor_ok[OF invD(2)[OF I] _ q(1,2)] by (cases "mid = mid0") simp_all
    show "\<exists>m2. (pl(mid0 \<mapsto> m)) (GetMonitorId (mk obj)) = Some m2 \<and> mobj m2 = obj" if h: "GetState (mk obj) = STATE_HEAVY_LOCKED" for obj
    proof -
      obtain m2 where "pl (GetMonitorId (mk obj)) = Some m2" "mobj m2 = obj" using invD(3)[OF I h] by blast
      then show ?thesis using n by (intro exI[of _ m2]) auto
    qed
    show "mark_ok (mk obj)" for obj using invD(4)[OF I] .
    show "published mk mid (mobj m2) \<or> (\<exists>u. fresh_mon ((pcs(t := p')) u) = Some mid)" if p: "(pl(mid0 \<mapsto> m)) mid = Some m2" for mid m2
    proof (cases "mid = mid0")
      case True
      then show ?thesis using m(2) by (intro disjI2 exI[of _ t]) simp
    next
      case False
      then have "published mk mid (mobj m2) \<or> (\<exists>u. fresh_mon (pcs u) = Some mid)" using p invD(5)[OF I] by simp
      then show ?thesis using q(3) by (metis fun_upd_other option.distinct(1))
    qed
    show "fresh_mon (pcs u) \<noteq> Some mid" if "fresh_mon p' = Some mid" for mid u using that m(2) unused(5) by simp
  qed
  then show ?thesis using quiet_wm[OF I q(1,2)] by simp
qed

lemma owns_publish:
  assumes "mk obj0 = old" "GetState old \<noteq> STATE_HEAVY_LOCKED" "pl mid = Some m" "GetState new = STATE_HEAVY_LOCKED" "GetMonitorId new = mid"
    and "GetState old = STATE_LIGHT_LOCKED \<Longrightarrow> owner m = Some (GetThreadId old)"
    and "GetState old \<noteq> STATE_LIGHT_LOCKED \<Longrightarrow> owner m \<noteq> Some u"
  shows "owns (mk(obj0 := new)) pl u obj \<longleftrightarrow> owns mk pl u obj"
  using assms by (cases "obj = obj0"; cases "GetState old = STATE_LIGHT_LOCKED") (auto simp: owns_def)

lemma inv_publish:
  assumes I: "inv b mk pl pcs wm" and t: "valid_tid t" and p: "pcs t = At_Inflate (InflateCas ik old mid0)"
    and old: "mk (inflate_obj ik) = old" and small: "unat mid0 < 2 ^ 28"
    and self: "thread_inv (Suc b) (mk(inflate_obj ik := DecodeFromMonitor mid0 old)) pl t p'"
    and q: "quiet p'" "fresh_mon p' = None"
  shows "inv (Suc b) (mk(inflate_obj ik := DecodeFromMonitor mid0 old)) pl (pcs(t := p')) wm"
proof -
  let ?mk = "mk(inflate_obj ik := DecodeFromMonitor mid0 old)"
  have f: "fresh_mon (pcs t) = Some mid0" and q0: "quiet (pcs t)" using p by (simp_all add: quiet_def)
  obtain m where m: "pl mid0 = Some m" "fresh_monitor t ik old m" "\<not> published mk mid0 (mobj m)"
    using fresh_threadD[OF I f] p by auto
  have obj: "mobj m = inflate_obj ik" and st: "GetState old \<noteq> STATE_HEAVY_LOCKED"
    and light: "GetState old = STATE_LIGHT_LOCKED \<Longrightarrow> owner m = Some (GetThreadId old)"
    using m(2) by (auto simp: fresh_monitor_def)
  have new: "GetMonitorId (DecodeFromMonitor mid0 old) = mid0" using small by (rule decode_fields)
  have pub: "published ?mk mid o' \<longleftrightarrow> published mk mid o' \<or> o' = inflate_obj ik \<and> mid = mid0" for mid o'
    using old st new by (auto simp: published_def)
  have "inv (Suc b) ?mk pl (pcs(t := p')) (wm(t := wait_mon p'))"
  proof (rule inv_step[OF I t _ self])
    show "rely u (pcs u) mk pl ?mk pl" if u: "u \<noteq> t" for u
    proof -
      have "inflate_thread t ik = t" if "\<not> FOR_OTHER_THREAD ik" using that by (cases ik) auto
      then have "owner m \<noteq> Some u" if "GetState old \<noteq> STATE_LIGHT_LOCKED" using that m(2) u by (auto simp: fresh_monitor_def)
      with old st m(1) decode_states(1) new light have "owns ?mk pl u o' \<longleftrightarrow> owns mk pl u o'" for o' by (rule owns_publish)
      moreover have "fresh_mon (pcs u) \<noteq> Some mid0" using invD(6)[OF I f, of u] u by auto
      ultimately show ?thesis by (auto simp: rely_def pub kept_monitor_def)
    qed
    show "monitor_ok (Suc b) (pcs(t := p')) mid m2" if "pl mid = Some m2" for mid m2
      using quiet_monitor_ok[OF invD(2)[OF I that] _ q0 q(1)] by simp
    show "\<exists>m2. pl (GetMonitorId (?mk o')) = Some m2 \<and> mobj m2 = o'" if "GetState (?mk o') = STATE_HEAVY_LOCKED" for o'
      using that invD(3)[OF I, of o'] m(1) obj new by (cases "o' = inflate_obj ik") auto
    show "mark_ok (?mk o')" for o' using invD(4)[OF I] by (simp add: mark_ok_def)
    show "published ?mk mid (mobj m2) \<or> (\<exists>u. fresh_mon ((pcs(t := p')) u) = Some mid)" if "pl mid = Some m2" for mid m2
    proof (cases "mid = mid0")
      case True
      then show ?thesis using that m(1) obj by (simp add: pub)
    next
      case False
      then have "published mk mid (mobj m2) \<or> (\<exists>u. u \<noteq> t \<and> fresh_mon (pcs u) = Some mid)"
        using invD(5)[OF I that] f by (metis option.inject)
      then show ?thesis by (auto simp: pub)
    qed
  qed (use q in simp)
  then show ?thesis using quiet_wm[OF I q0 q(1)] by simp
qed

lemma inv_free:
  assumes I: "inv b mk pl pcs wm" and t: "valid_tid t" and f: "fresh_mon (pcs t) = Some mid0"
    and self: "thread_inv (Suc b) mk (pl(mid0 := None)) t p'"
    and q: "quiet p'" "fresh_mon p' = None"
  shows "inv (Suc b) mk (pl(mid0 := None)) (pcs(t := p')) wm"
proof -
  have q0: "quiet (pcs t)" using fresh_monD[OF f] by (auto simp: quiet_def)
  obtain m where m: "pl mid0 = Some m" "\<not> published mk mid0 (mobj m)" using fresh_threadD[OF I f] by metis
  have unpub: "\<not> published mk mid0 obj" for obj
    using invD(3)[OF I, of obj] m by (auto simp: published_def)
  have "inv (Suc b) mk (pl(mid0 := None)) (pcs(t := p')) (wm(t := wait_mon p'))"
  proof (rule inv_step[OF I t _ self])
    show "rely u (pcs u) mk pl mk (pl(mid0 := None))" if u: "u \<noteq> t" for u
    proof -
      have "owns mk (pl(mid0 := None)) u obj \<longleftrightarrow> owns mk pl u obj" for obj
        using unpub[of obj] by (auto simp: owns_def published_def)
      moreover have "\<exists>m'. (pl(mid0 := None)) mid = Some m' \<and> kept_monitor u m2 m'"
        if "pl mid = Some m2" "published mk mid (mobj m2)" for mid m2
        using that unpub by (cases "mid = mid0") (simp_all add: kept_monitor_def)
      moreover have "fresh_mon (pcs u) \<noteq> Some mid0" using invD(6)[OF I f, of u] u by auto
      ultimately show ?thesis by (simp add: rely_def)
    qed
    show "monitor_ok (Suc b) (pcs(t := p')) mid m2" if "(pl(mid0 := None)) mid = Some m2" for mid m2
      using that quiet_monitor_ok[OF invD(2)[OF I] _ q0 q(1)] by (cases "mid = mid0") simp_all
    show "\<exists>m2. (pl(mid0 := None)) (GetMonitorId (mk obj)) = Some m2 \<and> mobj m2 = obj" if h: "GetState (mk obj) = STATE_HEAVY_LOCKED" for obj
    proof -
      have "GetMonitorId (mk obj) \<noteq> mid0" using unpub[of obj] h by (auto simp: published_def)
      then show ?thesis using invD(3)[OF I h] by simp
    qed
    show "mark_ok (mk obj)" for obj using invD(4)[OF I] .
    show "published mk mid (mobj m2) \<or> (\<exists>u. fresh_mon ((pcs(t := p')) u) = Some mid)" if "(pl(mid0 := None)) mid = Some m2" for mid m2
    proof -
      have "mid \<noteq> mid0" "pl mid = Some m2" using that by (auto split: if_splits)
      then have "published mk mid (mobj m2) \<or> (\<exists>u. u \<noteq> t \<and> fresh_mon (pcs u) = Some mid)" using invD(5)[OF I] f by force
      then show ?thesis by auto
    qed
  qed (use q in simp)
  then show ?thesis using quiet_wm[OF I q0 q(1)] by simp
qed

text \<open>Steps of the collector on the mark word and deflation.\<close>

lemma inv_collector:
  assumes I: "inv b mk pl pcs wm" and g: "g \<in> set gc_ops"
  shows "inv (Suc b) (mk(obj := g (mk obj))) pl pcs wm"
proof -
  let ?mk = "mk(obj := g (mk obj))"
  note keep = gc_ops_keep[OF g]
  have same: "GetState (?mk o') = GetState (mk o')" "GetThreadId (?mk o') = GetThreadId (mk o')" "GetLockCount (?mk o') = GetLockCount (mk o')"
    "GetHash (?mk o') = GetHash (mk o')" "GetMonitorId (?mk o') = GetMonitorId (mk o')" for o' using keep by simp_all
  have pub: "published ?mk mid o' \<longleftrightarrow> published mk mid o'" for mid o' by (simp only: published_def same)
  show ?thesis
  proof (rule inv_env[OF I])
    show "rely u (pcs u) mk pl ?mk pl" for u by (simp only: rely_def pub owns_def same) (auto simp: kept_monitor_def)
    show "monitor_ok (Suc b) pcs mid m" if "pl mid = Some m" for mid m using monitor_ok_mono[OF invD(2)[OF I that]] by simp
    show "\<exists>m. pl (GetMonitorId (?mk o')) = Some m \<and> mobj m = o'" if "GetState (?mk o') = STATE_HEAVY_LOCKED" for o'
      using that invD(3)[OF I, of o'] by (simp only: same)
    show "mark_ok (?mk o')" for o' using invD(4)[OF I, of o'] unfolding mark_ok_def same .
    show "published ?mk mid (mobj m) \<or> (\<exists>u. fresh_mon (pcs u) = Some mid)" if "pl mid = Some m" for mid m
      using invD(5)[OF I that] by (simp only: pub)
  qed
qed

lemma fresh_not_stopped: "stopped p \<Longrightarrow> fresh_mon p = None"
  using fresh_monD[of p] by (cases "fresh_mon p") auto

text \<open>When all threads are stopped, no thread refers to a monitor whose counter of waiters is zero.\<close>

lemma stopped_refs:
  assumes "stopped p" "thread_inv b mk pl t p" "wcount mid p = 0"
    and that: "\<forall>mid' obj. mid' \<noteq> mid \<longrightarrow> published mk mid' obj \<longrightarrow> published mk' mid' obj"
  shows "thread_inv b mk' (pl(mid := None)) t p"
proof (cases p)
  case (At_Acquire q)
  then show ?thesis using assms that by (cases q) (auto simp: on_mon_def wcount_def split: if_splits acquire_cont.splits)
next
  case (At_Wait q)
  then show ?thesis using assms that by (cases q) (auto simp: wcount_def on_mon_def split: if_splits)
next
  case (At_Thin q) then show ?thesis by simp
next
  case (At_Enter q) then show ?thesis using assms(1) by (cases q) auto
next
  case (At_Inflate q) then show ?thesis using assms(1) by (cases q) auto
next
  case (At_Exit q) then show ?thesis using assms(1) by (cases q) auto
next
  case (At_Release q) then show ?thesis using assms(1) by (cases q) auto
next
  case (At_Notify q) then show ?thesis using assms(1) by (cases q) auto
next
  case (At_Hash q) then show ?thesis using assms(1) by (cases q) auto
qed simp

definition deflated_mark :: "Monitor \<Rightarrow> MarkWord \<Rightarrow> MarkWord" where
  "deflated_mark m v = (if hashCode m \<noteq> 0 then DecodeFromHash (hashCode m) v else DecodeFromUnlocked v)"

lemma inv_deflate:
  assumes I: "inv b mk pl pcs wm" and stop: "\<And>t. stopped (pcs t)"
    and m: "pl mid0 = Some m" "waitersCounter m = 0"
  shows "published mk mid0 (mobj m)"
    and "inv (Suc b) (mk(mobj m := deflated_mark m (mk (mobj m)))) (pl(mid0 := None)) pcs wm"
proof -
  let ?mk = "mk(mobj m := deflated_mark m (mk (mobj m)))"
  have ok: "monitor_ok b pcs mid0 m" using invD(2)[OF I m(1)] .
  show pub0: "published mk mid0 (mobj m)" using invD(5)[OF I m(1)] fresh_not_stopped[OF stop] by auto
  have zero: "wcount mid0 (pcs t) = 0" for t
  proof -
    have "wsum mid0 pcs = 0" using ok m(2) by (simp add: monitor_ok_def)
    then show ?thesis by (simp add: wsum_def)
  qed
  have st: "GetState (deflated_mark m v) \<noteq> STATE_HEAVY_LOCKED" for v by (simp add: deflated_mark_def)
  have other: "published ?mk mid obj" if "mid \<noteq> mid0" "published mk mid obj" for mid obj
    using that pub0 by (auto simp: published_def)
  show "inv (Suc b) ?mk (pl(mid0 := None)) pcs wm"
    unfolding inv_def
  proof (intro conjI allI impI)
    show "2 ^ 15 \<le> Suc b" using invD(1)[OF I] by simp
    show "monitor_ok (Suc b) pcs mid m2" if "(pl(mid0 := None)) mid = Some m2" for mid m2
      using that monitor_ok_mono[OF invD(2)[OF I]] by (auto split: if_splits)
    show "\<exists>m2. (pl(mid0 := None)) (GetMonitorId (?mk obj)) = Some m2 \<and> mobj m2 = obj" if h: "GetState (?mk obj) = STATE_HEAVY_LOCKED" for obj
    proof -
      have ne: "obj \<noteq> mobj m" using h st by auto
      then obtain m2 where m2: "pl (GetMonitorId (mk obj)) = Some m2" "mobj m2 = obj" using h invD(3)[OF I, of obj] by auto
      then have "GetMonitorId (mk obj) \<noteq> mid0" using ne m(1) by auto
      then show ?thesis using m2 ne by simp
    qed
    show "mark_ok (?mk obj)" for obj
    proof -
      have "unat (hashCode m) < 2 ^ 28" using ok by (simp add: monitor_ok_def)
      then have "mark_ok (deflated_mark m v)" for v using decode_fields(2) by (auto simp: mark_ok_def deflated_mark_def)
      then show ?thesis using invD(4)[OF I] by simp
    qed
    show "published ?mk mid (mobj m2) \<or> (\<exists>t. fresh_mon (pcs t) = Some mid)" if "(pl(mid0 := None)) mid = Some m2" for mid m2
      using that other invD(5)[OF I, of mid m2] by (auto split: if_splits)
    show "t = t'" if "fresh_mon (pcs t) = Some mid" "fresh_mon (pcs t') = Some mid" for t t' mid using that invD(6)[OF I] by blast
    show "thread_inv (Suc b) ?mk (pl(mid0 := None)) t (pcs t)" for t
    proof -
      have "thread_inv (Suc b) mk pl t (pcs t)" using thread_inv_kept[OF rely_refl _ invD(7)[OF I]] by simp
      then show ?thesis using other by (intro stopped_refs[OF stop _ zero]) auto
    qed
    show "wm t = wait_mon (pcs t)" for t using invD(8)[OF I] .
    show "pcs t = Idle" if "\<not> valid_tid t" for t using invD(9)[OF I that] .
  qed
qed

end
