(* ===== verification/Monitors_Spec.thy ===== *)
theory Monitors_Spec
  imports Monitors_Inv
begin

text \<open>
  The abstract lock that the monitors implement: per object an owner with the number of its entries, per
  thread the call it is in. The simulation and the invariant are proved for each program counter.
\<close>

section \<open>The abstract lock\<close>

text \<open>\<open>Called\<close>: the call has not taken effect. \<open>Away\<close>: waiting, with the number of entries given up.
  \<open>Regained\<close>: back from waiting, before the call ends. \<open>Free\<close>: the last call has taken effect, with its result.\<close>

datatype phase = Free result | Called call | Away obj nat | Regained obj

type_synonym locks = "obj \<Rightarrow> (tid \<times> nat) option"

inductive thread_spec :: "tid \<Rightarrow> locks \<Rightarrow> phase \<Rightarrow> locks \<Rightarrow> phase \<Rightarrow> bool" where
  sp_call: "thread_spec t lk (Free r) lk (Called c)"
| sp_enter: "lk obj = None \<Longrightarrow> thread_spec t lk (Called (C_Enter obj trylock)) (lk(obj \<mapsto> (t, 1))) (Free (R_State OK))"
| sp_reenter: "lk obj = Some (t, n) \<Longrightarrow>
    thread_spec t lk (Called (C_Enter obj trylock)) (lk(obj \<mapsto> (t, n + 1))) (Free (R_State OK))"
| sp_enter_fail: "thread_spec t lk (Called (C_Enter obj True)) lk (Free (R_State ILLEGAL))"
| sp_exit: "lk obj = Some (t, 1) \<Longrightarrow> thread_spec t lk (Called (C_Exit obj)) (lk(obj := None)) (Free (R_State OK))"
| sp_exit_inner: "lk obj = Some (t, n + 1) \<Longrightarrow> n > 0 \<Longrightarrow>
    thread_spec t lk (Called (C_Exit obj)) (lk(obj \<mapsto> (t, n))) (Free (R_State OK))"
| sp_exit_fail: "\<forall>n. lk obj \<noteq> Some (t, n) \<Longrightarrow> thread_spec t lk (Called (C_Exit obj)) lk (Free (R_State ILLEGAL))"
| sp_wait: "lk obj = Some (t, n) \<Longrightarrow> thread_spec t lk (Called (C_Wait obj st ign)) (lk(obj := None)) (Away obj n)"
| sp_wait_fail: "\<forall>n. lk obj \<noteq> Some (t, n) \<Longrightarrow> thread_spec t lk (Called (C_Wait obj st ign)) lk (Free (R_State ILLEGAL))"
| sp_regain: "lk obj = None \<Longrightarrow> thread_spec t lk (Away obj n) (lk(obj \<mapsto> (t, n))) (Regained obj)"
| sp_woken: "r \<noteq> ILLEGAL \<Longrightarrow> thread_spec t lk (Regained obj) lk (Free (R_State r))"
| sp_notify: "lk obj = Some (t, n) \<Longrightarrow> thread_spec t lk (Called (C_Notify obj every)) lk (Free (R_State OK))"
| sp_notify_fail: "\<forall>n. lk obj \<noteq> Some (t, n) \<Longrightarrow>
    thread_spec t lk (Called (C_Notify obj every)) lk (Free (R_State ILLEGAL))"
| sp_hash: "thread_spec t lk (Called (C_Hash obj)) lk (Free (R_Hash h))"

text \<open>A step of the lock is a step of one thread.\<close>

inductive spec_step :: "locks \<times> (tid \<Rightarrow> phase) \<Rightarrow> locks \<times> (tid \<Rightarrow> phase) \<Rightarrow> bool" where
  "thread_spec t lk (ph t) lk' q \<Longrightarrow> spec_step (lk, ph) (lk', ph(t := q))"

section \<open>Abstraction\<close>

text \<open>A thread that waits keeps its count in a local variable: between its return from \<open>lock_.Lock\<close> and the end of
  the wait, and between its start and the release, the monitor's counter is 1.\<close>

fun saved_count :: "pc \<Rightarrow> mon_id \<Rightarrow> u64 option" where
  "saved_count (At_Release (RelOwner (RK_Wait w c) mid')) mid = (if mid' = mid then Some c else None)"
| "saved_count (At_Acquire (AcqUncount (AK_Wait w c st) mid')) mid = (if mid' = mid then Some c else None)"
| "saved_count (At_Wait (WaitRestore w mid' c st)) mid = (if mid' = mid then Some c else None)"
| "saved_count _ mid = None"

definition count_of :: "Monitor \<Rightarrow> pc \<Rightarrow> mon_id \<Rightarrow> nat" where
  "count_of m p mid = (case saved_count p mid of None \<Rightarrow> unat (recursiveCounter m) | Some c \<Rightarrow> unat c)"

definition monitor_lock :: "(tid \<Rightarrow> pc) \<Rightarrow> mon_id \<Rightarrow> Monitor \<Rightarrow> (tid \<times> nat) option" where
  "monitor_lock pcs mid m = (case owner m of None \<Rightarrow> None | Some t \<Rightarrow> Some (t, count_of m (pcs t) mid))"

definition lock_at :: "MarkWord \<Rightarrow> mon_map \<Rightarrow> (tid \<Rightarrow> pc) \<Rightarrow> (tid \<times> nat) option" where
  "lock_at v pl pcs =
     (case GetState v of
        STATE_LIGHT_LOCKED \<Rightarrow> Some (GetThreadId v, unat (GetLockCount v))
      | STATE_HEAVY_LOCKED \<Rightarrow>
          (case pl (GetMonitorId v) of None \<Rightarrow> None | Some m \<Rightarrow> monitor_lock pcs (GetMonitorId v) m)
      | _ \<Rightarrow> None)"

definition lock_of :: "mark_map \<Rightarrow> mon_map \<Rightarrow> (tid \<Rightarrow> pc) \<Rightarrow> locks" where "lock_of mk pl pcs obj = lock_at (mk obj) pl pcs"

fun enter_call_of :: "enter_call \<Rightarrow> phase" where
  "enter_call_of (EC obj trylock _ _) = Called (C_Enter obj trylock)"

fun wait_call_of :: "wait_call \<Rightarrow> phase" where
  "wait_call_of (WC obj st ign) = Called (C_Wait obj st ign)"

fun thin_phase :: "thin_cont \<Rightarrow> phase" where
  "thin_phase (TK_Enter c) = enter_call_of c"
| "thin_phase (TK_Hash obj) = Called (C_Hash obj)"

fun inflate_phase :: "inflate_cont \<Rightarrow> phase" where
  "inflate_phase (IK_Enter c) = enter_call_of c"
| "inflate_phase (IK_EnterMax c) = enter_call_of c"
| "inflate_phase (IK_Wait w) = wait_call_of w"
| "inflate_phase (IK_Hash obj) = Called (C_Hash obj)"
| "inflate_phase (IK_Thin tk _) = thin_phase tk"

fun acquire_phase :: "acquire_cont \<Rightarrow> phase" where
  "acquire_phase (AK_Enter c) = enter_call_of c"
| "acquire_phase (AK_Wait w c _) = Away (wc_obj w) (unat c)"

fun acquired_phase :: "acquire_cont \<Rightarrow> phase" where
  "acquired_phase (AK_Enter c) = Free (R_State OK)"
| "acquired_phase (AK_Wait w c _) = Regained (wc_obj w)"

fun release_phase :: "release_cont \<Rightarrow> phase" where
  "release_phase (RK_Exit obj) = Called (C_Exit obj)"
| "release_phase (RK_Wait w c) = wait_call_of w"

fun released_phase :: "release_cont \<Rightarrow> phase" where
  "released_phase (RK_Exit obj) = Free (R_State OK)"
| "released_phase (RK_Wait w c) = Away (wc_obj w) (unat c)"

definition phase_of :: "pc \<Rightarrow> result \<Rightarrow> phase" where
  "phase_of p r =
     (case p of
        Idle \<Rightarrow> Free r
      | At_Enter q \<Rightarrow> (case q of EnterLoop c \<Rightarrow> enter_call_of c | EnterCas c _ _ \<Rightarrow> enter_call_of c | EnterLookup c _ \<Rightarrow> enter_call_of c)
      | At_Inflate q \<Rightarrow> (case q of InflateLoad ik \<Rightarrow> inflate_phase ik | InflateCreate ik _ \<Rightarrow> inflate_phase ik
                        | InflateCas ik _ _ \<Rightarrow> inflate_phase ik)
      | At_Thin q \<Rightarrow> (case q of ThinLoad tk \<Rightarrow> thin_phase tk | ThinSuspend tk _ \<Rightarrow> thin_phase tk | ThinAwait tk _ \<Rightarrow> thin_phase tk
                     | ThinRun tk _ \<Rightarrow> thin_phase tk | ThinSleep tk \<Rightarrow> thin_phase tk | ThinResume tk _ \<Rightarrow> thin_phase tk)
      | At_Acquire q \<Rightarrow> (case q of AcqOwner ak _ \<Rightarrow> acquire_phase ak | AcqTry ak _ \<Rightarrow> acquire_phase ak | AcqCount ak _ \<Rightarrow> acquire_phase ak
                        | AcqLock ak _ \<Rightarrow> acquire_phase ak | AcqSet _ ak _ \<Rightarrow> acquire_phase ak | AcqUncount ak _ \<Rightarrow> acquired_phase ak)
      | At_Exit q \<Rightarrow> (case q of ExitLoop obj \<Rightarrow> Called (C_Exit obj) | ExitCas obj _ _ \<Rightarrow> Called (C_Exit obj)
                     | ExitLookup obj _ \<Rightarrow> Called (C_Exit obj))
      | At_Release q \<Rightarrow> (case q of RelOwner rk _ \<Rightarrow> release_phase rk | RelSignal rk _ _ \<Rightarrow> released_phase rk
                        | RelUnlock rk _ \<Rightarrow> released_phase rk)
      | At_Wait q \<Rightarrow> (case q of WaitLoop w \<Rightarrow> wait_call_of w | WaitLookup w _ \<Rightarrow> wait_call_of w | WaitOwner w _ \<Rightarrow> wait_call_of w
                     | WaitCheck w _ c \<Rightarrow> Away (wc_obj w) (unat c) | WaitSafepoint w _ c \<Rightarrow> Away (wc_obj w) (unat c)
                     | WaitSleep w _ c \<Rightarrow> Away (wc_obj w) (unat c) | WaitRestore w _ _ _ \<Rightarrow> Regained (wc_obj w))
      | At_Notify q \<Rightarrow> (case q of NotifyLoad obj every \<Rightarrow> Called (C_Notify obj every) | NotifyLookup obj every _ \<Rightarrow> Called (C_Notify obj every)
                       | NotifyOwner obj every _ \<Rightarrow> Called (C_Notify obj every))
      | At_Hash q \<Rightarrow> (case q of HashLoop obj \<Rightarrow> Called (C_Hash obj) | HashCas obj _ _ \<Rightarrow> Called (C_Hash obj)
                     | HashLookup obj _ \<Rightarrow> Called (C_Hash obj) | HashRead obj _ \<Rightarrow> Called (C_Hash obj)
                     | HashStore obj _ _ \<Rightarrow> Called (C_Hash obj)))"

definition res_of :: "sys \<Rightarrow> tid \<Rightarrow> result" where "res_of s t = res (thr s t)"

definition locks_of :: "sys \<Rightarrow> locks" where "locks_of s = lock_of (marks s) (pool s) (pc_of s)"

definition phases_of :: "sys \<Rightarrow> tid \<Rightarrow> phase" where "phases_of s t = phase_of (pc_of s t) (res_of s t)"

text \<open>The hash code that an object has.\<close>

definition hash_at :: "MarkWord \<Rightarrow> mon_map \<Rightarrow> u32 option" where
  "hash_at v pl =
     (case GetState v of
        STATE_HASHED \<Rightarrow> Some (GetHash v)
      | STATE_HEAVY_LOCKED \<Rightarrow>
          (case pl (GetMonitorId v) of None \<Rightarrow> None | Some m \<Rightarrow> if hashCode m \<noteq> 0 then Some (hashCode m) else None)
      | _ \<Rightarrow> None)"

definition hash_of :: "mark_map \<Rightarrow> mon_map \<Rightarrow> obj \<Rightarrow> u32 option" where "hash_of mk pl obj = hash_at (mk obj) pl"

section \<open>Steps as changes of the projections\<close>

text \<open>\<open>moves t p r mk pl s s'\<close>: from \<open>s\<close> to \<open>s'\<close> the thread \<open>t\<close> moves to \<open>p\<close> with the result \<open>r\<close>, and the
  mark words and the pool become \<open>mk\<close> and \<open>pl\<close>.\<close>

definition moves :: "tid \<Rightarrow> pc \<Rightarrow> result \<Rightarrow> mark_map \<Rightarrow> mon_map \<Rightarrow> sys \<Rightarrow> sys \<Rightarrow> bool" where
  "moves t p r mk pl s s' \<longleftrightarrow>
     marks s' = mk \<and> pool s' = pl \<and> pc_of s' = (pc_of s)(t := p) \<and> wm_of s' = (wm_of s)(t := wait_mon p) \<and>
     res_of s' = (res_of s)(t := r)"

text \<open>What a step has to achieve.\<close>

definition step_ok :: "nat \<Rightarrow> sys \<Rightarrow> sys \<Rightarrow> bool" where
  "step_ok b s s' \<longleftrightarrow>
     sys_inv (Suc b) s' \<and>
     ((locks_of s', phases_of s') = (locks_of s, phases_of s) \<or> spec_step (locks_of s, phases_of s) (locks_of s', phases_of s')) \<and>
     (\<forall>obj h. hash_of (marks s) (pool s) obj = Some h \<longrightarrow> hash_of (marks s') (pool s') obj = Some h) \<and>
     (\<forall>t obj h. phases_of s t = Called (C_Hash obj) \<longrightarrow> phases_of s' t = Free (R_Hash h) \<longrightarrow>
        hash_of (marks s') (pool s') obj = Some h)"

lemma step_okI:
  assumes m: "moves t p r mk pl s s'" and t: "valid_tid t"
    and i: "inv (Suc b) mk pl ((pc_of s)(t := p)) ((wm_of s)(t := wait_mon p))"
    and sp: "phase_of p r = phases_of s t \<and> lock_of mk pl ((pc_of s)(t := p)) = locks_of s \<or>
      thread_spec t (locks_of s) (phases_of s t) (lock_of mk pl ((pc_of s)(t := p))) (phase_of p r)"
    and h: "\<And>obj h. hash_of (marks s) (pool s) obj = Some h \<Longrightarrow> hash_of mk pl obj = Some h"
    and hr: "\<And>obj h. phases_of s t = Called (C_Hash obj) \<Longrightarrow> phase_of p r = Free (R_Hash h) \<Longrightarrow> hash_of mk pl obj = Some h"
  shows "step_ok b s s'"
proof -
  have ph: "phases_of s' = (phases_of s)(t := phase_of p r)" using m by (auto simp: moves_def phases_of_def)
  have lk: "locks_of s' = lock_of mk pl ((pc_of s)(t := p))" using m by (simp add: moves_def locks_of_def)
  have "sys_inv (Suc b) s'" using i m by (simp add: moves_def sys_inv_def)
  moreover have "(locks_of s', phases_of s') = (locks_of s, phases_of s) \<or> spec_step (locks_of s, phases_of s) (locks_of s', phases_of s')"
    using sp unfolding ph lk by (auto intro: spec_step.intros)
  moreover have "hash_of (marks s') (pool s') obj = Some h" if "hash_of (marks s) (pool s) obj = Some h" for obj h
    using h[OF that] m by (simp add: moves_def)
  moreover have "hash_of (marks s') (pool s') obj = Some h" if "phases_of s u = Called (C_Hash obj)" "phases_of s' u = Free (R_Hash h)" for u obj h
    using that hr m unfolding ph by (auto simp: moves_def split: if_splits)
  ultimately show ?thesis unfolding step_ok_def by blast
qed

text \<open>The changes that the helper functions make.\<close>

lemma on_thread_sel [simp]:
  "marks (on_thread t f s) = marks s" "pool (on_thread t f s) = pool s" "lastId (on_thread t f s) = lastId s"
  "hashSeed (on_thread t f s) = hashSeed s" "thr (on_thread t f s) = (thr s)(t := f (thr s t))"
  by (simp_all add: on_thread_def)

lemma put_monitor_sel [simp]:
  "marks (put_monitor mid m s) = marks s" "pool (put_monitor mid m s) = (pool s)(mid \<mapsto> m)" "thr (put_monitor mid m s) = thr s"
  by (simp_all add: put_monitor_def)

lemma FreeMonitor_sel [simp]:
  "marks (FreeMonitor mid s) = marks s" "pool (FreeMonitor mid s) = (pool s)(mid := None)" "thr (FreeMonitor mid s) = thr s"
  by (simp_all add: FreeMonitor_def)


lemma view_on_thread:
  "(\<And>th. pc (f th) = pc th) \<Longrightarrow> pc_of (on_thread t f s) = pc_of s"
  "(\<And>th. waitingMonitor (f th) = waitingMonitor th) \<Longrightarrow> wm_of (on_thread t f s) = wm_of s"
  "(\<And>th. res (f th) = res th) \<Longrightarrow> res_of (on_thread t f s) = res_of s"
  by (auto simp: pc_of_def wm_of_def res_of_def)

lemma view_other [simp]:
  "pc_of (put_monitor mid m s) = pc_of s" "wm_of (put_monitor mid m s) = wm_of s" "res_of (put_monitor mid m s) = res_of s"
  "pc_of (FreeMonitor mid s) = pc_of s" "wm_of (FreeMonitor mid s) = wm_of s" "res_of (FreeMonitor mid s) = res_of s"
  "pc_of (s\<lparr>hashSeed := x\<rparr>) = pc_of s" "wm_of (s\<lparr>hashSeed := x\<rparr>) = wm_of s" "res_of (s\<lparr>hashSeed := x\<rparr>) = res_of s"
  "pc_of (s\<lparr>lastId := i\<rparr>) = pc_of s" "wm_of (s\<lparr>lastId := i\<rparr>) = wm_of s" "res_of (s\<lparr>lastId := i\<rparr>) = res_of s"
  "pc_of (s\<lparr>marks := mk\<rparr>) = pc_of s" "wm_of (s\<lparr>marks := mk\<rparr>) = wm_of s" "res_of (s\<lparr>marks := mk\<rparr>) = res_of s"
  by (auto simp: pc_of_def wm_of_def res_of_def)

definition silent :: "sys \<Rightarrow> sys \<Rightarrow> bool" where
  "silent s s' \<longleftrightarrow> marks s' = marks s \<and> pool s' = pool s \<and> pc_of s' = pc_of s \<and> wm_of s' = wm_of s \<and> res_of s' = res_of s"

lemma silent_on_thread:
  "(\<And>th. pc (f th) = pc th) \<Longrightarrow> (\<And>th. waitingMonitor (f th) = waitingMonitor th) \<Longrightarrow> (\<And>th. res (f th) = res th) \<Longrightarrow>
   silent s (on_thread t f s)"
  by (simp add: silent_def view_on_thread)

lemma silent_helpers:
  "silent s (PushLocalObjectLocked t obj s)" "silent s (PopLocalObjectLocked t obj s)" "silent s (AddMonitor t s)"
  "silent s (RemoveMonitor t s)" "silent s (leave_inflation_wait t s)" "silent s (SignalThread t s)"
  "silent s (on_thread t (\<lambda>th. th\<lparr>enterMonitorObject := x, monitorOldStatus := y\<rparr>) s)"
  "silent s (on_thread t (\<lambda>th. th\<lparr>enterMonitorObject := x, monitorOldStatus := y, enteringMonitor := z\<rparr>) s)"
  "silent s (on_thread t (\<lambda>th. th\<lparr>enteringMonitor := z\<rparr>) s)"
  "silent s (on_thread t (\<lambda>th. th\<lparr>signalled := c\<rparr>) s)"
  "silent s (on_thread t (\<lambda>th. th\<lparr>suspendCount := f th\<rparr>) s)"
  "silent s (on_thread t (\<lambda>th. th\<lparr>isInterrupted := c\<rparr>) s)"
  unfolding PushLocalObjectLocked_def PopLocalObjectLocked_def AddMonitor_def RemoveMonitor_def leave_inflation_wait_def SignalThread_def
  by (rule silent_on_thread; simp)+

lemmas view_helpers [simp] = silent_helpers[unfolded silent_def, THEN conjunct1]
  silent_helpers[unfolded silent_def, THEN conjunct2, THEN conjunct1]
  silent_helpers[unfolded silent_def, THEN conjunct2, THEN conjunct2, THEN conjunct1]
  silent_helpers[unfolded silent_def, THEN conjunct2, THEN conjunct2, THEN conjunct2, THEN conjunct1]
  silent_helpers[unfolded silent_def, THEN conjunct2, THEN conjunct2, THEN conjunct2, THEN conjunct2]

lemma view_goto [simp]:
  "marks (goto t p s) = marks s" "pool (goto t p s) = pool s" "pc_of (goto t p s) = (pc_of s)(t := p)"
  "wm_of (goto t p s) = wm_of s" "res_of (goto t p s) = res_of s"
  unfolding goto_def by (auto simp: view_on_thread) (auto simp: pc_of_def)

lemma view_ret [simp]:
  "marks (ret t r s) = marks s" "pool (ret t r s) = pool s" "pc_of (ret t r s) = (pc_of s)(t := Idle)"
  "wm_of (ret t r s) = wm_of s" "res_of (ret t r s) = (res_of s)(t := r)"
  unfolding ret_def by (auto simp: view_on_thread) (auto simp: pc_of_def res_of_def)

lemma view_waiting [simp]:
  "marks (on_thread t (\<lambda>th. th\<lparr>waitingMonitor := x, monitorOldStatus := y\<rparr>) s) = marks s"
  "pool (on_thread t (\<lambda>th. th\<lparr>waitingMonitor := x, monitorOldStatus := y\<rparr>) s) = pool s"
  "pc_of (on_thread t (\<lambda>th. th\<lparr>waitingMonitor := x, monitorOldStatus := y\<rparr>) s) = pc_of s"
  "wm_of (on_thread t (\<lambda>th. th\<lparr>waitingMonitor := x, monitorOldStatus := y\<rparr>) s) = (wm_of s)(t := x)"
  "res_of (on_thread t (\<lambda>th. th\<lparr>waitingMonitor := x, monitorOldStatus := y\<rparr>) s) = res_of s"
  by (auto simp: view_on_thread) (auto simp: wm_of_def)

lemma wm_same: "sys_inv b s \<Longrightarrow> wait_mon p = wait_mon (pc_of s t) \<Longrightarrow> (wm_of s)(t := wait_mon p) = wm_of s"
  using invD(8)[of b "marks s" "pool s" "pc_of s" "wm_of s" t] by (auto simp: sys_inv_def)

section \<open>Steps by class\<close>

lemma monitor_lock_upd:
  "saved_count p' mid = saved_count (pcs t) mid \<Longrightarrow> monitor_lock (pcs(t := p')) mid m = monitor_lock pcs mid m"
  by (auto simp: monitor_lock_def count_of_def split: option.splits)

lemma lock_of_upd:
  "(\<And>mid. saved_count p' mid = saved_count (pcs t) mid) \<Longrightarrow> lock_of mk pl (pcs(t := p')) = lock_of mk pl pcs"
  by (rule ext) (simp add: lock_of_def lock_at_def monitor_lock_upd cong: ObjectState.case_cong option.case_cong)

lemma saved_countD: "saved_count p mid = Some c \<Longrightarrow> thread_inv b mk pl t p \<Longrightarrow> \<exists>obj. published mk mid obj"
  by (induction p mid rule: saved_count.induct) (auto simp: on_mon_def split: if_splits)

lemma lock_of_published:
  "published mk mid obj \<Longrightarrow> pl mid = Some m \<Longrightarrow> lock_of mk pl pcs obj = monitor_lock pcs mid m"
  by (simp add: lock_of_def lock_at_def published_def)

lemma hash_of_published:
  "published mk mid obj \<Longrightarrow> pl mid = Some m \<Longrightarrow> hash_of mk pl obj = (if hashCode m \<noteq> 0 then Some (hashCode m) else None)"
  by (simp add: hash_of_def hash_at_def published_def)

lemma ok_local:
  assumes I: "sys_inv b s" and t: "valid_tid t" and m: "moves t p' r (marks s) (pool s) s s'"
    and self: "thread_inv (Suc b) (marks s) (pool s) t p'"
    and same: "wait_mon p' = wait_mon (pc_of s t)" "block_mon p' = block_mon (pc_of s t)" "lock_mon p' = lock_mon (pc_of s t)"
    and fresh: "fresh_mon p' = None" "fresh_mon (pc_of s t) = None"
    and saved: "\<And>mid. saved_count p' mid = saved_count (pc_of s t) mid"
    and sp: "phase_of p' r = phases_of s t \<or> thread_spec t (locks_of s) (phases_of s t) (locks_of s) (phase_of p' r)"
    and hr: "\<And>obj h. phases_of s t = Called (C_Hash obj) \<Longrightarrow> phase_of p' r = Free (R_Hash h) \<Longrightarrow>
      hash_of (marks s) (pool s) obj = Some h"
  shows "step_ok b s s'"
proof (rule step_okI[OF m t])
  have I': "inv b (marks s) (pool s) (pc_of s) (wm_of s)" using I by (simp add: sys_inv_def)
  show "inv (Suc b) (marks s) (pool s) ((pc_of s)(t := p')) ((wm_of s)(t := wait_mon p'))"
    using inv_local[OF I' t self same fresh] wm_same[OF I same(1)] by simp
  have "lock_of (marks s) (pool s) ((pc_of s)(t := p')) = locks_of s" using lock_of_upd[of p' "pc_of s" t] saved by (simp add: locks_of_def)
  then show "phase_of p' r = phases_of s t \<and> lock_of (marks s) (pool s) ((pc_of s)(t := p')) = locks_of s \<or>
      thread_spec t (locks_of s) (phases_of s t) (lock_of (marks s) (pool s) ((pc_of s)(t := p'))) (phase_of p' r)"
    using sp by simp
qed (use hr in auto)

text \<open>The lock of a mark word without a monitor.\<close>

definition mark_lock :: "MarkWord \<Rightarrow> (tid \<times> nat) option" where
  "mark_lock v = (if GetState v = STATE_LIGHT_LOCKED then Some (GetThreadId v, unat (GetLockCount v)) else None)"

lemma lock_of_mark: "GetState (mk obj) \<noteq> STATE_HEAVY_LOCKED \<Longrightarrow> lock_of mk pl pcs obj = mark_lock (mk obj)"
  by (simp add: lock_of_def lock_at_def mark_lock_def split: ObjectState.splits)

lemma lock_of_mark_other: "x \<noteq> obj \<Longrightarrow> lock_of (mk(obj := new)) pl pcs x = lock_of mk pl pcs x"
  by (simp add: lock_of_def)

lemma ok_mark:
  assumes I: "sys_inv b s" and t: "valid_tid t" and m: "moves t p' r ((marks s)(obj := new)) (pool s) s s'"
    and old: "marks s obj = old" "GetState old = STATE_UNLOCKED \<or> GetState old = STATE_LIGHT_LOCKED \<and> GetThreadId old = t"
    and new: "GetState new \<noteq> STATE_HEAVY_LOCKED" "mark_ok new" "GetState new = STATE_LIGHT_LOCKED \<Longrightarrow> GetThreadId new = t"
    and self: "thread_inv (Suc b) ((marks s)(obj := new)) (pool s) t p'"
    and quiet: "quiet (pc_of s t)" "quiet p'" "fresh_mon p' = None" "fresh_mon (pc_of s t) = None"
    and saved: "\<And>mid. saved_count p' mid = None" "\<And>mid. saved_count (pc_of s t) mid = None"
    and sp: "phase_of p' r = phases_of s t \<and> mark_lock new = mark_lock old \<or>
      thread_spec t (locks_of s) (phases_of s t) ((locks_of s)(obj := mark_lock new)) (phase_of p' r)"
    and hr: "\<And>h. phase_of p' r \<noteq> Free (R_Hash h)"
  shows "step_ok b s s'"
proof (rule step_okI[OF m t])
  have I': "inv b (marks s) (pool s) (pc_of s) (wm_of s)" using I by (simp add: sys_inv_def)
  have same: "wait_mon p' = wait_mon (pc_of s t)" "block_mon p' = block_mon (pc_of s t)" "lock_mon p' = lock_mon (pc_of s t)"
    using quiet by (simp_all add: quiet_def)
  show "inv (Suc b) ((marks s)(obj := new)) (pool s) ((pc_of s)(t := p')) ((wm_of s)(t := wait_mon p'))"
    using inv_mark[OF I' t old(1) _ _ new self same quiet(3,4)] old(2) wm_same[OF I same(1)] by auto
  have lk: "lock_of ((marks s)(obj := new)) (pool s) ((pc_of s)(t := p')) = (locks_of s)(obj := mark_lock new)"
  proof -
    have "lock_of ((marks s)(obj := new)) (pool s) (pc_of s) = (locks_of s)(obj := mark_lock new)"
    proof
      fix x
      show "lock_of ((marks s)(obj := new)) (pool s) (pc_of s) x = ((locks_of s)(obj := mark_lock new)) x"
        using new(1) by (cases "x = obj") (simp_all add: lock_of_mark lock_of_mark_other locks_of_def)
    qed
    then show ?thesis using lock_of_upd[of p' "pc_of s" t] saved by simp
  qed
  have "locks_of s obj = mark_lock old" using old by (auto simp: locks_of_def lock_of_mark)
  then show "phase_of p' r = phases_of s t \<and> lock_of ((marks s)(obj := new)) (pool s) ((pc_of s)(t := p')) = locks_of s \<or>
      thread_spec t (locks_of s) (phases_of s t) (lock_of ((marks s)(obj := new)) (pool s) ((pc_of s)(t := p'))) (phase_of p' r)"
    using sp unfolding lk by auto
  show "hash_of ((marks s)(obj := new)) (pool s) o' = Some h" if "hash_of (marks s) (pool s) o' = Some h" for o' h
    using that old by (cases "o' = obj") (auto simp: hash_of_def hash_at_def)
qed (use hr in auto)

lemma ok_monitor:
  assumes I: "sys_inv b s" and t: "valid_tid t" and mv: "moves t p' r (marks s) ((pool s)(mid0 \<mapsto> m')) s s'"
    and m: "published (marks s) mid0 (mobj m)" "pool s mid0 = Some m" "mobj m' = mobj m" "own_change t m m'"
    and m': "monitor_ok (Suc b) ((pc_of s)(t := p')) mid0 m'"
    and self: "thread_inv (Suc b) (marks s) ((pool s)(mid0 \<mapsto> m')) t p'"
    and refs: "refs_only mid0 (pc_of s t)" "refs_only mid0 p'"
    and saved: "\<And>mid. mid \<noteq> mid0 \<Longrightarrow> saved_count p' mid = saved_count (pc_of s t) mid"
    and sp: "monitor_lock ((pc_of s)(t := p')) mid0 m' = monitor_lock (pc_of s) mid0 m \<and>
        (phase_of p' r = phases_of s t \<or> thread_spec t (locks_of s) (phases_of s t) (locks_of s) (phase_of p' r)) \<or>
      thread_spec t (locks_of s) (phases_of s t)
        ((locks_of s)(mobj m := monitor_lock ((pc_of s)(t := p')) mid0 m')) (phase_of p' r)"
    and h: "hashCode m \<noteq> 0 \<Longrightarrow> hashCode m' = hashCode m"
    and hr: "\<And>obj h. phases_of s t = Called (C_Hash obj) \<Longrightarrow> phase_of p' r = Free (R_Hash h) \<Longrightarrow> obj = mobj m \<and> hashCode m' = h \<and> h \<noteq> 0"
  shows "step_ok b s s'"
proof (rule step_okI[OF mv t])
  have I': "inv b (marks s) (pool s) (pc_of s) (wm_of s)" using I by (simp add: sys_inv_def)
  show "inv (Suc b) (marks s) ((pool s)(mid0 \<mapsto> m')) ((pc_of s)(t := p')) ((wm_of s)(t := wait_mon p'))"
    by (rule inv_monitor[OF I' t m m' self refs])
  have other: "GetMonitorId (marks s obj) \<noteq> mid0" if "GetState (marks s obj) = STATE_HEAVY_LOCKED" "obj \<noteq> mobj m" for obj
    using invD(3)[OF I' that(1)] m(2) that(2) by auto
  have lk: "lock_of (marks s) ((pool s)(mid0 \<mapsto> m')) ((pc_of s)(t := p')) = (locks_of s)(mobj m := monitor_lock ((pc_of s)(t := p')) mid0 m')"
  proof
    fix obj
    show "lock_of (marks s) ((pool s)(mid0 \<mapsto> m')) ((pc_of s)(t := p')) obj = ((locks_of s)(mobj m := monitor_lock ((pc_of s)(t := p')) mid0 m')) obj"
    proof (cases "obj = mobj m")
      case True
      then show ?thesis using lock_of_published[OF m(1), of "(pool s)(mid0 \<mapsto> m')" m'] by simp
    next
      case False
      show ?thesis
      proof (cases "GetState (marks s obj) = STATE_HEAVY_LOCKED")
        case True
        then have "GetMonitorId (marks s obj) \<noteq> mid0" using other False by blast
        then show ?thesis using True False saved[of "GetMonitorId (marks s obj)"] monitor_lock_upd[of p' _ "pc_of s" t]
          by (simp add: locks_of_def lock_of_def lock_at_def cong: option.case_cong)
      next
        case non: False
        then show ?thesis using False by (simp add: locks_of_def lock_of_def lock_at_def split: ObjectState.splits)
      qed
    qed
  qed
  have "locks_of s (mobj m) = monitor_lock (pc_of s) mid0 m" using lock_of_published[OF m(1), of "pool s" m] m(2) by (simp add: locks_of_def)
  then have "monitor_lock ((pc_of s)(t := p')) mid0 m' = monitor_lock (pc_of s) mid0 m \<Longrightarrow>
      (locks_of s)(mobj m := monitor_lock ((pc_of s)(t := p')) mid0 m') = locks_of s" by (metis fun_upd_triv)
  then show "phase_of p' r = phases_of s t \<and> lock_of (marks s) ((pool s)(mid0 \<mapsto> m')) ((pc_of s)(t := p')) = locks_of s \<or>
      thread_spec t (locks_of s) (phases_of s t) (lock_of (marks s) ((pool s)(mid0 \<mapsto> m')) ((pc_of s)(t := p'))) (phase_of p' r)"
    using sp unfolding lk by metis
  have new: "hash_of (marks s) ((pool s)(mid0 \<mapsto> m')) (mobj m) = (if hashCode m' \<noteq> 0 then Some (hashCode m') else None)"
    using hash_of_published[OF m(1), of "(pool s)(mid0 \<mapsto> m')" m'] by simp
  show "hash_of (marks s) ((pool s)(mid0 \<mapsto> m')) obj = Some k" if k: "hash_of (marks s) (pool s) obj = Some k" for obj k
  proof (cases "obj = mobj m")
    case True
    then have "hashCode m = k \<and> k \<noteq> 0" using k hash_of_published[OF m(1), of "pool s" m] m(2) by (simp split: if_splits)
    then show ?thesis using new h True by simp
  next
    case False
    then show ?thesis using k other[of obj] by (auto simp: hash_of_def hash_at_def split: ObjectState.splits)
  qed
  show "hash_of (marks s) ((pool s)(mid0 \<mapsto> m')) obj = Some k"
    if "phases_of s t = Called (C_Hash obj)" "phase_of p' r = Free (R_Hash k)" for obj k
    using hr[OF that] new by simp
qed

lemma unpublished_upd:
  assumes "\<And>obj. \<not> published mk mid obj"
  shows "lock_of mk (pl(mid := x)) pcs = lock_of mk pl pcs" "hash_of mk (pl(mid := x)) = hash_of mk pl"
proof -
  have "GetState (mk obj) = STATE_HEAVY_LOCKED \<Longrightarrow> GetMonitorId (mk obj) \<noteq> mid" for obj using assms[of obj] by (auto simp: published_def)
  then show "lock_of mk (pl(mid := x)) pcs = lock_of mk pl pcs" "hash_of mk (pl(mid := x)) = hash_of mk pl"
    by (simp_all add: fun_eq_iff lock_of_def lock_at_def hash_of_def hash_at_def split: ObjectState.splits)
qed

lemma ok_create:
  assumes I: "sys_inv b s" and t: "valid_tid t" and mv: "moves t p' r (marks s) ((pool s)(mid0 \<mapsto> m)) s s'" and n: "pool s mid0 = None"
    and m: "monitor_ok (Suc b) ((pc_of s)(t := p')) mid0 m" "fresh_mon p' = Some mid0"
    and self: "thread_inv (Suc b) (marks s) ((pool s)(mid0 \<mapsto> m)) t p'"
    and q: "quiet (pc_of s t)" "quiet p'" "fresh_mon (pc_of s t) = None"
    and saved: "\<And>mid. saved_count p' mid = None" "\<And>mid. saved_count (pc_of s t) mid = None"
    and sp: "phase_of p' r = phases_of s t"
  shows "step_ok b s s'"
proof (rule step_okI[OF mv t])
  have I': "inv b (marks s) (pool s) (pc_of s) (wm_of s)" using I by (simp add: sys_inv_def)
  note un = unpublished_upd[of "marks s" mid0, OF unused_id(6)[OF I' n]]
  have "wait_mon p' = wait_mon (pc_of s t)" using q by (simp add: quiet_def)
  then show "inv (Suc b) (marks s) ((pool s)(mid0 \<mapsto> m)) ((pc_of s)(t := p')) ((wm_of s)(t := wait_mon p'))"
    using inv_create[OF I' t n m self q] wm_same[OF I] by simp
  show "phase_of p' r = phases_of s t \<and> lock_of (marks s) ((pool s)(mid0 \<mapsto> m)) ((pc_of s)(t := p')) = locks_of s \<or>
      thread_spec t (locks_of s) (phases_of s t) (lock_of (marks s) ((pool s)(mid0 \<mapsto> m)) ((pc_of s)(t := p'))) (phase_of p' r)"
    using sp un lock_of_upd[of p' "pc_of s" t] saved by (simp add: locks_of_def)
  show "hash_of (marks s) ((pool s)(mid0 \<mapsto> m)) obj = Some h" if "hash_of (marks s) (pool s) obj = Some h" for obj h
    using that un by simp
qed (use sp in auto)

lemma ok_free:
  assumes I: "sys_inv b s" and t: "valid_tid t" and mv: "moves t p' r (marks s) ((pool s)(mid0 := None)) s s'"
    and f: "fresh_mon (pc_of s t) = Some mid0"
    and self: "thread_inv (Suc b) (marks s) ((pool s)(mid0 := None)) t p'"
    and q: "quiet p'" "fresh_mon p' = None"
    and saved: "\<And>mid. saved_count p' mid = None"
    and sp: "phase_of p' r = phases_of s t \<or> thread_spec t (locks_of s) (phases_of s t) (locks_of s) (phase_of p' r)"
    and hr: "\<And>h. phase_of p' r \<noteq> Free (R_Hash h)"
  shows "step_ok b s s'"
proof (rule step_okI[OF mv t])
  have I': "inv b (marks s) (pool s) (pc_of s) (wm_of s)" using I by (simp add: sys_inv_def)
  obtain ik mark m where p: "pc_of s t = At_Inflate (InflateCas ik mark mid0)" "pool s mid0 = Some m" "\<not> published (marks s) mid0 (mobj m)"
    using fresh_threadD[OF I' f] by metis
  have "\<not> published (marks s) mid0 obj" for obj using invD(3)[OF I', of obj] p by (auto simp: published_def)
  note un = unpublished_upd[of "marks s" mid0, OF this]
  have "wait_mon p' = wait_mon (pc_of s t)" using q p by (simp add: quiet_def)
  then show "inv (Suc b) (marks s) ((pool s)(mid0 := None)) ((pc_of s)(t := p')) ((wm_of s)(t := wait_mon p'))"
    using inv_free[OF I' t f self q] wm_same[OF I] by simp
  show "phase_of p' r = phases_of s t \<and> lock_of (marks s) ((pool s)(mid0 := None)) ((pc_of s)(t := p')) = locks_of s \<or>
      thread_spec t (locks_of s) (phases_of s t) (lock_of (marks s) ((pool s)(mid0 := None)) ((pc_of s)(t := p'))) (phase_of p' r)"
    using sp un lock_of_upd[of p' "pc_of s" t] saved p by (simp add: locks_of_def)
  show "hash_of (marks s) ((pool s)(mid0 := None)) obj = Some h" if "hash_of (marks s) (pool s) obj = Some h" for obj h
    using that un by simp
qed (use hr in auto)

lemma monitor_id_bound: "mid < MAX_MONITOR_ID \<Longrightarrow> unat mid < 2 ^ 28"
proof -
  have "MAX_MONITOR_ID = 268435455" by code_simp
  moreover assume "mid < MAX_MONITOR_ID"
  ultimately have "mid < 268435455" by simp
  then show ?thesis by (simp add: word_less_nat_alt)
qed

lemma unat_ucast_u64: "unat (ucast (x :: u32) :: u64) = unat x"
  using unsigned_less[of x, where 'a = nat] by (simp add: unsigned_ucast_eq take_bit_nat_eq_self)

lemma ok_publish:
  assumes I: "sys_inv b s" and t: "valid_tid t"
    and mv: "moves t p' r ((marks s)(inflate_obj ik := DecodeFromMonitor mid0 old)) (pool s) s s'"
    and p: "pc_of s t = At_Inflate (InflateCas ik old mid0)" and old: "marks s (inflate_obj ik) = old"
    and m: "pool s mid0 = Some m" "fresh_monitor t ik old m"
    and self: "thread_inv (Suc b) ((marks s)(inflate_obj ik := DecodeFromMonitor mid0 old)) (pool s) t p'"
    and q: "quiet p'" "fresh_mon p' = None"
    and saved: "\<And>mid. saved_count p' mid = None"
    and sp: "GetState old = STATE_LIGHT_LOCKED \<and>
        (phase_of p' r = phases_of s t \<or> thread_spec t (locks_of s) (phases_of s t) (locks_of s) (phase_of p' r)) \<or>
      GetState old \<noteq> STATE_LIGHT_LOCKED \<and>
        thread_spec t (locks_of s) (phases_of s t) ((locks_of s)(inflate_obj ik \<mapsto> (t, 1))) (phase_of p' r)"
    and hr: "\<And>h. phase_of p' r \<noteq> Free (R_Hash h)"
  shows "step_ok b s s'"
proof (rule step_okI[OF mv t])
  let ?mk = "(marks s)(inflate_obj ik := DecodeFromMonitor mid0 old)"
  have I': "inv b (marks s) (pool s) (pc_of s) (wm_of s)" using I by (simp add: sys_inv_def)
  have "mid0 < MAX_MONITOR_ID" using invD(2)[OF I' m(1)] by (simp add: monitor_ok_def)
  then have small: "unat mid0 < 2 ^ 28" by (rule monitor_id_bound)
  have "wait_mon p' = wait_mon (pc_of s t)" using q p by (simp add: quiet_def)
  then show "inv (Suc b) ?mk (pool s) ((pc_of s)(t := p')) ((wm_of s)(t := wait_mon p'))"
    using inv_publish[OF I' t p old small self q] wm_same[OF I] by simp
  have new: "GetMonitorId (DecodeFromMonitor mid0 old) = mid0" using small by (rule decode_fields)
  have unpub: "\<not> published (marks s) mid0 (mobj m)"
    using invD(7)[OF I', of t] p m by (simp add: fresh_monitor_def)
  have saved': "saved_count (((pc_of s)(t := p')) u) mid0 = None" for u
  proof (cases "saved_count (pc_of s u) mid0")
    case (Some c)
    then obtain obj where "published (marks s) mid0 obj" using saved_countD invD(7)[OF I', of u] by blast
    then show ?thesis using invD(3)[OF I', of obj] m(1) unpub by (auto simp: published_def)
  qed (use saved in simp)
  have mon: "monitor_lock ((pc_of s)(t := p')) mid0 m = Some (inflate_thread t ik, unat (recursiveCounter m))"
    using m(2) saved' by (simp add: monitor_lock_def fresh_monitor_def count_of_def del: fun_upd_apply)
  have lk: "lock_of ?mk (pool s) ((pc_of s)(t := p')) = (locks_of s)(inflate_obj ik \<mapsto> (inflate_thread t ik, unat (recursiveCounter m)))"
  proof -
    have "lock_of ?mk (pool s) ((pc_of s)(t := p')) obj = lock_of (marks s) (pool s) ((pc_of s)(t := p')) obj" if "obj \<noteq> inflate_obj ik" for obj
      using that by (rule lock_of_mark_other)
    moreover have "lock_of ?mk (pool s) ((pc_of s)(t := p')) (inflate_obj ik) = Some (inflate_thread t ik, unat (recursiveCounter m))"
      using m(1) mon new by (simp add: lock_of_def lock_at_def)
    moreover have "lock_of (marks s) (pool s) ((pc_of s)(t := p')) = locks_of s"
      using lock_of_upd[of p' "pc_of s" t] saved p by (simp add: locks_of_def)
    ultimately show ?thesis by auto
  qed
  show "phase_of p' r = phases_of s t \<and> lock_of ?mk (pool s) ((pc_of s)(t := p')) = locks_of s \<or>
      thread_spec t (locks_of s) (phases_of s t) (lock_of ?mk (pool s) ((pc_of s)(t := p'))) (phase_of p' r)"
  proof (cases "GetState old = STATE_LIGHT_LOCKED")
    case True
    then have "locks_of s (inflate_obj ik) = Some (GetThreadId old, unat (GetLockCount old))" using old by (simp add: locks_of_def lock_of_def lock_at_def)
    moreover have "GetThreadId old = inflate_thread t ik" "unat (recursiveCounter m) = unat (GetLockCount old)"
      using m(2) True by (auto simp: fresh_monitor_def unat_ucast_u64)
    ultimately have "(locks_of s)(inflate_obj ik \<mapsto> (inflate_thread t ik, unat (recursiveCounter m))) = locks_of s" by (auto intro!: ext)
    then show ?thesis using sp True lk by simp
  next
    case False
    then have "\<not> FOR_OTHER_THREAD ik" "recursiveCounter m = 1" using m(2) by (auto simp: fresh_monitor_def)
    then have "inflate_thread t ik = t" "unat (recursiveCounter m) = 1" by (cases ik; simp)+
    then show ?thesis using sp False lk by simp
  qed
  show "hash_of ?mk (pool s) obj = Some h" if "hash_of (marks s) (pool s) obj = Some h" for obj h
  proof (cases "obj = inflate_obj ik")
    case True
    then have "GetState old = STATE_HASHED" "GetHash old = h" using that old m(2) by (auto simp: hash_of_def hash_at_def fresh_monitor_def)
    moreover have "h \<noteq> 0" using invD(4)[OF I', of "inflate_obj ik"] old calculation by (simp add: mark_ok_def)
    ultimately show ?thesis using m True new by (simp add: hash_of_def hash_at_def fresh_monitor_def)
  next
    case False
    then show ?thesis using that by (simp add: hash_of_def)
  qed
qed (use hr in auto)

end
