(* ===== verification/Monitors_Steps.thy ===== *)
theory Monitors_Steps
  imports Monitors_Spec
begin

text \<open>
  Every step of a thread keeps the invariant, is a step of the abstract lock or none, and keeps the hash codes,
  and no step ends in a fault that the code does not expect: one lemma per program counter, from the lemmas
  on the classes of steps.
\<close>

section \<open>Steps that move a program counter\<close>

text \<open>The faults that can happen: the pool is full, there is no memory, a thread exits a heavyweight lock or
  waits on a lightweight lock of another thread.\<close>

definition expected_fault :: "fault \<Rightarrow> bool" where
  "expected_fault f \<longleftrightarrow> f \<in> {F_OutOfMonitorIds, F_OutOfMemory, F_ReleaseNotOwner, F_WaitNotOwner}"

fun outcome_ok :: "nat \<Rightarrow> sys \<Rightarrow> outcome \<Rightarrow> bool" where
  "outcome_ok b s (Go s') = step_ok b s s'"
| "outcome_ok b s Blocked = True"
| "outcome_ok b s (Fatal f) = expected_fault f"

lemma thread_fact: "sys_inv b s \<Longrightarrow> pc_of s t = p \<Longrightarrow> thread_inv b (marks s) (pool s) t p"
  using invD(7)[of b "marks s" "pool s" "pc_of s" "wm_of s" t] by (auto simp: sys_inv_def)

lemma mark_fact: "sys_inv b s \<Longrightarrow> mark_ok (marks s obj)"
  using invD(4)[of b "marks s" "pool s" "pc_of s" "wm_of s"] by (simp add: sys_inv_def)

lemma monitor_fact: "sys_inv b s \<Longrightarrow> pool s mid = Some m \<Longrightarrow> monitor_ok b (pc_of s) mid m"
  using invD(2)[of b "marks s" "pool s" "pc_of s" "wm_of s"] by (simp add: sys_inv_def)

lemma published_fact:
  "sys_inv b s \<Longrightarrow> published (marks s) mid obj \<Longrightarrow> \<exists>m. pool s mid = Some m \<and> mobj m = obj \<and> monitor_ok b (pc_of s) mid m"
  using invD(3)[of b "marks s" "pool s" "pc_of s" "wm_of s" obj] invD(2)[of b "marks s" "pool s" "pc_of s" "wm_of s" mid]
  by (auto simp: sys_inv_def published_def)

lemma wm_fact: "sys_inv b s \<Longrightarrow> wm_of s t = wait_mon (pc_of s t)"
  using invD(8)[of b "marks s" "pool s" "pc_of s" "wm_of s" t] by (simp add: sys_inv_def)

lemma enter_call_of_eq [simp]: "enter_call_of c = Called (C_Enter (ec_obj c) (ec_trylock c))" by (cases c) simp
lemma wait_call_of_eq [simp]: "wait_call_of w = Called (C_Wait (wc_obj w) (wc_status w) (wc_ignoreInterruption w))" by (cases w) simp

lemma ok_Suc [simp]:
  "saved_ok b c \<Longrightarrow> saved_ok (Suc b) c" "acquire_ok b ak \<Longrightarrow> acquire_ok (Suc b) ak" "release_ok b rk \<Longrightarrow> release_ok (Suc b) rk"
  by (auto intro: saved_ok_mono acquire_ok_mono release_ok_mono)

lemma call_not_free [simp]:
  "thin_phase tk \<noteq> Free r" "inflate_phase ik \<noteq> Free r" "acquire_phase ak \<noteq> Free r" "release_phase rk \<noteq> Free r"
  "acquired_phase ak \<noteq> Free (R_Hash h)" "released_phase rk \<noteq> Free (R_Hash h)"
proof -
  show tk: "thin_phase tk \<noteq> Free r" for tk by (cases tk) simp_all
  show "inflate_phase ik \<noteq> Free r" using tk by (cases ik) simp_all
qed (cases ak; simp | cases rk; simp)+

lemma phase_not_hash: "p \<noteq> Idle \<Longrightarrow> phase_of p r \<noteq> Free (R_Hash h)"
  by (cases p) (simp_all add: phase_of_def split: enter_pc.split inflate_pc.split thin_pc.split acquire_pc.split exit_pc.split
      release_pc.split wait_pc.split notify_pc.split hash_pc.split)

lemma ok_goto:
  assumes I: "sys_inv b s" and t: "valid_tid t" and p: "pc_of s t = p" and s1: "silent s s1"
    and self: "thread_inv (Suc b) (marks s) (pool s) t p'" and p': "p' \<noteq> Idle"
    and same: "wait_mon p' = wait_mon p" "block_mon p' = block_mon p" "lock_mon p' = lock_mon p" "fresh_mon p' = None" "fresh_mon p = None"
    and saved: "\<And>mid. saved_count p' mid = saved_count p mid"
    and sp: "phase_of p' R_None = phase_of p (res_of s t) \<or> thread_spec t (locks_of s) (phase_of p (res_of s t)) (locks_of s) (phase_of p' R_None)"
  shows "step_ok b s (goto t p' s1)"
proof (rule ok_local[OF I t])
  have "wm_of s = (wm_of s)(t := wait_mon p')" using wm_same[OF I, of p' t] same p by simp
  then show "moves t p' (res_of s t) (marks s) (pool s) s (goto t p' s1)" using s1 by (simp add: moves_def silent_def)
  have "phase_of p' (res_of s t) = phase_of p' R_None" using p' by (cases p') (simp_all add: phase_of_def)
  then show "phase_of p' (res_of s t) = phases_of s t \<or> thread_spec t (locks_of s) (phases_of s t) (locks_of s) (phase_of p' (res_of s t))"
    using sp p by (simp add: phases_of_def)
  show "hash_of (marks s) (pool s) obj = Some h"
    if "phases_of s t = Called (C_Hash obj)" "phase_of p' (res_of s t) = Free (R_Hash h)" for obj h
    using that(2) phase_not_hash[OF p'] by simp
qed (use self same saved p in simp_all)

lemma ok_ret:
  assumes I: "sys_inv b s" and t: "valid_tid t" and p: "pc_of s t = p" and s1: "silent s s1"
    and q: "quiet p" "fresh_mon p = None" "\<And>mid. saved_count p mid = None"
    and sp: "thread_spec t (locks_of s) (phase_of p (res_of s t)) (locks_of s) (Free r)"
    and hr: "\<And>obj h. phase_of p (res_of s t) = Called (C_Hash obj) \<Longrightarrow> r = R_Hash h \<Longrightarrow> hash_of (marks s) (pool s) obj = Some h"
  shows "step_ok b s (ret t r s1)"
proof (rule ok_local[OF I t])
  have "wm_of s = (wm_of s)(t := wait_mon Idle)" using wm_same[OF I, of Idle t] q p by (simp add: quiet_def)
  then show "moves t Idle r (marks s) (pool s) s (ret t r s1)" using s1 by (simp add: moves_def silent_def)
qed (use q p sp hr in \<open>simp_all add: quiet_def phases_of_def phase_of_def\<close>)

lemma silent_refl [simp]: "silent s s" by (simp add: silent_def)

lemma silent_fields [simp]: "silent s (s\<lparr>hashSeed := x\<rparr>)" "silent s (s\<lparr>lastId := i\<rparr>)" by (simp_all add: silent_def)

declare silent_helpers [simp]

lemma lock_at_facts:
  "GetState (marks s obj) = STATE_UNLOCKED \<Longrightarrow> locks_of s obj = None"
  "GetState (marks s obj) = STATE_HASHED \<Longrightarrow> locks_of s obj = None"
  "GetState (marks s obj) = STATE_LIGHT_LOCKED \<Longrightarrow> locks_of s obj = Some (GetThreadId (marks s obj), unat (GetLockCount (marks s obj)))"
  by (simp_all add: locks_of_def lock_of_def lock_at_def)

lemma lock_published:
  "published (marks s) mid obj \<Longrightarrow> pool s mid = Some m \<Longrightarrow> locks_of s obj = monitor_lock (pc_of s) mid m"
  unfolding locks_of_def by (rule lock_of_published)

lemma lock_not_owner:
  "published (marks s) mid obj \<Longrightarrow> pool s mid = Some m \<Longrightarrow> owner m \<noteq> Some t \<Longrightarrow> locks_of s obj \<noteq> Some (t, n)"
  by (auto simp: lock_published monitor_lock_def split: option.splits)

lemma owns_light: "GetState (mk obj) = STATE_LIGHT_LOCKED \<Longrightarrow> owns mk pl t obj \<longleftrightarrow> GetThreadId (mk obj) = t"
  by (auto simp: owns_def)

lemma not_owns: "GetState (mk obj) = STATE_UNLOCKED \<or> GetState (mk obj) = STATE_HASHED \<Longrightarrow> \<not> owns mk pl t obj"
  by (auto simp: owns_def)

text \<open>The steps of the abstract lock with the new value of the lock as it comes.\<close>

lemma sp_intros:
  "lk obj = None \<Longrightarrow> v = Some (t, 1) \<Longrightarrow> thread_spec t lk (Called (C_Enter obj trylock)) (lk(obj := v)) (Free (R_State OK))"
  "lk obj = Some (t, n) \<Longrightarrow> v = Some (t, n + 1) \<Longrightarrow>
    thread_spec t lk (Called (C_Enter obj trylock)) (lk(obj := v)) (Free (R_State OK))"
  "lk obj = Some (t, k) \<Longrightarrow> k > 0 \<Longrightarrow> v = (if k = 1 then None else Some (t, k - 1)) \<Longrightarrow>
    thread_spec t lk (Called (C_Exit obj)) (lk(obj := v)) (Free (R_State OK))"
  "lk obj = Some (t, n) \<Longrightarrow> v = None \<Longrightarrow> thread_spec t lk (Called (C_Wait obj st ign)) (lk(obj := v)) (Away obj n)"
  "lk obj = None \<Longrightarrow> v = Some (t, n) \<Longrightarrow> thread_spec t lk (Away obj n) (lk(obj := v)) (Regained obj)"
  using sp_exit[of lk obj t] sp_exit_inner[of lk obj t "k - 1"] sp_enter[of lk obj t trylock] sp_reenter[of lk obj t n trylock]
    sp_wait[of lk obj t n st ign] sp_regain[of lk obj t n]
  by (cases "k = 1"; simp)+

section \<open>Entering\<close>

lemma HandleLightLockedState_ok:
  assumes I: "sys_inv b s" and t: "valid_tid t" and p: "pc_of s t = At_Enter (EnterLoop c)"
    and st: "GetState (marks s (ec_obj c)) = STATE_LIGHT_LOCKED"
  shows "step_ok b s (HandleLightLockedState t c (marks s (ec_obj c)) s)"
proof (cases "GetThreadId (marks s (ec_obj c)) = t")
  case True
  show ?thesis
  proof (cases "GetLockCount (marks s (ec_obj c)) + 1 < LIGHT_LOCK_LOCK_MAX_COUNT")
    case less: True
    have "step_ok b s (goto t (At_Enter (EnterCas c (marks s (ec_obj c)) (DecodeFromLightLock t (GetLockCount (marks s (ec_obj c)) + 1)
      (marks s (ec_obj c))))) s)"
      using True st less by (intro ok_goto[OF I t p]) (simp_all add: phase_of_def)
    then show ?thesis using True less by (simp add: HandleLightLockedState_def)
  next
    case False
    have "step_ok b s (goto t (At_Inflate (InflateLoad (IK_EnterMax c))) s)"
      using True st by (intro ok_goto[OF I t p]) (simp_all add: phase_of_def owns_light)
    then show ?thesis using True False by (simp add: HandleLightLockedState_def)
  qed
next
  case other: False
  let ?c = "EC (ec_obj c) (ec_trylock c) (ec_shouldInflate c) (ec_retryCount c + 1)"
  have "step_ok b s (ret t (R_State ILLEGAL) s)" if "ec_trylock c"
    using that by (intro ok_ret[OF I t p]) (simp_all add: phase_of_def quiet_def sp_enter_fail)
  moreover have "step_ok b s (goto t (At_Enter (EnterLoop ?c)) s)" by (intro ok_goto[OF I t p]) (simp_all add: phase_of_def)
  moreover have "step_ok b s (goto t (At_Thin (ThinLoad (TK_Enter ?c))) s1)" if "silent s s1" for s1
    using that by (intro ok_goto[OF I t p]) (simp_all add: phase_of_def)
  ultimately show ?thesis using other by (cases "ec_trylock c") (simp_all add: HandleLightLockedState_def Let_def)
qed

lemma enter_loop_ok:
  assumes I: "sys_inv b s" and t: "valid_tid t" and p: "pc_of s t = At_Enter (EnterLoop c)"
  shows "outcome_ok b s (MonitorEnter_loop t c s)"
proof (cases "GetState (marks s (ec_obj c))")
  case STATE_UNLOCKED
  then have "step_ok b s (goto t (At_Inflate (InflateLoad (IK_Enter c))) s)"
    "step_ok b s (goto t (At_Enter (EnterCas c (marks s (ec_obj c)) (DecodeFromLightLock t 1 (marks s (ec_obj c))))) s)"
    by (intro ok_goto[OF I t p]; simp add: phase_of_def not_owns)+
  then show ?thesis using STATE_UNLOCKED by (simp add: MonitorEnter_loop_def HandleUnlockedState_def Let_def)
next
  case STATE_LIGHT_LOCKED
  then show ?thesis using HandleLightLockedState_ok[OF I t p] by (simp add: MonitorEnter_loop_def)
next
  case STATE_HEAVY_LOCKED
  then show ?thesis by (simp add: MonitorEnter_loop_def Let_def) (intro ok_goto[OF I t p]; simp add: phase_of_def published_def)
next
  case STATE_HASHED
  then show ?thesis by (simp add: MonitorEnter_loop_def Let_def) (intro ok_goto[OF I t p]; simp add: phase_of_def not_owns)
next
  case STATE_GC
  then show ?thesis using mark_fact[OF I, of "ec_obj c"] by (simp add: mark_ok_def)
qed

lemma enter_retry_ok:
  assumes I: "sys_inv b s" and t: "valid_tid t" and p: "pc_of s t = p" "quiet p" "fresh_mon p = None" "\<And>mid. saved_count p mid = None"
    and ph: "phase_of p (res_of s t) = Called (C_Enter (ec_obj c) (ec_trylock c))"
  shows "step_ok b s (enter_retry t c s)"
proof (cases "ec_trylock c")
  case True
  then show ?thesis using ok_ret[OF I t p(1) silent_refl p(2-4)] ph by (simp add: enter_retry_def sp_enter_fail)
next
  case False
  then show ?thesis using ok_goto[OF I t p(1) silent_refl, of "At_Enter (EnterLoop c)"] p ph
    by (simp add: enter_retry_def phase_of_def quiet_def)
qed

lemma valid_tid_bound: "valid_tid t \<Longrightarrow> unat t < 2 ^ 13"
proof -
  have m: "LIGHT_LOCK_THREADID_MAX_COUNT = 8191" by code_simp
  assume "valid_tid t"
  then have "t \<le> 8191" by (simp add: valid_tid_def m)
  then show ?thesis by (simp add: word_le_nat_alt)
qed

lemma light_lock_word:
  assumes "valid_tid t" "unat c < 2 ^ 15" "c \<noteq> 0"
  shows "GetState (DecodeFromLightLock t c v) = STATE_LIGHT_LOCKED" "GetThreadId (DecodeFromLightLock t c v) = t"
    "mark_ok (DecodeFromLightLock t c v)" "mark_lock (DecodeFromLightLock t c v) = Some (t, unat c)"
  using decode_fields(3)[OF valid_tid_bound[OF assms(1)]] assms(2,3)
  by (simp_all add: DecodeFromLightLock_state decode_fields(4) mark_ok_def mark_lock_def)

lemma unlocked_word:
  "mark_ok (DecodeFromUnlocked v)" "mark_lock (DecodeFromUnlocked v) = None" by (simp_all add: mark_ok_def mark_lock_def)

lemma next_count:
  assumes "GetLockCount v + 1 < LIGHT_LOCK_LOCK_MAX_COUNT"
  shows "unat (GetLockCount v + 1) = unat (GetLockCount v) + 1" "unat (GetLockCount v + 1) < 2 ^ 15" "GetLockCount v + 1 \<noteq> 0"
proof -
  have "unat (GetLockCount v) < 2 ^ 15" by (rule field_bounds)
  then show u: "unat (GetLockCount v + 1) = unat (GetLockCount v) + 1" by (simp add: unat_word_ariths)
  have m: "LIGHT_LOCK_LOCK_MAX_COUNT = 32767" by code_simp
  have "GetLockCount v + 1 < 32767" using assms by (simp add: m)
  then show "unat (GetLockCount v + 1) < 2 ^ 15" by (simp add: word_less_nat_alt)
  show "GetLockCount v + 1 \<noteq> 0" using u by (metis add_is_0 one_neq_zero unat_0)
qed

lemma enter_cas_ok:
  assumes I: "sys_inv b s" and t: "valid_tid t" and p: "pc_of s t = At_Enter (EnterCas c old new)"
  shows "outcome_ok b s (MonitorEnter_cas t c old new s)"
proof (cases "marks s (ec_obj c) = old")
  case True
  let ?p = "At_Enter (EnterCas c old new)"
  let ?s = "ret t (R_State OK) (PushLocalObjectLocked t (ec_obj c) (s\<lparr>marks := (marks s)(ec_obj c := new)\<rparr>))"
  have k: "GetState old = STATE_UNLOCKED \<and> new = DecodeFromLightLock t 1 old \<or>
      GetState old = STATE_LIGHT_LOCKED \<and> GetThreadId old = t \<and> new = DecodeFromLightLock t (GetLockCount old + 1) old \<and>
        GetLockCount old + 1 < LIGHT_LOCK_LOCK_MAX_COUNT"
    using thread_fact[OF I p] by simp
  have new: "GetState new = STATE_LIGHT_LOCKED" "GetThreadId new = t" "mark_ok new"
    and lk: "GetState old = STATE_UNLOCKED \<and> mark_lock new = Some (t, 1) \<or>
      GetState old = STATE_LIGHT_LOCKED \<and> GetThreadId old = t \<and> mark_lock new = Some (t, unat (GetLockCount old) + 1)"
    using k t next_count[of old] by (auto simp: light_lock_word)
  have "step_ok b s ?s"
  proof (rule ok_mark[OF I t, where p' = Idle and r = "R_State OK", OF _ True])
    have "wm_of s = (wm_of s)(t := None)" using wm_same[OF I, of Idle t] p by simp
    then show "moves t Idle (R_State OK) ((marks s)(ec_obj c := new)) (pool s) s ?s" by (simp add: moves_def)
    have "thread_spec t (locks_of s) (phases_of s t) ((locks_of s)(ec_obj c := mark_lock new)) (phase_of Idle (R_State OK))"
      using lk
    proof (elim disjE conjE)
      assume "GetState old = STATE_UNLOCKED" "mark_lock new = Some (t, 1)"
      then show ?thesis using True lock_at_facts(1)[of s "ec_obj c"] p by (simp only: phases_of_def) (simp add: phase_of_def sp_intros(1))
    next
      assume "GetState old = STATE_LIGHT_LOCKED" "GetThreadId old = t" "mark_lock new = Some (t, unat (GetLockCount old) + 1)"
      then show ?thesis using True lock_at_facts(3)[of s "ec_obj c"] p
        by (simp only: phases_of_def) (simp add: phase_of_def sp_intros(2))
    qed
    then show "phase_of Idle (R_State OK) = phases_of s t \<and> mark_lock new = mark_lock old \<or>
      thread_spec t (locks_of s) (phases_of s t) ((locks_of s)(ec_obj c := mark_lock new)) (phase_of Idle (R_State OK))" ..
  qed (use k new p in \<open>auto simp: quiet_def phase_of_def\<close>)
  then show ?thesis using True by (simp add: MonitorEnter_cas_def AtomicSetMark_def)
next
  case False
  then show ?thesis using enter_retry_ok[OF I t p] by (simp add: MonitorEnter_cas_def AtomicSetMark_def quiet_def phase_of_def)
qed

lemma enter_lookup_ok:
  assumes I: "sys_inv b s" and t: "valid_tid t" and p: "pc_of s t = At_Enter (EnterLookup c mid)"
  shows "outcome_ok b s (HandleHeavyLockedState t c mid s)"
proof -
  have pub: "published (marks s) mid (ec_obj c)" using thread_fact[OF I p] by simp
  then obtain m where m: "pool s mid = Some m" using published_fact[OF I] by blast
  have "step_ok b s (goto t (At_Acquire (AcqOwner (AK_Enter c) mid)) s)"
    using pub by (intro ok_goto[OF I t p]) (simp_all add: phase_of_def)
  then show ?thesis using m by (simp add: HandleHeavyLockedState_def LookupMonitor_def)
qed

section \<open>Inflation\<close>

text \<open>Where a thread goes after \<open>Inflate\<close>, and with which result.\<close>

definition enter_next :: "enter_call \<Rightarrow> pc \<times> result option" where
  "enter_next c = (if ec_trylock c then (Idle, Some (R_State ILLEGAL)) else (At_Enter (EnterLoop c), None))"

fun inflate_next :: "inflate_cont \<Rightarrow> bool \<Rightarrow> pc \<times> result option" where
  "inflate_next (IK_Enter c) b = (if b then (Idle, Some (R_State OK)) else enter_next c)"
| "inflate_next (IK_EnterMax c) b = enter_next c"
| "inflate_next (IK_Wait w) b = (At_Wait (WaitLoop w), None)"
| "inflate_next (IK_Hash obj) b = (At_Hash (HashLoop obj), None)"
| "inflate_next (IK_Thin tk own) b = (At_Thin (ThinResume tk own), None)"

definition next_res :: "sys \<Rightarrow> tid \<Rightarrow> result option \<Rightarrow> result" where
  "next_res s t r = (case r of None \<Rightarrow> res_of s t | Some x \<Rightarrow> x)"

lemma inflate_return_moves:
  assumes "marks s1 = mk" "pool s1 = pl" "pc_of s1 = pc_of s" "wm_of s1 = wm_of s" "res_of s1 = res_of s" "wm_of s t = None"
  shows "moves t (fst (inflate_next ik b)) (next_res s t (snd (inflate_next ik b))) mk pl s (inflate_return t ik b s1)"
proof -
  have w: "(wm_of s)(t := None) = wm_of s" using assms(6) by auto
  show ?thesis
    by (cases ik) (use assms(1-5) w in \<open>simp_all add: moves_def enter_retry_def enter_next_def next_res_def fun_upd_idem\<close>)
qed

lemma inflate_next_pc:
  "quiet (fst (inflate_next ik b))" "fresh_mon (fst (inflate_next ik b)) = None" "saved_count (fst (inflate_next ik b)) mid = None"
  "thread_inv n mk pl t (fst (inflate_next ik b))" "phase_of (fst (inflate_next ik b)) (next_res s t (snd (inflate_next ik b))) \<noteq> Free (R_Hash h)"
  by (cases ik; simp add: enter_next_def quiet_def phase_of_def next_res_def)+

lemma inflate_next_phase:
  "(\<forall>c. ik \<noteq> IK_Enter c) \<or> \<not> b \<Longrightarrow>
   phase_of (fst (inflate_next ik b)) (next_res s t (snd (inflate_next ik b))) = inflate_phase ik \<or>
   thread_spec t lk (inflate_phase ik) lk (phase_of (fst (inflate_next ik b)) (next_res s t (snd (inflate_next ik b))))"
  by (cases ik) (auto simp: enter_next_def next_res_def phase_of_def sp_enter_fail)

lemma inflate_return_false_ok:
  assumes I: "sys_inv b s" and t: "valid_tid t" and p: "pc_of s t = p" "quiet p" "fresh_mon p = None" "\<And>mid. saved_count p mid = None"
    and ph: "phase_of p (res_of s t) = inflate_phase ik" and s1: "silent s s1"
  shows "step_ok b s (inflate_return t ik False s1)"
proof (rule ok_local[OF I t])
  let ?n = "inflate_next ik False"
  have "wm_of s t = None" using wm_fact[OF I, of t] p by (simp add: quiet_def)
  then show "moves t (fst ?n) (next_res s t (snd ?n)) (marks s) (pool s) s (inflate_return t ik False s1)"
    using s1 by (intro inflate_return_moves) (simp_all add: silent_def)
  show "phase_of (fst ?n) (next_res s t (snd ?n)) = phases_of s t \<or>
      thread_spec t (locks_of s) (phases_of s t) (locks_of s) (phase_of (fst ?n) (next_res s t (snd ?n)))"
    using inflate_next_phase[of ik False s t "locks_of s"] ph p by (simp add: phases_of_def)
  show "wait_mon (fst ?n) = wait_mon (pc_of s t)" "block_mon (fst ?n) = block_mon (pc_of s t)" "lock_mon (fst ?n) = lock_mon (pc_of s t)"
    using inflate_next_pc(1)[of ik False] p by (simp_all add: quiet_def)
qed (use inflate_next_pc p in simp_all)

lemma inflate_load_ok:
  assumes I: "sys_inv b s" and t: "valid_tid t" and p: "pc_of s t = At_Inflate (InflateLoad ik)"
  shows "outcome_ok b s (Inflate_load t ik s)"
proof -
  have f: "step_ok b s (inflate_return t ik False s)"
    by (rule inflate_return_false_ok[OF I t p]) (simp_all add: quiet_def phase_of_def)
  have "step_ok b s (goto t (At_Inflate (InflateCreate ik (marks s (inflate_obj ik)))) s)"
    if "GetState (marks s (inflate_obj ik)) \<noteq> STATE_HEAVY_LOCKED"
      "FOR_OTHER_THREAD ik \<longrightarrow> GetState (marks s (inflate_obj ik)) = STATE_LIGHT_LOCKED \<and> GetThreadId (marks s (inflate_obj ik)) = inflate_thread t ik"
    using that thread_fact[OF I p] mark_fact[OF I] by (intro ok_goto[OF I t p]) (simp_all add: phase_of_def)
  then show ?thesis using f by (simp add: Inflate_load_def Let_def)
qed

lemma CreateMonitor_loop_Some:
  "CreateMonitor_loop i l monitors = Some mid \<Longrightarrow> monitors mid = None \<and> mid < MAX_MONITOR_ID"
proof (induction i l monitors rule: CreateMonitor_loop.induct)
  case (1 i l monitors)
  have "0 < MAX_MONITOR_ID" by code_simp
  then have "(l + 1) mod MAX_MONITOR_ID < MAX_MONITOR_ID" by (rule word_mod_less_divisor)
  then show ?case
    using 1 by (subst (asm) (2) CreateMonitor_loop.simps) (auto simp: Let_def split: if_splits)
qed

lemma InitWithOwner_new:
  "InitWithOwner t (new_monitor obj) = Some \<lparr>mobj = obj, owner = Some t, waiters = [], toWakeup = [], recursiveCounter = 1,
     mlock = Some t, hashCode = 0, waitersCounter = 0\<rparr>"
  by (simp add: InitWithOwner_def new_monitor_def SetOwner_def)

lemma fresh_monitor_ok:
  assumes I: "inv b mk pl pcs wm" and n: "pl mid = None" "mid < MAX_MONITOR_ID" and q: "quiet (pcs t)" "quiet p'"
    and m: "fresh_monitor t ik mark m" "mark_ok mark"
  shows "monitor_ok (Suc b) (pcs(t := p')) mid m"
proof -
  have "wsum mid (pcs(t := p')) = 0" using wsum_same[of mid p' pcs t] unused_id(1)[OF I n(1)] q by (simp add: quietD)
  moreover have "unat (hashCode m) < 2 ^ 28" using m field_bounds(3)[of mark] by (auto simp: fresh_monitor_def)
  moreover have "unat (recursiveCounter m) \<le> Suc b \<and> recursiveCounter m \<noteq> 0"
  proof (cases "GetState mark = STATE_LIGHT_LOCKED")
    case True
    then have "recursiveCounter m = ucast (GetLockCount mark)" "GetLockCount mark \<noteq> 0" using m by (auto simp: fresh_monitor_def mark_ok_def)
    moreover have "unat (GetLockCount mark) < 2 ^ 15" by (rule field_bounds)
    ultimately show ?thesis using invD(1)[OF I] by (metis unat_ucast_u64 unat_eq_0 le_SucI le_trans nat_less_le)
  next
    case False
    then show ?thesis using m(1) invD(1)[OF I] by (auto simp: fresh_monitor_def)
  qed
  ultimately show ?thesis using m(1) n(2) by (auto simp: monitor_ok_def fresh_monitor_def)
qed

lemma inflate_create_ok:
  assumes I: "sys_inv b s" and t: "valid_tid t" and p: "pc_of s t = At_Inflate (InflateCreate ik old)"
  shows "outcome_ok b s (Inflate_create nomem t ik old s)"
proof (cases "CreateMonitor_loop 0 (lastId s) (pool s)")
  case None
  then show ?thesis by (simp add: Inflate_create_def expected_fault_def)
next
  case (Some mid)
  have I': "inv b (marks s) (pool s) (pc_of s) (wm_of s)" using I by (simp add: sys_inv_def)
  have n: "pool s mid = None" and lim: "mid < MAX_MONITOR_ID" using CreateMonitor_loop_Some[OF Some] by auto
  have k: "inflate_ok (marks s) (pool s) t ik" "mark_ok old" "GetState old \<noteq> STATE_HEAVY_LOCKED"
      "FOR_OTHER_THREAD ik \<longrightarrow> GetState old = STATE_LIGHT_LOCKED \<and> GetThreadId old = inflate_thread t ik"
    using thread_fact[OF I p] by auto
  let ?own = "inflate_thread t ik"
  let ?m = "\<lparr>mobj = inflate_obj ik, owner = Some ?own, waiters = [], toWakeup = [], recursiveCounter = 1,
     mlock = Some ?own, hashCode = 0, waitersCounter = 0\<rparr> :: Monitor"
  let ?s = "put_monitor mid ?m (s\<lparr>lastId := mid\<rparr>)"
  have owns_new: "owns (marks s) ((pool s)(mid \<mapsto> m)) t obj \<longleftrightarrow> owns (marks s) (pool s) t obj" for m obj
    using unused_id(6)[OF I' n, of obj] by (auto simp: owns_def published_def)
  have create: "step_ok b s (goto t (At_Inflate (InflateCas ik old mid)) (put_monitor mid m (s\<lparr>lastId := mid\<rparr>)))"
    if m: "fresh_monitor t ik old m" for m
  proof (rule ok_create[OF I t _ n])
    have "(wm_of s)(t := None) = wm_of s" using wm_same[OF I, of Idle t] p by simp
    then show "moves t (At_Inflate (InflateCas ik old mid)) (res_of s t) (marks s) ((pool s)(mid \<mapsto> m)) s
        (goto t (At_Inflate (InflateCas ik old mid)) (put_monitor mid m (s\<lparr>lastId := mid\<rparr>)))" by (simp add: moves_def)
    show "monitor_ok (Suc b) ((pc_of s)(t := At_Inflate (InflateCas ik old mid))) mid m"
      using p by (intro fresh_monitor_ok[OF I' n lim _ _ m k(2)]) (simp_all add: quiet_def)
    have "inflate_ok (marks s) ((pool s)(mid \<mapsto> m)) t ik" using k(1) owns_new by (cases ik) auto
    then show "thread_inv (Suc b) (marks s) ((pool s)(mid \<mapsto> m)) t (At_Inflate (InflateCas ik old mid))"
      using m unused_id(6)[OF I' n] by simp
  qed (use p in \<open>simp_all add: quiet_def phases_of_def phase_of_def\<close>)
  have "outcome_ok b s (Inflate_init t ik old mid ?m ?s)"
  proof (cases "GetState old")
    case STATE_LIGHT_LOCKED
    have rev: "silent s (FreeMonitor mid ?s)"
      using n by (simp add: silent_def put_monitor_def FreeMonitor_def fun_upd_idem pc_of_def wm_of_def res_of_def fun_eq_iff)
    have "step_ok b s (inflate_return t ik False (FreeMonitor mid ?s))"
      by (rule inflate_return_false_ok[OF I t p _ _ _ _ rev]) (simp_all add: quiet_def phase_of_def)
    moreover have "step_ok b s (goto t (At_Inflate (InflateCas ik old mid))
        (put_monitor mid (?m\<lparr>recursiveCounter := ucast (GetLockCount old)\<rparr>) (s\<lparr>lastId := mid\<rparr>)))" if "GetThreadId old = ?own"
      using that STATE_LIGHT_LOCKED by (intro create) (simp add: fresh_monitor_def)
    moreover have "put_monitor mid m' ?s = put_monitor mid m' (s\<lparr>lastId := mid\<rparr>)" for m' by (simp add: put_monitor_def)
    ultimately show ?thesis using STATE_LIGHT_LOCKED by (simp add: Inflate_init_def ReleaseOnFailedInflate_def SetOwner_def)
  next
    case STATE_HASHED
    have "step_ok b s (goto t (At_Inflate (InflateCas ik old mid)) (put_monitor mid (?m\<lparr>hashCode := GetHash old\<rparr>) (s\<lparr>lastId := mid\<rparr>)))"
      using STATE_HASHED k(4) by (intro create) (auto simp: fresh_monitor_def)
    moreover have "put_monitor mid m' ?s = put_monitor mid m' (s\<lparr>lastId := mid\<rparr>)" for m' by (simp add: put_monitor_def)
    ultimately show ?thesis using STATE_HASHED k(4) by (simp add: Inflate_init_def SetHashCode_def)
  next
    case STATE_UNLOCKED
    have "step_ok b s (goto t (At_Inflate (InflateCas ik old mid)) (put_monitor mid ?m (s\<lparr>lastId := mid\<rparr>)))"
      using STATE_UNLOCKED k(4) by (intro create) (auto simp: fresh_monitor_def)
    moreover have "put_monitor mid m' ?s = put_monitor mid m' (s\<lparr>lastId := mid\<rparr>)" for m' by (simp add: put_monitor_def)
    ultimately show ?thesis using STATE_UNLOCKED k(4) by (simp add: Inflate_init_def)
  qed (use k in \<open>simp_all add: mark_ok_def\<close>)
  then show ?thesis using Some by (simp add: Inflate_create_def InitWithOwner_new expected_fault_def)
qed

lemma inflate_cas_ok:
  assumes I: "sys_inv b s" and t: "valid_tid t" and p: "pc_of s t = At_Inflate (InflateCas ik old mid)"
  shows "outcome_ok b s (TryAddMonitor t ik old mid s)"
proof -
  have w: "wm_of s t = None" using wm_fact[OF I, of t] p by simp
  obtain m where m: "pool s mid = Some m" "fresh_monitor t ik old m" and ok: "inflate_ok (marks s) (pool s) t ik"
    using thread_fact[OF I p] by auto
  show ?thesis
  proof (cases "marks s (inflate_obj ik) = old")
    case True
    let ?mk = "(marks s)(inflate_obj ik := DecodeFromMonitor mid old)" and ?n = "inflate_next ik True"
    let ?s = "inflate_return t ik True (AddMonitor (inflate_thread t ik) (s\<lparr>marks := ?mk\<rparr>))"
    have "step_ok b s ?s"
    proof (rule ok_publish[OF I t _ p True m])
      show "moves t (fst ?n) (next_res s t (snd ?n)) ?mk (pool s) s ?s"
        using w by (intro inflate_return_moves) simp_all
      have lk: "phases_of s t = inflate_phase ik" using p by (simp add: phases_of_def phase_of_def)
      show "GetState old = STATE_LIGHT_LOCKED \<and>
          (phase_of (fst ?n) (next_res s t (snd ?n)) = phases_of s t \<or>
           thread_spec t (locks_of s) (phases_of s t) (locks_of s) (phase_of (fst ?n) (next_res s t (snd ?n)))) \<or>
        GetState old \<noteq> STATE_LIGHT_LOCKED \<and>
          thread_spec t (locks_of s) (phases_of s t) ((locks_of s)(inflate_obj ik \<mapsto> (t, 1))) (phase_of (fst ?n) (next_res s t (snd ?n)))"
      proof (cases "\<exists>c. ik = IK_Enter c")
        case True
        then obtain c where c: "ik = IK_Enter c" by blast
        then have "GetState old \<noteq> STATE_LIGHT_LOCKED" using m(2) ok \<open>marks s (inflate_obj ik) = old\<close>
          by (auto simp: fresh_monitor_def owns_def)
        moreover from this have "GetState old = STATE_UNLOCKED \<or> GetState old = STATE_HASHED" using m(2) by (auto simp: fresh_monitor_def)
        then have "locks_of s (inflate_obj ik) = None" using \<open>marks s (inflate_obj ik) = old\<close> lock_at_facts(1,2)[of s "inflate_obj ik"] by auto
        ultimately show ?thesis using c lk by (simp add: next_res_def phase_of_def sp_intros(1))
      next
        case False
        have "GetState old = STATE_LIGHT_LOCKED"
        proof (cases "FOR_OTHER_THREAD ik")
          case True
          then show ?thesis using m(2) by (auto simp: fresh_monitor_def)
        next
          case other: False
          then have "owns (marks s) (pool s) t (inflate_obj ik)" using ok False by (cases ik) auto
          then show ?thesis using m(2) \<open>marks s (inflate_obj ik) = old\<close> by (auto simp: fresh_monitor_def owns_def)
        qed
        then show ?thesis using inflate_next_phase[of ik True s t "locks_of s"] False lk by auto
      qed
    qed (use inflate_next_pc in simp_all)
    then show ?thesis using True by (simp add: TryAddMonitor_def AtomicSetMark_def)
  next
    case False
    let ?n = "inflate_next ik False"
    let ?s = "inflate_return t ik False (FreeMonitor mid s)"
    have "step_ok b s ?s"
    proof (rule ok_free[OF I t])
      show "moves t (fst ?n) (next_res s t (snd ?n)) (marks s) ((pool s)(mid := None)) s ?s"
        using w by (intro inflate_return_moves) simp_all
      show "phase_of (fst ?n) (next_res s t (snd ?n)) = phases_of s t \<or>
          thread_spec t (locks_of s) (phases_of s t) (locks_of s) (phase_of (fst ?n) (next_res s t (snd ?n)))"
        using inflate_next_phase[of ik False s t "locks_of s"] p by (simp add: phases_of_def phase_of_def)
    qed (use inflate_next_pc p in simp_all)
    then show ?thesis using False m by (simp add: TryAddMonitor_def AtomicSetMark_def ReleaseOnFailedInflate_def SetOwner_def fresh_monitor_def)
  qed
qed

text \<open>Waiting for the inflation of another thread's lock changes nothing that the invariant speaks of.\<close>

lemma thin_return_ok:
  assumes I: "sys_inv b s" and t: "valid_tid t" and p: "pc_of s t = At_Thin p" and s1: "silent s s1"
    and ph: "phase_of (At_Thin p) (res_of s t) = thin_phase tk"
  shows "step_ok b s (thin_return futex t tk s1)"
proof (cases tk)
  case (TK_Enter c)
  then have "step_ok b s (goto t (At_Enter (EnterLoop c')) s1)" if "ec_obj c' = ec_obj c" "ec_trylock c' = ec_trylock c" for c'
    using that ph by (intro ok_goto[OF I t p s1]) (simp_all add: phase_of_def)
  then show ?thesis using TK_Enter by (simp add: thin_return_def)
next
  case (TK_Hash obj)
  then have "step_ok b s (goto t (At_Hash (HashLoop obj)) s1)"
    using ph by (intro ok_goto[OF I t p s1]) (simp_all add: phase_of_def)
  then show ?thesis using TK_Hash by (simp add: thin_return_def)
qed

lemma thin_ok:
  assumes I: "sys_inv b s" and t: "valid_tid t"
  shows "pc_of s t = At_Thin (ThinLoad tk) \<Longrightarrow> outcome_ok b s (InflateThinLock_load futex t tk s)"
    and "pc_of s t = At_Thin (ThinSuspend tk own) \<Longrightarrow> outcome_ok b s (SuspendAndWaitThreadByInternalThreadId gone t tk own s)"
    and "pc_of s t = At_Thin (ThinAwait tk own) \<Longrightarrow> outcome_ok b s (SuspendAndWait_await t tk own s)"
    and "pc_of s t = At_Thin (ThinRun tk o') \<Longrightarrow> outcome_ok b s (InflateThinLock_run futex t tk o' s)"
    and "pc_of s t = At_Thin (ThinSleep tk) \<Longrightarrow> outcome_ok b s (InflateThinLock_sleep futex t tk s)"
    and "pc_of s t = At_Thin (ThinResume tk own) \<Longrightarrow> outcome_ok b s (InflateThinLock_resume futex t tk own s)"
proof -
  have go: "step_ok b s (goto t (At_Thin q') s1)"
    if "pc_of s t = At_Thin q" "silent s s1" "phase_of (At_Thin q') R_None = phase_of (At_Thin q) (res_of s t)" for q q' s1
    using that(3) by (intro ok_goto[OF I t that(1,2)]) simp_all
  show "pc_of s t = At_Thin (ThinLoad tk) \<Longrightarrow> outcome_ok b s (InflateThinLock_load futex t tk s)"
    by (simp add: InflateThinLock_load_def go phase_of_def)
  show "pc_of s t = At_Thin (ThinSuspend tk own) \<Longrightarrow> outcome_ok b s (SuspendAndWaitThreadByInternalThreadId gone t tk own s)"
    by (simp add: SuspendAndWaitThreadByInternalThreadId_def go phase_of_def)
  show "pc_of s t = At_Thin (ThinAwait tk own) \<Longrightarrow> outcome_ok b s (SuspendAndWait_await t tk own s)"
    by (simp add: SuspendAndWait_await_def go phase_of_def)
  show "outcome_ok b s (InflateThinLock_run futex t tk o' s)" if p: "pc_of s t = At_Thin (ThinRun tk o')"
  proof -
    have "step_ok b s (goto t (At_Inflate (InflateLoad (IK_Thin tk x))) (leave_inflation_wait t s))" for x
      by (rule ok_goto[OF I t p]) (simp_all add: phase_of_def)
    then show ?thesis using thin_return_ok[OF I t p, of "leave_inflation_wait t s" tk futex]
      by (simp add: InflateThinLock_run_def Let_def phase_of_def split: option.split)
  qed
  show "pc_of s t = At_Thin (ThinSleep tk) \<Longrightarrow> outcome_ok b s (InflateThinLock_sleep futex t tk s)"
    using thin_return_ok[OF I t, of "ThinSleep tk" "leave_inflation_wait t s" tk futex] by (simp add: InflateThinLock_sleep_def phase_of_def)
  show "pc_of s t = At_Thin (ThinResume tk own) \<Longrightarrow> outcome_ok b s (InflateThinLock_resume futex t tk own s)"
    using thin_return_ok[OF I t, of "ThinResume tk own"] by (simp add: InflateThinLock_resume_def phase_of_def)
qed

end
