(* ===== verification/Monitors_Locks.thy ===== *)
theory Monitors_Locks
  imports Monitors_Steps
begin

text \<open>
  The steps on a heavyweight lock: acquiring and releasing the monitor, exiting, waiting, notifying and the
  hash code, in the form of the previous theory.
\<close>

section \<open>Monitors that a thread changes\<close>

lemma owner_fact:
  assumes "monitor_ok b pcs mid m"
  shows "owner m = None \<Longrightarrow> recursiveCounter m = 0" "owner m = Some u \<Longrightarrow> mlock m = Some u"
    "owner m = Some u \<Longrightarrow> recursiveCounter m \<noteq> 0" "unat (recursiveCounter m) \<le> b" "unat (waitersCounter m) = wsum mid pcs"
  using assms by (auto simp: monitor_ok_def)

lemma monitor_ok_put:
  assumes ok: "monitor_ok b pcs mid m" and h: "unat (hashCode m') < 2 ^ 28"
    and rc: "unat (recursiveCounter m') \<le> Suc b" "owner m' = None \<Longrightarrow> recursiveCounter m' = 0"
      "\<And>u. owner m' = Some u \<Longrightarrow> mlock m' = Some u \<and> recursiveCounter m' \<noteq> 0"
    and lock: "\<And>u. mlock m' = Some u \<Longrightarrow> owner m' = None \<Longrightarrow> lock_mon ((pcs(t := p')) u) = Some mid"
    and ls: "distinct (waiters m' @ toWakeup m')"
      "\<And>u. u \<in> set (waiters m') \<union> set (toWakeup m') \<Longrightarrow> wait_mon ((pcs(t := p')) u) = Some mid"
    and wc: "unat (waitersCounter m') + wcount mid (pcs t) = unat (waitersCounter m) + wcount mid p'"
  shows "monitor_ok (Suc b) (pcs(t := p')) mid m'"
proof -
  have "mid < MAX_MONITOR_ID" "unat (waitersCounter m) = wsum mid pcs" using ok by (simp_all add: monitor_ok_def)
  moreover from this have "unat (waitersCounter m') = wsum mid (pcs(t := p'))" using wc wsum_upd[of mid pcs t p'] by simp
  ultimately show ?thesis using h rc lock ls by (simp add: monitor_ok_def del: fun_upd_apply)
qed

lemma monitor_ok_lists:
  "monitor_ok b pcs mid m \<Longrightarrow> distinct (waiters m @ toWakeup m)"
  "monitor_ok b pcs mid m \<Longrightarrow> u \<in> set (waiters m) \<union> set (toWakeup m) \<Longrightarrow> wait_mon (pcs u) = Some mid"
  by (auto simp: monitor_ok_def)

text \<open>The lists of waiting threads stay as they are.\<close>

lemma monitor_ok_fields:
  assumes ok: "monitor_ok b pcs mid m"
    and same: "hashCode m' = hashCode m" "waiters m' = waiters m" "toWakeup m' = toWakeup m" "wait_mon p' = wait_mon (pcs t)"
    and rc: "unat (recursiveCounter m') \<le> Suc b" "owner m' = None \<Longrightarrow> recursiveCounter m' = 0"
      "\<And>u. owner m' = Some u \<Longrightarrow> mlock m' = Some u \<and> recursiveCounter m' \<noteq> 0"
    and lock: "\<And>u. mlock m' = Some u \<Longrightarrow> owner m' = None \<Longrightarrow> lock_mon ((pcs(t := p')) u) = Some mid"
    and wc: "unat (waitersCounter m') + wcount mid (pcs t) = unat (waitersCounter m) + wcount mid p'"
  shows "monitor_ok (Suc b) (pcs(t := p')) mid m'"
proof (rule monitor_ok_put[OF ok _ rc lock _ _ wc])
  show "unat (hashCode m') < 2 ^ 28" using ok same by (simp add: monitor_ok_def)
  show "distinct (waiters m' @ toWakeup m')" using monitor_ok_lists(1)[OF ok] same by simp
  show "wait_mon ((pcs(t := p')) u) = Some mid" if "u \<in> set (waiters m') \<union> set (toWakeup m')" for u
    using monitor_ok_lists(2)[OF ok, of u] that same by auto
qed

lemma lock_kept:
  assumes "monitor_ok b pcs mid m" "lock_mon (pcs t) = Some mid \<Longrightarrow> lock_mon p' = Some mid" "mlock m = Some u" "owner m = None"
  shows "lock_mon ((pcs(t := p')) u) = Some mid"
  using assms by (auto simp: monitor_ok_def)

lemma wc_up:
  assumes I: "sys_inv b s" and m: "monitor_ok b (pc_of s) mid m"
  shows "unat (waitersCounter m + 1) = unat (waitersCounter m) + 1"
proof -
  have "wsum mid (pc_of s) \<le> 2 ^ 14" using I wsum_bound by (simp add: sys_inv_def)
  then have "unat (waitersCounter m) \<le> 2 ^ 14" using m by (simp add: monitor_ok_def)
  then show ?thesis by (simp add: unat_word_ariths)
qed

lemma wc_down:
  assumes m: "monitor_ok b pcs mid m" and w: "wcount mid (pcs t) \<noteq> 0"
  shows "unat (waitersCounter m - 1) + 1 = unat (waitersCounter m)"
proof -
  have "wsum mid (pcs(t := Idle)) + wcount mid (pcs t) = wsum mid pcs + wcount mid Idle" by (rule wsum_upd)
  moreover have "wcount mid Idle = 0" by (simp add: wcount_def)
  ultimately have "unat (waitersCounter m) \<noteq> 0" using owner_fact(5)[OF m] w by simp
  then have "waitersCounter m \<noteq> 0" "0 < unat (waitersCounter m)" by auto
  then show ?thesis by (simp only: unat_minus_one[OF \<open>waitersCounter m \<noteq> 0\<close>])
qed

lemma rc_up: "unat (c :: u64) < 2 ^ 63 \<Longrightarrow> unat (c + 1) = unat c + 1 \<and> c + 1 \<noteq> 0"
proof -
  assume "unat c < 2 ^ 63"
  then have "unat (c + 1) = unat c + 1" by (simp add: unat_word_ariths)
  then show ?thesis by (metis add_is_0 one_neq_zero unat_0)
qed

lemma rc_down: "(c :: u64) \<noteq> 0 \<Longrightarrow> unat (c - 1) = unat c - 1 \<and> 0 < unat c"
  by (simp add: unat_minus_one unat_gt_0)

lemma monitor_lock_owner:
  "owner m = Some t \<Longrightarrow> saved_count (pcs t) mid = None \<Longrightarrow> monitor_lock pcs mid m = Some (t, unat (recursiveCounter m))"
  "owner m = Some t \<Longrightarrow> saved_count (pcs t) mid = Some c \<Longrightarrow> monitor_lock pcs mid m = Some (t, unat c)"
  "owner m = None \<Longrightarrow> monitor_lock pcs mid m = None"
  by (simp_all add: monitor_lock_def count_of_def)

lemma on_mon_fact:
  assumes "sys_inv b s" "on_mon (marks s) (pool s) mid obj P"
  obtains m where "pool s mid = Some m" "mobj m = obj" "P m" "monitor_ok b (pc_of s) mid m" "published (marks s) mid (mobj m)"
  using assms(2) monitor_fact[OF assms(1)] by (auto simp: on_mon_def)

lemma published_monitor:
  assumes "sys_inv b s" "published (marks s) mid obj"
  obtains m where "pool s mid = Some m" "mobj m = obj" "monitor_ok b (pc_of s) mid m" "published (marks s) mid (mobj m)"
  using published_fact[OF assms] assms(2) by auto

lemma moves_same:
  assumes "sys_inv b s" "marks s' = mk" "pool s' = pl" "pc_of s' = (pc_of s)(t := p)" "wm_of s' = wm_of s" "wait_mon p = wait_mon (pc_of s t)"
    and "res_of s' = (res_of s)(t := r)"
  shows "moves t p r mk pl s s'"
  using wm_same[OF assms(1,6)] assms(2-) by (simp add: moves_def)

lemma phase_of_heavy [simp]:
  "phase_of (At_Acquire (AcqUncount ak mid)) r = acquired_phase ak" "phase_of (At_Acquire (AcqSet slow ak mid)) r = acquire_phase ak"
  "phase_of (At_Release (RelOwner rk mid)) r = release_phase rk" "phase_of (At_Release (RelSignal rk mid w)) r = released_phase rk"
  "phase_of (At_Release (RelUnlock rk mid)) r = released_phase rk"
  by (simp_all add: phase_of_def)

section \<open>Acquiring a monitor\<close>

lemma acquire_owner_ok:
  assumes I: "sys_inv b s" and t: "valid_tid t" and p: "pc_of s t = At_Acquire (AcqOwner ak mid)" and b: "b < 2 ^ 63"
  shows "outcome_ok b s (Acquire_owner t ak mid s)"
proof -
  have f: "acquire_ok b ak" "case ak of AK_Enter c \<Rightarrow> published (marks s) mid (ec_obj c)
      | AK_Wait w _ _ \<Rightarrow> on_mon (marks s) (pool s) mid (wc_obj w) (\<lambda>m. owner m \<noteq> Some t)"
    using thread_fact[OF I p] by simp_all
  then have pub: "published (marks s) mid (acquire_obj ak)" by (cases ak) (simp_all add: on_mon_def)
  obtain m where m: "pool s mid = Some m" "mobj m = acquire_obj ak" "monitor_ok b (pc_of s) mid m" "published (marks s) mid (mobj m)"
    by (rule published_monitor[OF I pub])
  show ?thesis
  proof (cases "owner m = Some t")
    case True
    then obtain c where c: "ak = AK_Enter c" using f(2) m(1) by (cases ak) (auto simp: on_mon_def)
    let ?m = "m\<lparr>recursiveCounter := recursiveCounter m + 1\<rparr>"
    have up: "unat (recursiveCounter m + 1) = unat (recursiveCounter m) + 1" "recursiveCounter m + 1 \<noteq> 0"
      using rc_up[of "recursiveCounter m"] owner_fact(4)[OF m(3)] b by auto
    have "step_ok b s (ret t (R_State OK) (PushLocalObjectLocked t (ec_obj c) (put_monitor mid ?m s)))"
    proof (rule ok_monitor[OF I t _ m(4,1), where m' = ?m and p' = Idle and r = "R_State OK"])
      show "moves t Idle (R_State OK) (marks s) ((pool s)(mid \<mapsto> ?m)) s (ret t (R_State OK) (PushLocalObjectLocked t (ec_obj c) (put_monitor mid ?m s)))"
        using p c by (intro moves_same[OF I]) simp_all
      show "monitor_ok (Suc b) ((pc_of s)(t := Idle)) mid ?m"
        using True up owner_fact[OF m(3)] p c by (intro monitor_ok_fields[OF m(3)]) (auto simp: wcount_def)
      have "locks_of s (ec_obj c) = Some (t, unat (recursiveCounter m))"
        using lock_published[OF m(4,1)] m(2) c monitor_lock_owner(1)[OF True, of "pc_of s" mid] p by simp
      moreover have "monitor_lock ((pc_of s)(t := Idle)) mid ?m = Some (t, unat (recursiveCounter m) + 1)"
        using True up monitor_lock_owner(1)[of ?m t "(pc_of s)(t := Idle)" mid] by simp
      ultimately have "thread_spec t (locks_of s) (phases_of s t)
          ((locks_of s)(mobj m := monitor_lock ((pc_of s)(t := Idle)) mid ?m)) (phase_of Idle (R_State OK))"
        using m(2) c p by (simp only: phases_of_def) (simp add: phase_of_def sp_intros(2))
      then show "monitor_lock ((pc_of s)(t := Idle)) mid ?m = monitor_lock (pc_of s) mid m \<and>
          (phase_of Idle (R_State OK) = phases_of s t \<or> thread_spec t (locks_of s) (phases_of s t) (locks_of s) (phase_of Idle (R_State OK))) \<or>
        thread_spec t (locks_of s) (phases_of s t)
          ((locks_of s)(mobj m := monitor_lock ((pc_of s)(t := Idle)) mid ?m)) (phase_of Idle (R_State OK))" ..
    qed (use p c True in \<open>simp_all add: own_change_def refs_only_def phase_of_def\<close>)
    then show ?thesis using True m c by (simp add: Acquire_owner_def)
  next
    case False
    have "step_ok b s (goto t (At_Acquire (AcqTry ak mid)) s)"
      using f(1) pub m False by (intro ok_goto[OF I t p]) (simp_all add: phase_of_def on_mon_def)
    then show ?thesis using False m by (simp add: Acquire_owner_def)
  qed
qed

text \<open>A step of \<open>Acquire\<close>, \<open>Release\<close> or \<open>Wait\<close> that does not change the lock.\<close>

lemma ok_monitor_kept:
  assumes I: "sys_inv b s" and t: "valid_tid t" and p: "pc_of s t = p" and mv: "moves t p' r (marks s) ((pool s)(mid \<mapsto> m')) s s'"
    and m: "published (marks s) mid (mobj m)" "pool s mid = Some m" "mobj m' = mobj m" "own_change t m m'"
    and m': "monitor_ok (Suc b) ((pc_of s)(t := p')) mid m'"
    and self: "thread_inv (Suc b) (marks s) ((pool s)(mid \<mapsto> m')) t p'"
    and refs: "refs_only mid p" "refs_only mid p'"
    and saved: "\<And>mid'. mid' \<noteq> mid \<Longrightarrow> saved_count p' mid' = saved_count p mid'"
    and lk: "monitor_lock ((pc_of s)(t := p')) mid m' = monitor_lock (pc_of s) mid m"
    and sp: "phase_of p' r = phase_of p (res_of s t) \<or>
      thread_spec t (locks_of s) (phase_of p (res_of s t)) (locks_of s) (phase_of p' r)"
    and hr: "\<And>h. phase_of p' r \<noteq> Free (R_Hash h)" and h: "hashCode m' = hashCode m"
  shows "step_ok b s s'"
proof (rule ok_monitor[OF I t mv m m' self])
  show "monitor_lock ((pc_of s)(t := p')) mid m' = monitor_lock (pc_of s) mid m \<and>
        (phase_of p' r = phases_of s t \<or> thread_spec t (locks_of s) (phases_of s t) (locks_of s) (phase_of p' r)) \<or>
      thread_spec t (locks_of s) (phases_of s t)
        ((locks_of s)(mobj m := monitor_lock ((pc_of s)(t := p')) mid m')) (phase_of p' r)"
    using lk sp p by (simp add: phases_of_def)
qed (use refs saved p hr h in simp_all)

text \<open>A step that takes or gives up the lock.\<close>

lemma ok_monitor_moved:
  assumes I: "sys_inv b s" and t: "valid_tid t" and p: "pc_of s t = p" and mv: "moves t p' r (marks s) ((pool s)(mid \<mapsto> m')) s s'"
    and m: "published (marks s) mid (mobj m)" "pool s mid = Some m" "mobj m' = mobj m" "own_change t m m'"
    and m': "monitor_ok (Suc b) ((pc_of s)(t := p')) mid m'"
    and self: "thread_inv (Suc b) (marks s) ((pool s)(mid \<mapsto> m')) t p'"
    and refs: "refs_only mid p" "refs_only mid p'"
    and saved: "\<And>mid'. mid' \<noteq> mid \<Longrightarrow> saved_count p' mid' = saved_count p mid'"
    and sp: "thread_spec t (locks_of s) (phase_of p (res_of s t)) ((locks_of s)(mobj m := monitor_lock ((pc_of s)(t := p')) mid m')) (phase_of p' r)"
    and hr: "\<And>h. phase_of p' r \<noteq> Free (R_Hash h)" and h: "hashCode m' = hashCode m"
  shows "step_ok b s s'"
proof (rule ok_monitor[OF I t mv m m' self])
  show "monitor_lock ((pc_of s)(t := p')) mid m' = monitor_lock (pc_of s) mid m \<and>
        (phase_of p' r = phases_of s t \<or> thread_spec t (locks_of s) (phases_of s t) (locks_of s) (phase_of p' r)) \<or>
      thread_spec t (locks_of s) (phases_of s t)
        ((locks_of s)(mobj m := monitor_lock ((pc_of s)(t := p')) mid m')) (phase_of p' r)"
    using sp p by (simp add: phases_of_def)
qed (use refs saved p hr h in simp_all)

text \<open>Where a thread goes after \<open>Acquire\<close>.\<close>

fun acquire_next :: "acquire_cont \<Rightarrow> mon_id \<Rightarrow> bool \<Rightarrow> pc \<times> result option" where
  "acquire_next (AK_Enter c) mid b = (Idle, Some (R_State (if b then OK else ILLEGAL)))"
| "acquire_next (AK_Wait w counter st) mid b = (At_Wait (WaitRestore w mid counter st), None)"

lemma acquire_return_view:
  "marks (acquire_return t ak mid b s) = marks s" "pool (acquire_return t ak mid b s) = pool s"
  "pc_of (acquire_return t ak mid b s) = (pc_of s)(t := fst (acquire_next ak mid b))"
  "wm_of (acquire_return t ak mid b s) = wm_of s"
  "res_of (acquire_return t ak mid b s) = (res_of s)(t := next_res s t (snd (acquire_next ak mid b)))"
  by (cases ak; simp add: next_res_def)+

lemma acquire_wait_refs [simp]: "acquire_wait ak mid \<in> {None, Some mid}" "acquire_wait ak mid = Some mid' \<Longrightarrow> mid' = mid"
  "acquire_wait ak mid = None \<or> acquire_wait ak mid = Some mid"
  by (cases ak; simp)+

lemma acquire_next_facts:
  "wait_mon (fst (acquire_next ak mid b)) = acquire_wait ak mid" "block_mon (fst (acquire_next ak mid b)) = None"
  "lock_mon (fst (acquire_next ak mid b)) = None" "fresh_mon (fst (acquire_next ak mid b)) = None"
  "phase_of (fst (acquire_next ak mid b)) (next_res s t (snd (acquire_next ak mid b))) \<noteq> Free (R_Hash h)"
  "refs_only mid (fst (acquire_next ak mid b))"
  by (cases ak; simp add: next_res_def phase_of_def refs_only_def)+

lemma acquire_trylock_ok:
  assumes I: "sys_inv b s" and t: "valid_tid t" and p: "pc_of s t = At_Acquire (AcqTry ak mid)"
  shows "outcome_ok b s (Acquire_trylock t ak mid s)"
proof -
  have f: "acquire_ok b ak" and o: "on_mon (marks s) (pool s) mid (acquire_obj ak) (\<lambda>m. owner m \<noteq> Some t)"
    using thread_fact[OF I p] by simp_all
  obtain m where m: "pool s mid = Some m" "mobj m = acquire_obj ak" "owner m \<noteq> Some t" "monitor_ok b (pc_of s) mid m"
    "published (marks s) mid (mobj m)" by (rule on_mon_fact[OF I o])
  show ?thesis
  proof (cases "mlock m")
    case None
    let ?m = "m\<lparr>mlock := Some t\<rparr>" and ?p = "At_Acquire (AcqSet False ak mid)"
    have ow: "owner m = None" using None owner_fact(2)[OF m(4)] by (cases "owner m") auto
    have "step_ok b s (goto t ?p (put_monitor mid ?m s))"
    proof (rule ok_monitor_kept[OF I t p _ m(5,1), where m' = ?m and p' = ?p])
      show "moves t ?p (res_of s t) (marks s) ((pool s)(mid \<mapsto> ?m)) s (goto t ?p (put_monitor mid ?m s))"
        using p by (intro moves_same[OF I]) simp_all
      show "monitor_ok (Suc b) ((pc_of s)(t := ?p)) mid ?m"
        using ow owner_fact[OF m(4)] p by (intro monitor_ok_fields[OF m(4)]) (auto simp: wcount_def)
    qed (use f m None ow in \<open>auto simp: own_change_def refs_only_def phase_of_def on_mon_def monitor_lock_def\<close>)
    then show ?thesis using None m by (simp add: Acquire_trylock_def)
  next
    case (Some u)
    have "step_ok b s (goto t (At_Acquire (AcqCount ak mid)) s)"
      using f o by (intro ok_goto[OF I t p]) (simp_all add: phase_of_def)
    moreover have "step_ok b s (acquire_return t ak mid False s)" if "acquire_trylock ak"
    proof (cases ak)
      case (AK_Enter c)
      then show ?thesis using that by (simp, intro ok_ret[OF I t p]) (simp_all add: phase_of_def quiet_def sp_enter_fail)
    qed (use that in simp)
    ultimately show ?thesis using Some m by (simp add: Acquire_trylock_def)
  qed
qed

lemma acquire_count_ok:
  assumes I: "sys_inv b s" and t: "valid_tid t" and p: "pc_of s t = At_Acquire (AcqCount ak mid)"
  shows "outcome_ok b s (Acquire_count t ak mid s)"
proof -
  have f: "acquire_ok b ak" and o: "on_mon (marks s) (pool s) mid (acquire_obj ak) (\<lambda>m. owner m \<noteq> Some t)"
    using thread_fact[OF I p] by simp_all
  obtain m where m: "pool s mid = Some m" "mobj m = acquire_obj ak" "owner m \<noteq> Some t" "monitor_ok b (pc_of s) mid m"
    "published (marks s) mid (mobj m)" by (rule on_mon_fact[OF I o])
  let ?m = "m\<lparr>waitersCounter := waitersCounter m + 1\<rparr>" and ?p = "At_Acquire (AcqLock ak mid)"
  let ?th = "\<lambda>th. th\<lparr>enterMonitorObject := Some (acquire_obj ak), monitorOldStatus := IS_BLOCKED, enteringMonitor := Some mid\<rparr>"
  have "step_ok b s (goto t ?p (on_thread t ?th (put_monitor mid ?m s)))"
  proof (rule ok_monitor_kept[OF I t p _ m(5,1), where m' = ?m and p' = ?p])
    show "moves t ?p (res_of s t) (marks s) ((pool s)(mid \<mapsto> ?m)) s (goto t ?p (on_thread t ?th (put_monitor mid ?m s)))"
      using p by (intro moves_same[OF I]) simp_all
    show "monitor_ok (Suc b) ((pc_of s)(t := ?p)) mid ?m"
      using owner_fact[OF m(4)] p wc_up[OF I m(4)] lock_kept[OF m(4), of t ?p]
      by (intro monitor_ok_fields[OF m(4)]) (auto simp: wcount_def)
    show "monitor_lock ((pc_of s)(t := ?p)) mid ?m = monitor_lock (pc_of s) mid m"
      using m(3) by (auto simp: monitor_lock_def count_of_def split: option.splits)
  qed (use f m in \<open>auto simp: own_change_def refs_only_def phase_of_def on_mon_def\<close>)
  then show ?thesis using m by (simp add: Acquire_count_def)
qed

lemma acquire_lock_ok:
  assumes I: "sys_inv b s" and t: "valid_tid t" and p: "pc_of s t = At_Acquire (AcqLock ak mid)"
  shows "outcome_ok b s (Acquire_lock t ak mid s)"
proof -
  have f: "acquire_ok b ak" and o: "on_mon (marks s) (pool s) mid (acquire_obj ak) (\<lambda>m. owner m \<noteq> Some t)"
    using thread_fact[OF I p] by simp_all
  obtain m where m: "pool s mid = Some m" "mobj m = acquire_obj ak" "owner m \<noteq> Some t" "monitor_ok b (pc_of s) mid m"
    "published (marks s) mid (mobj m)" by (rule on_mon_fact[OF I o])
  let ?m = "m\<lparr>mlock := Some t\<rparr>" and ?p = "At_Acquire (AcqSet True ak mid)"
  let ?s = "goto t ?p (on_thread t (\<lambda>th. th\<lparr>enteringMonitor := None\<rparr>) (put_monitor mid ?m s))"
  have "step_ok b s ?s" if free: "mlock m = None"
  proof (rule ok_monitor_kept[OF I t p _ m(5,1), where m' = ?m and p' = ?p])
    have ow: "owner m = None" using free owner_fact(2)[OF m(4)] by (cases "owner m") auto
    show "moves t ?p (res_of s t) (marks s) ((pool s)(mid \<mapsto> ?m)) s ?s"
      using p by (intro moves_same[OF I]) simp_all
    show "monitor_ok (Suc b) ((pc_of s)(t := ?p)) mid ?m"
      using ow owner_fact[OF m(4)] p by (intro monitor_ok_fields[OF m(4)]) (auto simp: wcount_def)
    show "own_change t m ?m" "monitor_lock ((pc_of s)(t := ?p)) mid ?m = monitor_lock (pc_of s) mid m"
      using free ow by (simp_all add: own_change_def monitor_lock_def)
    show "thread_inv (Suc b) (marks s) ((pool s)(mid \<mapsto> ?m)) t ?p" using f m ow by (simp add: on_mon_def)
  qed (auto simp: refs_only_def phase_of_def)
  then show ?thesis using m by (simp add: Acquire_lock_def)
qed

lemma acquired_lock_value:
  assumes "owner m = Some t" "recursiveCounter m = 1" "\<And>c. saved_count (pcs t) mid = Some c \<Longrightarrow> unat c = n"
    "saved_count (pcs t) mid = None \<Longrightarrow> n = 1"
  shows "monitor_lock pcs mid m = Some (t, n)"
  using assms by (cases "saved_count (pcs t) mid") (simp_all add: monitor_lock_def count_of_def)

lemma acquired_spec:
  assumes "lk (acquire_obj ak) = None" "v = Some (t, case ak of AK_Enter _ \<Rightarrow> 1 | AK_Wait _ c _ \<Rightarrow> unat c)"
  shows "thread_spec t lk (acquire_phase ak) (lk(acquire_obj ak := v)) (acquired_phase ak)"
  using assms by (cases ak) (simp_all add: sp_intros(1,5))

lemma acquired_next_phase: "phase_of (fst (acquire_next ak mid True)) (next_res s t (snd (acquire_next ak mid True))) = acquired_phase ak"
  by (cases ak) (simp_all add: phase_of_def next_res_def)

lemma acquired_next_inv:
  "acquire_ok b ak \<Longrightarrow> on_mon mk pl mid (acquire_obj ak) (\<lambda>m. owner m = Some t \<and> recursiveCounter m = 1) \<Longrightarrow>
   thread_inv (Suc b) mk pl t (fst (acquire_next ak mid True))"
  by (cases ak) simp_all

lemma acquired_next_saved:
  "saved_count (fst (acquire_next ak mid True)) mid' = (case ak of AK_Enter _ \<Rightarrow> None | AK_Wait _ c _ \<Rightarrow> if mid = mid' then Some c else None)"
  "saved_count (At_Acquire (AcqUncount ak mid)) mid' = (case ak of AK_Enter _ \<Rightarrow> None | AK_Wait _ c _ \<Rightarrow> if mid = mid' then Some c else None)"
  by (cases ak; simp)+

lemma acquire_set_ok:
  assumes I: "sys_inv b s" and t: "valid_tid t" and p: "pc_of s t = At_Acquire (AcqSet slow ak mid)"
  shows "outcome_ok b s (Acquire_set t slow ak mid s)"
proof -
  have f: "acquire_ok b ak" and o: "on_mon (marks s) (pool s) mid (acquire_obj ak) (\<lambda>m. mlock m = Some t \<and> owner m = None)"
    using thread_fact[OF I p] by simp_all
  obtain m where m: "pool s mid = Some m" "mobj m = acquire_obj ak" "mlock m = Some t \<and> owner m = None" "monitor_ok b (pc_of s) mid m"
    "published (marks s) mid (mobj m)" by (rule on_mon_fact[OF I o])
  have rc: "recursiveCounter m = 0" and b1: "1 \<le> Suc b" using owner_fact(1)[OF m(4)] m(3) by simp_all
  let ?m = "m\<lparr>owner := Some t, recursiveCounter := 1\<rparr>"
  let ?s = "AddMonitor t (put_monitor mid ?m s)"
  have lk: "locks_of s (acquire_obj ak) = None" using lock_published[OF m(5,1)] m(2,3) by (simp add: monitor_lock_owner(3))
  have step: "step_ok b s s'"
    if mv: "moves t p' r (marks s) ((pool s)(mid \<mapsto> ?m)) s s'"
      and wc: "wcount mid p' = wcount mid (pc_of s t)" "wait_mon p' = acquire_wait ak mid" "lock_mon p' = None"
      and self: "thread_inv (Suc b) (marks s) ((pool s)(mid \<mapsto> ?m)) t p'" and refs: "refs_only mid p'"
      and saved: "\<And>mid'. saved_count p' mid' = (case ak of AK_Enter _ \<Rightarrow> None | AK_Wait _ c _ \<Rightarrow> if mid = mid' then Some c else None)"
      and ph: "phase_of p' r = acquired_phase ak" for p' r s'
  proof (rule ok_monitor_moved[OF I t p mv m(5,1)])
    show "monitor_ok (Suc b) ((pc_of s)(t := p')) mid ?m"
      using m(3) b1 wc p by (intro monitor_ok_fields[OF m(4)]) auto
    have "monitor_lock ((pc_of s)(t := p')) mid ?m = Some (t, case ak of AK_Enter _ \<Rightarrow> 1 | AK_Wait _ c _ \<Rightarrow> unat c)"
      using saved by (intro acquired_lock_value) (auto split: acquire_cont.splits)
    then show "thread_spec t (locks_of s) (phase_of (At_Acquire (AcqSet slow ak mid)) (res_of s t))
        ((locks_of s)(mobj m := monitor_lock ((pc_of s)(t := p')) mid ?m)) (phase_of p' r)"
      using lk ph acquired_spec[of "locks_of s" ak] m(2) by (simp add: phase_of_def)
    show "saved_count p' mid' = saved_count (At_Acquire (AcqSet slow ak mid)) mid'" if "mid' \<noteq> mid" for mid'
      using that saved by (auto split: acquire_cont.split)
  qed (use self refs ph m in \<open>auto simp: own_change_def refs_only_def\<close>)
  have on: "on_mon (marks s) ((pool s)(mid \<mapsto> ?m)) mid (acquire_obj ak) (\<lambda>m. owner m = Some t \<and> recursiveCounter m = 1)"
    using m by (simp add: on_mon_def)
  have "step_ok b s (goto t (At_Acquire (AcqUncount ak mid)) ?s)" if slow
  proof (rule step)
    show "moves t (At_Acquire (AcqUncount ak mid)) (res_of s t) (marks s) ((pool s)(mid \<mapsto> ?m)) s (goto t (At_Acquire (AcqUncount ak mid)) ?s)"
      using p by (intro moves_same[OF I]) simp_all
  qed (use that p f on in \<open>simp_all add: wcount_def acquired_next_saved phase_of_def refs_only_def\<close>)
  moreover have "step_ok b s (acquire_return t ak mid True ?s)" if "\<not> slow"
  proof (rule step)
    show "moves t (fst (acquire_next ak mid True)) (next_res s t (snd (acquire_next ak mid True))) (marks s) ((pool s)(mid \<mapsto> ?m)) s
        (acquire_return t ak mid True ?s)"
      using p by (intro moves_same[OF I]) (simp_all add: acquire_return_view acquire_next_facts next_res_def cong: option.case_cong)
  qed (use that p acquired_next_inv[OF f on] in \<open>simp_all add: wcount_def acquired_next_saved acquire_next_facts acquired_next_phase\<close>)
  ultimately show ?thesis using m rc by (simp add: Acquire_set_def SetOwner_def Let_def)
qed

lemma acquire_uncount_ok:
  assumes I: "sys_inv b s" and t: "valid_tid t" and p: "pc_of s t = At_Acquire (AcqUncount ak mid)"
  shows "outcome_ok b s (Acquire_uncount t ak mid s)"
proof -
  have f: "acquire_ok b ak" and o: "on_mon (marks s) (pool s) mid (acquire_obj ak) (\<lambda>m. owner m = Some t \<and> recursiveCounter m = 1)"
    using thread_fact[OF I p] by simp_all
  obtain m where m: "pool s mid = Some m" "mobj m = acquire_obj ak" "owner m = Some t \<and> recursiveCounter m = 1" "monitor_ok b (pc_of s) mid m"
    "published (marks s) mid (mobj m)" by (rule on_mon_fact[OF I o])
  let ?m = "m\<lparr>waitersCounter := waitersCounter m - 1\<rparr>" and ?n = "acquire_next ak mid True"
  let ?s = "acquire_return t ak mid True (on_thread t (\<lambda>th. th\<lparr>enterMonitorObject := None, monitorOldStatus := FINISHED\<rparr>) (put_monitor mid ?m s))"
  have down: "unat (waitersCounter m - 1) + 1 = unat (waitersCounter m)"
    by (rule wc_down[OF m(4), of t]) (use p in \<open>simp add: wcount_def\<close>)
  have "step_ok b s ?s"
  proof (rule ok_monitor_kept[OF I t p _ m(5,1), where m' = ?m and p' = "fst ?n" and r = "next_res s t (snd ?n)"])
    show "moves t (fst ?n) (next_res s t (snd ?n)) (marks s) ((pool s)(mid \<mapsto> ?m)) s ?s"
      using p by (intro moves_same[OF I]) (simp_all add: acquire_return_view acquire_next_facts next_res_def cong: option.case_cong)
    show "monitor_ok (Suc b) ((pc_of s)(t := fst ?n)) mid ?m"
      using owner_fact[OF m(4)] p down m(3) by (intro monitor_ok_fields[OF m(4)]) (auto simp: wcount_def acquire_next_facts)
    show "monitor_lock ((pc_of s)(t := fst ?n)) mid ?m = monitor_lock (pc_of s) mid m"
      using m(3) p by (cases ak) (simp_all add: monitor_lock_def count_of_def)
    have "on_mon (marks s) ((pool s)(mid \<mapsto> ?m)) mid (acquire_obj ak) (\<lambda>m. owner m = Some t \<and> recursiveCounter m = 1)"
      using m by (simp add: on_mon_def)
    then show "thread_inv (Suc b) (marks s) ((pool s)(mid \<mapsto> ?m)) t (fst ?n)" by (rule acquired_next_inv[OF f])
  qed (simp_all add: own_change_def refs_only_def acquire_next_facts acquired_next_saved acquired_next_phase del: One_nat_def)
  then show ?thesis using m by (simp add: Acquire_uncount_def)
qed

section \<open>Releasing a monitor and exiting\<close>

fun release_next :: "release_cont \<Rightarrow> mon_id \<Rightarrow> pc \<times> result option" where
  "release_next (RK_Exit obj) mid = (Idle, Some (R_State OK))"
| "release_next (RK_Wait w counter) mid = (At_Wait (WaitCheck w mid counter), None)"

lemma release_return_view:
  "marks (release_return t rk mid s) = marks s" "pool (release_return t rk mid s) = pool s"
  "pc_of (release_return t rk mid s) = (pc_of s)(t := fst (release_next rk mid))"
  "wm_of (release_return t rk mid s) = wm_of s"
  "res_of (release_return t rk mid s) = (res_of s)(t := next_res s t (snd (release_next rk mid)))"
  by (cases rk; simp add: next_res_def)+

lemma release_wait_refs [simp]: "release_wait rk mid = None \<or> release_wait rk mid = Some mid"
  by (cases rk; simp)

lemma release_next_facts:
  "wait_mon (fst (release_next rk mid)) = release_wait rk mid" "block_mon (fst (release_next rk mid)) = None"
  "lock_mon (fst (release_next rk mid)) = None" "fresh_mon (fst (release_next rk mid)) = None" "refs_only mid (fst (release_next rk mid))"
  "saved_count (fst (release_next rk mid)) mid' = None"
  "phase_of (fst (release_next rk mid)) (next_res s t (snd (release_next rk mid))) = released_phase rk"
  by (cases rk; simp add: next_res_def phase_of_def refs_only_def)+

lemma wait_mon_lists:
  assumes "monitor_ok b pcs mid m" "u \<in> S" "S \<subseteq> set (waiters m) \<union> set (toWakeup m)" "wait_mon p' = wait_mon (pcs t)"
  shows "wait_mon ((pcs(t := p')) u) = Some mid"
  using monitor_ok_lists(2)[OF assms(1), of u] assms(2-4) by auto

lemma release_owner_inner:
  assumes I: "sys_inv b s" and t: "valid_tid t" and p: "pc_of s t = At_Release (RelOwner (RK_Exit obj) mid)"
    and m: "pool s mid = Some m" "mobj m = obj" "monitor_ok b (pc_of s) mid m" "published (marks s) mid (mobj m)"
    and ow: "owner m = Some t" and inner: "recursiveCounter m \<noteq> 1"
  shows "step_ok b s (ret t (R_State OK) (PopLocalObjectLocked t obj (put_monitor mid (m\<lparr>recursiveCounter := recursiveCounter m - 1\<rparr>) s)))"
proof (rule ok_monitor_moved[OF I t p _ m(4,1), where p' = Idle and r = "R_State OK" and m' = "m\<lparr>recursiveCounter := recursiveCounter m - 1\<rparr>"])
  let ?m = "m\<lparr>recursiveCounter := recursiveCounter m - 1\<rparr>"
  show "moves t Idle (R_State OK) (marks s) ((pool s)(mid \<mapsto> ?m)) s (ret t (R_State OK) (PopLocalObjectLocked t obj (put_monitor mid ?m s)))"
    using p by (intro moves_same[OF I]) simp_all
  have rc: "recursiveCounter m \<noteq> 0" "unat (recursiveCounter m) \<le> b" using owner_fact[OF m(3)] ow by auto
  have k: "unat (recursiveCounter m - 1) = unat (recursiveCounter m) - 1" "0 < unat (recursiveCounter m)" using rc_down[OF rc(1)] by auto
  have k1: "unat (recursiveCounter m) \<noteq> 1" using inner by (metis unat_1 word_unat_eq_iff)
  then have "unat (recursiveCounter m - 1) \<noteq> 0" using k by arith
  then have "recursiveCounter m - 1 \<noteq> 0" by (metis unat_0)
  then show "monitor_ok (Suc b) ((pc_of s)(t := Idle)) mid ?m"
    using owner_fact(2)[OF m(3) ow] k rc(2) p ow by (intro monitor_ok_fields[OF m(3)]) (auto simp: wcount_def)
  have l: "locks_of s obj = Some (t, unat (recursiveCounter m))"
    using lock_published[OF m(4,1)] m(2) monitor_lock_owner(1)[OF ow, of "pc_of s" mid] p by simp
  moreover have "monitor_lock ((pc_of s)(t := Idle)) mid ?m = Some (t, unat (recursiveCounter m) - 1)"
    using ow k by (simp add: monitor_lock_owner(1))
  ultimately show "thread_spec t (locks_of s) (phase_of (At_Release (RelOwner (RK_Exit obj) mid)) (res_of s t))
      ((locks_of s)(mobj m := monitor_lock ((pc_of s)(t := Idle)) mid ?m)) (phase_of Idle (R_State OK))"
    using m(2) k1 k(2) sp_intros(3)[of "locks_of s" obj t "unat (recursiveCounter m)", OF l k(2)] by (simp add: phase_of_def)
qed (use ow in \<open>simp_all add: own_change_def refs_only_def phase_of_def\<close>)

lemma released_spec:
  assumes "case rk of RK_Exit obj \<Rightarrow> lk obj = Some (t, 1) | RK_Wait w c \<Rightarrow> lk (wc_obj w) = Some (t, unat c)"
  shows "thread_spec t lk (release_phase rk) (lk(release_obj rk := None)) (released_phase rk)"
  using assms by (cases rk) (simp_all add: sp_exit sp_wait)

lemma release_owner_ok:
  assumes I: "sys_inv b s" and t: "valid_tid t" and p: "pc_of s t = At_Release (RelOwner rk mid)"
  shows "outcome_ok b s (Release_owner t rk mid s)"
proof -
  have f: "release_ok b rk" "case rk of RK_Exit obj \<Rightarrow> published (marks s) mid obj
       | RK_Wait w _ \<Rightarrow> on_mon (marks s) (pool s) mid (wc_obj w) (\<lambda>m. owner m = Some t \<and> recursiveCounter m = 1)"
    using thread_fact[OF I p] by simp_all
  then have pub: "published (marks s) mid (release_obj rk)" by (cases rk) (simp_all add: on_mon_def)
  obtain m where m: "pool s mid = Some m" "mobj m = release_obj rk" "monitor_ok b (pc_of s) mid m" "published (marks s) mid (mobj m)"
    by (rule published_monitor[OF I pub])
  show ?thesis
  proof (cases "owner m = Some t")
    case ow: True
    show ?thesis
    proof (cases "recursiveCounter m = 1")
      case one: True
      obtain w ws us where wk: "list_wakeup (waiters m, toWakeup m) = (w, ws, us)" by (metis prod_cases3)
      let ?m = "m\<lparr>recursiveCounter := 0, owner := None, waiters := ws, toWakeup := us\<rparr>"
      let ?s = "RemoveMonitor t (put_monitor mid ?m s)"
      have step: "step_ok b s (goto t p' ?s)" if p': "p' = At_Release (RelUnlock rk mid) \<or> p' = At_Release (RelSignal rk mid u)" for p' u
      proof (rule ok_monitor_moved[OF I t p _ m(4,1), where p' = p' and r = "res_of s t" and m' = ?m])
        have same: "wait_mon p' = wait_mon (pc_of s t)" "block_mon p' = None" "lock_mon p' = Some mid" "saved_count p' mid' = None"
          "phase_of p' (res_of s t) = released_phase rk" "p' \<noteq> Idle" for mid' using p' p by (auto simp: phase_of_def)
        show "moves t p' (res_of s t) (marks s) ((pool s)(mid \<mapsto> ?m)) s (goto t p' ?s)"
          using same by (intro moves_same[OF I]) simp_all
        show "monitor_ok (Suc b) ((pc_of s)(t := p')) mid ?m"
        proof (rule monitor_ok_put[OF m(3)])
          show "unat (hashCode ?m) < 2 ^ 28" using m(3) by (simp add: monitor_ok_def)
          show "lock_mon (((pc_of s)(t := p')) u) = Some mid" if "mlock ?m = Some u" for u
            using that same owner_fact(2)[OF m(3) ow] by simp
          show "distinct (waiters ?m @ toWakeup ?m)" using list_queues.wakeup_distinct[OF wk] monitor_ok_lists(1)[OF m(3)] by simp
          show "wait_mon (((pc_of s)(t := p')) u) = Some mid" if "u \<in> set (waiters ?m) \<union> set (toWakeup ?m)" for u
            using wait_mon_lists[OF m(3) that _ same(1)] list_queues.wakeup_threads[OF wk] by simp
          show "unat (waitersCounter ?m) + wcount mid (pc_of s t) = unat (waitersCounter m) + wcount mid p'"
            using same p by (simp add: wcount_def)
        qed simp_all
        have "case rk of RK_Exit obj \<Rightarrow> locks_of s obj = Some (t, 1) | RK_Wait w c \<Rightarrow> locks_of s (wc_obj w) = Some (t, unat c)"
          using lock_published[OF m(4,1)] m(2) p ow one by (cases rk) (simp_all add: monitor_lock_def count_of_def)
        then have "thread_spec t (locks_of s) (release_phase rk) ((locks_of s)(release_obj rk := None)) (released_phase rk)" by (rule released_spec)
        then show "thread_spec t (locks_of s) (phase_of (At_Release (RelOwner rk mid)) (res_of s t))
            ((locks_of s)(mobj m := monitor_lock ((pc_of s)(t := p')) mid ?m)) (phase_of p' (res_of s t))"
          using m(2) same by (simp add: phase_of_def monitor_lock_def)
        show "own_change t m ?m" using owner_fact(2)[OF m(3) ow] ow by (simp add: own_change_def)
        have "on_mon (marks s) ((pool s)(mid \<mapsto> ?m)) mid (release_obj rk) (\<lambda>m. mlock m = Some t \<and> owner m = None)"
          using owner_fact(2)[OF m(3) ow] m by (simp add: on_mon_def)
        then show "thread_inv (Suc b) (marks s) ((pool s)(mid \<mapsto> ?m)) t p'" using p' f by auto
        show "saved_count p' mid' = saved_count (At_Release (RelOwner rk mid)) mid'" if "mid' \<noteq> mid" for mid'
          using same that by (cases rk) simp_all
        show "refs_only mid p'" using p' by (elim disjE) (simp_all add: refs_only_def)
        show "refs_only mid (At_Release (RelOwner rk mid))" by (simp add: refs_only_def)
        show "phase_of p' (res_of s t) \<noteq> Free (R_Hash h)" for h using same(6) by (rule phase_not_hash)
      qed simp_all
      show ?thesis using m ow one step[of "At_Release (RelUnlock rk mid)"] step[of "At_Release (RelSignal rk mid (the w))" "the w"]
        by (cases w) (simp_all add: Release_owner_def SetOwner_def wk Let_def)
    next
      case inner: False
      then obtain obj where rk: "rk = RK_Exit obj" using f(2) m(1) ow by (cases rk) (auto simp: on_mon_def)
      have "recursiveCounter m - 1 \<noteq> 0" using inner by simp
      then show ?thesis using m ow rk release_owner_inner[OF I t, of obj mid m] p inner by (simp add: Release_owner_def)
    qed
  next
    case False
    then show ?thesis using m by (simp add: Release_owner_def expected_fault_def)
  qed
qed

lemma release_signal_ok:
  assumes I: "sys_inv b s" and t: "valid_tid t" and p: "pc_of s t = At_Release (RelSignal rk mid w)"
  shows "outcome_ok b s (Release_signal t rk mid w s)"
proof -
  have "step_ok b s (goto t (At_Release (RelUnlock rk mid)) (SignalThread w s))"
    using thread_fact[OF I p] by (intro ok_goto[OF I t p]) simp_all
  then show ?thesis by (simp add: Release_signal_def)
qed

lemma release_unlock_ok:
  assumes I: "sys_inv b s" and t: "valid_tid t" and p: "pc_of s t = At_Release (RelUnlock rk mid)"
  shows "outcome_ok b s (Release_unlock t rk mid s)"
proof -
  have f: "release_ok b rk" and o: "on_mon (marks s) (pool s) mid (release_obj rk) (\<lambda>m. mlock m = Some t \<and> owner m = None)"
    using thread_fact[OF I p] by simp_all
  obtain m where m: "pool s mid = Some m" "mobj m = release_obj rk" "mlock m = Some t \<and> owner m = None" "monitor_ok b (pc_of s) mid m"
    "published (marks s) mid (mobj m)" by (rule on_mon_fact[OF I o])
  let ?m = "m\<lparr>mlock := None\<rparr>" and ?n = "release_next rk mid"
  let ?s = "release_return t rk mid (put_monitor mid ?m s)"
  have "step_ok b s ?s"
  proof (rule ok_monitor_kept[OF I t p _ m(5,1), where m' = ?m and p' = "fst ?n" and r = "next_res s t (snd ?n)"])
    show "moves t (fst ?n) (next_res s t (snd ?n)) (marks s) ((pool s)(mid \<mapsto> ?m)) s ?s"
      using p by (intro moves_same[OF I]) (simp_all add: release_return_view release_next_facts next_res_def cong: option.case_cong)
    show "monitor_ok (Suc b) ((pc_of s)(t := fst ?n)) mid ?m"
      using owner_fact[OF m(4)] p m(3) by (intro monitor_ok_fields[OF m(4)]) (auto simp: wcount_def release_next_facts)
    show "monitor_lock ((pc_of s)(t := fst ?n)) mid ?m = monitor_lock (pc_of s) mid m" using m(3) by (simp add: monitor_lock_def)
    show "own_change t m ?m" using m(3) by (simp add: own_change_def)
    have "on_mon (marks s) ((pool s)(mid \<mapsto> ?m)) mid (release_obj rk) (\<lambda>m. owner m \<noteq> Some t)"
      using m by (simp add: on_mon_def)
    then show "thread_inv (Suc b) (marks s) ((pool s)(mid \<mapsto> ?m)) t (fst ?n)" using f by (cases rk) simp_all
    show "saved_count (fst ?n) mid' = saved_count (At_Release (RelUnlock rk mid)) mid'" for mid' by (simp add: release_next_facts)
  qed (simp_all add: refs_only_def release_next_facts)
  then show ?thesis using m by (simp add: Release_unlock_def)
qed

lemma exit_loop_ok:
  assumes I: "sys_inv b s" and t: "valid_tid t" and p: "pc_of s t = At_Exit (ExitLoop obj)"
  shows "outcome_ok b s (MonitorExit_loop t obj s)"
proof -
  have fail: "step_ok b s (ret t (R_State ILLEGAL) s)" if "\<forall>n. locks_of s obj \<noteq> Some (t, n)"
    using that by (intro ok_ret[OF I t p]) (simp_all add: phase_of_def quiet_def sp_exit_fail)
  show ?thesis
  proof (cases "GetState (marks s obj)")
    case STATE_UNLOCKED
    then show ?thesis using fail lock_at_facts(1)[of s obj] by (simp add: MonitorExit_loop_def)
  next
    case STATE_HASHED
    then show ?thesis using fail lock_at_facts(2)[of s obj] by (simp add: MonitorExit_loop_def)
  next
    case STATE_LIGHT_LOCKED
    have "step_ok b s (goto t (At_Exit (ExitCas obj (marks s obj) new)) s)"
      if "GetThreadId (marks s obj) = t" "new = (if GetLockCount (marks s obj) - 1 \<noteq> 0
        then DecodeFromLightLock t (GetLockCount (marks s obj) - 1) (marks s obj) else DecodeFromUnlocked (marks s obj))" for new
      using that STATE_LIGHT_LOCKED by (intro ok_goto[OF I t p]) (simp_all add: phase_of_def)
    then show ?thesis using fail lock_at_facts(3)[of s obj] STATE_LIGHT_LOCKED by (simp add: MonitorExit_loop_def Let_def)
  next
    case STATE_HEAVY_LOCKED
    then show ?thesis by (simp add: MonitorExit_loop_def Let_def) (intro ok_goto[OF I t p]; simp add: phase_of_def published_def)
  next
    case STATE_GC
    then show ?thesis using mark_fact[OF I, of obj] by (simp add: mark_ok_def)
  qed
qed

lemma exit_cas_ok:
  assumes I: "sys_inv b s" and t: "valid_tid t" and p: "pc_of s t = At_Exit (ExitCas obj old new)"
  shows "outcome_ok b s (MonitorExit_cas t obj old new s)"
proof (cases "marks s obj = old")
  case True
  let ?c = "GetLockCount old" and ?s = "ret t (R_State OK) (PopLocalObjectLocked t obj (s\<lparr>marks := (marks s)(obj := new)\<rparr>))"
  have k: "GetState old = STATE_LIGHT_LOCKED" "GetThreadId old = t"
      "new = (if ?c - 1 \<noteq> 0 then DecodeFromLightLock t (?c - 1) old else DecodeFromUnlocked old)"
    using thread_fact[OF I p] by simp_all
  have nz: "?c \<noteq> 0" using mark_fact[OF I, of obj] True k(1) by (simp add: mark_ok_def)
  have u: "unat (?c - 1) = unat ?c - 1" "0 < unat ?c" using nz by (simp_all add: unat_minus_one unat_gt_0)
  have small: "unat (?c - 1) < 2 ^ 15" using u field_bounds(2)[of old] by linarith
  have one: "?c - 1 = 0 \<longleftrightarrow> unat ?c = 1" by (metis eq_iff_diff_eq_0 unat_1 word_unat_eq_iff)
  have new: "GetState new \<noteq> STATE_HEAVY_LOCKED" "GetState new = STATE_LIGHT_LOCKED \<Longrightarrow> GetThreadId new = t" "mark_ok new"
    "mark_lock new = (if unat ?c = 1 then None else Some (t, unat ?c - 1))"
    using k(3) one u(1) light_lock_word[OF t small] unlocked_word[of old] by (auto split: if_splits)
  have "step_ok b s ?s"
  proof (rule ok_mark[OF I t, where p' = Idle and r = "R_State OK", OF _ True])
    show "moves t Idle (R_State OK) ((marks s)(obj := new)) (pool s) s ?s" using p by (intro moves_same[OF I]) simp_all
    have l: "locks_of s obj = Some (t, unat ?c)" using lock_at_facts(3)[of s obj] True k by simp
    show "phase_of Idle (R_State OK) = phases_of s t \<and> mark_lock new = mark_lock old \<or>
      thread_spec t (locks_of s) (phases_of s t) ((locks_of s)(obj := mark_lock new)) (phase_of Idle (R_State OK))"
      using sp_intros(3)[of "locks_of s" obj t "unat ?c", OF l u(2)] new(4) p by (simp add: phases_of_def phase_of_def)
  qed (use k new p in \<open>auto simp: quiet_def phase_of_def\<close>)
  then show ?thesis using True by (simp add: MonitorExit_cas_def AtomicSetMark_def)
next
  case False
  have "step_ok b s (goto t (At_Exit (ExitLoop obj)) s)" by (intro ok_goto[OF I t p]) (simp_all add: phase_of_def)
  then show ?thesis using False by (simp add: MonitorExit_cas_def AtomicSetMark_def)
qed

lemma lookup_ok:
  assumes I: "sys_inv b s" and t: "valid_tid t"
  shows "pc_of s t = At_Exit (ExitLookup obj mid) \<Longrightarrow> outcome_ok b s (MonitorExit_heavy t obj mid s)"
    and "pc_of s t = At_Wait (WaitLookup w mid) \<Longrightarrow> outcome_ok b s (Wait_lookup t w mid s)"
    and "pc_of s t = At_Notify (NotifyLookup obj every mid) \<Longrightarrow> outcome_ok b s (Notify_lookup t obj every mid s)"
    and "pc_of s t = At_Hash (HashLookup obj mid) \<Longrightarrow> outcome_ok b s (GetHashCode_lookup t obj mid s)"
proof -
  have pool: "\<exists>m. pool s mid = Some m" if "published (marks s) mid x" for x using published_fact[OF I that] by blast
  show "outcome_ok b s (MonitorExit_heavy t obj mid s)" if p: "pc_of s t = At_Exit (ExitLookup obj mid)"
  proof -
    have "step_ok b s (goto t (At_Release (RelOwner (RK_Exit obj) mid)) s)"
      using thread_fact[OF I p] by (intro ok_goto[OF I t p]) (simp_all add: phase_of_def)
    then show ?thesis using thread_fact[OF I p] pool[of obj] by (auto simp: MonitorExit_heavy_def LookupMonitor_def)
  qed
  show "outcome_ok b s (Wait_lookup t w mid s)" if p: "pc_of s t = At_Wait (WaitLookup w mid)"
  proof -
    have "step_ok b s (goto t (At_Wait (WaitOwner w mid)) s)"
      using thread_fact[OF I p] by (intro ok_goto[OF I t p]) (simp_all add: phase_of_def)
    then show ?thesis using thread_fact[OF I p] pool[of "wc_obj w"] by (auto simp: Wait_lookup_def LookupMonitor_def)
  qed
  show "outcome_ok b s (Notify_lookup t obj every mid s)" if p: "pc_of s t = At_Notify (NotifyLookup obj every mid)"
  proof -
    have "step_ok b s (goto t (At_Notify (NotifyOwner obj every mid)) s)"
      using thread_fact[OF I p] by (intro ok_goto[OF I t p]) (simp_all add: phase_of_def)
    then show ?thesis using thread_fact[OF I p] pool[of obj] by (auto simp: Notify_lookup_def LookupMonitor_def)
  qed
  show "outcome_ok b s (GetHashCode_lookup t obj mid s)" if p: "pc_of s t = At_Hash (HashLookup obj mid)"
  proof -
    have "step_ok b s (goto t (At_Hash (HashRead obj mid)) s)"
      using thread_fact[OF I p] by (intro ok_goto[OF I t p]) (simp_all add: phase_of_def)
    then show ?thesis using thread_fact[OF I p] pool[of obj] by (auto simp: GetHashCode_lookup_def LookupMonitor_def)
  qed
qed

section \<open>Waiting and notifying\<close>

lemma wait_loop_ok:
  assumes I: "sys_inv b s" and t: "valid_tid t" and p: "pc_of s t = At_Wait (WaitLoop w)"
  shows "outcome_ok b s (Wait_loop t w s)"
proof -
  have fail: "step_ok b s (ret t (R_State ILLEGAL) s)" if "\<forall>n. locks_of s (wc_obj w) \<noteq> Some (t, n)"
    using that by (intro ok_ret[OF I t p]) (simp_all add: phase_of_def quiet_def sp_wait_fail)
  show ?thesis
  proof (cases "GetState (marks s (wc_obj w))")
    case STATE_UNLOCKED
    then show ?thesis using fail lock_at_facts(1)[of s "wc_obj w"] by (simp add: Wait_loop_def)
  next
    case STATE_HASHED
    then show ?thesis using fail lock_at_facts(2)[of s "wc_obj w"] by (simp add: Wait_loop_def)
  next
    case STATE_LIGHT_LOCKED
    then have "step_ok b s (goto t (At_Inflate (InflateLoad (IK_Wait w))) s)" if "GetThreadId (marks s (wc_obj w)) = t"
      using that by (intro ok_goto[OF I t p]) (simp_all add: phase_of_def owns_light)
    then show ?thesis using STATE_LIGHT_LOCKED by (simp add: Wait_loop_def expected_fault_def)
  next
    case STATE_HEAVY_LOCKED
    then show ?thesis by (simp add: Wait_loop_def Let_def) (intro ok_goto[OF I t p]; simp add: phase_of_def published_def)
  next
    case STATE_GC
    then show ?thesis using mark_fact[OF I, of "wc_obj w"] by (simp add: mark_ok_def)
  qed
qed

lemma wait_enqueue_ok:
  assumes I: "sys_inv b s" and t: "valid_tid t" and p: "pc_of s t = At_Wait (WaitOwner w mid)"
  shows "outcome_ok b s (Wait_enqueue t w mid s)"
proof -
  have pub: "published (marks s) mid (wc_obj w)" using thread_fact[OF I p] by simp
  obtain m where m: "pool s mid = Some m" "mobj m = wc_obj w" "monitor_ok b (pc_of s) mid m" "published (marks s) mid (mobj m)"
    by (rule published_monitor[OF I pub])
  show ?thesis
  proof (cases "owner m = Some t")
    case ow: True
    let ?c = "recursiveCounter m" and ?p = "At_Release (RelOwner (RK_Wait w (recursiveCounter m)) mid)"
    let ?m = "m\<lparr>waiters := t # waiters m, recursiveCounter := 1, waitersCounter := waitersCounter m + 1\<rparr>"
    let ?s = "goto t ?p (on_thread t (\<lambda>th. th\<lparr>waitingMonitor := Some mid, monitorOldStatus := wc_status w\<rparr>) (put_monitor mid ?m s))"
    have new: "t \<notin> set (waiters m) \<union> set (toWakeup m)" using monitor_ok_lists(2)[OF m(3), of t] p by auto
    have "step_ok b s ?s"
    proof (rule ok_monitor_kept[OF I t p _ m(4,1), where m' = ?m and p' = ?p])
      show "moves t ?p (res_of s t) (marks s) ((pool s)(mid \<mapsto> ?m)) s ?s" by (simp add: moves_def)
      show "monitor_ok (Suc b) ((pc_of s)(t := ?p)) mid ?m"
      proof (rule monitor_ok_put[OF m(3)])
        show "unat (hashCode ?m) < 2 ^ 28" using m(3) by (simp add: monitor_ok_def)
        show "distinct (waiters ?m @ toWakeup ?m)" using monitor_ok_lists(1)[OF m(3)] new by simp
        show "wait_mon (((pc_of s)(t := ?p)) u) = Some mid" if "u \<in> set (waiters ?m) \<union> set (toWakeup ?m)" for u
          using monitor_ok_lists(2)[OF m(3), of u] that by auto
        show "unat (waitersCounter ?m) + wcount mid (pc_of s t) = unat (waitersCounter m) + wcount mid ?p"
          using wc_up[OF I m(3)] p by (simp add: wcount_def)
      qed (use owner_fact(2)[OF m(3) ow] ow in simp_all)
      show "own_change t m ?m" using ow by (simp add: own_change_def)
      have "saved_ok b ?c" using owner_fact(3,4)[OF m(3)] ow by (simp add: saved_ok_def)
      then show "thread_inv (Suc b) (marks s) ((pool s)(mid \<mapsto> ?m)) t ?p" using m ow by (simp add: on_mon_def)
      show "monitor_lock ((pc_of s)(t := ?p)) mid ?m = monitor_lock (pc_of s) mid m"
        using ow p by (simp add: monitor_lock_def count_of_def)
    qed (simp_all add: refs_only_def phase_of_def)
    then show ?thesis using ow m by (simp add: Wait_enqueue_def list_wait_def Let_def)
  next
    case False
    have "step_ok b s (ret t (R_State ILLEGAL) s)"
      using lock_not_owner[OF pub m(1) False]
      by (intro ok_ret[OF I t p]) (simp_all add: phase_of_def quiet_def sp_wait_fail)
    then show ?thesis using False m by (simp add: Wait_enqueue_def)
  qed
qed

lemma wait_sleep_ok:
  assumes I: "sys_inv b s" and t: "valid_tid t"
  shows "pc_of s t = At_Wait (WaitCheck w mid c) \<Longrightarrow> outcome_ok b s (Wait_check t w mid c s)"
    and "pc_of s t = At_Wait (WaitSafepoint w mid c) \<Longrightarrow> outcome_ok b s (Wait_safepoint t w mid c s)"
    and "pc_of s t = At_Wait (WaitSleep w mid c) \<Longrightarrow> outcome_ok b s (DoWaitInternal wakes t w mid c s)"
proof -
  have go: "step_ok b s (goto t p' s1)"
    if "pc_of s t = At_Wait q" "q \<in> {WaitCheck w mid c, WaitSafepoint w mid c, WaitSleep w mid c}"
      "p' \<in> {At_Wait (WaitSafepoint w mid c), At_Wait (WaitSleep w mid c), At_Acquire (AcqOwner (AK_Wait w c OK) mid),
        At_Acquire (AcqOwner (AK_Wait w c INTERRUPTED) mid)}" "silent s s1" for p' q s1
    using thread_fact[OF I that(1)] that(2,3) by (intro ok_goto[OF I t that(1,4)]) (auto simp: phase_of_def)
  show "pc_of s t = At_Wait (WaitCheck w mid c) \<Longrightarrow> outcome_ok b s (Wait_check t w mid c s)"
    by (simp add: Wait_check_def go)
  show "pc_of s t = At_Wait (WaitSafepoint w mid c) \<Longrightarrow> outcome_ok b s (Wait_safepoint t w mid c s)"
    by (simp add: Wait_safepoint_def go)
  show "pc_of s t = At_Wait (WaitSleep w mid c) \<Longrightarrow> outcome_ok b s (DoWaitInternal wakes t w mid c s)"
    by (simp add: DoWaitInternal_def go)
qed

lemma wait_restore_ok:
  assumes I: "sys_inv b s" and t: "valid_tid t" and p: "pc_of s t = At_Wait (WaitRestore w mid c st)"
  shows "outcome_ok b s (Wait_restore t w mid c st s)"
proof -
  have f: "saved_ok b c" "st \<noteq> ILLEGAL" and o: "on_mon (marks s) (pool s) mid (wc_obj w) (\<lambda>m. owner m = Some t \<and> recursiveCounter m = 1)"
    using thread_fact[OF I p] by simp_all
  obtain m where m: "pool s mid = Some m" "mobj m = wc_obj w" "owner m = Some t \<and> recursiveCounter m = 1" "monitor_ok b (pc_of s) mid m"
    "published (marks s) mid (mobj m)" by (rule on_mon_fact[OF I o])
  let ?ls = "list_leave t (waiters m, toWakeup m)" and ?r = "if isInterrupted (thr s t) then INTERRUPTED else st"
  let ?m = "m\<lparr>waitersCounter := waitersCounter m - 1, recursiveCounter := c, waiters := fst ?ls, toWakeup := snd ?ls\<rparr>"
  let ?s = "ret t (R_State ?r) (on_thread t (\<lambda>th. th\<lparr>waitingMonitor := None, monitorOldStatus := FINISHED\<rparr>) (put_monitor mid ?m s))"
  note sets = list_queues.leave_law[of "(waiters m, toWakeup m)" t, simplified fst_conv snd_conv, OF monitor_ok_lists(1)[OF m(4)]]
  have "step_ok b s ?s"
  proof (rule ok_monitor_kept[OF I t p _ m(5,1), where m' = ?m and p' = Idle])
    show "moves t Idle (R_State ?r) (marks s) ((pool s)(mid \<mapsto> ?m)) s ?s" by (simp add: moves_def)
    show "monitor_ok (Suc b) ((pc_of s)(t := Idle)) mid ?m"
    proof (rule monitor_ok_put[OF m(4)])
      show "unat (hashCode ?m) < 2 ^ 28" using m(4) by (simp add: monitor_ok_def)
      show "distinct (waiters ?m @ toWakeup ?m)" using sets(2) by simp
      show "wait_mon (((pc_of s)(t := Idle)) u) = Some mid" if "u \<in> set (waiters ?m) \<union> set (toWakeup ?m)" for u
        using monitor_ok_lists(2)[OF m(4), of u] that sets(1) by auto
      show "unat (waitersCounter ?m) + wcount mid (pc_of s t) = unat (waitersCounter m) + wcount mid Idle"
        using wc_down[OF m(4), of t] p by (simp add: wcount_def)
    qed (use owner_fact(2)[OF m(4)] m(3) f in \<open>simp_all add: saved_ok_def\<close>)
    show "own_change t m ?m" using m(3) by (simp add: own_change_def)
    show "monitor_lock ((pc_of s)(t := Idle)) mid ?m = monitor_lock (pc_of s) mid m"
      using m(3) p by (simp add: monitor_lock_def count_of_def)
    have "?r \<noteq> ILLEGAL" using f by simp
    then show "phase_of Idle (R_State ?r) = phase_of (At_Wait (WaitRestore w mid c st)) (res_of s t) \<or>
        thread_spec t (locks_of s) (phase_of (At_Wait (WaitRestore w mid c st)) (res_of s t)) (locks_of s) (phase_of Idle (R_State ?r))"
      by (simp only: phase_of_def pc.case wait_pc.case sp_woken simp_thms)
  qed (simp_all add: refs_only_def phase_of_def)
  then show ?thesis using m by (simp add: Wait_restore_def Let_def)
qed

lemma notify_load_ok:
  assumes I: "sys_inv b s" and t: "valid_tid t" and p: "pc_of s t = At_Notify (NotifyLoad obj every)"
  shows "outcome_ok b s (Notify_load t obj every s)"
proof -
  have fail: "step_ok b s (ret t (R_State ILLEGAL) s)" if "\<forall>n. locks_of s obj \<noteq> Some (t, n)"
    using that by (intro ok_ret[OF I t p]) (simp_all add: phase_of_def quiet_def sp_notify_fail)
  have okay: "step_ok b s (ret t (R_State OK) s)" if "locks_of s obj = Some (t, n)" for n
    using that sp_notify by (intro ok_ret[OF I t p]) (simp_all add: phase_of_def quiet_def)
  show ?thesis
  proof (cases "GetState (marks s obj)")
    case STATE_UNLOCKED
    then show ?thesis using fail lock_at_facts(1)[of s obj] by (simp add: Notify_load_def)
  next
    case STATE_HASHED
    then show ?thesis using fail lock_at_facts(2)[of s obj] by (simp add: Notify_load_def)
  next
    case STATE_LIGHT_LOCKED
    then show ?thesis using fail okay lock_at_facts(3)[of s obj] by (simp add: Notify_load_def)
  next
    case STATE_HEAVY_LOCKED
    then show ?thesis by (simp add: Notify_load_def Let_def) (intro ok_goto[OF I t p]; simp add: phase_of_def published_def)
  next
    case STATE_GC
    then show ?thesis using mark_fact[OF I, of obj] by (simp add: mark_ok_def)
  qed
qed

lemma notify_owner_ok:
  assumes I: "sys_inv b s" and t: "valid_tid t" and p: "pc_of s t = At_Notify (NotifyOwner obj every mid)"
  shows "outcome_ok b s (Notify_owner t every mid s)"
proof -
  have pub: "published (marks s) mid obj" using thread_fact[OF I p] by simp
  obtain m where m: "pool s mid = Some m" "mobj m = obj" "monitor_ok b (pc_of s) mid m" "published (marks s) mid (mobj m)"
    by (rule published_monitor[OF I pub])
  show ?thesis
  proof (cases "owner m = Some t")
    case ow: True
    let ?ls = "Notify_queues every (waiters m, toWakeup m)"
    let ?m = "m\<lparr>waiters := fst ?ls, toWakeup := snd ?ls\<rparr>"
    note sets = list_queues.announce_threads[OF _ Notify_queues_def, of "(waiters m, toWakeup m)" every, simplified fst_conv snd_conv,
      OF monitor_ok_lists(1)[OF m(3)]]
    have "step_ok b s (ret t (R_State OK) (put_monitor mid ?m s))"
    proof (rule ok_monitor_kept[OF I t p _ m(4,1), where m' = ?m and p' = Idle])
      show "moves t Idle (R_State OK) (marks s) ((pool s)(mid \<mapsto> ?m)) s (ret t (R_State OK) (put_monitor mid ?m s))"
        using p by (intro moves_same[OF I]) simp_all
      show "monitor_ok (Suc b) ((pc_of s)(t := Idle)) mid ?m"
      proof (rule monitor_ok_put[OF m(3)])
        show "unat (hashCode ?m) < 2 ^ 28" using m(3) by (simp add: monitor_ok_def)
        show "distinct (waiters ?m @ toWakeup ?m)" using sets(2) by simp
        show "wait_mon (((pc_of s)(t := Idle)) u) = Some mid" if "u \<in> set (waiters ?m) \<union> set (toWakeup ?m)" for u
          using monitor_ok_lists(2)[OF m(3), of u] that sets(1) p by auto
      qed (use owner_fact[OF m(3)] ow p in \<open>auto simp: wcount_def\<close>)
      show "monitor_lock ((pc_of s)(t := Idle)) mid ?m = monitor_lock (pc_of s) mid m"
        using p ow by (simp add: monitor_lock_def count_of_def)
      have "locks_of s obj = Some (t, unat (recursiveCounter m))"
        using lock_published[OF m(4,1)] m(2) monitor_lock_owner(1)[OF ow, of "pc_of s" mid] p by simp
      then have "thread_spec t (locks_of s) (Called (C_Notify obj every)) (locks_of s) (Free (R_State OK))" by (rule sp_notify)
      then show "phase_of Idle (R_State OK) = phase_of (At_Notify (NotifyOwner obj every mid)) (res_of s t) \<or>
          thread_spec t (locks_of s) (phase_of (At_Notify (NotifyOwner obj every mid)) (res_of s t)) (locks_of s) (phase_of Idle (R_State OK))"
        by (simp add: phase_of_def)
    qed (simp_all add: refs_only_def phase_of_def own_change_def)
    then show ?thesis using ow m by (simp add: Notify_owner_def Let_def)
  next
    case False
    have "step_ok b s (ret t (R_State ILLEGAL) s)"
      using lock_not_owner[OF pub m(1) False]
      by (intro ok_ret[OF I t p]) (simp_all add: phase_of_def quiet_def sp_notify_fail)
    then show ?thesis using False m by (simp add: Notify_owner_def)
  qed
qed

section \<open>Hash codes\<close>

lemma ok_goto_hash:
  assumes I: "sys_inv b s" and t: "valid_tid t" and p: "pc_of s t = At_Hash q" and s1: "silent s s1"
    and self: "thread_inv (Suc b) (marks s) (pool s) t p'" and q: "quiet p'" "fresh_mon p' = None" "\<And>mid. saved_count p' mid = None" "p' \<noteq> Idle"
    and ph: "phase_of p' R_None = phase_of (At_Hash q) (res_of s t)"
  shows "step_ok b s (goto t p' s1)"
  using q ph by (intro ok_goto[OF I t p s1 self]) (simp_all add: quiet_def)

lemma hash_loop_ok:
  assumes I: "sys_inv b s" and t: "valid_tid t" and p: "pc_of s t = At_Hash (HashLoop obj)"
  shows "outcome_ok b s (GetHashCode_loop t obj s)"
proof (cases "GetState (marks s obj)")
  case STATE_UNLOCKED
  obtain h v where g: "GenerateHashCode (hashSeed s) = (h, v)" by (metis surj_pair)
  have "step_ok b s (goto t (At_Hash (HashCas obj (marks s obj) (DecodeFromHash h (marks s obj)))) (s\<lparr>hashSeed := v\<rparr>))"
    using STATE_UNLOCKED GenerateHashCode_range[OF g] by (intro ok_goto_hash[OF I t p]) (auto simp: phase_of_def quiet_def hash_ok_def)
  then show ?thesis using STATE_UNLOCKED g by (simp add: GetHashCode_loop_def Let_def)
next
  case STATE_LIGHT_LOCKED
  have "step_ok b s (goto t (At_Inflate (InflateLoad (IK_Hash obj))) s)" if "GetThreadId (marks s obj) = t"
    using that STATE_LIGHT_LOCKED by (intro ok_goto_hash[OF I t p]) (simp_all add: phase_of_def quiet_def owns_light)
  moreover have "step_ok b s (goto t (At_Thin (ThinLoad (TK_Hash obj))) s)"
    by (intro ok_goto_hash[OF I t p]) (simp_all add: phase_of_def quiet_def)
  ultimately show ?thesis using STATE_LIGHT_LOCKED by (simp add: GetHashCode_loop_def)
next
  case STATE_HEAVY_LOCKED
  then show ?thesis by (simp add: GetHashCode_loop_def Let_def) (intro ok_goto_hash[OF I t p]; simp add: phase_of_def quiet_def published_def)
next
  case STATE_HASHED
  have "step_ok b s (ret t (R_Hash (GetHash (marks s obj))) s)"
    using STATE_HASHED by (intro ok_ret[OF I t p]) (simp_all add: phase_of_def quiet_def sp_hash hash_of_def hash_at_def)
  then show ?thesis using STATE_HASHED by (simp add: GetHashCode_loop_def)
next
  case STATE_GC
  then show ?thesis using mark_fact[OF I, of obj] by (simp add: mark_ok_def)
qed

lemma hash_cas_ok:
  assumes I: "sys_inv b s" and t: "valid_tid t" and p: "pc_of s t = At_Hash (HashCas obj old new)"
  shows "outcome_ok b s (GetHashCode_cas t obj old new s)"
proof -
  obtain h where k: "GetState old = STATE_UNLOCKED" "hash_ok h" "new = DecodeFromHash h old"
    using thread_fact[OF I p] by auto
  let ?p = "At_Hash (HashLoop obj)"
  have "step_ok b s (goto t ?p (s\<lparr>marks := (marks s)(obj := new)\<rparr>))" if "marks s obj = old"
  proof (rule ok_mark[OF I t, where p' = ?p and r = "res_of s t", OF _ that])
    show "moves t ?p (res_of s t) ((marks s)(obj := new)) (pool s) s (goto t ?p (s\<lparr>marks := (marks s)(obj := new)\<rparr>))"
      using p by (intro moves_same[OF I]) simp_all
    show "mark_ok new" using k decode_fields(2)[of h old] by (auto simp: mark_ok_def hash_ok_def)
  qed (use k p in \<open>simp_all add: quiet_def phase_of_def phases_of_def mark_lock_def\<close>)
  moreover have "step_ok b s (goto t ?p s)" by (intro ok_goto_hash[OF I t p]) (simp_all add: phase_of_def quiet_def)
  ultimately show ?thesis by (simp add: GetHashCode_cas_def AtomicSetMark_def)
qed

lemma hash_read_ok:
  assumes I: "sys_inv b s" and t: "valid_tid t" and p: "pc_of s t = At_Hash (HashRead obj mid)"
  shows "outcome_ok b s (Monitor_GetHashCode_read t obj mid s)"
proof -
  have pub: "published (marks s) mid obj" using thread_fact[OF I p] by simp
  obtain m where m: "pool s mid = Some m" using published_fact[OF I pub] by blast
  obtain h v where g: "GenerateHashCode (hashSeed s) = (h, v)" by (metis surj_pair)
  have "step_ok b s (goto t (At_Hash (HashStore obj mid h)) (s\<lparr>hashSeed := v\<rparr>))"
    using pub GenerateHashCode_range[OF g] by (intro ok_goto_hash[OF I t p]) (auto simp: phase_of_def quiet_def hash_ok_def)
  moreover have "step_ok b s (ret t (R_Hash (hashCode m)) s)" if "hashCode m \<noteq> 0"
    using that hash_of_published[OF pub, of "pool s", OF m]
    by (intro ok_ret[OF I t p]) (simp_all add: phase_of_def quiet_def sp_hash)
  ultimately show ?thesis using m g by (simp add: Monitor_GetHashCode_read_def)
qed

lemma hash_store_ok:
  assumes I: "sys_inv b s" and t: "valid_tid t" and p: "pc_of s t = At_Hash (HashStore obj mid h)"
  shows "outcome_ok b s (Monitor_GetHashCode_cas weak t obj mid h s)"
proof -
  have pub: "published (marks s) mid obj" and h: "hash_ok h" using thread_fact[OF I p] by simp_all
  obtain m where m: "pool s mid = Some m" "mobj m = obj" "monitor_ok b (pc_of s) mid m" "published (marks s) mid (mobj m)"
    by (rule published_monitor[OF I pub])
  let ?m = "m\<lparr>hashCode := h\<rparr>" and ?s = "ret t (R_Hash h) (put_monitor mid (m\<lparr>hashCode := h\<rparr>) s)"
  have "step_ok b s ?s" if zero: "hashCode m = 0"
  proof (rule ok_monitor[OF I t _ m(4,1), where p' = Idle and m' = ?m and r = "R_Hash h"])
    show "moves t Idle (R_Hash h) (marks s) ((pool s)(mid \<mapsto> ?m)) s ?s" using p by (intro moves_same[OF I]) simp_all
    show "monitor_ok (Suc b) ((pc_of s)(t := Idle)) mid ?m"
    proof (rule monitor_ok_put[OF m(3)])
      show "wait_mon (((pc_of s)(t := Idle)) u) = Some mid" if "u \<in> set (waiters ?m) \<union> set (toWakeup ?m)" for u
        using wait_mon_lists[OF m(3) that, of Idle t] p by simp
      show "lock_mon (((pc_of s)(t := Idle)) u) = Some mid" if "mlock ?m = Some u" "owner ?m = None" for u
        using lock_kept[OF m(3), of t Idle u] that p by simp
    qed (use owner_fact[OF m(3)] monitor_ok_lists(1)[OF m(3)] h p in \<open>auto simp: wcount_def hash_ok_def\<close>)
    have "monitor_lock ((pc_of s)(t := Idle)) mid ?m = monitor_lock (pc_of s) mid m"
      using p by (auto simp: monitor_lock_def count_of_def split: option.splits)
    then show "monitor_lock ((pc_of s)(t := Idle)) mid ?m = monitor_lock (pc_of s) mid m \<and>
        (phase_of Idle (R_Hash h) = phases_of s t \<or> thread_spec t (locks_of s) (phases_of s t) (locks_of s) (phase_of Idle (R_Hash h))) \<or>
      thread_spec t (locks_of s) (phases_of s t)
        ((locks_of s)(mobj m := monitor_lock ((pc_of s)(t := Idle)) mid ?m)) (phase_of Idle (R_Hash h))"
      using p by (simp add: phases_of_def phase_of_def sp_hash)
  qed (use p zero h m in \<open>auto simp: refs_only_def phases_of_def phase_of_def own_change_def hash_ok_def\<close>)
  moreover have "step_ok b s (goto t (At_Hash (HashRead obj mid)) s)"
    using pub by (intro ok_goto_hash[OF I t p]) (simp_all add: phase_of_def quiet_def)
  ultimately show ?thesis using m by (simp add: Monitor_GetHashCode_cas_def)
qed

section \<open>Every step of a thread\<close>

lemma act_ok:
  assumes I: "sys_inv b s" and t: "valid_tid t" and b: "b < 2 ^ 63"
  shows "outcome_ok b s (act futex ch t s)"
proof (cases "pc_of s t")
  case (At_Enter q)
  then show ?thesis using enter_loop_ok[OF I t] enter_cas_ok[OF I t] enter_lookup_ok[OF I t]
    by (cases q) (simp_all add: act_def pc_of_def)
next
  case (At_Inflate q)
  then show ?thesis using inflate_load_ok[OF I t] inflate_create_ok[OF I t] inflate_cas_ok[OF I t]
    by (cases q) (simp_all add: act_def pc_of_def)
next
  case (At_Thin q)
  then show ?thesis using thin_ok[OF I t] by (cases q) (simp_all add: act_def pc_of_def)
next
  case (At_Acquire q)
  then show ?thesis using acquire_owner_ok[OF I t _ b] acquire_trylock_ok[OF I t] acquire_count_ok[OF I t] acquire_lock_ok[OF I t]
      acquire_set_ok[OF I t] acquire_uncount_ok[OF I t]
    by (cases q) (simp_all add: act_def pc_of_def)
next
  case (At_Exit q)
  then show ?thesis using exit_loop_ok[OF I t] exit_cas_ok[OF I t] lookup_ok[OF I t] by (cases q) (simp_all add: act_def pc_of_def)
next
  case (At_Release q)
  then show ?thesis using release_owner_ok[OF I t] release_signal_ok[OF I t] release_unlock_ok[OF I t]
    by (cases q) (simp_all add: act_def pc_of_def)
next
  case (At_Wait q)
  then show ?thesis using wait_loop_ok[OF I t] lookup_ok[OF I t] wait_enqueue_ok[OF I t] wait_sleep_ok[OF I t] wait_restore_ok[OF I t]
    by (cases q) (simp_all add: act_def pc_of_def)
next
  case (At_Notify q)
  then show ?thesis using notify_load_ok[OF I t] lookup_ok[OF I t] notify_owner_ok[OF I t] by (cases q) (simp_all add: act_def pc_of_def)
next
  case (At_Hash q)
  then show ?thesis using hash_loop_ok[OF I t] hash_cas_ok[OF I t] lookup_ok[OF I t] hash_read_ok[OF I t] hash_store_ok[OF I t]
    by (cases q) (simp_all add: act_def pc_of_def)
qed (simp add: act_def pc_of_def)

end
