(* ===== verification/Monitors_Correct.thy ===== *)
theory Monitors_Correct
  imports Monitors_Locks
begin

text \<open>
  The steps of the environment (a call, a step of the collector on a mark word, an interruption, a deflation),
  the reachable states, and the properties of the monitors.
\<close>

section \<open>The environment\<close>

lemma start_call: "start c \<noteq> Idle" "phase_of (start c) r = Called c" "quiet (start c)" "fresh_mon (start c) = None"
  "saved_count (start c) mid = None" "thread_inv b mk pl t (start c)"
  by (cases c; simp add: phase_of_def quiet_def)+

lemma call_ok:
  assumes I: "sys_inv b s" and t: "valid_tid t" and p: "pc_of s t = Idle"
  shows "step_ok b s (goto t (start c) s)"
  using start_call by (intro ok_goto[OF I t p]) (simp_all add: quiet_def, simp add: phase_of_def sp_call)

text \<open>A step that keeps the threads where they are and the lock and the hash code of every object.\<close>

lemma env_ok:
  assumes "sys_inv (Suc b) s'" and pcs: "pc_of s' = pc_of s" and res: "res_of s' = res_of s"
    and lk: "locks_of s' = locks_of s" and h: "hash_of (marks s') (pool s') = hash_of (marks s) (pool s)"
  shows "step_ok b s s'"
  using assms by (auto simp: step_ok_def phases_of_def)

lemma inv_Suc: "inv b mk pl pcs wm \<Longrightarrow> inv (Suc b) mk pl pcs wm"
  using invD(3-5)[of b mk pl pcs wm] monitor_ok_mono[OF invD(2)[of b mk pl pcs wm], of _ _ "Suc b"]
  by (intro inv_env[OF _ rely_refl]) auto

lemma silent_ok:
  assumes I: "sys_inv b s" and s: "silent s s'"
  shows "step_ok b s s'"
  using inv_Suc[of b "marks s" "pool s" "pc_of s" "wm_of s"] assms
  by (intro env_ok) (simp_all add: silent_def sys_inv_def locks_of_def)

lemma collector_ok:
  assumes I: "sys_inv b s" and g: "g \<in> set gc_ops"
  shows "step_ok b s (s\<lparr>marks := (marks s)(obj := g (marks s obj))\<rparr>)"
proof (rule env_ok)
  let ?mk = "(marks s)(obj := g (marks s obj))"
  have I': "inv b (marks s) (pool s) (pc_of s) (wm_of s)" using I by (simp add: sys_inv_def)
  show "sys_inv (Suc b) (s\<lparr>marks := ?mk\<rparr>)" using inv_collector[OF I' g] by (simp add: sys_inv_def)
  have sel: "marks (s\<lparr>marks := ?mk\<rparr>) = ?mk" "pool (s\<lparr>marks := ?mk\<rparr>) = pool s" by simp_all
  have same: "GetState (?mk x) = GetState (marks s x)" "GetThreadId (?mk x) = GetThreadId (marks s x)" "GetLockCount (?mk x) = GetLockCount (marks s x)"
    "GetHash (?mk x) = GetHash (marks s x)" "GetMonitorId (?mk x) = GetMonitorId (marks s x)" for x using gc_ops_keep[OF g] by simp_all
  show "locks_of (s\<lparr>marks := ?mk\<rparr>) = locks_of s"
  proof
    fix x show "locks_of (s\<lparr>marks := ?mk\<rparr>) x = locks_of s x"
      by (simp only: locks_of_def lock_of_def lock_at_def sel same view_other)
  qed
  show "hash_of (marks (s\<lparr>marks := ?mk\<rparr>)) (pool (s\<lparr>marks := ?mk\<rparr>)) = hash_of (marks s) (pool s)"
  proof
    fix x show "hash_of (marks (s\<lparr>marks := ?mk\<rparr>)) (pool (s\<lparr>marks := ?mk\<rparr>)) x = hash_of (marks s) (pool s) x"
      by (simp only: hash_of_def hash_at_def sel same)
  qed
qed simp_all

lemma deflate_ok:
  assumes I: "sys_inv b s" and stop: "\<forall>t. stopped (pc (thr s t))" and m: "pool s mid = Some m" and d: "DeflateInternal m s = Some s'"
  shows "step_ok b s (FreeMonitor mid s')"
proof -
  let ?mk = "(marks s)(mobj m := deflated_mark m (marks s (mobj m)))"
  have I': "inv b (marks s) (pool s) (pc_of s) (wm_of s)" using I by (simp add: sys_inv_def)
  have ow: "owner m = None" and wc: "waitersCounter m = 0" and s': "s' = s\<lparr>marks := ?mk\<rparr>"
    using d by (auto simp: DeflateInternal_def deflated_mark_def Let_def word_gt_0 split: if_splits)
  have st: "stopped (pc_of s t)" for t using stop by (simp add: pc_of_def)
  note D = inv_deflate[OF I' st m wc]
  have small: "unat (hashCode m) < 2 ^ 28" using monitor_fact[OF I m] by (simp add: monitor_ok_def)
  show ?thesis
  proof (rule env_ok)
    show "sys_inv (Suc b) (FreeMonitor mid s')" using D(2) by (simp add: sys_inv_def s')
    show "locks_of (FreeMonitor mid s') = locks_of s"
    proof
      fix x
      show "locks_of (FreeMonitor mid s') x = locks_of s x"
      proof (cases "x = mobj m")
        case True
        have "locks_of s x = None" using True lock_published[OF D(1) m] ow by (simp add: monitor_lock_owner(3))
        moreover have "GetState (deflated_mark m v) \<noteq> STATE_HEAVY_LOCKED" "mark_lock (deflated_mark m v) = None" for v
          by (simp_all add: deflated_mark_def mark_lock_def)
        ultimately show ?thesis using True by (simp add: locks_of_def s' lock_of_mark)
      next
        case False
        have "GetState (marks s x) = STATE_HEAVY_LOCKED \<Longrightarrow> GetMonitorId (marks s x) \<noteq> mid"
          using invD(3)[OF I', of x] m False by auto
        then show ?thesis using False by (simp add: locks_of_def s' lock_of_def lock_at_def split: ObjectState.splits)
      qed
    qed
    show "hash_of (marks (FreeMonitor mid s')) (pool (FreeMonitor mid s')) = hash_of (marks s) (pool s)"
    proof
      fix x
      show "hash_of (marks (FreeMonitor mid s')) (pool (FreeMonitor mid s')) x = hash_of (marks s) (pool s) x"
      proof (cases "x = mobj m")
        case True
        then show ?thesis using hash_of_published[OF D(1), of "pool s", OF m] decode_fields(2)[OF small]
          by (simp add: s' hash_of_def hash_at_def deflated_mark_def)
      next
        case False
        have "GetState (marks s x) = STATE_HEAVY_LOCKED \<Longrightarrow> GetMonitorId (marks s x) \<noteq> mid"
          using invD(3)[OF I', of x] m False by auto
        then show ?thesis using False by (simp add: s' hash_of_def hash_at_def split: ObjectState.splits)
      qed
    qed
  qed (simp_all add: s')
qed

lemma sys_step_ok:
  assumes I: "sys_inv b s" and b: "b < 2 ^ 63" and step: "sys_step futex s s'"
  shows "step_ok b s s'"
  using step
proof cases
  case (run t ch)
  then show ?thesis using act_ok[OF I run(1) b, of futex ch] by simp
next
  case (call t c)
  then show ?thesis using call_ok[OF I, of t c] by (simp add: pc_of_def)
next
  case (collector g obj)
  then show ?thesis using collector_ok[OF I] by simp
next
  case (interrupt t)
  have "silent s (on_thread t (\<lambda>th. th\<lparr>isInterrupted := True\<rparr>) s)" by simp
  moreover have "silent (on_thread t (\<lambda>th. th\<lparr>isInterrupted := True\<rparr>) s) (Interrupt t s)" unfolding Interrupt_def by (rule silent_helpers)
  ultimately show ?thesis using interrupt silent_ok[OF I, of s'] by (simp add: silent_def)
next
  case (clear t)
  then show ?thesis using silent_ok[OF I] silent_helpers(12) by (simp add: ClearInterrupted_def)
next
  case (deflate mid m s'')
  then show ?thesis using deflate_ok[OF I] by blast
qed

section \<open>Reachable states\<close>

lemma init_inv:
  assumes "\<forall>obj. GetState (mk obj) = STATE_UNLOCKED"
  shows "sys_inv (2 ^ 15) (init_sys mk seed)"
  using assms by (simp add: sys_inv_def inv_def init_sys_def pc_of_def wm_of_def init_thread_def mark_ok_def)

lemma reachable_inv:
  assumes "reachable futex n s" "n < 2 ^ 62"
  shows "sys_inv (n + 2 ^ 15) s"
  using assms
proof (induction rule: reachable.induct)
  case (init mk seed)
  then show ?case using init_inv by simp
next
  case (step n s s')
  then have "sys_inv (n + 2 ^ 15) s" by simp
  moreover have "n + 2 ^ 15 < 2 ^ 63" using step.prems by simp
  ultimately have "step_ok (n + 2 ^ 15) s s'" using step.hyps(2) by (rule sys_step_ok)
  then show ?case by (simp add: step_ok_def)
qed

lemma reachable_step_ok:
  assumes "reachable futex n s" "n < 2 ^ 62" "sys_step futex s s'"
  shows "step_ok (n + 2 ^ 15) s s'"
  using sys_step_ok[OF reachable_inv[OF assms(1,2)] _ assms(3)] assms(2) by simp

section \<open>Runs\<close>

text \<open>The contract between a system and its specification: an invariant that a step keeps, with a bound on the
  number of steps, and a step of the specification, or none, for each step. What follows for runs is proved
  once; the monitors are an instance below.\<close>

locale simulation =
  fixes step :: "'s \<Rightarrow> 's \<Rightarrow> bool" and ok :: "nat \<Rightarrow> 's \<Rightarrow> bool" and limit :: nat
    and abstraction :: "'s \<Rightarrow> 'a" and spec :: "'a \<Rightarrow> 'a \<Rightarrow> bool"
  assumes simulates: "ok b s \<Longrightarrow> b < limit \<Longrightarrow> step s s' \<Longrightarrow>
    ok (Suc b) s' \<and> (abstraction s' = abstraction s \<or> spec (abstraction s) (abstraction s'))"
begin

lemma run:
  assumes "(step ^^ k) s s'" "ok b s" "b + k \<le> limit"
  shows "ok (b + k) s' \<and> spec\<^sup>*\<^sup>* (abstraction s) (abstraction s')"
  using assms
proof (induction k arbitrary: s')
  case (Suc k)
  then obtain s1 where 1: "(step ^^ k) s s1" "step s1 s'" by auto
  then have "ok (b + k) s1 \<and> spec\<^sup>*\<^sup>* (abstraction s) (abstraction s1)" using Suc by simp
  moreover have "b + k < limit" using Suc.prems by simp
  ultimately show ?case using simulates[of "b + k" s1 s'] 1(2) by (auto intro: rtranclp.rtrancl_into_rtrancl)
qed simp

text \<open>A property of the specification that its guarded steps keep holds along a guarded run of the system.\<close>

lemma guarded_run:
  assumes "((\<lambda>s s'. step s s' \<and> guard (abstraction s) (abstraction s')) ^^ k) s s'" "ok b s" "b + k \<le> limit"
    and "prop (abstraction s)" "\<And>a a'. prop a \<Longrightarrow> spec a a' \<Longrightarrow> guard a a' \<Longrightarrow> prop a'"
  shows "prop (abstraction s') \<and> ok (b + k) s'"
  using assms(1-4)
proof (induction k arbitrary: s')
  case (Suc k)
  then obtain s1 where 1: "((\<lambda>s s'. step s s' \<and> guard (abstraction s) (abstraction s')) ^^ k) s s1"
    "step s1 s'" "guard (abstraction s1) (abstraction s')" by auto
  then have "prop (abstraction s1) \<and> ok (b + k) s1" using Suc by simp
  moreover have "b + k < limit" using Suc.prems by simp
  ultimately show ?case using simulates[of "b + k" s1 s'] 1(2,3) assms(5) by auto
qed simp

end

definition lock_view :: "sys \<Rightarrow> locks \<times> (tid \<Rightarrow> phase)" where "lock_view s = (locks_of s, phases_of s)"

interpretation monitors: simulation "sys_step futex" sys_inv "2 ^ 63" lock_view spec_step for futex
proof
  show "sys_inv (Suc b) s' \<and> (lock_view s' = lock_view s \<or> spec_step (lock_view s) (lock_view s'))"
    if "sys_inv b s" "b < 2 ^ 63" "sys_step futex s s'" for b s s'
    using sys_step_ok[OF that] by (simp add: step_ok_def lock_view_def)
qed

lemma reachable_run: "reachable futex n s \<Longrightarrow> (sys_step futex ^^ k) s s' \<Longrightarrow> reachable futex (n + k) s'"
proof (induction k arbitrary: s')
  case (Suc k)
  then obtain s1 where "(sys_step futex ^^ k) s s1" "sys_step futex s1 s'" by auto
  then show ?case using Suc reachable.step[of futex "n + k" s1 s'] by simp
qed simp

lemma reachable_from_init:
  "reachable futex n s \<Longrightarrow> \<exists>mk seed. (\<forall>obj. GetState (mk obj) = STATE_UNLOCKED) \<and> (sys_step futex ^^ n) (init_sys mk seed) s"
  by (induction rule: reachable.induct) (auto intro: relpowp_Suc_I)

lemma init_view: "\<forall>obj. GetState (mk obj) = STATE_UNLOCKED \<Longrightarrow> lock_view (init_sys mk seed) = ((\<lambda>_. None), (\<lambda>_. Free R_None))"
  by (auto simp: lock_view_def locks_of_def lock_of_def lock_at_def phases_of_def init_sys_def init_thread_def pc_of_def res_of_def phase_of_def)

text \<open>\<open>HoldsLock\<close> reads the abstract lock.\<close>

lemma HoldsLock_lock:
  assumes "sys_inv b s"
  shows "HoldsLock t obj s \<longleftrightarrow> (\<exists>n. locks_of s obj = Some (t, n))"
proof (cases "GetState (marks s obj)")
  case STATE_HEAVY_LOCKED
  then obtain m where "pool s (GetMonitorId (marks s obj)) = Some m" using invD(3) assms unfolding sys_inv_def by blast
  then show ?thesis using STATE_HEAVY_LOCKED
    by (auto simp: HoldsLock_def LookupMonitor_def locks_of_def lock_of_def lock_at_def monitor_lock_def split: option.splits)
qed (simp_all add: HoldsLock_def locks_of_def lock_of_def lock_at_def)

lemma spec_step_other:
  assumes "spec_step (lk, ph) (lk', ph')" "lk obj = Some (t, n)" "ph' t = ph t"
  shows "lk' obj = Some (t, n)"
  using assms(1)
proof cases
  case (1 u q)
  show ?thesis
  proof (cases "u = t")
    case True
    then have "thread_spec t lk (ph t) lk' (ph t)" using 1 assms(3) by simp
    then show ?thesis by (cases rule: thread_spec.cases) (use assms(2) in auto)
  next
    case False
    show ?thesis using 1(2) by (cases rule: thread_spec.cases) (use False assms(2) in auto)
  qed
qed

text \<open>The definitions of the steps, and the case distinctions over the places.\<close>

lemmas step_defs = MonitorEnter_loop_def MonitorEnter_cas_def HandleHeavyLockedState_def Inflate_load_def Inflate_create_def TryAddMonitor_def
  InflateThinLock_load_def SuspendAndWaitThreadByInternalThreadId_def SuspendAndWait_await_def InflateThinLock_run_def InflateThinLock_sleep_def
  InflateThinLock_resume_def Acquire_owner_def Acquire_trylock_def Acquire_count_def Acquire_lock_def Acquire_set_def Acquire_uncount_def
  MonitorExit_loop_def MonitorExit_cas_def MonitorExit_heavy_def Release_owner_def Release_signal_def Release_unlock_def Wait_loop_def
  Wait_lookup_def Wait_enqueue_def Wait_check_def Wait_safepoint_def DoWaitInternal_def Wait_restore_def Notify_load_def Notify_lookup_def
  Notify_owner_def GetHashCode_loop_def GetHashCode_cas_def GetHashCode_lookup_def Monitor_GetHashCode_read_def Monitor_GetHashCode_cas_def

lemmas place_splits = pc.splits enter_pc.splits inflate_pc.splits thin_pc.splits acquire_pc.splits exit_pc.splits release_pc.splits
  wait_pc.splits notify_pc.splits hash_pc.splits

section \<open>Executable schedules\<close>

text \<open>A run from a list of events, for the concrete runs below.\<close>

datatype event = Ev_Call tid call | Ev_Run tid bool

fun play :: "bool \<Rightarrow> event list \<Rightarrow> sys \<Rightarrow> sys option" where
  "play futex [] s = Some s"
| "play futex (Ev_Call t c # evs) s =
     (if valid_tid t \<and> pc (thr s t) = Idle \<and> suspendCount (thr s t) = 0 then play futex evs (goto t (start c) s) else None)"
| "play futex (Ev_Run t ch # evs) s =
     (if valid_tid t then (case act futex ch t s of Go s' \<Rightarrow> play futex evs s' | _ \<Rightarrow> None) else None)"

lemma play_run: "play futex evs s = Some s' \<Longrightarrow> (sys_step futex ^^ length evs) s s'"
proof (induction futex evs s rule: play.induct)
  case (2 futex t c evs s)
  then show ?case using sys_step.call by (auto simp del: relpowp.simps(2) intro!: relpowp_Suc_I2 split: if_splits)
next
  case (3 futex t ch evs s)
  then show ?case using sys_step.run by (auto simp del: relpowp.simps(2) intro!: relpowp_Suc_I2 split: if_splits outcome.splits)
qed simp

lemma play_append: "play futex (evs @ evs') s = (case play futex evs s of None \<Rightarrow> None | Some s' \<Rightarrow> play futex evs' s')"
  by (induction futex evs s rule: play.induct) (auto split: outcome.splits)

definition demo :: "event list \<Rightarrow> sys option" where "demo evs = play True evs (init_sys (\<lambda>_. 0) 7)"

lemma demo_reachable: "demo evs = Some s \<Longrightarrow> reachable True (length evs) s"
proof -
  have "GetState 0 = STATE_UNLOCKED" by code_simp
  then have "reachable True 0 (init_sys (\<lambda>_. 0) 7)" by (intro reachable.init) simp
  then show "demo evs = Some s \<Longrightarrow> reachable True (length evs) s"
    using reachable_run[of True 0 _ "length evs" s] play_run by (simp add: demo_def)
qed

definition demo_enter :: "event list" where "demo_enter = [Ev_Call 1 (C_Enter 5 False), Ev_Run 1 False, Ev_Run 1 False]"

lemma demo_enter_result:
  "map_option (\<lambda>s. (locks_of s 5, phases_of s 1, HoldsLock 1 5 s, pc (thr s 2), suspendCount (thr s 2))) (demo demo_enter) =
   Some (Some (1, 1), Free (R_State OK), True, Idle, 0)"
  by code_simp

end
