(* ===== verification/Monitors_Props.thy ===== *)
theory Monitors_Props
  imports Monitors_Correct
begin

text \<open>
  The properties of the monitors: the refinement of the abstract lock, the invariant, exclusion, hash codes,
  the faults, and concrete runs that show their hypotheses can hold.
\<close>

section \<open>The numbers of the pool\<close>

lemma mod_word_nat: "unat (x mod m :: u64) = unat x mod unat m" by (rule unat_mod)

lemma CreateMonitor_loop_None:
  assumes "CreateMonitor_loop i l ms = None" "k < unat MAX_MONITOR_ID - unat i"
  shows "ms (word_of_nat ((unat (l + 1) + k) mod unat MAX_MONITOR_ID)) \<noteq> None"
  using assms
proof (induction i l ms arbitrary: k rule: CreateMonitor_loop.induct)
  case (1 i l ms)
  let ?M = "unat MAX_MONITOR_ID" and ?l = "(l + 1) mod MAX_MONITOR_ID"
  have M: "MAX_MONITOR_ID = 268435455" by code_simp
  have M': "?M = 268435455" by (simp add: M)
  have i: "i < MAX_MONITOR_ID" "unat (i + 1) = unat i + 1"
    using "1.prems"(2) unsigned_less[of i, where 'a = nat] by (auto simp: word_less_nat_alt M' unat_word_ariths)
  have l: "unat ?l = unat (l + 1) mod ?M" by (simp add: unat_mod)
  then have "unat ?l < 268435455" by (simp add: M')
  then have l1: "unat (?l + 1) = unat ?l + 1" by (simp add: unat_word_ariths)
  have ne: "ms ?l \<noteq> None" and loop: "CreateMonitor_loop (i + 1) ?l ms = None"
    using "1.prems"(1) i(1) by (subst (asm) CreateMonitor_loop.simps; simp add: Let_def split: if_splits)+
  show ?case
  proof (cases k)
    case 0
    then have "word_of_nat ((unat (l + 1) + k) mod ?M) = ?l" by (simp only: add_0_right l[symmetric]) simp
    then show ?thesis using ne by simp
  next
    case (Suc k')
    have "(unat (?l + 1) + k') mod ?M = (unat (l + 1) + k) mod ?M"
      using mod_add_left_eq[of "unat (l + 1)" ?M "1 + k'"] by (simp only: l1 l Suc) (simp add: ac_simps)
    moreover have "ms (word_of_nat ((unat (?l + 1) + k') mod ?M)) \<noteq> None"
    proof (rule "1.IH")
      show "k' < ?M - unat (i + 1)" using "1.prems"(2) Suc i(2) by simp
    qed (use i(1) ne loop in simp_all)
    ultimately show ?thesis by simp
  qed
qed

lemma CreateMonitor_loop_full:
  assumes "CreateMonitor_loop 0 l ms = None" "mid < MAX_MONITOR_ID"
  shows "ms mid \<noteq> None"
proof -
  let ?M = "unat MAX_MONITOR_ID" and ?a = "unat (l + 1) mod unat MAX_MONITOR_ID"
  define k where "k = (unat mid + (?M - ?a)) mod ?M"
  have mid: "unat mid < ?M" using assms(2) by (simp add: word_less_nat_alt)
  then have a: "?a < ?M" "k < ?M" by (simp_all add: k_def)
  have "(unat (l + 1) + k) mod ?M = (?a + (unat mid + (?M - ?a))) mod ?M" by (simp add: k_def mod_simps)
  also have "?a + (unat mid + (?M - ?a)) = unat mid + ?M" using a(1) by arith
  also have "(unat mid + ?M) mod ?M = unat mid" using mid by simp
  finally show ?thesis using CreateMonitor_loop_None[OF assms(1), of k] a(2) by simp
qed

section \<open>Where a fault comes from\<close>

lemma inflate_init_fault: "Inflate_init t ik old mid m s \<noteq> Fatal F_OutOfMonitorIds" "Inflate_init t ik old mid m s \<noteq> Fatal F_OutOfMemory"
  "Inflate_init t ik old mid m s \<noteq> Fatal F_ReleaseNotOwner" "Inflate_init t ik old mid m s \<noteq> Fatal F_WaitNotOwner"
  by (auto simp: Inflate_init_def split: ObjectState.splits option.splits)

lemma fault_place:
  assumes "act futex ch t s = Fatal f" "f \<in> {F_OutOfMonitorIds, F_OutOfMemory, F_ReleaseNotOwner, F_WaitNotOwner}"
  shows "f = F_OutOfMonitorIds \<and> CreateMonitor_loop 0 (lastId s) (pool s) = None \<or> f = F_OutOfMemory \<and> ch \<or>
    f = F_ReleaseNotOwner \<and> (\<exists>rk mid m. pc_of s t = At_Release (RelOwner rk mid) \<and> pool s mid = Some m \<and> owner m \<noteq> Some t) \<or>
    f = F_WaitNotOwner \<and> (\<exists>w. pc_of s t = At_Wait (WaitLoop w) \<and> GetState (marks s (wc_obj w)) = STATE_LIGHT_LOCKED \<and>
      GetThreadId (marks s (wc_obj w)) \<noteq> t)"
  using assms inflate_init_fault
  by (auto simp: act_def step_defs pc_of_def Let_def
      split: pc.splits enter_pc.splits inflate_pc.splits thin_pc.splits acquire_pc.splits exit_pc.splits release_pc.splits wait_pc.splits
        notify_pc.splits hash_pc.splits if_splits option.splits ObjectState.splits prod.splits)

section \<open>Properties\<close>

lemma reachable_lock_view:
  assumes "reachable futex n s" "n < 2 ^ 62"
  shows "spec_step\<^sup>*\<^sup>* (\<lambda>_. None, \<lambda>_. Free R_None) (lock_view s)"
proof -
  obtain mk seed where i: "\<forall>obj. GetState (mk obj) = STATE_UNLOCKED" "(sys_step futex ^^ n) (init_sys mk seed) s"
    using reachable_from_init[OF assms(1)] by blast
  show ?thesis using monitors.run[OF i(2) init_inv[OF i(1)]] init_view[OF i(1), of seed] assms(2) by simp
qed

text \<open>C1: The monitors implement the abstract lock. In every state that the threads, the collector, interrupts and
  deflations reach, a step leaves the lock of each object and the phase of each thread as they are, or is one
  step of \<open>thread_spec\<close>: only the owner can exit, wait or notify with success, a lock is taken only while
  it is free or by its owner, whose count goes up by one, an exit takes one off the count and frees the lock
  at zero, and a wait gives the whole count up and takes the same count again before it returns. So every
  reachable state shows a lock that the abstract lock reaches from "no object is locked", whatever mix of
  lightweight locks, inflated monitors and deflations implements it.\<close>

theorem monitors_refine_lock:
  assumes "reachable futex n s" "n < 2 ^ 62"
  shows "spec_step\<^sup>*\<^sup>* (\<lambda>_. None, \<lambda>_. Free R_None) (lock_view s) \<and>
    (\<forall>s'. sys_step futex s s' \<longrightarrow> lock_view s' = lock_view s \<or> spec_step (lock_view s) (lock_view s'))"
  using reachable_lock_view[OF assms] monitors.simulates[OF reachable_inv[OF assms]] assms(2) by auto

lemma demo_enter_run:
  obtains s where "reachable True 3 s" "locks_of s 5 = Some (1, 1)" "phases_of s 1 = Free (R_State OK)" "HoldsLock 1 5 s"
    "pc (thr s 2) = Idle" "suspendCount (thr s 2) = 0" "demo demo_enter = Some s"
proof -
  obtain s where s: "demo demo_enter = Some s" using demo_enter_result by (cases "demo demo_enter") auto
  have "length demo_enter = 3" by (simp add: demo_enter_def)
  then have "reachable True 3 s" using demo_reachable[OF s] by metis
  then show ?thesis using that[of s] demo_enter_result s unfolding s by (simp del: One_nat_def)
qed

lemma monitors_refine_lock_witness:
  "\<exists>lk ph. spec_step\<^sup>*\<^sup>* (\<lambda>_. None, \<lambda>_. Free R_None) (lk, ph) \<and> lk 5 = Some (1, 1) \<and> ph 1 = Free (R_State OK)"
proof -
  obtain s where s: "reachable True 3 s" "locks_of s 5 = Some (1, 1)" "phases_of s 1 = Free (R_State OK)" by (rule demo_enter_run)
  then show ?thesis using monitors_refine_lock[OF s(1)] unfolding lock_view_def by auto
qed

text \<open>C2: The invariant of the monitors in every reachable state (\<open>sys_inv\<close>): a mark word in the heavyweight
  state refers to a monitor of its object, every other monitor of the pool is one that a single thread has made
  and not published; a monitor with an owner is locked by it and has a count that is not zero, one without
  owner has count zero, and its mutex is held by a thread that is about to set or has just cleared the owner;
  the threads in the two lists are waiting on this monitor, none twice; the counter of waiters is the number
  of the threads that wait on the monitor or are blocked at it; lock counts stay below \<open>n\<close> + 2^15 after
  \<open>n\<close> steps, so the 64-bit counter does not wrap; no mark word is light with count zero or hashed with code
  zero; and every assertion of \<open>thread_inv\<close> holds of the thread at that place.\<close>

theorem monitors_invariant:
  assumes "reachable futex n s" "n < 2 ^ 62"
  shows "sys_inv (n + 2 ^ 15) s"
  using assms by (rule reachable_inv)

lemma monitors_invariant_witness: "\<exists>s. locks_of s 5 = Some (1, 1) \<and> sys_inv (3 + 2 ^ 15) s"
proof -
  obtain s where "reachable True 3 s" "locks_of s 5 = Some (1, 1)" by (rule demo_enter_run)
  then show ?thesis using monitors_invariant[of True 3 s] by auto
qed

text \<open>C8: Mutual exclusion over runs: while a thread holds the lock of an object and stays in its phase (it does
  not exit, wait or enter again), no number of steps of the others, of the collector or of deflations takes
  the lock from it: \<open>HoldsLock\<close> still says so, with the same count, and says it of no other thread.\<close>

theorem held_lock_is_kept:
  assumes "reachable futex n s" "HoldsLock t obj s" "n + k < 2 ^ 62"
    and "((\<lambda>s s'. sys_step futex s s' \<and> phases_of s' t = phases_of s t) ^^ k) s s'"
  shows "locks_of s' obj = locks_of s obj \<and> HoldsLock t obj s' \<and> (\<forall>u. HoldsLock u obj s' \<longrightarrow> u = t)"
proof -
  have I: "sys_inv (n + 2 ^ 15) s" using reachable_inv[OF assms(1)] assms(3) by simp
  obtain c where c: "locks_of s obj = Some (t, c)" using HoldsLock_lock[OF I] assms(2) by blast
  have "(\<lambda>(lk, ph). lk obj = Some (t, c)) (lock_view s') \<and> sys_inv (n + 2 ^ 15 + k) s'"
  proof (rule monitors.guarded_run[OF _ I, where guard = "\<lambda>(lk, ph) (lk', ph'). ph' t = ph t"])
    show "((\<lambda>s s'. sys_step futex s s' \<and> (case lock_view s of (lk, ph) \<Rightarrow> \<lambda>(lk', ph'). ph' t = ph t) (lock_view s')) ^^ k) s s'"
      using assms(4) by (simp add: lock_view_def)
  qed (use assms(3) c spec_step_other in \<open>auto simp: lock_view_def\<close>)
  then show ?thesis using HoldsLock_lock[of _ s' _ obj] c by (auto simp: lock_view_def)
qed

lemma held_lock_is_kept_witness:
  "\<exists>s s'. sys_step True s s' \<and> s' = goto 2 (start (C_Enter 5 True)) s \<and> HoldsLock 1 5 s' \<and> (\<forall>u. HoldsLock u 5 s' \<longrightarrow> u = 1)"
proof -
  obtain s where s: "reachable True 3 s" "HoldsLock 1 5 s" "pc (thr s 2) = Idle" "suspendCount (thr s 2) = 0" by (rule demo_enter_run)
  let ?s = "goto 2 (start (C_Enter 5 True)) s"
  have "valid_tid 2" by code_simp
  then have step: "sys_step True s ?s" using s(3,4) by (rule sys_step.call)
  have "phases_of ?s 1 = phases_of s 1" by (simp add: phases_of_def)
  then have "((\<lambda>s s'. sys_step True s s' \<and> phases_of s' 1 = phases_of s 1) ^^ 1) s ?s" using step by (simp only: relpowp_1)
  then have "HoldsLock 1 5 ?s \<and> (\<forall>u. HoldsLock u 5 ?s \<longrightarrow> u = 1)" using held_lock_is_kept[OF s(1,2), of 1 ?s] by simp
  then show ?thesis using step by blast
qed

text \<open>C15: The hash code of an object is fixed for good by the first call that returns one: after a call of
  \<open>GetHashCode\<close> has returned a code, every later state has this code for the object, in the mark word or in its
  monitor, through locking, inflation (which moves the code into the monitor) and deflation (which moves it
  back). So any two calls on an object return the same code, and it is never 0.\<close>

theorem hash_code_is_stable:
  assumes "reachable futex n s" "phases_of s t = Called (C_Hash obj)" "sys_step futex s s1" "phases_of s1 t = Free (R_Hash h)"
    and "(sys_step futex ^^ k) s1 s2" "n + k + 1 < 2 ^ 62"
  shows "hash_of (marks s2) (pool s2) obj = Some h \<and> h \<noteq> 0"
proof -
  have r1: "reachable futex (Suc n) s1" using assms(1,3) by (rule reachable.step)
  have "hash_of (marks s1) (pool s1) obj = Some h"
    using reachable_step_ok[OF assms(1) _ assms(3)] assms(2,4,6) by (auto simp: step_ok_def)
  then have "hash_of (marks s2) (pool s2) obj = Some h"
    using assms(5,6)
  proof (induction k arbitrary: s2)
    case (Suc k)
    then obtain s' where s': "(sys_step futex ^^ k) s1 s'" "sys_step futex s' s2" by auto
    then have "hash_of (marks s') (pool s') obj = Some h" using Suc by simp
    moreover have "step_ok (Suc n + k + 2 ^ 15) s' s2"
      using reachable_step_ok[OF reachable_run[OF r1 s'(1)] _ s'(2)] Suc.prems(3) by simp
    ultimately show ?case by (auto simp: step_ok_def)
  qed simp
  moreover have "sys_inv (Suc n + k + 2 ^ 15) s2" using reachable_inv[OF reachable_run[OF r1 assms(5)]] assms(6) by simp
  ultimately show ?thesis using mark_fact[of _ s2 obj]
    by (auto simp: hash_of_def hash_at_def mark_ok_def split: ObjectState.splits option.splits if_splits)
qed

definition demo_hash :: "event list" where
  "demo_hash = demo_enter @ [Ev_Call 1 (C_Hash 5), Ev_Run 1 False, Ev_Run 1 False, Ev_Run 1 False, Ev_Run 1 False, Ev_Run 1 False,
     Ev_Run 1 False, Ev_Run 1 False]"

text \<open>A thread asks for the hash code of an object whose lock it holds: the lock is inflated.\<close>

lemma demo_hash_result:
  "map_option (\<lambda>s. (phases_of s 1, locks_of s 5, GetState (marks s 5), pc_of s 1)) (demo demo_hash) =
   Some (Called (C_Hash 5), Some (1, 1), STATE_HEAVY_LOCKED, At_Hash (HashStore 5 1 7))"
  by code_simp

lemma hash_code_is_stable_witness:
  "\<exists>s1 s2. sys_step True s1 s2 \<and> phases_of s1 1 = Free (R_Hash 7) \<and> phases_of s2 1 = Called (C_Exit 5) \<and>
     hash_of (marks s2) (pool s2) 5 = Some 7"
proof -
  have r: "map_option (\<lambda>s. (phases_of s 1, pc (thr s 1), suspendCount (thr s 1))) (demo (demo_hash @ [Ev_Run 1 False])) = Some (Free (R_Hash 7), Idle, 0)"
    by code_simp
  obtain s where s: "demo demo_hash = Some s" "phases_of s 1 = Called (C_Hash 5)"
    using demo_hash_result by (cases "demo demo_hash") auto
  obtain s1 where s1: "demo (demo_hash @ [Ev_Run 1 False]) = Some s1" "phases_of s1 1 = Free (R_Hash 7)" "pc (thr s1 1) = Idle" "suspendCount (thr s1 1) = 0"
    using r by (cases "demo (demo_hash @ [Ev_Run 1 False])") auto
  have v: "valid_tid 1" by code_simp
  have step: "sys_step True s s1"
    using s(1) s1(1) v by (auto simp: demo_def play_append split: outcome.splits intro: sys_step.run)
  let ?s2 = "goto 1 (start (C_Exit 5)) s1"
  have call: "sys_step True s1 ?s2" using v s1(3,4) by (rule sys_step.call)
  have "length demo_hash = 11" by (simp add: demo_hash_def demo_enter_def)
  then have "reachable True 11 s" using demo_reachable[OF s(1)] by metis
  moreover have "(sys_step True ^^ 1) s1 ?s2" using call by (simp only: relpowp_1)
  ultimately have "hash_of (marks ?s2) (pool ?s2) 5 = Some 7"
    using hash_code_is_stable[of True 11 s 1 5 s1 7 1 ?s2] s(2) step s1(2) by simp
  moreover have "phases_of ?s2 1 = Called (C_Exit 5)" by (simp add: phases_of_def phase_of_def)
  ultimately show ?thesis using call s1(2) by blast
qed

text \<open>C27: Where the process can end with a fatal message. A step of a thread in a reachable state does so in four
  cases only: \<open>CreateMonitor\<close> finds no free monitor number, and then all of them are in use; the allocator
  has no memory; \<open>MonitorExit\<close> of a heavyweight lock that the thread does not hold; \<open>Wait\<close> on a lightweight
  lock of another thread. The other fatal branches (a wrong old owner in \<open>SetOwner\<close>, a monitor that the
  pool does not have any more, a hash code written twice, the unreachable states) are never taken.\<close>

theorem monitor_faults:
  assumes "reachable futex n s" "n < 2 ^ 62" "valid_tid t" "act futex ch t s = Fatal f"
  shows "f = F_OutOfMonitorIds \<and> (\<forall>mid < MAX_MONITOR_ID. pool s mid \<noteq> None) \<or> f = F_OutOfMemory \<and> ch \<or>
    f = F_ReleaseNotOwner \<and> (\<exists>obj mid. pc_of s t = At_Release (RelOwner (RK_Exit obj) mid) \<and> \<not> HoldsLock t obj s) \<or>
    f = F_WaitNotOwner \<and> (\<exists>w. pc_of s t = At_Wait (WaitLoop w) \<and> GetState (marks s (wc_obj w)) = STATE_LIGHT_LOCKED \<and>
      \<not> HoldsLock t (wc_obj w) s)"
proof -
  have I: "sys_inv (n + 2 ^ 15) s" using reachable_inv[OF assms(1,2)] .
  have "outcome_ok (n + 2 ^ 15) s (act futex ch t s)" using act_ok[OF I assms(3)] assms(2) by simp
  then have "f \<in> {F_OutOfMonitorIds, F_OutOfMemory, F_ReleaseNotOwner, F_WaitNotOwner}" using assms(4) by (simp add: expected_fault_def)
  note place = fault_place[OF assms(4) this]
  have "\<exists>obj mid. pc_of s t = At_Release (RelOwner (RK_Exit obj) mid) \<and> \<not> HoldsLock t obj s"
    if p: "pc_of s t = At_Release (RelOwner rk mid)" and m: "pool s mid = Some m" "owner m \<noteq> Some t" for rk mid m
  proof (cases rk)
    case (RK_Exit obj)
    then have "published (marks s) mid obj" using thread_fact[OF I p] by simp
    then show ?thesis using lock_not_owner[OF _ m] HoldsLock_lock[OF I] p RK_Exit by auto
  next
    case (RK_Wait w c)
    then show ?thesis using thread_fact[OF I p] m by (auto simp: on_mon_def)
  qed
  moreover have "\<not> HoldsLock t obj s" if "GetState (marks s obj) = STATE_LIGHT_LOCKED" "GetThreadId (marks s obj) \<noteq> t" for obj
    using that by (simp add: HoldsLock_def)
  ultimately show ?thesis using place CreateMonitor_loop_full by blast
qed

text \<open>A thread waits on the lightweight lock of another.\<close>

lemma monitor_faults_witness:
  "\<exists>s. pc_of s 2 = At_Wait (WaitLoop (WC 5 IS_WAITING False)) \<and> act True False 2 s = Fatal F_WaitNotOwner \<and> \<not> HoldsLock 2 5 s"
proof -
  let ?evs = "demo_enter @ [Ev_Call 2 (C_Wait 5 IS_WAITING False)]"
  have r: "map_option (\<lambda>s. (pc_of s 2, case act True False 2 s of Fatal f \<Rightarrow> Some f | _ \<Rightarrow> None)) (demo ?evs) =
      Some (At_Wait (WaitLoop (WC 5 IS_WAITING False)), Some F_WaitNotOwner)" by code_simp
  then obtain s where s: "demo ?evs = Some s" "pc_of s 2 = At_Wait (WaitLoop (WC 5 IS_WAITING False))"
      "(case act True False 2 s of Fatal f \<Rightarrow> Some f | _ \<Rightarrow> None) = Some F_WaitNotOwner"
    by (cases "demo ?evs") auto
  then have f: "act True False 2 s = Fatal F_WaitNotOwner" by (auto split: outcome.splits)
  have "length ?evs = 4" by (simp add: demo_enter_def)
  then have "reachable True 4 s" using demo_reachable[OF s(1)] by metis
  moreover have "valid_tid 2" by code_simp
  ultimately show ?thesis using monitor_faults[of True 4 s 2 False F_WaitNotOwner] f s(2) by auto
qed

end
