(* ===== verification/Monitors_Wakeup.thy ===== *)
theory Monitors_Wakeup
  imports Monitors_Correct
begin

text \<open>
  No notified thread is forgotten: a monitor with notified threads in its list of threads to wake up is locked,
  or one of its waiting threads is on its way to the lock.
\<close>

section \<open>Threads on their way\<close>

text \<open>A waiting thread that has its signal, or goes on without one, takes the lock next.\<close>

fun coming :: "mon_id \<Rightarrow> Thread \<Rightarrow> bool" where
  "coming mid th =
     (case pc th of
        At_Acquire (AcqOwner (AK_Wait _ _ _) mid') \<Rightarrow> mid' = mid
      | At_Acquire (AcqTry (AK_Wait _ _ _) mid') \<Rightarrow> mid' = mid
      | At_Acquire (AcqCount (AK_Wait _ _ _) mid') \<Rightarrow> mid' = mid
      | At_Acquire (AcqLock (AK_Wait _ _ _) mid') \<Rightarrow> mid' = mid
      | At_Wait (WaitSafepoint _ mid' _) \<Rightarrow> mid' = mid
      | At_Wait (WaitSleep _ mid' _) \<Rightarrow> mid' = mid \<and> signalled th
      | _ \<Rightarrow> False)"

declare coming.simps [simp del]

text \<open>A thread that waits and has given up the lock.\<close>

fun away :: "mon_id \<Rightarrow> pc \<Rightarrow> bool" where
  "away mid (At_Acquire (AcqOwner (AK_Wait _ _ _) mid')) = (mid' = mid)"
| "away mid (At_Acquire (AcqTry (AK_Wait _ _ _) mid')) = (mid' = mid)"
| "away mid (At_Acquire (AcqCount (AK_Wait _ _ _) mid')) = (mid' = mid)"
| "away mid (At_Acquire (AcqLock (AK_Wait _ _ _) mid')) = (mid' = mid)"
| "away mid (At_Wait (WaitCheck _ mid' _)) = (mid' = mid)"
| "away mid (At_Wait (WaitSafepoint _ mid' _)) = (mid' = mid)"
| "away mid (At_Wait (WaitSleep _ mid' _)) = (mid' = mid)"
| "away mid _ = False"

fun setting :: "mon_id \<Rightarrow> pc \<Rightarrow> bool" where
  "setting mid (At_Acquire (AcqSet _ _ mid')) = (mid' = mid)"
| "setting mid _ = False"

fun signalling :: "mon_id \<Rightarrow> pc \<Rightarrow> tid option" where
  "signalling mid (At_Release (RelSignal _ mid' w)) = (if mid' = mid then Some w else None)"
| "signalling mid _ = None"

definition attended :: "(tid \<Rightarrow> Thread) \<Rightarrow> mon_id \<Rightarrow> bool" where
  "attended th mid \<longleftrightarrow> (\<exists>u. setting mid (pc (th u))) \<or> (\<exists>u w. signalling mid (pc (th u)) = Some w \<and> away mid (pc (th w))) \<or>
     (\<exists>u. coming mid (th u))"

definition wake_ok :: "sys \<Rightarrow> bool" where
  "wake_ok s \<longleftrightarrow> (\<forall>mid m. pool s mid = Some m \<longrightarrow> toWakeup m \<noteq> [] \<longrightarrow> owner m = None \<longrightarrow> attended (thr s) mid)"

section \<open>Preservation\<close>

definition kept :: "mon_id \<Rightarrow> Thread \<Rightarrow> Thread \<Rightarrow> bool" where
  "kept mid th th' \<longleftrightarrow> (setting mid (pc th) \<longrightarrow> setting mid (pc th')) \<and>
     (\<forall>w. signalling mid (pc th) = Some w \<longrightarrow> signalling mid (pc th') = Some w) \<and>
     (away mid (pc th) \<longrightarrow> away mid (pc th')) \<and> (coming mid th \<longrightarrow> coming mid th')"

lemma attended_kept: "\<forall>u. kept mid (th u) (th' u) \<Longrightarrow> attended th mid \<Longrightarrow> attended th' mid"
  unfolding attended_def kept_def by metis

lemma coming_mono: "coming mid th \<Longrightarrow> pc th' = pc th \<Longrightarrow> (signalled th \<Longrightarrow> signalled th') \<Longrightarrow> coming mid th'"
  by (auto simp: coming.simps split: place_splits acquire_cont.splits)

lemma kept_same: "pc th' = pc th \<Longrightarrow> (signalled th \<Longrightarrow> signalled th') \<Longrightarrow> kept mid th th'"
  by (auto simp: kept_def intro: coming_mono)

text \<open>What a step of \<open>t\<close> leaves of the other threads.\<close>

definition others_same :: "tid \<Rightarrow> sys \<Rightarrow> sys \<Rightarrow> bool" where
  "others_same t s s' \<longleftrightarrow> (\<forall>u. u \<noteq> t \<longrightarrow> pc (thr s' u) = pc (thr s u) \<and> (signalled (thr s u) \<longrightarrow> signalled (thr s' u)))"

lemma wake_step:
  assumes W: "wake_ok s" and o: "others_same t s s'"
    and own: "\<And>mid m'. pool s' mid = Some m' \<Longrightarrow> toWakeup m' \<noteq> [] \<Longrightarrow> owner m' = None \<Longrightarrow>
      (\<exists>m. pool s mid = Some m \<and> toWakeup m \<noteq> [] \<and> owner m = None) \<and> kept mid (thr s t) (thr s' t) \<or> attended (thr s') mid"
  shows "wake_ok s'"
  unfolding wake_ok_def
proof (intro allI impI)
  fix mid m' assume m': "pool s' mid = Some m'" "toWakeup m' \<noteq> []" "owner m' = None"
  show "attended (thr s') mid"
    using own[OF m']
  proof (elim disjE conjE exE)
    fix m assume m: "pool s mid = Some m" "toWakeup m \<noteq> []" "owner m = None" and k: "kept mid (thr s t) (thr s' t)"
    have "kept mid (thr s u) (thr s' u)" for u
      using k o kept_same[of "thr s' u" "thr s u" mid] by (cases "u = t") (auto simp: others_same_def)
    then show ?thesis using W m attended_kept[of mid "thr s" "thr s'"] by (auto simp: wake_ok_def)
  qed
qed

lemma others_helpers:
  "others_same t s (goto t p s)" "others_same t s (ret t r s)" "others_same t s (on_thread t f s)" "others_same t s (put_monitor mid m s)"
  by (auto simp: others_same_def goto_def ret_def)

lemma thr_other [simp]:
  assumes "u \<noteq> t"
  shows "thr (goto t p s) u = thr s u" "thr (ret t r s) u = thr s u" "thr (on_thread t f s) u = thr s u"
    "thr (PushLocalObjectLocked t obj s) u = thr s u" "thr (PopLocalObjectLocked t obj s) u = thr s u" "thr (AddMonitor t s) u = thr s u"
    "thr (RemoveMonitor t s) u = thr s u" "thr (leave_inflation_wait t s) u = thr s u"
  using assms by (simp_all add: goto_def ret_def PushLocalObjectLocked_def PopLocalObjectLocked_def AddMonitor_def RemoveMonitor_def
    leave_inflation_wait_def)

lemma thr_any [simp]:
  "pc (thr (AddMonitor w s) u) = pc (thr s u)" "signalled (thr (AddMonitor w s) u) = signalled (thr s u)"
  "pc (thr (SignalThread w s) u) = pc (thr s u)" "signalled (thr s u) \<Longrightarrow> signalled (thr (SignalThread w s) u)"
  "pc (thr (on_thread w (\<lambda>th. th\<lparr>suspendCount := g th\<rparr>) s) u) = pc (thr s u)"
  "signalled (thr (on_thread w (\<lambda>th. th\<lparr>suspendCount := g th\<rparr>) s) u) = signalled (thr s u)"
  by (auto simp: AddMonitor_def SignalThread_def)

lemma thr_returns [simp]:
  assumes "u \<noteq> t"
  shows "thr (inflate_return t ik b s) u = thr s u" "thr (enter_retry t c s) u = thr s u" "thr (thin_return futex t tk s) u = thr s u"
    "thr (acquire_return t ak mid b s) u = thr s u" "thr (release_return t rk mid s) u = thr s u"
    "thr (HandleLightLockedState t c mark s) u = thr s u" "thr (HandleUnlockedState t c mark s) u = thr s u"
  using assms
  by (cases ik; cases ak; cases rk; cases tk;
      simp add: enter_retry_def thin_return_def HandleLightLockedState_def HandleUnlockedState_def Let_def)+

lemma act_others: "act futex ch t s = Go s' \<Longrightarrow> others_same t s s'"
  by (auto simp: others_same_def act_def step_defs Inflate_init_def AtomicSetMark_def Let_def
      split: place_splits if_splits option.splits ObjectState.splits prod.splits)

lemma coming_away: "coming mid th \<Longrightarrow> away mid (pc th)"
  by (auto simp: coming.simps split: place_splits acquire_cont.splits)

definition plain :: "pc \<Rightarrow> bool" where "plain p \<longleftrightarrow> (\<forall>mid. \<not> setting mid p \<and> signalling mid p = None \<and> \<not> away mid p)"

lemma kept_plain: "plain (pc th) \<Longrightarrow> kept mid th th'"
  by (auto simp: kept_def plain_def dest: coming_away)

lemma pool_returns [simp]:
  "pool (inflate_return t ik b s) = pool s" "pool (enter_retry t c s) = pool s" "pool (thin_return futex t tk s) = pool s"
  "pool (acquire_return t ak mid b s) = pool s" "pool (release_return t rk mid s) = pool s"
  "pool (HandleLightLockedState t c mark s) = pool s" "pool (HandleUnlockedState t c mark s) = pool s"
  by (cases ik; cases ak; cases rk; cases tk;
      simp add: enter_retry_def thin_return_def HandleLightLockedState_def HandleUnlockedState_def Let_def)+

text \<open>Only the release of the lock by its owner makes a monitor with notified threads free.\<close>

lemma act_pool:
  assumes "act futex ch t s = Go s'" "sys_inv b s" "\<forall>rk mid. pc (thr s t) \<noteq> At_Release (RelOwner rk mid)"
    and "pool s' mid = Some m'" "toWakeup m' \<noteq> []" "owner m' = None"
  shows "\<exists>m. pool s mid = Some m \<and> toWakeup m \<noteq> [] \<and> owner m = None"
proof -
  have restore: "owner m = Some t" if "pc (thr s t) = At_Wait (WaitRestore w mid c st)" "pool s mid = Some m" for w mid c st m
    using thread_fact[OF assms(2), of t] that by (auto simp: pc_of_def on_mon_def)
  show ?thesis
    using assms(1,3-6)
    by (auto simp: act_def step_defs Inflate_init_def AtomicSetMark_def InitWithOwner_new SetHashCode_def SetOwner_def Let_def restore
        split: place_splits if_splits option.splits ObjectState.splits prod.splits)
qed

lemma thr_goto [simp]: "pc (thr (goto t p s) t) = p" by (simp add: goto_def)

lemma plain_places:
  "p = Idle \<or> (\<exists>q. p = At_Enter q) \<or> (\<exists>q. p = At_Inflate q) \<or> (\<exists>q. p = At_Thin q) \<or> (\<exists>q. p = At_Exit q) \<or> (\<exists>q. p = At_Notify q) \<or>
   (\<exists>q. p = At_Hash q) \<Longrightarrow> plain p"
  by (auto simp: plain_def)

text \<open>The step of a waiting thread that is away, of a thread that has got the mutex, and of one that signals.\<close>

lemma away_step:
  assumes I: "sys_inv b s" and a: "act futex ch t s = Go s'" and w: "away mid (pc (thr s t))"
  shows "kept mid' (thr s t) (thr s' t) \<or> setting mid' (pc (thr s' t))"
proof (cases "mid' = mid")
  case True
  have own: "pool s mid = Some m \<Longrightarrow> pc (thr s t) = At_Acquire (AcqOwner (AK_Wait w' c st) mid) \<Longrightarrow> owner m \<noteq> Some t" for m w' c st
    using thread_fact[OF I, of t] by (auto simp: pc_of_def on_mon_def)
  show ?thesis
  proof (cases "pc (thr s t)")
    case (At_Acquire q)
    then show ?thesis using w a own True
      by (cases q) (auto simp: act_def Acquire_owner_def Acquire_trylock_def Acquire_count_def Acquire_lock_def kept_def coming.simps
        split: acquire_cont.splits option.splits if_splits)
  next
    case (At_Wait q)
    then show ?thesis using w a True
      by (cases q) (auto simp: act_def Wait_check_def Wait_safepoint_def DoWaitInternal_def kept_def coming.simps split: if_splits)
  qed (use w in auto)
next
  case False
  have "\<not> away mid' (pc (thr s t))" "\<not> setting mid' (pc (thr s t))" "signalling mid' (pc (thr s t)) = None"
    using w False by (cases "(mid, pc (thr s t))" rule: away.cases; simp)+
  then show ?thesis using coming_away by (auto simp: kept_def)
qed

lemma set_step:
  assumes a: "act futex ch t s = Go s'" and w: "setting mid (pc (thr s t))" and m: "pool s' mid' = Some m'" "owner m' = None"
  shows "kept mid' (thr s t) (thr s' t)"
proof -
  obtain slow ak where p: "pc (thr s t) = At_Acquire (AcqSet slow ak mid)" using w by (cases "(mid, pc (thr s t))" rule: setting.cases) auto
  then have "mid' \<noteq> mid" using a m by (auto simp: act_def Acquire_set_def SetOwner_def Let_def split: option.splits if_splits)
  then show ?thesis using p by (auto simp: kept_def coming.simps)
qed

lemma away_awake: "away mid (pc th) \<Longrightarrow> \<not> holds_waiting_mutex (pc th) \<Longrightarrow> (sleeping (pc th) \<Longrightarrow> signalled th) \<Longrightarrow> coming mid th"
  by (cases "(mid, pc th)" rule: away.cases) (auto simp: coming.simps)

lemma signal_step:
  assumes a: "act futex ch t s = Go s'" and p: "pc (thr s t) = At_Release (RelSignal rk mid w)" and att: "attended (thr s) mid'"
  shows "attended (thr s') mid'"
proof -
  have s': "s' = goto t (At_Release (RelUnlock rk mid)) (SignalThread w s)" and free: "\<not> holds_waiting_mutex (pc (thr s w))"
    using a p by (auto simp: act_def Release_signal_def split: if_splits)
  have o: "pc (thr s' u) = pc (thr s u)" "signalled (thr s u) \<Longrightarrow> signalled (thr s' u)" if "u \<noteq> t" for u
    using act_others[OF a] that by (auto simp: others_same_def)
  show ?thesis
    using att unfolding attended_def
  proof (elim disjE exE conjE)
    fix u assume "setting mid' (pc (thr s u))"
    moreover from this have "u \<noteq> t" using p by auto
    ultimately show "(\<exists>u. setting mid' (pc (thr s' u))) \<or> (\<exists>u w. signalling mid' (pc (thr s' u)) = Some w \<and> away mid' (pc (thr s' w))) \<or>
        (\<exists>u. coming mid' (thr s' u))" using o by metis
  next
    fix u assume c: "coming mid' (thr s u)"
    then have "u \<noteq> t" using p by (auto simp: coming.simps)
    then have "coming mid' (thr s' u)" using c o coming_mono by metis
    then show "(\<exists>u. setting mid' (pc (thr s' u))) \<or> (\<exists>u w. signalling mid' (pc (thr s' u)) = Some w \<and> away mid' (pc (thr s' w))) \<or>
        (\<exists>u. coming mid' (thr s' u))" by blast
  next
    fix u v assume c: "signalling mid' (pc (thr s u)) = Some v" "away mid' (pc (thr s v))"
    have v: "v \<noteq> t" using c(2) p by auto
    show "(\<exists>u. setting mid' (pc (thr s' u))) \<or> (\<exists>u w. signalling mid' (pc (thr s' u)) = Some w \<and> away mid' (pc (thr s' w))) \<or>
        (\<exists>u. coming mid' (thr s' u))"
    proof (cases "u = t")
      case True
      then have "v = w" "mid' = mid" using c(1) p by (auto split: if_splits)
      then have "coming mid' (thr s' v)"
        using c(2) free v by (intro away_awake) (auto simp: s' SignalThread_def split: if_splits)
      then show ?thesis by blast
    next
      case False
      then show ?thesis using c v o by metis
    qed
  qed
qed

text \<open>A thread that releases the lock to wait is in the list of waiting threads, not in the one of threads to wake up.\<close>

definition enqueued :: "sys \<Rightarrow> bool" where
  "enqueued s \<longleftrightarrow> (\<forall>t w c mid m. pc (thr s t) = At_Release (RelOwner (RK_Wait w c) mid) \<longrightarrow> pool s mid = Some m \<longrightarrow> t \<in> set (waiters m))"

lemma act_lists:
  assumes "act futex ch t s = Go s'" "sys_inv b s" "pool s mid = Some m" "owner m = Some u" "u \<noteq> t" "pool s' mid = Some m'"
  shows "waiters m' = waiters m"
proof -
  have restore: "owner m = Some t" if "pc (thr s t) = At_Wait (WaitRestore w mid c st)" "pool s mid = Some m" for w mid c st m
    using thread_fact[OF assms(2), of t] that by (auto simp: pc_of_def on_mon_def)
  have create: "pool s x = None" if "CreateMonitor_loop i l (pool s) = Some x" for i l x using CreateMonitor_loop_Some[OF that] by simp
  show ?thesis
    using assms(1,3-6)
    by (auto simp: act_def step_defs Inflate_init_def AtomicSetMark_def InitWithOwner_new SetHashCode_def SetOwner_def Let_def
        dest: restore create split: place_splits if_splits option.splits ObjectState.splits prod.splits)
qed

lemma pc_returns [simp]:
  "pc (thr (ret t r s) t) = Idle"
  "pc (thr (inflate_return t ik b s) t) \<noteq> At_Release q" "pc (thr (enter_retry t c s) t) \<noteq> At_Release q"
  "pc (thr (thin_return futex t tk s) t) \<noteq> At_Release q" "pc (thr (acquire_return t ak mid b s) t) \<noteq> At_Release q"
  "pc (thr (release_return t rk mid s) t) \<noteq> At_Release q"
  "pc (thr (HandleLightLockedState t c mark s) t) \<noteq> At_Release q" "pc (thr (HandleUnlockedState t c mark s) t) \<noteq> At_Release q"
proof -
  show r: "pc (thr (ret t r s) t) = Idle" for r s by (simp add: ret_def)
  then show e: "pc (thr (enter_retry t c s) t) \<noteq> At_Release q" for c by (simp add: enter_retry_def)
  show "pc (thr (inflate_return t ik b s) t) \<noteq> At_Release q" using r e by (cases ik) simp_all
  show "pc (thr (thin_return futex t tk s) t) \<noteq> At_Release q" by (cases tk) (simp_all add: thin_return_def)
  show "pc (thr (acquire_return t ak mid b s) t) \<noteq> At_Release q" using r by (cases ak) simp_all
  show "pc (thr (release_return t rk mid s) t) \<noteq> At_Release q" using r by (cases rk) simp_all
  show "pc (thr (HandleLightLockedState t c mark s) t) \<noteq> At_Release q" "pc (thr (HandleUnlockedState t c mark s) t) \<noteq> At_Release q"
    using r by (simp_all add: HandleLightLockedState_def HandleUnlockedState_def Let_def)
qed

lemma act_enqueues:
  assumes "act futex ch t s = Go s'" "pc (thr s' t) = At_Release (RelOwner (RK_Wait w c) mid)" "pool s' mid = Some m"
  shows "t \<in> set (waiters m)"
  using assms
  by (auto simp: act_def step_defs Inflate_init_def AtomicSetMark_def Let_def list_wait_def
      split: place_splits if_splits option.splits ObjectState.splits prod.splits)

lemma enqueued_act:
  assumes I: "sys_inv b s" and E: "enqueued s" and a: "act futex ch t s = Go s'"
  shows "enqueued s'"
  unfolding enqueued_def
proof (intro allI impI)
  fix u w c mid m' assume p: "pc (thr s' u) = At_Release (RelOwner (RK_Wait w c) mid)" and m': "pool s' mid = Some m'"
  show "u \<in> set (waiters m')"
  proof (cases "u = t")
    case True
    then show ?thesis using act_enqueues[OF a] p m' by simp
  next
    case False
    then have pu: "pc (thr s u) = At_Release (RelOwner (RK_Wait w c) mid)" using act_others[OF a] p by (simp add: others_same_def)
    then obtain m where m: "pool s mid = Some m" "owner m = Some u" using thread_fact[OF I, of u] by (auto simp: pc_of_def on_mon_def)
    then have "waiters m' = waiters m" using act_lists[OF a I m False m'] by simp
    then show ?thesis using E pu m by (auto simp: enqueued_def)
  qed
qed

lemma waiting_away:
  assumes I: "sys_inv b s" and w: "wait_mon (pc (thr s w)) = Some mid" and m: "pool s mid = Some m" "owner m = Some t" "mlock m = Some t" "w \<noteq> t"
  shows "away mid (pc (thr s w))"
proof -
  have f: "thread_inv b (marks s) (pool s) w (pc (thr s w))" using thread_fact[OF I, of w] by (simp add: pc_of_def)
  show ?thesis
  proof (cases "pc (thr s w)")
    case (At_Acquire q)
    then show ?thesis using f w m by (cases q) (auto simp: on_mon_def elim!: acquire_wait.elims)
  next
    case (At_Release q)
    then show ?thesis using f w m by (cases q) (auto simp: on_mon_def elim!: release_wait.elims)
  next
    case (At_Wait q)
    then show ?thesis using f w m by (cases q) (auto simp: on_mon_def)
  qed (use w in auto)
qed

lemma release_step:
  assumes I: "sys_inv b s" and E: "enqueued s" and a: "act futex ch t s = Go s'" and p: "pc (thr s t) = At_Release (RelOwner rk mid)"
    and m': "pool s' mid' = Some m'" "toWakeup m' \<noteq> []" "owner m' = None"
  shows "(\<exists>m. pool s mid' = Some m \<and> toWakeup m \<noteq> [] \<and> owner m = None) \<or> attended (thr s') mid'"
proof (cases "mid' = mid")
  case False
  then have "pool s' mid' = pool s mid'"
    using a p by (auto simp: act_def Release_owner_def SetOwner_def Let_def split: option.splits if_splits prod.splits)
  then show ?thesis using m' by metis
next
  case True
  obtain m where m: "pool s mid = Some m" "owner m = Some t" using a p by (auto simp: act_def Release_owner_def split: option.splits if_splits)
  obtain w ws us where wk: "list_wakeup (waiters m, toWakeup m) = (w, ws, us)" by (metis prod_cases3)
  have ok: "monitor_ok b (pc_of s) mid m" using monitor_fact[OF I m(1)] .
  have one: "recursiveCounter m - 1 = 0"
    using a p m m' True by (auto simp: act_def Release_owner_def SetOwner_def Let_def split: if_splits)
  have "toWakeup m' = us" using a p m m'(1) one True wk
    by (auto simp: act_def Release_owner_def SetOwner_def Let_def split: option.splits if_splits)
  then have "us \<noteq> []" using m' by simp
  then obtain x where x: "w = Some x" "x \<in> set (toWakeup m)" using list_queues.woken[OF wk] by auto
  have wm: "wait_mon (pc_of s x) = Some mid" using monitor_ok_lists(2)[OF ok, of x] x by simp
  then have "waitingMonitor (thr s x) = Some mid" using wm_fact[OF I, of x] by (simp add: wm_of_def)
  then have s': "pc (thr s' t) = At_Release (RelSignal rk mid x)"
    using a p m one wk x by (auto simp: act_def Release_owner_def SetOwner_def Let_def split: option.splits if_splits)
  have xt: "x \<noteq> t"
  proof
    assume "x = t"
    then obtain w' c where "rk = RK_Wait w' c" using wm p by (cases rk) (auto simp: pc_of_def)
    then have "t \<in> set (waiters m)" using E p m by (auto simp: enqueued_def)
    then show False using x(2) \<open>x = t\<close> monitor_ok_lists(1)[OF ok] by auto
  qed
  have "away mid (pc (thr s x))" using waiting_away[OF I _ m owner_fact(2)[OF ok m(2)] xt] wm by (simp add: pc_of_def)
  then have "away mid (pc (thr s' x))" using act_others[OF a] xt by (simp add: others_same_def)
  then show ?thesis using s' True unfolding attended_def
    by (intro disjI2 disjI1 exI[of _ t] exI[of _ x]) simp
qed

lemma wake_act:
  assumes I: "sys_inv b s" and W: "wake_ok s" and E: "enqueued s" and a: "act futex ch t s = Go s'"
  shows "wake_ok s'"
proof (rule wake_step[OF W act_others[OF a]])
  fix mid m' assume m': "pool s' mid = Some m'" "toWakeup m' \<noteq> []" "owner m' = None"
  let ?free = "\<exists>m. pool s mid = Some m \<and> toWakeup m \<noteq> [] \<and> owner m = None"
  show "?free \<and> kept mid (thr s t) (thr s' t) \<or> attended (thr s') mid"
  proof (cases "\<exists>rk mid. pc (thr s t) = At_Release (RelOwner rk mid)")
    case True
    then obtain rk mid0 where p: "pc (thr s t) = At_Release (RelOwner rk mid0)" by blast
    then have "kept mid (thr s t) (thr s' t)" by (intro kept_plain) (simp add: plain_def)
    then show ?thesis using release_step[OF I E a p m'] by blast
  next
    case False
    then have free: ?free using act_pool[OF a I _ m'] by blast
    then have att: "attended (thr s) mid" using W by (auto simp: wake_ok_def)
    show ?thesis
    proof (cases "plain (pc (thr s t))")
      case True
      then show ?thesis using free kept_plain by blast
    next
      case nonplain: False
      then consider mid0 where "away mid0 (pc (thr s t))" | mid0 where "setting mid0 (pc (thr s t))"
        | rk mid0 w where "pc (thr s t) = At_Release (RelSignal rk mid0 w)"
        by (auto simp: plain_def elim!: signalling.elims split: if_splits)
      then show ?thesis
      proof cases
        case 1
        then show ?thesis using away_step[OF I a 1, of mid] free by (auto simp: attended_def)
      next
        case 2
        then show ?thesis using set_step[OF a 2 m'(1,3)] free by blast
      next
        case 3
        then show ?thesis using signal_step[OF a 3 att] by blast
      qed
    qed
  qed
qed

section \<open>The property\<close>

lemma wake_silent:
  assumes "pool s' = pool s" "\<And>u. pc (thr s' u) = pc (thr s u)" "\<And>u. signalled (thr s u) \<Longrightarrow> signalled (thr s' u)"
    and "wake_ok s" "enqueued s"
  shows "wake_ok s' \<and> enqueued s'"
proof -
  have "\<forall>u. kept mid (thr s u) (thr s' u)" for mid using assms(2,3) kept_same by blast
  then have "attended (thr s) mid \<Longrightarrow> attended (thr s') mid" for mid using attended_kept by blast
  then show ?thesis using assms by (simp add: wake_ok_def enqueued_def)
qed

lemma wake_sys_step:
  assumes I: "sys_inv b s" and W: "wake_ok s" "enqueued s" and step: "sys_step futex s s'"
  shows "wake_ok s' \<and> enqueued s'"
  using step
proof cases
  case (run t ch)
  then show ?thesis using wake_act[OF I W] enqueued_act[OF I W(2)] by blast
next
  case (call t c)
  have "kept mid (thr s t) (thr s' t)" for mid using call by (intro kept_plain plain_places) simp
  moreover have "others_same t s s'" "pool s' = pool s" using call by (simp_all add: others_same_def)
  ultimately have "wake_ok s'" using wake_step[OF W(1), of t s'] by metis
  moreover have "start c \<noteq> At_Release q" for q by (cases c) simp_all
  then have "enqueued s'" using W(2) call by (auto simp: enqueued_def goto_def split: if_splits)
  ultimately show ?thesis by simp
next
  case (collector g obj)
  then show ?thesis using W by (intro wake_silent[OF _ _ _ W]) simp_all
next
  case (interrupt t)
  then show ?thesis by (intro wake_silent[OF _ _ _ W]) (auto simp: Interrupt_def SignalThread_def)
next
  case (clear t)
  then show ?thesis by (intro wake_silent[OF _ _ _ W]) (auto simp: ClearInterrupted_def)
next
  case (deflate mid m s'')
  then have "thr s' = thr s" "\<And>x m'. pool s' x = Some m' \<Longrightarrow> pool s x = Some m'"
    by (auto simp: DeflateInternal_def Let_def split: if_splits)
  then show ?thesis using W by (simp add: wake_ok_def enqueued_def)
qed

lemma reachable_wake: "reachable futex n s \<Longrightarrow> n < 2 ^ 62 \<Longrightarrow> wake_ok s \<and> enqueued s"
proof (induction rule: reachable.induct)
  case (init mk seed)
  then show ?case by (simp add: wake_ok_def enqueued_def init_sys_def init_thread_def)
next
  case (step n s s')
  then show ?case using wake_sys_step[OF reachable_inv[OF step.hyps(1)] _ _ step.hyps(2)] by simp
qed

lemma coming_goes:
  assumes "coming mid (thr s u)" "pool s mid = Some m" "mlock m = None" "suspendCount (thr s u) = 0"
  shows "\<exists>s'. act futex False u s = Go s'"
  using assms
  by (auto simp: coming.simps act_def Acquire_owner_def Acquire_trylock_def Acquire_count_def Acquire_lock_def Wait_safepoint_def
      DoWaitInternal_def split: place_splits acquire_cont.splits)

text \<open>C7: No notified thread is left behind: whenever, in a reachable state, the mutex of a monitor is free and
  its list of threads to wake up is not empty, a thread that waits on the monitor is on its way to the lock,
  and its next step is enabled unless the collector has suspended it. Only one of the notified threads is
  signalled by an exit; the property holds because this thread signals the next one when it gives the lock up
  again, and because a signal cannot reach a thread between its release of the lock and its sleep.\<close>

theorem notified_thread_not_stuck:
  assumes "reachable futex n s" "n < 2 ^ 62" "pool s mid = Some m" "toWakeup m \<noteq> []" "mlock m = None"
  shows "\<exists>u. coming mid (thr s u) \<and> wait_mon (pc (thr s u)) = Some mid \<and>
    (suspendCount (thr s u) > 0 \<or> (\<exists>s'. act futex False u s = Go s'))"
proof -
  have I: "sys_inv (n + 2 ^ 15) s" using reachable_inv[OF assms(1,2)] .
  have "owner m = None" using owner_fact(2)[OF monitor_fact[OF I assms(3)]] assms(5) by (cases "owner m") auto
  then have att: "attended (thr s) mid" using reachable_wake[OF assms(1,2)] assms(3,4) by (auto simp: wake_ok_def)
  have f: "thread_inv (n + 2 ^ 15) (marks s) (pool s) u (pc (thr s u))" for u using thread_fact[OF I, of u] by (simp add: pc_of_def)
  have "\<not> setting mid (pc (thr s u))" for u
    using f[of u] assms(3,5) by (auto simp: on_mon_def elim!: setting.elims)
  moreover have "signalling mid (pc (thr s u)) \<noteq> Some w" for u w
    using f[of u] assms(3,5) by (auto simp: on_mon_def elim!: signalling.elims split: if_splits)
  ultimately obtain u where u: "coming mid (thr s u)" using att by (auto simp: attended_def)
  moreover have "wait_mon (pc (thr s u)) = Some mid"
    using coming_away[OF u] by (cases "(mid, pc (thr s u))" rule: away.cases) auto
  ultimately show ?thesis using coming_goes[OF u assms(3,5), of futex] by blast
qed

text \<open>The threads 1 and 3 wait on an object, the thread 2 takes the lock, notifies both and gives it up.\<close>

definition runs :: "tid \<Rightarrow> nat \<Rightarrow> event list" where "runs t n = replicate n (Ev_Run t False)"

definition demo_notify :: "event list" where
  "demo_notify = demo_enter @ Ev_Call 1 (C_Wait 5 IS_WAITING False) # runs 1 10 @
     Ev_Call 3 (C_Enter 5 False) # runs 3 5 @ Ev_Call 3 (C_Wait 5 IS_WAITING False) # runs 3 6 @
     Ev_Call 2 (C_Enter 5 False) # runs 2 5 @ Ev_Call 2 (C_Notify 5 True) # runs 2 3 @ Ev_Call 2 (C_Exit 5) # runs 2 5"

lemma demo_notify_result:
  "map_option (\<lambda>s. map_option (\<lambda>m. (toWakeup m, mlock m)) (pool s 1)) (demo demo_notify) = Some (Some ([1], None))"
  by code_simp

lemma notified_thread_not_stuck_witness:
  "\<exists>(s :: sys) u. map_option toWakeup (pool s 1) = Some [1] \<and> coming 1 (thr s u) \<and> wait_mon (pc (thr s u)) = Some 1"
proof -
  obtain s where s: "demo demo_notify = Some s" using demo_notify_result by (cases "demo demo_notify") auto
  then obtain m where m: "pool s 1 = Some m" "toWakeup m = [1]" "mlock m = None" using demo_notify_result by auto
  have "length demo_notify = 43" by (simp add: demo_notify_def demo_enter_def runs_def)
  then have "reachable True 43 s" using demo_reachable[OF s] by metis
  then obtain u where "coming 1 (thr s u) \<and> wait_mon (pc (thr s u)) = Some 1"
    using notified_thread_not_stuck[of True 43 s 1 m] m by auto
  moreover have "map_option toWakeup (pool s 1) = Some [1]" using m by simp
  ultimately show ?thesis by blast
qed

end
