(* ===== verification/Monitors_Solo.thy ===== *)
theory Monitors_Solo
  imports Monitors_Props Monitors_Wakeup
begin

text \<open>
  A thread that runs alone gets a lock that is free or its own in a bounded number of steps, on every path of
  \<open>MonitorEnter\<close>.
\<close>

section \<open>Running alone\<close>

fun alone :: "bool \<Rightarrow> tid \<Rightarrow> nat \<Rightarrow> sys \<Rightarrow> sys option" where
  "alone futex t 0 s = Some s"
| "alone futex t (Suc k) s =
     (if pc (thr s t) = Idle then Some s else case act futex False t s of Go s' \<Rightarrow> alone futex t k s' | _ \<Rightarrow> None)"

definition entered :: "tid \<Rightarrow> obj \<Rightarrow> sys \<Rightarrow> bool" where
  "entered t obj s \<longleftrightarrow> pc (thr s t) = Idle \<and> res (thr s t) = R_State OK \<and> HoldsLock t obj s"

text \<open>\<open>enters futex t obj k s\<close>: within \<open>k\<close> steps the thread has entered.\<close>

definition enters :: "bool \<Rightarrow> tid \<Rightarrow> obj \<Rightarrow> nat \<Rightarrow> sys \<Rightarrow> bool" where
  "enters futex t obj k s \<longleftrightarrow> (\<exists>s'. alone futex t k s = Some s' \<and> entered t obj s')"

lemma enters_Suc: "act futex False t s = Go s' \<Longrightarrow> enters futex t obj k s' \<Longrightarrow> enters futex t obj (Suc k) s"
  by (cases "pc (thr s t) = Idle") (auto simp: enters_def act_def)

lemma enters_done: "entered t obj s \<Longrightarrow> enters futex t obj k s"
  by (cases k) (auto simp: enters_def entered_def)

lemma enters_mono: "enters futex t obj k s \<Longrightarrow> k \<le> j \<Longrightarrow> enters futex t obj j s"
proof (induction futex t k s arbitrary: j rule: alone.induct)
  case (1 futex t s)
  then show ?case using enters_done by (auto simp: enters_def)
next
  case (2 futex t k s)
  obtain i where j: "j = Suc i" "k \<le> i" using 2(3) by (cases j) auto
  show ?case
  proof (cases "pc (thr s t) = Idle")
    case True
    then show ?thesis using 2(2) by (intro enters_done) (auto simp: enters_def)
  next
    case False
    then obtain s' where s': "act futex False t s = Go s'" "enters futex t obj k s'"
      using 2(2) by (auto simp: enters_def split: outcome.splits)
    then show ?thesis using 2(1)[OF False s'(1,2) j(2)] enters_Suc j(1) by simp
  qed
qed

lemma thr_self [simp]:
  "thr (goto t p s) t = (thr s t)\<lparr>pc := p\<rparr>" "res (thr (ret t r s) t) = r"
  by (simp_all add: goto_def ret_def)

lemma enter_light:
  assumes "pc (thr s t) = At_Enter (EnterCas c (marks s (ec_obj c)) new)" "GetState new = STATE_LIGHT_LOCKED" "GetThreadId new = t"
  shows "enters futex t (ec_obj c) 1 s"
proof -
  let ?s = "ret t (R_State OK) (PushLocalObjectLocked t (ec_obj c) (s\<lparr>marks := (marks s)(ec_obj c := new)\<rparr>))"
  have "act futex False t s = Go ?s" using assms(1) by (simp add: act_def MonitorEnter_cas_def AtomicSetMark_def)
  moreover have "entered t (ec_obj c) ?s" using assms(2,3) by (simp add: entered_def HoldsLock_def)
  ultimately show ?thesis using enters_Suc[OF _ enters_done] by simp
qed

lemma enter_heavy_own:
  assumes "pc (thr s t) = At_Enter (EnterLoop c)" "GetState (marks s (ec_obj c)) = STATE_HEAVY_LOCKED"
    and m: "pool s (GetMonitorId (marks s (ec_obj c))) = Some m" "owner m = Some t"
  shows "enters futex t (ec_obj c) 3 s"
proof -
  let ?id = "GetMonitorId (marks s (ec_obj c))"
  let ?s1 = "goto t (At_Enter (EnterLookup c ?id)) s"
  let ?s2 = "goto t (At_Acquire (AcqOwner (AK_Enter c) ?id)) ?s1"
  let ?s3 = "ret t (R_State OK) (PushLocalObjectLocked t (ec_obj c) (put_monitor ?id (m\<lparr>recursiveCounter := recursiveCounter m + 1\<rparr>) ?s2))"
  have "act futex False t s = Go ?s1" using assms(1,2) by (simp add: act_def MonitorEnter_loop_def)
  moreover have "act futex False t ?s1 = Go ?s2" using m by (simp add: act_def HandleHeavyLockedState_def LookupMonitor_def)
  moreover have "act futex False t ?s2 = Go ?s3" using m by (simp add: act_def Acquire_owner_def)
  moreover have "entered t (ec_obj c) ?s3" using m assms(2) by (simp add: entered_def HoldsLock_def LookupMonitor_def)
  ultimately show ?thesis using enters_done enters_Suc by (metis numeral_3_eq_3)
qed

lemma enter_heavy_free:
  assumes "pc (thr s t) = At_Enter (EnterLoop c)" "GetState (marks s (ec_obj c)) = STATE_HEAVY_LOCKED"
    and m: "pool s (GetMonitorId (marks s (ec_obj c))) = Some m" "owner m = None" "mlock m = None"
  shows "enters futex t (ec_obj c) 5 s"
proof -
  let ?id = "GetMonitorId (marks s (ec_obj c))"
  let ?s1 = "goto t (At_Enter (EnterLookup c ?id)) s"
  let ?s2 = "goto t (At_Acquire (AcqOwner (AK_Enter c) ?id)) ?s1"
  let ?s3 = "goto t (At_Acquire (AcqTry (AK_Enter c) ?id)) ?s2"
  let ?s4 = "goto t (At_Acquire (AcqSet False (AK_Enter c) ?id)) (put_monitor ?id (m\<lparr>mlock := Some t\<rparr>) ?s3)"
  let ?m = "m\<lparr>mlock := Some t, owner := Some t, recursiveCounter := recursiveCounter m + 1\<rparr>"
  let ?s5 = "ret t (R_State OK) (PushLocalObjectLocked t (ec_obj c) (AddMonitor t (put_monitor ?id ?m ?s4)))"
  have "act futex False t s = Go ?s1" using assms(1,2) by (simp add: act_def MonitorEnter_loop_def)
  moreover have "act futex False t ?s1 = Go ?s2" using m by (simp add: act_def HandleHeavyLockedState_def LookupMonitor_def)
  moreover have "act futex False t ?s2 = Go ?s3" using m by (simp add: act_def Acquire_owner_def)
  moreover have "act futex False t ?s3 = Go ?s4" using m by (simp add: act_def Acquire_trylock_def)
  moreover have "act futex False t ?s4 = Go ?s5" using m by (simp add: act_def Acquire_set_def SetOwner_def Let_def)
  moreover have "entered t (ec_obj c) ?s5" using assms(2) by (simp add: entered_def HoldsLock_def LookupMonitor_def)
  ultimately have "enters futex t (ec_obj c) (Suc (Suc (Suc (Suc (Suc 0))))) s" using enters_done enters_Suc by metis
  then show ?thesis by (simp add: numeral_eq_Suc)
qed

text \<open>Inflation of an object that no other thread has locked.\<close>

lemma inflate_alone:
  assumes p: "pc (thr s t) = At_Inflate (InflateLoad ik)" "inflate_thread t ik = t" "\<not> FOR_OTHER_THREAD ik"
    and old: "marks s (inflate_obj ik) = old" "GetState old \<in> {STATE_UNLOCKED, STATE_HASHED} \<or> GetState old = STATE_LIGHT_LOCKED \<and> GetThreadId old = t"
    and free: "mid0 < MAX_MONITOR_ID" "pool s mid0 = None"
  shows "\<exists>mid m s2. (\<forall>k. enters futex t obj k (inflate_return t ik True s2) \<longrightarrow> enters futex t obj (Suc (Suc (Suc k))) s) \<and>
    marks s2 (inflate_obj ik) = DecodeFromMonitor mid old \<and> GetMonitorId (DecodeFromMonitor mid old) = mid \<and>
    pool s2 mid = Some m \<and> owner m = Some t"
proof -
  obtain mid where mid: "CreateMonitor_loop 0 (lastId s) (pool s) = Some mid"
    using CreateMonitor_loop_full[of "lastId s" "pool s" mid0] free by (cases "CreateMonitor_loop 0 (lastId s) (pool s)") auto
  have idm: "GetMonitorId (DecodeFromMonitor mid old) = mid"
    using monitor_id_bound CreateMonitor_loop_Some[OF mid] by (intro decode_fields) blast
  let ?m0 = "\<lparr>mobj = inflate_obj ik, owner = Some t, waiters = [], toWakeup = [], recursiveCounter = 1,
     mlock = Some t, hashCode = 0, waitersCounter = 0\<rparr> :: Monitor"
  let ?m = "if GetState old = STATE_LIGHT_LOCKED then ?m0\<lparr>recursiveCounter := ucast (GetLockCount old)\<rparr>
    else if GetState old = STATE_HASHED then ?m0\<lparr>hashCode := GetHash old\<rparr> else ?m0"
  let ?s1 = "goto t (At_Inflate (InflateCreate ik old)) s"
  let ?s2 = "goto t (At_Inflate (InflateCas ik old mid)) (put_monitor mid ?m (?s1\<lparr>lastId := mid\<rparr>))"
  let ?s3 = "AddMonitor t (?s2\<lparr>marks := (marks s)(inflate_obj ik := DecodeFromMonitor mid old)\<rparr>)"
  have put: "put_monitor mid m2 (put_monitor mid m1 x) = put_monitor mid m2 x" for m1 m2 x by (simp add: put_monitor_def)
  have last: "lastId ?s1 = lastId s" by (simp add: goto_def)
  have "act futex False t s = Go ?s1" using p old by (auto simp: act_def Inflate_load_def)
  moreover have "act futex False t ?s1 = Go ?s2"
    using mid p(2,3) old last by (auto simp: act_def Inflate_create_def InitWithOwner_new Inflate_init_def SetHashCode_def put)
  moreover have "act futex False t ?s2 = Go (inflate_return t ik True ?s3)"
    using old p(2) by (simp add: act_def TryAddMonitor_def AtomicSetMark_def)
  ultimately have "\<forall>k. enters futex t obj k (inflate_return t ik True ?s3) \<longrightarrow> enters futex t obj (Suc (Suc (Suc k))) s"
    using enters_Suc by blast
  moreover have "marks ?s3 (inflate_obj ik) = DecodeFromMonitor mid old" "pool ?s3 mid = Some ?m" "owner ?m = Some t" by simp_all
  ultimately show ?thesis using idm by blast
qed

section \<open>The property\<close>

text \<open>C14: A call of \<open>MonitorEnter\<close> that runs without interference returns with the lock after at most seven
  steps, when the object is not locked, or locked by the thread itself, and a monitor number is left: on the
  lightweight path, through inflation of a hashed object, through inflation of a lightweight lock whose
  count is at its maximum and the second pass over the inflated lock, and on a heavyweight lock that is free
  or the thread's own. The mutex of a heavyweight lock without owner has to be free as well: between the two
  steps of a release it is not.\<close>

theorem enter_alone_terminates:
  assumes "reachable futex n s" "n < 2 ^ 62" "valid_tid t" "pc (thr s t) = start (C_Enter obj False)"
    and "locks_of s obj = None \<or> HoldsLock t obj s"
    and "\<forall>m. GetMonitorFromObject (Some obj) s = Some m \<longrightarrow> owner m = None \<longrightarrow> mlock m = None"
    and "mid0 < MAX_MONITOR_ID" "pool s mid0 = None"
  shows "enters futex t obj 7 s"
proof -
  have I: "sys_inv (n + 2 ^ 15) s" using reachable_inv[OF assms(1,2)] .
  let ?c = "EC obj False False 0" and ?v = "marks s obj"
  have p: "pc (thr s t) = At_Enter (EnterLoop ?c)" using assms(4) by simp
  show ?thesis
  proof (cases "GetState ?v")
    case STATE_UNLOCKED
    let ?new = "DecodeFromLightLock t 1 ?v"
    let ?s = "goto t (At_Enter (EnterCas ?c ?v ?new)) s"
    have "act futex False t s = Go ?s" using p STATE_UNLOCKED by (simp add: act_def MonitorEnter_loop_def HandleUnlockedState_def Let_def)
    moreover have "enters futex t obj 1 ?s" using enter_light[of ?s t ?c ?new futex] light_lock_word[OF assms(3), of 1] by simp
    ultimately show ?thesis using enters_mono[OF enters_Suc, of futex t s ?s obj 1 7] by simp
  next
    case STATE_HASHED
    let ?s = "goto t (At_Inflate (InflateLoad (IK_Enter ?c))) s"
    have step: "act futex False t s = Go ?s" using p STATE_HASHED by (simp add: act_def MonitorEnter_loop_def)
    obtain mid m s2 where s2: "\<forall>k. enters futex t obj k (inflate_return t (IK_Enter ?c) True s2) \<longrightarrow> enters futex t obj (Suc (Suc (Suc k))) ?s"
      "marks s2 obj = DecodeFromMonitor mid ?v" "GetMonitorId (DecodeFromMonitor mid ?v) = mid" "pool s2 mid = Some m" "owner m = Some t"
      using inflate_alone[of ?s t "IK_Enter ?c" ?v mid0 futex obj] STATE_HASHED assms(7,8) by auto
    have "entered t obj (inflate_return t (IK_Enter ?c) True s2)"
      using s2(2-5) by (simp add: entered_def HoldsLock_def LookupMonitor_def)
    then have "enters futex t obj (Suc (Suc (Suc 0))) ?s" using s2(1) enters_done by blast
    then show ?thesis using enters_mono[OF enters_Suc[OF step], of obj _ 7] by simp
  next
    case STATE_LIGHT_LOCKED
    then have own: "GetThreadId ?v = t" using assms(5) lock_at_facts(3)[of s obj] by (simp add: HoldsLock_def)
    show ?thesis
    proof (cases "GetLockCount ?v + 1 < LIGHT_LOCK_LOCK_MAX_COUNT")
      case True
      let ?new = "DecodeFromLightLock t (GetLockCount ?v + 1) ?v"
      let ?s = "goto t (At_Enter (EnterCas ?c ?v ?new)) s"
      have "act futex False t s = Go ?s" using p STATE_LIGHT_LOCKED own True by (simp add: act_def MonitorEnter_loop_def HandleLightLockedState_def Let_def)
      moreover have "enters futex t obj 1 ?s"
        using enter_light[of ?s t ?c ?new futex] light_lock_word[OF assms(3) next_count(2,3)[OF True]] by simp
      ultimately show ?thesis using enters_mono[OF enters_Suc, of futex t s ?s obj 1 7] by simp
    next
      case False
      let ?s = "goto t (At_Inflate (InflateLoad (IK_EnterMax ?c))) s"
      have step: "act futex False t s = Go ?s" using p STATE_LIGHT_LOCKED own False by (simp add: act_def MonitorEnter_loop_def HandleLightLockedState_def)
      obtain mid m s2 where s2: "\<forall>k. enters futex t obj k (inflate_return t (IK_EnterMax ?c) True s2) \<longrightarrow> enters futex t obj (Suc (Suc (Suc k))) ?s"
        "marks s2 obj = DecodeFromMonitor mid ?v" "GetMonitorId (DecodeFromMonitor mid ?v) = mid" "pool s2 mid = Some m" "owner m = Some t"
        using inflate_alone[of ?s t "IK_EnterMax ?c" ?v mid0 futex obj] STATE_LIGHT_LOCKED own assms(7,8) by auto
      have "enters futex t obj 3 (goto t (At_Enter (EnterLoop ?c)) s2)"
        using enter_heavy_own[of "goto t (At_Enter (EnterLoop ?c)) s2" t ?c m futex] s2(2-5) by simp
      then have "enters futex t obj (Suc (Suc (Suc 3))) ?s"
        using s2(1)[rule_format, of 3] by (simp only: inflate_return.simps enter_retry_def enter_call.sel if_False)
      then have "enters futex t obj (Suc (Suc (Suc (Suc 3)))) s" by (rule enters_Suc[OF step])
      then show ?thesis by simp
    qed
  next
    case STATE_HEAVY_LOCKED
    then have pub: "published (marks s) (GetMonitorId ?v) obj" by (simp add: published_def)
    then obtain m where m: "pool s (GetMonitorId ?v) = Some m" using published_fact[OF I] by blast
    then consider "owner m = Some t" | "owner m = None" "mlock m = None"
      using assms(5,6) STATE_HEAVY_LOCKED lock_published[OF pub m]
      by (cases "owner m") (auto simp: HoldsLock_def LookupMonitor_def GetMonitorFromObject_def monitor_lock_def)
    then show ?thesis
    proof cases
      case 1
      show ?thesis using enters_mono[OF enter_heavy_own[OF p, of m futex], of 7] STATE_HEAVY_LOCKED m 1 by simp
    next
      case 2
      show ?thesis using enters_mono[OF enter_heavy_free[OF p, of m futex], of 7] STATE_HEAVY_LOCKED m 2 by simp
    qed
  next
    case STATE_GC
    then show ?thesis using mark_fact[OF I, of obj] by (simp add: mark_ok_def)
  qed
qed

lemma enter_alone_terminates_witness: "\<exists>s. locks_of s 5 = Some (1, 1) \<and> enters True 1 5 7 (goto 1 (start (C_Enter 5 False)) s)"
proof -
  obtain s where s: "reachable True 3 s" "HoldsLock 1 5 s" "locks_of s 5 = Some (1, 1)" "demo demo_enter = Some s" by (rule demo_enter_run)
  have r: "map_option (\<lambda>s. (pc (thr s 1), suspendCount (thr s 1), pool s 0, GetState (marks s 5))) (demo demo_enter) = Some (Idle, 0, None, STATE_LIGHT_LOCKED)" by code_simp
  have v: "valid_tid 1" "0 < MAX_MONITOR_ID" by code_simp+
  let ?s = "goto 1 (start (C_Enter 5 False)) s"
  have "sys_step True s ?s" using v r s(4) by (intro sys_step.call) simp_all
  then have "reachable True 4 ?s" using reachable.step[OF s(1)] by (simp add: eval_nat_numeral)
  moreover have "HoldsLock 1 5 ?s" using s(2) by (simp add: HoldsLock_def LookupMonitor_def Let_def cong: ObjectState.case_cong)
  moreover have "pool ?s 0 = None" "GetState (marks ?s 5) = STATE_LIGHT_LOCKED" using r s(4) by simp_all
  ultimately have "enters True 1 5 7 ?s"
    using enter_alone_terminates[of True 4 ?s 1 5 0] v by (simp add: GetMonitorFromObject_def)
  then show ?thesis using s(3) by blast
qed

section \<open>Runs that show what the code does not mean to do\<close>

text \<open>Thread 2 finds the lock taken and is about to inflate it for its owner; before it reads the mark word again,
  thread 1 gives the lock up and the object gets the hash code 65536. \<open>InflateThinLock\<close> takes the thread number
  from the word without looking at its state, finds its own number 2 there and suspends itself: nobody
  resumes it.\<close>

definition demo_suspend :: "event list" where
  "demo_suspend = demo_enter @ Ev_Call 2 (C_Hash 5) # Ev_Run 2 False # Ev_Call 1 (C_Exit 5) # runs 1 2 @ Ev_Call 1 (C_Hash 5) # runs 1 3 @ runs 2 3"

definition demo_seed :: "u32 \<Rightarrow> event list \<Rightarrow> sys option" where "demo_seed seed evs = play True evs (init_sys (\<lambda>_. 0) seed)"

lemma demo_seed_reachable: "demo_seed seed evs = Some s \<Longrightarrow> reachable True (length evs) s"
proof -
  have "GetState 0 = STATE_UNLOCKED" by code_simp
  then have "reachable True 0 (init_sys (\<lambda>_. 0) seed)" by (intro reachable.init) simp
  then show "demo_seed seed evs = Some s \<Longrightarrow> reachable True (length evs) s"
    using reachable_run[of True 0 _ "length evs" s] play_run by (simp add: demo_seed_def)
qed

lemma demo_suspend_result:
  "map_option (\<lambda>s. (pc (thr s 2), suspendCount (thr s 2), pc (thr s 1), locks_of s 5)) (demo_seed 65536 demo_suspend) =
   Some (At_Thin (ThinRun (TK_Hash 5) (Some 2)), 1, Idle, None)"
  by code_simp

theorem thin_inflation_suspends_itself:
  "\<exists>s. reachable True 15 s \<and> pc (thr s 2) = At_Thin (ThinRun (TK_Hash 5) (Some 2)) \<and> pc (thr s 1) = Idle \<and>
     suspendCount (thr s 2) = 1 \<and> locks_of s 5 = None \<and> act True False 2 s = Blocked \<and> act True True 2 s = Blocked"
proof -
  obtain s where s: "demo_seed 65536 demo_suspend = Some s" using demo_suspend_result by (cases "demo_seed 65536 demo_suspend") auto
  have "length demo_suspend = 15" by (simp add: demo_suspend_def demo_enter_def runs_def)
  then have "reachable True 15 s" using demo_seed_reachable[OF s] by metis
  then show ?thesis using demo_suspend_result s by (intro exI[of _ s]) (simp add: act_def InflateThinLock_run_def)
qed

text \<open>The same lock of the same thread, before and after its inflation: \<open>GetLockOwnerOsThreadID\<close> answers with the
  internal number of the owner first and with the number of the operating system afterwards.\<close>

theorem owner_number_depends_on_state:
  "map_option (\<lambda>s. (locks_of s 5, GetLockOwnerOsThreadID (\<lambda>t. t + 4000) (Some 5) s)) (demo demo_enter) = Some (Some (1, 1), 1) \<and>
   map_option (\<lambda>s. (locks_of s 5, GetLockOwnerOsThreadID (\<lambda>t. t + 4000) (Some 5) s)) (demo demo_hash) = Some (Some (1, 1), 4001)"
  by code_simp

text \<open>A thread locks two objects and gives up the first: \<open>PopLocalObjectLocked\<close> removes the second from the list of
  locked objects.\<close>

theorem pop_removes_the_last_object:
  "map_option (\<lambda>s. (locks_of s 5, locks_of s 6, localObjectsLocked (thr s 1)))
     (demo (demo_enter @ Ev_Call 1 (C_Enter 6 False) # runs 1 2 @ Ev_Call 1 (C_Exit 5) # runs 1 2)) = Some (None, Some (1, 1), [5])"
  by code_simp

text \<open>A thread tries to enter its own lightweight lock at the maximal count: the lock is inflated, and the call still
  returns \<open>ILLEGAL\<close>.\<close>

theorem trylock_fails_at_maximum:
  assumes "GetState mark = STATE_LIGHT_LOCKED" "GetThreadId mark = t" "GetLockCount mark + 1 = LIGHT_LOCK_LOCK_MAX_COUNT" "ec_trylock c"
  shows "HandleLightLockedState t c mark s = goto t (At_Inflate (InflateLoad (IK_EnterMax c))) s \<and>
    inflate_return t (IK_EnterMax c) b s1 = ret t (R_State ILLEGAL) s1"
  using assms by (simp add: HandleLightLockedState_def enter_retry_def)

end
