(* ===== verification/Spec2Isabelle.thy ===== *)
theory Spec2Isabelle
  imports Spill_Fills_Props Leb128 Emitter_Correct Data_Types Bounds_Range Utf_Sound Interpreter_Refs Monitors_Solo
begin

text \<open>
  Verification of core parts of the ArkCompiler static runtime (\<^verbatim>\<open>src/static_core\<close>).

  \<^bold>\<open>The program.\<close> ArkCompiler runs typed bytecode from panda files. A method is interpreted
  (\<^verbatim>\<open>runtime/interpreter\<close>) until it is hot; the compiler (\<^verbatim>\<open>compiler/optimizer\<close>) builds a graph of typed
  instructions from the same bytecode, folds constants and analyses value ranges on it, and generates code.
  Objects have a mark word in their header, which is their lock while there is no contention, and refers to
  a monitor from a pool otherwise (\<^verbatim>\<open>runtime/monitor.cpp\<close>). Tools write bytecode with the emitter
  (\<^verbatim>\<open>libarkfile/bytecode_emitter.cpp\<close>), which chooses formats and resolves jumps. Files hold numbers in LEB128 and strings in
  modified UTF-8, which the runtime converts from and to UTF-16 (\<^verbatim>\<open>libarkbase/utils\<close>).

  \<^bold>\<open>Theories.\<close>
  \<^item> \<open>Ark_Prelude\<close>: names for the machine integer types, theorem collections, facts on words and lists.
  \<^item> \<open>Leb128\<close>: the codec of \<^verbatim>\<open>libarkbase/utils/leb128.h\<close> and the bit counting it uses, at every width, and
    the locale \<open>codec\<close> with its interpretations: round trips, sizes, the unrolled decoder, exactness of the
    values reported as complete.
  \<^item> \<open>Utf\<close>, \<open>Utf_Sound\<close>: \<^verbatim>\<open>utf.cpp\<close> and the inline functions of \<^verbatim>\<open>utf.h\<close>, on explicit buffers where a read out
    of range has no value: round trips of whole strings (locale \<open>string_codec\<close>), totality of decoding on
    arbitrary bytes and from every start, conversion of regions against an independent definition of code points and
    their bytes (\<open>code_points\<close>, \<open>utf8_bytes\<close>), lexicographic comparison, decimal conversion.
  \<^item> \<open>Data_Types\<close>: the types of the graph (\<^verbatim>\<open>ir/datatype.h\<close>) and condition codes (\<^verbatim>\<open>ir/inst.h\<close>).
  \<^item> \<open>Bounds_Range\<close>: class \<open>BoundsRange\<close> of \<^verbatim>\<open>analysis/bounds_analysis.cpp\<close>: every transfer function covers the
    result of the instruction (locale \<open>sound_transfer\<close>), narrowing by a condition keeps the values that satisfy
    it; where an operation is not sound, at the least value, the exception is stated.
  \<^item> \<open>Const_Folding\<close>, \<open>Const_Folding_Sound\<close>: all functions of \<^verbatim>\<open>optimizations/const_folding.cpp\<close> and the interning of
    constants (\<^verbatim>\<open>ir/graph.h\<close>): the new constant denotes the value of the instruction (locale \<open>int_folding\<close>).
  \<^item> \<open>Interpreter\<close>, \<open>Interpreter_Step\<close>, \<open>Interpreter_Ops\<close>, \<open>Interpreter_Refs\<close>: registers with tags
    (\<^verbatim>\<open>vregister.h\<close>), 227 handlers of \<^verbatim>\<open>interpreter-inl.h\<close>, the profile of branches and throws
    (\<^verbatim>\<open>jit/profiling_data.h\<close>) and the dispatch loop: what a handler may change and where it can end, what it
    computes (locales \<open>word_op\<close> and \<open>typed_slot\<close>), and the invariant that the garbage collector relies on:
    exactly the registers and array elements with the object tag hold references.
  \<^item> \<open>Mark_Word\<close>: \<^verbatim>\<open>mark_word.h\<close> on 32 bits, what each operation keeps bit by bit, and the generator of hash codes
    (\<^verbatim>\<open>object_header.h\<close>).
  \<^item> \<open>Thread_List\<close>: the queues of waiting threads of a monitor as pointer operations, related to operations on
    lists, and the interface of the monitors to them (locale \<open>waiting_queues\<close>).
  \<^item> \<open>Monitors\<close>: the state machine of the monitors: \<^verbatim>\<open>monitor.cpp\<close>, \<^verbatim>\<open>monitor_pool.cpp\<close>, \<open>GetHashCodeMTMulti\<close> of
    \<^verbatim>\<open>object_header.cpp\<close> and \<open>SuspendAndWaitThreadByInternalThreadId\<close> of \<^verbatim>\<open>mt_thread_manager.cpp\<close>. Each thread has a
    program counter for every place between two accesses to shared state; \<open>act\<close> is the step of a thread,
    \<open>sys_step\<close> the step of the system with the calls, interrupts, the collector's operations on mark words and
    deflation while all threads are stopped.
  \<^item> \<open>Monitors_Inv\<close>: the invariant, its stability under the steps of other threads, one preservation lemma per
    class of steps. \<open>Monitors_Spec\<close>: the abstract reentrant lock with waiting, and the simulation per class.
    \<open>Monitors_Steps\<close>, \<open>Monitors_Locks\<close>: one lemma per program counter. \<open>Monitors_Correct\<close>: the environment,
    reachable states, the locale \<open>simulation\<close> for runs, executable schedules. \<open>Monitors_Props\<close>: refinement,
    invariant, exclusion, hash codes, faults. \<open>Monitors_Wakeup\<close>: no notified thread is forgotten.
    \<open>Monitors_Solo\<close>: bounded entering, and the runs that show what the code does not mean to do.
  \<^item> \<open>Emitter\<close>: \<^verbatim>\<open>bytecode_emitter.h\<close>, \<^verbatim>\<open>bytecode_emitter.cpp\<close>, the functions generated from
    \<^verbatim>\<open>templates/bytecode_emitter_gen.h.erb\<close>, and the jumps of \<^verbatim>\<open>isa/isa.yaml\<close> with their formats. \<open>Emitter_Layout\<close>: what
    the operations do to the bytes of a jump. \<open>Emitter_Pass\<close>: layouts, that is the instructions, jumps with their
    shapes, and labels in order, and the pass over a layout; \<open>Emitter_Build\<close>: the emitter refines it (locale \<open>layout_pass\<close>,
    interpreted by the two calls of \<open>ReserveSpaceForOffsets\<close>). \<open>Emitter_Fit\<close>: when the estimates of the first pass bound the
    final distances. \<open>Emitter_Program\<close>: programs of calls, and what code means that implements one. \<open>Emitter_Fields\<close>:
    the operands of the base instruction set, of every format and group of formats and with 64-bit immediates, are
    read back. \<open>Emitter_Correct\<close>: correctness of \<open>Build\<close>, its errors, and the
    program for which two passes are not enough.
  \<^item> \<open>Spill_Fills\<close>: \<^verbatim>\<open>ir/locations.h\<close>, \<^verbatim>\<open>ir/spill_fill_data.h\<close>, the class \<open>SpillFillInst\<close>, and the resolver of the moves of the
    register allocator, \<^verbatim>\<open>optimizations/regalloc/spill_fills_resolver.cpp\<close>. \<open>Spill_Fills_Chains\<close>: chains of moves and the
    breaking of cycles on sets of moves; \<open>Spill_Fills_Table\<close>: the meaning of moves, and the loop over the tables as
    such a chain; \<open>Spill_Fills_Phases\<close>: the loops of \<open>Reorder\<close>; \<open>Spill_Fills_Correct\<close>: the tables that are collected, and
    \<open>Resolve\<close> as a parallel assignment of locations; \<open>Spill_Fills_Props\<close>: conflicts, the register pairs of 64-bit values on
    32-bit targets, where a move writes two cells (\<open>run_cells\<close>) and an instruction that is left as it is must not lose
    a half, the pass over a graph, and the 256 readers that a byte cannot count.
  \<^item> This theory: folding and interpreter give the same values.

  \<^bold>\<open>Interaction.\<close> The interpreter's handlers and the folding functions are related over \<open>Data_Types\<close> (below). The
  monitors use the operations of \<open>Mark_Word\<close> and the lists of \<open>Thread_List\<close>; the number of a thread fits the mark
  word by \<open>valid_tid\<close>, the number of a monitor by the bound of the pool. The emitter measures the width of an operand with
  \<open>MinimumBitsToStore\<close> of \<open>Leb128\<close>.

  \<^bold>\<open>Conventions.\<close> Integers have the width of the source and wrap. Errors are values: \<open>None\<close> or \<open>Fatal\<close> where the code
  ends the process or reads out of a buffer, a constructor of the result type where it reports an error.
  Loops are structural recursion, recursion with a measure, or partial functions that are shown to have a value
  (\<open>RemoveIf\<close>, the decoders of \<open>Utf\<close>). The walk along a cycle of moves has the size of the table as fuel, which the source
  asserts and the properties of the resolver show to be enough. The code of an emitter is assumed to stay below 2^30 bytes, so that program counters do
  not wrap. Steps of the monitors have no fuel; counts of 64 bits do not wrap in the
  first 2^62 steps of a run, which the properties assume. \<open>alone\<close> runs a thread for a number of steps, and
  \<open>enter_alone_terminates\<close> shows that seven are enough.

  \<^bold>\<open>Parameters.\<close> Floating point arithmetic on bit patterns, the runtime's answers to the compiler, the size of an
  object pointer, the groups of instructions that are not jumps, the environment of a method, whether the build uses futexes, has assertions
  or the large frames of the bytecode libraries, and the numbers of the operating system are arguments of the definitions.

  \<^bold>\<open>Not modelled.\<close> The garbage collector and the heap: addresses, barriers and moving objects are outside the
  state; an object is a number. Of the interpreter: calls, accesses to fields of objects, allocation, type checks,
  the handlers for dynamic languages, the effect on accumulator and heap of code that is entered by on-stack
  replacement, and the dispatch table, which is generated. Of the emitter: the prefixed instructions of plugins. Of the monitors: the release of the
  locks of a thread that ends, tracing, events for the debugger and scheduling hints. Of the compiler: the passes
  besides folding, ranges and the ordering of moves (so of the register allocator the intervals and the assignment
  of registers), the construction of the graph, code generation (whose encoders call the vixl and asmjit
  libraries, which are not in the repository) and the LLVM backend. Not modelled either: the bytecode verifier and the
  class linker, which need class loading; the panda file format beyond its numbers and strings; assembler, disassembler,
  tools and drivers (input and output); the ETS plugin (an interface layer over class linker and heap); the
  directories outside \<^verbatim>\<open>static_core\<close>, which belong to the dynamic tool chain and repeat older versions of the same
  libraries.
\<close>

section \<open>Folded constants are what the interpreter computes\<close>

text \<open>A folding function and the handler of the same instruction.\<close>

definition folded_int32 :: "FloatOps \<Rightarrow> ((Graph \<Rightarrow> FoldInst \<Rightarrow> Folding \<times> Graph) \<times> handler) list" where
  "folded_int32 fo =
    [(ConstFoldingAdd fo, HandleAdd2), (ConstFoldingSub fo, HandleSub2), (ConstFoldingMul fo, HandleMul2),
     (ConstFoldingAnd, HandleAnd2), (ConstFoldingOr, HandleOr2), (ConstFoldingXor, HandleXor2),
     (ConstFoldingShl, HandleShl2), (ConstFoldingShr, HandleShr2), (ConstFoldingAShr, HandleAshr2)]"

definition folded_int64 :: "FloatOps \<Rightarrow> ((Graph \<Rightarrow> FoldInst \<Rightarrow> Folding \<times> Graph) \<times> handler) list" where
  "folded_int64 fo =
    [(ConstFoldingAdd fo, HandleAdd2Wide), (ConstFoldingSub fo, HandleSub2Wide), (ConstFoldingMul fo, HandleMul2Wide),
     (ConstFoldingAnd, HandleAnd2Wide), (ConstFoldingOr, HandleOr2Wide), (ConstFoldingXor, HandleXor2Wide),
     (ConstFoldingShl, HandleShl2Wide), (ConstFoldingShr, HandleShr2Wide), (ConstFoldingAShr, HandleAshr2Wide)]"

definition folded_div :: "FloatOps \<Rightarrow> ((Graph \<Rightarrow> FoldInst \<Rightarrow> Folding \<times> Graph) \<times> handler \<times> handler) list" where
  "folded_div fo = [(ConstFoldingDiv fo, HandleDiv2, HandleDiv2Wide), (ConstFoldingMod fo, HandleMod2, HandleMod2Wide)]"

text \<open>The handler ends normally, and the constant that replaces the instruction denotes the number the
  handler leaves in the accumulator.\<close>

definition agrees :: "DataType \<Rightarrow> Interp \<Rightarrow> Folding \<times> Graph \<Rightarrow> Interp option \<Rightarrow> bool" where
  "agrees t s folded after \<longleftrightarrow>
     (\<exists>c g' s'. folded = (Replaced (Constant c), g') \<and> after = Some s' \<and> exception s' = exception s \<and> denotes t c (ival t (acc s')))"

lemma agreesI:
  assumes "acc_gets t d env i s f x y after" "folds_to g t r (f x y)" "d \<longrightarrow> y \<noteq> 0"
  shows "agrees t s r after"
  using assms by (auto simp: agrees_def folds_to_def acc_gets_def MoveToNextInst_def)

lemma division_agreesI:
  assumes "acc_gets t True env i s f x y after" "y \<noteq> 0 \<Longrightarrow> folds_to g t r (f x y)" "y = 0 \<Longrightarrow> r = (Kept, g)"
  shows "if y = 0 then r = (Kept, g) \<and> after = Some (ThrowTo ArithmeticException env i s) else agrees t s r after"
  using assms by (auto simp: acc_gets_def intro: agreesI[OF assms(1)])

lemma shift_by_width [simp]: "shift_by INT32 y = nat (y mod 32)" "shift_by INT64 y = nat (y mod 64)"
  by (simp_all add: shift_by_def)

lemma folded_ops:
  assumes "t \<in> {INT32, INT64}" "itype inst = t" "input0 inst = Constant c0" "input1 inst = Constant c1"
    and "canonical t c0 x" "canonical t c1 y"
  shows "folds_to g t (ConstFoldingAdd fo g inst) (x + y)"
    and "folds_to g t (ConstFoldingSub fo g inst) (x - y)"
    and "folds_to g t (ConstFoldingMul fo g inst) (x * y)"
    and "folds_to g t (ConstFoldingAnd g inst) (x AND y)"
    and "folds_to g t (ConstFoldingOr g inst) (x OR y)"
    and "folds_to g t (ConstFoldingXor g inst) (x XOR y)"
    and "folds_to g t (ConstFoldingShl g inst) (push_bit (shift_by t y) x)"
    and "folds_to g t (ConstFoldingShr g inst) (drop_bit (shift_by t y) (take_bit (int_width t) x))"
    and "folds_to g t (ConstFoldingAShr g inst) (drop_bit (shift_by t y) x)"
    and "y \<noteq> 0 \<Longrightarrow> folds_to g t (ConstFoldingDiv fo g inst) (x sdiv y)"
    and "y \<noteq> 0 \<Longrightarrow> folds_to g t (ConstFoldingMod fo g inst) (x smod y)"
    and "y = 0 \<Longrightarrow> ConstFoldingDiv fo g inst = (Kept, g) \<and> ConstFoldingMod fo g inst = (Kept, g)"
proof -
  have t: "is_int (itype inst)" "IsTypeSigned (itype inst)" using assms(1,2) by (auto simp: is_int_def IsTypeSigned_def)
  note d = canonical_denotes[OF t(1)]
  have c: "canonical2 (itype inst) c0 c1 x y" "denote2 (itype inst) c0 c1 x y"
    using assms(2,5,6) d by (simp_all add: canonical2_def denote2_def)
  note i = t(1) assms(3,4)
  show "folds_to g t (ConstFoldingAdd fo g inst) (x + y)" "folds_to g t (ConstFoldingSub fo g inst) (x - y)"
    "folds_to g t (ConstFoldingMul fo g inst) (x * y)" "folds_to g t (ConstFoldingAnd g inst) (x AND y)"
    "folds_to g t (ConstFoldingOr g inst) (x OR y)" "folds_to g t (ConstFoldingXor g inst) (x XOR y)"
    "folds_to g t (ConstFoldingShl g inst) (push_bit (shift_by t y) x)"
    "folds_to g t (ConstFoldingShr g inst) (drop_bit (shift_by t y) (take_bit (int_width t) x))"
    using fold_add.folds[OF i c(2)] fold_sub.folds[OF i c(2)] fold_mul.folds[OF i c(2)] fold_and.folds[OF i c(2)]
      fold_or.folds[OF i c(2)] fold_xor.folds[OF i c(2)] fold_shl.folds[OF i c(2)] fold_shr.folds[OF i c(2)] assms(2) by simp_all
  show "folds_to g t (ConstFoldingAShr g inst) (drop_bit (shift_by t y) x)"
    using fold_ashr.folds[OF i, of x y g] t(2) assms(2,5,6) d by simp
  show "folds_to g t (ConstFoldingDiv fo g inst) (x sdiv y)" "folds_to g t (ConstFoldingMod fo g inst) (x smod y)" if "y \<noteq> 0"
    using fold_div.folds[OF i, of x y g fo] fold_mod.folds[OF i, of x y g fo] that c assms(2) by simp_all
  have "GetIntValue c1 = 0" if "y = 0"
    using assms(6) that by (metis canonical_def signed_0 signed_word_eqI uint_0_iff)
  then show "ConstFoldingDiv fo g inst = (Kept, g) \<and> ConstFoldingMod fo g inst = (Kept, g)" if "y = 0"
    using that i by (simp add: ConstFoldingDiv_def ConstFoldingMod_def ConstFoldingDivInt2Int_def is_int_common[OF t(1)])
qed

text \<open>C4: Constant folding gives what the interpreter computes. If two constants hold the accumulator's and
  the register's value at INT32 or INT64, then folding the instruction yields a constant that denotes the
  value which the handler of that instruction leaves in the accumulator, for addition, subtraction,
  multiplication, the bitwise operations and shifts, and for division and remainder by a divisor that is
  not zero; with a zero divisor the instruction is not folded and the interpreter throws.\<close>

theorem folding_agrees_with_interpreter:
  assumes "t \<in> {INT32, INT64}" "itype inst = t" "input0 inst = Constant c0" "input1 inst = Constant c1"
    and "GetVReg s (vreg0 i) = Some r" "canonical t c0 (ival t (acc s))" "canonical t c1 (ival t r)"
  shows "list_all (\<lambda>(folding, h). agrees t s (folding g inst) (h env i s))
      (if t = INT32 then folded_int32 fo else folded_int64 fo) \<and>
    list_all (\<lambda>(folding, h32, h64). let h = if t = INT32 then h32 else h64 in
      if ival t r = 0 then folding g inst = (Kept, g) \<and> h env i s = Some (ThrowTo ArithmeticException env i s)
      else agrees t s (folding g inst) (h env i s)) (folded_div fo)"
proof -
  note folded = folded_ops[OF assms(1,2,3,4,6,7), where g = g]
  consider "t = INT32" | "t = INT64" using assms(1) by blast
  then show ?thesis
  proof cases
    case 1
    note laws = common_op_laws[THEN int32.op2, OF assms(5)] shift32_laws[THEN int32.op2, OF assms(5)]
    show ?thesis
      using folded
      unfolding 1 folded_int32_def folded_div_def list.pred_inject prod.case handler_defs if_P[OF refl] Let_def
      by (intro conjI list.pred_inject(1) laws[THEN agreesI] laws[THEN division_agreesI]) simp_all
  next
    case 2
    have ne: "(INT64 = INT32) = False" by simp
    note laws = common_op_laws[THEN int64.op2, OF assms(5)] shift64_laws[THEN int64.op2, OF assms(5)]
    show ?thesis
      using folded
      unfolding 2 folded_int64_def folded_div_def list.pred_inject prod.case handler_defs Let_def ne if_False
      by (intro conjI list.pred_inject(1) laws[THEN agreesI] laws[THEN division_agreesI]) simp_all
  qed
qed

theorem folding_agrees_with_interpreter_witness:
  "\<forall>fo. agrees INT32 (mk_interp [SetPrimitive 3] (SetPrimitive 2147483647) (\<lambda>_. None) None)
     (ConstFoldingAdd fo (empty_graph True) (mk_inst INT32 INT32 (Constant (const64 2147483647)) (Constant (const64 3)) CC_EQ))
     (HandleAdd2 (quiet_env fo) (mk_binst 0 0 0) (mk_interp [SetPrimitive 3] (SetPrimitive 2147483647) (\<lambda>_. None) None))"
proof
  fix fo
  let ?s = "mk_interp [SetPrimitive 3] (SetPrimitive 2147483647) (\<lambda>_. None) None" and ?i = "mk_binst 0 0 0"
  let ?inst = "mk_inst INT32 INT32 (Constant (const64 2147483647)) (Constant (const64 3)) CC_EQ"
  have v: "GetVReg ?s (vreg0 ?i) = Some (SetPrimitive 3)"
    by (simp add: GetVReg_def nth_opt_def mk_interp_def mk_binst_def)
  have "canonical INT32 (const64 2147483647) (ival INT32 (acc ?s))" "canonical INT32 (const64 3) (ival INT32 (SetPrimitive 3))"
    by (simp_all add: canonical_def const64_def GetIntValue_def ival_def wrap_int_def IsTypeSigned_def mk_interp_def SetPrimitive_def
        signed_take_bit_eq_if_positive)
  then show "agrees INT32 ?s (ConstFoldingAdd fo (empty_graph True) ?inst) (HandleAdd2 (quiet_env fo) ?i ?s)"
    using folding_agrees_with_interpreter[of INT32 ?inst _ _ ?s ?i, OF _ _ _ _ v] unfolding folded_int32_def by simp
qed

end
